(* ===== verification/RTT_Prelude.thy ===== *)
theory RTT_Prelude
  imports Main "HOL-Library.Word" "HOL-Library.Monad_Syntax"
begin

unbundle bit_operations_syntax

text \<open>
  Shared vocabulary of the development: the integer types of \<^verbatim>\<open>rtdef.h\<close>, the kernel's
  error codes, \<^verbatim>\<open>RT_ASSERT\<close>, byte copies with explicit bounds, and the lemmas on
  options, lists, words and rings that several components use.

  A model function that can fail to return has an \<open>option\<close> result. \<open>None\<close> stands for
  a run that never returns to its caller in a defined state: \<^verbatim>\<open>RT_ASSERT\<close> failed (the
  handler of \<^verbatim>\<open>kservice.c\<close> spins for ever when no hook is set), an array or a list head
  is accessed out of bounds, or a null pointer is followed.
\<close>

named_theorems rt_simps \<open>unfolding rules of small kernel helpers\<close>
named_theorems err_simps \<open>values of the error codes\<close>

type_synonym u8 = "8 word"
type_synonym u16 = "16 word"
type_synonym u32 = "32 word"
type_synonym rt_err_t = int

section \<open>Error codes\<close>

definition RT_EOK :: rt_err_t where "RT_EOK = 0"
definition RT_ERROR :: rt_err_t where "RT_ERROR = 1"
definition RT_ETIMEOUT :: rt_err_t where "RT_ETIMEOUT = 2"
definition RT_EFULL :: rt_err_t where "RT_EFULL = 3"
definition RT_EEMPTY :: rt_err_t where "RT_EEMPTY = 4"
definition RT_ENOMEM :: rt_err_t where "RT_ENOMEM = 5"
definition RT_ENOSYS :: rt_err_t where "RT_ENOSYS = 6"
definition RT_EBUSY :: rt_err_t where "RT_EBUSY = 7"
definition RT_EIO :: rt_err_t where "RT_EIO = 8"
definition RT_EINTR :: rt_err_t where "RT_EINTR = 9"
definition RT_EINVAL :: rt_err_t where "RT_EINVAL = 10"

lemmas err_code_defs [err_simps] =
  RT_EOK_def RT_ERROR_def RT_ETIMEOUT_def RT_EFULL_def RT_EEMPTY_def RT_ENOMEM_def
  RT_ENOSYS_def RT_EBUSY_def RT_EIO_def RT_EINTR_def RT_EINVAL_def

section \<open>Assertions\<close>

definition rt_assert :: "bool \<Rightarrow> unit option" where
  "rt_assert ex = (if ex then Some () else None)"

lemma bind_rt_assert [simp]:
  "Option.bind (rt_assert b) f = (if b then f () else None)"
  by (simp add: rt_assert_def)

lemma rt_assert_True [simp]: "rt_assert True = Some ()"
  by (simp add: rt_assert_def)

lemma bind_Some_iff:
  "(Option.bind m f = Some r) = (\<exists>x. m = Some x \<and> f x = Some r)"
  by (cases m) auto

lemma if_None_Some_iff [simp]:
  "((if b then x else None) = Some r) = (b \<and> x = Some r)"
  "((if b then None else x) = Some r) = (\<not> b \<and> x = Some r)"
  by auto

section \<open>Alignment\<close>

definition RT_ALIGN :: "u32 \<Rightarrow> u32 \<Rightarrow> u32" where
  "RT_ALIGN sz align = (sz + align - 1) AND NOT (align - 1)"

definition RT_ALIGN_DOWN :: "u32 \<Rightarrow> u32 \<Rightarrow> u32" where
  "RT_ALIGN_DOWN sz align = sz AND NOT (align - 1)"

definition RT_ALIGN_SIZE :: u32 where "RT_ALIGN_SIZE = 4"

section \<open>Byte copies\<close>

text \<open>
  \<open>memcpy_at dst d src s n\<close> is \<^verbatim>\<open>memcpy(&dst[d], &src[s], n)\<close> on two disjoint arrays,
  with the C integer offsets and count. A negative count is a huge \<^verbatim>\<open>size_t\<close>, so it leaves
  the arrays as well.
\<close>

definition memcpy_at :: "'a list \<Rightarrow> int \<Rightarrow> 'a list \<Rightarrow> int \<Rightarrow> int \<Rightarrow> 'a list option" where
  "memcpy_at dst d src s n =
     (if 0 \<le> d \<and> 0 \<le> s \<and> 0 \<le> n \<and> d + n \<le> int (length dst) \<and> s + n \<le> int (length src)
      then Some (take (nat d) dst @ take (nat n) (drop (nat s) src) @ drop (nat (d + n)) dst)
      else None)"

lemma memcpy_at_Some:
  assumes "d + n \<le> length dst" "s + n \<le> length src"
  obtains dst' where "memcpy_at dst (int d) src (int s) (int n) = Some dst'"
    and "length dst' = length dst"
    and "\<And>i. i < length dst \<Longrightarrow>
           dst' ! i = (if d \<le> i \<and> i < d + n then src ! (s + (i - d)) else dst ! i)"
proof
  let ?dst' = "take d dst @ take n (drop s src) @ drop (d + n) dst"
  have nat_sum: "nat (int d + int n) = d + n" by simp
  show "memcpy_at dst (int d) src (int s) (int n) = Some ?dst'"
    using assms by (simp add: memcpy_at_def nat_sum)
  show "length ?dst' = length dst" using assms by simp
  fix i assume "i < length dst"
  then show "?dst' ! i = (if d \<le> i \<and> i < d + n then src ! (s + (i - d)) else dst ! i)"
    using assms by (auto simp: nth_append min_absorb2 add_diff_inverse_nat)
qed

section \<open>Lists\<close>

lemma find_filter: "find P l = (case filter P l of [] \<Rightarrow> None | x # _ \<Rightarrow> Some x)"
  by (induction l) auto

section \<open>Rings\<close>

text \<open>
  The elements a ring of length \<open>length buf\<close> holds from index \<open>r\<close> on: the abstraction
  function of the byte ring buffer and of the mailbox.
\<close>

definition ring_seg :: "'a list \<Rightarrow> nat \<Rightarrow> nat \<Rightarrow> 'a list" where
  "ring_seg buf r c = map (\<lambda>k. buf ! ((r + k) mod length buf)) [0..<c]"

lemma length_ring_seg [simp]: "length (ring_seg buf r c) = c"
  by (simp add: ring_seg_def)

lemma nth_ring_seg [simp]: "k < c \<Longrightarrow> ring_seg buf r c ! k = buf ! ((r + k) mod length buf)"
  by (simp add: ring_seg_def)

lemma ring_seg_0 [simp]: "ring_seg buf r 0 = []"
  by (simp add: ring_seg_def)

lemma ring_seg_nil_iff [simp]: "ring_seg buf r c = [] \<longleftrightarrow> c = 0"
  by (simp add: ring_seg_def)

lemma ring_seg_append:
  assumes "length buf' = length buf"
    and "\<And>k. k < c \<Longrightarrow> buf' ! ((r + k) mod length buf) = buf ! ((r + k) mod length buf)"
    and "\<And>j. j < length xs \<Longrightarrow> buf' ! ((r + c + j) mod length buf) = xs ! j"
  shows "ring_seg buf' r (c + length xs) = ring_seg buf r c @ xs"
proof (rule nth_equalityI)
  show "length (ring_seg buf' r (c + length xs)) = length (ring_seg buf r c @ xs)" by simp
next
  fix i assume "i < length (ring_seg buf' r (c + length xs))"
  then have i: "i < c + length xs" by simp
  show "ring_seg buf' r (c + length xs) ! i = (ring_seg buf r c @ xs) ! i"
  proof (cases "i < c")
    case True
    with i assms(1,2) show ?thesis by (simp add: nth_append)
  next
    case False
    with i have "i - c < length xs" by simp
    from assms(3)[OF this] False i assms(1) show ?thesis
      by (simp add: nth_append add.assoc)
  qed
qed

lemma take_ring_seg: "take m (ring_seg buf r c) = ring_seg buf r (min m c)"
  by (simp add: ring_seg_def take_map take_upt min_def)

lemma drop_ring_seg:
  "drop m (ring_seg buf r c) = ring_seg buf ((r + m) mod length buf) (c - m)"
  by (rule nth_equalityI) (auto simp: mod_add_left_eq add.assoc)

lemma ring_seg_mod: "ring_seg buf (r mod length buf) c = ring_seg buf r c"
  by (rule nth_equalityI) (simp_all add: mod_add_left_eq)

lemma ring_seg_Suc:
  "0 < length buf \<Longrightarrow> r < length buf \<Longrightarrow>
   ring_seg buf r (Suc c) = buf ! r # ring_seg buf (Suc r mod length buf) c"
  by (rule nth_equalityI) (auto simp: nth_Cons mod_add_left_eq split: nat.splits)

lemma mod_double: "(a::nat) < 2 * c \<Longrightarrow> a mod c = (if a < c then a else a - c)"
  by (cases "a < c") (simp_all add: le_mod_geq)

lemma ring_disjoint:
  "\<lbrakk> r < cap; k < c; c + n \<le> cap; j < n \<rbrakk> \<Longrightarrow> (r + k) mod cap \<noteq> (r + c + j) mod (cap::nat)"
  by (auto simp: mod_double split: if_splits)

text \<open>
  Writing \<open>xs\<close> behind \<open>c\<close> elements of a ring, given what the write leaves at each index.
\<close>

lemma ring_seg_write:
  assumes len: "length buf' = length buf" and r: "r < length buf" and fits: "c + n \<le> length buf"
    and new: "\<And>j. j < n \<Longrightarrow> buf' ! ((r + c + j) mod length buf) = xs ! j"
    and old: "\<And>i. i < length buf \<Longrightarrow> (\<forall>j<n. i \<noteq> (r + c + j) mod length buf) \<Longrightarrow> buf' ! i = buf ! i"
    and n: "n \<le> length xs"
  shows "ring_seg buf' r (c + n) = ring_seg buf r c @ take n xs"
proof -
  have "ring_seg buf' r (c + length (take n xs)) = ring_seg buf r c @ take n xs"
  proof (rule ring_seg_append [OF len])
    fix k assume k: "k < c"
    have "(r + k) mod length buf < length buf" using r by (intro mod_less_divisor) linarith
    then show "buf' ! ((r + k) mod length buf) = buf ! ((r + k) mod length buf)"
      by (rule old) (use ring_disjoint [OF r k fits] in blast)
  qed (use new in simp)
  with n show ?thesis by (simp add: min_absorb2)
qed

text \<open>The block copies of a ring: in one piece, or split at the end of the array.\<close>

lemma ring_copy_in1:
  assumes "w + n \<le> length buf" "off + n \<le> length src" "w < length buf" "n \<le> length buf"
  obtains buf' where "memcpy_at buf (int w) src (int off) (int n) = Some buf'"
    and "length buf' = length buf"
    and "\<And>j. j < n \<Longrightarrow> buf' ! ((w + j) mod length buf) = src ! (off + j)"
    and "\<And>i. i < length buf \<Longrightarrow> (\<forall>j<n. i \<noteq> (w + j) mod length buf) \<Longrightarrow> buf' ! i = buf ! i"
proof -
  obtain buf' where m: "memcpy_at buf (int w) src (int off) (int n) = Some buf'"
    and l: "length buf' = length buf"
    and nth: "\<And>i. i < length buf \<Longrightarrow>
           buf' ! i = (if w \<le> i \<and> i < w + n then src ! (off + (i - w)) else buf ! i)"
    by (rule memcpy_at_Some [OF assms(1,2)]) blast
  show ?thesis
  proof (rule that [OF m l])
    fix j assume "j < n" with assms show "buf' ! ((w + j) mod length buf) = src ! (off + j)"
      by (simp add: nth)
  next
    fix i assume i: "i < length buf" and ne: "\<forall>j<n. i \<noteq> (w + j) mod length buf"
    show "buf' ! i = buf ! i"
    proof (cases "w \<le> i \<and> i < w + n")
      case True
      then have "i - w < n" "i = (w + (i - w)) mod length buf" using i by auto
      with ne show ?thesis by blast
    qed (use i nth in auto)
  qed
qed

lemma ring_copy_in2:
  assumes n: "length buf - w \<le> n" "n \<le> length buf" and src: "off + n \<le> length src"
    and w: "w < length buf"
  obtains buf1 buf' where
    "memcpy_at buf (int w) src (int off) (int (length buf - w)) = Some buf1"
    and "memcpy_at buf1 0 src (int (off + (length buf - w))) (int (n - (length buf - w))) = Some buf'"
    and "length buf' = length buf"
    and "\<And>j. j < n \<Longrightarrow> buf' ! ((w + j) mod length buf) = src ! (off + j)"
    and "\<And>i. i < length buf \<Longrightarrow> (\<forall>j<n. i \<noteq> (w + j) mod length buf) \<Longrightarrow> buf' ! i = buf ! i"
proof -
  let ?r = "length buf - w"
  have a: "w + ?r \<le> length buf" "off + ?r \<le> length src" using n src w by auto
  obtain buf1 where m1: "memcpy_at buf (int w) src (int off) (int ?r) = Some buf1"
    and l1: "length buf1 = length buf"
    and nth1: "\<And>i. i < length buf \<Longrightarrow>
           buf1 ! i = (if w \<le> i \<and> i < w + ?r then src ! (off + (i - w)) else buf ! i)"
    by (rule memcpy_at_Some [OF a]) blast
  have b: "0 + (n - ?r) \<le> length buf1" "off + ?r + (n - ?r) \<le> length src" using n src w l1 by auto
  obtain buf' where m2: "memcpy_at buf1 (int 0) src (int (off + ?r)) (int (n - ?r)) = Some buf'"
    and l2: "length buf' = length buf1"
    and nth2: "\<And>i. i < length buf1 \<Longrightarrow>
           buf' ! i = (if 0 \<le> i \<and> i < 0 + (n - ?r) then src ! (off + ?r + (i - 0)) else buf1 ! i)"
    by (rule memcpy_at_Some [OF b]) blast
  show ?thesis
  proof (rule that [OF m1])
    show "memcpy_at buf1 0 src (int (off + ?r)) (int (n - ?r)) = Some buf'" using m2 by simp
    show "length buf' = length buf" using l1 l2 by simp
  next
    fix j assume j: "j < n"
    then have "w + j < 2 * length buf" using n w by simp
    then show "buf' ! ((w + j) mod length buf) = src ! (off + j)"
      using j n w by (auto simp: mod_double nth1 nth2 l1)
  next
    fix i assume i: "i < length buf" and ne: "\<forall>j<n. i \<noteq> (w + j) mod length buf"
    have "\<not> w \<le> i"
    proof
      assume "w \<le> i"
      then have "i - w < n" "i = (w + (i - w)) mod length buf" using i n by auto
      with ne show False by blast
    qed
    moreover have "\<not> i < n - ?r"
    proof
      assume "i < n - ?r"
      then have "?r + i < n" "i = (w + (?r + i)) mod length buf" using i w by auto
      with ne show False by blast
    qed
    ultimately show "buf' ! i = buf ! i" using i by (simp add: nth1 nth2 l1)
  qed
qed

text \<open>A write that overwrites the oldest elements leaves a full ring that starts behind it.\<close>

lemma ring_seg_overwrite:
  assumes len: "length buf' = length buf" and w: "w < length buf"
    and pos: "(r + c) mod length buf = w"
    and c: "c \<le> length buf" "n \<le> length buf" "length buf \<le> c + n" "n \<le> length xs"
    and new: "\<And>j. j < n \<Longrightarrow> buf' ! ((w + j) mod length buf) = xs ! j"
    and old: "\<And>i. i < length buf \<Longrightarrow> (\<forall>j<n. i \<noteq> (w + j) mod length buf) \<Longrightarrow> buf' ! i = buf ! i"
  shows "ring_seg buf' ((w + n) mod length buf) (length buf)
    = drop (c + n - length buf) (ring_seg buf r c) @ take n xs"
    (is "?l = ?r")
proof (rule nth_equalityI)
  show "length ?l = length ?r" using c by simp
  fix k assume "k < length ?l"
  then have k: "k < length buf" by simp
  have lk: "?l ! k = buf' ! ((w + n + k) mod length buf)"
    using k len by (simp add: mod_add_left_eq)
  show "?l ! k = ?r ! k"
  proof (cases "k < length buf - n")
    case True
    let ?m = "c + n - length buf"
    have "(w + n + k) mod length buf < length buf" using w by (intro mod_less_divisor) linarith
    moreover have "\<forall>j<n. (w + n + k) mod length buf \<noteq> (w + j) mod length buf"
      using True w c by (auto simp: mod_double split: if_splits)
    ultimately have "?l ! k = buf ! ((w + n + k) mod length buf)" unfolding lk by (rule old)
    moreover have "(w + n + k) mod length buf = (r + (?m + k)) mod length buf"
    proof -
      have "(w + n + k) mod length buf = (r + c + n + k) mod length buf"
        unfolding pos [symmetric] by (simp add: mod_simps add.assoc)
      also have "r + c + n + k = r + (?m + k) + length buf" using c by simp
      finally show ?thesis by simp
    qed
    moreover have "?m + k < c" using True c by simp
    ultimately show ?thesis using True c by (simp add: nth_append)
  next
    case False
    let ?j = "k - (length buf - n)"
    have "?j < n" using False k by simp
    have "w + n + k = w + ?j + length buf" using False k c by simp
    then have "(w + n + k) mod length buf = (w + ?j) mod length buf" by (simp only: mod_add_self2)
    then have "?l ! k = xs ! ?j" unfolding lk using new [OF \<open>?j < n\<close>] by simp
    moreover have "length (drop (c + n - length buf) (ring_seg buf r c)) = length buf - n" using c by simp
    ultimately show ?thesis using False k c \<open>?j < n\<close> by (simp add: nth_append)
  qed
qed

text \<open>The block copies out of a ring.\<close>

lemma ring_seg_linear: "r + n \<le> length buf \<Longrightarrow> ring_seg buf r n = take n (drop r buf)"
  by (rule nth_equalityI) (auto simp: mod_less)

lemma ring_seg_wrap:
  assumes "r < length buf" "length buf - r \<le> n" "n \<le> length buf"
  shows "ring_seg buf r n = drop r buf @ take (n - (length buf - r)) buf"
  by (rule nth_equalityI) (use assms in \<open>auto simp: nth_append mod_double add.commute\<close>)

lemma ring_copy_out1:
  assumes "r + n \<le> length buf" "n \<le> length dst"
  shows "memcpy_at dst 0 buf (int r) (int n) = Some (ring_seg buf r n @ drop n dst)"
  using assms by (simp add: memcpy_at_def ring_seg_linear)

lemma ring_copy_out2:
  assumes "length buf - r \<le> n" "n \<le> length buf" "r < length buf" "n \<le> length dst"
  shows "\<exists>out. memcpy_at dst 0 buf (int r) (int (length buf - r)) = Some out \<and>
    memcpy_at out (int (length buf - r)) buf 0 (int (n - (length buf - r)))
      = Some (ring_seg buf r n @ drop n dst)"
proof -
  let ?r = "length buf - r" and ?out = "drop r buf @ drop (length buf - r) dst"
  have s: "nat (int ?r + int (n - ?r)) = n" "nat (int (n - ?r)) = n - ?r" using assms by auto
  have b: "int ?r + int (n - ?r) \<le> int (length ?out)" "0 + int (n - ?r) \<le> int (length buf)"
    using assms by auto
  have "memcpy_at dst 0 buf (int r) (int ?r) = Some ?out"
  proof -
    have "int ?r \<le> int (length dst)" "nat (int ?r) = ?r" using assms by simp_all
    then show ?thesis using assms(3) by (simp add: memcpy_at_def del: of_nat_diff)
  qed
  moreover have "memcpy_at ?out (int ?r) buf 0 (int (n - ?r)) = Some (ring_seg buf r n @ drop n dst)"
    using assms b unfolding memcpy_at_def s by (simp add: ring_seg_wrap)
  ultimately show ?thesis by blast
qed

section \<open>Words\<close>

lemma unat_of_nat_small: "n < 2 ^ LENGTH('a::len) \<Longrightarrow> unat (of_nat n :: 'a word) = n"
  by (simp add: unat_of_nat)

lemma sint16_less: "sint (x :: u16) < 32768"
  using sint_lt [of x] by simp

lemma unat_ucast_small:
  "unat (x :: 'a::len word) < 2 ^ LENGTH('b::len) \<Longrightarrow> unat (ucast x :: 'b word) = unat x"
  by (simp add: unsigned_ucast_eq take_bit_nat_eq_self)

lemma unat_u16_u32 [simp]: "unat (ucast (x :: u16) :: u32) = unat x"
  using unsigned_less [of x, where 'a=nat] by (intro unat_ucast_small) simp

lemma unat_u8_u32 [simp]: "unat (ucast (x :: u8) :: u32) = unat x"
  using unsigned_less [of x, where 'a=nat] by (intro unat_ucast_small) simp

lemma unat_add_small:
  "unat (x :: 'a::len word) + unat y < 2 ^ LENGTH('a) \<Longrightarrow> unat (x + y) = unat x + unat y"
  by (simp add: unat_word_ariths)

lemma unat_of_int_small:
  "int n < 2 ^ LENGTH('a::len) \<Longrightarrow> unat (word_of_int (int n) :: 'a word) = n"
  by (simp add: unat_of_nat)

lemma and_not_mask_sub:
  fixes x :: "'a::len word"
  shows "x AND NOT (mask n) = x - (x AND mask n)"
proof -
  have "(x AND NOT (mask n)) + (x AND mask n) = (x AND NOT (mask n)) OR (x AND mask n)"
    by (rule disjunctive_add) (auto simp: bit_simps)
  also have "\<dots> = x" by (rule bit_eqI) (auto simp: bit_simps)
  finally show ?thesis by (simp add: algebra_simps)
qed

lemma align4_pos: "4 \<le> n \<Longrightarrow> 4 \<le> n - n mod (4::nat)"
  by (metis div_greater_zero_iff minus_mod_eq_mult_div mult_le_mono2 nat_mult_1_right
      Suc_leI One_nat_def zero_less_numeral)

lemma unat_align_down:
  "unat (RT_ALIGN_DOWN x RT_ALIGN_SIZE) = unat x - unat x mod 4"
proof -
  have m: "x AND mask 2 = x mod 4" by (simp flip: take_bit_eq_mask add: take_bit_eq_mod)
  have "RT_ALIGN_DOWN x RT_ALIGN_SIZE = x - x mod 4"
    unfolding m [symmetric] and_not_mask_sub [symmetric]
    by (simp add: RT_ALIGN_DOWN_def RT_ALIGN_SIZE_def mask_eq_exp_minus_1 del: bit.compl_zero)
  moreover have "unat (x mod 4) = unat x mod 4" by (simp add: unat_mod)
  moreover have "x mod 4 \<le> x" by (simp add: word_le_nat_alt unat_mod)
  ultimately show ?thesis by (simp add: unat_sub)
qed

lemma sint_u16_small: "unat (x :: u16) < 32768 \<Longrightarrow> sint x = int (unat x)"
proof -
  assume "unat x < 32768"
  then have "uint x < 32768" by (simp add: nat_less_iff flip: nat_uint_eq)
  moreover have "- (2 ^ 15) \<le> uint x" by (rule order_trans [of _ 0]) simp_all
  ultimately have "signed_take_bit 15 (uint x) = uint x" by (intro signed_take_bit_int_eq_self) auto
  then show ?thesis by (simp add: sint_uint)
qed

lemma unat_scast_u16_u32:
  assumes "0 \<le> sint (x :: u16)"
  shows "unat (scast x :: u32) = nat (sint x)"
proof -
  have "uint (scast x :: u32) = take_bit 32 (sint x)" unfolding scast_eq unsigned_of_int by simp
  also have "\<dots> = sint x"
    using assms sint16_less [of x] by (simp add: take_bit_int_eq_self)
  finally show ?thesis by (simp flip: nat_uint_eq)
qed

lemma unat_sint_u16:
  assumes "0 \<le> sint (x :: u16)"
  shows "unat x = nat (sint x)"
proof -
  have "uint (word_of_int (sint x) :: u16) = take_bit 16 (sint x)"
    unfolding unsigned_of_int by simp
  also have "take_bit 16 (sint x) = sint x"
    using assms sint16_less [of x] by (simp add: take_bit_int_eq_self)
  finally show ?thesis by (simp flip: nat_uint_eq)
qed

lemma unat_of_nat32: "n < 2 ^ 32 \<Longrightarrow> unat (of_nat n :: u32) = n"
  by (simp add: unat_of_nat take_bit_nat_eq_self)

lemma unat_sub32: "unat b \<le> unat (a :: u32) \<Longrightarrow> unat (a - b) = unat a - unat b"
  by (simp add: unat_sub word_le_nat_alt)

lemma unat_add_nat32: "unat (x :: u32) + k < 2 ^ 32 \<Longrightarrow> unat (x + of_nat k) = unat x + k"
  by (simp add: unat_word_ariths unat_of_nat32)

lemma unat_and_not_mask:
  fixes x :: u32
  shows "unat (x AND NOT (mask k)) = unat x div 2 ^ k * 2 ^ k"
proof -
  have "unat (x AND mask k) = unat x mod 2 ^ k"
    unfolding take_bit_eq_mask [symmetric] unsigned_take_bit_eq by (rule take_bit_eq_mod)
  moreover have "x AND mask k \<le> x" by (simp add: word_le_nat_alt calculation)
  ultimately show ?thesis by (simp add: and_not_mask_sub unat_sub minus_mod_eq_div_mult)
qed

text \<open>Rounding up to a multiple of a power of two.\<close>

lemma unat_round_up:
  fixes x :: u32
  assumes "unat x + (2 ^ k - 1) < 2 ^ 32" "k < 32"
  shows "unat ((x + (2 ^ k - 1)) AND NOT (2 ^ k - 1)) = (unat x + (2 ^ k - 1)) div 2 ^ k * 2 ^ k"
proof -
  have m: "(2 ^ k - 1 :: u32) = mask k" by (simp add: mask_eq_exp_minus_1)
  have "(2 :: nat) ^ k \<le> 2 ^ 31" using assms(2) by (intro power_increasing) auto
  then have "mask k < (2 ^ 32 :: nat)" by (simp add: mask_eq_exp_minus_1)
  then have "unat (mask k :: u32) = mask k"
    using unat_of_nat32 [of "mask k"] by (simp add: of_nat_mask_eq)
  then have "unat (x + mask k) = unat x + (2 ^ k - 1)"
    using assms(1) by (subst unat_word_ariths) (simp add: mask_eq_exp_minus_1)
  then show ?thesis unfolding m by (simp add: unat_and_not_mask)
qed

section \<open>Linked lists\<close>

text \<open>The list that starts at the pointer \<open>p\<close> and is linked by \<open>nxt\<close>.\<close>

primrec chain :: "('a \<Rightarrow> 'a option) \<Rightarrow> 'a option \<Rightarrow> 'a list \<Rightarrow> bool" where
  "chain nxt p [] \<longleftrightarrow> p = None"
| "chain nxt p (x # xs) \<longleftrightarrow> p = Some x \<and> chain nxt (nxt x) xs"

lemma chain_upd [simp]: "x \<notin> set xs \<Longrightarrow> chain (nxt(x := y)) p xs = chain nxt p xs"
  by (induction xs arbitrary: p) auto

lemma chain_None [simp]: "chain nxt None xs \<longleftrightarrow> xs = []"
  by (cases xs) auto

lemma chain_snoc:
  "chain nxt p (xs @ [x]) \<Longrightarrow> y \<notin> set (xs @ [x]) \<Longrightarrow> x \<notin> set xs \<Longrightarrow> nxt y = None \<Longrightarrow>
     chain (nxt(x := Some y)) p (xs @ [x, y])"
  by (induction xs arbitrary: p) auto

lemma chain_cong: "(\<And>x. x \<in> set xs \<Longrightarrow> nxt' x = nxt x) \<Longrightarrow> chain nxt' p xs = chain nxt p xs"
  by (induction xs arbitrary: p) auto

end
