(* ===== verification/RTT_Fifo.thy ===== *)
theory RTT_Fifo
  imports RTT_Prelude
begin

text \<open>
  The contract of a bounded first-in first-out buffer, which the byte ring buffer
  (\<^verbatim>\<open>ringbuffer.c\<close>) and the mailbox ring (\<^verbatim>\<open>ipc.c\<close>) provide to their clients: what one push and
  one pop do to the contents. From these laws follows, for any interleaving of pushes and
  pops, that what is delivered and what is still held are together what was held and what
  was accepted, in that order.
\<close>

datatype 'a fifo_op = Push 'a | Pop

fun fifo_run :: "('a \<Rightarrow> 'q \<Rightarrow> 'q option) \<Rightarrow> ('q \<Rightarrow> ('a \<times> 'q) option) \<Rightarrow> 'a fifo_op list \<Rightarrow> 'q
    \<Rightarrow> 'a list \<times> 'a list \<times> 'q" where
  "fifo_run push pop [] q = ([], [], q)"
| "fifo_run push pop (Push x # ops) q =
     (case push x q of
        None \<Rightarrow> fifo_run push pop ops q
      | Some q' \<Rightarrow> (case fifo_run push pop ops q' of (acc, out, q'') \<Rightarrow> (x # acc, out, q'')))"
| "fifo_run push pop (Pop # ops) q =
     (case pop q of
        None \<Rightarrow> fifo_run push pop ops q
      | Some (y, q') \<Rightarrow> (case fifo_run push pop ops q' of (acc, out, q'') \<Rightarrow> (acc, y # out, q'')))"

locale bounded_fifo =
  fixes inv :: "'q \<Rightarrow> bool" and cap :: "'q \<Rightarrow> nat" and contents :: "'q \<Rightarrow> 'a list"
    and push :: "'a \<Rightarrow> 'q \<Rightarrow> 'q option" and pop :: "'q \<Rightarrow> ('a \<times> 'q) option"
  assumes bounded: "inv q \<Longrightarrow> length (contents q) \<le> cap q"
    and push_space: "inv q \<Longrightarrow> length (contents q) < cap q \<Longrightarrow>
      \<exists>q'. push x q = Some q' \<and> inv q' \<and> cap q' = cap q \<and> contents q' = contents q @ [x]"
    and push_full: "inv q \<Longrightarrow> length (contents q) = cap q \<Longrightarrow> push x q = None"
    and pop_some: "inv q \<Longrightarrow> contents q \<noteq> [] \<Longrightarrow>
      \<exists>q'. pop q = Some (hd (contents q), q') \<and> inv q' \<and> cap q' = cap q \<and> contents q' = tl (contents q)"
    and pop_empty: "inv q \<Longrightarrow> contents q = [] \<Longrightarrow> pop q = None"
begin

lemma push_SomeD:
  assumes "inv q" "push x q = Some q'"
  shows "inv q' \<and> cap q' = cap q \<and> contents q' = contents q @ [x]"
  using assms push_space [of q x] push_full [of q x] bounded [of q]
  by (cases "length (contents q) < cap q") auto

lemma pop_SomeD:
  assumes "inv q" "pop q = Some (y, q')"
  shows "inv q' \<and> cap q' = cap q \<and> contents q = y # contents q'"
  using assms pop_some [of q] pop_empty [of q] by (cases "contents q") auto

lemma run_conserves:
  assumes "inv q" "fifo_run push pop ops q = (acc, out, q')"
  shows "inv q' \<and> cap q' = cap q \<and> contents q @ acc = out @ contents q'"
  using assms
proof (induction ops arbitrary: q acc out)
  case (Cons op ops)
  show ?case
  proof (cases op)
    case (Push x)
    show ?thesis
    proof (cases "push x q")
      case None
      with Cons Push show ?thesis by simp
    next
      case (Some q1)
      with Cons.prems Push obtain acc1 where "fifo_run push pop ops q1 = (acc1, out, q')" "acc = x # acc1"
        by (auto split: prod.splits)
      with Cons.IH push_SomeD [OF Cons.prems(1) Some] show ?thesis by fastforce
    qed
  next
    case Pop
    show ?thesis
    proof (cases "pop q")
      case None
      with Cons Pop show ?thesis by simp
    next
      case (Some yq)
      then obtain y q1 where y: "pop q = Some (y, q1)" by (cases yq) auto
      with Cons.prems Pop obtain out1 where "fifo_run push pop ops q1 = (acc, out1, q')" "out = y # out1"
        by (auto split: prod.splits)
      with Cons.IH pop_SomeD [OF Cons.prems(1) y] show ?thesis by fastforce
    qed
  qed
qed simp

lemma pushes_accepted:
  assumes "inv q" "length (contents q) + length xs \<le> cap q"
  shows "\<exists>q'. fifo_run push pop (map Push xs) q = (xs, [], q') \<and> contents q' = contents q @ xs"
  using assms
proof (induction xs arbitrary: q)
  case (Cons x xs)
  then obtain q1 where "push x q = Some q1" "inv q1" "cap q1 = cap q" "contents q1 = contents q @ [x]"
    using push_space [of q x] by auto
  with Cons.IH [of q1] Cons.prems(2) show ?case by auto
qed simp

lemma pops_delivered:
  assumes "inv q" "n \<le> length (contents q)"
  shows "\<exists>q'. fifo_run push pop (replicate n Pop) q = ([], take n (contents q), q') \<and>
    contents q' = drop n (contents q)"
  using assms
proof (induction n arbitrary: q)
  case (Suc n)
  then have "contents q \<noteq> []" by auto
  with Suc.prems obtain q1 where "pop q = Some (hd (contents q), q1)" "inv q1" "contents q1 = tl (contents q)"
    using pop_some [of q] by auto
  with Suc.IH [of q1] Suc.prems(2) show ?case by (cases "contents q") auto
qed simp

end

end
