(* ===== verification/RTT_RingBuffer.thy ===== *)
theory RTT_RingBuffer
  imports RTT_Fifo "HOL-Library.Numeral_Type"
begin

text \<open>
  The mirrored byte ring of \<^verbatim>\<open>ringbuffer.c\<close>. Indices are the 15-bit bit fields of
  \<^verbatim>\<open>struct rt_ringbuffer\<close>, the size is the signed 16-bit field, and every copy goes through
  \<open>memcpy_at\<close>, so that writing outside the pool is \<open>None\<close>. The component is shown to
  refine a bounded queue of bytes.
\<close>

record rt_ringbuffer =
  buffer_ptr :: "u8 list"
  read_mirror :: bool
  read_index :: "15 word"
  write_mirror :: bool
  write_index :: "15 word"
  buffer_size :: u16

datatype rt_ringbuffer_state = RT_RINGBUFFER_EMPTY | RT_RINGBUFFER_FULL | RT_RINGBUFFER_HALFFULL

section \<open>Operations\<close>

definition rt_ringbuffer_status :: "rt_ringbuffer \<Rightarrow> rt_ringbuffer_state" where
  "rt_ringbuffer_status rb =
     (if read_index rb = write_index rb
      then if read_mirror rb = write_mirror rb then RT_RINGBUFFER_EMPTY else RT_RINGBUFFER_FULL
      else RT_RINGBUFFER_HALFFULL)"

definition rt_ringbuffer_init :: "u8 list \<Rightarrow> u16 \<Rightarrow> rt_ringbuffer option" where
  "rt_ringbuffer_init pool sz = do {
     rt_assert (0 < sint sz);
     Some \<lparr>buffer_ptr = pool, read_mirror = False, read_index = 0, write_mirror = False,
           write_index = 0, buffer_size = ucast (RT_ALIGN_DOWN (scast sz) RT_ALIGN_SIZE)\<rparr> }"

definition rt_ringbuffer_data_len :: "rt_ringbuffer \<Rightarrow> u32" where
  "rt_ringbuffer_data_len rb =
     (case rt_ringbuffer_status rb of
        RT_RINGBUFFER_EMPTY \<Rightarrow> 0
      | RT_RINGBUFFER_FULL \<Rightarrow> word_of_int (sint (buffer_size rb))
      | RT_RINGBUFFER_HALFFULL \<Rightarrow>
          (if write_index rb > read_index rb
           then word_of_int (uint (write_index rb) - uint (read_index rb))
           else word_of_int (sint (buffer_size rb) - (uint (read_index rb) - uint (write_index rb)))))"

definition rt_ringbuffer_space_len :: "rt_ringbuffer \<Rightarrow> u32" where
  "rt_ringbuffer_space_len rb = word_of_int (sint (buffer_size rb)) - rt_ringbuffer_data_len rb"

text \<open>
  The block operations share the arithmetic \<^verbatim>\<open>rb->buffer_size - rb->write_index\<close>, an \<open>int\<close>
  after promotion; \<^verbatim>\<open>length\<close> is the 16-bit parameter, narrowed to the free space by \<open>put\<close>.
\<close>

definition rt_ringbuffer_put :: "rt_ringbuffer \<Rightarrow> u8 list \<Rightarrow> u16 \<Rightarrow> (u32 \<times> rt_ringbuffer) option" where
  "rt_ringbuffer_put rb ptr len =
     (let sz = (ucast (rt_ringbuffer_space_len rb) :: u16) in
      if sz = 0 then Some (0, rb)
      else
        let len = (if sz < len then sz else len);
            rest = sint (buffer_size rb) - uint (write_index rb) in
        if rest > uint len then do {
          buf \<leftarrow> memcpy_at (buffer_ptr rb) (uint (write_index rb)) ptr 0 (uint len);
          Some (ucast len, rb\<lparr>buffer_ptr := buf, write_index := write_index rb + ucast len\<rparr>) }
        else do {
          buf \<leftarrow> memcpy_at (buffer_ptr rb) (uint (write_index rb)) ptr 0 rest;
          buf \<leftarrow> memcpy_at buf 0 ptr rest (uint len - rest);
          Some (ucast len, rb\<lparr>buffer_ptr := buf, write_mirror := \<not> write_mirror rb,
                             write_index := word_of_int (uint len - rest)\<rparr>) })"

definition rt_ringbuffer_put_force :: "rt_ringbuffer \<Rightarrow> u8 list \<Rightarrow> u16 \<Rightarrow> (u32 \<times> rt_ringbuffer) option" where
  "rt_ringbuffer_put_force rb ptr len =
     (let space_length = (ucast (rt_ringbuffer_space_len rb) :: u16);
          off = (if uint len > sint (buffer_size rb) then uint len - sint (buffer_size rb) else 0);
          len = (if uint len > sint (buffer_size rb) then buffer_size rb else len);
          rest = sint (buffer_size rb) - uint (write_index rb) in
      if rest > uint len then do {
        buf \<leftarrow> memcpy_at (buffer_ptr rb) (uint (write_index rb)) ptr off (uint len);
        let rb1 = rb\<lparr>buffer_ptr := buf, write_index := write_index rb + ucast len\<rparr>;
        Some (ucast len,
              if len > space_length then rb1\<lparr>read_index := write_index rb1\<rparr> else rb1) }
      else do {
        buf \<leftarrow> memcpy_at (buffer_ptr rb) (uint (write_index rb)) ptr off rest;
        buf \<leftarrow> memcpy_at buf 0 ptr (off + rest) (uint len - rest);
        let rb1 = rb\<lparr>buffer_ptr := buf, write_mirror := \<not> write_mirror rb,
                     write_index := word_of_int (uint len - rest)\<rparr>;
        Some (ucast len,
              if len > space_length
              then rb1\<lparr>read_mirror := \<not> read_mirror rb1, read_index := write_index rb1\<rparr>
              else rb1) })"

text \<open>The bytes that \<open>get\<close> copies to the caller's array are returned as a list.\<close>

definition rt_ringbuffer_get :: "rt_ringbuffer \<Rightarrow> u8 list \<Rightarrow> u16 \<Rightarrow> (u32 \<times> u8 list \<times> rt_ringbuffer) option" where
  "rt_ringbuffer_get rb ptr len =
     (let sz = rt_ringbuffer_data_len rb in
      if sz = 0 then Some (0, ptr, rb)
      else
        let len = (if sz < ucast len then ucast sz else len);
            rest = sint (buffer_size rb) - uint (read_index rb) in
        if rest > uint len then do {
          out \<leftarrow> memcpy_at ptr 0 (buffer_ptr rb) (uint (read_index rb)) (uint len);
          Some (ucast len, out, rb\<lparr>read_index := read_index rb + ucast len\<rparr>) }
        else do {
          out \<leftarrow> memcpy_at ptr 0 (buffer_ptr rb) (uint (read_index rb)) rest;
          out \<leftarrow> memcpy_at out rest (buffer_ptr rb) 0 (uint len - rest);
          Some (ucast len, out, rb\<lparr>read_mirror := \<not> read_mirror rb,
                                  read_index := word_of_int (uint len - rest)\<rparr>) })"

definition rb_store :: "rt_ringbuffer \<Rightarrow> 15 word \<Rightarrow> u8 \<Rightarrow> u8 list option" where
  "rb_store rb i ch =
     (if unat i < length (buffer_ptr rb) then Some ((buffer_ptr rb)[unat i := ch]) else None)"

definition rt_ringbuffer_putchar :: "rt_ringbuffer \<Rightarrow> u8 \<Rightarrow> (u32 \<times> rt_ringbuffer) option" where
  "rt_ringbuffer_putchar rb ch =
     (if rt_ringbuffer_space_len rb = 0 then Some (0, rb)
      else do {
        buf \<leftarrow> rb_store rb (write_index rb) ch;
        if uint (write_index rb) = sint (buffer_size rb) - 1
        then Some (1, rb\<lparr>buffer_ptr := buf, write_mirror := \<not> write_mirror rb, write_index := 0\<rparr>)
        else Some (1, rb\<lparr>buffer_ptr := buf, write_index := write_index rb + 1\<rparr>) })"

definition rt_ringbuffer_putchar_force :: "rt_ringbuffer \<Rightarrow> u8 \<Rightarrow> (u32 \<times> rt_ringbuffer) option" where
  "rt_ringbuffer_putchar_force rb ch =
     (let old_state = rt_ringbuffer_status rb in do {
        buf \<leftarrow> rb_store rb (write_index rb) ch;
        if uint (write_index rb) = sint (buffer_size rb) - 1
        then let rb1 = rb\<lparr>buffer_ptr := buf, write_mirror := \<not> write_mirror rb, write_index := 0\<rparr>
             in Some (1, if old_state = RT_RINGBUFFER_FULL
                         then rb1\<lparr>read_mirror := \<not> read_mirror rb1, read_index := write_index rb1\<rparr>
                         else rb1)
        else let rb1 = rb\<lparr>buffer_ptr := buf, write_index := write_index rb + 1\<rparr>
             in Some (1, if old_state = RT_RINGBUFFER_FULL
                         then rb1\<lparr>read_index := write_index rb1\<rparr>
                         else rb1) })"

definition rt_ringbuffer_getchar :: "rt_ringbuffer \<Rightarrow> (u8 option \<times> rt_ringbuffer) option" where
  "rt_ringbuffer_getchar rb =
     (if rt_ringbuffer_data_len rb = 0 then Some (None, rb)
      else do {
        ch \<leftarrow> (if unat (read_index rb) < length (buffer_ptr rb)
               then Some (buffer_ptr rb ! unat (read_index rb)) else None);
        if uint (read_index rb) = sint (buffer_size rb) - 1
        then Some (Some ch, rb\<lparr>read_mirror := \<not> read_mirror rb, read_index := 0\<rparr>)
        else Some (Some ch, rb\<lparr>read_index := read_index rb + 1\<rparr>) })"

definition rt_ringbuffer_reset :: "rt_ringbuffer \<Rightarrow> rt_ringbuffer" where
  "rt_ringbuffer_reset rb =
     rb\<lparr>read_mirror := False, read_index := 0, write_mirror := False, write_index := 0\<rparr>"

definition rt_ringbuffer_get_size :: "rt_ringbuffer \<Rightarrow> u16" where
  "rt_ringbuffer_get_size rb = buffer_size rb"

text \<open>
  \<^verbatim>\<open>rt_ringbuffer_create\<close> with the results of its two allocations: whether the control block
  was allocated, and the pool (of the aligned size) if that was.
\<close>

definition rt_ringbuffer_create :: "u16 \<Rightarrow> bool \<Rightarrow> (nat \<Rightarrow> u8 list option) \<Rightarrow> rt_ringbuffer option option" where
  "rt_ringbuffer_create sz rb_ok pool_malloc = do {
     rt_assert (0 < sz);
     let sz = (ucast (RT_ALIGN_DOWN (ucast sz) RT_ALIGN_SIZE) :: u16);
     if \<not> rb_ok then Some None
     else case pool_malloc (unat sz) of
            None \<Rightarrow> Some None
          | Some pool \<Rightarrow> map_option Some (rt_ringbuffer_init pool sz) }"

section \<open>Abstraction and invariant\<close>

definition rb_cap :: "rt_ringbuffer \<Rightarrow> nat" where
  "rb_cap rb = nat (sint (buffer_size rb))"

definition rb_count :: "rt_ringbuffer \<Rightarrow> nat" where
  "rb_count rb =
     (if read_mirror rb = write_mirror rb then unat (write_index rb) - unat (read_index rb)
      else rb_cap rb - unat (read_index rb) + unat (write_index rb))"

definition rb_data :: "rt_ringbuffer \<Rightarrow> u8 list" where
  "rb_data rb = ring_seg (buffer_ptr rb) (unat (read_index rb)) (rb_count rb)"

definition rb_inv :: "rt_ringbuffer \<Rightarrow> bool" where
  "rb_inv rb \<longleftrightarrow>
     0 < sint (buffer_size rb) \<and> length (buffer_ptr rb) = rb_cap rb \<and>
     unat (read_index rb) < rb_cap rb \<and> unat (write_index rb) < rb_cap rb \<and>
     (if read_mirror rb = write_mirror rb
      then unat (read_index rb) \<le> unat (write_index rb)
      else unat (write_index rb) \<le> unat (read_index rb))"

lemma rb_cap_update [simp]:
  "rb_cap (rb\<lparr>buffer_ptr := b\<rparr>) = rb_cap rb" "rb_cap (rb\<lparr>write_index := i\<rparr>) = rb_cap rb"
  "rb_cap (rb\<lparr>read_index := i\<rparr>) = rb_cap rb" "rb_cap (rb\<lparr>write_mirror := m\<rparr>) = rb_cap rb"
  "rb_cap (rb\<lparr>read_mirror := m\<rparr>) = rb_cap rb"
  by (simp_all add: rb_cap_def)

lemma rb_inv_dest:
  assumes "rb_inv rb"
  shows "sint (buffer_size rb) = int (rb_cap rb)" "0 < rb_cap rb" "rb_cap rb < 32768"
    "length (buffer_ptr rb) = rb_cap rb"
    "unat (read_index rb) < rb_cap rb" "unat (write_index rb) < rb_cap rb"
    "rb_count rb \<le> rb_cap rb"
  using assms sint16_less [of "buffer_size rb"]
  by (auto simp: rb_inv_def rb_cap_def rb_count_def split: if_splits)

lemma length_rb_data [simp]: "length (rb_data rb) = rb_count rb"
  by (simp add: rb_data_def)

lemma rb_status_cases:
  assumes "rb_inv rb"
  shows "rt_ringbuffer_status rb =
    (if rb_count rb = 0 then RT_RINGBUFFER_EMPTY
     else if rb_count rb = rb_cap rb then RT_RINGBUFFER_FULL
     else RT_RINGBUFFER_HALFFULL)"
  using assms
  by (auto simp: rt_ringbuffer_status_def rb_inv_def rb_count_def word_unat_eq_iff
      split: if_splits)

lemma rb_data_len:
  assumes "rb_inv rb"
  shows "rt_ringbuffer_data_len rb = of_nat (rb_count rb)"
proof (cases "read_index rb = write_index rb")
  case True
  then show ?thesis
    using rb_inv_dest(1) [OF assms]
    by (simp add: rt_ringbuffer_data_len_def rt_ringbuffer_status_def rb_count_def
        less_imp_le [OF rb_inv_dest(6) [OF assms]])
next
  case neq: False
  then have st: "rt_ringbuffer_status rb = RT_RINGBUFFER_HALFFULL"
    by (simp add: rt_ringbuffer_status_def)
  note inv = rb_inv_dest [OF assms]
  have u: "uint (write_index rb) = int (unat (write_index rb))"
    "uint (read_index rb) = int (unat (read_index rb))" by simp_all
  show ?thesis
  proof (cases "unat (read_index rb) < unat (write_index rb)")
    case True
    with assms have "int (unat (write_index rb)) - int (unat (read_index rb)) = int (rb_count rb)"
      by (simp add: rb_inv_def rb_count_def del: of_nat_unat split: if_splits)
    with True st show ?thesis
      by (simp add: rt_ringbuffer_data_len_def word_less_nat_alt u
          del: of_int_diff of_nat_unat)
  next
    case False
    from neq have "unat (read_index rb) \<noteq> unat (write_index rb)" by (simp add: word_unat_eq_iff)
    with False assms have "int (rb_cap rb) - (int (unat (read_index rb)) - int (unat (write_index rb)))
        = int (rb_count rb)"
      using inv(5) by (simp add: rb_inv_def rb_count_def del: of_nat_unat split: if_splits)
    with False st show ?thesis
      by (simp add: rt_ringbuffer_data_len_def word_less_nat_alt u inv(1)
          del: of_int_diff of_nat_unat)
  qed
qed

lemma rb_data_len_unat: "rb_inv rb \<Longrightarrow> unat (rt_ringbuffer_data_len rb) = rb_count rb"
  using rb_inv_dest(3,7) [of rb] by (simp add: rb_data_len unat_of_nat_small)

lemma rb_space_len:
  assumes "rb_inv rb"
  shows "rt_ringbuffer_space_len rb = of_nat (rb_cap rb - rb_count rb)"
  using rb_inv_dest(1,7) [OF assms]
  by (simp add: rt_ringbuffer_space_len_def rb_data_len [OF assms])

lemma rb_space_len_unat:
  "rb_inv rb \<Longrightarrow> unat (rt_ringbuffer_space_len rb) = rb_cap rb - rb_count rb"
  using rb_inv_dest(3) [of rb] by (simp add: rb_space_len unat_of_nat_small)


section \<open>Moving the indices\<close>

definition rb_push_index :: "rt_ringbuffer \<Rightarrow> u8 list \<Rightarrow> nat \<Rightarrow> rt_ringbuffer" where
  "rb_push_index rb buf n =
     (let w = unat (write_index rb) + n in
      if w < rb_cap rb then rb\<lparr>buffer_ptr := buf, write_index := of_nat w\<rparr>
      else rb\<lparr>buffer_ptr := buf, write_mirror := \<not> write_mirror rb,
              write_index := of_nat (w - rb_cap rb)\<rparr>)"

definition rb_pop_index :: "rt_ringbuffer \<Rightarrow> nat \<Rightarrow> rt_ringbuffer" where
  "rb_pop_index rb n =
     (let r = unat (read_index rb) + n in
      if r < rb_cap rb then rb\<lparr>read_index := of_nat r\<rparr>
      else rb\<lparr>read_mirror := \<not> read_mirror rb, read_index := of_nat (r - rb_cap rb)\<rparr>)"

lemma rb_write_pos:
  assumes "rb_inv rb"
  shows "(unat (read_index rb) + rb_count rb) mod rb_cap rb = unat (write_index rb)"
  using assms by (auto simp: rb_inv_def rb_count_def mod_double rb_cap_def split: if_splits)

lemma rb_cap_push [simp]: "rb_cap (rb_push_index rb buf n) = rb_cap rb"
  and rb_cap_pop [simp]: "rb_cap (rb_pop_index rb n) = rb_cap rb"
  by (simp_all add: rb_push_index_def rb_pop_index_def Let_def)

lemma read_index_push [simp]: "read_index (rb_push_index rb buf n) = read_index rb"
  and buffer_ptr_push [simp]: "buffer_ptr (rb_push_index rb buf n) = buf"
  by (simp_all add: rb_push_index_def Let_def)

lemma rb_push_count:
  assumes "rb_inv rb" "n \<le> rb_cap rb - rb_count rb" "length buf = rb_cap rb"
  shows "rb_inv (rb_push_index rb buf n) \<and> rb_count (rb_push_index rb buf n) = rb_count rb + n"
proof (cases "unat (write_index rb) + n < rb_cap rb")
  case True
  then have "unat (of_nat (unat (write_index rb) + n) :: 15 word) = unat (write_index rb) + n"
    using rb_inv_dest(3) [OF assms(1)] by (intro unat_of_nat_small) simp
  with True assms show ?thesis
    by (auto simp: rb_inv_def rb_count_def rb_push_index_def Let_def split: if_splits)
next
  case False
  with assms have eq: "read_mirror rb = write_mirror rb"
    by (auto simp: rb_inv_def rb_count_def split: if_splits)
  have "unat (of_nat (unat (write_index rb) + n - rb_cap rb) :: 15 word) = unat (write_index rb) + n - rb_cap rb"
    using rb_inv_dest(3,6) [OF assms(1)] assms(2) by (intro unat_of_nat_small) simp
  with False eq assms show ?thesis
    by (auto simp: rb_inv_def rb_count_def rb_push_index_def Let_def)
qed

lemma rb_push_data:
  assumes inv: "rb_inv rb" and n: "n \<le> rb_cap rb - rb_count rb" "n \<le> length xs"
    and len: "length buf = rb_cap rb"
    and new: "\<And>j. j < n \<Longrightarrow> buf ! ((unat (write_index rb) + j) mod rb_cap rb) = xs ! j"
    and old: "\<And>i. i < rb_cap rb \<Longrightarrow>
      (\<forall>j<n. i \<noteq> (unat (write_index rb) + j) mod rb_cap rb) \<Longrightarrow> buf ! i = buffer_ptr rb ! i"
  shows "rb_data (rb_push_index rb buf n) = rb_data rb @ take n xs"
proof -
  note d = rb_inv_dest [OF inv]
  have pos: "(unat (read_index rb) + rb_count rb + j) mod rb_cap rb
      = (unat (write_index rb) + j) mod rb_cap rb" for j
    by (metis rb_write_pos [OF inv] mod_add_left_eq)
  have "ring_seg buf (unat (read_index rb)) (rb_count rb + n)
      = ring_seg (buffer_ptr rb) (unat (read_index rb)) (rb_count rb) @ take n xs"
    by (rule ring_seg_write) (use d n len new old in \<open>auto simp: pos\<close>)
  then show ?thesis
    using rb_push_count [OF inv n(1) len] by (simp add: rb_data_def)
qed

lemma rb_pop_count:
  assumes "rb_inv rb" "n \<le> rb_count rb"
  shows "rb_inv (rb_pop_index rb n) \<and> rb_count (rb_pop_index rb n) = rb_count rb - n"
proof (cases "unat (read_index rb) + n < rb_cap rb")
  case True
  then have "unat (of_nat (unat (read_index rb) + n) :: 15 word) = unat (read_index rb) + n"
    using rb_inv_dest(3) [OF assms(1)] by (intro unat_of_nat_small) simp
  with True assms show ?thesis
    by (auto simp: rb_inv_def rb_count_def rb_pop_index_def Let_def split: if_splits)
next
  case False
  with assms have ne: "read_mirror rb \<noteq> write_mirror rb"
    by (auto simp: rb_inv_def rb_count_def split: if_splits)
  have "unat (of_nat (unat (read_index rb) + n - rb_cap rb) :: 15 word) = unat (read_index rb) + n - rb_cap rb"
    using rb_inv_dest(3,5,7) [OF assms(1)] assms(2) by (intro unat_of_nat_small) simp
  with False ne assms show ?thesis
    by (auto simp: rb_inv_def rb_count_def rb_pop_index_def Let_def)
qed

lemma rb_pop_data:
  assumes "rb_inv rb" "n \<le> rb_count rb"
  shows "rb_data (rb_pop_index rb n) = drop n (rb_data rb)"
proof -
  note d = rb_inv_dest [OF assms(1)]
  have r: "unat (read_index (rb_pop_index rb n)) = (unat (read_index rb) + n) mod rb_cap rb"
    using d assms(2)
    by (auto simp: rb_pop_index_def Let_def mod_double unat_of_nat_small
        simp del: of_nat_add of_nat_diff)
  have "buffer_ptr (rb_pop_index rb n) = buffer_ptr rb"
    by (simp add: rb_pop_index_def Let_def)
  then show ?thesis
    using rb_pop_count [OF assms] d by (simp add: rb_data_def drop_ring_seg r)
qed


section \<open>What the operations do\<close>

lemma rb_space16:
  assumes "rb_inv rb"
  shows "unat (ucast (rt_ringbuffer_space_len rb) :: u16) = rb_cap rb - rb_count rb"
  using rb_space_len_unat [OF assms] rb_inv_dest(3) [OF assms] by (simp add: unat_ucast_small)

lemma rb_int_facts:
  assumes "rb_inv rb"
  shows "sint (buffer_size rb) - uint (write_index rb) = int (rb_cap rb - unat (write_index rb))"
    "sint (buffer_size rb) - uint (read_index rb) = int (rb_cap rb - unat (read_index rb))"
  using rb_inv_dest [OF assms] by (simp_all add: of_nat_diff)

lemma rb_write_block:
  fixes len :: u16
  assumes inv: "rb_inv rb" and n: "unat len \<le> rb_cap rb - rb_count rb" "unat len \<le> length ptr"
  shows "\<exists>buf. (let rest = sint (buffer_size rb) - uint (write_index rb) in
        if rest > uint len then do {
          buf \<leftarrow> memcpy_at (buffer_ptr rb) (uint (write_index rb)) ptr 0 (uint len);
          Some (ucast len :: u32, rb\<lparr>buffer_ptr := buf, write_index := write_index rb + ucast len\<rparr>) }
        else do {
          buf \<leftarrow> memcpy_at (buffer_ptr rb) (uint (write_index rb)) ptr 0 rest;
          buf \<leftarrow> memcpy_at buf 0 ptr rest (uint len - rest);
          Some (ucast len, rb\<lparr>buffer_ptr := buf, write_mirror := \<not> write_mirror rb,
                             write_index := word_of_int (uint len - rest)\<rparr>) })
     = Some (ucast len, rb_push_index rb buf (unat len)) \<and>
     length buf = rb_cap rb \<and> rb_data (rb_push_index rb buf (unat len)) = rb_data rb @ take (unat len) ptr"
    (is "\<exists>buf. ?code = _ \<and> _")
proof -
  let ?w = "unat (write_index rb)" and ?n = "unat len"
  note d = rb_inv_dest [OF inv] and rest = rb_int_facts(1) [OF inv]
  have il: "uint len = int ?n" and iw: "uint (write_index rb) = int ?w" by simp_all
  show ?thesis
  proof (cases "?w + ?n < rb_cap rb")
    case True
    obtain buf where m: "memcpy_at (buffer_ptr rb) (int ?w) ptr (int 0) (int ?n) = Some buf"
      and l: "length buf = length (buffer_ptr rb)"
      and new: "\<And>j. j < ?n \<Longrightarrow> buf ! ((?w + j) mod length (buffer_ptr rb)) = ptr ! (0 + j)"
      and old: "\<And>i. i < length (buffer_ptr rb) \<Longrightarrow>
         (\<forall>j<?n. i \<noteq> (?w + j) mod length (buffer_ptr rb)) \<Longrightarrow> buf ! i = buffer_ptr rb ! i"
      by (rule ring_copy_in1 [of ?w ?n "buffer_ptr rb" 0 ptr]) (use d n True in auto)
    have "rb_data (rb_push_index rb buf ?n) = rb_data rb @ take ?n ptr"
      by (rule rb_push_data [OF inv n]) (use l d new old in auto)
    moreover have "?code = Some (ucast len, rb_push_index rb buf ?n)"
      using True m unfolding rb_push_index_def Let_def rest unfolding il iw
      by (simp del: of_nat_unat) simp
    ultimately show ?thesis using l d by auto
  next
    case False
    let ?r = "length (buffer_ptr rb) - ?w"
    obtain buf1 buf where m1: "memcpy_at (buffer_ptr rb) (int ?w) ptr (int 0) (int ?r) = Some buf1"
      and m2: "memcpy_at buf1 0 ptr (int (0 + ?r)) (int (?n - ?r)) = Some buf"
      and l: "length buf = length (buffer_ptr rb)"
      and new: "\<And>j. j < ?n \<Longrightarrow> buf ! ((?w + j) mod length (buffer_ptr rb)) = ptr ! (0 + j)"
      and old: "\<And>i. i < length (buffer_ptr rb) \<Longrightarrow>
         (\<forall>j<?n. i \<noteq> (?w + j) mod length (buffer_ptr rb)) \<Longrightarrow> buf ! i = buffer_ptr rb ! i"
      by (rule ring_copy_in2 [of "buffer_ptr rb" ?w ?n 0 ptr]) (use d n False in auto)
    have "rb_data (rb_push_index rb buf ?n) = rb_data rb @ take ?n ptr"
      by (rule rb_push_data [OF inv n]) (use l d new old in auto)
    moreover have "int ?n - int ?r = int (?n - ?r)" "?n - ?r = ?w + ?n - rb_cap rb"
      using False d by auto
    then have "?code = Some (ucast len, rb_push_index rb buf ?n)"
      using False m1 m2 unfolding rb_push_index_def Let_def rest d(4) unfolding il iw
      by (simp del: of_nat_unat of_nat_diff of_int_diff)
    ultimately show ?thesis using l d by auto
  qed
qed

lemma rb_put_appends:
  assumes inv: "rb_inv rb" and src: "unat len \<le> length ptr"
  defines "n \<equiv> min (unat len) (rb_cap rb - rb_count rb)"
  shows "\<exists>rb'. rt_ringbuffer_put rb ptr len = Some (of_nat n, rb') \<and> rb_inv rb' \<and>
    rb_cap rb' = rb_cap rb \<and> rb_data rb' = rb_data rb @ take n ptr"
proof -
  let ?sz = "ucast (rt_ringbuffer_space_len rb) :: u16"
  let ?l = "if ?sz < len then ?sz else len"
  have l: "unat ?l = n"
    unfolding n_def using rb_space16 [OF inv] by (simp add: word_less_nat_alt min_def)
  have ul: "(ucast ?l :: u32) = of_nat n" unfolding l [symmetric] by simp
  have n: "unat ?l \<le> rb_cap rb - rb_count rb" "unat ?l \<le> length ptr"
    unfolding l n_def using src by auto
  show ?thesis
  proof (cases "?sz = 0")
    case True
    with rb_space16 [OF inv] inv show ?thesis
      by (auto simp: rt_ringbuffer_put_def n_def)
  next
    case False
    obtain buf where "rt_ringbuffer_put rb ptr len = Some (ucast ?l, rb_push_index rb buf (unat ?l))"
      and "length buf = rb_cap rb"
      and "rb_data (rb_push_index rb buf (unat ?l)) = rb_data rb @ take (unat ?l) ptr"
      using rb_write_block [OF inv n] False
      unfolding rt_ringbuffer_put_def Let_def by auto
    then show ?thesis
      using rb_push_count [OF inv n(1)] unfolding l ul by auto
  qed
qed


lemma rb_get_takes:
  assumes inv: "rb_inv rb" and dst: "unat len \<le> length ptr"
  defines "n \<equiv> min (unat len) (rb_count rb)"
  shows "\<exists>rb'. rt_ringbuffer_get rb ptr len = Some (of_nat n, take n (rb_data rb) @ drop n ptr, rb') \<and>
    rb_inv rb' \<and> rb_cap rb' = rb_cap rb \<and> rb_data rb' = drop n (rb_data rb)"
proof -
  let ?sz = "rt_ringbuffer_data_len rb" and ?r = "unat (read_index rb)"
  let ?l = "if ?sz < ucast len then ucast ?sz else len"
  note d = rb_inv_dest [OF inv]
  have l: "unat ?l = n"
    unfolding n_def using rb_data_len_unat [OF inv] d(3,7)
    by (simp add: word_less_nat_alt min_def unat_ucast_small)
  have ul: "(ucast ?l :: u32) = of_nat n" unfolding l [symmetric] by simp
  have il: "uint ?l = int n" unfolding l [symmetric] by simp
  have wl: "read_index rb + ucast ?l = of_nat (?r + n)"
    unfolding l [symmetric] by simp
  have ir: "uint (read_index rb) = int ?r" by simp
  have data: "take n (rb_data rb) = ring_seg (buffer_ptr rb) ?r n"
    by (simp add: rb_data_def take_ring_seg n_def min_def)
  have n: "n \<le> rb_count rb" "n \<le> length ptr" using dst by (simp_all add: n_def)
  note rest = rb_int_facts(2) [OF inv]
  have "rt_ringbuffer_get rb ptr len
      = Some (of_nat n, ring_seg (buffer_ptr rb) ?r n @ drop n ptr, rb_pop_index rb n)"
  proof (cases "?sz = 0")
    case True
    with rb_data_len_unat [OF inv] d(5) show ?thesis
      by (simp add: rt_ringbuffer_get_def n_def rb_pop_index_def)
  next
    case False
    show ?thesis
    proof (cases "?r + n < rb_cap rb")
      case True
      then have "memcpy_at ptr 0 (buffer_ptr rb) (int ?r) (int n)
          = Some (ring_seg (buffer_ptr rb) ?r n @ drop n ptr)"
        using d n by (intro ring_copy_out1) auto
      with True False show ?thesis
        unfolding rt_ringbuffer_get_def rb_pop_index_def Let_def rest ul il wl unfolding ir
        by (simp del: of_nat_unat)
    next
      case f: False
      have a: "rb_cap rb - ?r \<le> n" "n \<le> rb_cap rb" "?r < rb_cap rb" using d n f by auto
      obtain out where m1: "memcpy_at ptr 0 (buffer_ptr rb) (int ?r) (int (rb_cap rb - ?r)) = Some out"
        and m2: "memcpy_at out (int (rb_cap rb - ?r)) (buffer_ptr rb) 0 (int (n - (rb_cap rb - ?r)))
          = Some (ring_seg (buffer_ptr rb) ?r n @ drop n ptr)"
        using ring_copy_out2 [of "buffer_ptr rb" ?r n ptr, unfolded d(4), OF a n(2)] by blast
      have "int n - int (rb_cap rb - ?r) = int (n - (rb_cap rb - ?r))"
        "n - (rb_cap rb - ?r) = ?r + n - rb_cap rb"
        using f d by auto
      with f m1 m2 False show ?thesis
        unfolding rt_ringbuffer_get_def rb_pop_index_def Let_def rest ul il wl unfolding ir
        by (simp del: of_nat_unat of_nat_diff of_int_diff)
    qed
  qed
  then show ?thesis
    using rb_pop_count [OF inv n(1)] rb_pop_data [OF inv n(1)] by (simp add: data)
qed

lemma rb_last_index:
  assumes "rb_inv rb"
  shows "uint (write_index rb) = sint (buffer_size rb) - 1 \<longleftrightarrow> unat (write_index rb) + 1 = rb_cap rb"
    "uint (read_index rb) = sint (buffer_size rb) - 1 \<longleftrightarrow> unat (read_index rb) + 1 = rb_cap rb"
proof -
  have "uint (write_index rb) = int (unat (write_index rb))"
    "uint (read_index rb) = int (unat (read_index rb))" by simp_all
  then show "uint (write_index rb) = sint (buffer_size rb) - 1 \<longleftrightarrow> unat (write_index rb) + 1 = rb_cap rb"
    "uint (read_index rb) = sint (buffer_size rb) - 1 \<longleftrightarrow> unat (read_index rb) + 1 = rb_cap rb"
    unfolding rb_inv_dest(1) [OF assms] by linarith+
qed

lemma rb_store_push:
  fixes ch :: u8
  assumes inv: "rb_inv rb" and space: "rb_count rb < rb_cap rb"
  defines "buf \<equiv> (buffer_ptr rb)[unat (write_index rb) := ch]"
  shows "rb_store rb (write_index rb) ch = Some buf"
    "(if uint (write_index rb) = sint (buffer_size rb) - 1
      then rb\<lparr>buffer_ptr := buf, write_mirror := \<not> write_mirror rb, write_index := 0\<rparr>
      else rb\<lparr>buffer_ptr := buf, write_index := write_index rb + 1\<rparr>) = rb_push_index rb buf 1"
    "rb_inv (rb_push_index rb buf 1)" "rb_data (rb_push_index rb buf 1) = rb_data rb @ [ch]"
proof -
  note d = rb_inv_dest [OF inv]
  show "rb_store rb (write_index rb) ch = Some buf"
    using d by (simp add: rb_store_def buf_def)
  show "(if uint (write_index rb) = sint (buffer_size rb) - 1
      then rb\<lparr>buffer_ptr := buf, write_mirror := \<not> write_mirror rb, write_index := 0\<rparr>
      else rb\<lparr>buffer_ptr := buf, write_index := write_index rb + 1\<rparr>) = rb_push_index rb buf 1"
    using d(6) unfolding rb_last_index [OF inv]
    by (auto simp: rb_push_index_def Let_def)
  show "rb_inv (rb_push_index rb buf 1)"
    using rb_push_count [OF inv, of 1 buf] space d by (simp add: buf_def)
  have "rb_data (rb_push_index rb buf 1) = rb_data rb @ take 1 [ch]"
    by (rule rb_push_data [OF inv]) (use space d in \<open>auto simp: buf_def nth_list_update\<close>)
  then show "rb_data (rb_push_index rb buf 1) = rb_data rb @ [ch]" by simp
qed

lemma rb_putchar_appends:
  assumes inv: "rb_inv rb"
  shows "\<exists>rb'. rt_ringbuffer_putchar rb ch =
      Some (if rb_count rb < rb_cap rb then (1, rb') else (0, rb)) \<and>
    (rb_count rb < rb_cap rb \<longrightarrow>
      rb_inv rb' \<and> rb_cap rb' = rb_cap rb \<and> rb_data rb' = rb_data rb @ [ch])"
proof (cases "rb_count rb < rb_cap rb")
  case True
  then have "rt_ringbuffer_space_len rb \<noteq> 0" using rb_space_len_unat [OF inv] by auto
  then have "rt_ringbuffer_putchar rb ch =
      Some (1, rb_push_index rb ((buffer_ptr rb)[unat (write_index rb) := ch]) 1)"
    using rb_store_push(2) [OF inv True, of ch]
    by (cases "uint (write_index rb) = sint (buffer_size rb) - 1")
      (simp_all add: rt_ringbuffer_putchar_def rb_store_push(1) [OF inv True])
  with True show ?thesis using rb_store_push(3,4) [OF inv True] by auto
next
  case False
  then have "rt_ringbuffer_space_len rb = 0"
    using rb_space_len_unat [OF inv] rb_inv_dest(7) [OF inv] by (simp add: unat_eq_zero)
  with False show ?thesis by (auto simp: rt_ringbuffer_putchar_def)
qed

lemma rb_getchar_head:
  assumes inv: "rb_inv rb"
  shows "\<exists>rb'. rt_ringbuffer_getchar rb =
      Some (if rb_data rb = [] then (None, rb) else (Some (hd (rb_data rb)), rb')) \<and>
    (rb_data rb \<noteq> [] \<longrightarrow> rb_inv rb' \<and> rb_cap rb' = rb_cap rb \<and> rb_data rb' = tl (rb_data rb))"
proof (cases "rb_count rb = 0")
  case True
  then have "rt_ringbuffer_data_len rb = 0" "rb_data rb = []"
    using rb_data_len_unat [OF inv] by (simp_all add: unat_eq_zero rb_data_def)
  then show ?thesis by (simp add: rt_ringbuffer_getchar_def)
next
  case False
  note d = rb_inv_dest [OF inv]
  have ne: "rb_data rb \<noteq> []" using False by (simp add: rb_data_def)
  have "rt_ringbuffer_data_len rb \<noteq> 0" using rb_data_len_unat [OF inv] False by auto
  moreover have "(if uint (read_index rb) = sint (buffer_size rb) - 1
      then rb\<lparr>read_mirror := \<not> read_mirror rb, read_index := 0\<rparr>
      else rb\<lparr>read_index := read_index rb + 1\<rparr>) = rb_pop_index rb 1"
    using d(5) unfolding rb_last_index [OF inv] by (auto simp: rb_pop_index_def Let_def)
  moreover have "buffer_ptr rb ! unat (read_index rb) = hd (rb_data rb)"
    using False d by (simp add: rb_data_def hd_conv_nth)
  ultimately have "rt_ringbuffer_getchar rb = Some (Some (hd (rb_data rb)), rb_pop_index rb 1)"
    using d by (auto simp: rt_ringbuffer_getchar_def)
  with ne show ?thesis
    using rb_pop_count [OF inv, of 1] rb_pop_data [OF inv, of 1] False by (simp add: drop_Suc)
qed


section \<open>Construction\<close>

lemma rt_ringbuffer_init_inv:
  assumes "rt_ringbuffer_init pool sz = Some rb" "4 \<le> sint sz" "length pool = nat (sint (buffer_size rb))"
  shows "rb_inv rb \<and> rb_data rb = [] \<and> rb_cap rb = nat (sint sz) - nat (sint sz) mod 4"
proof -
  let ?n = "nat (sint sz)" and ?a = "RT_ALIGN_DOWN (scast sz) RT_ALIGN_SIZE"
  have a: "unat ?a = ?n - ?n mod 4" "?n < 32768"
    using assms(2) sint16_less [of sz] by (simp_all add: unat_align_down unat_scast_u16_u32)
  have rb: "rb = \<lparr>buffer_ptr = pool, read_mirror = False, read_index = 0, write_mirror = False,
           write_index = 0, buffer_size = ucast ?a\<rparr>"
    using assms(1) by (simp add: rt_ringbuffer_init_def)
  obtain m where m: "?n - ?n mod 4 = m" by simp
  have "4 \<le> ?n" using assms(2) by simp
  then have "4 \<le> m" unfolding m [symmetric] by (rule align4_pos)
  moreover have "m < 32768" using a(2) m by simp
  moreover have "unat (buffer_size rb) = m"
    using a(1) \<open>m < 32768\<close> unfolding m by (simp add: rb unat_ucast_small)
  ultimately have "sint (buffer_size rb) = int m" "4 \<le> m" by (simp_all add: sint_u16_small)
  then show ?thesis
    using assms(3) unfolding m by (simp add: rb_inv_def rb_data_def rb_count_def rb_cap_def) (simp add: rb)
qed

section \<open>The ring buffer as a bounded queue\<close>

definition rb_push :: "u8 \<Rightarrow> rt_ringbuffer \<Rightarrow> rt_ringbuffer option" where
  "rb_push ch rb =
     (case rt_ringbuffer_putchar rb ch of
        Some (n, rb') \<Rightarrow> (if n = 1 then Some rb' else None)
      | None \<Rightarrow> None)"

definition rb_pop :: "rt_ringbuffer \<Rightarrow> (u8 \<times> rt_ringbuffer) option" where
  "rb_pop rb =
     (case rt_ringbuffer_getchar rb of
        Some (Some ch, rb') \<Rightarrow> Some (ch, rb')
      | _ \<Rightarrow> None)"

interpretation rbq: bounded_fifo rb_inv rb_cap rb_data rb_push rb_pop
proof unfold_locales
  fix q and x :: u8
  assume q: "rb_inv q"
  show "length (rb_data q) \<le> rb_cap q" using rb_inv_dest(7) [OF q] by simp
  show "\<exists>q'. rb_push x q = Some q' \<and> rb_inv q' \<and> rb_cap q' = rb_cap q \<and> rb_data q' = rb_data q @ [x]"
    if "length (rb_data q) < rb_cap q"
    using rb_putchar_appends [OF q, of x] that by (auto simp: rb_push_def)
  show "rb_push x q = None" if "length (rb_data q) = rb_cap q"
    using rb_putchar_appends [OF q, of x] that by (auto simp: rb_push_def)
  show "\<exists>q'. rb_pop q = Some (hd (rb_data q), q') \<and> rb_inv q' \<and> rb_cap q' = rb_cap q \<and>
      rb_data q' = tl (rb_data q)" if "rb_data q \<noteq> []"
    using rb_getchar_head [OF q] that by (auto simp: rb_pop_def)
  show "rb_pop q = None" if "rb_data q = []"
    using rb_getchar_head [OF q] that by (auto simp: rb_pop_def)
qed

section \<open>The forced writes\<close>

lemma rb_overwrite:
  assumes inv: "rb_inv rb" and n: "n \<le> rb_cap rb" "rb_cap rb \<le> rb_count rb + n" "n \<le> length xs"
    and len: "length buf = rb_cap rb"
    and new: "\<And>j. j < n \<Longrightarrow> buf ! ((unat (write_index rb) + j) mod rb_cap rb) = xs ! j"
    and old: "\<And>i. i < rb_cap rb \<Longrightarrow>
      (\<forall>j<n. i \<noteq> (unat (write_index rb) + j) mod rb_cap rb) \<Longrightarrow> buf ! i = buffer_ptr rb ! i"
    and rb': "buffer_ptr rb' = buf" "buffer_size rb' = buffer_size rb"
      "read_index rb' = write_index rb'" "read_mirror rb' \<noteq> write_mirror rb'"
      "unat (write_index rb') = (unat (write_index rb) + n) mod rb_cap rb"
  shows "rb_inv rb' \<and> rb_cap rb' = rb_cap rb \<and>
    rb_data rb' = drop (rb_count rb + n - rb_cap rb) (rb_data rb) @ take n xs"
proof -
  note d = rb_inv_dest [OF inv]
  have cap: "rb_cap rb' = rb_cap rb" using rb' by (simp add: rb_cap_def)
  have lt: "(unat (write_index rb) + n) mod rb_cap rb < rb_cap rb" using d by simp
  have "ring_seg buf ((unat (write_index rb) + n) mod length (buffer_ptr rb)) (length (buffer_ptr rb))
      = drop (rb_count rb + n - length (buffer_ptr rb))
          (ring_seg (buffer_ptr rb) (unat (read_index rb)) (rb_count rb)) @ take n xs"
    by (rule ring_seg_overwrite) (use d n len new old rb_write_pos [OF inv] in auto)
  moreover have "rb_count rb' = rb_cap rb" using rb' lt cap by (simp add: rb_count_def)
  ultimately have "rb_data rb' = drop (rb_count rb + n - rb_cap rb) (rb_data rb) @ take n xs"
    using rb' d(4) by (simp add: rb_data_def)
  with rb' lt cap d len show ?thesis by (simp add: rb_inv_def)
qed

lemma rb_putchar_force_drops_oldest:
  assumes inv: "rb_inv rb"
  shows "\<exists>rb'. rt_ringbuffer_putchar_force rb ch = Some (1, rb') \<and> rb_inv rb' \<and>
    rb_cap rb' = rb_cap rb \<and>
    rb_data rb' = (if rb_count rb = rb_cap rb then tl (rb_data rb) else rb_data rb) @ [ch]"
proof (cases "rb_count rb = rb_cap rb")
  case False
  then have space: "rb_count rb < rb_cap rb" using rb_inv_dest(7) [OF inv] by simp
  have "rt_ringbuffer_status rb \<noteq> RT_RINGBUFFER_FULL"
    using rb_status_cases [OF inv] False by simp
  then have "rt_ringbuffer_putchar_force rb ch =
      Some (1, rb_push_index rb ((buffer_ptr rb)[unat (write_index rb) := ch]) 1)"
    using rb_store_push(2) [OF inv space, of ch]
    by (cases "uint (write_index rb) = sint (buffer_size rb) - 1")
      (simp_all add: rt_ringbuffer_putchar_force_def rb_store_push(1) [OF inv space])
  with False show ?thesis using rb_store_push(3,4) [OF inv space] by auto
next
  case True
  note d = rb_inv_dest [OF inv]
  have st: "rt_ringbuffer_status rb = RT_RINGBUFFER_FULL"
    using rb_status_cases [OF inv] True d by simp
  then have m: "read_mirror rb \<noteq> write_mirror rb"
    by (auto simp: rt_ringbuffer_status_def split: if_splits)
  let ?buf = "(buffer_ptr rb)[unat (write_index rb) := ch]"
  have store: "rb_store rb (write_index rb) ch = Some ?buf" using d by (simp add: rb_store_def)
  define rb' where "rb' = (if unat (write_index rb) + 1 = rb_cap rb
      then rb\<lparr>buffer_ptr := ?buf, write_mirror := \<not> write_mirror rb, write_index := 0,
              read_mirror := \<not> read_mirror rb, read_index := 0\<rparr>
      else rb\<lparr>buffer_ptr := ?buf, write_index := write_index rb + 1, read_index := write_index rb + 1\<rparr>)"
  have call: "rt_ringbuffer_putchar_force rb ch = Some (1, rb')"
    using st store unfolding rt_ringbuffer_putchar_force_def rb_last_index [OF inv] rb'_def
    by (simp add: Let_def)
  have w': "unat (write_index rb') = (unat (write_index rb) + 1) mod rb_cap rb"
    using d by (auto simp: rb'_def unat_of_nat_small unat_add_small mod_double)
  have "rb_inv rb' \<and> rb_cap rb' = rb_cap rb \<and>
    rb_data rb' = drop (rb_count rb + 1 - rb_cap rb) (rb_data rb) @ take 1 [ch]"
    by (rule rb_overwrite [OF inv, of 1 "[ch]" ?buf])
      (use d m w' True in \<open>auto simp: rb'_def nth_list_update\<close>)
  with call True show ?thesis by (simp add: drop_Suc)
qed


lemma rb_put_force_eq:
  assumes inv: "rb_inv rb" and src: "unat len \<le> length ptr"
  defines "n \<equiv> min (unat len) (rb_cap rb)" and "off \<equiv> unat len - rb_cap rb"
  shows "\<exists>buf. length buf = rb_cap rb \<and>
    (\<forall>j<n. buf ! ((unat (write_index rb) + j) mod rb_cap rb) = ptr ! (off + j)) \<and>
    (\<forall>i<rb_cap rb. (\<forall>j<n. i \<noteq> (unat (write_index rb) + j) mod rb_cap rb) \<longrightarrow>
        buf ! i = buffer_ptr rb ! i) \<and>
    rt_ringbuffer_put_force rb ptr len = Some (of_nat n,
      let rb1 = rb_push_index rb buf n in
      if n > rb_cap rb - rb_count rb
      then if unat (write_index rb) + n < rb_cap rb then rb1\<lparr>read_index := write_index rb1\<rparr>
           else rb1\<lparr>read_mirror := \<not> read_mirror rb1, read_index := write_index rb1\<rparr>
      else rb1)"
proof -
  let ?w = "unat (write_index rb)" and ?buf = "buffer_ptr rb"
  let ?l = "if uint len > sint (buffer_size rb) then buffer_size rb else len"
  let ?off = "if uint len > sint (buffer_size rb) then uint len - sint (buffer_size rb) else 0"
  note d = rb_inv_dest [OF inv] and rest = rb_int_facts(1) [OF inv]
  have ilen: "uint len = int (unat len)" by simp
  have gt: "uint len > sint (buffer_size rb) \<longleftrightarrow> rb_cap rb < unat len" unfolding d(1) ilen by (simp del: of_nat_unat)
  have bs: "unat (buffer_size rb) = rb_cap rb"
    using d(1) by (simp add: unat_sint_u16)
  have l: "unat ?l = n" unfolding gt n_def using bs by (simp add: min_def)
  have off: "?off = int off" unfolding gt off_def unfolding d(1) ilen by auto
  have ul: "(ucast ?l :: u32) = of_nat n" unfolding l [symmetric] by simp
  have il: "uint ?l = int n" unfolding l [symmetric] by simp
  have wl: "write_index rb + ucast ?l = of_nat (?w + n)" unfolding l [symmetric] by simp
  have iw: "uint (write_index rb) = int ?w" by simp
  have sp: "ucast (rt_ringbuffer_space_len rb) < ?l \<longleftrightarrow> rb_cap rb - rb_count rb < n"
    unfolding word_less_nat_alt rb_space16 [OF inv] l ..
  have o: "off + n \<le> length ptr" "n \<le> rb_cap rb" using src by (auto simp: n_def off_def)
  show ?thesis
  proof (cases "?w + n < rb_cap rb")
    case True
    have "?w + n \<le> length ?buf" "?w < length ?buf" "n \<le> length ?buf" using True d o by auto
    from ring_copy_in1 [OF this(1) o(1) this(2,3)]
    obtain buf where "memcpy_at ?buf (int ?w) ptr (int off) (int n) = Some buf"
      and "length buf = length ?buf"
      and "\<And>j. j < n \<Longrightarrow> buf ! ((?w + j) mod length ?buf) = ptr ! (off + j)"
      and "\<And>i. i < length ?buf \<Longrightarrow> (\<forall>j<n. i \<noteq> (?w + j) mod length ?buf) \<Longrightarrow> buf ! i = ?buf ! i"
      by blast
    moreover from this True have "rt_ringbuffer_put_force rb ptr len = Some (of_nat n,
      let rb1 = rb_push_index rb buf n in
      if n > rb_cap rb - rb_count rb then rb1\<lparr>read_index := write_index rb1\<rparr> else rb1)"
      unfolding rt_ringbuffer_put_force_def rb_push_index_def Let_def rest ul il wl off sp
      unfolding iw by (simp del: of_nat_unat)
    ultimately show ?thesis using True d(4) by (intro exI [of _ buf]) (simp add: Let_def)
  next
    case False
    have "length ?buf - ?w \<le> n" "n \<le> length ?buf" "?w < length ?buf" using False d o by auto
    from ring_copy_in2 [OF this(1,2) o(1) this(3)]
    obtain buf1 buf where m: "memcpy_at ?buf (int ?w) ptr (int off) (int (length ?buf - ?w)) = Some buf1"
      "memcpy_at buf1 0 ptr (int (off + (length ?buf - ?w))) (int (n - (length ?buf - ?w))) = Some buf"
      and "length buf = length ?buf"
      and "\<And>j. j < n \<Longrightarrow> buf ! ((?w + j) mod length ?buf) = ptr ! (off + j)"
      and "\<And>i. i < length ?buf \<Longrightarrow> (\<forall>j<n. i \<noteq> (?w + j) mod length ?buf) \<Longrightarrow> buf ! i = ?buf ! i"
      by blast
    moreover have "rt_ringbuffer_put_force rb ptr len = Some (of_nat n,
      let rb1 = rb_push_index rb buf n in
      if n > rb_cap rb - rb_count rb
      then rb1\<lparr>read_mirror := \<not> read_mirror rb1, read_index := write_index rb1\<rparr> else rb1)"
    proof -
      have "int n - int (rb_cap rb - ?w) = int (n - (rb_cap rb - ?w))"
        "n - (rb_cap rb - ?w) = ?w + n - rb_cap rb"
        "int off + int (rb_cap rb - ?w) = int (off + (rb_cap rb - ?w))"
        using False d by auto
      with False m show ?thesis
        unfolding rt_ringbuffer_put_force_def rb_push_index_def Let_def rest ul il wl off sp d(4)
        unfolding iw by (simp del: of_nat_unat of_nat_diff of_int_diff of_nat_add)
    qed
    ultimately show ?thesis using False d(4) by (intro exI [of _ buf]) (simp add: Let_def)
  qed
qed


lemma rb_forced_fields:
  fixes buf :: "u8 list"
  assumes "read_mirror rb \<noteq> write_mirror rb"
  defines "rb1 n \<equiv> rb_push_index rb buf n"
  defines "rb' n \<equiv> (if unat (write_index rb) + n < rb_cap rb
     then (rb1 n)\<lparr>read_index := write_index (rb1 n)\<rparr>
     else (rb1 n)\<lparr>read_mirror := \<not> read_mirror (rb1 n), read_index := write_index (rb1 n)\<rparr>)"
  shows "buffer_ptr (rb' n) = buf" "buffer_size (rb' n) = buffer_size rb"
    "read_index (rb' n) = write_index (rb' n)" "read_mirror (rb' n) \<noteq> write_mirror (rb' n)"
  using assms(1) by (simp_all add: rb1_def rb'_def rb_push_index_def Let_def)

lemma rb_put_force_keeps_newest:
  assumes inv: "rb_inv rb" and src: "unat len \<le> length ptr"
    and ok: "read_mirror rb \<noteq> write_mirror rb \<or> rb_count rb + min (unat len) (rb_cap rb) \<le> rb_cap rb"
  defines "xs \<equiv> rb_data rb @ drop (unat len - rb_cap rb) (take (unat len) ptr)"
  shows "\<exists>rb'. rt_ringbuffer_put_force rb ptr len = Some (of_nat (min (unat len) (rb_cap rb)), rb') \<and>
    rb_inv rb' \<and> rb_cap rb' = rb_cap rb \<and> rb_data rb' = drop (length xs - rb_cap rb) xs"
proof -
  let ?n = "min (unat len) (rb_cap rb)" and ?off = "unat len - rb_cap rb" and ?w = "unat (write_index rb)"
  note d = rb_inv_dest [OF inv]
  obtain buf where len: "length buf = rb_cap rb"
    and new': "\<And>j. j < ?n \<Longrightarrow> buf ! ((?w + j) mod rb_cap rb) = ptr ! (?off + j)"
    and old: "\<And>i. i < rb_cap rb \<Longrightarrow> (\<forall>j<?n. i \<noteq> (?w + j) mod rb_cap rb) \<Longrightarrow> buf ! i = buffer_ptr rb ! i"
    and call: "rt_ringbuffer_put_force rb ptr len = Some (of_nat ?n,
      let rb1 = rb_push_index rb buf ?n in
      if ?n > rb_cap rb - rb_count rb
      then if ?w + ?n < rb_cap rb then rb1\<lparr>read_index := write_index rb1\<rparr>
           else rb1\<lparr>read_mirror := \<not> read_mirror rb1, read_index := write_index rb1\<rparr>
      else rb1)"
    using rb_put_force_eq [OF inv src] by blast
  have new: "\<And>j. j < ?n \<Longrightarrow> buf ! ((?w + j) mod rb_cap rb) = drop ?off ptr ! j"
    using new' src by simp
  have tail: "drop ?off (take (unat len) ptr) = take ?n (drop ?off ptr)"
    by (simp add: drop_take min_def)
  have n: "?n \<le> length (drop ?off ptr)" "?n \<le> rb_cap rb" using src by auto
  have lx: "length xs = rb_count rb + ?n" using n src unfolding xs_def by auto
  show ?thesis
  proof (cases "?n > rb_cap rb - rb_count rb")
    case False
    then have fits: "?n \<le> rb_cap rb - rb_count rb" by (simp only: not_less)
    have "rb_data (rb_push_index rb buf ?n) = xs"
      unfolding xs_def tail by (rule rb_push_data [OF inv fits n(1) len new old])
    moreover have "rb_inv (rb_push_index rb buf ?n)"
      using rb_push_count [OF inv _ len, of ?n] False by simp
    moreover have "length xs - rb_cap rb = 0" using fits lx d(7) by linarith
    moreover have "rt_ringbuffer_put_force rb ptr len = Some (of_nat ?n, rb_push_index rb buf ?n)"
      using call unfolding Let_def if_not_P [OF False] .
    ultimately show ?thesis by simp
  next
    case True
    let ?rb1 = "rb_push_index rb buf ?n"
    let ?rb' = "if ?w + ?n < rb_cap rb then ?rb1\<lparr>read_index := write_index ?rb1\<rparr>
           else ?rb1\<lparr>read_mirror := \<not> read_mirror ?rb1, read_index := write_index ?rb1\<rparr>"
    from ok True have m: "read_mirror rb \<noteq> write_mirror rb" by auto
    have w': "unat (write_index ?rb') = (?w + ?n) mod rb_cap rb"
      using d n(2) by (auto simp: rb_push_index_def Let_def mod_double unat_of_nat_small
          simp del: of_nat_add of_nat_diff)
    have over: "rb_cap rb \<le> rb_count rb + ?n" using True by linarith
    have f: "buffer_ptr ?rb' = buf" "buffer_size ?rb' = buffer_size rb"
      "read_index ?rb' = write_index ?rb'" "read_mirror ?rb' \<noteq> write_mirror ?rb'"
      by (rule rb_forced_fields [OF m])+
    have "rb_inv ?rb' \<and> rb_cap ?rb' = rb_cap rb \<and>
      rb_data ?rb' = drop (rb_count rb + ?n - rb_cap rb) (rb_data rb) @ take ?n (drop ?off ptr)"
      by (rule rb_overwrite [OF inv n(2) over n(1) len new old f w'])
    moreover have "rt_ringbuffer_put_force rb ptr len = Some (of_nat ?n, ?rb')"
      using call unfolding Let_def if_P [OF True] .
    moreover have "drop (length xs - rb_cap rb) xs
        = drop (rb_count rb + ?n - rb_cap rb) (rb_data rb) @ take ?n (drop ?off ptr)"
      using n(2) unfolding lx unfolding xs_def tail by simp
    ultimately show ?thesis by metis
  qed
qed

lemma rb_put_force_loses_all:
  assumes inv: "rb_inv rb" and src: "unat len \<le> length ptr"
    and eq: "read_mirror rb = write_mirror rb"
    and over: "rb_cap rb < rb_count rb + min (unat len) (rb_cap rb)"
  shows "\<exists>rb'. rt_ringbuffer_put_force rb ptr len = Some (of_nat (min (unat len) (rb_cap rb)), rb') \<and>
    rb_data rb' = []"
proof -
  let ?n = "min (unat len) (rb_cap rb)" and ?w = "unat (write_index rb)"
  have wrap: "\<not> ?w + ?n < rb_cap rb" "?n > rb_cap rb - rb_count rb"
    using inv over eq by (auto simp: rb_inv_def rb_count_def)
  obtain buf where call: "rt_ringbuffer_put_force rb ptr len = Some (of_nat ?n,
      let rb1 = rb_push_index rb buf ?n in
      if ?n > rb_cap rb - rb_count rb
      then if ?w + ?n < rb_cap rb then rb1\<lparr>read_index := write_index rb1\<rparr>
           else rb1\<lparr>read_mirror := \<not> read_mirror rb1, read_index := write_index rb1\<rparr>
      else rb1)"
    using rb_put_force_eq [OF inv src] by blast
  show ?thesis
    using wrap eq by (auto simp: call rb_data_def rb_count_def rb_push_index_def Let_def)
qed


section \<open>Properties\<close>

text \<open>
  C19: For a well-formed ring buffer, \<^verbatim>\<open>rt_ringbuffer_put\<close> appends the first
  \<open>n = min length space\<close> bytes of the caller's array and returns \<open>n\<close>, and a following
  \<^verbatim>\<open>rt_ringbuffer_get\<close> delivers the oldest bytes in order, leaves the caller's array
  unchanged behind them and keeps the rest: the block operations never write outside the
  pool and round-trip across the end of the ring.
\<close>

theorem rt_ringbuffer_put_get:
  assumes "rb_inv rb" "unat len \<le> length ptr" "unat m \<le> length dst"
  defines "n \<equiv> min (unat len) (rb_cap rb - rb_count rb)"
  shows "\<exists>rb1 rb2. rt_ringbuffer_put rb ptr len = Some (of_nat n, rb1) \<and> rb_inv rb1 \<and>
    rb_data rb1 = rb_data rb @ take n ptr \<and>
    (let k = min (unat m) (rb_count rb + n) in
     rt_ringbuffer_get rb1 dst m =
       Some (of_nat k, take k (rb_data rb @ take n ptr) @ drop k dst, rb2) \<and>
     rb_inv rb2 \<and> rb_data rb2 = drop k (rb_data rb @ take n ptr))"
proof -
  obtain rb1 where 1: "rt_ringbuffer_put rb ptr len = Some (of_nat n, rb1)" "rb_inv rb1"
    "rb_data rb1 = rb_data rb @ take n ptr"
    using rb_put_appends [OF assms(1,2)] unfolding n_def by blast
  have "n \<le> length ptr" using assms(2) by (simp add: n_def)
  then have "rb_count rb1 = rb_count rb + n"
    using 1(3) by (metis length_append length_rb_data length_take min_absorb2)
  with 1 rb_get_takes [OF 1(2) assms(3)] show ?thesis by (auto simp: Let_def)
qed

definition rb_example :: rt_ringbuffer where
  "rb_example = \<lparr>buffer_ptr = [1, 2, 3, 4, 5, 6, 7, 8], read_mirror = False, read_index = 2,
     write_mirror = False, write_index = 6, buffer_size = 8\<rparr>"

lemma rb_example_facts:
  "rb_inv rb_example" "rb_count rb_example = 4" "rb_cap rb_example = 8"
  "rb_data rb_example = [3, 4, 5, 6]"
  by (simp_all add: rb_example_def rb_inv_def rb_cap_def rb_count_def rb_data_def ring_seg_def upt_rec)

lemma rt_ringbuffer_put_get_witness:
  "\<exists>rb1 rb2. rt_ringbuffer_put rb_example [10, 11, 12] 3 = Some (3, rb1) \<and>
     rt_ringbuffer_get rb1 [0, 0, 0, 0, 0, 0, 0, 0] 8 = Some (7, [3, 4, 5, 6, 10, 11, 12, 0], rb2)"
  using rt_ringbuffer_put_get [of rb_example 3 "[10, 11, 12]" 8 "[0, 0, 0, 0, 0, 0, 0, 0]"]
  by (auto simp: rb_example_facts Let_def)

text \<open>
  Whatever sequence of \<^verbatim>\<open>rt_ringbuffer_putchar\<close> and \<^verbatim>\<open>rt_ringbuffer_getchar\<close> runs on a
  well-formed ring buffer, the bytes delivered followed by those still held are the bytes
  held at the start followed by those accepted, in order; the ring stays well-formed.
\<close>

theorem rt_ringbuffer_fifo:
  assumes "rb_inv rb" "fifo_run rb_push rb_pop ops rb = (acc, out, rb')"
  shows "rb_inv rb' \<and> rb_cap rb' = rb_cap rb \<and> rb_data rb @ acc = out @ rb_data rb'"
  using assms by (rule rbq.run_conserves)

lemma rt_ringbuffer_fifo_witness:
  "\<exists>acc out rb'. fifo_run rb_push rb_pop [Push 9, Pop, Pop] rb_example = (acc, out, rb') \<and>
     [3, 4, 5, 6] @ acc = out @ rb_data rb'"
proof -
  obtain acc out rb' where r: "fifo_run rb_push rb_pop [Push 9, Pop, Pop] rb_example = (acc, out, rb')"
    by (metis prod_cases3)
  with rt_ringbuffer_fifo [OF rb_example_facts(1) r] show ?thesis
    by (auto simp: rb_example_facts)
qed

text \<open>
  \<^verbatim>\<open>rt_ringbuffer_putchar_force\<close> always stores its byte; on a full ring it drops exactly
  the oldest one.
\<close>

theorem rt_ringbuffer_putchar_force_drops_oldest:
  assumes "rb_inv rb"
  shows "\<exists>rb'. rt_ringbuffer_putchar_force rb ch = Some (1, rb') \<and> rb_inv rb' \<and>
    rb_cap rb' = rb_cap rb \<and>
    rb_data rb' = (if rb_count rb = rb_cap rb then tl (rb_data rb) else rb_data rb) @ [ch]"
  using assms by (rule rb_putchar_force_drops_oldest)

lemma rt_ringbuffer_putchar_force_witness:
  "\<exists>rb'. rt_ringbuffer_putchar_force rb_example 9 = Some (1, rb') \<and> rb_data rb' = [3, 4, 5, 6, 9]"
  using rt_ringbuffer_putchar_force_drops_oldest [OF rb_example_facts(1), of 9]
  by (auto simp: rb_example_facts)

text \<open>
  What \<^verbatim>\<open>rt_ringbuffer_put_force\<close> keeps, on every branch. If the two mirror bits differ, or
  the block fits, it keeps the newest bytes, as its comment promises. If the bits agree and the block
  does not fit, it flips both bits and the ring reads as empty: everything is lost, the new
  block included.
\<close>

theorem rt_ringbuffer_put_force_exact:
  assumes "rb_inv rb" "unat len \<le> length ptr"
  defines "xs \<equiv> rb_data rb @ drop (unat len - rb_cap rb) (take (unat len) ptr)"
  shows "\<exists>rb'. rt_ringbuffer_put_force rb ptr len = Some (of_nat (min (unat len) (rb_cap rb)), rb') \<and>
    rb_data rb' =
      (if read_mirror rb \<noteq> write_mirror rb \<or> rb_count rb + min (unat len) (rb_cap rb) \<le> rb_cap rb
       then drop (length xs - rb_cap rb) xs else [])"
proof (cases "read_mirror rb \<noteq> write_mirror rb \<or> rb_count rb + min (unat len) (rb_cap rb) \<le> rb_cap rb")
  case True
  from rb_put_force_keeps_newest [OF assms(1,2) this] True show ?thesis unfolding xs_def by auto
next
  case False
  with rb_put_force_loses_all [OF assms(1,2)] show ?thesis unfolding xs_def by auto
qed

lemma rt_ringbuffer_put_force_witness:
  "(\<exists>rb'. rt_ringbuffer_put_force rb_example [10, 11, 12, 13, 14, 15] 6 = Some (6, rb') \<and> rb_data rb' = [])
   \<and> (\<exists>rb'. rt_ringbuffer_put_force rb_example [10] 1 = Some (1, rb') \<and> rb_data rb' = [3, 4, 5, 6, 10])"
  using rt_ringbuffer_put_force_exact [of rb_example 6 "[10, 11, 12, 13, 14, 15]"]
    rt_ringbuffer_put_force_exact [of rb_example 1 "[10]"]
  by (auto simp: rb_example_facts) (auto simp: rb_example_def)

end
