(* ===== verification/RTT_Ffs.thy ===== *)
theory RTT_Ffs
  imports RTT_Prelude
begin

text \<open>
  \<^verbatim>\<open>__rt_ffs\<close> of \<^verbatim>\<open>kservice.c\<close>: the find-first-set over a byte table that picks the highest
  ready priority. It is shown to return one more than the index of the lowest set bit.
\<close>

definition lowest_bit_bitmap :: "nat list" where
  "lowest_bit_bitmap =
    [0, 0, 1, 0, 2, 0, 1, 0, 3, 0, 1, 0, 2, 0, 1, 0,
     4, 0, 1, 0, 2, 0, 1, 0, 3, 0, 1, 0, 2, 0, 1, 0,
     5, 0, 1, 0, 2, 0, 1, 0, 3, 0, 1, 0, 2, 0, 1, 0,
     4, 0, 1, 0, 2, 0, 1, 0, 3, 0, 1, 0, 2, 0, 1, 0,
     6, 0, 1, 0, 2, 0, 1, 0, 3, 0, 1, 0, 2, 0, 1, 0,
     4, 0, 1, 0, 2, 0, 1, 0, 3, 0, 1, 0, 2, 0, 1, 0,
     5, 0, 1, 0, 2, 0, 1, 0, 3, 0, 1, 0, 2, 0, 1, 0,
     4, 0, 1, 0, 2, 0, 1, 0, 3, 0, 1, 0, 2, 0, 1, 0,
     7, 0, 1, 0, 2, 0, 1, 0, 3, 0, 1, 0, 2, 0, 1, 0,
     4, 0, 1, 0, 2, 0, 1, 0, 3, 0, 1, 0, 2, 0, 1, 0,
     5, 0, 1, 0, 2, 0, 1, 0, 3, 0, 1, 0, 2, 0, 1, 0,
     4, 0, 1, 0, 2, 0, 1, 0, 3, 0, 1, 0, 2, 0, 1, 0,
     6, 0, 1, 0, 2, 0, 1, 0, 3, 0, 1, 0, 2, 0, 1, 0,
     4, 0, 1, 0, 2, 0, 1, 0, 3, 0, 1, 0, 2, 0, 1, 0,
     5, 0, 1, 0, 2, 0, 1, 0, 3, 0, 1, 0, 2, 0, 1, 0,
     4, 0, 1, 0, 2, 0, 1, 0, 3, 0, 1, 0, 2, 0, 1, 0]"

definition rt_ffs :: "u32 \<Rightarrow> nat" where
  "rt_ffs v =
     (if v = 0 then 0
      else if v AND 0xff \<noteq> 0 then lowest_bit_bitmap ! unat (v AND 0xff) + 1
      else if v AND 0xff00 \<noteq> 0 then lowest_bit_bitmap ! unat (drop_bit 8 (v AND 0xff00)) + 9
      else if v AND 0xff0000 \<noteq> 0 then lowest_bit_bitmap ! unat (drop_bit 16 (v AND 0xff0000)) + 17
      else lowest_bit_bitmap ! unat (drop_bit 24 (v AND 0xff000000)) + 25)"

definition table_entry_ok :: "nat \<Rightarrow> nat \<Rightarrow> bool" where
  "table_entry_ok b k \<longleftrightarrow> k < 8 \<and> (b \<noteq> 0 \<longrightarrow> b mod 2 ^ k = 0 \<and> b div 2 ^ k mod 2 = 1)"

lemma table_ok: "list_all2 table_entry_ok [0..<256] lowest_bit_bitmap"
  by (simp add: lowest_bit_bitmap_def table_entry_ok_def upt_rec)

lemma table_nth:
  assumes "b < 256" "b \<noteq> 0"
  shows "lowest_bit_bitmap ! b < 8" "bit b (lowest_bit_bitmap ! b)"
    "q < lowest_bit_bitmap ! b \<Longrightarrow> \<not> bit b q"
proof -
  let ?k = "lowest_bit_bitmap ! b"
  have "table_entry_ok ([0..<256] ! b) ?k"
    using list_all2_nthD [OF table_ok, of b] assms by simp
  then have k: "?k < 8" "b mod 2 ^ ?k = 0" "b div 2 ^ ?k mod 2 = 1"
    using assms by (simp_all add: table_entry_ok_def)
  then show "?k < 8" by simp
  show "bit b ?k" using k(3) by (simp add: bit_iff_odd odd_iff_mod_2_eq_one)
  show "\<not> bit b q" if "q < ?k"
  proof
    assume "bit b q"
    then have "bit (take_bit ?k b) q" using that by (simp add: bit_take_bit_iff)
    moreover have "take_bit ?k b = 0" using k(2) by (simp add: take_bit_eq_mod)
    ultimately show False by simp
  qed
qed


text \<open>The byte at bit \<open>m\<close> of a word, as the code extracts it.\<close>

lemma byte_mask:
  "(0xff :: u32) = push_bit 0 (mask 8)" "(0xff00 :: u32) = push_bit 8 (mask 8)"
  "(0xff0000 :: u32) = push_bit 16 (mask 8)" "(0xff000000 :: u32) = push_bit 24 (mask 8)"
  by (simp_all add: mask_eq_exp_minus_1 push_bit_eq_mult)

lemma bit_byte:
  fixes v :: u32
  assumes "m \<le> 24"
  shows "bit (unat (drop_bit m (v AND push_bit m (mask 8)))) q \<longleftrightarrow> q < 8 \<and> bit v (m + q)"
  using assms by (auto simp: bit_simps unsigned_drop_bit_eq)

lemma byte_less: "unat (drop_bit m (v AND push_bit m (mask 8)) :: u32) < 256" if "m \<le> 24"
proof -
  have "drop_bit m (v AND push_bit m (mask 8)) = take_bit 8 (drop_bit m v)"
    using that by (intro bit_eqI) (auto simp: bit_simps)
  then have "drop_bit m (v AND push_bit m (mask 8)) = drop_bit m v mod 256"
    by (simp add: take_bit_eq_mod)
  then show ?thesis by (simp add: unat_mod)
qed

lemma byte_zero_iff:
  fixes v :: u32
  assumes "m \<le> 24"
  shows "v AND push_bit m (mask 8) = 0 \<longleftrightarrow> (\<forall>q<8. \<not> bit v (m + q))"
proof
  assume a: "v AND push_bit m (mask 8) = 0"
  show "\<forall>q<8. \<not> bit v (m + q)"
  proof (intro allI impI)
    fix q :: nat assume "q < 8"
    with assms have "bit (v AND push_bit m (mask 8)) (m + q) = bit v (m + q)" by (simp add: bit_simps)
    then show "\<not> bit v (m + q)" using a by simp
  qed
next
  assume a: "\<forall>q<8. \<not> bit v (m + q)"
  show "v AND push_bit m (mask 8) = 0"
  proof (rule bit_eqI)
    fix n
    have "bit v n \<Longrightarrow> m \<le> n \<Longrightarrow> n - m < 8 \<Longrightarrow> False" using a by (metis le_add_diff_inverse)
    then show "bit (v AND push_bit m (mask 8)) n = bit 0 n" by (auto simp: bit_simps)
  qed
qed

lemma byte_case:
  fixes v :: u32
  assumes m: "m \<le> 24" and nz: "v AND push_bit m (mask 8) \<noteq> 0" and low: "\<forall>q<m. \<not> bit v q"
  defines "k \<equiv> lowest_bit_bitmap ! unat (drop_bit m (v AND push_bit m (mask 8)))"
  shows "m + k < 32 \<and> bit v (m + k) \<and> (\<forall>q<m + k. \<not> bit v q)"
proof -
  let ?b = "unat (drop_bit m (v AND push_bit m (mask 8)))"
  from nz obtain q where "q < 8" "bit v (m + q)" using byte_zero_iff [OF m] by blast
  then have "?b \<noteq> 0" using bit_byte [OF m, of v q] by (metis bit_0_eq bot_apply bot_bool_def)
  note t = table_nth [OF byte_less [OF m] this, folded k_def]
  have "bit v (m + k)" using t(2) bit_byte [OF m] by blast
  moreover have "\<not> bit v q" if "q < m + k" for q
  proof (cases "q < m")
    case False
    with that have "q - m < k" by simp
    from t(3) [OF this] t(1) that False bit_byte [OF m, of v "q - m"] show ?thesis by simp
  qed (use low in blast)
  ultimately show ?thesis using t(1) m by simp
qed

lemma below_byte:
  fixes v :: u32
  assumes "v AND push_bit m (mask 8) = 0" "\<forall>q<m. \<not> bit v q" "m \<le> 24"
  shows "\<forall>q<m + 8. \<not> bit v q"
proof (intro allI impI)
  fix q assume "q < m + 8"
  then show "\<not> bit v q"
    using assms byte_zero_iff [OF assms(3), of v]
    by (cases "q < m") (metis, metis add_diff_inverse_nat add_less_cancel_left)
qed

lemma rt_ffs_Some:
  assumes "v \<noteq> 0"
  obtains p where "rt_ffs v = Suc p" "p < 32" "bit v p" "\<And>q. q < p \<Longrightarrow> \<not> bit v q"
proof -
  have "\<exists>p. rt_ffs v = Suc p \<and> p < 32 \<and> bit v p \<and> (\<forall>q<p. \<not> bit v q)"
  proof (cases "v AND 0xff = 0")
    case False
    with byte_case [of 0 v] assms show ?thesis
      unfolding rt_ffs_def byte_mask by simp
  next
    case b0: True
    then have low: "\<forall>q<8. \<not> bit v q" using below_byte [of v 0] unfolding byte_mask by simp
    show ?thesis
    proof (cases "v AND 0xff00 = 0")
      case False
      with byte_case [of 8 v] low b0 assms show ?thesis
        unfolding rt_ffs_def byte_mask by simp
    next
      case b1: True
      then have low: "\<forall>q<16. \<not> bit v q" using below_byte [of v 8] low unfolding byte_mask by simp
      show ?thesis
      proof (cases "v AND 0xff0000 = 0")
        case False
        with byte_case [of 16 v] low b0 b1 assms show ?thesis
          unfolding rt_ffs_def byte_mask by simp
      next
        case b2: True
        then have low: "\<forall>q<24. \<not> bit v q" using below_byte [of v 16] low unfolding byte_mask by simp
        have "v AND push_bit 24 (mask 8) \<noteq> 0"
        proof
          assume "v AND push_bit 24 (mask 8) = 0"
          from below_byte [OF this low] have "\<forall>q<32. \<not> bit v q" by simp
          then have "v = 0" by (intro bit_eqI) (auto dest: bit_imp_le_length)
          with assms show False by simp
        qed
        from byte_case [OF _ this low] b0 b1 b2 assms show ?thesis
          unfolding rt_ffs_def byte_mask by simp
      qed
    qed
  qed
  with that show thesis by blast
qed

lemma rt_ffs_eq:
  assumes "bit v p" "\<And>q. q < p \<Longrightarrow> \<not> bit v q"
  shows "rt_ffs v = Suc p"
proof -
  have "v \<noteq> 0" using assms(1) by auto
  then obtain p' where "rt_ffs v = Suc p'" "bit v p'" "\<And>q. q < p' \<Longrightarrow> \<not> bit v q"
    by (rule rt_ffs_Some) blast
  with assms show ?thesis by (metis linorder_neqE_nat)
qed

text \<open>
  C32: \<^verbatim>\<open>__rt_ffs\<close> returns 0 for 0, and otherwise one more than the index of the least
  significant set bit: the table lookups and byte offsets are right for every 32-bit value.
\<close>

theorem rt_ffs_correct:
  "if v = 0 then rt_ffs v = 0
   else \<exists>p<32. rt_ffs v = p + 1 \<and> bit v p \<and> \<not> (\<exists>q<p. bit v q)"
proof (cases "v = 0")
  case True
  then show ?thesis by (simp add: rt_ffs_def)
next
  case False
  from rt_ffs_Some [OF this] False show ?thesis by (metis Suc_eq_plus1)
qed

end
