(* ===== verification/RTT_State.thy ===== *)
theory RTT_State
  imports RTT_Prelude
begin

text \<open>
  The kernel state: the thread, timer and IPC objects of \<^verbatim>\<open>rtdef.h\<close> and the global variables of
  \<^verbatim>\<open>scheduler.c\<close>, \<^verbatim>\<open>clock.c\<close> and \<^verbatim>\<open>timer.c\<close>.

  Objects are addressed by identifiers. A thread node (\<^verbatim>\<open>thread->tlist\<close>) is in at most one
  circular list: the list is a sequence of thread identifiers, and the field \<open>tlist\<close> of a
  thread says which list its node is linked into. Linking a node that is already linked
  corrupts both lists in C and is \<open>None\<close> here.
\<close>

section \<open>Objects\<close>

type_synonym tid = nat
type_synonym rt_tick_t = u32

datatype timer_id = ThreadTimer tid | Timer nat

datatype obj =
    OThread tid | OSem nat | OMutex nat | OEvent nat | OMailBox nat | OMessageQueue nat
  | OMemHeap nat | OMemPool nat | ODevice nat | OTimer timer_id

datatype list_head =
    ReadyList nat | DefunctList | IpcSuspend obj | SenderSuspend obj
  | CompletionSuspend nat | PoolSuspend nat

record rt_object =
  obj_name :: string
  obj_type :: u8
  obj_flag :: u8

definition RT_Object_Class_Thread :: u8 where "RT_Object_Class_Thread = 1"
definition RT_Object_Class_Semaphore :: u8 where "RT_Object_Class_Semaphore = 2"
definition RT_Object_Class_Mutex :: u8 where "RT_Object_Class_Mutex = 3"
definition RT_Object_Class_Event :: u8 where "RT_Object_Class_Event = 4"
definition RT_Object_Class_MailBox :: u8 where "RT_Object_Class_MailBox = 5"
definition RT_Object_Class_MessageQueue :: u8 where "RT_Object_Class_MessageQueue = 6"
definition RT_Object_Class_MemHeap :: u8 where "RT_Object_Class_MemHeap = 7"
definition RT_Object_Class_MemPool :: u8 where "RT_Object_Class_MemPool = 8"
definition RT_Object_Class_Device :: u8 where "RT_Object_Class_Device = 9"
definition RT_Object_Class_Timer :: u8 where "RT_Object_Class_Timer = 10"
definition RT_Object_Class_Unknown :: u8 where "RT_Object_Class_Unknown = 12"
definition RT_Object_Class_Static :: u8 where "RT_Object_Class_Static = 0x80"

named_theorems obj_simps \<open>values of the object classes and flags\<close>

lemmas obj_class_defs [obj_simps] =
  RT_Object_Class_Thread_def RT_Object_Class_Semaphore_def RT_Object_Class_Mutex_def
  RT_Object_Class_Event_def RT_Object_Class_MailBox_def RT_Object_Class_MessageQueue_def
  RT_Object_Class_MemHeap_def RT_Object_Class_MemPool_def RT_Object_Class_Device_def RT_Object_Class_Timer_def
  RT_Object_Class_Unknown_def RT_Object_Class_Static_def

section \<open>Threads\<close>

definition RT_THREAD_INIT :: u8 where "RT_THREAD_INIT = 0"
definition RT_THREAD_READY :: u8 where "RT_THREAD_READY = 1"
definition RT_THREAD_SUSPEND :: u8 where "RT_THREAD_SUSPEND = 2"
definition RT_THREAD_CLOSE :: u8 where "RT_THREAD_CLOSE = 4"
definition RT_THREAD_STAT_MASK :: u8 where "RT_THREAD_STAT_MASK = 0x0f"

definition RT_THREAD_PRIORITY_MAX :: nat where "RT_THREAD_PRIORITY_MAX = 32"
definition RT_NAME_MAX :: nat where "RT_NAME_MAX = 32"
definition RT_TICK_MAX :: u32 where "RT_TICK_MAX = 0xffffffff"
definition RT_TICK_PER_SECOND :: u32 where "RT_TICK_PER_SECOND = 100"

lemmas thread_stat_defs =
  RT_THREAD_INIT_def RT_THREAD_READY_def RT_THREAD_SUSPEND_def RT_THREAD_CLOSE_def
  RT_THREAD_STAT_MASK_def

record rt_thread =
  tlist :: "list_head option"
  sp :: u32
  entry :: nat
  parameter :: nat
  stack_addr :: u32
  stack_size :: u32
  stack_guard :: u8
  error :: rt_err_t
  stat :: u8
  current_priority :: u8
  init_priority :: u8
  number_mask :: u32
  event_set :: u32
  event_info :: u8
  init_tick :: u32
  remaining_tick :: u32
  cleanup :: "nat option"
  cputime :: u32
  th_preempt_count :: u32

section \<open>Timers\<close>

datatype timeout_func = ThreadTimeout tid | UserTimeout nat

record rt_timer =
  timeout_func :: timeout_func
  tm_init_tick :: u32
  timeout_tick :: u32

section \<open>IPC objects\<close>

record rt_semaphore =
  sem_value :: u16

record rt_mutex =
  mutex_value :: u16
  original_priority :: u8
  hold :: u8
  owner :: "tid option"

record rt_event =
  event_bits :: u32

record rt_mailbox =
  msg_pool :: "u32 list"
  mb_size :: u16
  mb_entry :: u16
  in_offset :: u16
  out_offset :: u16

text \<open>
  A message queue carves its pool into blocks with a header \<^verbatim>\<open>struct rt_mq_message\<close> that links
  the block into the queue or the free list. \<open>mq_next\<close> is the header of each block,
  \<open>mq_data\<close> its payload, and a pointer is the index of a block.
\<close>

record rt_messagequeue =
  mq_msg_size :: u16
  max_msgs :: u16
  mq_entry :: u16
  mq_next :: "nat \<Rightarrow> nat option"
  mq_data :: "nat \<Rightarrow> u8 list"
  msg_queue_head :: "nat option"
  msg_queue_tail :: "nat option"
  msg_queue_free :: "nat option"

section \<open>Memory pools and the objects of the driver layer\<close>

text \<open>
  Each block of a memory pool starts with a pointer: the next free block, or the pool itself
  while the block is in use. A pointer to a block is its index.
\<close>

datatype mp_header = FreeLink "nat option" | OwnedBy nat

record rt_mempool =
  mp_size :: u32
  mp_block_size :: u32
  mp_block_list :: "nat option"
  block_total_count :: u32
  block_free_count :: u32
  mp_header :: "nat \<Rightarrow> mp_header"

text \<open>
  A memory heap (\<^verbatim>\<open>memheap.c\<close>) has its blocks in one area of memory, and every block starts with a
  \<^verbatim>\<open>struct rt_memheap_item\<close>. A block is addressed by the offset of that header from the start of the
  area; \<open>FreeHeader\<close> is the \<^verbatim>\<open>free_header\<close> inside \<^verbatim>\<open>struct rt_memheap\<close>. The bytes behind the headers
  are a map of their own, and \<open>heap_lock\<close> is the semaphore inside the structure.
\<close>

datatype item_ptr = FreeHeader | Item nat

record rt_memheap_item =
  item_magic :: u32
  item_pool :: "nat option"
  item_next :: "item_ptr option"
  item_prev :: "item_ptr option"
  item_next_free :: "item_ptr option"
  item_prev_free :: "item_ptr option"

record rt_memheap =
  pool_size :: u32
  available_size :: u32
  max_used_size :: u32
  block_list :: "item_ptr option"
  free_list :: item_ptr
  heap_items :: "item_ptr \<Rightarrow> rt_memheap_item"
  heap_lock :: nat
  heap_data :: "nat \<Rightarrow> u8"

record rt_completion =
  comp_flag :: u32

text \<open>A node of a wait queue knows the queue that it is linked into, as the list node does.\<close>

datatype wqueue_func = DefaultWake | UserWake nat

record rt_wqueue_node =
  polling_thread :: tid
  wq_node_list :: "nat option"
  wakeup :: wqueue_func
  wq_key :: u32

record rt_wqueue =
  wq_flag :: u32
  waiting_list :: "nat list"

record rt_workqueue =
  work_list :: "nat list"
  work_current :: "nat option"
  work_sem :: nat
  work_thread :: tid

record rt_work =
  work_node :: "nat option"
  work_func :: nat
  work_data :: nat
  work_flags :: u16
  work_type :: u16
  work_timer :: timer_id
  work_queue :: "nat option"

record rt_driver_state =
  mempools :: "nat \<Rightarrow> rt_mempool"
  memheaps :: "nat \<Rightarrow> rt_memheap"
  completions :: "nat \<Rightarrow> rt_completion"
  wqueue_nodes :: "nat \<Rightarrow> rt_wqueue_node"
  wqueues :: "nat \<Rightarrow> rt_wqueue"
  works :: "nat \<Rightarrow> rt_work"
  workqueues :: "nat \<Rightarrow> rt_workqueue"

section \<open>The state\<close>

record kstate =
  threads :: "tid \<Rightarrow> rt_thread"
  timers :: "timer_id \<Rightarrow> rt_timer"
  objects :: "obj \<Rightarrow> rt_object"
  containers :: "u8 \<Rightarrow> obj list"
  thread_lists :: "list_head \<Rightarrow> tid list"
  rt_timer_list :: "timer_id list"
  rt_soft_timer_list :: "timer_id list"
  timer_thread :: tid
  rt_current_thread :: "tid option"
  rt_current_priority :: u8
  rt_thread_ready_priority_group :: u32
  rt_tick :: rt_tick_t
  sems :: "nat \<Rightarrow> rt_semaphore"
  mutexes :: "nat \<Rightarrow> rt_mutex"
  events :: "nat \<Rightarrow> rt_event"
  mailboxes :: "nat \<Rightarrow> rt_mailbox"
  msgqueues :: "nat \<Rightarrow> rt_messagequeue"
  drivers :: rt_driver_state
  rt_errno :: rt_err_t

section \<open>Field access\<close>

definition thread_update :: "tid \<Rightarrow> (rt_thread \<Rightarrow> rt_thread) \<Rightarrow> kstate \<Rightarrow> kstate" where
  "thread_update t f s = s\<lparr>threads := (threads s)(t := f (threads s t))\<rparr>"

definition timer_update :: "timer_id \<Rightarrow> (rt_timer \<Rightarrow> rt_timer) \<Rightarrow> kstate \<Rightarrow> kstate" where
  "timer_update t f s = s\<lparr>timers := (timers s)(t := f (timers s t))\<rparr>"

definition object_update :: "obj \<Rightarrow> (rt_object \<Rightarrow> rt_object) \<Rightarrow> kstate \<Rightarrow> kstate" where
  "object_update x f s = s\<lparr>objects := (objects s)(x := f (objects s x))\<rparr>"

definition thread_stat :: "kstate \<Rightarrow> tid \<Rightarrow> u8" where
  "thread_stat s t = stat (threads s t) AND RT_THREAD_STAT_MASK"

definition rt_object_get_type :: "obj \<Rightarrow> kstate \<Rightarrow> u8" where
  "rt_object_get_type x s = obj_type (objects s x) AND NOT RT_Object_Class_Static"

definition rt_object_is_systemobject :: "obj \<Rightarrow> kstate \<Rightarrow> bool" where
  "rt_object_is_systemobject x s \<longleftrightarrow> obj_type (objects s x) AND RT_Object_Class_Static \<noteq> 0"

definition rt_thread_self :: "kstate \<Rightarrow> tid option" where
  "rt_thread_self s = rt_current_thread s"

definition rt_tick_get :: "kstate \<Rightarrow> rt_tick_t" where
  "rt_tick_get s = rt_tick s"

definition rt_tick_set :: "rt_tick_t \<Rightarrow> kstate \<Rightarrow> kstate" where
  "rt_tick_set t s = s\<lparr>rt_tick := t\<rparr>"

section \<open>Thread lists\<close>

definition rt_list_insert_before :: "list_head \<Rightarrow> tid \<Rightarrow> kstate \<Rightarrow> kstate option" where
  "rt_list_insert_before h t s =
     (if tlist (threads s t) \<noteq> None then None
      else Some (thread_update t (\<lambda>th. th\<lparr>tlist := Some h\<rparr>)
                   (s\<lparr>thread_lists := (thread_lists s)(h := thread_lists s h @ [t])\<rparr>)))"

definition rt_list_insert_after :: "list_head \<Rightarrow> tid \<Rightarrow> kstate \<Rightarrow> kstate option" where
  "rt_list_insert_after h t s =
     (if tlist (threads s t) \<noteq> None then None
      else Some (thread_update t (\<lambda>th. th\<lparr>tlist := Some h\<rparr>)
                   (s\<lparr>thread_lists := (thread_lists s)(h := t # thread_lists s h)\<rparr>)))"

definition rt_list_remove :: "tid \<Rightarrow> kstate \<Rightarrow> kstate" where
  "rt_list_remove t s =
     (case tlist (threads s t) of
        None \<Rightarrow> s
      | Some h \<Rightarrow> thread_update t (\<lambda>th. th\<lparr>tlist := None\<rparr>)
                   (s\<lparr>thread_lists := (thread_lists s)(h := remove1 t (thread_lists s h))\<rparr>))"

definition list_ok :: "kstate \<Rightarrow> bool" where
  "list_ok s \<longleftrightarrow>
     (\<forall>h. distinct (thread_lists s h)) \<and> (\<forall>t h. t \<in> set (thread_lists s h) \<longleftrightarrow> tlist (threads s t) = Some h)"

lemma threads_update_same [simp]: "threads (thread_update t f s) t = f (threads s t)"
  and threads_update_other [simp]: "u \<noteq> t \<Longrightarrow> threads (thread_update t f s) u = threads s u"
  by (simp_all add: thread_update_def)

lemma threads_update: "threads (thread_update t f s) u = (if u = t then f (threads s u) else threads s u)"
  by (simp add: thread_update_def)

lemma thread_update_frame [simp]:
  "timers (thread_update t f s) = timers s" "objects (thread_update t f s) = objects s"
  "containers (thread_update t f s) = containers s" "thread_lists (thread_update t f s) = thread_lists s"
  "rt_timer_list (thread_update t f s) = rt_timer_list s"
  "rt_soft_timer_list (thread_update t f s) = rt_soft_timer_list s"
  "timer_thread (thread_update t f s) = timer_thread s"
  "rt_current_thread (thread_update t f s) = rt_current_thread s"
  "rt_current_priority (thread_update t f s) = rt_current_priority s"
  "rt_thread_ready_priority_group (thread_update t f s) = rt_thread_ready_priority_group s"
  "rt_tick (thread_update t f s) = rt_tick s" "sems (thread_update t f s) = sems s"
  "mutexes (thread_update t f s) = mutexes s" "events (thread_update t f s) = events s"
  "mailboxes (thread_update t f s) = mailboxes s" "msgqueues (thread_update t f s) = msgqueues s"
  "drivers (thread_update t f s) = drivers s" "rt_errno (thread_update t f s) = rt_errno s"
  by (simp_all add: thread_update_def)

lemma list_ok_mem: "list_ok s \<Longrightarrow> t \<in> set (thread_lists s h) \<longleftrightarrow> tlist (threads s t) = Some h"
  and list_ok_distinct: "list_ok s \<Longrightarrow> distinct (thread_lists s h)"
  by (simp_all add: list_ok_def)

text \<open>What a list operation leaves of the lists and nodes, and nothing else changes.\<close>

lemma rt_list_remove_fields:
  "thread_lists (rt_list_remove t s) =
     (case tlist (threads s t) of None \<Rightarrow> thread_lists s | Some h \<Rightarrow> (thread_lists s)(h := remove1 t (thread_lists s h)))"
  "threads (rt_list_remove t s) = (threads s)(t := (threads s t)\<lparr>tlist := None\<rparr>)"
  by (auto simp: rt_list_remove_def thread_update_def split: option.splits)

lemma rt_list_remove_frame [simp]:
  "timers (rt_list_remove t s) = timers s" "objects (rt_list_remove t s) = objects s"
  "containers (rt_list_remove t s) = containers s"
  "rt_timer_list (rt_list_remove t s) = rt_timer_list s"
  "rt_soft_timer_list (rt_list_remove t s) = rt_soft_timer_list s"
  "timer_thread (rt_list_remove t s) = timer_thread s"
  "rt_current_thread (rt_list_remove t s) = rt_current_thread s"
  "rt_current_priority (rt_list_remove t s) = rt_current_priority s"
  "rt_thread_ready_priority_group (rt_list_remove t s) = rt_thread_ready_priority_group s"
  "rt_tick (rt_list_remove t s) = rt_tick s" "sems (rt_list_remove t s) = sems s"
  "mutexes (rt_list_remove t s) = mutexes s" "events (rt_list_remove t s) = events s"
  "mailboxes (rt_list_remove t s) = mailboxes s" "msgqueues (rt_list_remove t s) = msgqueues s"
  "drivers (rt_list_remove t s) = drivers s" "rt_errno (rt_list_remove t s) = rt_errno s"
  by (simp_all add: rt_list_remove_def split: option.splits)

lemma remove1_unlinked:
  "list_ok s \<Longrightarrow> tlist (threads s t) \<noteq> Some h \<Longrightarrow> remove1 t (thread_lists s h) = thread_lists s h"
  by (simp add: list_ok_mem remove1_idem)

lemma lists_remove:
  assumes "list_ok s"
  shows "thread_lists (rt_list_remove t s) h = remove1 t (thread_lists s h)"
  using remove1_unlinked [OF assms, of t h]
  by (cases "tlist (threads s t)") (simp_all add: rt_list_remove_fields)

lemma list_ok_remove:
  assumes "list_ok s"
  shows "list_ok (rt_list_remove t s)"
  using assms
  by (simp add: list_ok_def [of "rt_list_remove t s"] lists_remove list_ok_distinct list_ok_mem
      rt_list_remove_fields(2))

end
