(* ===== verification/RTT_Sched.thy ===== *)
theory RTT_Sched
  imports RTT_State RTT_Ffs
begin

text \<open>
  The scheduler: the preemption counter of \<^verbatim>\<open>preempt.h\<close>, interrupt nesting (\<^verbatim>\<open>irq.c\<close>) and the
  ready queues of \<^verbatim>\<open>scheduler.c\<close>. \<^verbatim>\<open>rt_schedule\<close> is modelled up to the context switch: the new
  state has the chosen thread as \<^verbatim>\<open>rt_current_thread\<close>; what the caller does after the call it
  does when it is chosen again.
\<close>

section \<open>The preemption counter\<close>

definition PREEMPT_MASK :: u32 where "PREEMPT_MASK = 0xff"
definition HARDIRQ_OFFSET :: u32 where "HARDIRQ_OFFSET = 0x10000"
definition HARDIRQ_MASK :: u32 where "HARDIRQ_MASK = 0xf0000"
definition PREEMPT_NEED_RESCHED :: u32 where "PREEMPT_NEED_RESCHED = 0x80000000"

definition preempt_count :: "kstate \<Rightarrow> u32" where
  "preempt_count s =
     (case rt_thread_self s of None \<Rightarrow> 0 | Some t \<Rightarrow> th_preempt_count (threads s t))"

definition current_update :: "(rt_thread \<Rightarrow> rt_thread) \<Rightarrow> kstate \<Rightarrow> kstate" where
  "current_update f s = (case rt_thread_self s of None \<Rightarrow> s | Some t \<Rightarrow> thread_update t f s)"

definition preempt_count_add :: "u32 \<Rightarrow> kstate \<Rightarrow> kstate" where
  "preempt_count_add val =
     current_update (\<lambda>th. th\<lparr>th_preempt_count := th_preempt_count th + val\<rparr>)"

definition preempt_count_sub :: "u32 \<Rightarrow> kstate \<Rightarrow> kstate" where
  "preempt_count_sub val =
     current_update (\<lambda>th. th\<lparr>th_preempt_count := th_preempt_count th - val\<rparr>)"

definition thread_need_resched :: "kstate \<Rightarrow> bool" where
  "thread_need_resched s \<longleftrightarrow> preempt_count s AND PREEMPT_NEED_RESCHED \<noteq> 0"

definition thread_clear_resched :: "kstate \<Rightarrow> kstate" where
  "thread_clear_resched =
     current_update (\<lambda>th. th\<lparr>th_preempt_count := th_preempt_count th AND NOT PREEMPT_NEED_RESCHED\<rparr>)"

definition thread_set_resched :: "kstate \<Rightarrow> kstate" where
  "thread_set_resched =
     current_update (\<lambda>th. th\<lparr>th_preempt_count := th_preempt_count th OR PREEMPT_NEED_RESCHED\<rparr>)"

definition preempt_disable :: "kstate \<Rightarrow> kstate" where
  "preempt_disable = preempt_count_add 1"

definition preempt_enable :: "kstate \<Rightarrow> kstate" where
  "preempt_enable = preempt_count_sub 1"

definition hardirq_count :: "kstate \<Rightarrow> u32" where
  "hardirq_count s = drop_bit 16 (preempt_count s AND HARDIRQ_MASK)"

definition preempt_level :: "kstate \<Rightarrow> u32" where
  "preempt_level s = preempt_count s AND PREEMPT_MASK"

text \<open>\<^verbatim>\<open>irqs_disabled\<close> is the processor's state, which the caller passes.\<close>

definition preemptible :: "bool \<Rightarrow> kstate \<Rightarrow> bool" where
  "preemptible irqs_disabled s \<longleftrightarrow> preempt_count s = 0 \<and> \<not> irqs_disabled"

definition rt_interrupt_enter :: "kstate \<Rightarrow> kstate" where
  "rt_interrupt_enter = preempt_count_add HARDIRQ_OFFSET"

definition rt_interrupt_leave :: "kstate \<Rightarrow> kstate" where
  "rt_interrupt_leave = preempt_count_sub HARDIRQ_OFFSET"

definition rt_interrupt_get_nest :: "kstate \<Rightarrow> u8" where
  "rt_interrupt_get_nest s = (if rt_thread_self s = None then 0 else ucast (hardirq_count s))"

definition RT_DEBUG_NOT_IN_INTERRUPT :: "kstate \<Rightarrow> unit option" where
  "RT_DEBUG_NOT_IN_INTERRUPT s = rt_assert (rt_interrupt_get_nest s = 0)"

definition RT_DEBUG_IN_THREAD_CONTEXT :: "kstate \<Rightarrow> unit option" where
  "RT_DEBUG_IN_THREAD_CONTEXT s = do {
     rt_assert (rt_thread_self s \<noteq> None);
     RT_DEBUG_NOT_IN_INTERRUPT s }"

section \<open>The ready queues\<close>

definition rt_set_current :: "tid option \<Rightarrow> kstate \<Rightarrow> kstate" where
  "rt_set_current t s = s\<lparr>rt_current_thread := t\<rparr>"

definition rt_system_scheduler_init :: "kstate \<Rightarrow> kstate" where
  "rt_system_scheduler_init s =
     rt_set_current None
       (s\<lparr>thread_lists := (\<lambda>h. case h of
            ReadyList p \<Rightarrow> if p < RT_THREAD_PRIORITY_MAX then [] else thread_lists s h
          | DefunctList \<Rightarrow> []
          | _ \<Rightarrow> thread_lists s h),
          rt_current_priority := of_nat (RT_THREAD_PRIORITY_MAX - 1),
          rt_thread_ready_priority_group := 0\<rparr>)"

text \<open>With \<^verbatim>\<open>RT_START_FROM_IDLE\<close> the first thread is the idle thread.\<close>

definition rt_system_scheduler_start :: "tid \<Rightarrow> kstate \<Rightarrow> kstate" where
  "rt_system_scheduler_start idle s = rt_set_current (Some idle) s"

text \<open>
  The stack check spins for ever on a thread whose guard byte is overwritten or whose stack
  pointer is outside its stack; the addresses are 32-bit numbers.
\<close>

definition rt_scheduler_stack_check :: "rt_thread \<Rightarrow> unit option" where
  "rt_scheduler_stack_check th =
     rt_assert (\<not> (stack_guard th \<noteq> 0x23 \<or> sp th \<le> stack_addr th \<or>
                    sp th > stack_addr th + stack_size th))"

definition highest_ready :: "kstate \<Rightarrow> (nat \<times> tid) option" where
  "highest_ready s =
     (case rt_ffs (rt_thread_ready_priority_group s) of
        0 \<Rightarrow> None
      | Suc p \<Rightarrow> (case thread_lists s (ReadyList p) of [] \<Rightarrow> None | t # _ \<Rightarrow> Some (p, t)))"

definition rt_schedule :: "kstate \<Rightarrow> kstate option" where
  "rt_schedule s =
     (if preempt_level s \<noteq> 0 then Some (thread_set_resched s)
      else do {
        (highest_ready_priority, to_thread) \<leftarrow> highest_ready s;
        if Some to_thread \<noteq> rt_current_thread s then do {
          let s = s\<lparr>rt_current_priority := of_nat highest_ready_priority\<rparr>;
          from_thread \<leftarrow> rt_current_thread s;
          rt_assert (\<not> (thread_stat s from_thread = RT_THREAD_READY \<and>
            current_priority (threads s to_thread) > current_priority (threads s from_thread)));
          if rt_interrupt_get_nest s \<noteq> 0 then Some (thread_set_resched s)
          else do {
            let s = thread_clear_resched s;
            rt_scheduler_stack_check (threads s to_thread);
            Some (rt_set_current (Some to_thread) s) } }
        else Some (thread_clear_resched s) })"

definition rt_schedule_insert_thread :: "tid \<Rightarrow> kstate \<Rightarrow> kstate option" where
  "rt_schedule_insert_thread t s = do {
     let s = thread_update t (\<lambda>th. th\<lparr>stat := RT_THREAD_READY OR (stat th AND NOT RT_THREAD_STAT_MASK)\<rparr>) s;
     rt_assert (unat (current_priority (threads s t)) < RT_THREAD_PRIORITY_MAX);
     s \<leftarrow> rt_list_insert_before (ReadyList (unat (current_priority (threads s t)))) t s;
     Some (s\<lparr>rt_thread_ready_priority_group :=
               rt_thread_ready_priority_group s OR number_mask (threads s t)\<rparr>) }"

definition rt_schedule_remove_thread :: "tid \<Rightarrow> kstate \<Rightarrow> kstate option" where
  "rt_schedule_remove_thread t s = do {
     let s = rt_list_remove t s;
     rt_assert (unat (current_priority (threads s t)) < RT_THREAD_PRIORITY_MAX);
     Some (if thread_lists s (ReadyList (unat (current_priority (threads s t)))) = []
           then s\<lparr>rt_thread_ready_priority_group :=
                    rt_thread_ready_priority_group s AND NOT (number_mask (threads s t))\<rparr>
           else s) }"

definition rt_enter_critical :: "kstate \<Rightarrow> kstate" where
  "rt_enter_critical s = (if rt_thread_self s = None then s else preempt_disable s)"

text \<open>\<^verbatim>\<open>preempt_level\<close> is unsigned, so \<^verbatim>\<open>preempt_level() <= 0\<close> is equality with 0.\<close>

definition rt_exit_critical :: "kstate \<Rightarrow> kstate option" where
  "rt_exit_critical s =
     (if rt_thread_self s = None then Some s
      else let s = preempt_enable s in
        if preempt_level s \<le> 0 then do {
          rt_assert (preempt_level s = 0);
          if rt_thread_self s \<noteq> None then rt_schedule s else Some s }
        else Some s)"

definition rt_critical_level :: "kstate \<Rightarrow> u16" where
  "rt_critical_level s = ucast (preempt_level s)"


section \<open>The invariant of the ready queues\<close>

text \<open>
  A thread is linked into the ready list of its priority exactly when it is READY; the other
  lists hold suspended threads, the defunct list closed ones. A started thread has a legal
  priority and the mask of its bit. The group word has exactly the bits of the nonempty ready
  lists.
\<close>

definition prio_ok :: "rt_thread \<Rightarrow> bool" where
  "prio_ok th \<longleftrightarrow> unat (current_priority th) < RT_THREAD_PRIORITY_MAX \<and>
     number_mask th = push_bit (unat (current_priority th)) 1"

definition prio_weak :: "rt_thread \<Rightarrow> bool" where
  "prio_weak th \<longleftrightarrow> unat (current_priority th) < RT_THREAD_PRIORITY_MAX \<and>
     unat (init_priority th) < RT_THREAD_PRIORITY_MAX \<and>
     (number_mask th = 0 \<or> number_mask th = push_bit (unat (current_priority th)) 1)"

definition thread_wf :: "rt_thread \<Rightarrow> bool" where
  "thread_wf th \<longleftrightarrow>
     (case tlist th of
        None \<Rightarrow> stat th AND RT_THREAD_STAT_MASK \<noteq> RT_THREAD_READY
      | Some (ReadyList p) \<Rightarrow>
          stat th AND RT_THREAD_STAT_MASK = RT_THREAD_READY \<and> p = unat (current_priority th)
      | Some DefunctList \<Rightarrow> stat th AND RT_THREAD_STAT_MASK = RT_THREAD_CLOSE
      | Some _ \<Rightarrow> stat th AND RT_THREAD_STAT_MASK = RT_THREAD_SUSPEND) \<and>
     prio_weak th \<and>
     (stat th AND RT_THREAD_STAT_MASK \<in> {RT_THREAD_READY, RT_THREAD_SUSPEND} \<longrightarrow> prio_ok th)"

definition group_ok :: "kstate \<Rightarrow> bool" where
  "group_ok s \<longleftrightarrow>
     (\<forall>p. bit (rt_thread_ready_priority_group s) p \<longleftrightarrow> thread_lists s (ReadyList p) \<noteq> [])"

definition sched_inv :: "kstate \<Rightarrow> bool" where
  "sched_inv s \<longleftrightarrow> list_ok s \<and> group_ok s \<and> (\<forall>t. thread_wf (threads s t))"

text \<open>The invariant while the thread \<open>t\<close> is between two states.\<close>

definition sched_inv_but :: "tid \<Rightarrow> kstate \<Rightarrow> bool" where
  "sched_inv_but t s \<longleftrightarrow> list_ok s \<and> group_ok s \<and> (\<forall>u. u \<noteq> t \<longrightarrow> thread_wf (threads s u)) \<and>
     (\<forall>p. tlist (threads s t) = Some (ReadyList p) \<longrightarrow>
        p = unat (current_priority (threads s t)))"

lemma thread_wf_linked:
  "thread_wf th \<Longrightarrow> tlist th = Some (ReadyList p) \<Longrightarrow>
     stat th AND RT_THREAD_STAT_MASK = RT_THREAD_READY \<and> p = unat (current_priority th)"
  "thread_wf th \<Longrightarrow> tlist th = Some DefunctList \<Longrightarrow>
     stat th AND RT_THREAD_STAT_MASK = RT_THREAD_CLOSE"
  "thread_wf th \<Longrightarrow> tlist th = None \<Longrightarrow> stat th AND RT_THREAD_STAT_MASK \<noteq> RT_THREAD_READY"
  "thread_wf th \<Longrightarrow> prio_weak th"
  by (simp_all add: thread_wf_def)

lemma thread_wf_prio:
  "thread_wf th \<Longrightarrow> stat th AND RT_THREAD_STAT_MASK \<in> {RT_THREAD_READY, RT_THREAD_SUSPEND} \<Longrightarrow>
     prio_ok th"
  unfolding thread_wf_def by blast

lemma thread_wf_ready:
  "thread_wf th \<Longrightarrow> stat th AND RT_THREAD_STAT_MASK = RT_THREAD_READY \<Longrightarrow>
     tlist th = Some (ReadyList (unat (current_priority th)))"
  by (auto simp: thread_wf_def thread_stat_defs split: option.splits list_head.splits)

lemma sched_inv_but: "sched_inv s \<Longrightarrow> sched_inv_but t s"
  using thread_wf_linked(1) by (auto simp: sched_inv_def sched_inv_but_def)

lemma sched_inv_butD: "sched_inv_but t s \<Longrightarrow> thread_wf (threads s t) \<Longrightarrow> sched_inv s"
  by (auto simp: sched_inv_def sched_inv_but_def)

lemma sched_invD:
  assumes "sched_inv s"
  shows "list_ok s" "thread_wf (threads s t)"
    "bit (rt_thread_ready_priority_group s) p \<longleftrightarrow> thread_lists s (ReadyList p) \<noteq> []"
  using assms by (auto simp: sched_inv_def group_ok_def)

lemma sched_inv_ready_iff:
  assumes "sched_inv s"
  shows "t \<in> set (thread_lists s (ReadyList p)) \<longleftrightarrow>
    thread_stat s t = RT_THREAD_READY \<and> unat (current_priority (threads s t)) = p"
  using thread_wf_linked(1) [OF sched_invD(2) [OF assms], of t p]
    thread_wf_ready [OF sched_invD(2) [OF assms], of t]
  by (auto simp: list_ok_mem [OF sched_invD(1) [OF assms]] thread_stat_def)

text \<open>Which changes of a thread the invariant does not see.\<close>

definition sched_key :: "rt_thread \<Rightarrow> list_head option \<times> u8 \<times> u8 \<times> u8 \<times> u32" where
  "sched_key th = (tlist th, stat th, current_priority th, init_priority th, number_mask th)"

lemma thread_wf_key:
  assumes "sched_key th = sched_key th'"
  shows "thread_wf th = thread_wf th'"
proof -
  have "tlist th = tlist th'" "stat th = stat th'" "current_priority th = current_priority th'"
    "number_mask th = number_mask th'" "init_priority th = init_priority th'"
    using assms by (simp_all add: sched_key_def)
  then show ?thesis unfolding thread_wf_def prio_ok_def prio_weak_def by (simp only:)
qed

lemma sched_inv_cong:
  assumes "\<And>t. sched_key (threads s t) = sched_key (threads s' t)"
    and "thread_lists s = thread_lists s'"
    and "rt_thread_ready_priority_group s = rt_thread_ready_priority_group s'"
  shows "sched_inv s = sched_inv s'"
proof -
  have "thread_wf (threads s t) = thread_wf (threads s' t)" for t
    by (rule thread_wf_key) (rule assms(1))
  moreover have "tlist (threads s t) = tlist (threads s' t)" for t
    using assms(1) [of t] by (simp add: sched_key_def)
  ultimately show ?thesis using assms(2,3) by (simp add: sched_inv_def list_ok_def group_ok_def)
qed

lemma sched_inv_thread_update:
  assumes "\<And>th. sched_key (f th) = sched_key th"
  shows "sched_inv (thread_update t f s) = sched_inv s"
  by (rule sched_inv_cong) (simp_all add: threads_update assms)

lemma sched_inv_current_update:
  assumes "\<And>th. sched_key (f th) = sched_key th"
  shows "sched_inv (current_update f s) = sched_inv s"
  by (simp add: current_update_def sched_inv_thread_update assms split: option.split)

lemma sched_inv_preempt [simp]:
  "sched_inv (preempt_count_add v s) = sched_inv s" "sched_inv (preempt_count_sub v s) = sched_inv s"
  "sched_inv (thread_clear_resched s) = sched_inv s" "sched_inv (thread_set_resched s) = sched_inv s"
  by (simp_all add: preempt_count_add_def preempt_count_sub_def thread_clear_resched_def
      thread_set_resched_def sched_inv_current_update sched_key_def)

lemma sched_inv_globals [simp]:
  "sched_inv (s\<lparr>rt_current_priority := p\<rparr>) = sched_inv s"
  "sched_inv (rt_set_current c s) = sched_inv s" "sched_inv (s\<lparr>rt_tick := k\<rparr>) = sched_inv s"
  "sched_inv (s\<lparr>timers := a\<rparr>) = sched_inv s" "sched_inv (s\<lparr>objects := b\<rparr>) = sched_inv s"
  "sched_inv (s\<lparr>containers := d\<rparr>) = sched_inv s" "sched_inv (s\<lparr>rt_timer_list := e\<rparr>) = sched_inv s"
  "sched_inv (s\<lparr>rt_soft_timer_list := g\<rparr>) = sched_inv s" "sched_inv (s\<lparr>sems := h\<rparr>) = sched_inv s"
  "sched_inv (s\<lparr>mutexes := i\<rparr>) = sched_inv s" "sched_inv (s\<lparr>events := j\<rparr>) = sched_inv s"
  "sched_inv (s\<lparr>mailboxes := l\<rparr>) = sched_inv s" "sched_inv (s\<lparr>msgqueues := m\<rparr>) = sched_inv s"
  "sched_inv (s\<lparr>drivers := n\<rparr>) = sched_inv s" "sched_inv (s\<lparr>rt_errno := er\<rparr>) = sched_inv s"
  by (rule sched_inv_cong; simp add: rt_set_current_def)+

section \<open>What the scheduler does\<close>

lemma highest_ready_spec:
  assumes "sched_inv s" "thread_stat s u = RT_THREAD_READY"
  obtains p t where "highest_ready s = Some (p, t)" "thread_stat s t = RT_THREAD_READY"
    "unat (current_priority (threads s t)) = p" "p < 32" "hd (thread_lists s (ReadyList p)) = t"
    "\<And>v. thread_stat s v = RT_THREAD_READY \<Longrightarrow> p \<le> unat (current_priority (threads s v))"
proof -
  let ?g = "rt_thread_ready_priority_group s"
  note bits = sched_invD(3) [OF assms(1)] and ready = sched_inv_ready_iff [OF assms(1)]
  have "bit ?g (unat (current_priority (threads s u)))"
    using ready [of u] assms(2) by (force simp: bits)
  then have "?g \<noteq> 0" by auto
  then obtain p where p: "rt_ffs ?g = Suc p" "p < 32" "bit ?g p" "\<And>q. q < p \<Longrightarrow> \<not> bit ?g q"
    by (rule rt_ffs_Some) blast
  then obtain t ts where l: "thread_lists s (ReadyList p) = t # ts"
    unfolding bits by (cases "thread_lists s (ReadyList p)") auto
  then have t: "thread_stat s t = RT_THREAD_READY" "unat (current_priority (threads s t)) = p"
    using ready [of t p] by simp_all
  have min: "p \<le> unat (current_priority (threads s v))" if "thread_stat s v = RT_THREAD_READY" for v
  proof (rule ccontr)
    assume "\<not> p \<le> unat (current_priority (threads s v))"
    then have "\<not> bit ?g (unat (current_priority (threads s v)))" using p(4) by simp
    with ready [of v] that show False by (force simp: bits)
  qed
  have "highest_ready s = Some (p, t)" using p(1) l by (simp add: highest_ready_def)
  moreover have "hd (thread_lists s (ReadyList p)) = t" using l by simp
  ultimately show thesis using that t p(2) min by blast
qed


text \<open>The thread fields that the preemption counter leaves alone, and the frame of a schedule.\<close>

definition stacks_ok :: "kstate \<Rightarrow> bool" where
  "stacks_ok s \<longleftrightarrow> (\<forall>t. rt_scheduler_stack_check (threads s t) = Some ())"

definition sys_ok :: "kstate \<Rightarrow> bool" where
  "sys_ok s \<longleftrightarrow> sched_inv s \<and> stacks_ok s \<and> rt_current_thread s \<noteq> None \<and>
     (\<exists>u. thread_stat s u = RT_THREAD_READY)"

lemma current_update_frame:
  "rt_current_thread (current_update f s) = rt_current_thread s"
  "thread_lists (current_update f s) = thread_lists s"
  "rt_thread_ready_priority_group (current_update f s) = rt_thread_ready_priority_group s"
  "rt_current_priority (current_update f s) = rt_current_priority s"
  by (simp_all add: current_update_def split: option.split)

definition resched_norm :: "kstate \<Rightarrow> kstate" where
  "resched_norm s = s\<lparr>threads := (\<lambda>t. (threads s t)\<lparr>th_preempt_count := 0\<rparr>),
     rt_current_thread := None, rt_current_priority := 0\<rparr>"

definition resched_frame :: "kstate \<Rightarrow> kstate \<Rightarrow> bool" where
  "resched_frame s s' \<longleftrightarrow> resched_norm s' = resched_norm s \<and>
     (rt_current_thread s \<noteq> None \<longrightarrow> rt_current_thread s' \<noteq> None)"

lemma resched_frame_refl [simp]: "resched_frame s s"
  by (simp add: resched_frame_def)

lemma resched_frame_trans [trans]:
  "resched_frame s s' \<Longrightarrow> resched_frame s' s'' \<Longrightarrow> resched_frame s s''"
  by (simp add: resched_frame_def)

lemma resched_frame_field:
  assumes "resched_frame s s'" "\<And>s. g (resched_norm s) = g s"
  shows "g s' = g s"
  using assms unfolding resched_frame_def by metis

lemma resched_frameD:
  assumes "resched_frame s s'"
  shows "thread_lists s' = thread_lists s"
    "rt_thread_ready_priority_group s' = rt_thread_ready_priority_group s"
    "timers s' = timers s" "objects s' = objects s" "containers s' = containers s"
    "rt_timer_list s' = rt_timer_list s" "rt_soft_timer_list s' = rt_soft_timer_list s"
    "rt_tick s' = rt_tick s" "sems s' = sems s" "mutexes s' = mutexes s" "events s' = events s"
    "mailboxes s' = mailboxes s" "msgqueues s' = msgqueues s" "timer_thread s' = timer_thread s"
    "drivers s' = drivers s" "rt_errno s' = rt_errno s"
  by (rule resched_frame_field [OF assms]; simp add: resched_norm_def)+

lemma resched_frame_thread:
  assumes "resched_frame s s'"
  shows "tlist (threads s' t) = tlist (threads s t)" "stat (threads s' t) = stat (threads s t)"
    "current_priority (threads s' t) = current_priority (threads s t)"
    "init_priority (threads s' t) = init_priority (threads s t)"
    "number_mask (threads s' t) = number_mask (threads s t)"
    "error (threads s' t) = error (threads s t)"
    "event_set (threads s' t) = event_set (threads s t)"
    "event_info (threads s' t) = event_info (threads s t)"
    "init_tick (threads s' t) = init_tick (threads s t)"
    "remaining_tick (threads s' t) = remaining_tick (threads s t)"
    "thread_stat s' t = thread_stat s t"
    "rt_scheduler_stack_check (threads s' t) = rt_scheduler_stack_check (threads s t)"
  by (rule resched_frame_field [OF assms, of "\<lambda>s. _ (threads s t)"]
         resched_frame_field [OF assms, of "\<lambda>s. thread_stat s t"];
      simp add: resched_norm_def thread_stat_def rt_scheduler_stack_check_def)+

lemma resched_frame_inv:
  assumes "resched_frame s s'"
  shows "sched_inv s' = sched_inv s" "stacks_ok s' = stacks_ok s" "sys_ok s \<Longrightarrow> sys_ok s'"
proof -
  show "sched_inv s' = sched_inv s"
    by (rule sched_inv_cong)
      (simp_all add: sched_key_def resched_frame_thread [OF assms] resched_frameD [OF assms])
  moreover show "stacks_ok s' = stacks_ok s"
    by (simp add: stacks_ok_def resched_frame_thread [OF assms])
  ultimately show "sys_ok s \<Longrightarrow> sys_ok s'"
    using assms by (auto simp: resched_frame_def sys_ok_def resched_frame_thread [OF assms])
qed

lemma resched_frame_current_update:
  assumes "\<And>th. (f th)\<lparr>th_preempt_count := 0\<rparr> = th\<lparr>th_preempt_count := 0\<rparr>"
  shows "resched_frame s (current_update f s)"
  using assms
  by (auto simp: resched_frame_def resched_norm_def current_update_def thread_update_def fun_eq_iff
      split: option.split)

lemma resched_frame_steps [simp, intro]:
  "resched_frame s (thread_set_resched s)" "resched_frame s (thread_clear_resched s)"
  "resched_frame s (preempt_count_add v s)" "resched_frame s (preempt_count_sub v s)"
  "resched_frame s (s\<lparr>rt_current_priority := p\<rparr>)" "resched_frame s (rt_set_current (Some t) s)"
  by (auto simp: thread_set_resched_def thread_clear_resched_def preempt_count_add_def
      preempt_count_sub_def intro!: resched_frame_current_update)
    (simp_all add: resched_frame_def resched_norm_def rt_set_current_def)

lemma rt_schedule_frame:
  assumes "rt_schedule s = Some s'"
  shows "resched_frame s s'"
proof -
  let ?s1 = "\<lambda>p. s\<lparr>rt_current_priority := of_nat p\<rparr>"
  from assms consider "s' = thread_set_resched s" | "s' = thread_clear_resched s"
    | p where "s' = thread_set_resched (?s1 p)"
    | p t where "s' = rt_set_current (Some t) (thread_clear_resched (?s1 p))"
    unfolding rt_schedule_def by (auto simp: bind_Some_iff Let_def split: if_splits)
  moreover have "resched_frame s (thread_set_resched (?s1 p))" for p
    by (rule resched_frame_trans [of _ "?s1 p"]) auto
  moreover have "resched_frame s (rt_set_current (Some t) (thread_clear_resched (?s1 p)))" for p t
    by (rule resched_frame_trans [OF resched_frame_trans
          [OF resched_frame_steps(5) resched_frame_steps(2)] resched_frame_steps(6)])
  ultimately show ?thesis by cases auto
qed

lemma rt_exit_critical_frame:
  assumes "rt_exit_critical s = Some s'"
  shows "resched_frame s s'"
  using assms unfolding rt_exit_critical_def preempt_enable_def
  by (auto simp: Let_def bind_Some_iff split: if_splits
      intro: resched_frame_trans [OF _ rt_schedule_frame])

lemma rt_enter_critical_frame [simp, intro]: "resched_frame s (rt_enter_critical s)"
  by (simp add: rt_enter_critical_def preempt_disable_def)


section \<open>Properties of the scheduler\<close>

lemma need_resched_bit: "(x OR PREEMPT_NEED_RESCHED) AND PREEMPT_NEED_RESCHED \<noteq> 0"
proof -
  have "(x OR PREEMPT_NEED_RESCHED) AND PREEMPT_NEED_RESCHED = PREEMPT_NEED_RESCHED"
    by (rule bit_eqI) (auto simp: bit_simps)
  then show ?thesis by (simp add: PREEMPT_NEED_RESCHED_def)
qed

lemma preempt_cong:
  assumes "rt_current_thread s' = rt_current_thread s"
    and "\<And>t. th_preempt_count (threads s' t) = th_preempt_count (threads s t)"
  shows "preempt_count s' = preempt_count s" "preempt_level s' = preempt_level s"
    "rt_interrupt_get_nest s' = rt_interrupt_get_nest s"
proof -
  show "preempt_count s' = preempt_count s"
    unfolding preempt_count_def rt_thread_self_def assms ..
  then show "preempt_level s' = preempt_level s"
    "rt_interrupt_get_nest s' = rt_interrupt_get_nest s"
    by (simp_all add: preempt_level_def rt_interrupt_get_nest_def hardirq_count_def
        rt_thread_self_def assms(1))
qed

lemma rt_interrupt_nest_frame:
  "rt_interrupt_get_nest (s\<lparr>rt_current_priority := p\<rparr>) = rt_interrupt_get_nest s"
  by (simp add: rt_interrupt_get_nest_def hardirq_count_def preempt_count_def rt_thread_self_def
      split: option.split)

lemma rt_schedule_cases:
  assumes ok: "sys_ok s" and level: "preempt_level s = 0"
  obtains p t where "highest_ready s = Some (p, t)" "thread_stat s t = RT_THREAD_READY"
    "unat (current_priority (threads s t)) = p" "hd (thread_lists s (ReadyList p)) = t"
    "\<And>v. thread_stat s v = RT_THREAD_READY \<Longrightarrow> p \<le> unat (current_priority (threads s v))"
    "rt_schedule s = Some (if rt_current_thread s = Some t then thread_clear_resched s
       else let s1 = s\<lparr>rt_current_priority := of_nat p\<rparr> in
         if rt_interrupt_get_nest s \<noteq> 0 then thread_set_resched s1
         else rt_set_current (Some t) (thread_clear_resched s1))"
proof -
  from ok obtain u c where inv: "sched_inv s" and st: "stacks_ok s"
    and u: "thread_stat s u = RT_THREAD_READY" and c: "rt_current_thread s = Some c"
    by (auto simp: sys_ok_def)
  obtain p t where pt: "highest_ready s = Some (p, t)" "thread_stat s t = RT_THREAD_READY"
    "unat (current_priority (threads s t)) = p" "p < 32" "hd (thread_lists s (ReadyList p)) = t"
    and min: "\<And>v. thread_stat s v = RT_THREAD_READY \<Longrightarrow> p \<le> unat (current_priority (threads s v))"
    using highest_ready_spec [OF inv u] by metis
  let ?s1 = "s\<lparr>rt_current_priority := of_nat p\<rparr>"
  have a: "\<not> (thread_stat ?s1 c = RT_THREAD_READY \<and>
      current_priority (threads ?s1 t) > current_priority (threads ?s1 c))"
    using min [of c] pt(3) by (auto simp: thread_stat_def word_less_nat_alt)
  have "rt_scheduler_stack_check (threads (thread_clear_resched ?s1) t) = Some ()"
    using st resched_frame_thread(12) [of ?s1 "thread_clear_resched ?s1" t] by (auto simp: stacks_ok_def)
  then have "rt_schedule s = Some (if rt_current_thread s = Some t then thread_clear_resched s
       else let s1 = ?s1 in
         if rt_interrupt_get_nest s \<noteq> 0 then thread_set_resched s1
         else rt_set_current (Some t) (thread_clear_resched s1))"
    using level pt(1) c a by (auto simp: rt_schedule_def Let_def rt_interrupt_nest_frame)
  with that pt min show thesis by blast
qed

lemma rt_schedule_total:
  assumes "sys_ok s"
  obtains s' where "rt_schedule s = Some s'"
proof (cases "preempt_level s = 0")
  case True
  from rt_schedule_cases [OF assms this] that show ?thesis by metis
next
  case False
  with that show ?thesis by (simp add: rt_schedule_def)
qed

lemma rt_schedule_picks:
  assumes "sys_ok s" "preempt_level s = 0" "rt_interrupt_get_nest s = 0"
  shows "\<exists>s' t. rt_schedule s = Some s' \<and> sys_ok s' \<and> rt_current_thread s' = Some t \<and>
    thread_stat s' t = RT_THREAD_READY \<and>
    hd (thread_lists s' (ReadyList (unat (current_priority (threads s' t))))) = t \<and>
    (\<forall>v. thread_stat s' v = RT_THREAD_READY \<longrightarrow>
       current_priority (threads s' t) \<le> current_priority (threads s' v))"
proof -
  obtain p t where pt: "thread_stat s t = RT_THREAD_READY"
    "unat (current_priority (threads s t)) = p" "hd (thread_lists s (ReadyList p)) = t"
    "\<And>v. thread_stat s v = RT_THREAD_READY \<Longrightarrow> p \<le> unat (current_priority (threads s v))"
    and r: "rt_schedule s = Some (if rt_current_thread s = Some t then thread_clear_resched s
       else rt_set_current (Some t) (thread_clear_resched (s\<lparr>rt_current_priority := of_nat p\<rparr>)))"
    by (rule rt_schedule_cases [OF assms(1,2)]) (simp add: assms(3) Let_def)
  then obtain s' where s': "rt_schedule s = Some s'" by blast
  note fr = rt_schedule_frame [OF s']
  have "rt_current_thread s' = Some t"
    using r s' by (auto simp: rt_set_current_def thread_clear_resched_def current_update_frame split: if_splits)
  moreover have "sys_ok s'" using resched_frame_inv(3) [OF fr assms(1)] .
  ultimately show ?thesis
    using s' pt by (auto simp: resched_frame_thread [OF fr] resched_frameD [OF fr] word_le_nat_alt)
qed

text \<open>
  C1: When the scheduler is not locked and no interrupt is being served, \<^verbatim>\<open>rt_schedule\<close> returns
  with the invariant kept and makes current the first thread of the highest nonempty ready
  list; no ready thread has a higher priority, and neither the assertion on the outgoing
  thread nor the table access fails.
\<close>

theorem rt_schedule_picks_highest:
  assumes "sys_ok s" "preempt_level s = 0" "rt_interrupt_get_nest s = 0"
  shows "\<exists>s' t. rt_schedule s = Some s' \<and> sys_ok s' \<and> rt_current_thread s' = Some t \<and>
    thread_stat s' t = RT_THREAD_READY \<and>
    hd (thread_lists s' (ReadyList (unat (current_priority (threads s' t))))) = t \<and>
    (\<forall>v. thread_stat s' v = RT_THREAD_READY \<longrightarrow>
       current_priority (threads s' t) \<le> current_priority (threads s' v))"
  using assms by (rule rt_schedule_picks)

text \<open>
  While the scheduler is locked or an interrupt is being served, \<^verbatim>\<open>rt_schedule\<close> does not
  switch: the current thread stays, and if a switch was due the request is recorded in
  \<^verbatim>\<open>PREEMPT_NEED_RESCHED\<close>.
\<close>

theorem rt_schedule_deferred:
  assumes "sys_ok s" "preempt_level s \<noteq> 0 \<or> rt_interrupt_get_nest s \<noteq> 0"
  shows "\<exists>s'. rt_schedule s = Some s' \<and> sys_ok s' \<and> rt_current_thread s' = rt_current_thread s \<and>
    (thread_need_resched s' \<or> rt_current_thread s = map_option snd (highest_ready s))"
proof -
  obtain s' where s': "rt_schedule s = Some s'" using rt_schedule_total [OF assms(1)] .
  note fr = rt_schedule_frame [OF s']
  obtain c where c: "rt_current_thread s = Some c" using assms(1) by (auto simp: sys_ok_def)
  have set: "thread_need_resched (thread_set_resched s1)" if "rt_current_thread s1 = Some c" for s1
    using that need_resched_bit
    by (simp add: thread_need_resched_def thread_set_resched_def preempt_count_def current_update_def
        rt_thread_self_def)
  have "rt_current_thread s' = rt_current_thread s \<and>
      (thread_need_resched s' \<or> rt_current_thread s = map_option snd (highest_ready s))"
  proof (cases "preempt_level s = 0")
    case False
    with s' have "s' = thread_set_resched s" by (simp add: rt_schedule_def)
    with set [OF c] show ?thesis by (simp add: thread_set_resched_def current_update_frame)
  next
    case True
    with assms(2) have n: "rt_interrupt_get_nest s \<noteq> 0" by simp
    obtain p t where h: "highest_ready s = Some (p, t)"
      and r: "rt_schedule s = Some (if rt_current_thread s = Some t then thread_clear_resched s
       else thread_set_resched (s\<lparr>rt_current_priority := of_nat p\<rparr>))"
      by (rule rt_schedule_cases [OF assms(1) True]) (simp add: n Let_def)
    show ?thesis
    proof (cases "t = c")
      case True
      with r s' c h show ?thesis by (simp add: thread_clear_resched_def current_update_frame)
    next
      case False
      with r s' c have "s' = thread_set_resched (s\<lparr>rt_current_priority := of_nat p\<rparr>)" by simp
      with set [of "s\<lparr>rt_current_priority := of_nat p\<rparr>"] c show ?thesis
        by (simp add: thread_set_resched_def current_update_frame)
    qed
  qed
  with s' resched_frame_inv(3) [OF fr assms(1)] show ?thesis by blast
qed


section \<open>Moving threads between the queues\<close>

definition ready_stat :: "u8 \<Rightarrow> u8" where
  "ready_stat st = RT_THREAD_READY OR (st AND NOT RT_THREAD_STAT_MASK)"

lemma ready_stat_mask [simp]: "ready_stat st AND RT_THREAD_STAT_MASK = RT_THREAD_READY"
proof -
  have "ready_stat st AND RT_THREAD_STAT_MASK = RT_THREAD_READY AND RT_THREAD_STAT_MASK"
    unfolding ready_stat_def by (rule bit_eqI) (auto simp: bit_simps)
  then show ?thesis by (simp add: thread_stat_defs)
qed

lemma rt_schedule_insert_thread_eq:
  assumes "tlist (threads s t) = None" "prio_ok (threads s t)"
  defines "p \<equiv> unat (current_priority (threads s t))"
  shows "rt_schedule_insert_thread t s = Some
    (s\<lparr>threads := (threads s)(t := (threads s t)\<lparr>stat := ready_stat (stat (threads s t)),
                                            tlist := Some (ReadyList p)\<rparr>),
       thread_lists := (thread_lists s)(ReadyList p := thread_lists s (ReadyList p) @ [t]),
       rt_thread_ready_priority_group :=
         rt_thread_ready_priority_group s OR push_bit p 1\<rparr>)"
  using assms
  by (simp add: rt_schedule_insert_thread_def rt_list_insert_before_def thread_update_def prio_ok_def
      ready_stat_def)

lemma bit_group_insert:
  assumes "p < RT_THREAD_PRIORITY_MAX"
  shows "bit (g OR push_bit p 1 :: u32) q \<longleftrightarrow> bit g q \<or> q = p"
  using assms by (auto simp: bit_simps RT_THREAD_PRIORITY_MAX_def)

lemma bit_group_remove:
  assumes "p < RT_THREAD_PRIORITY_MAX"
  shows "bit (g AND NOT (push_bit p 1) :: u32) q \<longleftrightarrow> bit g q \<and> q \<noteq> p"
  using assms by (auto simp: bit_simps RT_THREAD_PRIORITY_MAX_def dest: bit_imp_le_length)

lemma rt_schedule_insert_thread_inv:
  assumes but: "sched_inv_but t s" and un: "tlist (threads s t) = None" and prio: "prio_ok (threads s t)"
    and weak: "prio_weak (threads s t)"
    and call: "rt_schedule_insert_thread t s = Some s'"
  shows "sched_inv s'"
proof (rule sched_inv_butD [of t])
  let ?p = "unat (current_priority (threads s t))"
  have p: "?p < RT_THREAD_PRIORITY_MAX" using prio by (simp add: prio_ok_def)
  note s' = call [unfolded rt_schedule_insert_thread_eq [OF un prio], symmetric, simplified]
  have lo: "list_ok s" and go: "group_ok s" and wf: "\<And>u. u \<noteq> t \<Longrightarrow> thread_wf (threads s u)"
    using but by (auto simp: sched_inv_but_def)
  have "list_ok s'"
    using un list_ok_mem [OF lo] list_ok_distinct [OF lo] by (auto simp: s' list_ok_def)
  moreover have "group_ok s'"
    using go by (auto simp: s' group_ok_def bit_group_insert [OF p, unfolded push_bit_of_1])
  ultimately show "sched_inv_but t s'" using wf by (simp add: sched_inv_but_def s')
  show "thread_wf (threads s' t)"
    using prio weak by (simp add: s' thread_wf_def prio_ok_def prio_weak_def)
qed

lemma rt_schedule_remove_thread_inv:
  assumes but: "sched_inv_but t s" and prio: "prio_weak (threads s t)"
    and mask0: "number_mask (threads s t) \<noteq> 0 \<or> (\<forall>q. tlist (threads s t) \<noteq> Some (ReadyList q))"
  obtains s' where "rt_schedule_remove_thread t s = Some s'" "sched_inv_but t s'"
    "threads s' = (threads s)(t := (threads s t)\<lparr>tlist := None\<rparr>)"
    "\<And>h. thread_lists s' h = remove1 t (thread_lists s h)"
    "s'\<lparr>threads := threads s, thread_lists := thread_lists s,
        rt_thread_ready_priority_group := rt_thread_ready_priority_group s\<rparr> = s"
proof -
  let ?p = "unat (current_priority (threads s t))" and ?s1 = "rt_list_remove t s"
  define s' where "s' = (if thread_lists ?s1 (ReadyList ?p) = []
     then ?s1\<lparr>rt_thread_ready_priority_group :=
                 rt_thread_ready_priority_group ?s1 AND NOT (number_mask (threads s t))\<rparr>
     else ?s1)"
  have p: "?p < RT_THREAD_PRIORITY_MAX" using prio by (simp add: prio_weak_def)
  have lo: "list_ok s" and go: "group_ok s" and wf: "\<And>u. u \<noteq> t \<Longrightarrow> thread_wf (threads s u)"
    and lk: "\<And>q. tlist (threads s t) = Some (ReadyList q) \<Longrightarrow> q = ?p"
    using but by (auto simp: sched_inv_but_def)
  have call: "rt_schedule_remove_thread t s = Some s'"
    using prio by (simp add: rt_schedule_remove_thread_def rt_list_remove_fields prio_weak_def s'_def)
  have th: "threads s' = (threads s)(t := (threads s t)\<lparr>tlist := None\<rparr>)"
    by (simp add: s'_def rt_list_remove_fields)
  have li: "thread_lists s' h = remove1 t (thread_lists s h)" for h
    by (simp add: s'_def lists_remove [OF lo])
  have "list_ok s'"
    using list_ok_remove [OF lo, of t] by (simp add: list_ok_def s'_def)
  moreover have "group_ok s'"
  proof -
    have "bit (rt_thread_ready_priority_group s') q = (thread_lists s' (ReadyList q) \<noteq> [])" for q
    proof (cases "number_mask (threads s t) = 0")
      case True
      then have "thread_lists s' (ReadyList q) = thread_lists s (ReadyList q)"
        unfolding li using mask0 by (intro remove1_unlinked [OF lo]) blast
      moreover have "rt_thread_ready_priority_group s' = rt_thread_ready_priority_group s"
        using True by (simp add: s'_def)
      ultimately show ?thesis using go by (simp add: group_ok_def)
    next
      case False
      with prio have m: "number_mask (threads s t) = push_bit ?p 1" by (auto simp: prio_weak_def)
      show ?thesis
      proof (cases "q = ?p")
        case True
        have "remove1 t xs \<noteq> [] \<Longrightarrow> xs \<noteq> []" for xs :: "tid list" by auto
        with True go show ?thesis
          by (auto simp: s'_def m lists_remove [OF lo] group_ok_def
              bit_group_remove [OF p, unfolded push_bit_of_1])
      next
        case False
        then have "remove1 t (thread_lists s (ReadyList q)) = thread_lists s (ReadyList q)"
          using lk by (intro remove1_unlinked [OF lo]) auto
        with False go show ?thesis unfolding li
          by (auto simp: s'_def m group_ok_def bit_group_remove [OF p, unfolded push_bit_of_1])
      qed
    qed
    then show ?thesis by (simp add: group_ok_def)
  qed
  ultimately have "sched_inv_but t s'" using wf by (simp add: sched_inv_but_def th)
  moreover have "s'\<lparr>threads := threads s, thread_lists := thread_lists s,
        rt_thread_ready_priority_group := rt_thread_ready_priority_group s\<rparr> = s"
    by (simp add: s'_def rt_list_remove_def thread_update_def split: option.split)
  ultimately show thesis using that call th li by blast
qed

end
