(* ===== verification/RTT_Object.thy ===== *)
theory RTT_Object
  imports RTT_Sched
begin

text \<open>
  Kernel object management (\<^verbatim>\<open>object.c\<close>): the containers of all objects of a class, static
  initialisation, allocation, detaching and lookup by name. A name is a C string without its
  terminator. Memory is obtained by the caller of the model: the argument \<open>mem\<close> of
  \<open>rt_object_allocate\<close> is the block the allocator returned.
\<close>

definition rt_object_container_types :: "u8 list" where
  "rt_object_container_types =
     [RT_Object_Class_Thread, RT_Object_Class_Semaphore, RT_Object_Class_Mutex,
      RT_Object_Class_Event, RT_Object_Class_MailBox, RT_Object_Class_MessageQueue,
      RT_Object_Class_MemHeap, RT_Object_Class_MemPool, RT_Object_Class_Device, RT_Object_Class_Timer]"

text \<open>The entry of the container table is identified by its class.\<close>

definition rt_object_get_information :: "u8 \<Rightarrow> u8 option" where
  "rt_object_get_information type = find (\<lambda>c. c = type) rt_object_container_types"

definition container_remove :: "obj \<Rightarrow> kstate \<Rightarrow> kstate" where
  "container_remove x s = s\<lparr>containers := (\<lambda>c. remove1 x (containers s c))\<rparr>"

definition rt_object_init :: "obj \<Rightarrow> u8 \<Rightarrow> string \<Rightarrow> kstate \<Rightarrow> kstate option" where
  "rt_object_init x type name s = do {
     information \<leftarrow> rt_object_get_information type;
     let s = rt_enter_critical s;
     rt_assert (x \<notin> set (containers s information));
     s \<leftarrow> rt_exit_critical s;
     let s = object_update x (\<lambda>ob. ob\<lparr>obj_type := type OR RT_Object_Class_Static,
                                     obj_name := take RT_NAME_MAX name\<rparr>) s;
     Some (s\<lparr>containers := (containers s)(information := x # containers s information)\<rparr>) }"

definition rt_object_detach :: "obj \<Rightarrow> kstate \<Rightarrow> kstate" where
  "rt_object_detach x s =
     container_remove x
       (object_update x (\<lambda>ob. ob\<lparr>obj_type := obj_type ob AND NOT RT_Object_Class_Static\<rparr>) s)"

definition zero_thread :: rt_thread where
  "zero_thread = \<lparr>tlist = None, sp = 0, entry = 0, parameter = 0, stack_addr = 0, stack_size = 0,
     stack_guard = 0, error = 0, stat = 0, current_priority = 0, init_priority = 0,
     number_mask = 0, event_set = 0, event_info = 0, init_tick = 0, remaining_tick = 0,
     cleanup = None, cputime = 0, th_preempt_count = 0\<rparr>"

definition zero_timer :: rt_timer where
  "zero_timer = \<lparr>timeout_func = UserTimeout 0, tm_init_tick = 0, timeout_tick = 0\<rparr>"

definition zero_object :: rt_object where
  "zero_object = \<lparr>obj_name = [], obj_type = 0, obj_flag = 0\<rparr>"

text \<open>\<^verbatim>\<open>rt_memset(object, 0, information->object_size)\<close> for each class.\<close>

definition memory_clear :: "obj \<Rightarrow> kstate \<Rightarrow> kstate" where
  "memory_clear x s =
     (case x of
        OThread t \<Rightarrow>
          object_update (OTimer (ThreadTimer t)) (\<lambda>_. zero_object)
            (timer_update (ThreadTimer t) (\<lambda>_. zero_timer) (thread_update t (\<lambda>_. zero_thread) s))
      | OSem i \<Rightarrow> s\<lparr>sems := (sems s)(i := \<lparr>sem_value = 0\<rparr>)\<rparr>
      | OMutex i \<Rightarrow> s\<lparr>mutexes := (mutexes s)(i :=
          \<lparr>mutex_value = 0, original_priority = 0, hold = 0, owner = None\<rparr>)\<rparr>
      | OEvent i \<Rightarrow> s\<lparr>events := (events s)(i := \<lparr>event_bits = 0\<rparr>)\<rparr>
      | OMailBox i \<Rightarrow> s\<lparr>mailboxes := (mailboxes s)(i :=
          \<lparr>msg_pool = [], mb_size = 0, mb_entry = 0, in_offset = 0, out_offset = 0\<rparr>)\<rparr>
      | OMessageQueue i \<Rightarrow> s\<lparr>msgqueues := (msgqueues s)(i :=
          \<lparr>mq_msg_size = 0, max_msgs = 0, mq_entry = 0, mq_next = (\<lambda>_. None), mq_data = (\<lambda>_. []),
           msg_queue_head = None, msg_queue_tail = None, msg_queue_free = None\<rparr>)\<rparr>
      | OTimer t \<Rightarrow> timer_update t (\<lambda>_. zero_timer) s
      | OMemPool i \<Rightarrow> s\<lparr>drivers := (drivers s)\<lparr>mempools := (mempools (drivers s))(i :=
          \<lparr>mp_size = 0, mp_block_size = 0, mp_block_list = None, block_total_count = 0,
           block_free_count = 0, mp_header = (\<lambda>_. FreeLink None)\<rparr>)\<rparr>\<rparr>
      | OMemHeap i \<Rightarrow> s\<lparr>drivers := (drivers s)\<lparr>memheaps := (memheaps (drivers s))(i :=
          (memheaps (drivers s) i)\<lparr>pool_size := 0, available_size := 0, max_used_size := 0,
            block_list := None, heap_items := (heap_items (memheaps (drivers s) i))(FreeHeader :=
              \<lparr>item_magic = 0, item_pool = None, item_next = None, item_prev = None,
               item_next_free = None, item_prev_free = None\<rparr>)\<rparr>)\<rparr>\<rparr>
      | ODevice _ \<Rightarrow> s)"

definition rt_object_allocate :: "u8 \<Rightarrow> string \<Rightarrow> obj option \<Rightarrow> kstate \<Rightarrow> (obj option \<times> kstate) option" where
  "rt_object_allocate type name mem s = do {
     RT_DEBUG_NOT_IN_INTERRUPT s;
     information \<leftarrow> rt_object_get_information type;
     (case mem of
        None \<Rightarrow> Some (None, s)
      | Some x \<Rightarrow>
          (let s = memory_clear x s;
               s = object_update x (\<lambda>_. \<lparr>obj_name = take RT_NAME_MAX name, obj_type = type, obj_flag = 0\<rparr>) s
           in Some (Some x, s\<lparr>containers := (containers s)(information := x # containers s information)\<rparr>))) }"

definition rt_object_delete :: "obj \<Rightarrow> kstate \<Rightarrow> kstate option" where
  "rt_object_delete x s = do {
     rt_assert (obj_type (objects s x) AND RT_Object_Class_Static = 0);
     Some (container_remove x (object_update x (\<lambda>ob. ob\<lparr>obj_type := 0\<rparr>) s)) }"

text \<open>
  \<^verbatim>\<open>rt_object_find\<close> compares at most \<^verbatim>\<open>RT_NAME_MAX\<close> characters; the test on the class also lets
  \<^verbatim>\<open>RT_Object_Class_Unknown\<close> through, for which there is no container.
\<close>

definition rt_object_find :: "string option \<Rightarrow> u8 \<Rightarrow> kstate \<Rightarrow> (obj option \<times> kstate) option" where
  "rt_object_find name type s =
     (case name of
        None \<Rightarrow> Some (None, s)
      | Some nm \<Rightarrow>
          if type > RT_Object_Class_Unknown then Some (None, s)
          else do {
            RT_DEBUG_NOT_IN_INTERRUPT s;
            let s = rt_enter_critical s;
            information \<leftarrow> rt_object_get_information type;
            let found = find (\<lambda>x. take RT_NAME_MAX (obj_name (objects s x)) = take RT_NAME_MAX nm)
                          (containers s information);
            s \<leftarrow> rt_exit_critical s;
            Some (found, s) })"

end
