(* ===== verification/RTT_Timer.thy ===== *)
theory RTT_Timer
  imports RTT_Object
begin

text \<open>
  The timer lists of \<^verbatim>\<open>timer.c\<close>, with one skip-list level as configured: initialisation,
  removal, stopping, control, and the ordered insertion that \<^verbatim>\<open>rt_timer_start\<close> performs. Ticks are
  32-bit and compared by the sign of their difference, so the order is meaningful within half
  the range of the counter.
\<close>

definition RT_TIMER_FLAG_ACTIVATED :: u8 where "RT_TIMER_FLAG_ACTIVATED = 0x1"
definition RT_TIMER_FLAG_PERIODIC :: u8 where "RT_TIMER_FLAG_PERIODIC = 0x2"
definition RT_TIMER_FLAG_SOFT_TIMER :: u8 where "RT_TIMER_FLAG_SOFT_TIMER = 0x4"

definition timer_flag :: "kstate \<Rightarrow> timer_id \<Rightarrow> u8" where
  "timer_flag s t = obj_flag (objects s (OTimer t))"

definition timer_flag_update :: "timer_id \<Rightarrow> (u8 \<Rightarrow> u8) \<Rightarrow> kstate \<Rightarrow> kstate" where
  "timer_flag_update t f = object_update (OTimer t) (\<lambda>ob. ob\<lparr>obj_flag := f (obj_flag ob)\<rparr>)"

definition rt_timer_init0 :: "timer_id \<Rightarrow> timeout_func \<Rightarrow> u32 \<Rightarrow> u8 \<Rightarrow> kstate \<Rightarrow> kstate" where
  "rt_timer_init0 t func time flag s =
     timer_update t (\<lambda>_. \<lparr>timeout_func = func, tm_init_tick = time, timeout_tick = 0\<rparr>)
       (timer_flag_update t (\<lambda>_. flag AND NOT RT_TIMER_FLAG_ACTIVATED) s)"

definition rt_timer_list_next_timeout :: "timer_id list \<Rightarrow> kstate \<Rightarrow> u32" where
  "rt_timer_list_next_timeout l s =
     (case l of [] \<Rightarrow> RT_TICK_MAX | t # _ \<Rightarrow> timeout_tick (timers s t))"

definition rt_timer_remove :: "timer_id \<Rightarrow> kstate \<Rightarrow> kstate" where
  "rt_timer_remove t s =
     s\<lparr>rt_timer_list := remove1 t (rt_timer_list s),
       rt_soft_timer_list := remove1 t (rt_soft_timer_list s)\<rparr>"

definition rt_timer_init :: "timer_id \<Rightarrow> string \<Rightarrow> timeout_func \<Rightarrow> u32 \<Rightarrow> u8 \<Rightarrow> kstate \<Rightarrow> kstate option" where
  "rt_timer_init t name func time flag s = do {
     s \<leftarrow> rt_object_init (OTimer t) RT_Object_Class_Timer name s;
     Some (rt_timer_init0 t func time flag s) }"

definition is_timer :: "timer_id \<Rightarrow> kstate \<Rightarrow> unit option" where
  "is_timer t s = rt_assert (rt_object_get_type (OTimer t) s = RT_Object_Class_Timer)"

definition rt_timer_detach :: "timer_id \<Rightarrow> kstate \<Rightarrow> kstate option" where
  "rt_timer_detach t s = do {
     is_timer t s;
     rt_assert (rt_object_is_systemobject (OTimer t) s);
     Some (rt_object_detach (OTimer t) (rt_timer_remove t s)) }"

definition rt_timer_create ::
  "string \<Rightarrow> timeout_func \<Rightarrow> u32 \<Rightarrow> u8 \<Rightarrow> timer_id option \<Rightarrow> kstate \<Rightarrow> (timer_id option \<times> kstate) option" where
  "rt_timer_create name func time flag mem s = do {
     (x, s) \<leftarrow> rt_object_allocate RT_Object_Class_Timer name (map_option OTimer mem) s;
     (case x of
        Some (OTimer t) \<Rightarrow> Some (Some t, rt_timer_init0 t func time flag s)
      | _ \<Rightarrow> Some (None, s)) }"

definition rt_timer_delete :: "timer_id \<Rightarrow> kstate \<Rightarrow> kstate option" where
  "rt_timer_delete t s = do {
     is_timer t s;
     rt_assert (\<not> rt_object_is_systemobject (OTimer t) s);
     rt_object_delete (OTimer t) (rt_timer_remove t s) }"

definition rt_timer_stop :: "timer_id \<Rightarrow> kstate \<Rightarrow> (rt_err_t \<times> kstate) option" where
  "rt_timer_stop t s = do {
     is_timer t s;
     if timer_flag s t AND RT_TIMER_FLAG_ACTIVATED = 0 then Some (- RT_ERROR, s)
     else Some (RT_EOK,
       timer_flag_update t (\<lambda>f. f AND NOT RT_TIMER_FLAG_ACTIVATED) (rt_timer_remove t s)) }"

datatype timer_cmd = SET_TIME u32 | GET_TIME | SET_ONESHOT | SET_PERIODIC | GET_STATE | OTHER_CMD

text \<open>The value that a \<open>GET\<close> command stores through its argument is the first result.\<close>

definition rt_timer_control :: "timer_id \<Rightarrow> timer_cmd \<Rightarrow> kstate \<Rightarrow> (u32 option \<times> kstate) option" where
  "rt_timer_control t cmd s = do {
     is_timer t s;
     Some (case cmd of
        GET_TIME \<Rightarrow> (Some (tm_init_tick (timers s t)), s)
      | SET_TIME v \<Rightarrow> (None, timer_update t (\<lambda>tm. tm\<lparr>tm_init_tick := v\<rparr>) s)
      | SET_ONESHOT \<Rightarrow> (None, timer_flag_update t (\<lambda>f. f AND NOT RT_TIMER_FLAG_PERIODIC) s)
      | SET_PERIODIC \<Rightarrow> (None, timer_flag_update t (\<lambda>f. f OR RT_TIMER_FLAG_PERIODIC) s)
      | GET_STATE \<Rightarrow> (Some (ucast (timer_flag s t)), s)
      | OTHER_CMD \<Rightarrow> (None, s)) }"

text \<open>
  The search of \<^verbatim>\<open>rt_timer_start\<close>: a timer that expires at the same tick is passed, the first
  one that expires within the next half range stops the search, any other is passed.
\<close>

fun timer_insert :: "(timer_id \<Rightarrow> u32) \<Rightarrow> timer_id \<Rightarrow> u32 \<Rightarrow> timer_id list \<Rightarrow> timer_id list" where
  "timer_insert tick t time [] = [t]"
| "timer_insert tick t time (u # us) =
     (if tick u - time = 0 then u # timer_insert tick t time us
      else if tick u - time < RT_TICK_MAX div 2 then t # u # us
      else u # timer_insert tick t time us)"

text \<open>The part of \<^verbatim>\<open>rt_timer_start\<close> up to the wake-up of the timer thread.\<close>

definition rt_timer_enqueue :: "timer_id \<Rightarrow> kstate \<Rightarrow> kstate option" where
  "rt_timer_enqueue t s = do {
     is_timer t s;
     let s = timer_flag_update t (\<lambda>f. f AND NOT RT_TIMER_FLAG_ACTIVATED) (rt_timer_remove t s);
     rt_assert (tm_init_tick (timers s t) < RT_TICK_MAX div 2);
     let s = timer_update t (\<lambda>tm. tm\<lparr>timeout_tick := rt_tick_get s + tm_init_tick tm\<rparr>) s;
     let ins = timer_insert (\<lambda>u. timeout_tick (timers s u)) t (timeout_tick (timers s t));
     let s = (if timer_flag s t AND RT_TIMER_FLAG_SOFT_TIMER \<noteq> 0
              then s\<lparr>rt_soft_timer_list := ins (rt_soft_timer_list s)\<rparr>
              else s\<lparr>rt_timer_list := ins (rt_timer_list s)\<rparr>);
     Some (timer_flag_update t (\<lambda>f. f OR RT_TIMER_FLAG_ACTIVATED) s) }"

definition rt_timer_next_timeout_tick :: "kstate \<Rightarrow> u32" where
  "rt_timer_next_timeout_tick s = rt_timer_list_next_timeout (rt_timer_list s) s"

text \<open>\<^verbatim>\<open>ULONG_CMP_GE\<close> on 32-bit \<open>unsigned long\<close>.\<close>

definition ulong_cmp_ge :: "u32 \<Rightarrow> u32 \<Rightarrow> bool" where
  "ulong_cmp_ge a b \<longleftrightarrow> 0x7fffffff \<ge> a - b"


section \<open>The order of the timer lists\<close>

text \<open>
  \<open>tick_dist now x\<close> is how far \<open>x\<close> lies ahead of \<open>now\<close>, modulo the width of the counter. A list is
  well-ordered for \<open>now\<close> when every timer expires within the next half range and the distances
  ascend.
\<close>

definition tick_dist :: "u32 \<Rightarrow> u32 \<Rightarrow> nat" where
  "tick_dist now x = unat (x - now)"

definition half_range :: nat where "half_range = 0x7fffffff"

definition timers_sorted :: "u32 \<Rightarrow> (timer_id \<Rightarrow> u32) \<Rightarrow> timer_id list \<Rightarrow> bool" where
  "timers_sorted now tick l \<longleftrightarrow>
     sorted (map (\<lambda>u. tick_dist now (tick u)) l) \<and> (\<forall>u\<in>set l. tick_dist now (tick u) < half_range)"

lemma set_timer_insert [simp]: "set (timer_insert tick t time l) = insert t (set l)"
  by (induction l) auto

lemma distinct_timer_insert: "distinct l \<Longrightarrow> t \<notin> set l \<Longrightarrow> distinct (timer_insert tick t time l)"
  by (induction l) auto

lemma timer_compare:
  assumes "tick_dist now x < half_range" "tick_dist now y < half_range"
  shows "x - y = 0 \<longleftrightarrow> tick_dist now x = tick_dist now y"
    "x - y \<noteq> 0 \<Longrightarrow> x - y < RT_TICK_MAX div 2 \<longleftrightarrow> tick_dist now y < tick_dist now x"
proof -
  let ?a = "x - now" and ?b = "y - now"
  have d: "x - y = ?a - ?b" by simp
  have a: "unat ?a < 0x7fffffff" "unat ?b < 0x7fffffff"
    using assms by (simp_all add: tick_dist_def half_range_def)
  show "x - y = 0 \<longleftrightarrow> tick_dist now x = tick_dist now y"
    by (simp add: tick_dist_def word_unat_eq_iff [symmetric])
  have h: "unat (RT_TICK_MAX div 2) = 0x7fffffff" by (simp add: RT_TICK_MAX_def)
  assume ne: "x - y \<noteq> 0"
  show "x - y < RT_TICK_MAX div 2 \<longleftrightarrow> tick_dist now y < tick_dist now x"
  proof (cases "unat ?b \<le> unat ?a")
    case True
    then have "unat (?a - ?b) = unat ?a - unat ?b" by (intro unat_sub) (simp add: word_le_nat_alt)
    with True a ne show ?thesis
      unfolding d word_less_nat_alt h tick_dist_def by (auto simp: word_unat_eq_iff)
  next
    case False
    then have "unat (?a - ?b) = 2 ^ 32 + unat ?a - unat ?b"
      using unat_sub_if_size [of ?a ?b] by (simp add: word_size not_le)
    with False a show ?thesis unfolding d word_less_nat_alt h tick_dist_def by simp
  qed
qed

lemma timer_insert_reference:
  assumes "timers_sorted now tick l" "tick_dist now time < half_range"
  shows "timer_insert tick t time l =
    takeWhile (\<lambda>u. tick_dist now (tick u) \<le> tick_dist now time) l @ t #
    dropWhile (\<lambda>u. tick_dist now (tick u) \<le> tick_dist now time) l"
  using assms
proof (induction l)
  case (Cons u us)
  have u: "tick_dist now (tick u) < half_range" using Cons.prems(1) by (simp add: timers_sorted_def)
  have "timers_sorted now tick us" using Cons.prems(1) by (simp add: timers_sorted_def)
  note IH = Cons.IH [OF this Cons.prems(2)]
  show ?case
    using timer_compare [OF u Cons.prems(2)] IH by auto
qed simp

lemma sorted_insert_middle:
  "sorted (map f (xs @ ys)) \<Longrightarrow> (\<forall>x\<in>set xs. f x \<le> f t) \<Longrightarrow> (\<forall>y\<in>set ys. f t \<le> f y) \<Longrightarrow>
   sorted (map f (xs @ t # ys))"
  by (auto simp: sorted_append)

text \<open>
  C3: The insertion that \<^verbatim>\<open>rt_timer_start\<close> does by 32-bit differences keeps a timer list ordered by
  expiry and puts the new timer behind all timers that expire no later: the list is the old one
  with the timer put after the last timer whose distance is not larger, so equal expiries fire in
  the order in which they were started, also when the tick counter wraps.
\<close>

theorem timer_insert_ordered:
  assumes "timers_sorted now tick l" "tick_dist now (tick t) < half_range"
  defines "early \<equiv> takeWhile (\<lambda>u. tick_dist now (tick u) \<le> tick_dist now (tick t)) l"
    and "late \<equiv> dropWhile (\<lambda>u. tick_dist now (tick u) \<le> tick_dist now (tick t)) l"
  shows "timer_insert tick t (tick t) l = early @ t # late \<and> l = early @ late \<and>
    timers_sorted now tick (timer_insert tick t (tick t) l) \<and>
    (\<forall>u\<in>set late. tick_dist now (tick t) < tick_dist now (tick u))"
proof -
  let ?d = "\<lambda>u. tick_dist now (tick u)"
  have eq: "timer_insert tick t (tick t) l = early @ t # late"
    unfolding early_def late_def by (rule timer_insert_reference [OF assms(1,2)])
  have l: "l = early @ late" by (simp add: early_def late_def)
  have e: "\<forall>u\<in>set early. ?d u \<le> ?d t" by (auto simp: early_def dest: set_takeWhileD)
  have s: "sorted (map ?d (early @ late))" using assms(1) l by (simp add: timers_sorted_def)
  have lt: "\<forall>u\<in>set late. ?d t < ?d u"
  proof (cases late)
    case (Cons v vs)
    then have "\<not> ?d v \<le> ?d t" unfolding late_def by (metis hd_dropWhile list.distinct(1) list.sel(1))
    moreover have "\<forall>u\<in>set vs. ?d v \<le> ?d u" using s Cons by (simp add: sorted_append)
    ultimately show ?thesis using Cons by fastforce
  qed simp
  have "sorted (map ?d (early @ t # late))"
    by (rule sorted_insert_middle [OF s e]) (use lt in fastforce)
  then have "timers_sorted now tick (timer_insert tick t (tick t) l)"
    using assms(1,2) l unfolding eq timers_sorted_def by auto
  with eq l lt show ?thesis by blast
qed

primrec example_ticks :: "timer_id \<Rightarrow> u32" where
  "example_ticks (Timer n) = [0xfffffff0, 5, 5, 9] ! n"
| "example_ticks (ThreadTimer t) = 0"

lemma timer_insert_ordered_witness:
  "timer_insert example_ticks (Timer 2) 5 [Timer 0, Timer 1, Timer 3] = [Timer 0, Timer 1, Timer 2, Timer 3]"
proof -
  have 1: "timers_sorted 0xffffffe0 example_ticks [Timer 0, Timer 1, Timer 3]"
    by (simp add: timers_sorted_def tick_dist_def half_range_def)
  have 2: "tick_dist 0xffffffe0 (example_ticks (Timer 2)) < half_range"
    by (simp add: tick_dist_def half_range_def)
  have 3: "example_ticks (Timer 2) = 5" by simp
  from conjunct1 [OF timer_insert_ordered [OF 1 2]] show ?thesis
    unfolding 3 by (simp add: tick_dist_def del: timer_insert.simps)
qed

section \<open>What arming a timer does\<close>

lemma timer_flag_bits:
  "(f AND NOT RT_TIMER_FLAG_ACTIVATED) AND RT_TIMER_FLAG_SOFT_TIMER = f AND RT_TIMER_FLAG_SOFT_TIMER"
  "(f OR RT_TIMER_FLAG_ACTIVATED) AND RT_TIMER_FLAG_SOFT_TIMER = f AND RT_TIMER_FLAG_SOFT_TIMER"
  "(f AND NOT RT_TIMER_FLAG_ACTIVATED) AND RT_TIMER_FLAG_PERIODIC = f AND RT_TIMER_FLAG_PERIODIC"
  "(f OR RT_TIMER_FLAG_ACTIVATED) AND RT_TIMER_FLAG_PERIODIC = f AND RT_TIMER_FLAG_PERIODIC"
  "(f AND NOT RT_TIMER_FLAG_ACTIVATED) AND RT_TIMER_FLAG_ACTIVATED = 0"
proof -
  have n: "NOT RT_TIMER_FLAG_ACTIVATED AND RT_TIMER_FLAG_SOFT_TIMER = RT_TIMER_FLAG_SOFT_TIMER"
    "RT_TIMER_FLAG_ACTIVATED AND RT_TIMER_FLAG_SOFT_TIMER = 0"
    "NOT RT_TIMER_FLAG_ACTIVATED AND RT_TIMER_FLAG_PERIODIC = RT_TIMER_FLAG_PERIODIC"
    "RT_TIMER_FLAG_ACTIVATED AND RT_TIMER_FLAG_PERIODIC = 0"
    by (simp_all add: RT_TIMER_FLAG_ACTIVATED_def RT_TIMER_FLAG_SOFT_TIMER_def RT_TIMER_FLAG_PERIODIC_def)
  show "(f AND NOT RT_TIMER_FLAG_ACTIVATED) AND RT_TIMER_FLAG_SOFT_TIMER = f AND RT_TIMER_FLAG_SOFT_TIMER"
    "(f AND NOT RT_TIMER_FLAG_ACTIVATED) AND RT_TIMER_FLAG_PERIODIC = f AND RT_TIMER_FLAG_PERIODIC"
    "(f AND NOT RT_TIMER_FLAG_ACTIVATED) AND RT_TIMER_FLAG_ACTIVATED = 0"
    by (simp_all only: and.assoc n) simp
  show "(f OR RT_TIMER_FLAG_ACTIVATED) AND RT_TIMER_FLAG_SOFT_TIMER = f AND RT_TIMER_FLAG_SOFT_TIMER"
    "(f OR RT_TIMER_FLAG_ACTIVATED) AND RT_TIMER_FLAG_PERIODIC = f AND RT_TIMER_FLAG_PERIODIC"
    by (simp_all only: bit.conj_disj_distrib2 n) simp_all
qed

lemma rt_timer_enqueue_effect:
  assumes "is_timer t s = Some ()" "tm_init_tick (timers s t) < RT_TICK_MAX div 2"
    "timer_flag s t AND RT_TIMER_FLAG_SOFT_TIMER = 0"
  defines "time \<equiv> rt_tick s + tm_init_tick (timers s t)"
  obtains s' where "rt_timer_enqueue t s = Some s'"
    "timers s' = (timers s)(t := (timers s t)\<lparr>timeout_tick := time\<rparr>)"
    "rt_timer_list s' = timer_insert (\<lambda>u. timeout_tick (timers s' u)) t time (remove1 t (rt_timer_list s))"
    "rt_soft_timer_list s' = remove1 t (rt_soft_timer_list s)"
    "timer_flag s' t AND RT_TIMER_FLAG_ACTIVATED \<noteq> 0" "timer_flag s' t AND RT_TIMER_FLAG_SOFT_TIMER = 0"
proof -
  let ?s1 = "timer_flag_update t (\<lambda>f. f AND NOT RT_TIMER_FLAG_ACTIVATED) (rt_timer_remove t s)"
  let ?s2 = "timer_update t (\<lambda>tm. tm\<lparr>timeout_tick := time\<rparr>) ?s1"
  let ?s3 = "?s2\<lparr>rt_timer_list := timer_insert (\<lambda>u. timeout_tick (timers ?s2 u)) t time (rt_timer_list ?s2)\<rparr>"
  let ?s4 = "timer_flag_update t (\<lambda>f. f OR RT_TIMER_FLAG_ACTIVATED) ?s3"
  have soft: "(f AND NOT RT_TIMER_FLAG_ACTIVATED) AND RT_TIMER_FLAG_SOFT_TIMER = f AND RT_TIMER_FLAG_SOFT_TIMER"
    "((f AND NOT RT_TIMER_FLAG_ACTIVATED) OR RT_TIMER_FLAG_ACTIVATED) AND RT_TIMER_FLAG_SOFT_TIMER
       = f AND RT_TIMER_FLAG_SOFT_TIMER" for f
    by (simp_all add: timer_flag_bits)
  have act: "(f OR RT_TIMER_FLAG_ACTIVATED) AND RT_TIMER_FLAG_ACTIVATED \<noteq> 0" for f
  proof -
    have "(f OR RT_TIMER_FLAG_ACTIVATED) AND RT_TIMER_FLAG_ACTIVATED = RT_TIMER_FLAG_ACTIVATED"
      by (rule bit_eqI) (auto simp: bit_simps)
    then show ?thesis by (simp add: RT_TIMER_FLAG_ACTIVATED_def)
  qed
  have fl: "timer_flag ?s4 t = (timer_flag s t AND NOT RT_TIMER_FLAG_ACTIVATED) OR RT_TIMER_FLAG_ACTIVATED"
    "timer_flag ?s2 t = timer_flag s t AND NOT RT_TIMER_FLAG_ACTIVATED"
    by (simp_all add: timer_flag_def timer_flag_update_def object_update_def timer_update_def
        rt_timer_remove_def)
  show thesis
  proof (rule that)
    show "rt_timer_enqueue t s = Some ?s4"
      using assms(1,2,3) fl(2) soft(1)
      by (simp add: rt_timer_enqueue_def Let_def timer_flag_update_def object_update_def
          timer_update_def rt_timer_remove_def rt_tick_get_def time_def)
  qed (use fl soft assms(3) act in \<open>simp_all add: timer_flag_update_def object_update_def timer_update_def
        rt_timer_remove_def\<close>)
qed

end
