(* ===== verification/RTT_Thread.thy ===== *)
theory RTT_Thread
  imports RTT_Timer
begin

text \<open>
  Threads (\<^verbatim>\<open>thread.c\<close>) with the part of \<^verbatim>\<open>rt_timer_start\<close> that wakes the timer thread. A call
  that blocks ends at its \<^verbatim>\<open>rt_schedule\<close>: the operation returns the state with another thread
  current, and what the caller does when it runs again is a definition of its own, with the
  suffix \<open>_wake\<close>.
\<close>

definition is_thread :: "tid \<Rightarrow> kstate \<Rightarrow> unit option" where
  "is_thread t s = rt_assert (rt_object_get_type (OThread t) s = RT_Object_Class_Thread)"

definition suspend_stat :: "u8 \<Rightarrow> u8" where
  "suspend_stat st = RT_THREAD_SUSPEND OR (st AND NOT RT_THREAD_STAT_MASK)"

definition rt_thread_suspend :: "tid \<Rightarrow> kstate \<Rightarrow> (rt_err_t \<times> kstate) option" where
  "rt_thread_suspend t s = do {
     is_thread t s;
     if thread_stat s t \<noteq> RT_THREAD_READY then Some (- RT_ERROR, s)
     else do {
       let s = thread_update t (\<lambda>th. th\<lparr>stat := suspend_stat (stat th)\<rparr>) s;
       s \<leftarrow> rt_schedule_remove_thread t s;
       (_, s) \<leftarrow> rt_timer_stop (ThreadTimer t) s;
       Some (RT_EOK, s) } }"

definition rt_thread_resume :: "tid \<Rightarrow> kstate \<Rightarrow> (rt_err_t \<times> kstate) option" where
  "rt_thread_resume t s = do {
     is_thread t s;
     if thread_stat s t \<noteq> RT_THREAD_SUSPEND then Some (- RT_ERROR, s)
     else do {
       let s = rt_list_remove t s;
       (_, s) \<leftarrow> rt_timer_stop (ThreadTimer t) s;
       s \<leftarrow> rt_schedule_insert_thread t s;
       Some (RT_EOK, s) } }"

definition rt_thread_timeout :: "tid \<Rightarrow> kstate \<Rightarrow> kstate option" where
  "rt_thread_timeout t s = do {
     rt_assert (thread_stat s t = RT_THREAD_SUSPEND);
     is_thread t s;
     let s = thread_update t (\<lambda>th. th\<lparr>error := - RT_ETIMEOUT\<rparr>) s;
     let s = rt_list_remove t s;
     s \<leftarrow> rt_schedule_insert_thread t s;
     rt_schedule s }"

definition rt_timer_start :: "timer_id \<Rightarrow> kstate \<Rightarrow> (rt_err_t \<times> kstate) option" where
  "rt_timer_start t s = do {
     s \<leftarrow> rt_timer_enqueue t s;
     if timer_flag s t AND RT_TIMER_FLAG_SOFT_TIMER \<noteq> 0 \<and>
        thread_stat s (timer_thread s) \<noteq> RT_THREAD_READY
     then do {
       (_, s) \<leftarrow> rt_thread_resume (timer_thread s) s;
       s \<leftarrow> rt_schedule s;
       Some (RT_EOK, s) }
     else Some (RT_EOK, s) }"

section \<open>Creation and start\<close>

text \<open>
  \<^verbatim>\<open>rt_hw_stack_init\<close> is architecture code: \<open>stack_init\<close> gives the stack pointer it returns. The
  stack is filled with \<open>'#'\<close>, of which the model keeps the guard byte.
\<close>

definition rt_thread_init0 ::
  "(nat \<Rightarrow> nat \<Rightarrow> u32 \<Rightarrow> u32) \<Rightarrow> tid \<Rightarrow> nat \<Rightarrow> nat \<Rightarrow> u32 \<Rightarrow> u32 \<Rightarrow> u8 \<Rightarrow> u32 \<Rightarrow> kstate
     \<Rightarrow> (rt_err_t \<times> kstate) option" where
  "rt_thread_init0 stack_init t ent param stack_start stack_sz priority tick s = do {
     let s = thread_update t (\<lambda>th. th\<lparr>tlist := None, entry := ent, parameter := param,
        stack_addr := stack_start, stack_size := stack_sz, stack_guard := 0x23,
        sp := stack_init ent param (stack_start + stack_sz - 4)\<rparr>) s;
     rt_assert (unat priority < RT_THREAD_PRIORITY_MAX);
     let s = thread_update t (\<lambda>th. th\<lparr>init_priority := priority, current_priority := priority,
        number_mask := 0, init_tick := tick, remaining_tick := tick, error := RT_EOK,
        stat := RT_THREAD_INIT, cleanup := None, cputime := 0, th_preempt_count := 0\<rparr>) s;
     s \<leftarrow> rt_timer_init (ThreadTimer t) (obj_name (objects s (OThread t))) (ThreadTimeout t) 0 0 s;
     Some (RT_EOK, s) }"

definition rt_thread_init ::
  "(nat \<Rightarrow> nat \<Rightarrow> u32 \<Rightarrow> u32) \<Rightarrow> tid \<Rightarrow> string \<Rightarrow> nat \<Rightarrow> nat \<Rightarrow> u32 \<Rightarrow> u32 \<Rightarrow> u8 \<Rightarrow> u32 \<Rightarrow> kstate
     \<Rightarrow> (rt_err_t \<times> kstate) option" where
  "rt_thread_init stack_init t name ent param stack_start stack_sz priority tick s = do {
     rt_assert (stack_start \<noteq> 0);
     s \<leftarrow> rt_object_init (OThread t) RT_Object_Class_Thread name s;
     rt_thread_init0 stack_init t ent param stack_start stack_sz priority tick s }"

text \<open>\<open>mem\<close> and \<open>stack\<close> are the results of the two allocations.\<close>

definition rt_thread_create ::
  "(nat \<Rightarrow> nat \<Rightarrow> u32 \<Rightarrow> u32) \<Rightarrow> string \<Rightarrow> nat \<Rightarrow> nat \<Rightarrow> u32 \<Rightarrow> u8 \<Rightarrow> u32 \<Rightarrow> tid option \<Rightarrow> u32 option
     \<Rightarrow> kstate \<Rightarrow> (tid option \<times> kstate) option" where
  "rt_thread_create stack_init name ent param stack_sz priority tick mem stack s = do {
     (x, s) \<leftarrow> rt_object_allocate RT_Object_Class_Thread name (map_option OThread mem) s;
     (case x of
        Some (OThread t) \<Rightarrow>
          (case stack of
             None \<Rightarrow> do { s \<leftarrow> rt_object_delete (OThread t) s; Some (None, s) }
           | Some stack_start \<Rightarrow> do {
               (_, s) \<leftarrow> rt_thread_init0 stack_init t ent param stack_start stack_sz priority tick s;
               Some (Some t, s) })
      | _ \<Rightarrow> Some (None, s)) }"

definition rt_thread_nameset :: "tid option \<Rightarrow> string \<Rightarrow> kstate \<Rightarrow> rt_err_t \<times> kstate" where
  "rt_thread_nameset thread name s =
     (case thread of
        None \<Rightarrow> (RT_ERROR, s)
      | Some t \<Rightarrow> (RT_EOK, object_update (OThread t) (\<lambda>ob. ob\<lparr>obj_name := take RT_NAME_MAX name\<rparr>) s))"

definition rt_thread_startup :: "bool \<Rightarrow> tid \<Rightarrow> kstate \<Rightarrow> (rt_err_t \<times> kstate) option" where
  "rt_thread_startup irqs_disabled t s = do {
     rt_assert (thread_stat s t = RT_THREAD_INIT);
     is_thread t s;
     let s = thread_update t (\<lambda>th. th\<lparr>current_priority := init_priority th\<rparr>) s;
     let s = thread_update t (\<lambda>th. th\<lparr>number_mask := push_bit (unat (current_priority th)) 1\<rparr>) s;
     let s = thread_update t (\<lambda>th. th\<lparr>stat := RT_THREAD_SUSPEND\<rparr>) s;
     (_, s) \<leftarrow> rt_thread_resume t s;
     if rt_thread_self s \<noteq> None \<and> preemptible irqs_disabled s
     then do { s \<leftarrow> rt_schedule s; Some (RT_EOK, s) }
     else Some (RT_EOK, s) }"

section \<open>Termination of threads\<close>

definition rt_thread_exit :: "kstate \<Rightarrow> kstate option" where
  "rt_thread_exit s = do {
     t \<leftarrow> rt_current_thread s;
     s \<leftarrow> rt_schedule_remove_thread t s;
     let s = thread_update t (\<lambda>th. th\<lparr>stat := RT_THREAD_CLOSE\<rparr>) s;
     s \<leftarrow> rt_timer_detach (ThreadTimer t) s;
     s \<leftarrow> (if rt_object_is_systemobject (OThread t) s \<and> cleanup (threads s t) = None
          then Some (rt_object_detach (OThread t) s)
          else rt_list_insert_after DefunctList t s);
     rt_schedule s }"

definition rt_thread_detach :: "tid \<Rightarrow> kstate \<Rightarrow> (rt_err_t \<times> kstate) option" where
  "rt_thread_detach t s = do {
     is_thread t s;
     rt_assert (rt_object_is_systemobject (OThread t) s);
     s \<leftarrow> (if thread_stat s t \<noteq> RT_THREAD_INIT then rt_schedule_remove_thread t s else Some s);
     s \<leftarrow> rt_timer_detach (ThreadTimer t) s;
     let s = thread_update t (\<lambda>th. th\<lparr>stat := RT_THREAD_CLOSE\<rparr>) s;
     s \<leftarrow> (if rt_object_is_systemobject (OThread t) s \<and> cleanup (threads s t) = None
          then Some (rt_object_detach (OThread t) s)
          else rt_list_insert_after DefunctList t s);
     Some (RT_EOK, s) }"

definition rt_thread_delete :: "tid \<Rightarrow> kstate \<Rightarrow> (rt_err_t \<times> kstate) option" where
  "rt_thread_delete t s = do {
     is_thread t s;
     rt_assert (\<not> rt_object_is_systemobject (OThread t) s);
     s \<leftarrow> (if thread_stat s t \<noteq> RT_THREAD_INIT then rt_schedule_remove_thread t s else Some s);
     s \<leftarrow> rt_timer_detach (ThreadTimer t) s;
     let s = thread_update t (\<lambda>th. th\<lparr>stat := RT_THREAD_CLOSE\<rparr>) s;
     s \<leftarrow> rt_list_insert_after DefunctList t s;
     Some (RT_EOK, s) }"

section \<open>Giving up the processor\<close>

text \<open>
  \<^verbatim>\<open>thread->tlist.next != thread->tlist.prev\<close> holds of a linked node exactly when its list has
  at least two nodes.
\<close>

definition rt_thread_yield :: "kstate \<Rightarrow> (rt_err_t \<times> kstate) option" where
  "rt_thread_yield s = do {
     t \<leftarrow> rt_current_thread s;
     s \<leftarrow> (if thread_stat s t = RT_THREAD_READY \<and>
             (case tlist (threads s t) of None \<Rightarrow> False | Some h \<Rightarrow> 2 \<le> length (thread_lists s h))
          then do {
            let s = rt_list_remove t s;
            rt_assert (unat (current_priority (threads s t)) < RT_THREAD_PRIORITY_MAX);
            rt_list_insert_before (ReadyList (unat (current_priority (threads s t)))) t s }
          else Some s);
     s \<leftarrow> rt_schedule s;
     Some (RT_EOK, s) }"

text \<open>
  The two calls with which every timed wait arms the timer of the waiting thread:
  \<^verbatim>\<open>rt_timer_control\<close> with \<^verbatim>\<open>RT_TIMER_CTRL_SET_TIME\<close>, then \<^verbatim>\<open>rt_timer_start\<close>.
\<close>

definition arm_thread_timer :: "tid \<Rightarrow> rt_tick_t \<Rightarrow> kstate \<Rightarrow> kstate option" where
  "arm_thread_timer t tick s = do {
     (_, s) \<leftarrow> rt_timer_control (ThreadTimer t) (SET_TIME tick) s;
     (_, s) \<leftarrow> rt_timer_start (ThreadTimer t) s;
     Some s }"

definition rt_thread_sleep :: "rt_tick_t \<Rightarrow> kstate \<Rightarrow> kstate option" where
  "rt_thread_sleep tick s = do {
     t \<leftarrow> rt_current_thread s;
     is_thread t s;
     (_, s) \<leftarrow> rt_thread_suspend t s;
     s \<leftarrow> arm_thread_timer t tick s;
     rt_schedule s }"

definition rt_thread_sleep_wake :: "tid \<Rightarrow> kstate \<Rightarrow> rt_err_t \<times> kstate" where
  "rt_thread_sleep_wake t s =
     (RT_EOK,
      if error (threads s t) = - RT_ETIMEOUT
      then thread_update t (\<lambda>th. th\<lparr>error := RT_EOK\<rparr>) s else s)"

definition rt_thread_delay :: "rt_tick_t \<Rightarrow> kstate \<Rightarrow> kstate option" where
  "rt_thread_delay tick s = rt_thread_sleep tick s"

definition rt_tick_from_millisecond :: "u32 \<Rightarrow> rt_tick_t" where
  "rt_tick_from_millisecond ms =
     (if sint ms < 0 then 0xffffffff
      else RT_TICK_PER_SECOND * (ms div 1000) + (RT_TICK_PER_SECOND * (ms mod 1000) + 999) div 1000)"

definition rt_thread_mdelay :: "u32 \<Rightarrow> kstate \<Rightarrow> kstate option" where
  "rt_thread_mdelay ms s = rt_thread_sleep (rt_tick_from_millisecond ms) s"

text \<open>
  \<^verbatim>\<open>rt_thread_delay_until\<close> up to its end or to its \<^verbatim>\<open>rt_schedule\<close>: \<open>Inl\<close> is the wake-up tick
  when the thread does not sleep, \<open>Inr\<close> the value left in \<^verbatim>\<open>*tick\<close> while it sleeps.
\<close>

definition rt_thread_delay_until ::
  "rt_tick_t \<Rightarrow> rt_tick_t \<Rightarrow> kstate \<Rightarrow> ((rt_tick_t + rt_tick_t) \<times> kstate) option" where
  "rt_thread_delay_until tick inc_tick s = do {
     t \<leftarrow> rt_thread_self s;
     is_thread t s;
     if rt_tick_get s - tick < inc_tick
     then do {
       let tick = rt_tick_get s - tick + inc_tick;
       (_, s) \<leftarrow> rt_thread_suspend t s;
       s \<leftarrow> arm_thread_timer t tick s;
       s \<leftarrow> rt_schedule s;
       Some (Inr tick, s) }
     else Some (Inl (rt_tick_get s), s) }"

datatype thread_cmd = CHANGE_PRIORITY u8 | CTRL_STARTUP | CTRL_CLOSE | CTRL_OTHER

text \<open>
  The mask is computed as \<^verbatim>\<open>1 << priority\<close> on a 32-bit \<^verbatim>\<open>int\<close>, which is undefined from 32 on.
\<close>

definition rt_thread_control :: "bool \<Rightarrow> tid \<Rightarrow> thread_cmd \<Rightarrow> kstate \<Rightarrow> (rt_err_t \<times> kstate) option" where
  "rt_thread_control irqs_disabled t cmd s = do {
     is_thread t s;
     (case cmd of
        CHANGE_PRIORITY p \<Rightarrow>
          (let change = thread_update t (\<lambda>th. th\<lparr>current_priority := p, number_mask := push_bit (unat p) 1\<rparr>) in
           if thread_stat s t = RT_THREAD_READY
           then do {
             s \<leftarrow> rt_schedule_remove_thread t s;
             rt_assert (unat p < RT_THREAD_PRIORITY_MAX);
             s \<leftarrow> rt_schedule_insert_thread t (change s);
             Some (RT_EOK, s) }
           else do {
             rt_assert (unat p < RT_THREAD_PRIORITY_MAX);
             Some (RT_EOK, change s) })
      | CTRL_STARTUP \<Rightarrow> rt_thread_startup irqs_disabled t s
      | CTRL_CLOSE \<Rightarrow> rt_thread_delete t s
      | CTRL_OTHER \<Rightarrow> Some (RT_EOK, s)) }"

definition rt_thread_find :: "string \<Rightarrow> kstate \<Rightarrow> (obj option \<times> kstate) option" where
  "rt_thread_find name s = do {
     let s = (if rt_thread_self s \<noteq> None then rt_enter_critical s else s);
     information \<leftarrow> rt_object_get_information RT_Object_Class_Thread;
     let found = find (\<lambda>x. take RT_NAME_MAX (obj_name (objects s x)) = take RT_NAME_MAX name)
                   (containers s information);
     s \<leftarrow> (if rt_thread_self s \<noteq> None then rt_exit_critical s else Some s);
     Some (found, s) }"


section \<open>Frames\<close>

text \<open>
  What the thread and timer operations leave alone: the state of the IPC objects, the classes of
  all objects and, but for timers, their flags and names.
\<close>

definition ipc_frame :: "kstate \<Rightarrow> kstate \<Rightarrow> bool" where
  "ipc_frame s s' \<longleftrightarrow>
     sems s' = sems s \<and> mutexes s' = mutexes s \<and> events s' = events s \<and>
     mailboxes s' = mailboxes s \<and> msgqueues s' = msgqueues s \<and> containers s' = containers s \<and>
     rt_tick s' = rt_tick s \<and> timer_thread s' = timer_thread s \<and>
     drivers s' = drivers s \<and> rt_errno s' = rt_errno s \<and>
     (\<forall>x. obj_type (objects s' x) = obj_type (objects s x)) \<and>
     (\<forall>x. (\<forall>t. x \<noteq> OTimer t) \<longrightarrow> objects s' x = objects s x)"

lemma ipc_frame_refl [simp]: "ipc_frame s s"
  by (simp add: ipc_frame_def)

lemma ipc_frame_trans [trans]: "ipc_frame s s' \<Longrightarrow> ipc_frame s' s'' \<Longrightarrow> ipc_frame s s''"
  by (simp add: ipc_frame_def)

lemma resched_ipc_frame: "resched_frame s s' \<Longrightarrow> ipc_frame s s'"
  by (simp add: ipc_frame_def resched_frameD)

lemma ipc_frameD:
  assumes "ipc_frame s s'"
  shows "sems s' = sems s" "mutexes s' = mutexes s" "events s' = events s"
    "mailboxes s' = mailboxes s" "msgqueues s' = msgqueues s" "containers s' = containers s"
    "rt_tick s' = rt_tick s" "timer_thread s' = timer_thread s"
    "rt_object_get_type x s' = rt_object_get_type x s"
    "rt_object_is_systemobject x s' = rt_object_is_systemobject x s"
    "is_thread t s' = is_thread t s" "is_timer tm s' = is_timer tm s"
    "(\<And>t. x \<noteq> OTimer t) \<Longrightarrow> objects s' x = objects s x"
    "drivers s' = drivers s" "rt_errno s' = rt_errno s"
  using assms by (simp_all add: ipc_frame_def rt_object_get_type_def rt_object_is_systemobject_def
      is_thread_def is_timer_def)

lemma ipc_frame_thread_fields [simp]:
  "ipc_frame s (s\<lparr>threads := a\<rparr>)" "ipc_frame s (s\<lparr>thread_lists := b\<rparr>)"
  "ipc_frame s (s\<lparr>rt_thread_ready_priority_group := c\<rparr>)" "ipc_frame s (s\<lparr>timers := d\<rparr>)"
  "ipc_frame s (s\<lparr>rt_timer_list := e\<rparr>)" "ipc_frame s (s\<lparr>rt_soft_timer_list := f\<rparr>)"
  "ipc_frame s (thread_update t g s)" "ipc_frame s (timer_update tm h s)"
  "ipc_frame s (rt_timer_remove tm s)" "ipc_frame s (timer_flag_update tm k s)"
  "ipc_frame s (rt_list_remove t s)"
  by (simp_all add: ipc_frame_def thread_update_def timer_update_def rt_timer_remove_def
      timer_flag_update_def object_update_def rt_list_remove_def split: option.split)

text \<open>The timer operations do not touch threads, their lists or the processor state.\<close>

definition thread_frame :: "kstate \<Rightarrow> kstate \<Rightarrow> bool" where
  "thread_frame s s' \<longleftrightarrow>
     threads s' = threads s \<and> thread_lists s' = thread_lists s \<and>
     rt_thread_ready_priority_group s' = rt_thread_ready_priority_group s \<and>
     rt_current_thread s' = rt_current_thread s \<and> rt_current_priority s' = rt_current_priority s"

lemma thread_frame_refl [simp]: "thread_frame s s"
  by (simp add: thread_frame_def)

lemma thread_frame_trans [trans]: "thread_frame s s' \<Longrightarrow> thread_frame s' s'' \<Longrightarrow> thread_frame s s''"
  by (simp add: thread_frame_def)

lemma thread_frame_steps [simp]:
  "thread_frame s (rt_timer_remove tm s)" "thread_frame s (timer_flag_update tm k s)"
  "thread_frame s (timer_update tm h s)" "thread_frame s (s\<lparr>rt_timer_list := e\<rparr>)"
  "thread_frame s (s\<lparr>rt_soft_timer_list := f\<rparr>)"
  by (simp_all add: thread_frame_def rt_timer_remove_def timer_flag_update_def object_update_def
      timer_update_def)

lemma thread_frame_inv: "thread_frame s s' \<Longrightarrow> sched_inv s' = sched_inv s"
  by (rule sched_inv_cong) (simp_all add: thread_frame_def)

lemma rt_timer_stop_frame:
  assumes "rt_timer_stop t s = Some (e, s')"
  shows "thread_frame s s' \<and> ipc_frame s s'"
  using assms thread_frame_trans [OF thread_frame_steps(1,2)] ipc_frame_trans [OF ipc_frame_thread_fields(9,10)]
  by (auto simp: rt_timer_stop_def bind_Some_iff split: if_splits)

lemma rt_timer_stop_total:
  "is_timer t s = Some () \<Longrightarrow> \<exists>e s'. rt_timer_stop t s = Some (e, s')"
  by (simp add: rt_timer_stop_def)

lemma rt_timer_control_frame:
  assumes "rt_timer_control t cmd s = Some (v, s')"
  shows "thread_frame s s' \<and> ipc_frame s s'"
  using assms by (auto simp: rt_timer_control_def bind_Some_iff split: timer_cmd.splits)

lemma rt_timer_enqueue_frame:
  assumes "rt_timer_enqueue t s = Some s'"
  shows "thread_frame s s' \<and> ipc_frame s s'"
  using assms
  by (auto simp: rt_timer_enqueue_def bind_Some_iff Let_def thread_frame_def ipc_frame_def
      rt_timer_remove_def timer_flag_update_def object_update_def timer_update_def split: if_splits)

section \<open>Suspending and resuming\<close>

lemma suspend_stat_mask [simp]: "suspend_stat st AND RT_THREAD_STAT_MASK = RT_THREAD_SUSPEND"
proof -
  have "suspend_stat st AND RT_THREAD_STAT_MASK = RT_THREAD_SUSPEND AND RT_THREAD_STAT_MASK"
    unfolding suspend_stat_def by (rule bit_eqI) (auto simp: bit_simps)
  then show ?thesis by (simp add: thread_stat_defs)
qed

lemma stat_distinct [simp]:
  "RT_THREAD_SUSPEND \<noteq> RT_THREAD_READY" "RT_THREAD_READY \<noteq> RT_THREAD_SUSPEND"
  "RT_THREAD_SUSPEND \<noteq> RT_THREAD_INIT" "RT_THREAD_READY \<noteq> RT_THREAD_INIT"
  "RT_THREAD_CLOSE \<noteq> RT_THREAD_READY" "RT_THREAD_CLOSE \<noteq> RT_THREAD_INIT"
  "RT_THREAD_INIT \<noteq> RT_THREAD_READY" "RT_THREAD_CLOSE \<noteq> RT_THREAD_SUSPEND"
  "RT_THREAD_SUSPEND \<noteq> RT_THREAD_CLOSE" "RT_THREAD_READY \<noteq> RT_THREAD_CLOSE"
  by (simp_all add: thread_stat_defs)

lemma sched_inv_prio_ok:
  "sched_inv s \<Longrightarrow> thread_stat s t \<in> {RT_THREAD_READY, RT_THREAD_SUSPEND} \<Longrightarrow> prio_ok (threads s t)"
  using thread_wf_prio [OF sched_invD(2)] by (auto simp: thread_stat_def)

lemma sched_inv_prio_weak: "sched_inv s \<Longrightarrow> prio_weak (threads s t)"
  using thread_wf_linked(4) [OF sched_invD(2)] by blast

lemma rt_thread_suspend_effect:
  assumes inv: "sched_inv s" and types: "is_thread t s = Some ()" "is_timer (ThreadTimer t) s = Some ()"
    and ready: "thread_stat s t = RT_THREAD_READY"
  obtains s' where "rt_thread_suspend t s = Some (RT_EOK, s')" "sched_inv s'" "ipc_frame s s'"
    "threads s' = (threads s)(t := (threads s t)\<lparr>stat := suspend_stat (stat (threads s t)), tlist := None\<rparr>)"
    "\<And>h. thread_lists s' h = remove1 t (thread_lists s h)"
    "rt_current_thread s' = rt_current_thread s"
proof -
  let ?s1 = "thread_update t (\<lambda>th. th\<lparr>stat := suspend_stat (stat th)\<rparr>) s"
  have prio: "prio_ok (threads ?s1 t)"
    using sched_inv_prio_ok [OF inv, of t] ready by (simp add: prio_ok_def)
  have weak: "prio_weak (threads ?s1 t)"
    using sched_inv_prio_weak [OF inv, of t] by (simp add: prio_weak_def)
  have but: "sched_inv_but t ?s1"
    using sched_inv_but [OF inv, of t]
    by (simp add: sched_inv_but_def list_ok_def group_ok_def threads_update)
  have m: "number_mask (threads ?s1 t) \<noteq> 0"
    using prio by (auto simp: prio_ok_def RT_THREAD_PRIORITY_MAX_def push_bit_eq_0_iff bit_eq_iff bit_simps)
  from rt_schedule_remove_thread_inv [OF but weak disjI1 [OF m]] obtain s2 where
    r: "rt_schedule_remove_thread t ?s1 = Some s2" "sched_inv_but t s2"
    and th: "threads s2 = (threads ?s1)(t := (threads ?s1 t)\<lparr>tlist := None\<rparr>)"
    and li: "\<And>h. thread_lists s2 h = remove1 t (thread_lists ?s1 h)"
    and fr: "s2\<lparr>threads := threads ?s1, thread_lists := thread_lists ?s1,
        rt_thread_ready_priority_group := rt_thread_ready_priority_group ?s1\<rparr> = ?s1"
    by blast
  have "thread_wf (threads s2 t)"
    using prio weak by (simp add: th thread_wf_def prio_ok_def prio_weak_def)
  with r have inv2: "sched_inv s2" by (blast intro: sched_inv_butD)
  have cur: "rt_current_thread s2 = rt_current_thread s"
    using arg_cong [OF fr, of rt_current_thread] by simp
  have f2: "ipc_frame s s2"
    using arg_cong [OF fr, of sems] arg_cong [OF fr, of mutexes] arg_cong [OF fr, of events]
      arg_cong [OF fr, of mailboxes] arg_cong [OF fr, of msgqueues] arg_cong [OF fr, of containers]
      arg_cong [OF fr, of rt_tick] arg_cong [OF fr, of timer_thread] arg_cong [OF fr, of objects]
      arg_cong [OF fr, of drivers] arg_cong [OF fr, of rt_errno]
    by (simp add: ipc_frame_def)
  then obtain e s3 where st: "rt_timer_stop (ThreadTimer t) s2 = Some (e, s3)"
    using rt_timer_stop_total types(2) ipc_frameD(12) by metis
  note f3 = rt_timer_stop_frame [OF st]
  show thesis
  proof (rule that)
    show "rt_thread_suspend t s = Some (RT_EOK, s3)"
      using types ready r st by (simp add: rt_thread_suspend_def)
    show "sched_inv s3" using inv2 thread_frame_inv f3 by blast
    show "ipc_frame s s3" using f2 f3 ipc_frame_trans by blast
    show "threads s3 = (threads s)(t := (threads s t)\<lparr>stat := suspend_stat (stat (threads s t)), tlist := None\<rparr>)"
      using f3 th by (auto simp: thread_frame_def thread_update_def)
    show "thread_lists s3 h = remove1 t (thread_lists s h)" for h
      using f3 li by (simp add: thread_frame_def)
    show "rt_current_thread s3 = rt_current_thread s" using f3 cur by (simp add: thread_frame_def)
  qed
qed

lemma rt_thread_resume_effect:
  assumes inv: "sched_inv s" and types: "is_thread t s = Some ()" "is_timer (ThreadTimer t) s = Some ()"
    and susp: "thread_stat s t = RT_THREAD_SUSPEND"
  defines "p \<equiv> unat (current_priority (threads s t))"
  obtains s' where "rt_thread_resume t s = Some (RT_EOK, s')" "sched_inv s'" "ipc_frame s s'"
    "threads s' = (threads s)(t := (threads s t)\<lparr>stat := ready_stat (stat (threads s t)),
                                               tlist := Some (ReadyList p)\<rparr>)"
    "\<And>h. thread_lists s' h = remove1 t (thread_lists s h) @ (if h = ReadyList p then [t] else [])"
    "rt_current_thread s' = rt_current_thread s"
proof -
  let ?s1 = "rt_list_remove t s"
  have lo: "list_ok s" using inv by (simp add: sched_inv_def)
  have prio: "prio_ok (threads s t)" using sched_inv_prio_ok [OF inv, of t] susp by simp
  have weak: "prio_weak (threads s t)" by (rule sched_inv_prio_weak [OF inv])
  have ipc1: "ipc_frame s ?s1" by simp
  then obtain e s2 where st: "rt_timer_stop (ThreadTimer t) ?s1 = Some (e, s2)"
    using rt_timer_stop_total types(2) ipc_frameD(12) by metis
  note f2 = rt_timer_stop_frame [OF st]
  have th2: "threads s2 = (threads s)(t := (threads s t)\<lparr>tlist := None\<rparr>)"
    using f2 by (simp add: thread_frame_def rt_list_remove_fields)
  have un: "tlist (threads s2 t) = None" and prio2: "prio_ok (threads s2 t)"
    and weak2: "prio_weak (threads s2 t)"
    using prio weak by (simp_all add: th2 prio_ok_def prio_weak_def)
  have "tlist (threads s t) \<noteq> Some (ReadyList q)" for q
    using thread_wf_linked(1) [OF sched_invD(2) [OF inv], of t q] susp by (auto simp: thread_stat_def)
  then have rl: "thread_lists ?s1 (ReadyList q) = thread_lists s (ReadyList q)" for q
    by (simp add: lists_remove [OF lo] remove1_unlinked [OF lo])
  have li2: "thread_lists s2 h = remove1 t (thread_lists s h)" for h
    using f2 by (simp add: thread_frame_def lists_remove [OF lo])
  have "list_ok s2"
    using f2 list_ok_remove [OF lo, of t] by (simp add: thread_frame_def list_ok_def)
  moreover have "group_ok s2"
    using f2 inv by (simp add: thread_frame_def group_ok_def rl sched_inv_def)
  ultimately have but: "sched_inv_but t s2"
    using inv by (simp add: sched_inv_but_def th2 sched_inv_def)
  obtain s3 where c: "rt_schedule_insert_thread t s2 = Some s3"
    using rt_schedule_insert_thread_eq [OF un prio2] by simp
  note eq = c [unfolded rt_schedule_insert_thread_eq [OF un prio2], symmetric, simplified]
  show thesis
  proof (rule that)
    show "rt_thread_resume t s = Some (RT_EOK, s3)"
      using types susp st c by (simp add: rt_thread_resume_def)
    show "sched_inv s3" by (rule rt_schedule_insert_thread_inv [OF but un prio2 weak2 c])
    have "ipc_frame s2 s3" by (simp add: eq ipc_frame_def)
    with ipc1 f2 show "ipc_frame s s3" by (blast intro: ipc_frame_trans)
    show "threads s3 = (threads s)(t := (threads s t)\<lparr>stat := ready_stat (stat (threads s t)),
                                               tlist := Some (ReadyList p)\<rparr>)"
      by (simp add: eq th2 p_def)
    show "thread_lists s3 h = remove1 t (thread_lists s h) @ (if h = ReadyList p then [t] else [])" for h
      by (simp add: eq th2 li2 p_def)
    show "rt_current_thread s3 = rt_current_thread s"
      using f2 by (simp add: eq thread_frame_def)
  qed
qed


section \<open>Preservation by calls that return\<close>

lemma rt_schedule_remove_thread_frame:
  "rt_schedule_remove_thread t s = Some s' \<Longrightarrow>
     ipc_frame s s' \<and> rt_current_thread s' = rt_current_thread s \<and>
     timers s' = timers s \<and> objects s' = objects s \<and> rt_timer_list s' = rt_timer_list s \<and>
     rt_soft_timer_list s' = rt_soft_timer_list s"
  by (auto simp: rt_schedule_remove_thread_def ipc_frame_def Let_def)

lemma rt_schedule_insert_thread_frame:
  "rt_schedule_insert_thread t s = Some s' \<Longrightarrow>
     ipc_frame s s' \<and> rt_current_thread s' = rt_current_thread s \<and>
     timers s' = timers s \<and> objects s' = objects s \<and> rt_timer_list s' = rt_timer_list s \<and>
     rt_soft_timer_list s' = rt_soft_timer_list s"
  by (auto simp: rt_schedule_insert_thread_def ipc_frame_def rt_list_insert_before_def bind_Some_iff
      Let_def split: if_splits)

lemma rt_timer_stop_typed: "rt_timer_stop t s = Some r \<Longrightarrow> is_timer t s = Some ()"
  by (cases r) (auto simp: rt_timer_stop_def bind_Some_iff)

lemma rt_thread_suspend_inv:
  assumes "sched_inv s" "rt_thread_suspend t s = Some (e, s')"
  shows "sched_inv s' \<and> ipc_frame s s' \<and> rt_current_thread s' = rt_current_thread s"
proof (cases "thread_stat s t = RT_THREAD_READY")
  case False
  with assms show ?thesis by (auto simp: rt_thread_suspend_def bind_Some_iff)
next
  case True
  let ?s1 = "thread_update t (\<lambda>th. th\<lparr>stat := suspend_stat (stat th)\<rparr>) s"
  from assms(2) True obtain s2 r where ty: "is_thread t s = Some ()"
    and 1: "rt_schedule_remove_thread t ?s1 = Some s2" and 2: "rt_timer_stop (ThreadTimer t) s2 = Some r"
    by (auto simp: rt_thread_suspend_def bind_Some_iff Let_def split: if_splits)
  have "ipc_frame s s2"
    using rt_schedule_remove_thread_frame [OF 1] ipc_frame_thread_fields(7) ipc_frame_trans by blast
  with rt_timer_stop_typed [OF 2] have "is_timer (ThreadTimer t) s = Some ()"
    by (simp add: ipc_frameD)
  from rt_thread_suspend_effect [OF assms(1) ty this True] assms(2) show ?thesis by auto
qed

lemma rt_thread_resume_inv:
  assumes "sched_inv s" "rt_thread_resume t s = Some (e, s')"
  shows "sched_inv s' \<and> ipc_frame s s' \<and> rt_current_thread s' = rt_current_thread s"
proof (cases "thread_stat s t = RT_THREAD_SUSPEND")
  case False
  with assms show ?thesis by (auto simp: rt_thread_resume_def bind_Some_iff)
next
  case True
  from assms(2) True obtain r where ty: "is_thread t s = Some ()"
    and 2: "rt_timer_stop (ThreadTimer t) (rt_list_remove t s) = Some r"
    by (auto simp: rt_thread_resume_def bind_Some_iff Let_def split: if_splits)
  have "is_timer (ThreadTimer t) s = Some ()"
    using rt_timer_stop_typed [OF 2] ipc_frameD(12) [OF ipc_frame_thread_fields(11)] by metis
  from rt_thread_resume_effect [OF assms(1) ty this True] assms(2) show ?thesis by auto
qed

lemma rt_schedule_inv:
  assumes "sched_inv s" "rt_schedule s = Some s'"
  shows "sched_inv s' \<and> ipc_frame s s'"
  using assms resched_frame_inv(1) [OF rt_schedule_frame] resched_ipc_frame [OF rt_schedule_frame] by blast

lemma rt_timer_start_inv:
  assumes "sched_inv s" "rt_timer_start t s = Some (e, s')"
  shows "sched_inv s' \<and> ipc_frame s s'"
proof -
  from assms(2) obtain s1 where 1: "rt_timer_enqueue t s = Some s1"
    and c: "s' = s1 \<or> (\<exists>e2 s2. rt_thread_resume (timer_thread s1) s1 = Some (e2, s2) \<and> rt_schedule s2 = Some s')"
    by (auto simp: rt_timer_start_def bind_Some_iff split: if_splits)
  have s1: "sched_inv s1" "ipc_frame s s1"
    using rt_timer_enqueue_frame [OF 1] thread_frame_inv assms(1) by blast+
  from c show ?thesis
  proof (elim disjE exE conjE)
    fix e2 s2
    assume "rt_thread_resume (timer_thread s1) s1 = Some (e2, s2)" and r: "rt_schedule s2 = Some s'"
    from rt_thread_resume_inv [OF s1(1) this(1)] have s2: "sched_inv s2" "ipc_frame s1 s2" by simp_all
    from rt_schedule_inv [OF s2(1) r] s1(2) s2(2) show ?thesis by (auto intro: ipc_frame_trans)
  qed (use s1 in simp)
qed

lemma rt_thread_timeout_effect:
  assumes inv: "sched_inv s" and susp: "thread_stat s t = RT_THREAD_SUSPEND" and ty: "is_thread t s = Some ()"
  defines "p \<equiv> unat (current_priority (threads s t))"
  obtains s1 where "rt_thread_timeout t s = rt_schedule s1" "sched_inv s1" "ipc_frame s s1"
    "threads s1 = (threads s)(t := (threads s t)\<lparr>error := - RT_ETIMEOUT,
        stat := ready_stat (stat (threads s t)), tlist := Some (ReadyList p)\<rparr>)"
    "\<And>h. thread_lists s1 h = remove1 t (thread_lists s h) @ (if h = ReadyList p then [t] else [])"
    "rt_current_thread s1 = rt_current_thread s"
    "timers s1 = timers s" "objects s1 = objects s" "rt_timer_list s1 = rt_timer_list s"
    "rt_soft_timer_list s1 = rt_soft_timer_list s"
proof -
  let ?s0 = "thread_update t (\<lambda>th. th\<lparr>error := - RT_ETIMEOUT\<rparr>) s"
  let ?s1 = "rt_list_remove t ?s0"
  have inv0: "sched_inv ?s0" using inv by (simp add: sched_inv_thread_update sched_key_def)
  then have lo: "list_ok ?s0" by (simp add: sched_inv_def)
  have prio: "prio_ok (threads ?s0 t)"
    using sched_inv_prio_ok [OF inv, of t] susp by (simp add: prio_ok_def)
  have weak: "prio_weak (threads s t)" by (rule sched_inv_prio_weak [OF inv])
  have th1: "threads ?s1 = (threads s)(t := (threads s t)\<lparr>error := - RT_ETIMEOUT, tlist := None\<rparr>)"
    by (simp add: rt_list_remove_fields thread_update_def)
  have un: "tlist (threads ?s1 t) = None" and prio1: "prio_ok (threads ?s1 t)"
    and weak1: "prio_weak (threads ?s1 t)"
    using prio weak by (simp_all add: th1 prio_ok_def prio_weak_def)
  have "tlist (threads ?s0 t) \<noteq> Some (ReadyList q)" for q
    using thread_wf_linked(1) [OF sched_invD(2) [OF inv], of t q] susp by (auto simp: thread_stat_def)
  then have rl: "thread_lists ?s1 (ReadyList q) = thread_lists s (ReadyList q)" for q
    using remove1_unlinked [OF lo, of t "ReadyList q"] by (simp add: lists_remove [OF lo])
  have "list_ok ?s1" by (rule list_ok_remove [OF lo])
  moreover have "group_ok ?s1" using inv by (simp add: group_ok_def rl sched_inv_def)
  ultimately have but: "sched_inv_but t ?s1" using inv by (simp add: sched_inv_but_def th1 sched_inv_def)
  obtain s3 where c: "rt_schedule_insert_thread t ?s1 = Some s3"
    using rt_schedule_insert_thread_eq [OF un prio1] by simp
  note eq = c [unfolded rt_schedule_insert_thread_eq [OF un prio1], symmetric, simplified]
  show thesis
  proof (rule that)
    show "rt_thread_timeout t s = rt_schedule s3"
      using susp ty c by (simp add: rt_thread_timeout_def Let_def)
    show "sched_inv s3" by (rule rt_schedule_insert_thread_inv [OF but un prio1 weak1 c])
    show "ipc_frame s s3"
      using rt_schedule_insert_thread_frame [OF c] ipc_frame_trans ipc_frame_thread_fields(7,11) by blast
    show "threads s3 = (threads s)(t := (threads s t)\<lparr>error := - RT_ETIMEOUT,
        stat := ready_stat (stat (threads s t)), tlist := Some (ReadyList p)\<rparr>)"
      by (simp add: eq th1 p_def)
    show "thread_lists s3 h = remove1 t (thread_lists s h) @ (if h = ReadyList p then [t] else [])" for h
      by (simp add: eq th1 lists_remove [OF lo] p_def)
  qed (use rt_schedule_insert_thread_frame [OF c] in \<open>simp_all add: thread_update_def\<close>)
qed


lemma arm_thread_timer_inv:
  assumes "sched_inv s" "arm_thread_timer t tick s = Some s'"
  shows "sched_inv s' \<and> ipc_frame s s'"
proof -
  from assms(2) obtain v s2 e3 where
    2: "rt_timer_control (ThreadTimer t) (SET_TIME tick) s = Some (v, s2)"
    and 3: "rt_timer_start (ThreadTimer t) s2 = Some (e3, s')"
    by (auto simp: arm_thread_timer_def bind_Some_iff)
  have b: "sched_inv s2 \<and> ipc_frame s s2"
    using rt_timer_control_frame [OF 2] thread_frame_inv assms(1) by blast
  with rt_timer_start_inv [OF _ 3] show ?thesis by (meson ipc_frame_trans)
qed

end
