(* ===== verification/RTT_ThreadInv.thy ===== *)
theory RTT_ThreadInv
  imports RTT_Thread
begin

text \<open>
  Every thread operation keeps the invariant of the ready queues, whatever it returns, and what
  \<^verbatim>\<open>rt_thread_yield\<close>, \<^verbatim>\<open>rt_thread_sleep\<close> and \<^verbatim>\<open>rt_thread_startup\<close> do to the calling or started thread.
\<close>

lemma rt_list_insert_before_inv:
  assumes inv: "sched_inv s" and call: "rt_list_insert_before h t s = Some s'"
    and h: "\<And>p. h \<noteq> ReadyList p" and wf: "thread_wf ((threads s t)\<lparr>tlist := Some h\<rparr>)"
  shows "sched_inv s' \<and> ipc_frame s s' \<and> rt_current_thread s' = rt_current_thread s"
proof -
  note lo = sched_invD(1) [OF inv]
  have h': "ReadyList p \<noteq> h" for p using h [of p] by auto
  from call have un: "tlist (threads s t) = None"
    and s': "s' = thread_update t (\<lambda>th. th\<lparr>tlist := Some h\<rparr>)
                 (s\<lparr>thread_lists := (thread_lists s)(h := thread_lists s h @ [t])\<rparr>)"
    by (auto simp: rt_list_insert_before_def split: if_splits)
  have "list_ok s'"
    using un list_ok_mem [OF lo] list_ok_distinct [OF lo]
    by (auto simp: s' list_ok_def threads_update)
  moreover have "group_ok s'" using inv h' by (simp add: s' group_ok_def sched_inv_def)
  ultimately show ?thesis
    using inv wf by (simp add: s' sched_inv_def threads_update ipc_frame_def)
qed

lemma rt_list_insert_after_inv:
  assumes inv: "sched_inv s" and call: "rt_list_insert_after h t s = Some s'"
    and h: "\<And>p. h \<noteq> ReadyList p" and wf: "thread_wf ((threads s t)\<lparr>tlist := Some h\<rparr>)"
  shows "sched_inv s' \<and> ipc_frame s s' \<and> rt_current_thread s' = rt_current_thread s"
proof -
  note lo = sched_invD(1) [OF inv]
  have h': "ReadyList p \<noteq> h" for p using h [of p] by auto
  from call have un: "tlist (threads s t) = None"
    and s': "s' = thread_update t (\<lambda>th. th\<lparr>tlist := Some h\<rparr>)
                 (s\<lparr>thread_lists := (thread_lists s)(h := t # thread_lists s h)\<rparr>)"
    by (auto simp: rt_list_insert_after_def split: if_splits)
  have "list_ok s'"
    using un list_ok_mem [OF lo] list_ok_distinct [OF lo]
    by (auto simp: s' list_ok_def threads_update)
  moreover have "group_ok s'" using inv h' by (simp add: s' group_ok_def sched_inv_def)
  ultimately show ?thesis
    using inv wf by (simp add: s' sched_inv_def threads_update ipc_frame_def)
qed

section \<open>Yield\<close>

lemma yield_requeue:
  assumes inv: "sched_inv s" and ready: "thread_stat s t = RT_THREAD_READY"
  defines "p \<equiv> unat (current_priority (threads s t))"
  obtains s1 where
    "do { let s = rt_list_remove t s;
          rt_assert (unat (current_priority (threads s t)) < RT_THREAD_PRIORITY_MAX);
          rt_list_insert_before (ReadyList (unat (current_priority (threads s t)))) t s } = Some s1"
    "sched_inv s1" "threads s1 = threads s"
    "thread_lists s1 = (thread_lists s)(ReadyList p := remove1 t (thread_lists s (ReadyList p)) @ [t])"
    "ipc_frame s s1" "rt_current_thread s1 = rt_current_thread s"
proof -
  let ?s1 = "s\<lparr>thread_lists := (thread_lists s)(ReadyList p := remove1 t (thread_lists s (ReadyList p)) @ [t])\<rparr>"
  note lo = sched_invD(1) [OF inv]
  have link: "tlist (threads s t) = Some (ReadyList p)"
    using thread_wf_ready [OF sched_invD(2) [OF inv]] ready by (simp add: thread_stat_def p_def)
  have th: "(threads s)(t := (threads s t)\<lparr>tlist := Some (ReadyList p)\<rparr>) = threads s"
    using link by (intro ext) simp
  have prio: "p < RT_THREAD_PRIORITY_MAX"
    using sched_inv_prio_weak [OF inv, of t] by (simp add: prio_weak_def p_def)
  have t: "t \<in> set (thread_lists s (ReadyList p))" using link list_ok_mem [OF lo] by simp
  have sets: "set (remove1 t (thread_lists s (ReadyList p))) = set (thread_lists s (ReadyList p)) - {t}"
    by (rule set_remove1_eq) (rule list_ok_distinct [OF lo])
  have "list_ok ?s1"
    using list_ok_distinct [OF lo] t by (auto simp: list_ok_def sets list_ok_mem [OF lo])
  moreover have "group_ok ?s1" using inv t by (auto simp: group_ok_def sched_inv_def)
  ultimately have "sched_inv ?s1" using inv by (simp add: sched_inv_def)
  moreover have "rt_list_insert_before (ReadyList p) t (rt_list_remove t s) = Some ?s1"
    using link th by (simp add: rt_list_insert_before_def rt_list_remove_def thread_update_def)
  moreover have "unat (current_priority (threads (rt_list_remove t s) t)) = p"
    by (simp add: rt_list_remove_fields p_def)
  ultimately show thesis using that [of ?s1] prio by (simp add: ipc_frame_def)
qed

lemma rt_thread_yield_inv:
  assumes inv: "sched_inv s" and call: "rt_thread_yield s = Some (e, s')"
  shows "sched_inv s' \<and> ipc_frame s s'"
proof -
  from call obtain t s1 where 1: "rt_current_thread s = Some t" and 2: "rt_schedule s1 = Some s'"
    and c: "(if thread_stat s t = RT_THREAD_READY \<and>
             (case tlist (threads s t) of None \<Rightarrow> False | Some h \<Rightarrow> 2 \<le> length (thread_lists s h))
          then do {
            let s = rt_list_remove t s;
            rt_assert (unat (current_priority (threads s t)) < RT_THREAD_PRIORITY_MAX);
            rt_list_insert_before (ReadyList (unat (current_priority (threads s t)))) t s }
          else Some s) = Some s1"
    unfolding rt_thread_yield_def by (auto simp: bind_Some_iff)
  have "sched_inv s1 \<and> ipc_frame s s1"
  proof (cases "thread_stat s t = RT_THREAD_READY")
    case True
    from yield_requeue [OF inv True] c inv show ?thesis by (metis ipc_frame_refl option.inject)
  next
    case False
    with c inv show ?thesis by simp
  qed
  with rt_schedule_inv [OF _ 2] show ?thesis using ipc_frame_trans by blast
qed

text \<open>
  C25: \<^verbatim>\<open>rt_thread_yield\<close> is round robin: when the running thread is the first ready thread of its
  priority and others of that priority are ready, it goes to the end of their queue and the
  next of them runs; the order of the others is kept.
\<close>

theorem rt_thread_yield_round_robin:
  assumes "sys_ok s" "preempt_level s = 0" "rt_interrupt_get_nest s = 0"
    and "rt_current_thread s = Some t" "thread_stat s t = RT_THREAD_READY"
    and "thread_lists s (ReadyList (unat (current_priority (threads s t)))) = t # u # us"
    and "\<forall>v. thread_stat s v = RT_THREAD_READY \<longrightarrow>
      current_priority (threads s t) \<le> current_priority (threads s v)"
  shows "\<exists>s'. rt_thread_yield s = Some (RT_EOK, s') \<and> sys_ok s' \<and> rt_current_thread s' = Some u \<and>
    thread_lists s' (ReadyList (unat (current_priority (threads s t)))) = u # us @ [t]"
proof -
  let ?p = "unat (current_priority (threads s t))"
  have inv: "sched_inv s" using assms(1) by (simp add: sys_ok_def)
  have link: "tlist (threads s t) = Some (ReadyList ?p)"
    using thread_wf_ready [OF sched_invD(2) [OF inv]] assms(5) by (simp add: thread_stat_def)
  have tu: "t \<noteq> u" "t \<notin> set us"
    using list_ok_distinct [OF sched_invD(1) [OF inv], of "ReadyList ?p"] assms(6) by auto
  from yield_requeue [OF inv assms(5)] obtain s1 where
    c1: "do { let s = rt_list_remove t s;
          rt_assert (unat (current_priority (threads s t)) < RT_THREAD_PRIORITY_MAX);
          rt_list_insert_before (ReadyList (unat (current_priority (threads s t)))) t s } = Some s1"
    and inv1: "sched_inv s1" and th: "threads s1 = threads s"
    and li: "thread_lists s1 = (thread_lists s)(ReadyList ?p := remove1 t (thread_lists s (ReadyList ?p)) @ [t])"
    and cur: "rt_current_thread s1 = rt_current_thread s"
    by blast
  have l1: "thread_lists s1 (ReadyList ?p) = u # us @ [t]" using assms(6) by (simp add: li)
  have ok1: "sys_ok s1"
    using assms(1) inv1 by (simp add: sys_ok_def th stacks_ok_def cur thread_stat_def)
  have lev1: "preempt_level s1 = 0" "rt_interrupt_get_nest s1 = 0"
    using assms(2,3) preempt_cong [OF cur] by (simp_all add: th)
  obtain p' t' where t': "thread_stat s1 t' = RT_THREAD_READY" "unat (current_priority (threads s1 t')) = p'"
    "hd (thread_lists s1 (ReadyList p')) = t'"
    and min: "\<And>v. thread_stat s1 v = RT_THREAD_READY \<Longrightarrow> p' \<le> unat (current_priority (threads s1 v))"
    and r: "rt_schedule s1 = Some (if rt_current_thread s1 = Some t' then thread_clear_resched s1
       else rt_set_current (Some t') (thread_clear_resched (s1\<lparr>rt_current_priority := of_nat p'\<rparr>)))"
    by (rule rt_schedule_cases [OF ok1 lev1(1)]) (simp add: lev1(2) Let_def)
  have "p' \<le> ?p" using min [of t] assms(5) by (simp add: th thread_stat_def)
  moreover have "?p \<le> p'" using assms(7) t'(1,2) by (auto simp: th thread_stat_def word_le_nat_alt)
  ultimately have "t' = u" using t'(3) l1 by simp
  with r tu assms(4) have r': "rt_schedule s1 =
      Some (rt_set_current (Some u) (thread_clear_resched (s1\<lparr>rt_current_priority := of_nat p'\<rparr>)))"
    (is "_ = Some ?s'") by (simp add: cur)
  have fr: "resched_frame s1 ?s'" using r' by (rule rt_schedule_frame)
  have "rt_thread_yield s = Some (RT_EOK, ?s')"
    using assms(4-6) link c1 r' by (simp add: rt_thread_yield_def)
  moreover have "rt_current_thread ?s' = Some u" by (simp add: rt_set_current_def)
  moreover have "thread_lists ?s' (ReadyList ?p) = u # us @ [t]" using resched_frameD(1) [OF fr] l1 by simp
  ultimately show ?thesis using resched_frame_inv(3) [OF fr ok1] by blast
qed


section \<open>Sleep\<close>

lemma rt_thread_sleep_inv:
  assumes inv: "sched_inv s" and call: "rt_thread_sleep tick s = Some s'"
  shows "sched_inv s' \<and> ipc_frame s s'"
proof -
  from call obtain t e1 s1 s2 where
    1: "rt_thread_suspend t s = Some (e1, s1)"
    and 2: "arm_thread_timer t tick s1 = Some s2" and 3: "rt_schedule s2 = Some s'"
    by (auto simp: rt_thread_sleep_def bind_Some_iff)
  from rt_thread_suspend_inv [OF inv 1] arm_thread_timer_inv [OF _ 2] rt_schedule_inv [OF _ 3]
  show ?thesis by (meson ipc_frame_trans)
qed

lemma rt_thread_delay_until_inv:
  assumes inv: "sched_inv s" and call: "rt_thread_delay_until tick inc s = Some (r, s')"
  shows "sched_inv s' \<and> ipc_frame s s'"
proof (cases "rt_tick_get s - tick < inc")
  case True
  from call True obtain t e1 s1 s2 where
    1: "rt_thread_suspend t s = Some (e1, s1)"
    and 2: "arm_thread_timer t (rt_tick_get s - tick + inc) s1 = Some s2" and 3: "rt_schedule s2 = Some s'"
    by (auto simp: rt_thread_delay_until_def bind_Some_iff Let_def)
  from rt_thread_suspend_inv [OF inv 1] arm_thread_timer_inv [OF _ 2] rt_schedule_inv [OF _ 3]
  show ?thesis by (meson ipc_frame_trans)
next
  case False
  with call inv show ?thesis by (auto simp: rt_thread_delay_until_def bind_Some_iff)
qed

text \<open>What a thread needs of the object layer to use its own timer.\<close>

definition thread_typed :: "kstate \<Rightarrow> tid \<Rightarrow> bool" where
  "thread_typed s t \<longleftrightarrow> is_thread t s = Some () \<and> is_timer (ThreadTimer t) s = Some () \<and>
     timer_flag s (ThreadTimer t) AND RT_TIMER_FLAG_SOFT_TIMER = 0"

lemma rt_timer_stop_fields:
  assumes "rt_timer_stop t s = Some (e, s')"
  shows "timers s' = timers s" "timer_flag s' t AND RT_TIMER_FLAG_SOFT_TIMER = timer_flag s t AND RT_TIMER_FLAG_SOFT_TIMER"
  using assms
  by (auto simp: rt_timer_stop_def bind_Some_iff timer_flag_update_def object_update_def
      rt_timer_remove_def timer_flag_def timer_flag_bits split: if_splits)

lemma rt_thread_suspend_soft:
  assumes "rt_thread_suspend t s = Some (e, s')"
  shows "timers s' = timers s"
    "timer_flag s' (ThreadTimer t) AND RT_TIMER_FLAG_SOFT_TIMER
       = timer_flag s (ThreadTimer t) AND RT_TIMER_FLAG_SOFT_TIMER"
proof -
  let ?s0 = "thread_update t (\<lambda>th. th\<lparr>stat := suspend_stat (stat th)\<rparr>) s"
  from assms consider "s' = s"
    | s2 e2 where "rt_schedule_remove_thread t ?s0 = Some s2" "rt_timer_stop (ThreadTimer t) s2 = Some (e2, s')"
    by (auto simp: rt_thread_suspend_def bind_Some_iff Let_def split: if_splits)
  then have "timers s' = timers s \<and> timer_flag s' (ThreadTimer t) AND RT_TIMER_FLAG_SOFT_TIMER
       = timer_flag s (ThreadTimer t) AND RT_TIMER_FLAG_SOFT_TIMER"
  proof cases
    case 2
    with rt_schedule_remove_thread_frame [OF 2(1)] rt_timer_stop_fields [OF 2(2)] show ?thesis
      by (simp add: timer_flag_def)
  qed simp
  then show "timers s' = timers s"
    "timer_flag s' (ThreadTimer t) AND RT_TIMER_FLAG_SOFT_TIMER
       = timer_flag s (ThreadTimer t) AND RT_TIMER_FLAG_SOFT_TIMER" by simp_all
qed

lemma arm_thread_timer_effect:
  assumes "is_timer (ThreadTimer t) s = Some ()"
    and "timer_flag s (ThreadTimer t) AND RT_TIMER_FLAG_SOFT_TIMER = 0" "tick < RT_TICK_MAX div 2"
  obtains s' where "arm_thread_timer t tick s = Some s'" "thread_frame s s'" "ipc_frame s s'"
    "ThreadTimer t \<in> set (rt_timer_list s')" "timeout_tick (timers s' (ThreadTimer t)) = rt_tick s + tick"
    "timer_flag s' (ThreadTimer t) AND RT_TIMER_FLAG_ACTIVATED \<noteq> 0"
proof -
  let ?s1 = "timer_update (ThreadTimer t) (\<lambda>tm. tm\<lparr>tm_init_tick := tick\<rparr>) s"
  have c: "rt_timer_control (ThreadTimer t) (SET_TIME tick) s = Some (None, ?s1)"
    using assms(1) by (simp add: rt_timer_control_def)
  have ty: "is_timer (ThreadTimer t) ?s1 = Some ()"
    using assms(1) ipc_frameD(12) [OF ipc_frame_thread_fields(8)] by metis
  have i: "tm_init_tick (timers ?s1 (ThreadTimer t)) < RT_TICK_MAX div 2"
    and f: "timer_flag ?s1 (ThreadTimer t) AND RT_TIMER_FLAG_SOFT_TIMER = 0"
    using assms(2,3) by (simp_all add: timer_update_def timer_flag_def)
  obtain s' where e: "rt_timer_enqueue (ThreadTimer t) ?s1 = Some s'"
    and t: "timers s' = (timers ?s1)(ThreadTimer t := (timers ?s1 (ThreadTimer t))\<lparr>timeout_tick :=
       rt_tick ?s1 + tm_init_tick (timers ?s1 (ThreadTimer t))\<rparr>)"
    and l: "rt_timer_list s' = timer_insert (\<lambda>u. timeout_tick (timers s' u)) (ThreadTimer t)
       (rt_tick ?s1 + tm_init_tick (timers ?s1 (ThreadTimer t))) (remove1 (ThreadTimer t) (rt_timer_list ?s1))"
    and act: "timer_flag s' (ThreadTimer t) AND RT_TIMER_FLAG_ACTIVATED \<noteq> 0"
      "timer_flag s' (ThreadTimer t) AND RT_TIMER_FLAG_SOFT_TIMER = 0"
    by (rule rt_timer_enqueue_effect [OF ty i f]) blast
  note fr = rt_timer_enqueue_frame [OF e]
  show thesis
  proof (rule that)
    show "arm_thread_timer t tick s = Some s'"
      using c e act by (simp add: arm_thread_timer_def rt_timer_start_def)
    show "thread_frame s s'" "ipc_frame s s'"
      using fr thread_frame_trans [OF thread_frame_steps(3)] ipc_frame_trans [OF ipc_frame_thread_fields(8)]
      by blast+
    show "ThreadTimer t \<in> set (rt_timer_list s')" by (simp add: l)
    show "timeout_tick (timers s' (ThreadTimer t)) = rt_tick s + tick"
      by (simp add: t timer_update_def)
  qed (rule act)
qed

text \<open>The steps that a sleep and every timed wait of a running thread share.\<close>

lemma suspend_arm_schedule:
  assumes "sys_ok s" "preempt_level s = 0" "rt_interrupt_get_nest s = 0"
    and "rt_current_thread s = Some t" "thread_stat s t = RT_THREAD_READY" "thread_typed s t"
    and "u \<noteq> t" "thread_stat s u = RT_THREAD_READY" "tick < RT_TICK_MAX div 2"
  shows "\<exists>s1 s2 s' v. rt_thread_suspend t s = Some (RT_EOK, s1) \<and>
    arm_thread_timer t tick s1 = Some s2 \<and> rt_schedule s2 = Some s' \<and>
    sys_ok s' \<and>
    thread_stat s' t = RT_THREAD_SUSPEND \<and> tlist (threads s' t) = None \<and>
    ThreadTimer t \<in> set (rt_timer_list s') \<and>
    timeout_tick (timers s' (ThreadTimer t)) = rt_tick s + tick \<and>
    rt_current_thread s' = Some v \<and> v \<noteq> t \<and> thread_stat s' v = RT_THREAD_READY \<and>
    (\<forall>w. thread_stat s' w = RT_THREAD_READY \<longrightarrow>
       current_priority (threads s' v) \<le> current_priority (threads s' w))"
proof -
  have inv: "sched_inv s" using assms(1) by (simp add: sys_ok_def)
  have ty: "is_thread t s = Some ()" "is_timer (ThreadTimer t) s = Some ()"
    using assms(6) by (simp_all add: thread_typed_def)
  from rt_thread_suspend_effect [OF inv ty assms(5)] obtain s1 where
    1: "rt_thread_suspend t s = Some (RT_EOK, s1)" and inv1: "sched_inv s1" and ipc1: "ipc_frame s s1"
    and th1: "threads s1 = (threads s)(t := (threads s t)\<lparr>stat := suspend_stat (stat (threads s t)), tlist := None\<rparr>)"
    and cur1: "rt_current_thread s1 = rt_current_thread s"
    by blast
  have soft1: "timer_flag s1 (ThreadTimer t) AND RT_TIMER_FLAG_SOFT_TIMER = 0"
    using rt_thread_suspend_soft(2) [OF 1] assms(6) by (simp add: thread_typed_def)
  obtain s2 where 2: "arm_thread_timer t tick s1 = Some s2"
    and fr2: "thread_frame s1 s2" "ipc_frame s1 s2"
    and tm2: "ThreadTimer t \<in> set (rt_timer_list s2)"
      "timeout_tick (timers s2 (ThreadTimer t)) = rt_tick s1 + tick"
    using ty(2) ipc_frameD(12) [OF ipc1]
    by (rule_tac arm_thread_timer_effect [OF _ soft1 assms(9)]) auto
  have th2: "threads s2 = threads s1" and cur2: "rt_current_thread s2 = rt_current_thread s"
    using fr2 cur1 by (simp_all add: thread_frame_def)
  have "thread_stat s2 u = RT_THREAD_READY" using assms(7,8) by (simp add: th2 th1 thread_stat_def)
  moreover have "stacks_ok s2"
    using assms(1) by (simp add: sys_ok_def stacks_ok_def th2 th1 rt_scheduler_stack_check_def)
  ultimately have ok2: "sys_ok s2"
    using inv1 thread_frame_inv [OF fr2(1)] assms(4) by (auto simp: sys_ok_def cur2)
  have lev2: "preempt_level s2 = 0" "rt_interrupt_get_nest s2 = 0"
    using assms(2,3) preempt_cong [OF cur2] by (simp_all add: th2 th1)
  obtain p v where v: "thread_stat s2 v = RT_THREAD_READY" "unat (current_priority (threads s2 v)) = p"
    and min: "\<And>w. thread_stat s2 w = RT_THREAD_READY \<Longrightarrow> p \<le> unat (current_priority (threads s2 w))"
    and r: "rt_schedule s2 = Some (if rt_current_thread s2 = Some v then thread_clear_resched s2
       else rt_set_current (Some v) (thread_clear_resched (s2\<lparr>rt_current_priority := of_nat p\<rparr>)))"
    by (rule rt_schedule_cases [OF ok2 lev2(1)]) (simp add: lev2(2) Let_def)
  have st: "thread_stat s2 t = RT_THREAD_SUSPEND" by (simp add: th2 th1 thread_stat_def)
  with v(1) have "v \<noteq> t" by auto
  let ?s' = "rt_set_current (Some v) (thread_clear_resched (s2\<lparr>rt_current_priority := of_nat p\<rparr>))"
  have r': "rt_schedule s2 = Some ?s'" using r \<open>v \<noteq> t\<close> assms(4) by (simp add: cur2)
  note fr = rt_schedule_frame [OF r']
  have "rt_current_thread ?s' = Some v" by (simp add: rt_set_current_def)
  moreover have "tlist (threads ?s' t) = None"
    by (simp add: resched_frame_thread [OF fr] th2 th1)
  moreover have "rt_tick s1 = rt_tick s" by (rule ipc_frameD(7) [OF ipc1])
  ultimately show ?thesis
    using resched_frame_inv(3) [OF fr ok2] st v min tm2 \<open>v \<noteq> t\<close>
      1 2 r'
    by (intro exI [of _ s1] exI [of _ s2] exI [of _ ?s'] exI [of _ v])
      (simp add: resched_frame_thread [OF fr] resched_frameD [OF fr] word_le_nat_alt)
qed


text \<open>
  \<^verbatim>\<open>rt_thread_sleep\<close> of the running thread suspends it, takes it off the ready queue, arms its
  timer for the current tick plus the delay, and switches to another ready thread of the highest
  priority.
\<close>

theorem rt_thread_sleep_suspends:
  assumes "sys_ok s" "preempt_level s = 0" "rt_interrupt_get_nest s = 0"
    and "rt_current_thread s = Some t" "thread_stat s t = RT_THREAD_READY" "thread_typed s t"
    and "u \<noteq> t" "thread_stat s u = RT_THREAD_READY" "tick < RT_TICK_MAX div 2"
  shows "\<exists>s' v. rt_thread_sleep tick s = Some s' \<and>
    sys_ok s' \<and>
    thread_stat s' t = RT_THREAD_SUSPEND \<and> tlist (threads s' t) = None \<and>
    ThreadTimer t \<in> set (rt_timer_list s') \<and>
    timeout_tick (timers s' (ThreadTimer t)) = rt_tick s + tick \<and>
    rt_current_thread s' = Some v \<and> v \<noteq> t \<and> thread_stat s' v = RT_THREAD_READY \<and>
    (\<forall>w. thread_stat s' w = RT_THREAD_READY \<longrightarrow>
       current_priority (threads s' v) \<le> current_priority (threads s' w))"
  using suspend_arm_schedule [OF assms] assms(4,6)
  by (force simp: rt_thread_sleep_def thread_typed_def)

text \<open>
  \<^verbatim>\<open>rt_thread_delay_until\<close> arms the timer for \<open>now + (now - *tick + inc_tick)\<close>: a thread that
  arrives \<open>d\<close> ticks after its last wake-up is delayed \<open>2 * d\<close> ticks beyond \<^verbatim>\<open>*tick + inc_tick\<close>, the
  tick its comment promises.
\<close>

theorem rt_thread_delay_until_overshoots:
  assumes "sys_ok s" "preempt_level s = 0" "rt_interrupt_get_nest s = 0"
    and "rt_current_thread s = Some t" "thread_stat s t = RT_THREAD_READY" "thread_typed s t"
    and "u \<noteq> t" "thread_stat s u = RT_THREAD_READY"
    and "rt_tick s - tick < inc" "rt_tick s - tick + inc < RT_TICK_MAX div 2"
  shows "\<exists>s'. rt_thread_delay_until tick inc s = Some (Inr (rt_tick s - tick + inc), s') \<and> sys_ok s' \<and>
    thread_stat s' t = RT_THREAD_SUSPEND \<and>
    timeout_tick (timers s' (ThreadTimer t)) = tick + inc + 2 * (rt_tick s - tick)"
proof -
  from suspend_arm_schedule [OF assms(1-8,10)] obtain s1 s2 s' where
    c: "rt_thread_suspend t s = Some (RT_EOK, s1)" "arm_thread_timer t (rt_tick s - tick + inc) s1 = Some s2"
      "rt_schedule s2 = Some s'"
    and r: "sys_ok s'" "thread_stat s' t = RT_THREAD_SUSPEND"
      "timeout_tick (timers s' (ThreadTimer t)) = rt_tick s + (rt_tick s - tick + inc)"
    by metis
  have "rt_tick s + (rt_tick s - tick + inc) = tick + inc + 2 * (rt_tick s - tick)"
    by (simp add: algebra_simps)
  with c r assms(4,6,9) show ?thesis
    by (auto simp: rt_thread_delay_until_def rt_thread_self_def rt_tick_get_def thread_typed_def Let_def)
qed


section \<open>Start, end and control\<close>

lemma thread_wf_init_unlinked:
  "thread_wf th \<Longrightarrow> stat th AND RT_THREAD_STAT_MASK = RT_THREAD_INIT \<Longrightarrow> tlist th = None"
  by (auto simp: thread_wf_def thread_stat_defs split: option.splits list_head.splits)

lemma push_bit_1_nonzero: "p < RT_THREAD_PRIORITY_MAX \<Longrightarrow> push_bit p (1 :: u32) \<noteq> 0"
proof
  assume "p < RT_THREAD_PRIORITY_MAX" "push_bit p (1 :: u32) = 0"
  with bit_group_insert [of p 0 p] show False by (simp add: RT_THREAD_PRIORITY_MAX_def)
qed

lemma ready_mask_nonzero:
  assumes "sched_inv s"
  shows "number_mask (threads s t) \<noteq> 0 \<or> (\<forall>q. tlist (threads s t) \<noteq> Some (ReadyList q))"
proof -
  have "number_mask (threads s t) \<noteq> 0" if "tlist (threads s t) = Some (ReadyList q)" for q
  proof -
    have "thread_stat s t = RT_THREAD_READY"
      using thread_wf_linked(1) [OF sched_invD(2) [OF assms] that] by (simp add: thread_stat_def)
    then have "prio_ok (threads s t)" using sched_inv_prio_ok [OF assms] by simp
    then show ?thesis using push_bit_1_nonzero by (simp add: prio_ok_def)
  qed
  then show ?thesis by blast
qed

lemma sched_inv_but_thread_frame:
  "thread_frame s s' \<Longrightarrow> sched_inv_but t s' = sched_inv_but t s"
  by (simp add: thread_frame_def sched_inv_but_def list_ok_def group_ok_def)

lemma close_thread:
  assumes "sched_inv_but t s" "tlist (threads s t) = None" "prio_weak (threads s t)"
  shows "sched_inv (thread_update t (\<lambda>th. th\<lparr>stat := RT_THREAD_CLOSE\<rparr>) s)"
proof (rule sched_inv_butD [of t])
  show "sched_inv_but t (thread_update t (\<lambda>th. th\<lparr>stat := RT_THREAD_CLOSE\<rparr>) s)"
    using assms(1) by (simp add: sched_inv_but_def list_ok_def group_ok_def threads_update)
  show "thread_wf (threads (thread_update t (\<lambda>th. th\<lparr>stat := RT_THREAD_CLOSE\<rparr>) s) t)"
    using assms(2,3) by (simp add: thread_wf_def prio_weak_def thread_stat_defs)
qed

lemma remove_for_close:
  assumes inv: "sched_inv s" and r: "rt_schedule_remove_thread t s = Some s1"
  shows "sched_inv_but t s1 \<and> tlist (threads s1 t) = None \<and> prio_weak (threads s1 t)"
proof -
  note weak = sched_inv_prio_weak [OF inv, of t]
  from rt_schedule_remove_thread_inv [OF sched_inv_but [OF inv] weak ready_mask_nonzero [OF inv]]
  obtain s2 where "rt_schedule_remove_thread t s = Some s2" "sched_inv_but t s2"
    "threads s2 = (threads s)(t := (threads s t)\<lparr>tlist := None\<rparr>)" by blast
  with r weak show ?thesis by (simp add: prio_weak_def)
qed

lemma rt_timer_detach_frame: "rt_timer_detach t s = Some s' \<Longrightarrow> thread_frame s s'"
  by (auto simp: rt_timer_detach_def bind_Some_iff rt_object_detach_def container_remove_def
      object_update_def rt_timer_remove_def thread_frame_def)

lemma rt_object_detach_frame [simp]: "thread_frame s (rt_object_detach x s)"
  by (simp add: rt_object_detach_def container_remove_def object_update_def thread_frame_def)

text \<open>The last step of the three calls that end a thread.\<close>

lemma bury_inv:
  assumes inv: "sched_inv s" and wf: "thread_stat s t = RT_THREAD_CLOSE"
    and call: "(if c then Some (rt_object_detach (OThread t) s) else rt_list_insert_after DefunctList t s) = Some s'"
  shows "sched_inv s'"
proof (cases c)
  case True
  with call thread_frame_inv [OF rt_object_detach_frame] inv show ?thesis by auto
next
  case False
  with call have "rt_list_insert_after DefunctList t s = Some s'" by simp
  moreover have "thread_wf ((threads s t)\<lparr>tlist := Some DefunctList\<rparr>)"
    using wf sched_inv_prio_weak [OF inv, of t]
    by (simp add: thread_wf_def thread_stat_def prio_weak_def)
  ultimately show ?thesis using rt_list_insert_after_inv [OF inv] by blast
qed

lemma rt_thread_exit_inv:
  assumes inv: "sched_inv s" and call: "rt_thread_exit s = Some s'"
  shows "sched_inv s'"
proof -
  let ?close = "\<lambda>t. thread_update t (\<lambda>th. th\<lparr>stat := RT_THREAD_CLOSE\<rparr>)"
  from call obtain t s1 s2 s3 where 1: "rt_schedule_remove_thread t s = Some s1"
    and 2: "rt_timer_detach (ThreadTimer t) (?close t s1) = Some s2"
    and 3: "(if rt_object_is_systemobject (OThread t) s2 \<and> cleanup (threads s2 t) = None
          then Some (rt_object_detach (OThread t) s2) else rt_list_insert_after DefunctList t s2) = Some s3"
    and 4: "rt_schedule s3 = Some s'"
    unfolding rt_thread_exit_def Let_def by (auto simp: bind_Some_iff)
  have i1: "sched_inv (?close t s1)" using close_thread remove_for_close [OF inv 1] by blast
  have i2: "sched_inv s2" using thread_frame_inv [OF rt_timer_detach_frame [OF 2]] i1 by simp
  have "thread_stat s2 t = RT_THREAD_CLOSE"
    using rt_timer_detach_frame [OF 2] by (simp add: thread_frame_def thread_stat_def thread_stat_defs)
  from rt_schedule_inv [OF bury_inv [OF i2 this 3] 4] show ?thesis by blast
qed

lemma end_thread_inv:
  assumes inv: "sched_inv s"
    and 1: "(if thread_stat s t \<noteq> RT_THREAD_INIT then rt_schedule_remove_thread t s else Some s) = Some s1"
    and 2: "rt_timer_detach (ThreadTimer t) s1 = Some s2"
  defines "s3 \<equiv> thread_update t (\<lambda>th. th\<lparr>stat := RT_THREAD_CLOSE\<rparr>) s2"
  shows "sched_inv s3 \<and> thread_stat s3 t = RT_THREAD_CLOSE"
proof -
  have "sched_inv_but t s1 \<and> tlist (threads s1 t) = None \<and> prio_weak (threads s1 t)"
  proof (cases "thread_stat s t = RT_THREAD_INIT")
    case True
    with 1 have "s1 = s" by simp
    with True inv sched_inv_but [OF inv] sched_inv_prio_weak [OF inv]
      thread_wf_init_unlinked [OF sched_invD(2) [OF inv]]
    show ?thesis by (simp add: thread_stat_def)
  next
    case False
    with 1 remove_for_close [OF inv] show ?thesis by simp
  qed
  with rt_timer_detach_frame [OF 2] have "sched_inv s3"
    unfolding s3_def using sched_inv_but_thread_frame [OF rt_timer_detach_frame [OF 2]]
    by (intro close_thread) (simp_all add: thread_frame_def)
  moreover have "thread_stat s3 t = RT_THREAD_CLOSE"
    by (simp add: s3_def thread_stat_def thread_stat_defs)
  ultimately show ?thesis ..
qed

lemma rt_thread_detach_inv:
  assumes "sched_inv s" "rt_thread_detach t s = Some (e, s')"
  shows "sched_inv s'"
proof -
  let ?s3 = "\<lambda>s. thread_update t (\<lambda>th. th\<lparr>stat := RT_THREAD_CLOSE\<rparr>) s"
  from assms(2) obtain s1 s2 where
    1: "(if thread_stat s t \<noteq> RT_THREAD_INIT then rt_schedule_remove_thread t s else Some s) = Some s1"
    and 2: "rt_timer_detach (ThreadTimer t) s1 = Some s2"
    and 3: "(if rt_object_is_systemobject (OThread t) (?s3 s2) \<and> cleanup (threads (?s3 s2) t) = None
          then Some (rt_object_detach (OThread t) (?s3 s2))
          else rt_list_insert_after DefunctList t (?s3 s2)) = Some s'"
    unfolding rt_thread_detach_def Let_def by (auto simp: bind_Some_iff simp del: threads_update_same)
  from end_thread_inv [OF assms(1) 1 2] have "sched_inv (?s3 s2)" "thread_stat (?s3 s2) t = RT_THREAD_CLOSE"
    by simp_all
  then show ?thesis using 3 by (rule bury_inv)
qed

lemma rt_thread_delete_inv:
  assumes "sched_inv s" "rt_thread_delete t s = Some (e, s')"
  shows "sched_inv s'"
proof -
  let ?close = "thread_update t (\<lambda>th. th\<lparr>stat := RT_THREAD_CLOSE\<rparr>)"
  from assms(2) obtain s1 s2 where
    1: "(if thread_stat s t \<noteq> RT_THREAD_INIT then rt_schedule_remove_thread t s else Some s) = Some s1"
    and 2: "rt_timer_detach (ThreadTimer t) s1 = Some s2"
    and 3: "rt_list_insert_after DefunctList t (?close s2) = Some s'"
    unfolding rt_thread_delete_def Let_def by (auto simp: bind_Some_iff)
  from end_thread_inv [OF assms(1) 1 2] bury_inv [of "?close s2" t False s'] 3 show ?thesis by simp
qed

lemma rt_thread_startup_inv:
  assumes inv: "sched_inv s" and call: "rt_thread_startup irq t s = Some (e, s')"
  shows "sched_inv s' \<and> ipc_frame s s'"
proof -
  let ?s1 = "thread_update t (\<lambda>th. th\<lparr>stat := RT_THREAD_SUSPEND\<rparr>)
    (thread_update t (\<lambda>th. th\<lparr>number_mask := push_bit (unat (current_priority th)) 1\<rparr>)
      (thread_update t (\<lambda>th. th\<lparr>current_priority := init_priority th\<rparr>) s))"
  from call obtain e2 s2 where init: "thread_stat s t = RT_THREAD_INIT"
    and 1: "rt_thread_resume t ?s1 = Some (e2, s2)" and 2: "s' = s2 \<or> rt_schedule s2 = Some s'"
    unfolding rt_thread_startup_def Let_def by (auto simp: bind_Some_iff split: if_splits)
  note weak = sched_inv_prio_weak [OF inv, of t]
  have un: "tlist (threads s t) = None"
    using init thread_wf_init_unlinked [OF sched_invD(2) [OF inv]] by (simp add: thread_stat_def)
  have "sched_inv ?s1"
  proof (rule sched_inv_butD [of t])
    show "sched_inv_but t ?s1"
      using sched_inv_but [OF inv, of t] un
      by (simp add: sched_inv_but_def list_ok_def group_ok_def threads_update)
    show "thread_wf (threads ?s1 t)"
      using un weak by (simp add: thread_wf_def prio_weak_def prio_ok_def thread_stat_defs)
  qed
  from rt_thread_resume_inv [OF this 1] have s2: "sched_inv s2" "ipc_frame s s2"
    by (auto intro: ipc_frame_trans [rotated] simp: ipc_frame_def)
  from 2 s2 rt_schedule_inv [OF s2(1)] show ?thesis by (auto intro: ipc_frame_trans)
qed

lemma rt_thread_control_inv:
  assumes inv: "sched_inv s" and call: "rt_thread_control irq t cmd s = Some (e, s')"
  shows "sched_inv s'"
proof (cases cmd)
  case (CHANGE_PRIORITY p)
  let ?change = "thread_update t (\<lambda>th. th\<lparr>current_priority := p, number_mask := push_bit (unat p) 1\<rparr>)"
  note weak = sched_inv_prio_weak [OF inv, of t]
  from call CHANGE_PRIORITY have p: "unat p < RT_THREAD_PRIORITY_MAX"
    by (auto simp: rt_thread_control_def bind_Some_iff Let_def split: if_splits)
  show ?thesis
  proof (cases "thread_stat s t = RT_THREAD_READY")
    case True
    with call CHANGE_PRIORITY obtain s1 where 1: "rt_schedule_remove_thread t s = Some s1"
      and 2: "rt_schedule_insert_thread t (?change s1) = Some s'"
      by (auto simp: rt_thread_control_def bind_Some_iff Let_def)
    from remove_for_close [OF inv 1] have b: "sched_inv_but t s1" "tlist (threads s1 t) = None"
      "prio_weak (threads s1 t)" by simp_all
    show ?thesis
      by (rule rt_schedule_insert_thread_inv [OF _ _ _ _ 2])
        (use b p in \<open>simp_all add: sched_inv_but_def list_ok_def group_ok_def threads_update
            prio_ok_def prio_weak_def\<close>)
  next
    case False
    with call CHANGE_PRIORITY have s': "s' = ?change s"
      by (auto simp: rt_thread_control_def bind_Some_iff Let_def)
    have "tlist (threads s t) \<noteq> Some (ReadyList q)" for q
      using thread_wf_linked(1) [OF sched_invD(2) [OF inv], of t q] False by (auto simp: thread_stat_def)
    then have "sched_inv_but t s'"
      using sched_inv_but [OF inv, of t]
      by (simp add: s' sched_inv_but_def list_ok_def group_ok_def threads_update)
    moreover have "thread_wf (threads s' t)"
      using sched_invD(2) [OF inv, of t] False p weak
      by (auto simp: s' thread_wf_def prio_weak_def prio_ok_def thread_stat_def
          split: option.splits list_head.splits)
    ultimately show ?thesis by (rule sched_inv_butD)
  qed
next
  case CTRL_STARTUP
  with call inv rt_thread_startup_inv show ?thesis
    by (auto simp: rt_thread_control_def bind_Some_iff)
next
  case CTRL_CLOSE
  with call inv rt_thread_delete_inv show ?thesis
    by (auto simp: rt_thread_control_def bind_Some_iff)
next
  case CTRL_OTHER
  with call inv show ?thesis by (auto simp: rt_thread_control_def bind_Some_iff)
qed

end
