(* ===== verification/RTT_Tick.thy ===== *)
theory RTT_Tick
  imports RTT_Thread
begin

text \<open>
  The system tick (\<^verbatim>\<open>clock.c\<close>), the expiry of hard and soft timers (\<^verbatim>\<open>timer.c\<close>) and the idle thread
  (\<^verbatim>\<open>idle.c\<close>). Timeout and cleanup functions of the application are the argument \<open>user\<close>, which
  maps a function's number to its effect. The expiry loops run user code that can rearm timers,
  so they are partial functions: \<open>None\<close> includes not returning.
\<close>

type_synonym user_code = "nat \<Rightarrow> kstate \<Rightarrow> kstate option"

definition call_timeout :: "user_code \<Rightarrow> timeout_func \<Rightarrow> kstate \<Rightarrow> kstate option" where
  "call_timeout user f s =
     (case f of ThreadTimeout t \<Rightarrow> rt_thread_timeout t s | UserTimeout n \<Rightarrow> user n s)"

definition timer_rearm :: "timer_id \<Rightarrow> kstate \<Rightarrow> kstate option" where
  "timer_rearm t s =
     (let deactivate = timer_flag_update t (\<lambda>f. f AND NOT RT_TIMER_FLAG_ACTIVATED) in
      if timer_flag s t AND RT_TIMER_FLAG_PERIODIC \<noteq> 0 \<and> timer_flag s t AND RT_TIMER_FLAG_ACTIVATED \<noteq> 0
      then map_option snd (rt_timer_start t (deactivate s))
      else Some (deactivate s))"

partial_function (option) timer_check_loop :: "user_code \<Rightarrow> rt_tick_t \<Rightarrow> kstate \<Rightarrow> kstate option" where
  "timer_check_loop user current_tick s =
     (case rt_timer_list s of
        [] \<Rightarrow> Some s
      | t # _ \<Rightarrow>
          if ulong_cmp_ge current_tick (timeout_tick (timers s t))
          then do {
            s \<leftarrow> call_timeout user (timeout_func (timers s t)) (rt_timer_remove t s);
            s' \<leftarrow> timer_rearm t s;
            timer_check_loop user (rt_tick_get s) s' }
          else Some s)"

definition rt_timer_check :: "user_code \<Rightarrow> kstate \<Rightarrow> kstate option" where
  "rt_timer_check user s = timer_check_loop user (rt_tick_get s) s"

text \<open>
  The soft timer loop saves the node \<open>n\<close> to visit next before it runs the timeout function, with
  the scheduler unlocked. \<open>None\<close> is the list head. A node that the function took out of the list
  points to itself.
\<close>

fun succ_in :: "'a \<Rightarrow> 'a list \<Rightarrow> 'a option" where
  "succ_in u [] = None"
| "succ_in u [v] = None"
| "succ_in u (v # w # vs) = (if u = v then Some w else succ_in u (w # vs))"

definition soft_next :: "timer_id \<Rightarrow> kstate \<Rightarrow> timer_id option option" where
  "soft_next u s =
     (if u \<in> set (rt_soft_timer_list s) then Some (succ_in u (rt_soft_timer_list s))
      else if u \<in> set (rt_timer_list s) then None
      else Some (Some u))"

partial_function (option) soft_timer_loop ::
  "user_code \<Rightarrow> rt_tick_t \<Rightarrow> timer_id option \<Rightarrow> kstate \<Rightarrow> kstate option" where
  "soft_timer_loop user current_tick n s =
     (case n of
        None \<Rightarrow> Some s
      | Some t \<Rightarrow>
          if ulong_cmp_ge current_tick (timeout_tick (timers s t))
          then do {
            n \<leftarrow> soft_next t s;
            s \<leftarrow> rt_exit_critical (rt_timer_remove t s);
            s \<leftarrow> call_timeout user (timeout_func (timers s t)) s;
            let current_tick = rt_tick_get s;
            s \<leftarrow> timer_rearm t (rt_enter_critical s);
            soft_timer_loop user current_tick n s }
          else Some s)"

definition rt_soft_timer_check :: "user_code \<Rightarrow> kstate \<Rightarrow> kstate option" where
  "rt_soft_timer_check user s = do {
     let current_tick = rt_tick_get s;
     let s = rt_enter_critical s;
     s \<leftarrow> soft_timer_loop user current_tick
           (case rt_soft_timer_list s of [] \<Rightarrow> None | t # _ \<Rightarrow> Some t) s;
     rt_exit_critical s }"

text \<open>
  The body of the timer thread's loop before \<^verbatim>\<open>rt_soft_timer_check\<close>: it suspends itself when no
  soft timer is armed, sleeps until the first one is due, or goes on at once.
\<close>

definition rt_thread_timer_entry :: "kstate \<Rightarrow> kstate option" where
  "rt_thread_timer_entry s = do {
     let next_timeout = rt_timer_list_next_timeout (rt_soft_timer_list s) s;
     if next_timeout = RT_TICK_MAX
     then do {
       t \<leftarrow> rt_thread_self s;
       (_, s) \<leftarrow> rt_thread_suspend t s;
       rt_schedule s }
     else
       let current_tick = rt_tick_get s in
       if next_timeout - current_tick < RT_TICK_MAX div 2
       then rt_thread_delay (next_timeout - current_tick) s
       else Some s }"

definition rt_tick_increase :: "user_code \<Rightarrow> kstate \<Rightarrow> kstate option" where
  "rt_tick_increase user s = do {
     let s = s\<lparr>rt_tick := rt_tick s + 1\<rparr>;
     t \<leftarrow> rt_thread_self s;
     let s = thread_update t (\<lambda>th. th\<lparr>remaining_tick := remaining_tick th - 1, cputime := cputime th + 1\<rparr>) s;
     s \<leftarrow> (if remaining_tick (threads s t) = 0
          then map_option snd
                 (rt_thread_yield (thread_update t (\<lambda>th. th\<lparr>remaining_tick := init_tick th\<rparr>) s))
          else Some s);
     rt_timer_check user s }"

definition rt_system_timer_init :: "kstate \<Rightarrow> kstate" where
  "rt_system_timer_init s = s\<lparr>rt_timer_list := []\<rparr>"

definition RT_TIMER_THREAD_PRIO :: u8 where "RT_TIMER_THREAD_PRIO = 8"

definition rt_system_timer_thread_init ::
  "(nat \<Rightarrow> nat \<Rightarrow> u32 \<Rightarrow> u32) \<Rightarrow> bool \<Rightarrow> nat \<Rightarrow> u32 \<Rightarrow> kstate \<Rightarrow> kstate option" where
  "rt_system_timer_thread_init stack_init irqs_disabled ent stack s = do {
     let s = s\<lparr>rt_soft_timer_list := []\<rparr>;
     (_, s) \<leftarrow> rt_thread_init stack_init (timer_thread s) ''timer'' ent 0 stack 0x4000
                RT_TIMER_THREAD_PRIO 10 s;
     (_, s) \<leftarrow> rt_thread_startup irqs_disabled (timer_thread s) s;
     Some s }"

section \<open>The idle thread\<close>

definition RT_IDLE_HOOK_LIST_SIZE :: nat where "RT_IDLE_HOOK_LIST_SIZE = 4"

fun hook_replace :: "nat option \<Rightarrow> nat option \<Rightarrow> nat option list \<Rightarrow> nat option list option" where
  "hook_replace old new [] = None"
| "hook_replace old new (h # hs) =
     (if h = old then Some (new # hs) else map_option ((#) h) (hook_replace old new hs))"

definition rt_thread_idle_sethook :: "nat option \<Rightarrow> nat option list \<Rightarrow> rt_err_t \<times> nat option list" where
  "rt_thread_idle_sethook hook hooks =
     (case hook_replace None hook hooks of
        None \<Rightarrow> (- RT_EFULL, hooks)
      | Some hs \<Rightarrow> (RT_EOK, hs))"

definition rt_thread_idle_delhook :: "nat option \<Rightarrow> nat option list \<Rightarrow> rt_err_t \<times> nat option list" where
  "rt_thread_idle_delhook hook hooks =
     (case hook_replace hook None hooks of
        None \<Rightarrow> (- RT_ENOSYS, hooks)
      | Some hs \<Rightarrow> (RT_EOK, hs))"

partial_function (option) rt_thread_idle_excute :: "user_code \<Rightarrow> kstate \<Rightarrow> kstate option" where
  "rt_thread_idle_excute user s =
     (case thread_lists s DefunctList of
        [] \<Rightarrow> Some s
      | t # _ \<Rightarrow> do {
          RT_DEBUG_NOT_IN_INTERRUPT s;
          let s = rt_enter_critical (rt_list_remove t s);
          s \<leftarrow> (case cleanup (threads s t) of None \<Rightarrow> Some s | Some f \<Rightarrow> user f s);
          if rt_object_is_systemobject (OThread t) s
          then rt_exit_critical (rt_object_detach (OThread t) s)
          else do {
            s \<leftarrow> rt_exit_critical s;
            s \<leftarrow> rt_object_delete (OThread t) s;
            rt_thread_idle_excute user s } })"

definition rt_thread_idle_init ::
  "(nat \<Rightarrow> nat \<Rightarrow> u32 \<Rightarrow> u32) \<Rightarrow> bool \<Rightarrow> tid \<Rightarrow> nat \<Rightarrow> u32 \<Rightarrow> kstate \<Rightarrow> kstate option" where
  "rt_thread_idle_init stack_init irqs_disabled idle ent stack s = do {
     (_, s) \<leftarrow> rt_thread_init stack_init idle ''tidle'' ent 0 stack 0x800
                (of_nat (RT_THREAD_PRIORITY_MAX - 1)) 32 s;
     (_, s) \<leftarrow> rt_thread_startup irqs_disabled idle s;
     Some s }"

end
