(* ===== verification/RTT_Ipc.thy ===== *)
theory RTT_Ipc
  imports RTT_ThreadInv
begin

text \<open>
  What the five kinds of IPC object of \<^verbatim>\<open>ipc.c\<close> share: the queue of suspended threads, in arrival
  or in priority order, and the helpers that suspend a thread on it or resume threads from it.
  The queue of the object \<open>x\<close> is the list \<open>IpcSuspend x\<close>.
\<close>

definition RT_IPC_FLAG_FIFO :: u8 where "RT_IPC_FLAG_FIFO = 0"
definition RT_WAITING_FOREVER :: u32 where "RT_WAITING_FOREVER = - 1"
definition RT_IPC_FLAG_PRIO :: u8 where "RT_IPC_FLAG_PRIO = 1"

text \<open>
  A call that may block either returns or blocks in \<^verbatim>\<open>rt_schedule\<close>, remembering the local
  variables \<open>w\<close> with which it goes on when its thread runs again.
\<close>

datatype ('a, 'w) outcome = Returned 'a | Blocked 'w

datatype ipc_cmd = IPC_RESET u32 | IPC_GET_STATE | IPC_OTHER

definition ipc_flag :: "obj \<Rightarrow> kstate \<Rightarrow> u8" where
  "ipc_flag x s = obj_flag (objects s x)"

definition set_ipc_flag :: "obj \<Rightarrow> u8 \<Rightarrow> kstate \<Rightarrow> kstate" where
  "set_ipc_flag x flag = object_update x (\<lambda>ob. ob\<lparr>obj_flag := flag\<rparr>)"

definition rt_ipc_object_init :: "obj \<Rightarrow> kstate \<Rightarrow> kstate" where
  "rt_ipc_object_init x s = s\<lparr>thread_lists := (thread_lists s)(IpcSuspend x := [])\<rparr>"

text \<open>The scan for the first waiter of strictly lower priority, the append when there is none.\<close>

fun prio_insert :: "(tid \<Rightarrow> u8) \<Rightarrow> tid \<Rightarrow> tid list \<Rightarrow> tid list" where
  "prio_insert prio t [] = [t]"
| "prio_insert prio t (u # us) =
     (if prio t < prio u then t # u # us else u # prio_insert prio t us)"

definition rt_list_insert_prio :: "list_head \<Rightarrow> tid \<Rightarrow> kstate \<Rightarrow> kstate option" where
  "rt_list_insert_prio h t s =
     (if tlist (threads s t) \<noteq> None then None
      else Some (thread_update t (\<lambda>th. th\<lparr>tlist := Some h\<rparr>)
             (s\<lparr>thread_lists := (thread_lists s)
                (h := prio_insert (\<lambda>u. current_priority (threads s u)) t (thread_lists s h))\<rparr>)))"

definition rt_ipc_list_suspend :: "list_head \<Rightarrow> tid \<Rightarrow> u8 \<Rightarrow> kstate \<Rightarrow> kstate option" where
  "rt_ipc_list_suspend h t flag s = do {
     (_, s) \<leftarrow> rt_thread_suspend t s;
     if flag = RT_IPC_FLAG_FIFO then rt_list_insert_before h t s
     else if flag = RT_IPC_FLAG_PRIO then rt_list_insert_prio h t s
     else Some s }"

definition rt_ipc_list_resume :: "list_head \<Rightarrow> kstate \<Rightarrow> kstate option" where
  "rt_ipc_list_resume h s =
     (case thread_lists s h of
        [] \<Rightarrow> None
      | t # _ \<Rightarrow> map_option snd (rt_thread_resume t s))"

partial_function (option) rt_ipc_list_resume_all :: "list_head \<Rightarrow> kstate \<Rightarrow> kstate option" where
  "rt_ipc_list_resume_all h s =
     (case thread_lists s h of
        [] \<Rightarrow> Some s
      | t # _ \<Rightarrow> do {
          (_, s) \<leftarrow> rt_thread_resume t (thread_update t (\<lambda>th. th\<lparr>error := - RT_ERROR\<rparr>) s);
          rt_ipc_list_resume_all h s })"

definition rt_ipc_get_highest_priority :: "list_head \<Rightarrow> kstate \<Rightarrow> u8" where
  "rt_ipc_get_highest_priority h s =
     foldl (\<lambda>priority t. if priority < current_priority (threads s t) then priority
                         else current_priority (threads s t))
       (of_nat (RT_THREAD_PRIORITY_MAX - 1)) (thread_lists s h)"

text \<open>
  The steps of every blocking call once it has decided to wait: onto the queue, the thread's
  timer if the \<^verbatim>\<open>rt_int32_t\<close> timeout is positive, and the schedule.
\<close>

definition ipc_wait :: "list_head \<Rightarrow> tid \<Rightarrow> u8 \<Rightarrow> u32 \<Rightarrow> kstate \<Rightarrow> kstate option" where
  "ipc_wait h t flag time s = do {
     s \<leftarrow> rt_ipc_list_suspend h t flag s;
     if 0 < sint time then arm_thread_timer t time s else Some s }"

definition ipc_block :: "list_head \<Rightarrow> tid \<Rightarrow> u8 \<Rightarrow> u32 \<Rightarrow> kstate \<Rightarrow> kstate option" where
  "ipc_block h t flag time s = do { s \<leftarrow> ipc_wait h t flag time s; rt_schedule s }"

section \<open>The order of the queue\<close>

lemma prio_insert_split:
  "prio_insert prio t us =
     takeWhile (\<lambda>u. prio u \<le> prio t) us @ t # dropWhile (\<lambda>u. prio u \<le> prio t) us"
  by (induction us) (auto simp: not_less dest: leD)

lemma prio_insert_perm:
  "set (prio_insert prio t us) = insert t (set us)"
  "distinct (prio_insert prio t us) \<longleftrightarrow> t \<notin> set us \<and> distinct us"
  by (induction us) auto

lemma prio_insert_sorted:
  "sorted (map prio us) \<Longrightarrow> sorted (map prio (prio_insert prio t us))"
  by (induction us) (force simp: prio_insert_perm)+

definition queue_insert :: "u8 \<Rightarrow> (tid \<Rightarrow> u8) \<Rightarrow> tid \<Rightarrow> tid list \<Rightarrow> tid list" where
  "queue_insert flag prio t us = (if flag = RT_IPC_FLAG_FIFO then us @ [t] else prio_insert prio t us)"

definition ipc_order :: "u8 \<Rightarrow> bool" where
  "ipc_order flag \<longleftrightarrow> flag = RT_IPC_FLAG_FIFO \<or> flag = RT_IPC_FLAG_PRIO"

text \<open>The lists on which suspended threads wait.\<close>

fun wait_head :: "list_head \<Rightarrow> bool" where
  "wait_head (ReadyList p) \<longleftrightarrow> False"
| "wait_head DefunctList \<longleftrightarrow> False"
| "wait_head _ \<longleftrightarrow> True"

lemma wait_head_wf:
  assumes "wait_head h" "prio_weak th" "prio_ok th" "stat th AND RT_THREAD_STAT_MASK = RT_THREAD_SUSPEND"
  shows "thread_wf (th\<lparr>tlist := Some h\<rparr>)"
  using assms by (cases h) (simp_all add: thread_wf_def prio_weak_def prio_ok_def)

lemma wait_head_suspended:
  assumes "sched_inv s" "wait_head h" "t \<in> set (thread_lists s h)"
  shows "thread_stat s t = RT_THREAD_SUSPEND"
  using assms(2,3) sched_invD(2) [OF assms(1), of t] list_ok_mem [OF sched_invD(1) [OF assms(1)], of t h]
  by (cases h) (simp_all add: thread_wf_def thread_stat_def)

lemma list_put_inv:
  assumes inv: "sched_inv s" and un: "tlist (threads s t) = None" and h: "wait_head h"
    and wf: "thread_wf ((threads s t)\<lparr>tlist := Some h\<rparr>)"
    and us: "set us = insert t (set (thread_lists s h))" "distinct us"
  shows "sched_inv (thread_update t (\<lambda>th. th\<lparr>tlist := Some h\<rparr>)
           (s\<lparr>thread_lists := (thread_lists s)(h := us)\<rparr>))"
proof -
  let ?s' = "thread_update t (\<lambda>th. th\<lparr>tlist := Some h\<rparr>) (s\<lparr>thread_lists := (thread_lists s)(h := us)\<rparr>)"
  note lo = sched_invD(1) [OF inv]
  have h': "ReadyList p \<noteq> h" for p using h by auto
  have "list_ok ?s'"
    using un us list_ok_mem [OF lo] list_ok_distinct [OF lo] by (auto simp: list_ok_def threads_update)
  moreover have "group_ok ?s'" using inv h' by (simp add: group_ok_def sched_inv_def)
  ultimately show ?thesis using inv wf by (simp add: sched_inv_def threads_update)
qed

lemma queue_insert_perm:
  assumes "t \<notin> set us" "distinct us"
  shows "set (queue_insert flag prio t us) = insert t (set us)" "distinct (queue_insert flag prio t us)"
  using assms by (simp_all add: queue_insert_def prio_insert_perm)

section \<open>Queue disciplines\<close>

text \<open>
  Every blocking operation of the kernel suspends the running thread, links its node into a queue,
  starts its timer and schedules; the operations differ in the place of the queue. A discipline
  is a list operation \<open>ins\<close> together with the place \<open>place\<close> at which it inserts.
\<close>

definition suspend_on :: "(list_head \<Rightarrow> tid \<Rightarrow> kstate \<Rightarrow> kstate option) \<Rightarrow> list_head \<Rightarrow> tid \<Rightarrow> kstate \<Rightarrow> kstate option" where
  "suspend_on ins h t s = do { (_, s) \<leftarrow> rt_thread_suspend t s; ins h t s }"

definition wait_on ::
  "(list_head \<Rightarrow> tid \<Rightarrow> kstate \<Rightarrow> kstate option) \<Rightarrow> list_head \<Rightarrow> tid \<Rightarrow> u32 \<Rightarrow> kstate \<Rightarrow> kstate option" where
  "wait_on ins h t time s = do {
     s \<leftarrow> suspend_on ins h t s;
     if 0 < sint time then arm_thread_timer t time s else Some s }"

definition block_on ::
  "(list_head \<Rightarrow> tid \<Rightarrow> kstate \<Rightarrow> kstate option) \<Rightarrow> list_head \<Rightarrow> tid \<Rightarrow> u32 \<Rightarrow> kstate \<Rightarrow> kstate option" where
  "block_on ins h t time s = do { s \<leftarrow> wait_on ins h t time s; rt_schedule s }"

locale queue_discipline =
  fixes ins :: "list_head \<Rightarrow> tid \<Rightarrow> kstate \<Rightarrow> kstate option"
    and place :: "(tid \<Rightarrow> u8) \<Rightarrow> tid \<Rightarrow> tid list \<Rightarrow> tid list"
  assumes ins_free: "tlist (threads s t) = None \<Longrightarrow> ins h t s =
      Some (thread_update t (\<lambda>th. th\<lparr>tlist := Some h\<rparr>) (s\<lparr>thread_lists := (thread_lists s)
        (h := place (\<lambda>u. current_priority (threads s u)) t (thread_lists s h))\<rparr>))"
    and place_perm: "t \<notin> set us \<Longrightarrow> distinct us \<Longrightarrow>
      set (place prio t us) = insert t (set us) \<and> distinct (place prio t us)"
begin

lemma suspend_effect:
  assumes inv: "sched_inv s" and ty: "thread_typed s t" and ready: "thread_stat s t = RT_THREAD_READY"
    and h: "wait_head h"
  obtains s' where "suspend_on ins h t s = Some s'" "sched_inv s'" "ipc_frame s s'"
    "threads s' = (threads s)(t := (threads s t)\<lparr>stat := suspend_stat (stat (threads s t)), tlist := Some h\<rparr>)"
    "\<And>h'. thread_lists s' h' = (if h' = h
        then place (\<lambda>u. current_priority (threads s u)) t (thread_lists s h)
        else remove1 t (thread_lists s h'))"
    "rt_current_thread s' = rt_current_thread s" "timers s' = timers s"
    "thread_typed s' t"
proof -
  let ?prio = "\<lambda>u. current_priority (threads s u)"
  have tt: "is_thread t s = Some ()" "is_timer (ThreadTimer t) s = Some ()"
    "timer_flag s (ThreadTimer t) AND RT_TIMER_FLAG_SOFT_TIMER = 0"
    using ty by (simp_all add: thread_typed_def)
  obtain s1 where 1: "rt_thread_suspend t s = Some (RT_EOK, s1)" and inv1: "sched_inv s1"
    and ipc1: "ipc_frame s s1"
    and th1: "threads s1 = (threads s)(t := (threads s t)\<lparr>stat := suspend_stat (stat (threads s t)), tlist := None\<rparr>)"
    and li1: "\<And>h. thread_lists s1 h = remove1 t (thread_lists s h)"
    and cur1: "rt_current_thread s1 = rt_current_thread s"
    by (rule rt_thread_suspend_effect [OF inv tt(1,2) ready]) blast
  have notin: "t \<notin> set (thread_lists s h)"
    using wait_head_suspended [OF inv h, of t] ready by auto
  have l1: "thread_lists s1 h = thread_lists s h" using notin by (simp add: li1 remove1_idem)
  define us where "us = place ?prio t (thread_lists s h)"
  let ?s' = "thread_update t (\<lambda>th. th\<lparr>tlist := Some h\<rparr>) (s1\<lparr>thread_lists := (thread_lists s1)(h := us)\<rparr>)"
  have us: "set us = insert t (set (thread_lists s1 h))" "distinct us"
    using place_perm [OF notin list_ok_distinct [OF sched_invD(1) [OF inv]]] by (simp_all add: us_def l1)
  have pr: "(\<lambda>u. current_priority (threads s1 u)) = ?prio" by (simp add: fun_eq_iff th1)
  have call: "suspend_on ins h t s = Some ?s'"
    by (simp add: suspend_on_def 1 ins_free th1 l1 us_def flip: pr)
  have wf: "thread_wf ((threads s1 t)\<lparr>tlist := Some h\<rparr>)"
    using sched_inv_prio_weak [OF inv, of t] sched_inv_prio_ok [OF inv, of t] ready
    by (intro wait_head_wf [OF h]) (simp_all add: th1 prio_weak_def prio_ok_def)
  have fl: "timer_flag s1 (ThreadTimer t) AND RT_TIMER_FLAG_SOFT_TIMER = 0"
    using rt_thread_suspend_soft(2) [OF 1] tt(3) by simp
  have ipc: "ipc_frame s ?s'" using ipc1 by (simp add: ipc_frame_def)
  show thesis
  proof (rule that [OF call])
    show "sched_inv ?s'" by (rule list_put_inv [OF inv1 _ h wf us]) (simp add: th1)
    show "ipc_frame s ?s'" by (rule ipc)
    show "threads ?s' = (threads s)(t := (threads s t)\<lparr>stat := suspend_stat (stat (threads s t)), tlist := Some h\<rparr>)"
      by (simp add: thread_update_def th1)
    show "thread_lists ?s' h' = (if h' = h then place ?prio t (thread_lists s h)
        else remove1 t (thread_lists s h'))" for h'
      by (simp add: us_def li1)
    show "rt_current_thread ?s' = rt_current_thread s" by (simp add: cur1)
    show "timers ?s' = timers s" using rt_thread_suspend_soft(1) [OF 1] by simp
    show "thread_typed ?s' t"
      using tt fl ipc_frameD(11,12) [OF ipc] by (simp add: thread_typed_def timer_flag_def)
  qed
qed

lemma wait_effect:
  assumes inv: "sched_inv s" and ty: "thread_typed s t" and ready: "thread_stat s t = RT_THREAD_READY"
    and h: "wait_head h" and time: "0 < sint time \<Longrightarrow> time < RT_TICK_MAX div 2"
  obtains s' where "wait_on ins h t time s = Some s'" "sched_inv s'" "ipc_frame s s'"
    "threads s' = (threads s)(t := (threads s t)\<lparr>stat := suspend_stat (stat (threads s t)), tlist := Some h\<rparr>)"
    "\<And>h'. thread_lists s' h' = (if h' = h
        then place (\<lambda>u. current_priority (threads s u)) t (thread_lists s h)
        else remove1 t (thread_lists s h'))"
    "rt_current_thread s' = rt_current_thread s"
    "0 < sint time \<longrightarrow> ThreadTimer t \<in> set (rt_timer_list s') \<and>
       timeout_tick (timers s' (ThreadTimer t)) = rt_tick s + time"
proof -
  obtain s1 where 1: "suspend_on ins h t s = Some s1" "sched_inv s1" "ipc_frame s s1"
    and th1: "threads s1 = (threads s)(t := (threads s t)\<lparr>stat := suspend_stat (stat (threads s t)), tlist := Some h\<rparr>)"
    and li1: "\<And>h'. thread_lists s1 h' = (if h' = h
        then place (\<lambda>u. current_priority (threads s u)) t (thread_lists s h)
        else remove1 t (thread_lists s h'))"
    and cur1: "rt_current_thread s1 = rt_current_thread s" and ty1: "thread_typed s1 t"
    by (rule suspend_effect [OF inv ty ready h]) blast
  show thesis
  proof (cases "0 < sint time")
    case False
    with 1 th1 li1 cur1 that show thesis by (simp add: wait_on_def)
  next
    case True
    obtain s2 where 2: "arm_thread_timer t time s1 = Some s2" "thread_frame s1 s2" "ipc_frame s1 s2"
      "ThreadTimer t \<in> set (rt_timer_list s2)" "timeout_tick (timers s2 (ThreadTimer t)) = rt_tick s1 + time"
      using ty1 time [OF True] by (rule_tac arm_thread_timer_effect) (auto simp: thread_typed_def)
    show thesis
    proof (rule that)
      show "wait_on ins h t time s = Some s2" using 1 2 True by (simp add: wait_on_def)
      show "sched_inv s2" using 1 2 thread_frame_inv by blast
      show "ipc_frame s s2" using 1 2 ipc_frame_trans by blast
    qed (use 2 th1 li1 cur1 ipc_frameD(7) [OF 1(3)] in \<open>simp_all add: thread_frame_def\<close>)
  qed
qed

text \<open>
  The blocking call of the running thread, while another thread is ready: it ends suspended on
  the queue, at its place, its timer armed, and another thread runs.
\<close>

lemma block_effect:
  assumes ok: "sys_ok s" and lev: "preempt_level s = 0" "rt_interrupt_get_nest s = 0"
    and cur: "rt_current_thread s = Some t" and ready: "thread_stat s t = RT_THREAD_READY"
    and ty: "thread_typed s t" and other: "u \<noteq> t" "thread_stat s u = RT_THREAD_READY"
    and h: "wait_head h" and time: "0 < sint time \<Longrightarrow> time < RT_TICK_MAX div 2"
  obtains s' v where "block_on ins h t time s = Some s'" "sys_ok s'" "ipc_frame s s'"
    "thread_stat s' t = RT_THREAD_SUSPEND" "error (threads s' t) = error (threads s t)"
    "thread_lists s' h = place (\<lambda>u. current_priority (threads s u)) t (thread_lists s h)"
    "\<And>h'. h' \<noteq> h \<Longrightarrow> thread_lists s' h' = remove1 t (thread_lists s h')"
    "rt_current_thread s' = Some v" "v \<noteq> t" "thread_stat s' v = RT_THREAD_READY"
    "\<And>u. current_priority (threads s' u) = current_priority (threads s u)"
    "0 < sint time \<longrightarrow> ThreadTimer t \<in> set (rt_timer_list s') \<and>
       timeout_tick (timers s' (ThreadTimer t)) = rt_tick s + time"
proof -
  have inv: "sched_inv s" using ok by (simp add: sys_ok_def)
  obtain s2 where 2: "wait_on ins h t time s = Some s2" "sched_inv s2" and ipc2: "ipc_frame s s2"
    and th2: "threads s2 = (threads s)(t := (threads s t)\<lparr>stat := suspend_stat (stat (threads s t)), tlist := Some h\<rparr>)"
    and li2: "\<And>h'. thread_lists s2 h' = (if h' = h
        then place (\<lambda>u. current_priority (threads s u)) t (thread_lists s h)
        else remove1 t (thread_lists s h'))"
    and cur2: "rt_current_thread s2 = rt_current_thread s"
    and tm2: "0 < sint time \<longrightarrow> ThreadTimer t \<in> set (rt_timer_list s2) \<and>
       timeout_tick (timers s2 (ThreadTimer t)) = rt_tick s + time"
    by (rule wait_effect [OF inv ty ready h time]; assumption?) (rule that; assumption)
  have "thread_stat s2 u = RT_THREAD_READY" using other by (simp add: th2 thread_stat_def)
  moreover have "stacks_ok s2"
    using ok by (simp add: sys_ok_def stacks_ok_def th2 rt_scheduler_stack_check_def)
  ultimately have ok2: "sys_ok s2" using 2 cur by (auto simp: sys_ok_def cur2)
  have lev2: "preempt_level s2 = 0" "rt_interrupt_get_nest s2 = 0"
    using lev preempt_cong [OF cur2] by (simp_all add: th2)
  obtain s' v where r: "rt_schedule s2 = Some s'" and ok': "sys_ok s'"
    and v: "rt_current_thread s' = Some v" "thread_stat s' v = RT_THREAD_READY"
    using rt_schedule_picks [OF ok2 lev2] by blast
  note fr = rt_schedule_frame [OF r]
  have st: "thread_stat s' t = RT_THREAD_SUSPEND"
    by (simp add: resched_frame_thread [OF fr] th2 thread_stat_def)
  show thesis
  proof (rule that [of s' v])
    show "block_on ins h t time s = Some s'" using 2 r by (simp add: block_on_def)
    show "ipc_frame s s'" using ipc2 resched_ipc_frame [OF fr] ipc_frame_trans by blast
    show "error (threads s' t) = error (threads s t)" by (simp add: resched_frame_thread [OF fr] th2)
    show "v \<noteq> t" using st v(2) by auto
    show "current_priority (threads s' u) = current_priority (threads s u)" for u
      by (simp add: resched_frame_thread [OF fr] th2)
  qed (use ok' v st li2 tm2 in \<open>simp_all add: resched_frameD [OF fr]\<close>)
qed

end

text \<open>The three disciplines of the kernel.\<close>

interpretation fifo: queue_discipline rt_list_insert_before "\<lambda>prio t us. us @ [t]"
  by unfold_locales (simp_all add: rt_list_insert_before_def)

interpretation lifo: queue_discipline rt_list_insert_after "\<lambda>prio t us. t # us"
  by unfold_locales (simp_all add: rt_list_insert_after_def)

interpretation prio: queue_discipline rt_list_insert_prio prio_insert
  by unfold_locales (simp_all add: rt_list_insert_prio_def prio_insert_perm)

definition ipc_ins :: "u8 \<Rightarrow> list_head \<Rightarrow> tid \<Rightarrow> kstate \<Rightarrow> kstate option" where
  "ipc_ins flag = (if flag = RT_IPC_FLAG_FIFO then rt_list_insert_before else rt_list_insert_prio)"

lemma ipc_suspend_on:
  "ipc_order flag \<Longrightarrow> rt_ipc_list_suspend h t flag s = suspend_on (ipc_ins flag) h t s"
  "ipc_order flag \<Longrightarrow> ipc_wait h t flag time s = wait_on (ipc_ins flag) h t time s"
  "ipc_order flag \<Longrightarrow> ipc_block h t flag time s = block_on (ipc_ins flag) h t time s"
proof -
  show *: "rt_ipc_list_suspend h t flag s = suspend_on (ipc_ins flag) h t s" if "ipc_order flag"
    using that by (auto simp: rt_ipc_list_suspend_def suspend_on_def ipc_ins_def ipc_order_def
        RT_IPC_FLAG_FIFO_def RT_IPC_FLAG_PRIO_def cong: if_cong)
  show w: "ipc_wait h t flag time s = wait_on (ipc_ins flag) h t time s" if "ipc_order flag"
    using * [OF that] by (simp add: ipc_wait_def wait_on_def)
  show "ipc_block h t flag time s = block_on (ipc_ins flag) h t time s" if "ipc_order flag"
    using w [OF that] by (simp add: ipc_block_def block_on_def)
qed

lemma ipc_discipline: "queue_discipline (ipc_ins flag) (queue_insert flag)"
proof (cases "flag = RT_IPC_FLAG_FIFO")
  case True
  have "queue_insert flag = (\<lambda>prio t us. us @ [t])" by (simp add: fun_eq_iff queue_insert_def True)
  with True show ?thesis by (simp add: ipc_ins_def fifo.queue_discipline_axioms)
next
  case False
  have "queue_insert flag = prio_insert" by (simp add: fun_eq_iff queue_insert_def False)
  with False show ?thesis by (simp add: ipc_ins_def prio.queue_discipline_axioms)
qed

text \<open>
  The state in which a call may block: the running thread is ready, no lock is held and another
  thread is ready to run. A call first resets some of its own fields that the scheduler does not
  look at.
\<close>

definition may_block :: "kstate \<Rightarrow> tid \<Rightarrow> bool" where
  "may_block s t \<longleftrightarrow> sys_ok s \<and> preempt_level s = 0 \<and> rt_interrupt_get_nest s = 0 \<and>
     rt_current_thread s = Some t \<and> thread_stat s t = RT_THREAD_READY \<and> thread_typed s t \<and>
     (\<exists>u. u \<noteq> t \<and> thread_stat s u = RT_THREAD_READY)"

definition private_update :: "(rt_thread \<Rightarrow> rt_thread) \<Rightarrow> bool" where
  "private_update f \<longleftrightarrow>
     (\<forall>th. sched_key (f th) = sched_key th \<and> th_preempt_count (f th) = th_preempt_count th \<and>
        rt_scheduler_stack_check (f th) = rt_scheduler_stack_check th)"

lemma private_update_steps [simp]:
  "private_update (\<lambda>th. th\<lparr>error := e\<rparr>)" "private_update (\<lambda>th. th\<lparr>event_set := a, event_info := b\<rparr>)"
  "private_update (\<lambda>th. th\<lparr>event_set := a\<rparr>)" "private_update id"
  by (simp_all add: private_update_def sched_key_def rt_scheduler_stack_check_def)

lemma private_update_fields:
  assumes "private_update f"
  shows "current_priority (f th) = current_priority th" "stat (f th) = stat th" "tlist (f th) = tlist th"
    "init_priority (f th) = init_priority th" "number_mask (f th) = number_mask th"
  using assms by (simp_all add: private_update_def sched_key_def)

lemma private_update_inv:
  assumes "private_update f"
  shows "sched_inv (thread_update t f s) = sched_inv s" "thread_stat (thread_update t f s) u = thread_stat s u"
    "current_priority (threads (thread_update t f s) u) = current_priority (threads s u)"
    "preempt_level (thread_update t f s) = preempt_level s"
    "rt_interrupt_get_nest (thread_update t f s) = rt_interrupt_get_nest s"
    "sys_ok (thread_update t f s) = sys_ok s"
    "thread_typed (thread_update t f s) u = thread_typed s u"
proof -
  show inv: "sched_inv (thread_update t f s) = sched_inv s"
    using assms by (simp add: sched_inv_thread_update private_update_def)
  show st: "thread_stat (thread_update t f s) u = thread_stat s u" for u
    by (simp add: thread_stat_def threads_update private_update_fields [OF assms])
  show "current_priority (threads (thread_update t f s) u) = current_priority (threads s u)"
    by (simp add: threads_update private_update_fields [OF assms])
  have "th_preempt_count (threads (thread_update t f s) u) = th_preempt_count (threads s u)" for u
    using assms by (simp add: threads_update private_update_def)
  then show "preempt_level (thread_update t f s) = preempt_level s"
    "rt_interrupt_get_nest (thread_update t f s) = rt_interrupt_get_nest s"
    using preempt_cong [of "thread_update t f s" s] by simp_all
  have "stacks_ok (thread_update t f s) = stacks_ok s"
    using assms by (auto simp: stacks_ok_def threads_update private_update_def)
  then show "sys_ok (thread_update t f s) = sys_ok s" by (simp add: sys_ok_def inv st)
  show "thread_typed (thread_update t f s) u = thread_typed s u"
    by (simp add: thread_typed_def is_thread_def is_timer_def rt_object_get_type_def timer_flag_def)
qed

lemma may_block_update: "private_update f \<Longrightarrow> may_block (thread_update t f s) u = may_block s u"
  by (simp add: may_block_def private_update_inv)

lemma may_blockD:
  assumes "may_block s t"
  shows "sys_ok s" "preempt_level s = 0" "rt_interrupt_get_nest s = 0" "rt_current_thread s = Some t"
    "thread_stat s t = RT_THREAD_READY" "thread_typed s t" "RT_DEBUG_IN_THREAD_CONTEXT s = Some ()"
    "rt_thread_self s = Some t"
  using assms
  by (auto simp: may_block_def RT_DEBUG_IN_THREAD_CONTEXT_def RT_DEBUG_NOT_IN_INTERRUPT_def
      rt_thread_self_def rt_assert_def)

text \<open>The scheduler looks only at the threads, their lists and the current thread.\<close>

definition same_sched :: "kstate \<Rightarrow> kstate \<Rightarrow> bool" where
  "same_sched s s' \<longleftrightarrow> threads s' = threads s \<and> rt_current_thread s' = rt_current_thread s \<and>
     objects s' = objects s \<and> (sched_inv s' \<longleftrightarrow> sched_inv s) \<and> rt_tick s' = rt_tick s"

lemma same_sched_ok:
  assumes "same_sched s s'"
  shows "sys_ok s' = sys_ok s" "thread_stat s' t = thread_stat s t" "preempt_level s' = preempt_level s"
    "rt_interrupt_get_nest s' = rt_interrupt_get_nest s" "thread_typed s' t = thread_typed s t"
    "may_block s' t = may_block s t" "is_thread t s' = is_thread t s" "rt_tick s' = rt_tick s"
proof -
  note eq = assms [unfolded same_sched_def]
  show st: "thread_stat s' t = thread_stat s t" for t using eq by (simp add: thread_stat_def)
  then show ok: "sys_ok s' = sys_ok s" using eq by (simp add: sys_ok_def stacks_ok_def)
  show lev: "preempt_level s' = preempt_level s" "rt_interrupt_get_nest s' = rt_interrupt_get_nest s"
    using eq by (auto intro!: preempt_cong)
  show ty: "thread_typed s' t = thread_typed s t" "is_thread t s' = is_thread t s"
    using eq by (simp_all add: thread_typed_def is_thread_def is_timer_def rt_object_get_type_def timer_flag_def)
  show "may_block s' t = may_block s t" using eq by (simp add: may_block_def ok lev st ty)
  show "rt_tick s' = rt_tick s" using eq by simp
qed

lemma same_sched_trans [trans]: "same_sched s s' \<Longrightarrow> same_sched s' s'' \<Longrightarrow> same_sched s s''"
  by (simp add: same_sched_def)

lemma may_block_other:
  assumes "may_block s t"
  obtains u where "u \<noteq> t" "thread_stat s u = RT_THREAD_READY"
  using assms by (auto simp: may_block_def)

context queue_discipline
begin

lemma block_call:
  assumes mb: "may_block s t" and f: "private_update f" and h: "wait_head h"
    and time: "0 < sint time \<Longrightarrow> time < RT_TICK_MAX div 2"
  obtains s' v where "block_on ins h t time (thread_update t f s) = Some s'" "sys_ok s'" "ipc_frame s s'"
    "thread_stat s' t = RT_THREAD_SUSPEND" "error (threads s' t) = error (f (threads s t))"
    "thread_lists s' h = place (\<lambda>u. current_priority (threads s u)) t (thread_lists s h)"
    "\<And>h'. h' \<noteq> h \<Longrightarrow> thread_lists s' h' = remove1 t (thread_lists s h')"
    "rt_current_thread s' = Some v" "v \<noteq> t" "thread_stat s' v = RT_THREAD_READY"
    "\<And>u. current_priority (threads s' u) = current_priority (threads s u)"
    "0 < sint time \<longrightarrow> ThreadTimer t \<in> set (rt_timer_list s') \<and>
       timeout_tick (timers s' (ThreadTimer t)) = rt_tick s + time"
proof -
  let ?s0 = "thread_update t f s"
  obtain u where u: "u \<noteq> t" "thread_stat ?s0 u = RT_THREAD_READY"
    using mb by (auto simp: may_block_def private_update_inv [OF f])
  have mb0: "may_block ?s0 t" using mb by (simp add: may_block_update [OF f])
  have fr: "ipc_frame s ?s0" by simp
  show thesis
    by (rule block_effect [OF may_blockD(1-6) [OF mb0] u h time]; assumption?)
      (rule that; simp add: private_update_inv [OF f] ipc_frame_trans [OF fr])
qed

end

lemma ipc_block_call:
  assumes mb: "may_block s t" and f: "private_update f" and h: "wait_head h" and flag: "ipc_order flag"
    and time: "0 < sint time \<Longrightarrow> time < RT_TICK_MAX div 2"
  obtains s' v where "ipc_block h t flag time (thread_update t f s) = Some s'" "sys_ok s'" "ipc_frame s s'"
    "thread_stat s' t = RT_THREAD_SUSPEND" "error (threads s' t) = error (f (threads s t))"
    "thread_lists s' h = queue_insert flag (\<lambda>u. current_priority (threads s u)) t (thread_lists s h)"
    "\<And>h'. h' \<noteq> h \<Longrightarrow> thread_lists s' h' = remove1 t (thread_lists s h')"
    "rt_current_thread s' = Some v" "v \<noteq> t" "thread_stat s' v = RT_THREAD_READY"
    "\<And>u. current_priority (threads s' u) = current_priority (threads s u)"
    "0 < sint time \<longrightarrow> ThreadTimer t \<in> set (rt_timer_list s') \<and>
       timeout_tick (timers s' (ThreadTimer t)) = rt_tick s + time"
  by (rule queue_discipline.block_call [OF ipc_discipline mb f h time]; assumption?)
    (rule that; simp add: ipc_suspend_on [OF flag])

section \<open>Resuming the first waiter\<close>

text \<open>
  The hand-over that every releasing call does: the first waiter becomes ready at the end of its
  ready list, the others keep their places, and if the scheduler is free the highest ready thread
  runs, which is the waiter when it has a higher priority than every ready thread.
\<close>

lemma rt_ipc_list_resume_effect:
  assumes inv: "sched_inv s" and h: "wait_head h" and ts: "thread_lists s h = t # ts"
    and ty: "is_thread t s = Some ()" "is_timer (ThreadTimer t) s = Some ()"
  defines "p \<equiv> unat (current_priority (threads s t))"
  obtains s1 where "rt_ipc_list_resume h s = Some s1" "sched_inv s1" "ipc_frame s s1"
    "threads s1 = (threads s)(t := (threads s t)\<lparr>stat := ready_stat (stat (threads s t)),
       tlist := Some (ReadyList p)\<rparr>)"
    "thread_lists s1 = (thread_lists s)(h := ts, ReadyList p := thread_lists s (ReadyList p) @ [t])"
    "rt_current_thread s1 = rt_current_thread s"
proof -
  have susp: "thread_stat s t = RT_THREAD_SUSPEND" using wait_head_suspended [OF inv h] ts by simp
  obtain s1 where r: "rt_thread_resume t s = Some (RT_EOK, s1)" "sched_inv s1" "ipc_frame s s1"
    and th: "threads s1 = (threads s)(t := (threads s t)\<lparr>stat := ready_stat (stat (threads s t)),
       tlist := Some (ReadyList p)\<rparr>)"
    and li: "\<And>h'. thread_lists s1 h' = remove1 t (thread_lists s h') @ (if h' = ReadyList p then [t] else [])"
    and cur: "rt_current_thread s1 = rt_current_thread s"
    by (rule rt_thread_resume_effect [OF inv ty susp]) (auto simp: p_def)
  note lo = sched_invD(1) [OF inv]
  have t: "tlist (threads s t) = Some h" using list_ok_mem [OF lo, of t h] ts by simp
  have hr: "h \<noteq> ReadyList p" using h by auto
  have "thread_lists s1 = (thread_lists s)(h := ts, ReadyList p := thread_lists s (ReadyList p) @ [t])"
  proof
    fix h'
    show "thread_lists s1 h' = ((thread_lists s)(h := ts, ReadyList p := thread_lists s (ReadyList p) @ [t])) h'"
      using t ts hr remove1_unlinked [OF lo, of t h'] by (auto simp: li)
  qed
  moreover have "rt_ipc_list_resume h s = Some s1" using r(1) ts by (simp add: rt_ipc_list_resume_def)
  ultimately show thesis using that [of s1] r(2,3) cur th by blast
qed

lemma resume_schedule_effect:
  assumes ok: "sys_ok s" and h: "wait_head h" and ts: "thread_lists s h = t # ts"
    and ty: "is_thread t s = Some ()" "is_timer (ThreadTimer t) s = Some ()"
  obtains s1 s' where "rt_ipc_list_resume h s = Some s1" "rt_schedule s1 = Some s'" "sys_ok s'"
    "ipc_frame s s1" "ipc_frame s s'" "thread_stat s' t = RT_THREAD_READY" "thread_lists s' h = ts"
    "\<And>h'. wait_head h' \<Longrightarrow> h' \<noteq> h \<Longrightarrow> thread_lists s' h' = thread_lists s h'"
    "error (threads s' t) = error (threads s t)"
    "\<And>u. current_priority (threads s' u) = current_priority (threads s u)"
    "preempt_level s = 0 \<Longrightarrow> rt_interrupt_get_nest s = 0 \<Longrightarrow>
       \<forall>u. thread_stat s u = RT_THREAD_READY \<longrightarrow> current_priority (threads s t) < current_priority (threads s u) \<Longrightarrow>
       rt_current_thread s' = Some t"
proof -
  let ?p = "unat (current_priority (threads s t))"
  have inv: "sched_inv s" using ok by (simp add: sys_ok_def)
  obtain s1 where 1: "rt_ipc_list_resume h s = Some s1" "sched_inv s1" and ipc1: "ipc_frame s s1"
    and th1: "threads s1 = (threads s)(t := (threads s t)\<lparr>stat := ready_stat (stat (threads s t)),
       tlist := Some (ReadyList ?p)\<rparr>)"
    and li1: "thread_lists s1 = (thread_lists s)(h := ts, ReadyList ?p := thread_lists s (ReadyList ?p) @ [t])"
    and cur1: "rt_current_thread s1 = rt_current_thread s"
    by (rule rt_ipc_list_resume_effect [OF inv h ts ty]) blast
  have st1: "thread_stat s1 t = RT_THREAD_READY" by (simp add: th1 thread_stat_def)
  have "stacks_ok s1" using ok by (simp add: sys_ok_def stacks_ok_def th1 rt_scheduler_stack_check_def)
  then have ok1: "sys_ok s1" using 1 st1 ok by (auto simp: sys_ok_def cur1)
  obtain s' where r: "rt_schedule s1 = Some s'" by (rule rt_schedule_total [OF ok1])
  note fr = rt_schedule_frame [OF r]
  have hd: "rt_current_thread s' = Some t"
    if "preempt_level s = 0" "rt_interrupt_get_nest s = 0"
      and min: "\<forall>u. thread_stat s u = RT_THREAD_READY \<longrightarrow> current_priority (threads s t) < current_priority (threads s u)"
  proof -
    have "preempt_level s1 = 0" "rt_interrupt_get_nest s1 = 0"
      using that(1,2) preempt_cong [OF cur1] by (simp_all add: th1)
    from rt_schedule_picks [OF ok1 this] r obtain v where v: "rt_current_thread s' = Some v"
      "thread_stat s' v = RT_THREAD_READY"
      "\<And>w. thread_stat s' w = RT_THREAD_READY \<Longrightarrow> current_priority (threads s' v) \<le> current_priority (threads s' w)"
      by auto
    have "v = t"
    proof (rule ccontr)
      assume "v \<noteq> t"
      with v(2) have "thread_stat s v = RT_THREAD_READY"
        by (simp add: resched_frame_thread [OF fr] th1 thread_stat_def)
      moreover have "current_priority (threads s v) \<le> current_priority (threads s t)"
        using v(3) [of t] st1 \<open>v \<noteq> t\<close> by (simp add: resched_frame_thread [OF fr] th1)
      ultimately show False using min by fastforce
    qed
    with v(1) show ?thesis by simp
  qed
  show thesis
  proof (rule that [OF 1(1) r])
    show "sys_ok s'" by (rule resched_frame_inv(3) [OF fr ok1])
    show "ipc_frame s s'" by (rule ipc_frame_trans [OF ipc1 resched_ipc_frame [OF fr]])
    show "thread_stat s' t = RT_THREAD_READY" by (simp add: resched_frame_thread [OF fr] st1)
    show "thread_lists s' h = ts" using h by (auto simp: resched_frameD [OF fr] li1)
    show "thread_lists s' h' = thread_lists s h'" if "wait_head h'" "h' \<noteq> h" for h'
      using that by (auto simp: resched_frameD [OF fr] li1)
    show "error (threads s' t) = error (threads s t)" by (simp add: resched_frame_thread [OF fr] th1)
    show "current_priority (threads s' u) = current_priority (threads s u)" for u
      by (simp add: resched_frame_thread [OF fr] th1)
  qed (use ipc1 hd in auto)
qed

text \<open>A waiter resumed from any place of the queue.\<close>

lemma resume_waiter_effect:
  assumes ok: "sys_ok s" and h: "wait_head h" and ts: "thread_lists s h = pre @ t # ts"
    and ty: "is_thread t s = Some ()" "is_timer (ThreadTimer t) s = Some ()"
  defines "p \<equiv> unat (current_priority (threads s t))"
  obtains s1 where "rt_thread_resume t s = Some (RT_EOK, s1)" "sys_ok s1" "ipc_frame s s1"
    "threads s1 = (threads s)(t := (threads s t)\<lparr>stat := ready_stat (stat (threads s t)),
       tlist := Some (ReadyList p)\<rparr>)"
    "thread_lists s1 h = pre @ ts"
    "\<And>h'. wait_head h' \<Longrightarrow> h' \<noteq> h \<Longrightarrow> thread_lists s1 h' = thread_lists s h'"
    "rt_current_thread s1 = rt_current_thread s"
proof -
  have inv: "sched_inv s" using ok by (simp add: sys_ok_def)
  note lo = sched_invD(1) [OF inv]
  have susp: "thread_stat s t = RT_THREAD_SUSPEND" using wait_head_suspended [OF inv h] ts by simp
  obtain s1 where r: "rt_thread_resume t s = Some (RT_EOK, s1)" "sched_inv s1" "ipc_frame s s1"
    and th: "threads s1 = (threads s)(t := (threads s t)\<lparr>stat := ready_stat (stat (threads s t)),
       tlist := Some (ReadyList p)\<rparr>)"
    and li: "\<And>h'. thread_lists s1 h' = remove1 t (thread_lists s h') @ (if h' = ReadyList p then [t] else [])"
    and cur: "rt_current_thread s1 = rt_current_thread s"
    by (rule rt_thread_resume_effect [OF inv ty susp]) (auto simp: p_def)
  have st: "thread_stat s1 t = RT_THREAD_READY" by (simp add: th thread_stat_def)
  have "stacks_ok s1" using ok by (simp add: sys_ok_def stacks_ok_def th rt_scheduler_stack_check_def)
  then have ok1: "sys_ok s1" using ok r(2) st by (auto simp: sys_ok_def cur)
  have t: "tlist (threads s t) = Some h" using list_ok_mem [OF lo, of t h] ts by simp
  have "t \<notin> set pre" using list_ok_distinct [OF lo, of h] ts by simp
  then have l: "thread_lists s1 h = pre @ ts" using h by (auto simp: li ts remove1_append)
  have o: "thread_lists s1 h' = thread_lists s h'" if "wait_head h'" "h' \<noteq> h" for h'
    using that t remove1_unlinked [OF lo, of t h'] by (auto simp: li)
  show thesis by (rule that [OF r(1) ok1 r(3) th l o cur])
qed

lemma rt_ipc_get_highest_priority_Min:
  "rt_ipc_get_highest_priority h s =
     Min (insert (of_nat (RT_THREAD_PRIORITY_MAX - 1)) ((\<lambda>t. current_priority (threads s t)) ` set (thread_lists s h)))"
proof -
  have "foldl (\<lambda>p t. if p < f t then p else f t) x ts = Min (insert x (f ` set ts))"
    for f :: "tid \<Rightarrow> u8" and x ts
  proof (induction ts arbitrary: x)
    case (Cons t ts)
    have "(if x < f t then x else f t) = min x (f t)" by (auto simp: min_def)
    moreover have "Min (insert (min x (f t)) (f ` set ts)) = Min (insert x (f ` set (t # ts)))"
      by (cases "set ts = {}") (simp_all add: min.assoc)
    ultimately show ?case using Cons.IH by simp
  qed simp
  then show ?thesis by (simp add: rt_ipc_get_highest_priority_def)
qed

section \<open>Resuming all waiters\<close>

lemma rt_ipc_list_resume_all_empty [simp]:
  "thread_lists s h = [] \<Longrightarrow> rt_ipc_list_resume_all h s = Some s"
  by (subst rt_ipc_list_resume_all.simps) simp

lemma resume_all_step:
  assumes inv: "sched_inv s" and h: "wait_head h" and ts: "thread_lists s h = t # ts"
    and ty: "is_thread t s = Some ()" "is_timer (ThreadTimer t) s = Some ()"
  defines "p \<equiv> unat (current_priority (threads s t))"
  obtains s1 where "rt_ipc_list_resume_all h s = rt_ipc_list_resume_all h s1" "sched_inv s1" "ipc_frame s s1"
    "threads s1 = (threads s)(t := (threads s t)\<lparr>error := - RT_ERROR, stat := ready_stat (stat (threads s t)),
       tlist := Some (ReadyList p)\<rparr>)"
    "thread_lists s1 = (thread_lists s)(h := ts, ReadyList p := thread_lists s (ReadyList p) @ [t])"
    "rt_current_thread s1 = rt_current_thread s"
proof -
  let ?s0 = "thread_update t (\<lambda>th. th\<lparr>error := - RT_ERROR\<rparr>) s"
  have inv0: "sched_inv ?s0" using inv by (simp add: sched_inv_thread_update sched_key_def)
  have fr0: "ipc_frame s ?s0" by simp
  have susp: "thread_stat s t = RT_THREAD_SUSPEND" using wait_head_suspended [OF inv h] ts by simp
  then have susp0: "thread_stat ?s0 t = RT_THREAD_SUSPEND" by (simp add: thread_stat_def)
  have ty0: "is_thread t ?s0 = Some ()" "is_timer (ThreadTimer t) ?s0 = Some ()"
    using ty ipc_frameD(11,12) [OF fr0] by simp_all
  obtain s1 where r: "rt_thread_resume t ?s0 = Some (RT_EOK, s1)" "sched_inv s1" "ipc_frame ?s0 s1"
    and th: "threads s1 = (threads ?s0)(t := (threads ?s0 t)\<lparr>stat := ready_stat (stat (threads ?s0 t)),
       tlist := Some (ReadyList p)\<rparr>)"
    and li: "\<And>h'. thread_lists s1 h' = remove1 t (thread_lists s h') @ (if h' = ReadyList p then [t] else [])"
    and cur: "rt_current_thread s1 = rt_current_thread s"
    by (rule rt_thread_resume_effect [OF inv0 ty0 susp0]) (auto simp: p_def)
  note lo = sched_invD(1) [OF inv]
  have t: "tlist (threads s t) = Some h" using list_ok_mem [OF lo, of t h] ts by simp
  have hr: "h \<noteq> ReadyList p" using h by auto
  have "thread_lists s1 = (thread_lists s)(h := ts, ReadyList p := thread_lists s (ReadyList p) @ [t])"
  proof
    fix h'
    show "thread_lists s1 h' = ((thread_lists s)(h := ts, ReadyList p := thread_lists s (ReadyList p) @ [t])) h'"
      using t ts hr remove1_unlinked [OF lo, of t h'] by (auto simp: li)
  qed
  moreover have "rt_ipc_list_resume_all h s = rt_ipc_list_resume_all h s1"
    using r(1) ts by (subst rt_ipc_list_resume_all.simps) simp
  ultimately show thesis
    using that [of s1] r(2) ipc_frame_trans [OF fr0 r(3)] cur th by (simp add: thread_update_def)
qed

definition waiters_typed :: "list_head \<Rightarrow> kstate \<Rightarrow> bool" where
  "waiters_typed h s \<longleftrightarrow>
     (\<forall>t\<in>set (thread_lists s h). is_thread t s = Some () \<and> is_timer (ThreadTimer t) s = Some ())"

definition resumed :: "kstate \<Rightarrow> tid list \<Rightarrow> kstate \<Rightarrow> bool" where
  "resumed s ts s' \<longleftrightarrow>
     (\<forall>t. threads s' t = (if t \<in> set ts
        then (threads s t)\<lparr>error := - RT_ERROR, stat := ready_stat (stat (threads s t)),
               tlist := Some (ReadyList (unat (current_priority (threads s t))))\<rparr>
        else threads s t)) \<and>
     (\<forall>p. thread_lists s' (ReadyList p) = thread_lists s (ReadyList p) @
        filter (\<lambda>t. unat (current_priority (threads s t)) = p) ts) \<and>
     rt_current_thread s' = rt_current_thread s"

lemma rt_ipc_list_resume_all_effect:
  assumes "sched_inv s" "wait_head h" "waiters_typed h s"
  obtains s' where "rt_ipc_list_resume_all h s = Some s'" "sched_inv s'" "ipc_frame s s'"
    "thread_lists s' h = []" "\<And>h'. wait_head h' \<Longrightarrow> h' \<noteq> h \<Longrightarrow> thread_lists s' h' = thread_lists s h'"
    "resumed s (thread_lists s h) s'"
  using assms
proof (induction "thread_lists s h" arbitrary: s thesis)
  case Nil
  then show ?case by (auto simp: resumed_def)
next
  case (Cons t ts)
  let ?p = "unat (current_priority (threads s t))"
  have ty: "is_thread t s = Some ()" "is_timer (ThreadTimer t) s = Some ()"
    using Cons.prems(4) Cons.hyps(2) [symmetric] by (simp_all add: waiters_typed_def)
  obtain s1 where c: "rt_ipc_list_resume_all h s = rt_ipc_list_resume_all h s1" and inv1: "sched_inv s1"
    and fr1: "ipc_frame s s1"
    and th1: "threads s1 = (threads s)(t := (threads s t)\<lparr>error := - RT_ERROR,
       stat := ready_stat (stat (threads s t)), tlist := Some (ReadyList ?p)\<rparr>)"
    and li1: "thread_lists s1 = (thread_lists s)(h := ts, ReadyList ?p := thread_lists s (ReadyList ?p) @ [t])"
    and cur1: "rt_current_thread s1 = rt_current_thread s"
    by (rule resume_all_step [OF Cons.prems(2,3) Cons.hyps(2) [symmetric] ty]) blast
  have hr: "h \<noteq> ReadyList q" for q using Cons.prems(3) by auto
  have ts: "ts = thread_lists s1 h" using hr by (simp add: li1)
  have wt: "waiters_typed h s1"
    using Cons.prems(4) ipc_frameD(11,12) [OF fr1]
    unfolding waiters_typed_def Cons.hyps(2) [symmetric] ts [symmetric] by simp
  have nt: "t \<notin> set ts"
    using list_ok_distinct [OF sched_invD(1) [OF Cons.prems(2)], of h] by (simp flip: Cons.hyps(2))
  obtain s' where s': "rt_ipc_list_resume_all h s1 = Some s'" "sched_inv s'" "ipc_frame s1 s'"
    "thread_lists s' h = []" "\<And>h'. wait_head h' \<Longrightarrow> h' \<noteq> h \<Longrightarrow> thread_lists s' h' = thread_lists s1 h'"
    "resumed s1 (thread_lists s1 h) s'"
    by (rule Cons.hyps(1) [OF ts _ inv1 Cons.prems(3) wt]) blast
  have f: "filter (\<lambda>x. unat (current_priority (threads s1 x)) = p) ts
      = filter (\<lambda>x. unat (current_priority (threads s x)) = p) ts" for p
    by (rule filter_cong) (auto simp: th1)
  have "resumed s (t # ts) s'"
    using s'(6) nt hr unfolding resumed_def ts [symmetric] f by (auto simp: th1 li1 cur1)
  then have res: "resumed s (thread_lists s h) s'" by (simp flip: Cons.hyps(2))
  have oth: "thread_lists s' h' = thread_lists s h'" if "wait_head h'" "h' \<noteq> h" for h'
    using s'(5) [OF that] that by (auto simp: li1)
  have "rt_ipc_list_resume_all h s = Some s'" using c s'(1) by simp
  from Cons.prems(1) [OF this s'(2) ipc_frame_trans [OF fr1 s'(3)] s'(4) oth res] show ?case .
qed

section \<open>Frames of the helpers\<close>

lemma rt_thread_resume_frame:
  assumes "rt_thread_resume t s = Some (e, s')"
  shows "ipc_frame s s'"
proof (cases "thread_stat s t = RT_THREAD_SUSPEND")
  case True
  with assms obtain e1 s1 where 1: "rt_timer_stop (ThreadTimer t) (rt_list_remove t s) = Some (e1, s1)"
    and 2: "rt_schedule_insert_thread t s1 = Some s'"
    by (auto simp: rt_thread_resume_def bind_Some_iff Let_def)
  have "ipc_frame s (rt_list_remove t s)" by simp
  with rt_timer_stop_frame [OF 1] rt_schedule_insert_thread_frame [OF 2] show ?thesis
    by (blast intro: ipc_frame_trans)
qed (use assms in \<open>auto simp: rt_thread_resume_def bind_Some_iff\<close>)

lemma rt_thread_suspend_frame:
  assumes "rt_thread_suspend t s = Some (e, s')"
  shows "ipc_frame s s'"
proof (cases "thread_stat s t = RT_THREAD_READY")
  case True
  let ?s0 = "thread_update t (\<lambda>th. th\<lparr>stat := suspend_stat (stat th)\<rparr>) s"
  from assms True obtain e1 s1 where 1: "rt_schedule_remove_thread t ?s0 = Some s1"
    and 2: "rt_timer_stop (ThreadTimer t) s1 = Some (e1, s')"
    by (auto simp: rt_thread_suspend_def bind_Some_iff Let_def)
  have "ipc_frame s ?s0" by simp
  with rt_timer_stop_frame [OF 2] rt_schedule_remove_thread_frame [OF 1] show ?thesis
    by (blast intro: ipc_frame_trans)
qed (use assms in \<open>auto simp: rt_thread_suspend_def bind_Some_iff\<close>)

lemma list_insert_frame:
  assumes "rt_list_insert_before h t s = Some s' \<or> rt_list_insert_prio h t s = Some s'"
  shows "ipc_frame s s'"
  using assms by (auto simp: rt_list_insert_before_def rt_list_insert_prio_def ipc_frame_def split: if_splits)

lemma rt_ipc_list_suspend_frame:
  assumes "rt_ipc_list_suspend h t flag s = Some s'"
  shows "ipc_frame s s'"
proof -
  from assms obtain e s1 where 1: "rt_thread_suspend t s = Some (e, s1)"
    and 2: "rt_list_insert_before h t s1 = Some s' \<or> rt_list_insert_prio h t s1 = Some s' \<or> s' = s1"
    by (auto simp: rt_ipc_list_suspend_def bind_Some_iff split: if_splits)
  from rt_thread_suspend_frame [OF 1] 2 list_insert_frame [of h t s1 s'] show ?thesis
    by (auto intro: ipc_frame_trans)
qed

lemma rt_timer_start_frame:
  assumes "rt_timer_start t s = Some (e, s')"
  shows "ipc_frame s s'"
proof -
  from assms obtain s1 where 1: "rt_timer_enqueue t s = Some s1"
    and c: "s' = s1 \<or> (\<exists>e2 s2. rt_thread_resume (timer_thread s1) s1 = Some (e2, s2) \<and> rt_schedule s2 = Some s')"
    by (auto simp: rt_timer_start_def bind_Some_iff split: if_splits)
  have f1: "ipc_frame s s1" using rt_timer_enqueue_frame [OF 1] by simp
  from c show ?thesis
  proof (elim disjE exE conjE)
    fix e2 s2
    assume r: "rt_thread_resume (timer_thread s1) s1 = Some (e2, s2)" "rt_schedule s2 = Some s'"
    show ?thesis
      using f1 rt_thread_resume_frame [OF r(1)] resched_ipc_frame [OF rt_schedule_frame [OF r(2)]]
      by (blast intro: ipc_frame_trans)
  qed (use f1 in simp)
qed

lemma arm_thread_timer_frame:
  assumes "arm_thread_timer t time s = Some s'"
  shows "ipc_frame s s'"
proof -
  from assms obtain v s2 e3 where c: "rt_timer_control (ThreadTimer t) (SET_TIME time) s = Some (v, s2)"
    and st: "rt_timer_start (ThreadTimer t) s2 = Some (e3, s')"
    by (auto simp: arm_thread_timer_def bind_Some_iff)
  show ?thesis
    using rt_timer_control_frame [OF c] rt_timer_start_frame [OF st] by (blast intro: ipc_frame_trans)
qed

lemma ipc_wait_frame:
  assumes "ipc_wait h t flag time s = Some s'"
  shows "ipc_frame s s'"
  using assms
  by (auto simp: ipc_wait_def bind_Some_iff split: if_splits
      intro: rt_ipc_list_suspend_frame ipc_frame_trans [OF rt_ipc_list_suspend_frame arm_thread_timer_frame])

lemma block_on_frame:
  assumes "block_on ins h t time s = Some s'" and "\<And>s s'. ins h t s = Some s' \<Longrightarrow> ipc_frame s s'"
  shows "ipc_frame s s'"
proof -
  from assms(1) obtain e s1 s2 s3 where 1: "rt_thread_suspend t s = Some (e, s1)" and 2: "ins h t s1 = Some s2"
    and 3: "s3 = s2 \<or> arm_thread_timer t time s2 = Some s3" and 4: "rt_schedule s3 = Some s'"
    by (auto simp: block_on_def wait_on_def suspend_on_def bind_Some_iff split: if_splits)
  have "ipc_frame s2 s3" using 3 arm_thread_timer_frame by auto
  with rt_thread_suspend_frame [OF 1] assms(2) [OF 2] resched_ipc_frame [OF rt_schedule_frame [OF 4]]
  show ?thesis by (blast intro: ipc_frame_trans)
qed

lemma ipc_block_frame:
  assumes "ipc_block h t flag time s = Some s'"
  shows "ipc_frame s s'"
proof -
  from assms obtain s1 where "ipc_wait h t flag time s = Some s1" "rt_schedule s1 = Some s'"
    by (auto simp: ipc_block_def bind_Some_iff)
  then show ?thesis
    using ipc_wait_frame resched_ipc_frame [OF rt_schedule_frame] by (blast intro: ipc_frame_trans)
qed

lemma rt_ipc_list_resume_frame: "rt_ipc_list_resume h s = Some s' \<Longrightarrow> ipc_frame s s'"
  using rt_thread_resume_frame by (auto simp: rt_ipc_list_resume_def split: list.splits)

section \<open>Preservation by calls that return\<close>

lemma rt_thread_suspend_typed:
  "rt_thread_suspend t s = Some r \<Longrightarrow> is_thread t s = Some ()"
  by (cases r) (auto simp: rt_thread_suspend_def bind_Some_iff)

lemma rt_ipc_list_suspend_inv:
  assumes inv: "sched_inv s" and ready: "thread_stat s t = RT_THREAD_READY" and h: "wait_head h"
    and call: "rt_ipc_list_suspend h t flag s = Some s'"
  shows "sched_inv s' \<and> ipc_frame s s' \<and> rt_current_thread s' = rt_current_thread s"
proof -
  from call obtain e s1 where 1: "rt_thread_suspend t s = Some (e, s1)"
    by (auto simp: rt_ipc_list_suspend_def bind_Some_iff)
  note i1 = rt_thread_suspend_inv [OF inv 1]
  from 1 ready obtain s2 e2 where r: "rt_timer_stop (ThreadTimer t) s2 = Some (e2, s1)"
    and s2: "rt_schedule_remove_thread t (thread_update t (\<lambda>th. th\<lparr>stat := suspend_stat (stat th)\<rparr>) s) = Some s2"
    by (auto simp: rt_thread_suspend_def bind_Some_iff Let_def)
  have "is_timer (ThreadTimer t) s2 = Some ()" by (rule rt_timer_stop_typed [OF r])
  then have tm: "is_timer (ThreadTimer t) s = Some ()"
    using rt_schedule_remove_thread_frame [OF s2] by (simp add: is_timer_def rt_object_get_type_def)
  obtain s1' where "rt_thread_suspend t s = Some (RT_EOK, s1')"
    and th: "threads s1' = (threads s)(t := (threads s t)\<lparr>stat := suspend_stat (stat (threads s t)), tlist := None\<rparr>)"
    by (rule rt_thread_suspend_effect [OF inv rt_thread_suspend_typed [OF 1] tm ready]) blast
  with 1 have th1: "threads s1 = (threads s)(t := (threads s t)\<lparr>stat := suspend_stat (stat (threads s t)), tlist := None\<rparr>)"
    by simp
  have wf: "thread_wf ((threads s1 t)\<lparr>tlist := Some h\<rparr>)"
    using sched_inv_prio_weak [OF inv, of t] sched_inv_prio_ok [OF inv, of t] ready
    by (intro wait_head_wf [OF h]) (simp_all add: th1 prio_weak_def prio_ok_def)
  have un: "tlist (threads s1 t) = None" by (simp add: th1)
  from i1 have inv1: "sched_inv s1" and fr: "ipc_frame s s1" by simp_all
  note lo = sched_invD(1) [OF inv1]
  have nt: "t \<notin> set (thread_lists s1 h)" using un list_ok_mem [OF lo, of t h] by simp
  have d: "distinct (thread_lists s1 h)" by (rule list_ok_distinct [OF lo])
  from call 1 consider (skip) "s' = s1"
    | (put) us where "s' = thread_update t (\<lambda>th. th\<lparr>tlist := Some h\<rparr>) (s1\<lparr>thread_lists := (thread_lists s1)(h := us)\<rparr>)"
        "set us = insert t (set (thread_lists s1 h))" "distinct us"
    using nt d prio_insert_perm
    by (auto simp: rt_ipc_list_suspend_def rt_list_insert_before_def rt_list_insert_prio_def split: if_splits)
  then show ?thesis
  proof cases
    case put
    have "ipc_frame s s'" using fr by (simp add: put(1) ipc_frame_def)
    with put i1 list_put_inv [OF inv1 un h wf put(2,3)] show ?thesis by simp
  qed (use i1 in simp)
qed

lemma ipc_wait_inv:
  assumes "sched_inv s" "thread_stat s t = RT_THREAD_READY" "wait_head h"
    and "ipc_wait h t flag time s = Some s'"
  shows "sched_inv s' \<and> ipc_frame s s'"
proof -
  from assms(4) obtain s1 where 1: "rt_ipc_list_suspend h t flag s = Some s1"
    and 2: "arm_thread_timer t time s1 = Some s' \<or> s' = s1"
    by (auto simp: ipc_wait_def bind_Some_iff split: if_splits)
  from rt_ipc_list_suspend_inv [OF assms(1-3) 1] 2 arm_thread_timer_inv [of s1 t time s']
  show ?thesis by (auto intro: ipc_frame_trans)
qed

lemma ipc_block_inv:
  assumes "sched_inv s" "thread_stat s t = RT_THREAD_READY" "wait_head h"
    and "ipc_block h t flag time s = Some s'"
  shows "sched_inv s' \<and> ipc_frame s s'"
  using assms(4) ipc_wait_inv [OF assms(1-3)] rt_schedule_inv
  by (fastforce simp: ipc_block_def bind_Some_iff intro: ipc_frame_trans)

lemma rt_ipc_list_resume_inv:
  assumes "sched_inv s" "rt_ipc_list_resume h s = Some s'"
  shows "sched_inv s' \<and> ipc_frame s s' \<and> rt_current_thread s' = rt_current_thread s"
  using assms rt_thread_resume_inv by (auto simp: rt_ipc_list_resume_def split: list.splits)

lemma rt_ipc_list_resume_all_inv:
  assumes "rt_ipc_list_resume_all h s = Some s'" "sched_inv s"
  shows "sched_inv s' \<and> ipc_frame s s'"
proof -
  have "sched_inv s \<longrightarrow> sched_inv s' \<and> ipc_frame s s'"
  proof (induction rule: rt_ipc_list_resume_all.raw_induct [OF _ assms(1)])
    case (1 f h s s')
    show ?case
    proof (cases "thread_lists s h")
      case Nil
      with 1 show ?thesis by simp
    next
      case (Cons t ts)
      let ?s0 = "thread_update t (\<lambda>th. th\<lparr>error := - RT_ERROR\<rparr>) s"
      from 1(2) Cons obtain e s1 where r: "rt_thread_resume t ?s0 = Some (e, s1)" "f h s1 = Some s'"
        by (auto simp: bind_Some_iff)
      show ?thesis
      proof
        assume "sched_inv s"
        then have "sched_inv ?s0" by (simp add: sched_inv_thread_update sched_key_def)
        from rt_thread_resume_inv [OF this r(1)] 1(1) [OF r(2)] show "sched_inv s' \<and> ipc_frame s s'"
          by (meson ipc_frame_trans ipc_frame_thread_fields(7))
      qed
    qed
  qed
  with assms(2) show ?thesis by simp
qed

lemma rt_object_detach_inv [simp]: "sched_inv (rt_object_detach x s) = sched_inv s"
  by (rule thread_frame_inv) simp

lemma rt_object_delete_inv: "rt_object_delete x s = Some s' \<Longrightarrow> sched_inv s' = sched_inv s"
  by (auto simp: rt_object_delete_def bind_Some_iff container_remove_def object_update_def)

lemma set_ipc_flag_inv [simp]: "sched_inv (set_ipc_flag x f s) = sched_inv s"
  by (simp add: set_ipc_flag_def object_update_def)

lemma rt_ipc_object_init_inv:
  assumes "sched_inv s" "thread_lists s (IpcSuspend x) = []"
  shows "sched_inv (rt_ipc_object_init x s)"
proof -
  have "rt_ipc_object_init x s = s"
    using assms(2) by (simp add: rt_ipc_object_init_def fun_upd_idem)
  with assms(1) show ?thesis by simp
qed

lemma rt_object_init_inv:
  assumes "sched_inv s" "rt_object_init x c name s = Some s'"
  shows "sched_inv s'"
proof -
  from assms(2) obtain i s1 where "rt_exit_critical (rt_enter_critical s) = Some s1"
    and s': "s' = (object_update x (\<lambda>ob. ob\<lparr>obj_type := c OR RT_Object_Class_Static,
        obj_name := take RT_NAME_MAX name\<rparr>) s1)\<lparr>containers := (containers s1)(i := x # containers s1 i)\<rparr>"
    by (auto simp: rt_object_init_def bind_Some_iff object_update_def Let_def)
  then have "resched_frame s s1"
    using rt_exit_critical_frame rt_enter_critical_frame resched_frame_trans by blast
  with assms(1) s' show ?thesis by (simp add: resched_frame_inv object_update_def)
qed

lemma rt_exit_critical_total:
  assumes "sys_ok s"
  obtains s' where "rt_exit_critical s = Some s'" "resched_frame s s'" "sys_ok s'"
proof -
  have ok: "sys_ok (preempt_enable s)"
    by (rule resched_frame_inv(3) [OF _ assms]) (simp add: preempt_enable_def)
  obtain x where "rt_schedule (preempt_enable s) = Some x" by (rule rt_schedule_total [OF ok])
  then have "\<exists>s'. rt_exit_critical s = Some s'"
    by (auto simp: rt_exit_critical_def Let_def rt_assert_def)
  then show thesis using that rt_exit_critical_frame resched_frame_inv(3) assms by blast
qed

text \<open>Initialising an object that is not registered yet.\<close>

lemma rt_object_init_total:
  assumes "sys_ok s" "rt_object_get_information c = Some k" "x \<notin> set (containers s k)"
  obtains s' where "rt_object_init x c name s = Some s'" "sys_ok s'" "drivers s' = drivers s" "sems s' = sems s"
    "thread_lists s' = thread_lists s"
    "objects s' = (objects s)(x := (objects s x)\<lparr>obj_type := c OR RT_Object_Class_Static, obj_name := take RT_NAME_MAX name\<rparr>)"
    "containers s' = (containers s)(k := x # containers s k)"
proof -
  have fr: "resched_frame s (rt_enter_critical s)" by simp
  have ok: "sys_ok (rt_enter_critical s)" by (rule resched_frame_inv(3) [OF fr assms(1)])
  obtain s1 where s1: "rt_exit_critical (rt_enter_critical s) = Some s1" "resched_frame (rt_enter_critical s) s1" "sys_ok s1"
    by (rule rt_exit_critical_total [OF ok])
  have fr1: "resched_frame s s1" using fr s1(2) by (rule resched_frame_trans)
  let ?s' = "(object_update x (\<lambda>ob. ob\<lparr>obj_type := c OR RT_Object_Class_Static, obj_name := take RT_NAME_MAX name\<rparr>) s1)
    \<lparr>containers := (containers s1)(k := x # containers s1 k)\<rparr>"
  have "rt_object_init x c name s = Some ?s'"
    using assms(2,3) s1(1) by (simp add: rt_object_init_def Let_def rt_assert_def resched_frameD(5) [OF fr] object_update_def)
  moreover have "sys_ok ?s'"
    using s1(3) by (simp add: sys_ok_def stacks_ok_def thread_stat_def object_update_def rt_scheduler_stack_check_def)
  ultimately show thesis
    using that by (simp add: object_update_def resched_frameD [OF fr1])
qed

text \<open>\<^verbatim>\<open>rt_set_errno\<close> of \<^verbatim>\<open>kservice.c\<close>.\<close>

definition rt_set_errno :: "rt_err_t \<Rightarrow> kstate \<Rightarrow> kstate" where
  "rt_set_errno e s =
     (if rt_interrupt_get_nest s \<noteq> 0 then s\<lparr>rt_errno := e\<rparr>
      else case rt_thread_self s of
        None \<Rightarrow> s\<lparr>rt_errno := e\<rparr>
      | Some t \<Rightarrow> thread_update t (\<lambda>th. th\<lparr>error := e\<rparr>) s)"

definition rt_get_errno :: "kstate \<Rightarrow> rt_err_t" where
  "rt_get_errno s =
     (if rt_interrupt_get_nest s \<noteq> 0 then rt_errno s
      else case rt_thread_self s of None \<Rightarrow> rt_errno s | Some t \<Rightarrow> error (threads s t))"

end
