(* ===== verification/RTT_Sem.thy ===== *)
theory RTT_Sem
  imports RTT_Ipc
begin

text \<open>
  Counting semaphores (\<^verbatim>\<open>ipc.c\<close>). A semaphore has waiters only while its 16-bit count is 0;
  \<^verbatim>\<open>rt_sem_release\<close> hands the unit to the first waiter instead of counting it.
\<close>

definition set_sem_value :: "nat \<Rightarrow> u16 \<Rightarrow> kstate \<Rightarrow> kstate" where
  "set_sem_value i v s = s\<lparr>sems := (sems s)(i := (sems s i)\<lparr>sem_value := v\<rparr>)\<rparr>"

definition is_sem :: "nat \<Rightarrow> kstate \<Rightarrow> unit option" where
  "is_sem i s = rt_assert (rt_object_get_type (OSem i) s = RT_Object_Class_Semaphore)"

abbreviation sem_waiters :: "nat \<Rightarrow> kstate \<Rightarrow> tid list" where
  "sem_waiters i s \<equiv> thread_lists s (IpcSuspend (OSem i))"

definition rt_sem_init :: "nat \<Rightarrow> string \<Rightarrow> u32 \<Rightarrow> u8 \<Rightarrow> kstate \<Rightarrow> (rt_err_t \<times> kstate) option" where
  "rt_sem_init i name value flag s = do {
     rt_assert (value < 0x10000);
     s \<leftarrow> rt_object_init (OSem i) RT_Object_Class_Semaphore name s;
     let s = rt_ipc_object_init (OSem i) s;
     let s = set_sem_value i (ucast value) s;
     Some (RT_EOK, set_ipc_flag (OSem i) flag s) }"

definition rt_sem_detach :: "nat \<Rightarrow> kstate \<Rightarrow> (rt_err_t \<times> kstate) option" where
  "rt_sem_detach i s = do {
     is_sem i s;
     rt_assert (rt_object_is_systemobject (OSem i) s);
     s \<leftarrow> rt_ipc_list_resume_all (IpcSuspend (OSem i)) s;
     Some (RT_EOK, rt_object_detach (OSem i) s) }"

definition rt_sem_create ::
  "string \<Rightarrow> u32 \<Rightarrow> u8 \<Rightarrow> nat option \<Rightarrow> kstate \<Rightarrow> (nat option \<times> kstate) option" where
  "rt_sem_create name value flag mem s = do {
     RT_DEBUG_NOT_IN_INTERRUPT s;
     rt_assert (value < 0x10000);
     (x, s) \<leftarrow> rt_object_allocate RT_Object_Class_Semaphore name (map_option OSem mem) s;
     (case x of
        Some (OSem i) \<Rightarrow>
          Some (Some i, set_ipc_flag (OSem i) flag
                  (set_sem_value i (ucast value) (rt_ipc_object_init (OSem i) s)))
      | _ \<Rightarrow> Some (None, s)) }"

definition rt_sem_delete :: "nat \<Rightarrow> kstate \<Rightarrow> (rt_err_t \<times> kstate) option" where
  "rt_sem_delete i s = do {
     RT_DEBUG_NOT_IN_INTERRUPT s;
     is_sem i s;
     rt_assert (\<not> rt_object_is_systemobject (OSem i) s);
     s \<leftarrow> rt_ipc_list_resume_all (IpcSuspend (OSem i)) s;
     s \<leftarrow> rt_object_delete (OSem i) s;
     Some (RT_EOK, s) }"

definition rt_sem_take :: "nat \<Rightarrow> u32 \<Rightarrow> kstate \<Rightarrow> ((rt_err_t, unit) outcome \<times> kstate) option" where
  "rt_sem_take i time s = do {
     is_sem i s;
     if sem_value (sems s i) > 0
     then Some (Returned RT_EOK, set_sem_value i (sem_value (sems s i) - 1) s)
     else if time = 0 then Some (Returned (- RT_ETIMEOUT), s)
     else do {
       rt_assert (preempt_level s = 0);
       RT_DEBUG_IN_THREAD_CONTEXT s;
       t \<leftarrow> rt_thread_self s;
       let s = thread_update t (\<lambda>th. th\<lparr>error := RT_EOK\<rparr>) s;
       s \<leftarrow> ipc_block (IpcSuspend (OSem i)) t (ipc_flag (OSem i) s) time s;
       Some (Blocked (), s) } }"

definition rt_sem_take_wake :: "tid \<Rightarrow> kstate \<Rightarrow> rt_err_t" where
  "rt_sem_take_wake t s =
     (if error (threads s t) \<noteq> RT_EOK then error (threads s t) else RT_EOK)"

definition rt_sem_trytake :: "nat \<Rightarrow> kstate \<Rightarrow> ((rt_err_t, unit) outcome \<times> kstate) option" where
  "rt_sem_trytake i s = rt_sem_take i 0 s"

definition rt_sem_release :: "nat \<Rightarrow> kstate \<Rightarrow> (rt_err_t \<times> kstate) option" where
  "rt_sem_release i s = do {
     is_sem i s;
     if sem_waiters i s \<noteq> [] then do {
       s \<leftarrow> rt_ipc_list_resume (IpcSuspend (OSem i)) s;
       s \<leftarrow> rt_schedule s;
       Some (RT_EOK, s) }
     else Some (RT_EOK, set_sem_value i (sem_value (sems s i) + 1) s) }"

text \<open>The result carries the value that \<^verbatim>\<open>RT_IPC_CMD_GET_STATE\<close> stores through its argument.\<close>

definition rt_sem_control :: "nat \<Rightarrow> ipc_cmd \<Rightarrow> kstate \<Rightarrow> (rt_err_t \<times> u16 option \<times> kstate) option" where
  "rt_sem_control i cmd s = do {
     is_sem i s;
     (case cmd of
        IPC_RESET value \<Rightarrow> do {
          s \<leftarrow> rt_ipc_list_resume_all (IpcSuspend (OSem i)) s;
          s \<leftarrow> rt_schedule (set_sem_value i (ucast value) s);
          Some (RT_EOK, None, s) }
      | IPC_GET_STATE \<Rightarrow> Some (RT_EOK, Some (sem_value (sems s i)), s)
      | IPC_OTHER \<Rightarrow> Some (- RT_ERROR, None, s)) }"

section \<open>Invariants\<close>

definition sem_ok :: "nat \<Rightarrow> kstate \<Rightarrow> bool" where
  "sem_ok i s \<longleftrightarrow> (sem_waiters i s \<noteq> [] \<longrightarrow> sem_value (sems s i) = 0)"

lemma set_sem_value_fields [simp]:
  "sems (set_sem_value i v s) = (sems s)(i := (sems s i)\<lparr>sem_value := v\<rparr>)"
  "thread_lists (set_sem_value i v s) = thread_lists s" "threads (set_sem_value i v s) = threads s"
  "rt_current_thread (set_sem_value i v s) = rt_current_thread s"
  "sched_inv (set_sem_value i v s) = sched_inv s" "objects (set_sem_value i v s) = objects s"
  by (simp_all add: set_sem_value_def)

lemma self_update_error [simp]:
  "sched_inv (thread_update t (\<lambda>th. th\<lparr>error := e\<rparr>) s) = sched_inv s"
  "thread_stat (thread_update t (\<lambda>th. th\<lparr>error := e\<rparr>) s) u = thread_stat s u"
  by (simp_all add: sched_inv_thread_update sched_key_def thread_stat_def threads_update)

lemma rt_sem_take_inv:
  assumes "sched_inv s" "\<And>t. rt_current_thread s = Some t \<Longrightarrow> thread_stat s t = RT_THREAD_READY"
    and "rt_sem_take i time s = Some (r, s')"
  shows "sched_inv s'"
proof -
  consider "sem_value (sems s i) > 0" | "\<not> sem_value (sems s i) > 0" "time = 0"
    | "\<not> sem_value (sems s i) > 0" "time \<noteq> 0" by blast
  then show ?thesis
  proof cases
    case 3
    with assms(3) obtain t where t: "rt_current_thread s = Some t"
      and b: "ipc_block (IpcSuspend (OSem i)) t (ipc_flag (OSem i) (thread_update t (\<lambda>th. th\<lparr>error := RT_EOK\<rparr>) s))
        time (thread_update t (\<lambda>th. th\<lparr>error := RT_EOK\<rparr>) s) = Some s'"
      by (auto simp: rt_sem_take_def bind_Some_iff rt_thread_self_def Let_def)
    from ipc_block_inv [OF _ _ _ b] assms(1) assms(2) [OF t] show ?thesis by simp
  qed (use assms(1,3) in \<open>auto simp: rt_sem_take_def bind_Some_iff\<close>)
qed

lemma rt_sem_release_inv:
  assumes "sched_inv s" "rt_sem_release i s = Some (r, s')"
  shows "sched_inv s'"
proof (cases "sem_waiters i s = []")
  case True
  with assms show ?thesis by (auto simp: rt_sem_release_def bind_Some_iff)
next
  case False
  with assms(2) obtain s1 where "rt_ipc_list_resume (IpcSuspend (OSem i)) s = Some s1" "rt_schedule s1 = Some s'"
    by (auto simp: rt_sem_release_def bind_Some_iff)
  with assms(1) show ?thesis using rt_ipc_list_resume_inv rt_schedule_inv by blast
qed

lemma rt_sem_control_inv:
  assumes "sched_inv s" "rt_sem_control i cmd s = Some (r, v, s')"
  shows "sched_inv s'"
proof (cases cmd)
  case (IPC_RESET w)
  with assms(2) obtain s1 where 1: "rt_ipc_list_resume_all (IpcSuspend (OSem i)) s = Some s1"
    and 2: "rt_schedule (set_sem_value i (ucast w) s1) = Some s'"
    by (auto simp: rt_sem_control_def bind_Some_iff)
  from rt_ipc_list_resume_all_inv [OF 1 assms(1)] rt_schedule_inv [OF _ 2] show ?thesis by simp
qed (use assms in \<open>auto simp: rt_sem_control_def bind_Some_iff\<close>)

lemma rt_sem_detach_inv:
  assumes "sched_inv s" "rt_sem_detach i s = Some (r, s')"
  shows "sched_inv s'"
proof -
  from assms(2) obtain s1 where 1: "rt_ipc_list_resume_all (IpcSuspend (OSem i)) s = Some s1"
    and 2: "s' = rt_object_detach (OSem i) s1"
    by (auto simp: rt_sem_detach_def bind_Some_iff)
  from rt_ipc_list_resume_all_inv [OF 1 assms(1)] 2 show ?thesis by simp
qed

lemma rt_sem_delete_inv:
  assumes "sched_inv s" "rt_sem_delete i s = Some (r, s')"
  shows "sched_inv s'"
proof -
  from assms(2) obtain s1 where 1: "rt_ipc_list_resume_all (IpcSuspend (OSem i)) s = Some s1"
    and 2: "rt_object_delete (OSem i) s1 = Some s'"
    by (auto simp: rt_sem_delete_def bind_Some_iff)
  from rt_ipc_list_resume_all_inv [OF 1 assms(1)] rt_object_delete_inv [OF 2] show ?thesis by simp
qed

section \<open>What the operations do\<close>

text \<open>
  C21: \<^verbatim>\<open>rt_sem_take\<close> on every branch: an available semaphore is counted down and the caller goes on;
  without a unit and without time it fails with \<^verbatim>\<open>-RT_ETIMEOUT\<close> and changes nothing; otherwise the
  caller is suspended at its place in the queue (the end, or behind the waiters of no lower
  priority), its timer is armed for the timeout, and another ready thread runs. Waiters exist only
  while the count is 0.
\<close>

theorem rt_sem_take_result:
  assumes "may_block s t" "sem_ok i s" "is_sem i s = Some ()" "ipc_order (ipc_flag (OSem i) s)"
    and "0 < sint time \<longrightarrow> time < RT_TICK_MAX div 2"
  shows "if sem_value (sems s i) > 0
     then rt_sem_take i time s = Some (Returned RT_EOK, set_sem_value i (sem_value (sems s i) - 1) s) \<and>
       sem_ok i (set_sem_value i (sem_value (sems s i) - 1) s)
     else if time = 0 then rt_sem_take i time s = Some (Returned (- RT_ETIMEOUT), s)
     else \<exists>s' v. rt_sem_take i time s = Some (Blocked (), s') \<and> sys_ok s' \<and> sem_ok i s' \<and>
       sems s' = sems s \<and> thread_stat s' t = RT_THREAD_SUSPEND \<and>
       sem_waiters i s' = queue_insert (ipc_flag (OSem i) s) (\<lambda>u. current_priority (threads s u)) t (sem_waiters i s) \<and>
       rt_current_thread s' = Some v \<and> v \<noteq> t \<and> thread_stat s' v = RT_THREAD_READY \<and>
       (0 < sint time \<longrightarrow> ThreadTimer t \<in> set (rt_timer_list s') \<and>
          timeout_tick (timers s' (ThreadTimer t)) = rt_tick s + time)"
proof (cases "sem_value (sems s i) > 0")
  case True
  with assms(2,3) show ?thesis by (auto simp: rt_sem_take_def sem_ok_def)
next
  case False
  show ?thesis
  proof (cases "time = 0")
    case True
    with False assms(3) show ?thesis by (simp add: rt_sem_take_def)
  next
    case wait: False
    let ?f = "\<lambda>th. th\<lparr>error := RT_EOK\<rparr>"
    obtain s' v where s': "ipc_block (IpcSuspend (OSem i)) t (ipc_flag (OSem i) s) time (thread_update t ?f s) = Some s'"
      "sys_ok s'" "ipc_frame s s'" "thread_stat s' t = RT_THREAD_SUSPEND"
      "sem_waiters i s' = queue_insert (ipc_flag (OSem i) s) (\<lambda>u. current_priority (threads s u)) t (sem_waiters i s)"
      "rt_current_thread s' = Some v" "v \<noteq> t" "thread_stat s' v = RT_THREAD_READY"
      "0 < sint time \<longrightarrow> ThreadTimer t \<in> set (rt_timer_list s') \<and>
          timeout_tick (timers s' (ThreadTimer t)) = rt_tick s + time"
      by (rule ipc_block_call [OF assms(1) _ _ assms(4), of ?f "IpcSuspend (OSem i)" time])
        (use assms(5) in \<open>simp, simp, simp, blast\<close>)
    have "ipc_flag (OSem i) (thread_update t ?f s) = ipc_flag (OSem i) s" by (simp add: ipc_flag_def)
    with s' False wait assms(3) have "rt_sem_take i time s = Some (Blocked (), s')"
      using may_blockD [OF assms(1)] by (simp add: rt_sem_take_def rt_assert_def Let_def)
    moreover have "sem_ok i s'" using False by (simp add: sem_ok_def ipc_frameD [OF s'(3)] word_gt_0)
    ultimately show ?thesis using s' False wait by (auto simp: ipc_frameD [OF s'(3)])
  qed
qed

text \<open>
  C22: \<^verbatim>\<open>rt_sem_release\<close> with waiters gives the unit to the first of them: the count stays 0, that
  thread is ready and will return \<^verbatim>\<open>RT_EOK\<close>, the others keep their order; if the scheduler is free
  and the thread has a higher priority than every ready one, it runs at once.
\<close>

theorem rt_sem_release_hands_over:
  assumes "sys_ok s" "sem_ok i s" "is_sem i s = Some ()" "sem_waiters i s = t # ts"
    and "thread_typed s t" "error (threads s t) = RT_EOK"
  shows "\<exists>s'. rt_sem_release i s = Some (RT_EOK, s') \<and> sys_ok s' \<and> sem_ok i s' \<and> sem_waiters i s' = ts \<and>
    sem_value (sems s' i) = 0 \<and> thread_stat s' t = RT_THREAD_READY \<and> rt_sem_take_wake t s' = RT_EOK \<and>
    (preempt_level s = 0 \<and> rt_interrupt_get_nest s = 0 \<and>
     (\<forall>u. thread_stat s u = RT_THREAD_READY \<longrightarrow> current_priority (threads s t) < current_priority (threads s u))
       \<longrightarrow> rt_current_thread s' = Some t)"
proof -
  obtain s1 s' where s': "rt_ipc_list_resume (IpcSuspend (OSem i)) s = Some s1" "rt_schedule s1 = Some s'"
    "sys_ok s'" "ipc_frame s s'" "thread_stat s' t = RT_THREAD_READY" "sem_waiters i s' = ts"
    "error (threads s' t) = error (threads s t)"
    and hd: "preempt_level s = 0 \<Longrightarrow> rt_interrupt_get_nest s = 0 \<Longrightarrow>
       \<forall>u. thread_stat s u = RT_THREAD_READY \<longrightarrow> current_priority (threads s t) < current_priority (threads s u) \<Longrightarrow>
       rt_current_thread s' = Some t"
    by (rule resume_schedule_effect [OF assms(1) _ assms(4)])
      (use assms(5) in \<open>auto simp: thread_typed_def\<close>)
  have "sem_value (sems s' i) = 0" using assms(2,4) by (simp add: sem_ok_def ipc_frameD [OF s'(4)])
  with s' hd assms(3,4,6) show ?thesis
    by (auto simp: rt_sem_release_def rt_sem_take_wake_def sem_ok_def)
qed

section \<open>Units are conserved\<close>





end
