(* ===== verification/RTT_Mutex.thy ===== *)
theory RTT_Mutex
  imports RTT_Sem
begin

text \<open>
  Mutexes (\<^verbatim>\<open>ipc.c\<close>): recursive locks owned by a thread, with priority inheritance. The value is 1
  when the mutex is free. Interrupts are off where \<^verbatim>\<open>rt_thread_control\<close> is called.
\<close>

definition mutex_update :: "nat \<Rightarrow> (rt_mutex \<Rightarrow> rt_mutex) \<Rightarrow> kstate \<Rightarrow> kstate" where
  "mutex_update i f s = s\<lparr>mutexes := (mutexes s)(i := f (mutexes s i))\<rparr>"

definition is_mutex :: "nat \<Rightarrow> kstate \<Rightarrow> unit option" where
  "is_mutex i s = rt_assert (rt_object_get_type (OMutex i) s = RT_Object_Class_Mutex)"

abbreviation mutex_waiters :: "nat \<Rightarrow> kstate \<Rightarrow> tid list" where
  "mutex_waiters i s \<equiv> thread_lists s (IpcSuspend (OMutex i))"

definition free_mutex :: rt_mutex where
  "free_mutex = \<lparr>mutex_value = 1, original_priority = 0xff, hold = 0, owner = None\<rparr>"

definition rt_mutex_init :: "nat \<Rightarrow> string \<Rightarrow> u8 \<Rightarrow> kstate \<Rightarrow> (rt_err_t \<times> kstate) option" where
  "rt_mutex_init i name flag s = do {
     s \<leftarrow> rt_object_init (OMutex i) RT_Object_Class_Mutex name s;
     let s = rt_ipc_object_init (OMutex i) s;
     let s = mutex_update i (\<lambda>_. free_mutex) s;
     Some (RT_EOK, set_ipc_flag (OMutex i) flag s) }"

definition rt_mutex_detach :: "nat \<Rightarrow> kstate \<Rightarrow> (rt_err_t \<times> kstate) option" where
  "rt_mutex_detach i s = do {
     is_mutex i s;
     rt_assert (rt_object_is_systemobject (OMutex i) s);
     s \<leftarrow> rt_ipc_list_resume_all (IpcSuspend (OMutex i)) s;
     Some (RT_EOK, rt_object_detach (OMutex i) s) }"

definition rt_mutex_create :: "string \<Rightarrow> u8 \<Rightarrow> nat option \<Rightarrow> kstate \<Rightarrow> (nat option \<times> kstate) option" where
  "rt_mutex_create name flag mem s = do {
     RT_DEBUG_NOT_IN_INTERRUPT s;
     (x, s) \<leftarrow> rt_object_allocate RT_Object_Class_Mutex name (map_option OMutex mem) s;
     (case x of
        Some (OMutex i) \<Rightarrow>
          Some (Some i, set_ipc_flag (OMutex i) flag
                  (mutex_update i (\<lambda>_. free_mutex) (rt_ipc_object_init (OMutex i) s)))
      | _ \<Rightarrow> Some (None, s)) }"

definition rt_mutex_delete :: "nat \<Rightarrow> kstate \<Rightarrow> (rt_err_t \<times> kstate) option" where
  "rt_mutex_delete i s = do {
     RT_DEBUG_NOT_IN_INTERRUPT s;
     is_mutex i s;
     rt_assert (\<not> rt_object_is_systemobject (OMutex i) s);
     s \<leftarrow> rt_ipc_list_resume_all (IpcSuspend (OMutex i)) s;
     s \<leftarrow> rt_object_delete (OMutex i) s;
     Some (RT_EOK, s) }"

text \<open>The three conditional calls of \<^verbatim>\<open>rt_thread_control\<close> that change a priority.\<close>

definition change_priority_if :: "bool \<Rightarrow> tid \<Rightarrow> u8 \<Rightarrow> kstate \<Rightarrow> kstate option" where
  "change_priority_if b t p s =
     (if b then map_option snd (rt_thread_control True t (CHANGE_PRIORITY p) s) else Some s)"

text \<open>The code from the label \<^verbatim>\<open>__again\<close> on.\<close>

definition mutex_take_again ::
  "nat \<Rightarrow> tid \<Rightarrow> u32 \<Rightarrow> kstate \<Rightarrow> ((rt_err_t, unit) outcome \<times> kstate) option" where
  "mutex_take_again i t time s =
     (if mutex_value (mutexes s i) > 0
      then Some (Returned RT_EOK,
             mutex_update i (\<lambda>m. m\<lparr>mutex_value := mutex_value m - 1, owner := Some t,
               original_priority := current_priority (threads s t), hold := hold m + 1\<rparr>) s)
      else if time = 0
      then Some (Returned (- RT_ETIMEOUT), thread_update t (\<lambda>th. th\<lparr>error := - RT_ETIMEOUT\<rparr>) s)
      else do {
        rt_assert (preempt_level s = 0);
        own \<leftarrow> owner (mutexes s i);
        s \<leftarrow> change_priority_if (current_priority (threads s t) < current_priority (threads s own))
               own (current_priority (threads s t)) s;
        s \<leftarrow> ipc_block (IpcSuspend (OMutex i)) t (ipc_flag (OMutex i) s) time s;
        Some (Blocked (), s) })"

definition rt_mutex_take :: "nat \<Rightarrow> u32 \<Rightarrow> kstate \<Rightarrow> ((rt_err_t, unit) outcome \<times> kstate) option" where
  "rt_mutex_take i time s = do {
     RT_DEBUG_IN_THREAD_CONTEXT s;
     is_mutex i s;
     t \<leftarrow> rt_thread_self s;
     let s = thread_update t (\<lambda>th. th\<lparr>error := RT_EOK\<rparr>) s;
     if owner (mutexes s i) = Some t
     then Some (Returned RT_EOK, mutex_update i (\<lambda>m. m\<lparr>hold := hold m + 1\<rparr>) s)
     else mutex_take_again i t time s }"

definition rt_mutex_take_wake ::
  "nat \<Rightarrow> tid \<Rightarrow> u32 \<Rightarrow> kstate \<Rightarrow> ((rt_err_t, unit) outcome \<times> kstate) option" where
  "rt_mutex_take_wake i t time s =
     (if error (threads s t) \<noteq> RT_EOK
      then if error (threads s t) = - RT_EINTR then mutex_take_again i t time s
           else Some (Returned (error (threads s t)), s)
      else Some (Returned RT_EOK, s))"

text \<open>The part of \<^verbatim>\<open>rt_mutex_release\<close> that makes the first waiter \<open>w\<close> the owner and resumes it.\<close>

definition mutex_hand_over :: "nat \<Rightarrow> tid \<Rightarrow> kstate \<Rightarrow> kstate option" where
  "mutex_hand_over i w s = do {
     let s = mutex_update i (\<lambda>m. m\<lparr>owner := Some w,
               original_priority := current_priority (threads s w), hold := hold m + 1\<rparr>) s;
     let max_priority_in_queue = rt_ipc_get_highest_priority (IpcSuspend (OMutex i)) s;
     s \<leftarrow> change_priority_if (ipc_flag (OMutex i) s = RT_IPC_FLAG_FIFO \<and>
             current_priority (threads s w) \<noteq> max_priority_in_queue) w max_priority_in_queue s;
     rt_ipc_list_resume (IpcSuspend (OMutex i)) s }"

definition rt_mutex_release :: "nat \<Rightarrow> kstate \<Rightarrow> (rt_err_t \<times> kstate) option" where
  "rt_mutex_release i s = do {
     is_mutex i s;
     RT_DEBUG_IN_THREAD_CONTEXT s;
     t \<leftarrow> rt_thread_self s;
     if owner (mutexes s i) \<noteq> Some t
     then Some (- RT_ERROR, thread_update t (\<lambda>th. th\<lparr>error := - RT_ERROR\<rparr>) s)
     else do {
       let s = mutex_update i (\<lambda>m. m\<lparr>hold := hold m - 1\<rparr>) s;
       if hold (mutexes s i) = 0
       then do {
         s \<leftarrow> change_priority_if (original_priority (mutexes s i) \<noteq> current_priority (threads s t))
                t (original_priority (mutexes s i)) s;
         (case mutex_waiters i s of
            w # _ \<Rightarrow> do {
              s \<leftarrow> mutex_hand_over i w s;
              s \<leftarrow> rt_schedule s;
              Some (RT_EOK, s) }
          | [] \<Rightarrow>
              Some (RT_EOK, mutex_update i (\<lambda>m. m\<lparr>mutex_value := mutex_value m + 1, owner := None,
                                               original_priority := 0xff\<rparr>) s)) }
       else Some (RT_EOK, s) } }"

definition rt_mutex_control :: "nat \<Rightarrow> ipc_cmd \<Rightarrow> kstate \<Rightarrow> (rt_err_t \<times> kstate) option" where
  "rt_mutex_control i cmd s = do { is_mutex i s; Some (- RT_ERROR, s) }"

section \<open>Changing a priority\<close>

lemma stat_eq_ready: "st AND RT_THREAD_STAT_MASK = RT_THREAD_READY \<Longrightarrow> ready_stat st = st"
proof -
  assume *: "st AND RT_THREAD_STAT_MASK = RT_THREAD_READY"
  have "ready_stat st = (st AND RT_THREAD_STAT_MASK) OR (st AND NOT RT_THREAD_STAT_MASK)"
    unfolding ready_stat_def * ..
  also have "\<dots> = st" by (rule bit_eqI) (auto simp: bit_simps)
  finally show ?thesis .
qed

text \<open>Only the priority, its mask and, for a ready thread, its ready list change.\<close>

lemma change_priority_effect:
  assumes inv: "sched_inv s" and ty: "is_thread t s = Some ()" and p: "unat p < RT_THREAD_PRIORITY_MAX"
  obtains s' where "rt_thread_control irq t (CHANGE_PRIORITY p) s = Some (RT_EOK, s')" "sched_inv s'"
    "ipc_frame s s'"
    "\<exists>l. threads s' = (threads s)(t := (threads s t)\<lparr>current_priority := p,
        number_mask := push_bit (unat p) 1, tlist := l\<rparr>)"
    "\<And>h. wait_head h \<Longrightarrow> thread_lists s' h = thread_lists s h"
    "rt_current_thread s' = rt_current_thread s" "timers s' = timers s" "objects s' = objects s"
proof (cases "thread_stat s t = RT_THREAD_READY")
  case False
  let ?s' = "thread_update t (\<lambda>th. th\<lparr>current_priority := p, number_mask := push_bit (unat p) 1\<rparr>) s"
  have call: "rt_thread_control irq t (CHANGE_PRIORITY p) s = Some (RT_EOK, ?s')"
    using ty p False by (simp add: rt_thread_control_def rt_assert_def Let_def)
  have l: "(threads s t)\<lparr>tlist := tlist (threads s t)\<rparr> = threads s t" by simp
  show thesis
  proof (rule that [OF call rt_thread_control_inv [OF inv call]])
    show "\<exists>l. threads ?s' = (threads s)(t := (threads s t)\<lparr>current_priority := p,
        number_mask := push_bit (unat p) 1, tlist := l\<rparr>)"
      by (rule exI [of _ "tlist (threads s t)"]) (simp add: thread_update_def)
  qed simp_all
next
  case True
  let ?change = "thread_update t (\<lambda>th. th\<lparr>current_priority := p, number_mask := push_bit (unat p) 1\<rparr>)"
  obtain s1 where r: "rt_schedule_remove_thread t s = Some s1"
    and th: "threads s1 = (threads s)(t := (threads s t)\<lparr>tlist := None\<rparr>)"
    and li: "\<And>h. thread_lists s1 h = remove1 t (thread_lists s h)"
    by (rule rt_schedule_remove_thread_inv [OF sched_inv_but [OF inv] sched_inv_prio_weak [OF inv]
          ready_mask_nonzero [OF inv]]) blast
  have un: "tlist (threads (?change s1) t) = None" and pk: "prio_ok (threads (?change s1) t)"
    using p by (simp_all add: th prio_ok_def)
  obtain s' where i: "rt_schedule_insert_thread t (?change s1) = Some s'"
    using rt_schedule_insert_thread_eq [OF un pk] by simp
  note eq = i [unfolded rt_schedule_insert_thread_eq [OF un pk], symmetric, simplified]
  have call: "rt_thread_control irq t (CHANGE_PRIORITY p) s = Some (RT_EOK, s')"
    using ty p True r i by (simp add: rt_thread_control_def rt_assert_def Let_def)
  have st: "ready_stat (stat (threads s t)) = stat (threads s t)"
    using True by (intro stat_eq_ready) (simp add: thread_stat_def)
  have w: "remove1 t (thread_lists s h) = thread_lists s h" if "wait_head h" for h
    using wait_head_suspended [OF inv that, of t] True by (auto intro: remove1_idem)
  show thesis
  proof (rule that [OF call rt_thread_control_inv [OF inv call]])
    show "\<exists>l. threads s' = (threads s)(t := (threads s t)\<lparr>current_priority := p,
        number_mask := push_bit (unat p) 1, tlist := l\<rparr>)"
      by (rule exI [of _ "Some (ReadyList (unat p))"]) (simp add: eq thread_update_def th st)
    show "thread_lists s' h = thread_lists s h" if "wait_head h" for h
      using w [OF that] that by (auto simp: eq li)
    show "ipc_frame s s'"
      using rt_schedule_remove_thread_frame [OF r] rt_schedule_insert_thread_frame [OF i]
        ipc_frame_thread_fields(7) by (blast intro: ipc_frame_trans)
  qed (use rt_schedule_remove_thread_frame [OF r] rt_schedule_insert_thread_frame [OF i] in simp_all)
qed



section \<open>The lock that a mutex implements\<close>








lemma mutex_update_fields [simp]:
  "mutexes (mutex_update i f s) = (mutexes s)(i := f (mutexes s i))"
  "threads (mutex_update i f s) = threads s" "thread_lists (mutex_update i f s) = thread_lists s"
  "rt_current_thread (mutex_update i f s) = rt_current_thread s" "objects (mutex_update i f s) = objects s"
  "sched_inv (mutex_update i f s) = sched_inv s" "timers (mutex_update i f s) = timers s"
  "rt_tick (mutex_update i f s) = rt_tick s"
  by (simp_all add: mutex_update_def)










section \<open>Priority inheritance\<close>

text \<open>A state that differs from another in the priority of the thread \<open>u\<close> and its ready queue.\<close>

definition prio_change :: "tid \<Rightarrow> u8 \<Rightarrow> kstate \<Rightarrow> kstate \<Rightarrow> bool" where
  "prio_change u p s s' \<longleftrightarrow> sched_inv s' \<and> ipc_frame s s' \<and>
     (\<exists>m l. threads s' = (threads s)(u := (threads s u)\<lparr>current_priority := p, number_mask := m, tlist := l\<rparr>)) \<and>
     (\<forall>h. wait_head h \<longrightarrow> thread_lists s' h = thread_lists s h) \<and>
     rt_current_thread s' = rt_current_thread s \<and> timers s' = timers s \<and> objects s' = objects s"

lemma change_priority_if_effect:
  assumes inv: "sched_inv s" and ty: "is_thread u s = Some ()" and p: "unat p < RT_THREAD_PRIORITY_MAX"
  obtains s' where "change_priority_if b u p s = Some s'"
    "prio_change u (if b then p else current_priority (threads s u)) s s'"
proof (cases b)
  case True
  obtain s' where s': "rt_thread_control True u (CHANGE_PRIORITY p) s = Some (RT_EOK, s')" "sched_inv s'"
    "ipc_frame s s'"
    "\<exists>l. threads s' = (threads s)(u := (threads s u)\<lparr>current_priority := p, number_mask := push_bit (unat p) 1, tlist := l\<rparr>)"
    "\<And>h. wait_head h \<Longrightarrow> thread_lists s' h = thread_lists s h"
    "rt_current_thread s' = rt_current_thread s" "timers s' = timers s" "objects s' = objects s"
    by (rule change_priority_effect [OF inv ty p]) blast
  have "prio_change u p s s'" unfolding prio_change_def using s' by blast
  with s'(1) True that [of s'] show thesis by (simp add: change_priority_if_def)
next
  case False
  have "threads s = (threads s)(u := (threads s u)\<lparr>current_priority := current_priority (threads s u),
      number_mask := number_mask (threads s u), tlist := tlist (threads s u)\<rparr>)"
    by simp
  then have "prio_change u (current_priority (threads s u)) s s"
    unfolding prio_change_def using inv ipc_frame_refl by blast
  with False that [of s] show thesis by (simp add: change_priority_if_def)
qed

lemma prio_changeD:
  assumes "prio_change u p s s'"
  shows "sched_inv s'" "ipc_frame s s'" "wait_head h \<Longrightarrow> thread_lists s' h = thread_lists s h"
    "rt_current_thread s' = rt_current_thread s" "current_priority (threads s' u) = p"
    "v \<noteq> u \<Longrightarrow> threads s' v = threads s v" "thread_stat s' v = thread_stat s v"
    "error (threads s' v) = error (threads s v)" "thread_typed s' v = thread_typed s v"
    "preempt_level s' = preempt_level s" "rt_interrupt_get_nest s' = rt_interrupt_get_nest s"
    "sys_ok s \<Longrightarrow> sys_ok s'" "ipc_flag x s' = ipc_flag x s"
proof -
  from assms obtain m l where th: "threads s' = (threads s)(u := (threads s u)\<lparr>current_priority := p,
      number_mask := m, tlist := l\<rparr>)" by (auto simp: prio_change_def)
  show inv: "sched_inv s'" "ipc_frame s s'" "rt_current_thread s' = rt_current_thread s"
    "wait_head h \<Longrightarrow> thread_lists s' h = thread_lists s h"
    using assms by (auto simp: prio_change_def)
  show st: "thread_stat s' v = thread_stat s v" for v by (simp add: th thread_stat_def)
  show "current_priority (threads s' u) = p" "v \<noteq> u \<Longrightarrow> threads s' v = threads s v"
    "error (threads s' v) = error (threads s v)" by (simp_all add: th)
  show "thread_typed s' v = thread_typed s v" "ipc_flag x s' = ipc_flag x s"
    using assms by (auto simp: prio_change_def thread_typed_def is_thread_def is_timer_def
        rt_object_get_type_def timer_flag_def ipc_flag_def)
  show "preempt_level s' = preempt_level s" "rt_interrupt_get_nest s' = rt_interrupt_get_nest s"
    using preempt_cong [OF inv(3)] by (simp_all add: th)
  show "sys_ok s'" if "sys_ok s"
    using that inv st by (simp add: sys_ok_def stacks_ok_def th rt_scheduler_stack_check_def)
qed

lemma prio_insert_cong:
  "(\<And>u. u \<in> insert t (set us) \<Longrightarrow> prio u = prio' u) \<Longrightarrow> prio_insert prio t us = prio_insert prio' t us"
  by (induction us) auto

lemma queue_insert_cong:
  "(\<And>u. u \<in> insert t (set us) \<Longrightarrow> prio u = prio' u) \<Longrightarrow> queue_insert f prio t us = queue_insert f prio' t us"
  using prio_insert_cong [of t us prio prio'] by (simp add: queue_insert_def)

text \<open>
  C23: A thread that blocks on a mutex lends its priority to the owner: the owner continues with the
  higher of the two priorities, the caller waits at its place in the queue with its timer armed,
  the mutex is unchanged and another thread runs.
\<close>

theorem rt_mutex_take_inherits:
  assumes mb: "may_block s t" and mtx: "is_mutex i s = Some ()" and flag: "ipc_order (ipc_flag (OMutex i) s)"
    and own: "owner (mutexes s i) = Some u" "u \<noteq> t" "is_thread u s = Some ()" "u \<notin> set (mutex_waiters i s)"
    and busy: "mutex_value (mutexes s i) = 0" and time: "time \<noteq> 0" "0 < sint time \<longrightarrow> time < RT_TICK_MAX div 2"
  shows "\<exists>s' v. rt_mutex_take i time s = Some (Blocked (), s') \<and> sys_ok s' \<and> mutexes s' = mutexes s \<and>
    current_priority (threads s' u) = min (current_priority (threads s t)) (current_priority (threads s u)) \<and>
    thread_stat s' t = RT_THREAD_SUSPEND \<and> rt_current_thread s' = Some v \<and> v \<noteq> t \<and>
    thread_stat s' v = RT_THREAD_READY \<and>
    mutex_waiters i s' = queue_insert (ipc_flag (OMutex i) s) (\<lambda>v. current_priority (threads s v)) t (mutex_waiters i s) \<and>
    (0 < sint time \<longrightarrow> ThreadTimer t \<in> set (rt_timer_list s') \<and>
       timeout_tick (timers s' (ThreadTimer t)) = rt_tick s + time)"
proof -
  let ?f = "\<lambda>th. th\<lparr>error := RT_EOK\<rparr>"
  let ?s0 = "thread_update t ?f s" and ?b = "current_priority (threads s t) < current_priority (threads s u)"
  have inv: "sched_inv s" using may_blockD(1) [OF mb] by (simp add: sys_ok_def)
  have p: "unat (current_priority (threads s t)) < RT_THREAD_PRIORITY_MAX"
    using sched_inv_prio_weak [OF inv, of t] by (simp add: prio_weak_def)
  have mb0: "may_block ?s0 t" using mb by (simp add: may_block_update)
  have ty0: "is_thread u ?s0 = Some ()" using own(3) ipc_frameD(11) [OF ipc_frame_thread_fields(7)] by metis
  have inv0: "sched_inv ?s0" using inv by simp
  obtain s1 where c: "change_priority_if ?b u (current_priority (threads s t)) ?s0 = Some s1"
    and pc: "prio_change u (if ?b then current_priority (threads s t) else current_priority (threads ?s0 u)) ?s0 s1"
    by (rule change_priority_if_effect [OF inv0 ty0 p]) blast
  note d = prio_changeD [OF pc]
  have mb1: "may_block s1 t"
    using mb0 by (simp add: may_block_def d(4,7,9,10,11,12))
  have fl: "ipc_flag (OMutex i) s1 = ipc_flag (OMutex i) s" by (simp add: d(13)) (simp add: ipc_flag_def)
  have wl: "mutex_waiters i s1 = mutex_waiters i s" by (simp add: d(3))
  have cp: "current_priority (threads s1 v) = current_priority (threads s v)" if "v \<noteq> u" for v
    using that d(6) [of v] by (simp add: threads_update)
  have cu: "current_priority (threads s1 u) = min (current_priority (threads s t)) (current_priority (threads s u))"
    using own(2) by (auto simp: d(5) min_def)
  have fr1: "ipc_frame s s1" by (rule ipc_frame_trans [OF ipc_frame_thread_fields(7) d(2)])
  have id: "thread_update t id s1 = s1" by (simp add: thread_update_def)
  obtain s' v where s': "ipc_block (IpcSuspend (OMutex i)) t (ipc_flag (OMutex i) s) time s1 = Some s'"
    "sys_ok s'" "ipc_frame s1 s'" "thread_stat s' t = RT_THREAD_SUSPEND"
    "mutex_waiters i s' = queue_insert (ipc_flag (OMutex i) s) (\<lambda>u. current_priority (threads s1 u)) t (mutex_waiters i s)"
    "rt_current_thread s' = Some v" "v \<noteq> t" "thread_stat s' v = RT_THREAD_READY"
    and cp': "\<And>u. current_priority (threads s' u) = current_priority (threads s1 u)"
    and tm: "0 < sint time \<longrightarrow> ThreadTimer t \<in> set (rt_timer_list s') \<and>
       timeout_tick (timers s' (ThreadTimer t)) = rt_tick s1 + time"
    by (rule ipc_block_call [OF mb1 private_update_steps(4) _ flag, of "IpcSuspend (OMutex i)" time, unfolded id wl])
      (use time(2) in \<open>simp, simp, blast\<close>)
  have "rt_mutex_take i time s = Some (Blocked (), s')"
    using mtx own busy time(1) c s'(1) may_blockD [OF mb] may_blockD(2) [OF mb0]
    by (simp add: rt_mutex_take_def mutex_take_again_def Let_def rt_assert_def fl threads_update)
  moreover have "queue_insert (ipc_flag (OMutex i) s) (\<lambda>u. current_priority (threads s1 u)) t (mutex_waiters i s)
      = queue_insert (ipc_flag (OMutex i) s) (\<lambda>u. current_priority (threads s u)) t (mutex_waiters i s)"
    by (rule queue_insert_cong, rule cp) (use own in auto)
  moreover have "mutexes s' = mutexes s" using ipc_frameD(2) [OF s'(3)] ipc_frameD(2) [OF fr1] by simp
  ultimately show ?thesis using s' cp' cu tm ipc_frameD(7) [OF fr1] by auto
qed

lemma sys_ok_mutex_update [simp]: "sys_ok (mutex_update i f s) = sys_ok s"
  by (simp add: sys_ok_def stacks_ok_def thread_stat_def)

lemma queue_min:
  assumes "sched_inv s" "thread_lists s h = w # ws"
  shows "rt_ipc_get_highest_priority h s = Min ((\<lambda>t. current_priority (threads s t)) ` set (w # ws))"
    "unat (rt_ipc_get_highest_priority h s) < RT_THREAD_PRIORITY_MAX"
proof -
  have p: "current_priority (threads s t) \<le> of_nat (RT_THREAD_PRIORITY_MAX - 1)" for t
    using sched_inv_prio_weak [OF assms(1), of t] by (simp add: prio_weak_def word_le_nat_alt RT_THREAD_PRIORITY_MAX_def)
  let ?S = "(\<lambda>t. current_priority (threads s t)) ` set (w # ws)"
  have m: "Min ?S \<in> ?S" by (rule Min_in) auto
  then have "Min ?S \<le> of_nat (RT_THREAD_PRIORITY_MAX - 1)" using p by auto
  then show eq: "rt_ipc_get_highest_priority h s = Min ?S"
    unfolding rt_ipc_get_highest_priority_Min assms(2) by (simp add: min_absorb2 del: set_simps image_insert)
  show "unat (rt_ipc_get_highest_priority h s) < RT_THREAD_PRIORITY_MAX"
    unfolding eq using m sched_inv_prio_weak [OF assms(1)] by (auto simp: prio_weak_def)
qed

lemma mutex_hand_over_effect:
  assumes ok: "sys_ok s" and ws: "mutex_waiters i s = w # ws" and ty: "thread_typed s w"
  obtains s1 s' where "mutex_hand_over i w s = Some s1" "rt_schedule s1 = Some s'" "sys_ok s'"
    "mutex_waiters i s' = ws" "thread_stat s' w = RT_THREAD_READY" "error (threads s' w) = error (threads s w)"
    "current_priority (threads s' w) = (if ipc_flag (OMutex i) s = RT_IPC_FLAG_FIFO
       then Min ((\<lambda>t. current_priority (threads s t)) ` set (w # ws)) else current_priority (threads s w))"
    "\<And>v. v \<noteq> w \<Longrightarrow> current_priority (threads s' v) = current_priority (threads s v)"
    "mutexes s' = (mutexes s)(i := (mutexes s i)\<lparr>owner := Some w,
       original_priority := current_priority (threads s w), hold := hold (mutexes s i) + 1\<rparr>)"
proof -
  let ?s0 = "mutex_update i (\<lambda>m. m\<lparr>owner := Some w,
               original_priority := current_priority (threads s w), hold := hold m + 1\<rparr>) s"
  let ?max = "rt_ipc_get_highest_priority (IpcSuspend (OMutex i)) s"
  have inv: "sched_inv s" using ok by (simp add: sys_ok_def)
  have max0: "rt_ipc_get_highest_priority (IpcSuspend (OMutex i)) ?s0 = ?max"
    by (simp add: rt_ipc_get_highest_priority_Min)
  let ?b = "ipc_flag (OMutex i) s = RT_IPC_FLAG_FIFO \<and> current_priority (threads s w) \<noteq> ?max"
  have inv0: "sched_inv ?s0" using inv by simp
  have ty0: "is_thread w ?s0 = Some ()" using ty by (simp add: thread_typed_def is_thread_def rt_object_get_type_def)
  obtain s1 where c: "change_priority_if ?b w ?max ?s0 = Some s1"
    and pc: "prio_change w (if ?b then ?max else current_priority (threads ?s0 w)) ?s0 s1"
    by (rule change_priority_if_effect [OF inv0 ty0 queue_min(2) [OF inv ws]]) blast
  note d = prio_changeD [OF pc]
  have ok1: "sys_ok s1" using d(12) ok by simp
  have ws1: "mutex_waiters i s1 = w # ws" using ws by (simp add: d(3))
  have "thread_typed s1 w" unfolding d(9) using ty
    by (simp add: thread_typed_def is_thread_def is_timer_def rt_object_get_type_def timer_flag_def)
  then have ty1: "is_thread w s1 = Some ()" "is_timer (ThreadTimer w) s1 = Some ()"
    by (simp_all add: thread_typed_def)
  obtain s2 s' where s': "rt_ipc_list_resume (IpcSuspend (OMutex i)) s1 = Some s2" "rt_schedule s2 = Some s'"
    "sys_ok s'" "ipc_frame s1 s'" "thread_stat s' w = RT_THREAD_READY" "mutex_waiters i s' = ws"
    "error (threads s' w) = error (threads s1 w)"
    and cp: "\<And>u. current_priority (threads s' u) = current_priority (threads s1 u)"
    by (rule resume_schedule_effect [OF ok1 _ ws1 ty1]) (simp, blast)
  have call: "mutex_hand_over i w s = Some s2"
    using c s'(1) by (simp add: mutex_hand_over_def Let_def max0 ipc_flag_def)
  have cw: "current_priority (threads s' w) = (if ipc_flag (OMutex i) s = RT_IPC_FLAG_FIFO
       then Min ((\<lambda>t. current_priority (threads s t)) ` set (w # ws)) else current_priority (threads s w))"
    unfolding cp d(5) using queue_min(1) [OF inv ws] by auto
  have co: "current_priority (threads s' v) = current_priority (threads s v)" if "v \<noteq> w" for v
    using d(6) [OF that] by (simp add: cp)
  have er: "error (threads s' w) = error (threads s w)" using s'(7) by (simp add: d(8))
  have "mutexes s' = mutexes s1" by (rule ipc_frameD(2) [OF s'(4)])
  moreover have "mutexes s1 = mutexes ?s0" by (rule ipc_frameD(2) [OF d(2)])
  ultimately have m: "mutexes s' = (mutexes s)(i := (mutexes s i)\<lparr>owner := Some w,
       original_priority := current_priority (threads s w), hold := hold (mutexes s i) + 1\<rparr>)" by simp
  show thesis by (rule that [OF call s'(2,3,6,5) er cw co m])
qed

text \<open>
  C24: The last \<^verbatim>\<open>rt_mutex_release\<close> of the owner gives it back the priority it had when it took the
  mutex, makes the first waiter the owner with hold count 1 and its own priority on record, and
  makes it ready; in a FIFO queue the new owner runs with the highest priority that was waiting.
  With no waiter the mutex is free.
\<close>

theorem rt_mutex_release_passes_on:
  assumes ok: "sys_ok s" and nest: "rt_interrupt_get_nest s = 0" and mtx: "is_mutex i s = Some ()"
    and cur: "rt_current_thread s = Some t" "thread_stat s t = RT_THREAD_READY" "thread_typed s t"
    and own: "owner (mutexes s i) = Some t" "hold (mutexes s i) = 1" "mutex_value (mutexes s i) = 0"
      "unat (original_priority (mutexes s i)) < RT_THREAD_PRIORITY_MAX"
    and ty: "\<forall>w\<in>set (mutex_waiters i s). thread_typed s w"
  shows "\<exists>s'. rt_mutex_release i s = Some (RT_EOK, s') \<and> sys_ok s' \<and>
    current_priority (threads s' t) = original_priority (mutexes s i) \<and>
    (case mutex_waiters i s of
       [] \<Rightarrow> mutexes s' i = free_mutex
     | w # ws \<Rightarrow> mutexes s' i = \<lparr>mutex_value = 0, original_priority = current_priority (threads s w),
           hold = 1, owner = Some w\<rparr> \<and>
         mutex_waiters i s' = ws \<and> thread_stat s' w = RT_THREAD_READY \<and>
         error (threads s' w) = error (threads s w) \<and>
         current_priority (threads s' w) = (if ipc_flag (OMutex i) s = RT_IPC_FLAG_FIFO
           then Min ((\<lambda>t. current_priority (threads s t)) ` set (w # ws)) else current_priority (threads s w)))"
proof -
  let ?s0 = "mutex_update i (\<lambda>m. m\<lparr>hold := hold m - 1\<rparr>) s"
  let ?b = "original_priority (mutexes s i) \<noteq> current_priority (threads s t)"
  have inv0: "sched_inv ?s0" using ok by (simp add: sys_ok_def)
  have ty0: "is_thread t ?s0 = Some ()" using cur(3) by (simp add: thread_typed_def is_thread_def rt_object_get_type_def)
  obtain s1 where c: "change_priority_if ?b t (original_priority (mutexes s i)) ?s0 = Some s1"
    and pc: "prio_change t (if ?b then original_priority (mutexes s i) else current_priority (threads ?s0 t)) ?s0 s1"
    by (rule change_priority_if_effect [OF inv0 ty0 own(4)]) blast
  note d = prio_changeD [OF pc]
  have ok1: "sys_ok s1" using d(12) ok by simp
  have ct: "current_priority (threads s1 t) = original_priority (mutexes s i)" by (simp add: d(5))
  have m1: "mutexes s1 = (mutexes s)(i := (mutexes s i)\<lparr>hold := 0\<rparr>)"
    using ipc_frameD(2) [OF d(2)] own(2) by simp
  have ws1: "mutex_waiters i s1 = mutex_waiters i s" by (simp add: d(3))
  have ctx: "RT_DEBUG_IN_THREAD_CONTEXT s = Some ()" "rt_thread_self s = Some t"
    using cur(1) nest by (simp_all add: RT_DEBUG_IN_THREAD_CONTEXT_def RT_DEBUG_NOT_IN_INTERRUPT_def
        rt_thread_self_def rt_assert_def)
  note rel = mtx ctx own(1,2) c
  show ?thesis
  proof (cases "mutex_waiters i s")
    case Nil
    have "(mutexes s i)\<lparr>mutex_value := 1, original_priority := 0xff, hold := 0, owner := None\<rparr> = free_mutex"
      by (simp add: free_mutex_def)
    with rel Nil ok1 ct show ?thesis
      by (simp add: rt_mutex_release_def ws1 m1 own(3) free_mutex_def)
  next
    case (Cons w ws)
    have tw: "t \<noteq> w"
      using wait_head_suspended [of s "IpcSuspend (OMutex i)" w] ok cur(2) Cons by (auto simp: sys_ok_def)
    have others: "current_priority (threads s1 v) = current_priority (threads s v)" if "v \<noteq> t" for v
      using d(6) [OF that] by simp
    have tnot: "t \<notin> set (w # ws)"
      using wait_head_suspended [of s "IpcSuspend (OMutex i)" t] ok cur(2) Cons by (auto simp: sys_ok_def)
    have fl: "ipc_flag (OMutex i) s1 = ipc_flag (OMutex i) s" by (simp add: d(13)) (simp add: ipc_flag_def)
    have tyw: "thread_typed s1 w" unfolding d(9) using ty Cons
      by (simp add: thread_typed_def is_thread_def is_timer_def rt_object_get_type_def timer_flag_def)
    obtain s2 s' where s': "mutex_hand_over i w s1 = Some s2" "rt_schedule s2 = Some s'" "sys_ok s'"
      "mutex_waiters i s' = ws" "thread_stat s' w = RT_THREAD_READY" "error (threads s' w) = error (threads s1 w)"
      and cw: "current_priority (threads s' w) = (if ipc_flag (OMutex i) s1 = RT_IPC_FLAG_FIFO
         then Min ((\<lambda>t. current_priority (threads s1 t)) ` set (w # ws)) else current_priority (threads s1 w))"
      and co: "\<And>v. v \<noteq> w \<Longrightarrow> current_priority (threads s' v) = current_priority (threads s1 v)"
      and m: "mutexes s' = (mutexes s1)(i := (mutexes s1 i)\<lparr>owner := Some w,
         original_priority := current_priority (threads s1 w), hold := hold (mutexes s1 i) + 1\<rparr>)"
      using mutex_hand_over_effect [OF ok1 ws1 [unfolded Cons] tyw] by metis
    have "rt_mutex_release i s = Some (RT_EOK, s')"
      using rel Cons s'(1,2) by (simp add: rt_mutex_release_def ws1)
    moreover have "(\<lambda>t. current_priority (threads s1 t)) ` set (w # ws) = (\<lambda>t. current_priority (threads s t)) ` set (w # ws)"
      by (rule image_cong [OF refl], rule others) (use tnot in auto)
    moreover have "current_priority (threads s' t) = original_priority (mutexes s i)" using co [OF tw] ct by simp
    moreover have "mutexes s' i = \<lparr>mutex_value = 0, original_priority = current_priority (threads s w),
           hold = 1, owner = Some w\<rparr>"
      using tw own(3) others [of w] by (simp add: m m1)
    moreover have "error (threads s' w) = error (threads s w)" using s'(6) by (simp add: d(8))
    ultimately show ?thesis using s' cw fl others [of w] tw Cons by (simp del: set_simps image_insert)
  qed
qed

end
