(* ===== verification/RTT_Event.thy ===== *)
theory RTT_Event
  imports RTT_Ipc
begin

text \<open>
  Event sets (\<^verbatim>\<open>ipc.c\<close>): 32 flags; a receiver waits for all or for some flags of its mask and may
  clear what it receives.
\<close>

definition RT_EVENT_FLAG_AND :: u8 where "RT_EVENT_FLAG_AND = 1"
definition RT_EVENT_FLAG_OR :: u8 where "RT_EVENT_FLAG_OR = 2"
definition RT_EVENT_FLAG_CLEAR :: u8 where "RT_EVENT_FLAG_CLEAR = 4"

definition set_event_bits :: "nat \<Rightarrow> u32 \<Rightarrow> kstate \<Rightarrow> kstate" where
  "set_event_bits i v s = s\<lparr>events := (events s)(i := (events s i)\<lparr>event_bits := v\<rparr>)\<rparr>"

definition is_event :: "nat \<Rightarrow> kstate \<Rightarrow> unit option" where
  "is_event i s = rt_assert (rt_object_get_type (OEvent i) s = RT_Object_Class_Event)"


definition rt_event_init :: "nat \<Rightarrow> string \<Rightarrow> u8 \<Rightarrow> kstate \<Rightarrow> (rt_err_t \<times> kstate) option" where
  "rt_event_init i name flag s = do {
     s \<leftarrow> rt_object_init (OEvent i) RT_Object_Class_Event name s;
     let s = set_ipc_flag (OEvent i) flag s;
     let s = rt_ipc_object_init (OEvent i) s;
     Some (RT_EOK, set_event_bits i 0 s) }"

definition rt_event_detach :: "nat \<Rightarrow> kstate \<Rightarrow> (rt_err_t \<times> kstate) option" where
  "rt_event_detach i s = do {
     is_event i s;
     rt_assert (rt_object_is_systemobject (OEvent i) s);
     s \<leftarrow> rt_ipc_list_resume_all (IpcSuspend (OEvent i)) s;
     Some (RT_EOK, rt_object_detach (OEvent i) s) }"

definition rt_event_create ::
  "string \<Rightarrow> u32 \<Rightarrow> u8 \<Rightarrow> nat option \<Rightarrow> kstate \<Rightarrow> (nat option \<times> kstate) option" where
  "rt_event_create name init_val flag mem s = do {
     RT_DEBUG_NOT_IN_INTERRUPT s;
     (x, s) \<leftarrow> rt_object_allocate RT_Object_Class_Event name (map_option OEvent mem) s;
     (case x of
        Some (OEvent i) \<Rightarrow>
          Some (Some i, set_event_bits i init_val
                  (rt_ipc_object_init (OEvent i) (set_ipc_flag (OEvent i) flag s)))
      | _ \<Rightarrow> Some (None, s)) }"

definition rt_event_delete :: "nat \<Rightarrow> kstate \<Rightarrow> (rt_err_t \<times> kstate) option" where
  "rt_event_delete i s = do {
     is_event i s;
     rt_assert (\<not> rt_object_is_systemobject (OEvent i) s);
     RT_DEBUG_NOT_IN_INTERRUPT s;
     s \<leftarrow> rt_ipc_list_resume_all (IpcSuspend (OEvent i)) s;
     s \<leftarrow> rt_object_delete (OEvent i) s;
     Some (RT_EOK, s) }"




text \<open>The result of a receive is the error code and what is stored in \<^verbatim>\<open>*recved\<close>, if anything.\<close>

definition rt_event_recv ::
  "nat \<Rightarrow> u32 \<Rightarrow> u8 \<Rightarrow> u32 \<Rightarrow> kstate \<Rightarrow> ((rt_err_t \<times> u32 option, unit) outcome \<times> kstate) option" where
  "rt_event_recv i evs opt timeout s = do {
     RT_DEBUG_IN_THREAD_CONTEXT s;
     is_event i s;
     if evs = 0 then Some (Returned (- RT_ERROR, None), s)
     else do {
       t \<leftarrow> rt_thread_self s;
       let s = thread_update t (\<lambda>th. th\<lparr>error := RT_EOK\<rparr>) s;
       let bits = event_bits (events s i);
       satisfied \<leftarrow> (if opt AND RT_EVENT_FLAG_AND \<noteq> 0 then Some (bits AND evs = evs)
                     else if opt AND RT_EVENT_FLAG_OR \<noteq> 0 then Some (bits AND evs \<noteq> 0)
                     else None);
       if satisfied
       then Some (Returned (error (threads s t), Some (bits AND evs)),
              if opt AND RT_EVENT_FLAG_CLEAR \<noteq> 0 then set_event_bits i (bits AND NOT evs) s else s)
       else if timeout = 0
       then Some (Returned (- RT_ETIMEOUT, None), thread_update t (\<lambda>th. th\<lparr>error := - RT_ETIMEOUT\<rparr>) s)
       else do {
         rt_assert (preempt_level s = 0);
         let s = thread_update t (\<lambda>th. th\<lparr>event_set := evs, event_info := opt\<rparr>) s;
         s \<leftarrow> ipc_block (IpcSuspend (OEvent i)) t (ipc_flag (OEvent i) s) timeout s;
         Some (Blocked (), s) } } }"


definition rt_event_control :: "nat \<Rightarrow> ipc_cmd \<Rightarrow> kstate \<Rightarrow> (rt_err_t \<times> u32 option \<times> kstate) option" where
  "rt_event_control i cmd s = do {
     is_event i s;
     (case cmd of
        IPC_RESET _ \<Rightarrow> do {
          s \<leftarrow> rt_ipc_list_resume_all (IpcSuspend (OEvent i)) s;
          s \<leftarrow> rt_schedule (set_event_bits i 0 s);
          Some (RT_EOK, None, s) }
      | IPC_GET_STATE \<Rightarrow> Some (RT_EOK, Some (event_bits (events s i)), s)
      | IPC_OTHER \<Rightarrow> Some (- RT_ERROR, None, s)) }"

section \<open>Delivery\<close>








lemma set_event_bits_fields [simp]:
  "events (set_event_bits i v s) = (events s)(i := (events s i)\<lparr>event_bits := v\<rparr>)"
  "threads (set_event_bits i v s) = threads s" "thread_lists (set_event_bits i v s) = thread_lists s"
  "rt_current_thread (set_event_bits i v s) = rt_current_thread s"
  "sched_inv (set_event_bits i v s) = sched_inv s" "objects (set_event_bits i v s) = objects s"
  by (simp_all add: set_event_bits_def)

lemma sys_ok_set_event_bits [simp]: "sys_ok (set_event_bits i v s) = sys_ok s"
  by (simp add: sys_ok_def stacks_ok_def thread_stat_def)









end
