(* ===== verification/RTT_Mailbox.thy ===== *)
theory RTT_Mailbox
  imports RTT_Ipc RTT_Fifo
begin

text \<open>
  Mailboxes (\<^verbatim>\<open>ipc.c\<close>): a ring of machine words with a queue of waiting receivers and one of waiting
  senders. A sender or receiver that is woken goes round its loop again with the time that is
  left.
\<close>

definition mailbox_update :: "nat \<Rightarrow> (rt_mailbox \<Rightarrow> rt_mailbox) \<Rightarrow> kstate \<Rightarrow> kstate" where
  "mailbox_update i f s = s\<lparr>mailboxes := (mailboxes s)(i := f (mailboxes s i))\<rparr>"

definition is_mb :: "nat \<Rightarrow> kstate \<Rightarrow> unit option" where
  "is_mb i s = rt_assert (rt_object_get_type (OMailBox i) s = RT_Object_Class_MailBox)"

abbreviation mb_receivers :: "nat \<Rightarrow> kstate \<Rightarrow> tid list" where
  "mb_receivers i s \<equiv> thread_lists s (IpcSuspend (OMailBox i))"

abbreviation mb_senders :: "nat \<Rightarrow> kstate \<Rightarrow> tid list" where
  "mb_senders i s \<equiv> thread_lists s (SenderSuspend (OMailBox i))"

text \<open>\<open>rt_list_init\<close> of the sender queue.\<close>

definition sender_list_init :: "obj \<Rightarrow> kstate \<Rightarrow> kstate" where
  "sender_list_init x s = s\<lparr>thread_lists := (thread_lists s)(SenderSuspend x := [])\<rparr>"

text \<open>The memory area is a list of words; \<open>size\<close> is stored in 16 bits.\<close>

definition rt_mb_init :: "nat \<Rightarrow> string \<Rightarrow> u32 list \<Rightarrow> u32 \<Rightarrow> u8 \<Rightarrow> kstate \<Rightarrow> (rt_err_t \<times> kstate) option" where
  "rt_mb_init i name msgpool sz flag s = do {
     s \<leftarrow> rt_object_init (OMailBox i) RT_Object_Class_MailBox name s;
     let s = set_ipc_flag (OMailBox i) flag s;
     let s = rt_ipc_object_init (OMailBox i) s;
     let s = mailbox_update i (\<lambda>_. \<lparr>msg_pool = msgpool, mb_size = ucast sz, mb_entry = 0,
                                    in_offset = 0, out_offset = 0\<rparr>) s;
     Some (RT_EOK, sender_list_init (OMailBox i) s) }"

definition rt_mb_detach :: "nat \<Rightarrow> kstate \<Rightarrow> (rt_err_t \<times> kstate) option" where
  "rt_mb_detach i s = do {
     is_mb i s;
     rt_assert (rt_object_is_systemobject (OMailBox i) s);
     s \<leftarrow> rt_ipc_list_resume_all (IpcSuspend (OMailBox i)) s;
     s \<leftarrow> rt_ipc_list_resume_all (SenderSuspend (OMailBox i)) s;
     Some (RT_EOK, rt_object_detach (OMailBox i) s) }"

text \<open>\<open>mem\<close> and \<open>pool\<close> are the results of the two allocations; the pool is \<open>mb_size\<close> words.\<close>

definition rt_mb_create ::
  "string \<Rightarrow> u32 \<Rightarrow> u8 \<Rightarrow> nat option \<Rightarrow> u32 list option \<Rightarrow> kstate \<Rightarrow> (nat option \<times> kstate) option" where
  "rt_mb_create name sz flag mem pool s = do {
     RT_DEBUG_NOT_IN_INTERRUPT s;
     (x, s) \<leftarrow> rt_object_allocate RT_Object_Class_MailBox name (map_option OMailBox mem) s;
     (case x of
        Some (OMailBox i) \<Rightarrow> do {
          let s = rt_ipc_object_init (OMailBox i) (set_ipc_flag (OMailBox i) flag s);
          let s = mailbox_update i (\<lambda>m. m\<lparr>mb_size := ucast sz\<rparr>) s;
          (case pool of
             None \<Rightarrow> do { s \<leftarrow> rt_object_delete (OMailBox i) s; Some (None, s) }
           | Some p \<Rightarrow>
               Some (Some i, sender_list_init (OMailBox i)
                 (mailbox_update i (\<lambda>m. m\<lparr>msg_pool := p, mb_entry := 0, in_offset := 0, out_offset := 0\<rparr>) s))) }
      | _ \<Rightarrow> Some (None, s)) }"

definition rt_mb_delete :: "nat \<Rightarrow> kstate \<Rightarrow> (rt_err_t \<times> kstate) option" where
  "rt_mb_delete i s = do {
     RT_DEBUG_NOT_IN_INTERRUPT s;
     is_mb i s;
     rt_assert (\<not> rt_object_is_systemobject (OMailBox i) s);
     s \<leftarrow> rt_ipc_list_resume_all (IpcSuspend (OMailBox i)) s;
     s \<leftarrow> rt_ipc_list_resume_all (SenderSuspend (OMailBox i)) s;
     s \<leftarrow> rt_object_delete (OMailBox i) s;
     Some (RT_EOK, s) }"

section \<open>The ring\<close>

definition mb_store :: "u32 \<Rightarrow> rt_mailbox \<Rightarrow> rt_mailbox option" where
  "mb_store val m =
     (if unat (in_offset m) < length (msg_pool m)
      then Some (m\<lparr>msg_pool := (msg_pool m)[unat (in_offset m) := val],
                   in_offset := (if in_offset m + 1 \<ge> mb_size m then 0 else in_offset m + 1),
                   mb_entry := mb_entry m + 1\<rparr>)
      else None)"

definition mb_fetch :: "rt_mailbox \<Rightarrow> (u32 \<times> rt_mailbox) option" where
  "mb_fetch m =
     (if unat (out_offset m) < length (msg_pool m)
      then Some (msg_pool m ! unat (out_offset m),
             m\<lparr>out_offset := (if out_offset m + 1 \<ge> mb_size m then 0 else out_offset m + 1),
               mb_entry := mb_entry m - 1\<rparr>)
      else None)"

section \<open>Sending and receiving\<close>

text \<open>The time that is left of a positive timeout when the thread runs again.\<close>

definition timeout_left :: "u32 \<Rightarrow> u32 \<Rightarrow> kstate \<Rightarrow> u32" where
  "timeout_left timeout tick_delta s =
     (if 0 < sint timeout
      then let left = timeout - (rt_tick_get s - tick_delta) in if sint left < 0 then 0 else left
      else timeout)"

definition wait_start :: "u32 \<Rightarrow> u32 \<Rightarrow> kstate \<Rightarrow> u32" where
  "wait_start timeout tick_delta s = (if 0 < sint timeout then rt_tick_get s else tick_delta)"

definition resume_and_schedule :: "list_head \<Rightarrow> kstate \<Rightarrow> kstate option" where
  "resume_and_schedule h s =
     (if thread_lists s h \<noteq> [] then do { s \<leftarrow> rt_ipc_list_resume h s; rt_schedule s } else Some s)"

definition mb_send_loop ::
  "nat \<Rightarrow> tid option \<Rightarrow> u32 \<Rightarrow> u32 \<Rightarrow> u32 \<Rightarrow> kstate \<Rightarrow> ((rt_err_t, u32 \<times> u32) outcome \<times> kstate) option" where
  "mb_send_loop i thread val timeout tick_delta s =
     (if mb_entry (mailboxes s i) = mb_size (mailboxes s i)
      then do {
        t \<leftarrow> thread;
        let s = thread_update t (\<lambda>th. th\<lparr>error := RT_EOK\<rparr>) s;
        if timeout = 0 then Some (Returned (- RT_EFULL), s)
        else do {
          RT_DEBUG_IN_THREAD_CONTEXT s;
          let tick_delta = wait_start timeout tick_delta s;
          s \<leftarrow> ipc_block (SenderSuspend (OMailBox i)) t (ipc_flag (OMailBox i) s) timeout s;
          Some (Blocked (timeout, tick_delta), s) } }
      else do {
        m \<leftarrow> mb_store val (mailboxes s i);
        s \<leftarrow> resume_and_schedule (IpcSuspend (OMailBox i)) (mailbox_update i (\<lambda>_. m) s);
        Some (Returned RT_EOK, s) })"

definition rt_mb_send_wait ::
  "nat \<Rightarrow> u32 \<Rightarrow> u32 \<Rightarrow> kstate \<Rightarrow> ((rt_err_t, u32 \<times> u32) outcome \<times> kstate) option" where
  "rt_mb_send_wait i val timeout s = do {
     is_mb i s;
     if mb_entry (mailboxes s i) = mb_size (mailboxes s i) \<and> timeout = 0
     then Some (Returned (- RT_EFULL), s)
     else mb_send_loop i (rt_thread_self s) val timeout 0 s }"

definition rt_mb_send_wait_wake ::
  "nat \<Rightarrow> tid \<Rightarrow> u32 \<Rightarrow> u32 \<times> u32 \<Rightarrow> kstate \<Rightarrow> ((rt_err_t, u32 \<times> u32) outcome \<times> kstate) option" where
  "rt_mb_send_wait_wake i t val w s =
     (if error (threads s t) \<noteq> RT_EOK then Some (Returned (error (threads s t)), s)
      else mb_send_loop i (Some t) val (timeout_left (fst w) (snd w) s) (rt_tick_get s - snd w) s)"

definition rt_mb_send :: "nat \<Rightarrow> u32 \<Rightarrow> kstate \<Rightarrow> ((rt_err_t, u32 \<times> u32) outcome \<times> kstate) option" where
  "rt_mb_send i val s = rt_mb_send_wait i val 0 s"

text \<open>A receive returns the error code and the word stored in \<^verbatim>\<open>*value\<close>, if any.\<close>

definition mb_recv_loop ::
  "nat \<Rightarrow> tid option \<Rightarrow> u32 \<Rightarrow> u32 \<Rightarrow> kstate \<Rightarrow> ((rt_err_t \<times> u32 option, u32 \<times> u32) outcome \<times> kstate) option" where
  "mb_recv_loop i thread timeout tick_delta s =
     (if mb_entry (mailboxes s i) = 0
      then do {
        t \<leftarrow> thread;
        let s = thread_update t (\<lambda>th. th\<lparr>error := RT_EOK\<rparr>) s;
        if timeout = 0
        then Some (Returned (- RT_ETIMEOUT, None), thread_update t (\<lambda>th. th\<lparr>error := - RT_ETIMEOUT\<rparr>) s)
        else do {
          rt_assert (preempt_level s = 0);
          RT_DEBUG_IN_THREAD_CONTEXT s;
          let tick_delta = wait_start timeout tick_delta s;
          s \<leftarrow> ipc_block (IpcSuspend (OMailBox i)) t (ipc_flag (OMailBox i) s) timeout s;
          Some (Blocked (timeout, tick_delta), s) } }
      else do {
        (val, m) \<leftarrow> mb_fetch (mailboxes s i);
        s \<leftarrow> resume_and_schedule (SenderSuspend (OMailBox i)) (mailbox_update i (\<lambda>_. m) s);
        Some (Returned (RT_EOK, Some val), s) })"

definition rt_mb_recv ::
  "nat \<Rightarrow> u32 \<Rightarrow> kstate \<Rightarrow> ((rt_err_t \<times> u32 option, u32 \<times> u32) outcome \<times> kstate) option" where
  "rt_mb_recv i timeout s = do {
     is_mb i s;
     if mb_entry (mailboxes s i) = 0 \<and> timeout = 0
     then Some (Returned (- RT_ETIMEOUT, None), s)
     else mb_recv_loop i (rt_thread_self s) timeout 0 s }"

definition rt_mb_recv_wake ::
  "nat \<Rightarrow> tid \<Rightarrow> u32 \<times> u32 \<Rightarrow> kstate \<Rightarrow> ((rt_err_t \<times> u32 option, u32 \<times> u32) outcome \<times> kstate) option" where
  "rt_mb_recv_wake i t w s =
     (if error (threads s t) \<noteq> RT_EOK then Some (Returned (error (threads s t), None), s)
      else mb_recv_loop i (Some t) (timeout_left (fst w) (snd w) s) (rt_tick_get s - snd w) s)"

definition rt_mb_control :: "nat \<Rightarrow> ipc_cmd \<Rightarrow> kstate \<Rightarrow> (rt_err_t \<times> u32 option \<times> kstate) option" where
  "rt_mb_control i cmd s = do {
     is_mb i s;
     (case cmd of
        IPC_RESET _ \<Rightarrow> do {
          s \<leftarrow> rt_ipc_list_resume_all (IpcSuspend (OMailBox i)) s;
          s \<leftarrow> rt_ipc_list_resume_all (SenderSuspend (OMailBox i)) s;
          s \<leftarrow> rt_schedule (mailbox_update i (\<lambda>m. m\<lparr>mb_entry := 0, in_offset := 0, out_offset := 0\<rparr>) s);
          Some (RT_EOK, None, s) }
      | IPC_GET_STATE \<Rightarrow> Some (RT_EOK, Some (ucast (mb_entry (mailboxes s i))), s)
      | IPC_OTHER \<Rightarrow> Some (- RT_ERROR, None, s)) }"

section \<open>The ring is a bounded FIFO\<close>

definition mb_inv :: "rt_mailbox \<Rightarrow> bool" where
  "mb_inv m \<longleftrightarrow> length (msg_pool m) = unat (mb_size m) \<and> mb_entry m \<le> mb_size m \<and>
     (mb_size m \<noteq> 0 \<longrightarrow> out_offset m < mb_size m \<and>
        unat (in_offset m) = (unat (out_offset m) + unat (mb_entry m)) mod unat (mb_size m))"

definition mb_cap :: "rt_mailbox \<Rightarrow> nat" where
  "mb_cap m = unat (mb_size m)"

definition mb_data :: "rt_mailbox \<Rightarrow> u32 list" where
  "mb_data m = ring_seg (msg_pool m) (unat (out_offset m)) (unat (mb_entry m))"

definition mb_push :: "u32 \<Rightarrow> rt_mailbox \<Rightarrow> rt_mailbox option" where
  "mb_push val m = (if mb_entry m = mb_size m then None else mb_store val m)"

definition mb_pop :: "rt_mailbox \<Rightarrow> (u32 \<times> rt_mailbox) option" where
  "mb_pop m = (if mb_entry m = 0 then None else mb_fetch m)"

lemma offset_step:
  assumes "o1 < (n :: u16)"
  shows "unat (if o1 + 1 \<ge> n then 0 else o1 + 1) = Suc (unat o1) mod unat n"
proof -
  have lt: "unat o1 < unat n" using assms by (simp add: word_less_nat_alt)
  have "unat n < 2 ^ 16" using unsigned_less [of n] by simp
  with lt have inc: "unat (o1 + 1) = Suc (unat o1)" by (subst unat_add_lem [THEN iffD1]) simp_all
  show ?thesis
    using lt by (cases "Suc (unat o1) = unat n") (simp_all add: word_le_nat_alt inc not_le mod_less)
qed

lemma mb_push_space:
  assumes inv: "mb_inv m" and space: "mb_entry m < mb_size m"
  shows "\<exists>m'. mb_push val m = Some m' \<and> mb_inv m' \<and> mb_cap m' = mb_cap m \<and> mb_data m' = mb_data m @ [val]"
proof -
  let ?n = "unat (mb_size m)" and ?o = "unat (out_offset m)" and ?e = "unat (mb_entry m)"
  have sp: "?e < ?n" using space by (simp add: word_less_nat_alt)
  then have n0: "mb_size m \<noteq> 0" by (metis not_less_zero unat_0)
  have len: "length (msg_pool m) = ?n" and o: "?o < ?n" and i: "unat (in_offset m) = (?o + ?e) mod ?n"
    using inv n0 by (simp_all add: mb_inv_def word_less_nat_alt)
  have il: "unat (in_offset m) < ?n" using o i by simp
  let ?m = "m\<lparr>msg_pool := (msg_pool m)[unat (in_offset m) := val],
                   in_offset := (if in_offset m + 1 \<ge> mb_size m then 0 else in_offset m + 1),
                   mb_entry := mb_entry m + 1\<rparr>"
  have ne: "mb_entry m \<noteq> mb_size m" using space by auto
  have call: "mb_push val m = Some ?m" using ne il len by (simp add: mb_push_def mb_store_def)
  have "unat (mb_size m) < 2 ^ 16" using unsigned_less [of "mb_size m"] by simp
  with sp have ent: "unat (mb_entry m + 1) = Suc ?e" by (subst unat_add_lem [THEN iffD1]) simp_all
  have "unat (if in_offset m + 1 \<ge> mb_size m then 0 else in_offset m + 1) = Suc (unat (in_offset m)) mod ?n"
    using il by (intro offset_step) (simp add: word_less_nat_alt)
  then have "unat (in_offset ?m) = (?o + Suc ?e) mod ?n"
    by (simp add: i mod_Suc_eq)
  then have "mb_inv ?m" using len o sp ent by (simp add: mb_inv_def word_le_nat_alt word_less_nat_alt)
  moreover have "ring_seg ((msg_pool m)[unat (in_offset m) := val]) ?o (?e + 1) = ring_seg (msg_pool m) ?o ?e @ take 1 [val]"
    by (rule ring_seg_write) (use len o i sp in auto)
  ultimately show ?thesis using call by (simp add: mb_cap_def mb_data_def ent)
qed

lemma mb_pop_some:
  assumes inv: "mb_inv m" and e: "mb_entry m \<noteq> 0"
  shows "\<exists>m'. mb_pop m = Some (hd (mb_data m), m') \<and> mb_inv m' \<and> mb_cap m' = mb_cap m \<and> mb_data m' = tl (mb_data m)"
proof -
  let ?n = "unat (mb_size m)" and ?o = "unat (out_offset m)" and ?e = "unat (mb_entry m)"
  have e0: "0 < ?e" using e by (simp add: unat_gt_0)
  have le: "?e \<le> ?n" using inv by (simp add: mb_inv_def word_le_nat_alt)
  with e0 have n0: "mb_size m \<noteq> 0" by (metis not_le unat_0)
  have len: "length (msg_pool m) = ?n" and o: "?o < ?n" and i: "unat (in_offset m) = (?o + ?e) mod ?n"
    using inv n0 by (simp_all add: mb_inv_def word_less_nat_alt)
  let ?m = "m\<lparr>out_offset := (if out_offset m + 1 \<ge> mb_size m then 0 else out_offset m + 1),
               mb_entry := mb_entry m - 1\<rparr>"
  have call: "mb_pop m = Some (msg_pool m ! ?o, ?m)" using e o len by (simp add: mb_pop_def mb_fetch_def)
  have out: "unat (out_offset ?m) = Suc ?o mod ?n"
    using o by (simp add: offset_step [unfolded word_less_nat_alt])
  have ent: "unat (mb_entry m - 1) = ?e - 1" using e by (simp add: unat_minus_one)
  have seg: "mb_data m = msg_pool m ! ?o # ring_seg (msg_pool m) (Suc ?o mod ?n) (?e - 1)"
    using ring_seg_Suc [of "msg_pool m" ?o "?e - 1"] o e0 len by (simp add: mb_data_def)
  have "(Suc ?o mod ?n + (?e - 1)) mod ?n = (?o + ?e) mod ?n"
    unfolding mod_add_left_eq using e0 by simp
  then have "mb_inv ?m"
    using len o le e0 i out ent n0 by (simp add: mb_inv_def word_le_nat_alt word_less_nat_alt)
  moreover have "mb_data ?m = tl (mb_data m)" unfolding seg using out ent by (simp add: mb_data_def)
  ultimately show ?thesis using call seg by (simp add: mb_cap_def)
qed

interpretation mbq: bounded_fifo mb_inv mb_cap mb_data mb_push mb_pop
proof unfold_locales
  show "length (mb_data q) \<le> mb_cap q" if "mb_inv q" for q
    using that by (simp add: mb_data_def mb_cap_def mb_inv_def word_le_nat_alt)
  show "\<exists>q'. mb_push x q = Some q' \<and> mb_inv q' \<and> mb_cap q' = mb_cap q \<and> mb_data q' = mb_data q @ [x]"
    if "mb_inv q" "length (mb_data q) < mb_cap q" for q x
    using mb_push_space [OF that(1)] that(2) by (simp add: mb_data_def mb_cap_def word_less_nat_alt)
  show "mb_push x q = None" if "length (mb_data q) = mb_cap q" for q x
    using that by (simp add: mb_data_def mb_cap_def mb_push_def word_unat_eq_iff)
  show "\<exists>q'. mb_pop q = Some (hd (mb_data q), q') \<and> mb_inv q' \<and> mb_cap q' = mb_cap q \<and> mb_data q' = tl (mb_data q)"
    if "mb_inv q" "mb_data q \<noteq> []" for q
  proof -
    have "mb_entry q \<noteq> 0" using that(2) by (auto simp: mb_data_def)
    with mb_pop_some [OF that(1)] show ?thesis by blast
  qed
  show "mb_pop q = None" if "mb_data q = []" for q
    using that by (simp add: mb_data_def mb_pop_def unat_eq_zero)
qed

section \<open>Words are delivered in order\<close>

lemma mailbox_update_fields [simp]:
  "mailboxes (mailbox_update i f s) = (mailboxes s)(i := f (mailboxes s i))"
  "threads (mailbox_update i f s) = threads s" "thread_lists (mailbox_update i f s) = thread_lists s"
  "rt_current_thread (mailbox_update i f s) = rt_current_thread s" "objects (mailbox_update i f s) = objects s"
  "sched_inv (mailbox_update i f s) = sched_inv s"
  by (simp_all add: mailbox_update_def)

lemma sys_ok_mailbox_update [simp]: "sys_ok (mailbox_update i f s) = sys_ok s"
  by (simp add: sys_ok_def stacks_ok_def thread_stat_def)

lemma resume_and_schedule_frame:
  assumes "resume_and_schedule h s = Some s'"
  shows "ipc_frame s s'"
proof (cases "thread_lists s h = []")
  case True
  with assms show ?thesis by (simp add: resume_and_schedule_def)
next
  case False
  with assms obtain s1 where "rt_ipc_list_resume h s = Some s1" "rt_schedule s1 = Some s'"
    by (auto simp: resume_and_schedule_def bind_Some_iff)
  then show ?thesis
    using rt_ipc_list_resume_frame resched_ipc_frame [OF rt_schedule_frame] by (blast intro: ipc_frame_trans)
qed

lemma resume_and_schedule_inv:
  assumes "sched_inv s" "resume_and_schedule h s = Some s'"
  shows "sched_inv s'"
proof (cases "thread_lists s h = []")
  case True
  with assms show ?thesis by (simp add: resume_and_schedule_def)
next
  case False
  with assms(2) obtain s1 where "rt_ipc_list_resume h s = Some s1" "rt_schedule s1 = Some s'"
    by (auto simp: resume_and_schedule_def bind_Some_iff)
  then show ?thesis using assms(1) rt_ipc_list_resume_inv rt_schedule_inv by blast
qed

lemma mb_send_loop_cases:
  assumes "mb_send_loop i th v timeout td s = Some (r, s')"
  shows "if r = Returned RT_EOK
    then \<exists>m. mb_push v (mailboxes s i) = Some m \<and> mailboxes s' = (mailboxes s)(i := m)
    else mailboxes s' = mailboxes s"
proof (cases "mb_entry (mailboxes s i) = mb_size (mailboxes s i)")
  case False
  with assms obtain m where m: "mb_store v (mailboxes s i) = Some m" and r: "r = Returned RT_EOK"
    and c: "resume_and_schedule (IpcSuspend (OMailBox i)) (mailbox_update i (\<lambda>_. m) s) = Some s'"
    by (auto simp: mb_send_loop_def bind_Some_iff)
  from ipc_frameD(4) [OF resume_and_schedule_frame [OF c]] m r False show ?thesis
    by (simp add: mb_push_def)
next
  case True
  with assms obtain t where t: "th = Some t" by (auto simp: mb_send_loop_def bind_Some_iff)
  show ?thesis
  proof (cases "timeout = 0")
    case zero: True
    with True t assms show ?thesis by (auto simp: mb_send_loop_def RT_EOK_def RT_EFULL_def)
  next
    case nz: False
    with True t assms obtain w where r: "r = Blocked w" and b: "ipc_block (SenderSuspend (OMailBox i)) t
        (ipc_flag (OMailBox i) (thread_update t (\<lambda>th. th\<lparr>error := RT_EOK\<rparr>) s)) timeout
        (thread_update t (\<lambda>th. th\<lparr>error := RT_EOK\<rparr>) s) = Some s'"
      by (auto simp: mb_send_loop_def bind_Some_iff Let_def)
    from ipc_frameD(4) [OF ipc_block_frame [OF b]] r show ?thesis by simp
  qed
qed

lemma mb_recv_loop_cases:
  assumes "mb_recv_loop i th timeout td s = Some (r, s')"
  shows "(\<exists>v m. r = Returned (RT_EOK, Some v) \<and> mb_pop (mailboxes s i) = Some (v, m) \<and> mailboxes s' = (mailboxes s)(i := m)) \<or>
    ((\<forall>v. r \<noteq> Returned (RT_EOK, Some v)) \<and> mailboxes s' = mailboxes s)"
proof (cases "mb_entry (mailboxes s i) = 0")
  case False
  with assms obtain v m where m: "mb_fetch (mailboxes s i) = Some (v, m)" and r: "r = Returned (RT_EOK, Some v)"
    and c: "resume_and_schedule (SenderSuspend (OMailBox i)) (mailbox_update i (\<lambda>_. m) s) = Some s'"
    by (auto simp: mb_recv_loop_def bind_Some_iff)
  from ipc_frameD(4) [OF resume_and_schedule_frame [OF c]] m r False show ?thesis
    by (simp add: mb_pop_def)
next
  case True
  with assms obtain t where t: "th = Some t" by (auto simp: mb_recv_loop_def bind_Some_iff)
  show ?thesis
  proof (cases "timeout = 0")
    case zero: True
    with True t assms show ?thesis by (auto simp: mb_recv_loop_def)
  next
    case nz: False
    with True t assms obtain w where r: "r = Blocked w" and b: "ipc_block (IpcSuspend (OMailBox i)) t
        (ipc_flag (OMailBox i) (thread_update t (\<lambda>th. th\<lparr>error := RT_EOK\<rparr>) s)) timeout
        (thread_update t (\<lambda>th. th\<lparr>error := RT_EOK\<rparr>) s) = Some s'"
      by (auto simp: mb_recv_loop_def bind_Some_iff Let_def)
    from ipc_frameD(4) [OF ipc_block_frame [OF b]] r show ?thesis by simp
  qed
qed

text \<open>
  A step of a send or of a receive: the call, or its continuation when a waiting thread runs
  again. A run collects the words accepted and the words delivered; in between the rest of the
  system may do anything that leaves the mailbox alone.
\<close>

definition mb_send_step ::
  "nat \<Rightarrow> u32 \<Rightarrow> kstate \<Rightarrow> (rt_err_t, u32 \<times> u32) outcome \<Rightarrow> kstate \<Rightarrow> bool" where
  "mb_send_step i v s r s' \<longleftrightarrow> (\<exists>timeout. rt_mb_send_wait i v timeout s = Some (r, s')) \<or>
     (\<exists>t w. rt_mb_send_wait_wake i t v w s = Some (r, s'))"

definition mb_recv_step ::
  "nat \<Rightarrow> kstate \<Rightarrow> (rt_err_t \<times> u32 option, u32 \<times> u32) outcome \<Rightarrow> kstate \<Rightarrow> bool" where
  "mb_recv_step i s r s' \<longleftrightarrow> (\<exists>timeout. rt_mb_recv i timeout s = Some (r, s')) \<or>
     (\<exists>t w. rt_mb_recv_wake i t w s = Some (r, s'))"

inductive mb_run :: "nat \<Rightarrow> kstate \<Rightarrow> u32 list \<Rightarrow> u32 list \<Rightarrow> kstate \<Rightarrow> bool" for i s where
  start: "mb_run i s [] [] s"
| sent: "mb_run i s acc out s1 \<Longrightarrow> mb_send_step i v s1 (Returned RT_EOK) s2 \<Longrightarrow> mb_run i s (acc @ [v]) out s2"
| not_sent: "mb_run i s acc out s1 \<Longrightarrow> mb_send_step i v s1 r s2 \<Longrightarrow> r \<noteq> Returned RT_EOK \<Longrightarrow> mb_run i s acc out s2"
| received: "mb_run i s acc out s1 \<Longrightarrow> mb_recv_step i s1 (Returned (RT_EOK, Some v)) s2 \<Longrightarrow>
    mb_run i s acc (out @ [v]) s2"
| not_received: "mb_run i s acc out s1 \<Longrightarrow> mb_recv_step i s1 r s2 \<Longrightarrow> (\<forall>v. r \<noteq> Returned (RT_EOK, Some v)) \<Longrightarrow>
    mb_run i s acc out s2"
| other: "mb_run i s acc out s1 \<Longrightarrow> mailboxes s2 i = mailboxes s1 i \<Longrightarrow> mb_run i s acc out s2"

lemma mb_send_step_cases:
  assumes "mb_send_step i v s r s'"
  shows "if r = Returned RT_EOK
    then \<exists>m. mb_push v (mailboxes s i) = Some m \<and> mailboxes s' i = m
    else mailboxes s' i = mailboxes s i"
proof -
  from assms consider "r \<noteq> Returned RT_EOK" "s' = s"
    | th timeout td where "mb_send_loop i th v timeout td s = Some (r, s')"
    by (auto simp: mb_send_step_def rt_mb_send_wait_def rt_mb_send_wait_wake_def bind_Some_iff RT_EOK_def RT_EFULL_def
        split: if_splits)
  then show ?thesis
    by cases (simp, use mb_send_loop_cases in \<open>fastforce split: if_splits\<close>)
qed

lemma mb_recv_step_cases:
  assumes "mb_recv_step i s r s'"
  shows "(\<exists>v m. r = Returned (RT_EOK, Some v) \<and> mb_pop (mailboxes s i) = Some (v, m) \<and> mailboxes s' i = m) \<or>
    ((\<forall>v. r \<noteq> Returned (RT_EOK, Some v)) \<and> mailboxes s' i = mailboxes s i)"
proof -
  from assms consider "\<forall>v. r \<noteq> Returned (RT_EOK, Some v)" "s' = s"
    | th timeout td where "mb_recv_loop i th timeout td s = Some (r, s')"
    by (auto simp: mb_recv_step_def rt_mb_recv_def rt_mb_recv_wake_def bind_Some_iff split: if_splits)
  then show ?thesis
    by cases (simp, use mb_recv_loop_cases in \<open>fastforce\<close>)
qed

text \<open>
  C30: A mailbox is a bounded first-in first-out queue of words. In every run of its senders and
  receivers, waiting ones included and interleaved with anything else, the words delivered followed
  by those still stored are the words stored at the start followed by those accepted, in that
  order, and the ring stays well-formed.
\<close>

theorem rt_mb_fifo:
  assumes "mb_run i s acc out s'" "mb_inv (mailboxes s i)"
  shows "mb_inv (mailboxes s' i) \<and> mb_cap (mailboxes s' i) = mb_cap (mailboxes s i) \<and>
    mb_data (mailboxes s i) @ acc = out @ mb_data (mailboxes s' i)"
  using assms
proof (induction rule: mb_run.induct)
  case (sent acc out s1 v s2)
  then have inv: "mb_inv (mailboxes s1 i)" by simp
  from mb_send_step_cases [OF sent(2)] obtain m where "mb_push v (mailboxes s1 i) = Some m" "mailboxes s2 i = m" by auto
  with mbq.push_SomeD [OF inv] sent.IH sent.prems show ?case by (metis append.assoc)
next
  case (not_sent acc out s1 v r s2)
  with mb_send_step_cases [OF not_sent(2)] show ?case by simp
next
  case (received acc out s1 v s2)
  then have inv: "mb_inv (mailboxes s1 i)" by simp
  from mb_recv_step_cases [OF received(2)] obtain m where "mb_pop (mailboxes s1 i) = Some (v, m)" "mailboxes s2 i = m" by auto
  with mbq.pop_SomeD [OF inv] received.IH received.prems show ?case by (metis append.assoc append_Cons append_Nil)
next
  case (not_received acc out s1 r s2)
  with mb_recv_step_cases [OF not_received(2)] show ?case by auto
next
  case (other acc out s1 s2)
  then show ?case by simp
qed simp

section \<open>Sending on every branch\<close>

lemma resume_and_schedule_effect:
  assumes ok: "sys_ok s" and h: "wait_head h" and ty: "waiters_typed h s"
  obtains s' where "resume_and_schedule h s = Some s'" "sys_ok s'" "ipc_frame s s'"
    "thread_lists s' h = tl (thread_lists s h)"
    "\<And>t ts. thread_lists s h = t # ts \<Longrightarrow> thread_stat s' t = RT_THREAD_READY \<and>
       error (threads s' t) = error (threads s t)"
proof (cases "thread_lists s h")
  case Nil
  with ok that [of s] show thesis by (simp add: resume_and_schedule_def)
next
  case (Cons t ts)
  from ty Cons have tt: "is_thread t s = Some ()" "is_timer (ThreadTimer t) s = Some ()"
    by (simp_all add: waiters_typed_def)
  obtain s1 s' where "rt_ipc_list_resume h s = Some s1" "rt_schedule s1 = Some s'" "sys_ok s'" "ipc_frame s s'"
    "thread_stat s' t = RT_THREAD_READY" "thread_lists s' h = ts" "error (threads s' t) = error (threads s t)"
    by (rule resume_schedule_effect [OF ok h Cons tt]) blast
  with Cons that [of s'] show thesis by (simp add: resume_and_schedule_def)
qed

text \<open>
  \<^verbatim>\<open>rt_mb_send_wait\<close> on every branch: with room the word is appended and the first waiting
  receiver is made ready; on a full mailbox it fails at once with \<^verbatim>\<open>-RT_EFULL\<close> when no time is given,
  and otherwise the sender waits at its place in the queue of senders and another thread runs.
\<close>

theorem rt_mb_send_wait_result:
  assumes mb: "may_block s t" and inv: "mb_inv (mailboxes s i)" and ty: "is_mb i s = Some ()"
    and flag: "ipc_order (ipc_flag (OMailBox i) s)" and wt: "waiters_typed (IpcSuspend (OMailBox i)) s"
    and time: "0 < sint timeout \<longrightarrow> timeout < RT_TICK_MAX div 2"
  shows "if mb_entry (mailboxes s i) < mb_size (mailboxes s i)
     then \<exists>s'. rt_mb_send_wait i v timeout s = Some (Returned RT_EOK, s') \<and> sys_ok s' \<and>
       mb_data (mailboxes s' i) = mb_data (mailboxes s i) @ [v] \<and> mb_receivers i s' = tl (mb_receivers i s) \<and>
       (mb_receivers i s \<noteq> [] \<longrightarrow> thread_stat s' (hd (mb_receivers i s)) = RT_THREAD_READY)
     else if timeout = 0 then rt_mb_send_wait i v timeout s = Some (Returned (- RT_EFULL), s)
     else \<exists>s' u. rt_mb_send_wait i v timeout s = Some (Blocked (timeout, if 0 < sint timeout then rt_tick s else 0), s') \<and>
       sys_ok s' \<and> mailboxes s' = mailboxes s \<and> thread_stat s' t = RT_THREAD_SUSPEND \<and>
       mb_senders i s' = queue_insert (ipc_flag (OMailBox i) s) (\<lambda>u. current_priority (threads s u)) t (mb_senders i s) \<and>
       rt_current_thread s' = Some u \<and> u \<noteq> t \<and> thread_stat s' u = RT_THREAD_READY"
proof (cases "mb_entry (mailboxes s i) < mb_size (mailboxes s i)")
  case True
  then have ne: "mb_entry (mailboxes s i) \<noteq> mb_size (mailboxes s i)" by auto
  from mb_push_space [OF inv True, of v] ne obtain m where m: "mb_store v (mailboxes s i) = Some m"
    "mb_data m = mb_data (mailboxes s i) @ [v]" by (auto simp: mb_push_def)
  let ?s0 = "mailbox_update i (\<lambda>_. m) s"
  have ok0: "sys_ok ?s0" using may_blockD(1) [OF mb] by simp
  have wt0: "waiters_typed (IpcSuspend (OMailBox i)) ?s0"
    using wt by (simp add: waiters_typed_def is_thread_def is_timer_def rt_object_get_type_def)
  obtain s' where s': "resume_and_schedule (IpcSuspend (OMailBox i)) ?s0 = Some s'" "sys_ok s'" "ipc_frame ?s0 s'"
    "mb_receivers i s' = tl (mb_receivers i ?s0)"
    and rdy: "\<And>t ts. mb_receivers i ?s0 = t # ts \<Longrightarrow> thread_stat s' t = RT_THREAD_READY \<and>
       error (threads s' t) = error (threads ?s0 t)"
    by (rule resume_and_schedule_effect [OF ok0 _ wt0]) (simp, blast)
  have "rt_mb_send_wait i v timeout s = Some (Returned RT_EOK, s')"
    using ty ne m(1) s'(1) by (simp add: rt_mb_send_wait_def mb_send_loop_def)
  moreover have "mailboxes s' i = m" using ipc_frameD(4) [OF s'(3)] by simp
  ultimately show ?thesis
    using True s'(2,4) m(2) rdy by (cases "mb_receivers i s") simp_all
next
  case False
  then have full: "mb_entry (mailboxes s i) = mb_size (mailboxes s i)" using inv by (simp add: mb_inv_def)
  show ?thesis
  proof (cases "timeout = 0")
    case True
    with False full ty show ?thesis by (simp add: rt_mb_send_wait_def)
  next
    case wait: False
    let ?f = "\<lambda>th. th\<lparr>error := RT_EOK\<rparr>"
    obtain s' u where s': "ipc_block (SenderSuspend (OMailBox i)) t (ipc_flag (OMailBox i) s) timeout (thread_update t ?f s) = Some s'"
      "sys_ok s'" "ipc_frame s s'" "thread_stat s' t = RT_THREAD_SUSPEND"
      "mb_senders i s' = queue_insert (ipc_flag (OMailBox i) s) (\<lambda>u. current_priority (threads s u)) t (mb_senders i s)"
      "rt_current_thread s' = Some u" "u \<noteq> t" "thread_stat s' u = RT_THREAD_READY"
      by (rule ipc_block_call [OF mb _ _ flag, of ?f "SenderSuspend (OMailBox i)" timeout])
        (use time in \<open>simp, simp, simp, blast\<close>)
    have mb0: "may_block (thread_update t ?f s) t" using mb by (simp add: may_block_update)
    have "ipc_flag (OMailBox i) (thread_update t ?f s) = ipc_flag (OMailBox i) s" by (simp add: ipc_flag_def)
    then have "rt_mb_send_wait i v timeout s
        = Some (Blocked (timeout, if 0 < sint timeout then rt_tick s else 0), s')"
      using full wait ty s'(1) may_blockD(7,8) [OF mb0] may_blockD(8) [OF mb]
      by (simp add: rt_mb_send_wait_def mb_send_loop_def wait_start_def rt_tick_get_def Let_def)
    with False wait s' show ?thesis by (auto simp: ipc_frameD [OF s'(3)])
  qed
qed

text \<open>
  \<^verbatim>\<open>rt_mb_send_wait\<close> does not check that the scheduler is unlocked, as \<^verbatim>\<open>rt_mb_recv\<close> does. Called with
  the scheduler locked on a full mailbox it marks the running thread suspended and queues it, but the
  schedule is refused: the call goes on at once, finds the mailbox still full and inserts the thread's
  list node a second time while it is linked, for which the list operation has no result.
\<close>

theorem rt_mb_send_wait_locked:
  assumes ok: "sys_ok s" and lock: "preempt_level s \<noteq> 0" "rt_interrupt_get_nest s = 0"
    and cur: "rt_current_thread s = Some t" "thread_stat s t = RT_THREAD_READY" "thread_typed s t"
    and ty: "is_mb i s = Some ()" "ipc_order (ipc_flag (OMailBox i) s)"
    and full: "mb_entry (mailboxes s i) = mb_size (mailboxes s i)"
    and time: "timeout \<noteq> 0" "0 < sint timeout \<longrightarrow> timeout < RT_TICK_MAX div 2"
  shows "\<exists>w s'. rt_mb_send_wait i v timeout s = Some (Blocked w, s') \<and> rt_current_thread s' = Some t \<and>
    thread_stat s' t = RT_THREAD_SUSPEND \<and> t \<in> set (mb_senders i s') \<and>
    rt_mb_send_wait_wake i t v w s' = None"
proof -
  let ?f = "\<lambda>th. th\<lparr>error := RT_EOK\<rparr>" and ?h = "SenderSuspend (OMailBox i)"
  let ?s0 = "thread_update t ?f s" and ?fl = "ipc_flag (OMailBox i) s"
  have pu: "private_update ?f" by simp
  have inv0: "sched_inv ?s0" using ok by (simp add: sys_ok_def private_update_inv)
  have fl0: "ipc_flag (OMailBox i) ?s0 = ?fl" by (simp add: ipc_flag_def)
  obtain s1 where 1: "wait_on (ipc_ins ?fl) ?h t timeout ?s0 = Some s1" "sched_inv s1" "ipc_frame ?s0 s1"
    and th1: "threads s1 = (threads ?s0)(t := (threads ?s0 t)\<lparr>stat := suspend_stat (stat (threads ?s0 t)), tlist := Some ?h\<rparr>)"
    and li1: "\<And>h'. thread_lists s1 h' = (if h' = ?h
        then queue_insert ?fl (\<lambda>u. current_priority (threads ?s0 u)) t (thread_lists ?s0 ?h)
        else remove1 t (thread_lists ?s0 h'))"
    and cur1: "rt_current_thread s1 = rt_current_thread ?s0"
    by (rule queue_discipline.wait_effect [OF ipc_discipline [of ?fl] inv0, of t ?h timeout])
      (use cur(2,3) time(2) in \<open>simp add: private_update_inv [OF pu], simp add: private_update_inv [OF pu], simp, simp, blast\<close>)
  have lev: "preempt_level s1 \<noteq> 0" "rt_interrupt_get_nest s1 = 0"
    using preempt_cong [OF cur1] lock by (simp_all add: th1 private_update_inv [OF pu])
  let ?s' = "thread_set_resched s1" and ?w = "(timeout, wait_start timeout 0 ?s0)"
  have sch: "rt_schedule s1 = Some ?s'" using lev(1) by (simp add: rt_schedule_def)
  note fr = rt_schedule_frame [OF sch]
  have ipc: "ipc_frame ?s0 ?s'" by (rule ipc_frame_trans [OF 1(3) resched_ipc_frame [OF fr]])
  have self: "rt_thread_self s = Some t" "rt_thread_self ?s0 = Some t" using cur(1) by (simp_all add: rt_thread_self_def)
  have ctx: "RT_DEBUG_IN_THREAD_CONTEXT ?s0 = Some ()"
    using self lock(2) by (simp add: RT_DEBUG_IN_THREAD_CONTEXT_def RT_DEBUG_NOT_IN_INTERRUPT_def rt_assert_def
        private_update_inv [OF pu])
  have call: "rt_mb_send_wait i v timeout s = Some (Blocked ?w, ?s')"
    using ty(1) full time(1) self ctx fl0 1(1) sch
    by (simp add: rt_mb_send_wait_def mb_send_loop_def ipc_block_def ipc_suspend_on(2) [OF ty(2)] Let_def)
  have mem: "t \<in> set (mb_senders i ?s')"
    by (auto simp: resched_frameD [OF fr] li1 queue_insert_def prio_insert_perm)
  have curt: "rt_current_thread ?s' = Some t"
    using cur(1) cur1 by (simp add: thread_set_resched_def current_update_frame)
  have st: "thread_stat ?s' t = RT_THREAD_SUSPEND"
    by (simp add: resched_frame_thread [OF fr] th1 thread_stat_def)
  have err: "error (threads ?s' t) = RT_EOK" by (simp add: resched_frame_thread [OF fr] th1)
  have linked: "tlist (threads ?s' t) = Some ?h" by (simp add: resched_frame_thread [OF fr] th1)
  have left: "timeout_left timeout (wait_start timeout 0 ?s0) ?s' \<noteq> 0"
    using time(1) ipc_frameD(7) [OF ipc] by (simp add: timeout_left_def wait_start_def rt_tick_get_def Let_def)
  have tyt: "is_thread t ?s' = Some ()"
    using cur(3) ipc_frameD(11) [OF ipc] ipc_frameD(11) [OF ipc_frame_thread_fields(7)] by (metis thread_typed_def)
  let ?s2 = "thread_update t ?f ?s'"
  have "rt_ipc_list_suspend ?h t (ipc_flag (OMailBox i) ?s2) ?s2 = None"
  proof -
    have "is_thread t ?s2 = Some ()" using tyt ipc_frameD(11) [OF ipc_frame_thread_fields(7)] by metis
    then have "rt_thread_suspend t ?s2 = Some (- RT_ERROR, ?s2)"
      using st by (simp add: rt_thread_suspend_def private_update_inv [OF pu])
    moreover have "ipc_flag (OMailBox i) ?s2 = ?fl"
      using ipc_frameD(13) [OF ipc, of "OMailBox i"] by (simp add: ipc_flag_def)
    ultimately show ?thesis
      using linked ty(2) by (auto simp: rt_ipc_list_suspend_def rt_list_insert_before_def rt_list_insert_prio_def ipc_order_def)
  qed
  then have "ipc_block ?h t (ipc_flag (OMailBox i) ?s2) tm ?s2 = None" for tm
    by (simp add: ipc_block_def ipc_wait_def)
  then have "rt_mb_send_wait_wake i t v ?w ?s' = None"
    using err full left ipc_frameD(4) [OF ipc]
    by (simp add: rt_mb_send_wait_wake_def mb_send_loop_def Let_def)
  with call curt st mem show ?thesis by blast
qed

end
