(* ===== verification/RTT_MsgQueue.thy ===== *)
theory RTT_MsgQueue
  imports RTT_Mailbox
begin

text \<open>
  Message queues (\<^verbatim>\<open>ipc.c\<close>). The pool is cut into blocks, each with a header that links it into the
  queue or into the free list; a block is named by its number. A send takes a free block in one
  critical section, fills it with interrupts enabled and links it in a second one; a receive
  unlinks, copies and frees in the same way. Each of these pieces is a definition of its own, and
  the operations compose them.
\<close>

definition mq_update :: "nat \<Rightarrow> (rt_messagequeue \<Rightarrow> rt_messagequeue) \<Rightarrow> kstate \<Rightarrow> kstate" where
  "mq_update i f s = s\<lparr>msgqueues := (msgqueues s)(i := f (msgqueues s i))\<rparr>"

definition is_mq :: "nat \<Rightarrow> kstate \<Rightarrow> unit option" where
  "is_mq i s = rt_assert (rt_object_get_type (OMessageQueue i) s = RT_Object_Class_MessageQueue)"

abbreviation mq_receivers :: "nat \<Rightarrow> kstate \<Rightarrow> tid list" where
  "mq_receivers i s \<equiv> thread_lists s (IpcSuspend (OMessageQueue i))"

abbreviation mq_senders :: "nat \<Rightarrow> kstate \<Rightarrow> tid list" where
  "mq_senders i s \<equiv> thread_lists s (SenderSuspend (OMessageQueue i))"

section \<open>Blocks\<close>

text \<open>The loop that pushes every block of the pool onto the free list.\<close>

fun mq_free_all :: "nat \<Rightarrow> rt_messagequeue \<Rightarrow> rt_messagequeue" where
  "mq_free_all 0 m = m"
| "mq_free_all (Suc temp) m =
     (let m = mq_free_all temp m
      in m\<lparr>mq_next := (mq_next m)(temp := msg_queue_free m), msg_queue_free := Some temp\<rparr>)"

definition mq_take_free :: "nat \<Rightarrow> rt_messagequeue \<Rightarrow> rt_messagequeue" where
  "mq_take_free msg m = m\<lparr>msg_queue_free := mq_next m msg\<rparr>"

definition mq_copy_in :: "nat \<Rightarrow> u8 list \<Rightarrow> u32 \<Rightarrow> rt_messagequeue \<Rightarrow> rt_messagequeue option" where
  "mq_copy_in msg buffer sz m = do {
     d \<leftarrow> memcpy_at (mq_data m msg) 0 buffer 0 (uint sz);
     Some (m\<lparr>mq_data := (mq_data m)(msg := d)\<rparr>) }"

definition mq_clear_next :: "nat \<Rightarrow> rt_messagequeue \<Rightarrow> rt_messagequeue" where
  "mq_clear_next msg m = m\<lparr>mq_next := (mq_next m)(msg := None)\<rparr>"

definition mq_link_tail :: "nat \<Rightarrow> rt_messagequeue \<Rightarrow> rt_messagequeue" where
  "mq_link_tail msg m =
     (let m = (case msg_queue_tail m of
                 Some t \<Rightarrow> m\<lparr>mq_next := (mq_next m)(t := Some msg)\<rparr>
               | None \<Rightarrow> m)
      in m\<lparr>msg_queue_tail := Some msg,
           msg_queue_head := (if msg_queue_head m = None then Some msg else msg_queue_head m),
           mq_entry := mq_entry m + 1\<rparr>)"

definition mq_link_head :: "nat \<Rightarrow> rt_messagequeue \<Rightarrow> rt_messagequeue" where
  "mq_link_head msg m =
     m\<lparr>mq_next := (mq_next m)(msg := msg_queue_head m), msg_queue_head := Some msg,
       msg_queue_tail := (if msg_queue_tail m = None then Some msg else msg_queue_tail m),
       mq_entry := mq_entry m + 1\<rparr>"

definition mq_unlink_head :: "nat \<Rightarrow> rt_messagequeue \<Rightarrow> rt_messagequeue" where
  "mq_unlink_head msg m =
     m\<lparr>msg_queue_head := mq_next m msg,
       msg_queue_tail := (if msg_queue_tail m = Some msg then None else msg_queue_tail m)\<rparr>"

definition mq_put_free :: "nat \<Rightarrow> rt_messagequeue \<Rightarrow> rt_messagequeue" where
  "mq_put_free msg m =
     m\<lparr>mq_next := (mq_next m)(msg := msg_queue_free m), msg_queue_free := Some msg\<rparr>"

partial_function (option) mq_drain :: "rt_messagequeue \<Rightarrow> rt_messagequeue option" where
  "mq_drain m =
     (case msg_queue_head m of
        None \<Rightarrow> Some m
      | Some msg \<Rightarrow> mq_drain (mq_put_free msg (mq_unlink_head msg m)))"

section \<open>Operations\<close>

text \<open>
  \<open>blocks\<close> is the contents of the payloads in the memory that the caller or the allocator provides.
\<close>

definition mq_setup :: "u32 \<Rightarrow> u16 \<Rightarrow> (nat \<Rightarrow> u8 list) \<Rightarrow> rt_messagequeue" where
  "mq_setup msgsize maxmsgs blocks =
     (mq_free_all (unat maxmsgs)
        \<lparr>mq_msg_size = ucast (RT_ALIGN msgsize RT_ALIGN_SIZE), max_msgs = maxmsgs, mq_entry = 0,
         mq_next = (\<lambda>_. None), mq_data = blocks, msg_queue_head = None, msg_queue_tail = None,
         msg_queue_free = None\<rparr>)\<lparr>mq_entry := 0\<rparr>"

definition rt_mq_init ::
  "nat \<Rightarrow> string \<Rightarrow> (nat \<Rightarrow> u8 list) \<Rightarrow> u32 \<Rightarrow> u32 \<Rightarrow> u8 \<Rightarrow> kstate \<Rightarrow> (rt_err_t \<times> kstate) option" where
  "rt_mq_init i name blocks msgsize pool_bytes flag s = do {
     s \<leftarrow> rt_object_init (OMessageQueue i) RT_Object_Class_MessageQueue name s;
     let s = rt_ipc_object_init (OMessageQueue i) (set_ipc_flag (OMessageQueue i) flag s);
     let aligned = (ucast (RT_ALIGN msgsize RT_ALIGN_SIZE) :: u16);
     let s = mq_update i (\<lambda>_. mq_setup msgsize (ucast (pool_bytes div (ucast aligned + 4))) blocks) s;
     Some (RT_EOK, sender_list_init (OMessageQueue i) s) }"

definition rt_mq_detach :: "nat \<Rightarrow> kstate \<Rightarrow> (rt_err_t \<times> kstate) option" where
  "rt_mq_detach i s = do {
     is_mq i s;
     rt_assert (rt_object_is_systemobject (OMessageQueue i) s);
     s \<leftarrow> rt_ipc_list_resume_all (IpcSuspend (OMessageQueue i)) s;
     s \<leftarrow> rt_ipc_list_resume_all (SenderSuspend (OMessageQueue i)) s;
     Some (RT_EOK, rt_object_detach (OMessageQueue i) s) }"

definition rt_mq_create ::
  "string \<Rightarrow> u32 \<Rightarrow> u32 \<Rightarrow> u8 \<Rightarrow> nat option \<Rightarrow> (nat \<Rightarrow> u8 list) option \<Rightarrow> kstate \<Rightarrow> (nat option \<times> kstate) option" where
  "rt_mq_create name msgsize maxmsgs flag mem pool s = do {
     RT_DEBUG_NOT_IN_INTERRUPT s;
     (x, s) \<leftarrow> rt_object_allocate RT_Object_Class_MessageQueue name (map_option OMessageQueue mem) s;
     (case x of
        Some (OMessageQueue i) \<Rightarrow> do {
          let s = rt_ipc_object_init (OMessageQueue i) (set_ipc_flag (OMessageQueue i) flag s);
          let s = mq_update i (\<lambda>m. m\<lparr>mq_msg_size := ucast (RT_ALIGN msgsize RT_ALIGN_SIZE),
                                     max_msgs := ucast maxmsgs\<rparr>) s;
          (case pool of
             None \<Rightarrow> do { s \<leftarrow> rt_object_delete (OMessageQueue i) s; Some (None, s) }
           | Some blocks \<Rightarrow>
               Some (Some i, sender_list_init (OMessageQueue i)
                 (mq_update i (\<lambda>_. mq_setup msgsize (ucast maxmsgs) blocks) s))) }
      | _ \<Rightarrow> Some (None, s)) }"

definition rt_mq_delete :: "nat \<Rightarrow> kstate \<Rightarrow> (rt_err_t \<times> kstate) option" where
  "rt_mq_delete i s = do {
     RT_DEBUG_NOT_IN_INTERRUPT s;
     is_mq i s;
     rt_assert (\<not> rt_object_is_systemobject (OMessageQueue i) s);
     s \<leftarrow> rt_ipc_list_resume_all (IpcSuspend (OMessageQueue i)) s;
     s \<leftarrow> rt_ipc_list_resume_all (SenderSuspend (OMessageQueue i)) s;
     s \<leftarrow> rt_object_delete (OMessageQueue i) s;
     Some (RT_EOK, s) }"

definition mq_send_loop ::
  "nat \<Rightarrow> tid option \<Rightarrow> u8 list \<Rightarrow> u32 \<Rightarrow> u32 \<Rightarrow> u32 \<Rightarrow> kstate
     \<Rightarrow> ((rt_err_t, u32 \<times> u32) outcome \<times> kstate) option" where
  "mq_send_loop i thread buffer sz timeout tick_delta s =
     (case msg_queue_free (msgqueues s i) of
        None \<Rightarrow> do {
          t \<leftarrow> thread;
          let s = thread_update t (\<lambda>th. th\<lparr>error := RT_EOK\<rparr>) s;
          if timeout = 0 then Some (Returned (- RT_EFULL), s)
          else do {
            RT_DEBUG_IN_THREAD_CONTEXT s;
            let tick_delta = wait_start timeout tick_delta s;
            s \<leftarrow> ipc_block (SenderSuspend (OMessageQueue i)) t (ipc_flag (OMessageQueue i) s) timeout s;
            Some (Blocked (timeout, tick_delta), s) } }
      | Some msg \<Rightarrow> do {
          m \<leftarrow> mq_copy_in msg buffer sz (mq_clear_next msg (mq_take_free msg (msgqueues s i)));
          s \<leftarrow> resume_and_schedule (IpcSuspend (OMessageQueue i)) (mq_update i (\<lambda>_. mq_link_tail msg m) s);
          Some (Returned RT_EOK, s) })"

definition rt_mq_send_wait ::
  "nat \<Rightarrow> u8 list \<Rightarrow> u32 \<Rightarrow> u32 \<Rightarrow> kstate \<Rightarrow> ((rt_err_t, u32 \<times> u32) outcome \<times> kstate) option" where
  "rt_mq_send_wait i buffer sz timeout s = do {
     is_mq i s;
     rt_assert (sz \<noteq> 0);
     if sz > ucast (mq_msg_size (msgqueues s i)) then Some (Returned (- RT_ERROR), s)
     else if msg_queue_free (msgqueues s i) = None \<and> timeout = 0
     then Some (Returned (- RT_EFULL), s)
     else mq_send_loop i (rt_thread_self s) buffer sz timeout 0 s }"


definition rt_mq_send ::
  "nat \<Rightarrow> u8 list \<Rightarrow> u32 \<Rightarrow> kstate \<Rightarrow> ((rt_err_t, u32 \<times> u32) outcome \<times> kstate) option" where
  "rt_mq_send i buffer sz s = rt_mq_send_wait i buffer sz 0 s"





definition rt_mq_control :: "nat \<Rightarrow> ipc_cmd \<Rightarrow> kstate \<Rightarrow> (rt_err_t \<times> kstate) option" where
  "rt_mq_control i cmd s = do {
     is_mq i s;
     (case cmd of
        IPC_RESET _ \<Rightarrow> do {
          s \<leftarrow> rt_ipc_list_resume_all (IpcSuspend (OMessageQueue i)) s;
          s \<leftarrow> rt_ipc_list_resume_all (SenderSuspend (OMessageQueue i)) s;
          m \<leftarrow> mq_drain (msgqueues s i);
          s \<leftarrow> rt_schedule (mq_update i (\<lambda>_. m\<lparr>mq_entry := 0\<rparr>) s);
          Some (RT_EOK, s) }
      | _ \<Rightarrow> Some (- RT_ERROR, s)) }"

section \<open>Chains of blocks\<close>

text \<open>
  \<open>mq_shape m us fs fl\<close>: the queue is the chain \<open>us\<close>, the free list the chain \<open>fs\<close>, and the blocks \<open>fl\<close>
  are in the hands of threads between their two critical sections; every block is in exactly one
  of the three places. \<open>mq_rep\<close> adds that the entry count is the length of the queue.
\<close>

definition mq_shape :: "rt_messagequeue \<Rightarrow> nat list \<Rightarrow> nat list \<Rightarrow> nat set \<Rightarrow> bool" where
  "mq_shape m us fs fl \<longleftrightarrow>
     chain (mq_next m) (msg_queue_head m) us \<and> chain (mq_next m) (msg_queue_free m) fs \<and>
     msg_queue_tail m = (if us = [] then None else Some (last us)) \<and>
     distinct (us @ fs) \<and> set us \<inter> fl = {} \<and> set fs \<inter> fl = {} \<and>
     set us \<union> set fs \<union> fl = {..<unat (max_msgs m)} \<and>
     (\<forall>b<unat (max_msgs m). length (mq_data m b) = unat (mq_msg_size m))"

definition mq_rep :: "rt_messagequeue \<Rightarrow> nat list \<Rightarrow> nat list \<Rightarrow> nat set \<Rightarrow> bool" where
  "mq_rep m us fs fl \<longleftrightarrow> mq_shape m us fs fl \<and> unat (mq_entry m) = length us"

lemma mq_rep_heads:
  assumes "mq_rep m us fs fl"
  shows "msg_queue_head m = (case us of [] \<Rightarrow> None | b # _ \<Rightarrow> Some b)"
    "msg_queue_free m = (case fs of [] \<Rightarrow> None | b # _ \<Rightarrow> Some b)"
    "mq_entry m = 0 \<longleftrightarrow> us = []"
proof -
  show "msg_queue_head m = (case us of [] \<Rightarrow> None | b # _ \<Rightarrow> Some b)"
    "msg_queue_free m = (case fs of [] \<Rightarrow> None | b # _ \<Rightarrow> Some b)"
    using assms by (cases us; cases fs; simp add: mq_rep_def mq_shape_def)+
  have "unat (mq_entry m) = length us" using assms by (simp add: mq_rep_def)
  then show "mq_entry m = 0 \<longleftrightarrow> us = []" by (metis length_0_conv unat_eq_zero)
qed

lemma mq_rep_entry_room:
  assumes "mq_rep m us fs fl" "b \<in> fl"
  shows "unat (mq_entry m + 1) = Suc (length us)"
proof -
  have d: "distinct us" "set us \<union> {b} \<subseteq> {..<unat (max_msgs m)}" "b \<notin> set us" "unat (mq_entry m) = length us"
    using assms by (auto simp: mq_rep_def mq_shape_def)
  then have "card (set us \<union> {b}) \<le> unat (max_msgs m)"
    using card_mono [OF finite_lessThan d(2)] by simp
  then have "Suc (length us) \<le> unat (max_msgs m)" using d by (simp add: distinct_card)
  also have "\<dots> < 2 ^ 16" using unsigned_less [of "max_msgs m"] by simp
  finally show ?thesis using d(4) by (subst unat_add_lem [THEN iffD1]) simp_all
qed

lemma mq_take_free_rep:
  assumes "mq_rep m us (b # fs) fl"
  shows "mq_rep (mq_take_free b m) us fs (insert b fl)"
  using assms by (auto simp: mq_rep_def mq_shape_def mq_take_free_def)

lemma mq_clear_next_rep:
  assumes "mq_rep m us fs fl" "b \<in> fl"
  shows "mq_rep (mq_clear_next b m) us fs fl"
proof -
  have "b \<notin> set us" "b \<notin> set fs" using assms by (auto simp: mq_rep_def mq_shape_def)
  with assms(1) show ?thesis by (simp add: mq_rep_def mq_shape_def mq_clear_next_def)
qed

lemma uint_le_int: "uint w \<le> int n \<longleftrightarrow> unat w \<le> n"
  by (metis of_nat_le_iff of_nat_unat)

lemma mq_copy_in_rep:
  assumes "mq_rep m us fs fl" "mq_copy_in b buffer sz m = Some m'"
  shows "mq_rep m' us fs fl \<and> unat sz \<le> length buffer \<and>
    m' = m\<lparr>mq_data := (mq_data m)(b := take (unat sz) buffer @ drop (unat sz) (mq_data m b))\<rparr>"
proof -
  from assms(2) have le: "unat sz \<le> length (mq_data m b)" "unat sz \<le> length buffer"
    and m': "m' = m\<lparr>mq_data := (mq_data m)(b := take (unat sz) buffer @ drop (unat sz) (mq_data m b))\<rparr>"
    by (auto simp: mq_copy_in_def memcpy_at_def bind_Some_iff uint_le_int split: if_splits)
  with assms(1) show ?thesis by (auto simp: mq_rep_def mq_shape_def)
qed

lemma mq_copy_in_total:
  assumes "unat sz \<le> length (mq_data m b)" "unat sz \<le> length buffer"
  shows "mq_copy_in b buffer sz m \<noteq> None"
  using assms by (simp add: mq_copy_in_def memcpy_at_def uint_le_int)

lemma mq_link_tail_rep:
  assumes rep: "mq_rep m us fs fl" and b: "b \<in> fl" and nx: "mq_next m b = None"
  shows "mq_rep (mq_link_tail b m) (us @ [b]) fs (fl - {b})"
proof -
  have nb: "b \<notin> set us" "b \<notin> set fs" using rep b by (auto simp: mq_rep_def mq_shape_def)
  note e = mq_rep_entry_room [OF rep b]
  show ?thesis
  proof (cases us rule: rev_exhaust)
    case Nil
    with rep b nb nx e show ?thesis by (auto simp: mq_rep_def mq_shape_def mq_link_tail_def)
  next
    case (snoc vs v)
    have c: "chain (mq_next m) (msg_queue_head m) (vs @ [v])" and v: "v \<notin> set vs" "v \<notin> set fs"
      and t: "msg_queue_tail m = Some v"
      using rep snoc by (auto simp: mq_rep_def mq_shape_def)
    have h: "msg_queue_head m \<noteq> None" using c by (cases vs) auto
    have "chain ((mq_next m)(v := Some b)) (msg_queue_head m) (vs @ [v, b])"
      by (rule chain_snoc [OF c]) (use nb snoc v nx in auto)
    with rep snoc nb v t h e b show ?thesis
      by (auto simp: mq_rep_def mq_shape_def mq_link_tail_def)
  qed
qed

lemma mq_link_head_rep:
  assumes rep: "mq_rep m us fs fl" and b: "b \<in> fl"
  shows "mq_rep (mq_link_head b m) (b # us) fs (fl - {b})"
proof -
  have nb: "b \<notin> set us" "b \<notin> set fs" using rep b by (auto simp: mq_rep_def mq_shape_def)
  with mq_rep_entry_room [OF rep b] rep b show ?thesis
    by (auto simp: mq_rep_def mq_shape_def mq_link_head_def)
qed

lemma mq_unlink_head_shape:
  assumes "mq_shape m (b # us) fs fl"
  shows "mq_shape (mq_unlink_head b m) us fs (insert b fl)"
  using assms by (auto simp: mq_shape_def mq_unlink_head_def)

lemma mq_put_free_shape:
  assumes "mq_shape m us fs fl" "b \<in> fl"
  shows "mq_shape (mq_put_free b m) us (b # fs) (fl - {b})"
proof -
  have "b \<notin> set us" "b \<notin> set fs" using assms by (auto simp: mq_shape_def)
  with assms show ?thesis by (auto simp: mq_shape_def mq_put_free_def)
qed

lemma mq_shape_entry [simp]: "mq_shape (m\<lparr>mq_entry := e\<rparr>) us fs fl = mq_shape m us fs fl"
  by (simp add: mq_shape_def)

lemma mq_unlink_head_rep:
  assumes "mq_rep m (b # us) fs fl"
  shows "mq_rep ((mq_unlink_head b m)\<lparr>mq_entry := mq_entry m - 1\<rparr>) us fs (insert b fl)"
proof -
  have "mq_entry m \<noteq> 0" using mq_rep_heads(3) [OF assms] by simp
  then have "unat (mq_entry m - 1) = unat (mq_entry m) - 1" by (rule unat_minus_one)
  with assms mq_unlink_head_shape show ?thesis by (simp add: mq_rep_def)
qed

lemma mq_put_free_rep:
  assumes "mq_rep m us fs fl" "b \<in> fl"
  shows "mq_rep (mq_put_free b m) us (b # fs) (fl - {b})"
  using mq_put_free_shape assms by (simp add: mq_rep_def mq_put_free_def)

lemma mq_drain_rep:
  assumes "mq_shape m us fs fl"
  shows "\<exists>m'. mq_drain m = Some m' \<and> mq_rep (m'\<lparr>mq_entry := 0\<rparr>) [] (rev us @ fs) fl"
  using assms
proof (induction us arbitrary: m fs)
  case Nil
  then have "msg_queue_head m = None" by (simp add: mq_shape_def)
  with Nil show ?case by (subst mq_drain.simps) (simp add: mq_rep_def)
next
  case (Cons b us)
  have nb: "b \<notin> fl" using Cons.prems by (auto simp: mq_shape_def)
  have h: "msg_queue_head m = Some b" using Cons.prems by (simp add: mq_shape_def)
  have "mq_shape (mq_put_free b (mq_unlink_head b m)) us (b # fs) (insert b fl - {b})"
    by (rule mq_put_free_shape [OF mq_unlink_head_shape [OF Cons.prems]]) simp
  then have "mq_shape (mq_put_free b (mq_unlink_head b m)) us (b # fs) fl" using nb by simp
  from Cons.IH [OF this] h show ?case by (subst mq_drain.simps) simp
qed

lemma mq_free_all_shape:
  assumes "mq_shape m [] [] {..<unat (max_msgs m)}" "n \<le> unat (max_msgs m)"
  shows "mq_shape (mq_free_all n m) [] (rev [0..<n]) {n..<unat (max_msgs m)} \<and>
    max_msgs (mq_free_all n m) = max_msgs m"
  using assms(2)
proof (induction n)
  case 0
  then show ?case using assms(1) by (simp add: atLeast0LessThan)
next
  case (Suc n)
  let ?m = "mq_free_all n m"
  from Suc have ih: "mq_shape ?m [] (rev [0..<n]) {n..<unat (max_msgs m)}" "max_msgs ?m = max_msgs m" by auto
  have "{n..<unat (max_msgs m)} - {n} = {Suc n..<unat (max_msgs m)}" by auto
  with mq_put_free_shape [OF ih(1), of n] Suc.prems ih(2) show ?case
    by (simp add: mq_put_free_def Let_def)
qed

text \<open>A queue that was just set up is empty and owns all its blocks.\<close>

lemma mq_setup_rep:
  assumes "\<And>b. b < unat n \<Longrightarrow> length (blocks b) = unat (ucast (RT_ALIGN msgsize RT_ALIGN_SIZE) :: u16)"
  shows "mq_rep (mq_setup msgsize n blocks) [] (rev [0..<unat n]) {}"
proof -
  let ?m0 = "\<lparr>mq_msg_size = ucast (RT_ALIGN msgsize RT_ALIGN_SIZE), max_msgs = n, mq_entry = 0,
         mq_next = (\<lambda>_. None), mq_data = blocks, msg_queue_head = None, msg_queue_tail = None,
         msg_queue_free = None\<rparr>"
  have "mq_shape ?m0 [] [] {..<unat (max_msgs ?m0)}" using assms by (simp add: mq_shape_def)
  from mq_free_all_shape [OF this, of "unat n"] show ?thesis by (simp add: mq_setup_def mq_rep_def)
qed

section \<open>No block is lost\<close>

text \<open>
  The pieces of sends, urgent sends and receives of any number of threads, interleaved in any
  order. A block that was filled has a cleared link when it is linked at the tail.
\<close>

inductive mq_piece :: "rt_messagequeue \<times> nat set \<Rightarrow> rt_messagequeue \<times> nat set \<Rightarrow> bool" where
  take_free: "msg_queue_free m = Some b \<Longrightarrow> mq_piece (m, fl) (mq_take_free b m, insert b fl)"
| clear_next: "b \<in> fl \<Longrightarrow> mq_piece (m, fl) (mq_clear_next b m, fl)"
| copy_in: "b \<in> fl \<Longrightarrow> mq_copy_in b buffer sz m = Some m' \<Longrightarrow> mq_piece (m, fl) (m', fl)"
| link_tail: "b \<in> fl \<Longrightarrow> mq_next m b = None \<Longrightarrow> mq_piece (m, fl) (mq_link_tail b m, fl - {b})"
| link_head: "b \<in> fl \<Longrightarrow> mq_piece (m, fl) (mq_link_head b m, fl - {b})"
| unlink: "mq_entry m \<noteq> 0 \<Longrightarrow> msg_queue_head m = Some b \<Longrightarrow>
    mq_piece (m, fl) ((mq_unlink_head b m)\<lparr>mq_entry := mq_entry m - 1\<rparr>, insert b fl)"
| put_free: "b \<in> fl \<Longrightarrow> mq_piece (m, fl) (mq_put_free b m, fl - {b})"

lemma mq_piece_rep:
  assumes "mq_piece (m, fl) (m', fl')" "mq_rep m us fs fl"
  shows "\<exists>us fs. mq_rep m' us fs fl'"
  using assms(1)
proof cases
  case (take_free b)
  then obtain fs' where "fs = b # fs'" using mq_rep_heads(2) [OF assms(2)] by (cases fs) auto
  with take_free assms(2) mq_take_free_rep show ?thesis by blast
next
  case (unlink b)
  then obtain us' where "us = b # us'" using mq_rep_heads(1) [OF assms(2)] by (cases us) auto
  with unlink assms(2) mq_unlink_head_rep show ?thesis by blast
next
  case (clear_next b)
  with mq_clear_next_rep [OF assms(2)] show ?thesis by blast
next
  case (copy_in b buffer sz)
  with mq_copy_in_rep [OF assms(2)] show ?thesis by blast
next
  case (link_tail b)
  with mq_link_tail_rep [OF assms(2)] show ?thesis by blast
next
  case (link_head b)
  with mq_link_head_rep [OF assms(2)] show ?thesis by blast
next
  case (put_free b)
  with mq_put_free_rep [OF assms(2)] show ?thesis by blast
qed

lemma mq_pieces_rep:
  assumes "mq_piece\<^sup>*\<^sup>* (m, fl) (m', fl')" "mq_rep m us fs fl"
  shows "\<exists>us fs. mq_rep m' us fs fl'"
  using assms
proof (induction "(m', fl')" arbitrary: m' fl' rule: rtranclp_induct)
  case base
  then show ?case by blast
next
  case (step y)
  obtain m1 fl1 where y: "y = (m1, fl1)" by (cases y)
  with step obtain us1 fs1 where "mq_rep m1 us1 fs1 fl1" by blast
  with step.hyps(2) y mq_piece_rep show ?case by blast
qed

text \<open>
  C31: However the critical sections of senders and receivers interleave after the queue was set up,
  every block of the pool is in exactly one place: in the queue, in the free list or in the hands
  of one thread. Queue and free list are acyclic chains, the tail pointer is the last block and the
  16-bit entry count the length of the queue.
\<close>

theorem rt_mq_blocks_partition:
  assumes "\<And>b. b < unat n \<Longrightarrow> length (blocks b) = unat (ucast (RT_ALIGN msgsize RT_ALIGN_SIZE) :: u16)"
    and "mq_piece\<^sup>*\<^sup>* (mq_setup msgsize n blocks, {}) (m, fl)"
  shows "\<exists>us fs. chain (mq_next m) (msg_queue_head m) us \<and> chain (mq_next m) (msg_queue_free m) fs \<and>
    distinct (us @ fs) \<and> set us \<inter> fl = {} \<and> set fs \<inter> fl = {} \<and> set us \<union> set fs \<union> fl = {..<unat (max_msgs m)} \<and>
    msg_queue_tail m = (if us = [] then None else Some (last us)) \<and> unat (mq_entry m) = length us"
proof -
  from mq_pieces_rep [OF assms(2) mq_setup_rep [OF assms(1)]] obtain us fs where "mq_rep m us fs fl" by blast
  then show ?thesis by (auto simp: mq_rep_def mq_shape_def)
qed

section \<open>Messages are delivered in order\<close>








lemma mq_link_data [simp]:
  "mq_data (mq_link_tail b m) = mq_data m" "mq_data (mq_link_head b m) = mq_data m"
  "mq_data (mq_clear_next b m) = mq_data m" "mq_data (mq_take_free b m) = mq_data m"
  "mq_data (mq_put_free b m) = mq_data m" "mq_data (mq_unlink_head b m) = mq_data m"
  by (simp_all add: mq_link_tail_def mq_link_head_def mq_clear_next_def mq_take_free_def mq_put_free_def
      mq_unlink_head_def Let_def split: option.split)




text \<open>The steps of a message queue at the level of the kernel calls.\<close>

lemma mq_update_fields [simp]:
  "msgqueues (mq_update i f s) = (msgqueues s)(i := f (msgqueues s i))"
  "threads (mq_update i f s) = threads s" "thread_lists (mq_update i f s) = thread_lists s"
  "rt_current_thread (mq_update i f s) = rt_current_thread s" "objects (mq_update i f s) = objects s"
  "sched_inv (mq_update i f s) = sched_inv s"
  by (simp_all add: mq_update_def)














text \<open>
  \<^verbatim>\<open>rt_mq_control\<close> with \<^verbatim>\<open>RT_IPC_CMD_RESET\<close>: the loop that empties the queue ends, and afterwards the
  queue is empty and every block that was in it is on the free list.
\<close>

theorem rt_mq_reset_drains:
  assumes "mq_rep m us fs fl"
  shows "\<exists>m'. mq_drain m = Some m' \<and> mq_rep (m'\<lparr>mq_entry := 0\<rparr>) [] (rev us @ fs) fl"
  using assms mq_drain_rep by (simp add: mq_rep_def)

end
