(* ===== verification/RTT_Completion.thy ===== *)
theory RTT_Completion
  imports RTT_Ipc
begin

text \<open>
  Completions (\<^verbatim>\<open>completion.c\<close>): a flag that one thread sets and one thread waits for. The suspended
  list of completion \<open>i\<close> is \<open>CompletionSuspend i\<close>.
\<close>

definition RT_COMPLETED :: u32 where "RT_COMPLETED = 1"
definition RT_UNCOMPLETED :: u32 where "RT_UNCOMPLETED = 0"

definition set_comp_flag :: "nat \<Rightarrow> u32 \<Rightarrow> kstate \<Rightarrow> kstate" where
  "set_comp_flag i v s =
     s\<lparr>drivers := (drivers s)\<lparr>completions := (completions (drivers s))(i := \<lparr>comp_flag = v\<rparr>)\<rparr>\<rparr>"

abbreviation completed :: "nat \<Rightarrow> kstate \<Rightarrow> u32" where
  "completed i s \<equiv> comp_flag (completions (drivers s) i)"

definition rt_completion_init :: "nat \<Rightarrow> kstate \<Rightarrow> kstate" where
  "rt_completion_init i s =
     (let s = set_comp_flag i RT_UNCOMPLETED s
      in s\<lparr>thread_lists := (thread_lists s)(CompletionSuspend i := [])\<rparr>)"

text \<open>
  The suspended list can hold only one thread. The check of the context comes after the thread is
  linked into the list.
\<close>

definition rt_completion_wait :: "nat \<Rightarrow> u32 \<Rightarrow> kstate \<Rightarrow> ((rt_err_t, unit) outcome \<times> kstate) option" where
  "rt_completion_wait i timeout s =
     (if completed i s \<noteq> RT_COMPLETED
      then do {
        rt_assert (thread_lists s (CompletionSuspend i) = []);
        if timeout = 0 then Some (Returned (- RT_ETIMEOUT), s)
        else do {
          t \<leftarrow> rt_thread_self s;
          let s = thread_update t (\<lambda>th. th\<lparr>error := RT_EOK\<rparr>) s;
          (_, s) \<leftarrow> rt_thread_suspend t s;
          s \<leftarrow> rt_list_insert_before (CompletionSuspend i) t s;
          RT_DEBUG_NOT_IN_INTERRUPT s;
          s \<leftarrow> (if 0 < sint timeout then arm_thread_timer t timeout s else Some s);
          s \<leftarrow> rt_schedule s;
          Some (Blocked (), s) } }
      else Some (Returned RT_EOK, set_comp_flag i RT_UNCOMPLETED s))"

text \<open>The rest of \<^verbatim>\<open>rt_completion_wait\<close> when the thread runs again.\<close>

definition rt_completion_wait_wake :: "nat \<Rightarrow> tid \<Rightarrow> kstate \<Rightarrow> rt_err_t \<times> kstate" where
  "rt_completion_wait_wake i t s = (error (threads s t), set_comp_flag i RT_UNCOMPLETED s)"

definition rt_completion_done :: "nat \<Rightarrow> kstate \<Rightarrow> kstate option" where
  "rt_completion_done i s =
     (if completed i s = RT_COMPLETED then Some s
      else
        let s = set_comp_flag i RT_COMPLETED s in
        (case thread_lists s (CompletionSuspend i) of
           t # _ \<Rightarrow> do {
             (_, s) \<leftarrow> rt_thread_resume t s;
             rt_schedule s }
         | [] \<Rightarrow> Some s))"

section \<open>Waiting and completing\<close>

lemma set_comp_flag_fields [simp]:
  "completed i (set_comp_flag i v s) = v" "threads (set_comp_flag i v s) = threads s"
  "thread_lists (set_comp_flag i v s) = thread_lists s" "objects (set_comp_flag i v s) = objects s"
  "rt_current_thread (set_comp_flag i v s) = rt_current_thread s" "sched_inv (set_comp_flag i v s) = sched_inv s"
  by (simp_all add: set_comp_flag_def)

lemma set_comp_flag_ok [simp]:
  "sys_ok (set_comp_flag i v s) = sys_ok s" "is_thread t (set_comp_flag i v s) = is_thread t s"
  "is_timer tm (set_comp_flag i v s) = is_timer tm s" "thread_stat (set_comp_flag i v s) t = thread_stat s t"
  "preempt_level (set_comp_flag i v s) = preempt_level s"
  "rt_interrupt_get_nest (set_comp_flag i v s) = rt_interrupt_get_nest s"
proof -
  show *: "thread_stat (set_comp_flag i v s) t = thread_stat s t" for t by (simp add: thread_stat_def)
  then show "sys_ok (set_comp_flag i v s) = sys_ok s" by (simp add: sys_ok_def stacks_ok_def)
  show "preempt_level (set_comp_flag i v s) = preempt_level s"
    "rt_interrupt_get_nest (set_comp_flag i v s) = rt_interrupt_get_nest s"
    by (rule preempt_cong; simp)+
qed (simp_all add: is_thread_def is_timer_def rt_object_get_type_def)

text \<open>The suspension is that of a first-in first-out queue.\<close>

lemma completion_block:
  assumes mb: "may_block s t"
  shows "rt_completion_wait i timeout s =
    (if completed i s \<noteq> RT_COMPLETED
     then do {
       rt_assert (thread_lists s (CompletionSuspend i) = []);
       if timeout = 0 then Some (Returned (- RT_ETIMEOUT), s)
       else do {
         s \<leftarrow> block_on rt_list_insert_before (CompletionSuspend i) t timeout
               (thread_update t (\<lambda>th. th\<lparr>error := RT_EOK\<rparr>) s);
         Some (Blocked (), s) } }
     else Some (Returned RT_EOK, set_comp_flag i RT_UNCOMPLETED s))"
proof -
  let ?s = "thread_update t (\<lambda>th. th\<lparr>error := RT_EOK\<rparr>) s"
  have mb': "may_block ?s t" using mb by (simp add: may_block_update)
  note d = may_blockD [OF mb']
  have inv: "sched_inv ?s" using d(1) by (simp add: sys_ok_def)
  obtain s1 where 1: "suspend_on rt_list_insert_before (CompletionSuspend i) t ?s = Some s1"
    and th: "threads s1 = (threads ?s)(t := (threads ?s t)\<lparr>stat := suspend_stat (stat (threads ?s t)),
       tlist := Some (CompletionSuspend i)\<rparr>)"
    and cur: "rt_current_thread s1 = rt_current_thread ?s"
    by (rule fifo.suspend_effect [OF inv d(6,5), of "CompletionSuspend i"]) simp_all
  have "rt_interrupt_get_nest s1 = 0"
    using d(3) preempt_cong(3) [OF cur] by (simp add: th)
  then have nest: "RT_DEBUG_NOT_IN_INTERRUPT s1 = Some ()" by (simp add: RT_DEBUG_NOT_IN_INTERRUPT_def)
  obtain e s0 where 2: "rt_thread_suspend t ?s = Some (e, s0)"
      "rt_list_insert_before (CompletionSuspend i) t s0 = Some s1"
    using 1 by (auto simp: suspend_on_def bind_Some_iff)
  show ?thesis
    using 1 2 nest may_blockD(8) [OF mb] by (simp add: rt_completion_wait_def block_on_def wait_on_def)
qed

text \<open>
  C20: \<^verbatim>\<open>rt_completion_wait\<close> on every branch: a completed one is consumed and the caller goes on;
  otherwise, with no time it fails, and with time the caller is suspended as the only waiter with
  its timer armed and another thread runs. \<^verbatim>\<open>rt_completion_done\<close> then makes it ready, and the wait
  returns \<^verbatim>\<open>RT_EOK\<close> and consumes the completion.
\<close>

theorem rt_completion_wait_done:
  assumes mb: "may_block s t" and empty: "completed i s \<noteq> RT_COMPLETED \<longrightarrow> thread_lists s (CompletionSuspend i) = []"
    and time: "0 < sint timeout \<longrightarrow> timeout < RT_TICK_MAX div 2"
  shows "if completed i s = RT_COMPLETED
     then rt_completion_wait i timeout s = Some (Returned RT_EOK, set_comp_flag i RT_UNCOMPLETED s)
     else if timeout = 0 then rt_completion_wait i timeout s = Some (Returned (- RT_ETIMEOUT), s)
     else \<exists>s1 v s2. rt_completion_wait i timeout s = Some (Blocked (), s1) \<and> sys_ok s1 \<and>
       thread_stat s1 t = RT_THREAD_SUSPEND \<and> thread_lists s1 (CompletionSuspend i) = [t] \<and>
       rt_current_thread s1 = Some v \<and> v \<noteq> t \<and> thread_stat s1 v = RT_THREAD_READY \<and>
       (0 < sint timeout \<longrightarrow> ThreadTimer t \<in> set (rt_timer_list s1) \<and>
          timeout_tick (timers s1 (ThreadTimer t)) = rt_tick s + timeout) \<and>
       rt_completion_done i s1 = Some s2 \<and> sys_ok s2 \<and> thread_stat s2 t = RT_THREAD_READY \<and>
       completed i s2 = RT_COMPLETED \<and> thread_lists s2 (CompletionSuspend i) = [] \<and>
       rt_completion_wait_wake i t s2 = (RT_EOK, set_comp_flag i RT_UNCOMPLETED s2)"
proof (cases "completed i s = RT_COMPLETED \<or> timeout = 0")
  case True
  with empty completion_block [OF mb] show ?thesis by auto
next
  case False
  let ?h = "CompletionSuspend i" and ?f = "\<lambda>th. th\<lparr>error := RT_EOK\<rparr>"
  have le: "thread_lists s ?h = []" using False empty by simp
  obtain s1 v where b: "block_on rt_list_insert_before ?h t timeout (thread_update t ?f s) = Some s1"
    and s1: "sys_ok s1" "ipc_frame s s1" "thread_stat s1 t = RT_THREAD_SUSPEND"
      "error (threads s1 t) = error (?f (threads s t))"
    and l1: "thread_lists s1 ?h = thread_lists s ?h @ [t]"
    and v: "rt_current_thread s1 = Some v" "v \<noteq> t" "thread_stat s1 v = RT_THREAD_READY"
    and tm: "0 < sint timeout \<longrightarrow> ThreadTimer t \<in> set (rt_timer_list s1) \<and>
       timeout_tick (timers s1 (ThreadTimer t)) = rt_tick s + timeout"
    by (rule fifo.block_call [OF mb, of ?f ?h timeout]) (use time in simp_all)
  have w: "rt_completion_wait i timeout s = Some (Blocked (), s1)"
    using False le b by (simp add: completion_block [OF mb])
  have l1': "thread_lists s1 ?h = [t]" using l1 le by simp
  let ?s1 = "set_comp_flag i RT_COMPLETED s1"
  have c1: "completed i s1 \<noteq> RT_COMPLETED" using False ipc_frameD(14) [OF s1(2)] by simp
  have ty: "is_thread t s1 = Some ()" "is_timer (ThreadTimer t) s1 = Some ()"
    using may_blockD(6) [OF mb] ipc_frameD(11,12) [OF s1(2)] by (simp_all add: thread_typed_def)
  obtain s1' s2 where r: "rt_ipc_list_resume ?h ?s1 = Some s1'" "rt_schedule s1' = Some s2" "sys_ok s2"
    "ipc_frame ?s1 s2" "thread_stat s2 t = RT_THREAD_READY" "thread_lists s2 ?h = []"
    "error (threads s2 t) = error (threads ?s1 t)"
    by (rule resume_schedule_effect [of ?s1 ?h t "[]"]) (use s1(1) l1' ty in simp_all)
  have d: "rt_completion_done i s1 = Some s2"
    using c1 l1' r(1,2) by (auto simp: rt_completion_done_def rt_ipc_list_resume_def)
  have "completed i s2 = RT_COMPLETED" using ipc_frameD(14) [OF r(4)] by simp
  then show ?thesis
    using False w s1 l1' v tm d r by (auto simp: rt_completion_wait_wake_def)
qed

text \<open>
  A completion is lost when it comes between the timeout of the waiter and the moment the
  waiter runs: the timeout has emptied the suspended list, so \<^verbatim>\<open>rt_completion_done\<close> only sets the
  flag, and the waiter clears the flag on its way out although it returns \<^verbatim>\<open>-RT_ETIMEOUT\<close>. A wait
  after that does not see the completion either.
\<close>

theorem rt_completion_lost_on_timeout:
  assumes ok: "sys_ok s" and l: "thread_lists s (CompletionSuspend i) = [t]" and ty: "is_thread t s = Some ()"
    and c: "completed i s \<noteq> RT_COMPLETED"
  shows "\<exists>s1 s2 s3. rt_thread_timeout t s = Some s1 \<and> rt_completion_done i s1 = Some s2 \<and>
    completed i s2 = RT_COMPLETED \<and> rt_completion_wait_wake i t s2 = (- RT_ETIMEOUT, s3) \<and>
    rt_completion_wait i 0 s3 = Some (Returned (- RT_ETIMEOUT), s3)"
proof -
  let ?h = "CompletionSuspend i"
  have inv: "sched_inv s" using ok by (simp add: sys_ok_def)
  have susp: "thread_stat s t = RT_THREAD_SUSPEND" using wait_head_suspended [OF inv, of ?h t] l by simp
  obtain s0 where 0: "rt_thread_timeout t s = rt_schedule s0" "sched_inv s0" "ipc_frame s s0"
    and th: "threads s0 = (threads s)(t := (threads s t)\<lparr>error := - RT_ETIMEOUT,
        stat := ready_stat (stat (threads s t)),
        tlist := Some (ReadyList (unat (current_priority (threads s t))))\<rparr>)"
    and li: "\<And>h. thread_lists s0 h = remove1 t (thread_lists s h) @
        (if h = ReadyList (unat (current_priority (threads s t))) then [t] else [])"
    and cur: "rt_current_thread s0 = rt_current_thread s"
    by (rule rt_thread_timeout_effect [OF inv susp ty]) blast
  have st: "thread_stat s0 t = RT_THREAD_READY" by (simp add: th thread_stat_def)
  have "stacks_ok s0" using ok by (simp add: sys_ok_def stacks_ok_def th rt_scheduler_stack_check_def)
  then have ok0: "sys_ok s0" using 0 ok st by (auto simp: sys_ok_def cur)
  obtain s1 where r: "rt_schedule s0 = Some s1" by (rule rt_schedule_total [OF ok0])
  note fr = rt_schedule_frame [OF r]
  have l1: "thread_lists s1 ?h = []" using l by (simp add: resched_frameD [OF fr] li)
  have c1: "completed i s1 \<noteq> RT_COMPLETED" using c by (simp add: resched_frameD [OF fr] ipc_frameD [OF 0(3)])
  let ?s2 = "set_comp_flag i RT_COMPLETED s1"
  have d: "rt_completion_done i s1 = Some ?s2" using c1 l1 by (simp add: rt_completion_done_def)
  have e: "error (threads ?s2 t) = - RT_ETIMEOUT" by (simp add: resched_frame_thread [OF fr] th)
  have "rt_completion_wait i 0 (set_comp_flag i RT_UNCOMPLETED ?s2) =
      Some (Returned (- RT_ETIMEOUT), set_comp_flag i RT_UNCOMPLETED ?s2)"
    using l1 by (simp add: rt_completion_wait_def RT_COMPLETED_def RT_UNCOMPLETED_def)
  then show ?thesis using 0(1) r d e by (auto simp: rt_completion_wait_wake_def)
qed

end
