(* ===== verification/RTT_Expiry.thy ===== *)
theory RTT_Expiry
  imports RTT_Tick RTT_Ipc
begin




text \<open>The threads of \<open>ts\<close> have timed out, nothing else of the threads and queues has changed.\<close>

definition timed_out :: "tid set \<Rightarrow> kstate \<Rightarrow> kstate \<Rightarrow> bool" where
  "timed_out T s s' \<longleftrightarrow>
     (\<forall>t. if t \<in> T then thread_stat s' t = RT_THREAD_READY \<and> error (threads s' t) = - RT_ETIMEOUT
          else thread_stat s' t = thread_stat s t \<and> error (threads s' t) = error (threads s t)) \<and>
     (\<forall>h. wait_head h \<longrightarrow> thread_lists s' h = filter (\<lambda>t. t \<notin> T) (thread_lists s h)) \<and>
     ipc_frame s s' \<and> timers s' = timers s"

lemma timed_out_empty [simp]: "timed_out {} s s"
  by (simp add: timed_out_def)











section \<open>A loop that does not end\<close>





end
