(* ===== verification/RTT_MemPool.thy ===== *)
theory RTT_MemPool
  imports RTT_Mailbox
begin

text \<open>
  Memory pools (\<^verbatim>\<open>mempool.c\<close>): a memory area cut into blocks of one size, with a list of the free
  blocks threaded through their first word. While a block is in use that word points to the pool.
  A block is \<open>(p, b)\<close>, the one of index \<open>b\<close> in the memory of pool \<open>p\<close>.
\<close>

abbreviation pool :: "nat \<Rightarrow> kstate \<Rightarrow> rt_mempool" where
  "pool i s \<equiv> mempools (drivers s) i"

definition pool_update :: "nat \<Rightarrow> (rt_mempool \<Rightarrow> rt_mempool) \<Rightarrow> kstate \<Rightarrow> kstate" where
  "pool_update i f s =
     s\<lparr>drivers := (drivers s)\<lparr>mempools := (mempools (drivers s))(i := f (mempools (drivers s) i))\<rparr>\<rparr>"

abbreviation mp_waiters :: "nat \<Rightarrow> kstate \<Rightarrow> tid list" where
  "mp_waiters i s \<equiv> thread_lists s (PoolSuspend i)"

definition mp_list_init :: "nat \<Rightarrow> kstate \<Rightarrow> kstate" where
  "mp_list_init i s = s\<lparr>thread_lists := (thread_lists s)(PoolSuspend i := [])\<rparr>"

definition is_mempool :: "nat \<Rightarrow> kstate \<Rightarrow> unit option" where
  "is_mempool i s = rt_assert (rt_object_get_type (OMemPool i) s = RT_Object_Class_MemPool)"

section \<open>Operations\<close>

text \<open>The loop over the blocks that links each to the one behind it.\<close>

fun mp_link_blocks :: "nat \<Rightarrow> (nat \<Rightarrow> mp_header) \<Rightarrow> nat \<Rightarrow> mp_header" where
  "mp_link_blocks 0 hds = hds"
| "mp_link_blocks (Suc offset) hds = (mp_link_blocks offset hds)(offset := FreeLink (Some (offset + 1)))"

text \<open>
  The loop and the write of the null pointer behind it. The headers have to lie in the \<open>room\<close>
  bytes of the area; with no block at all the null pointer is written before the area.
\<close>

definition mp_link_all :: "nat \<Rightarrow> nat \<Rightarrow> nat \<Rightarrow> (nat \<Rightarrow> mp_header) \<Rightarrow> (nat \<Rightarrow> mp_header) option" where
  "mp_link_all room stride n hds =
     (if n = 0 \<or> (n - 1) * stride + 4 > room then None
      else Some ((mp_link_blocks n hds)(n - 1 := FreeLink None)))"

text \<open>The area has \<open>sz\<close> bytes. A block that fills the address space makes the division one by 0.\<close>

definition rt_mp_init :: "nat \<Rightarrow> string \<Rightarrow> u32 \<Rightarrow> u32 \<Rightarrow> kstate \<Rightarrow> (rt_err_t \<times> kstate) option" where
  "rt_mp_init i name sz block_sz s = do {
     rt_assert (sz > 0 \<and> block_sz > 0);
     s \<leftarrow> rt_object_init (OMemPool i) RT_Object_Class_MemPool name s;
     let size1 = RT_ALIGN_DOWN sz RT_ALIGN_SIZE;
     let block_size = RT_ALIGN block_sz RT_ALIGN_SIZE;
     rt_assert (block_size + 4 \<noteq> 0);
     let count = size1 div (block_size + 4);
     hds \<leftarrow> mp_link_all (unat sz) (unat (block_size + 4)) (unat count) (mp_header (pool i s));
     Some (RT_EOK, mp_list_init i (pool_update i (\<lambda>_.
       \<lparr>mp_size = size1, mp_block_size = block_size, mp_block_list = Some 0,
        block_total_count = count, block_free_count = count, mp_header = hds\<rparr>) s)) }"

text \<open>\<^verbatim>\<open>rt_mp_detach\<close> and \<^verbatim>\<open>rt_mp_delete\<close> wake the waiters with the loop of \<^verbatim>\<open>rt_ipc_list_resume_all\<close>.\<close>

definition rt_mp_detach :: "nat \<Rightarrow> kstate \<Rightarrow> (rt_err_t \<times> kstate) option" where
  "rt_mp_detach i s = do {
     is_mempool i s;
     rt_assert (rt_object_is_systemobject (OMemPool i) s);
     s \<leftarrow> rt_ipc_list_resume_all (PoolSuspend i) s;
     Some (RT_EOK, rt_object_detach (OMemPool i) s) }"

text \<open>
  \<open>mem\<close> is the object that the allocation provides and \<open>area\<close> tells whether the memory of the
  computed size was allocated.
\<close>

definition rt_mp_create ::
  "string \<Rightarrow> u32 \<Rightarrow> u32 \<Rightarrow> nat option \<Rightarrow> bool \<Rightarrow> kstate \<Rightarrow> (nat option \<times> kstate) option" where
  "rt_mp_create name block_count block_sz mem area s = do {
     RT_DEBUG_NOT_IN_INTERRUPT s;
     rt_assert (block_count > 0 \<and> block_sz > 0);
     (x, s) \<leftarrow> rt_object_allocate RT_Object_Class_MemPool name (map_option OMemPool mem) s;
     (case x of
        Some (OMemPool i) \<Rightarrow> do {
          let block_size = RT_ALIGN block_sz RT_ALIGN_SIZE;
          let size1 = (block_size + 4) * block_count;
          let s = pool_update i (\<lambda>p. p\<lparr>mp_block_size := block_size, mp_size := size1\<rparr>) s;
          if \<not> area then do { s \<leftarrow> rt_object_delete (OMemPool i) s; Some (None, s) }
          else do {
            hds \<leftarrow> mp_link_all (unat size1) (unat (block_size + 4)) (unat block_count) (mp_header (pool i s));
            Some (Some i, pool_update i (\<lambda>p. p\<lparr>block_total_count := block_count,
              block_free_count := block_count, mp_header := hds, mp_block_list := Some 0\<rparr>)
              (mp_list_init i s)) } }
      | _ \<Rightarrow> Some (None, s)) }"

definition rt_mp_delete :: "nat \<Rightarrow> kstate \<Rightarrow> (rt_err_t \<times> kstate) option" where
  "rt_mp_delete i s = do {
     RT_DEBUG_NOT_IN_INTERRUPT s;
     is_mempool i s;
     rt_assert (\<not> rt_object_is_systemobject (OMemPool i) s);
     s \<leftarrow> rt_ipc_list_resume_all (PoolSuspend i) s;
     s \<leftarrow> rt_object_delete (OMemPool i) s;
     Some (RT_EOK, s) }"

text \<open>The part of \<^verbatim>\<open>rt_mp_alloc\<close> that takes a block.\<close>

definition mp_take_block :: "nat \<Rightarrow> rt_mempool \<Rightarrow> (nat \<times> rt_mempool) option" where
  "mp_take_block i p = do {
     let p = p\<lparr>block_free_count := block_free_count p - 1\<rparr>;
     b \<leftarrow> mp_block_list p;
     (case mp_header p b of
        FreeLink nx \<Rightarrow> Some (b, p\<lparr>mp_block_list := nx, mp_header := (mp_header p)(b := OwnedBy i)\<rparr>)
      | OwnedBy _ \<Rightarrow> None) }"

definition mp_alloc_loop ::
  "nat \<Rightarrow> tid option \<Rightarrow> u32 \<Rightarrow> u32 \<Rightarrow> kstate \<Rightarrow> (((nat \<times> nat) option, u32 \<times> u32) outcome \<times> kstate) option" where
  "mp_alloc_loop i thread time before_sleep s =
     (if block_free_count (pool i s) = 0
      then if time = 0 then Some (Returned None, rt_set_errno (- RT_ETIMEOUT) s)
        else do {
          RT_DEBUG_NOT_IN_INTERRUPT s;
          t \<leftarrow> thread;
          let s = thread_update t (\<lambda>th. th\<lparr>error := RT_EOK\<rparr>) s;
          let before_sleep = wait_start time before_sleep s;
          s \<leftarrow> block_on rt_list_insert_after (PoolSuspend i) t time s;
          Some (Blocked (time, before_sleep), s) }
      else do {
        (b, p) \<leftarrow> mp_take_block i (pool i s);
        Some (Returned (Some (i, b)), pool_update i (\<lambda>_. p) s) })"

definition rt_mp_alloc ::
  "nat \<Rightarrow> u32 \<Rightarrow> kstate \<Rightarrow> (((nat \<times> nat) option, u32 \<times> u32) outcome \<times> kstate) option" where
  "rt_mp_alloc i time s = mp_alloc_loop i (rt_thread_self s) time 0 s"

definition rt_mp_alloc_wake ::
  "nat \<Rightarrow> tid \<Rightarrow> u32 \<times> u32 \<Rightarrow> kstate \<Rightarrow> (((nat \<times> nat) option, u32 \<times> u32) outcome \<times> kstate) option" where
  "rt_mp_alloc_wake i t w s =
     (if error (threads s t) \<noteq> RT_EOK then Some (Returned None, s)
      else mp_alloc_loop i (Some t) (timeout_left (fst w) (snd w) s) (snd w) s)"

definition mp_put_block :: "nat \<Rightarrow> rt_mempool \<Rightarrow> rt_mempool" where
  "mp_put_block b p =
     p\<lparr>block_free_count := block_free_count p + 1,
       mp_header := (mp_header p)(b := FreeLink (mp_block_list p)), mp_block_list := Some b\<rparr>"

text \<open>
  The header of the block says which pool it goes back to; a header that does not is no pointer to
  a pool (the block is free already).
\<close>

definition rt_mp_free :: "(nat \<times> nat) option \<Rightarrow> kstate \<Rightarrow> kstate option" where
  "rt_mp_free block s =
     (case block of
        None \<Rightarrow> Some s
      | Some (p, b) \<Rightarrow>
          if mp_header (pool p s) b \<noteq> OwnedBy p then None
          else
            let s = pool_update p (mp_put_block b) s in
            (case mp_waiters p s of
               t # _ \<Rightarrow> do {
                 let s = thread_update t (\<lambda>th. th\<lparr>error := RT_EOK\<rparr>) s;
                 (_, s) \<leftarrow> rt_thread_resume t s;
                 rt_schedule s }
             | [] \<Rightarrow> Some s))"

section \<open>The free list\<close>

primrec mp_chain :: "(nat \<Rightarrow> mp_header) \<Rightarrow> nat option \<Rightarrow> nat list \<Rightarrow> bool" where
  "mp_chain h p [] \<longleftrightarrow> p = None"
| "mp_chain h p (b # bs) \<longleftrightarrow> p = Some b \<and> (case h b of FreeLink n \<Rightarrow> mp_chain h n bs | OwnedBy _ \<Rightarrow> False)"

lemma mp_chain_upd [simp]: "b \<notin> set bs \<Longrightarrow> mp_chain (h(b := x)) p bs = mp_chain h p bs"
  by (induction bs arbitrary: p) (auto split: mp_header.split)

text \<open>
  \<open>fs\<close> are the free blocks in list order, every other block belongs to the pool's users.
\<close>

definition mp_rep :: "nat \<Rightarrow> rt_mempool \<Rightarrow> nat list \<Rightarrow> bool" where
  "mp_rep i p fs \<longleftrightarrow> mp_chain (mp_header p) (mp_block_list p) fs \<and> distinct fs \<and>
     set fs \<subseteq> {..<unat (block_total_count p)} \<and> unat (block_free_count p) = length fs \<and>
     (\<forall>b<unat (block_total_count p). b \<notin> set fs \<longrightarrow> mp_header p b = OwnedBy i)"

lemma mp_rep_cases:
  assumes "mp_rep i p fs"
  shows "block_free_count p = 0 \<longleftrightarrow> fs = []"
    "fs = b # bs \<Longrightarrow> mp_block_list p = Some b \<and> (\<exists>n. mp_header p b = FreeLink n)"
proof -
  have "unat (block_free_count p) = length fs" using assms by (simp add: mp_rep_def)
  then show "block_free_count p = 0 \<longleftrightarrow> fs = []" by (metis length_0_conv unat_eq_0)
  show "fs = b # bs \<Longrightarrow> mp_block_list p = Some b \<and> (\<exists>n. mp_header p b = FreeLink n)"
    using assms by (auto simp: mp_rep_def split: mp_header.splits)
qed

lemma mp_take_block_rep:
  assumes "mp_rep i p (b # bs)"
  obtains p' where "mp_take_block i p = Some (b, p')" "mp_rep i p' bs"
    "block_total_count p' = block_total_count p" "mp_block_size p' = mp_block_size p"
    "mp_header p' b = OwnedBy i"
proof -
  from mp_rep_cases [OF assms] obtain n where n: "mp_block_list p = Some b" "mp_header p b = FreeLink n"
    "block_free_count p \<noteq> 0" by auto
  let ?p' = "p\<lparr>block_free_count := block_free_count p - 1, mp_block_list := n,
      mp_header := (mp_header p)(b := OwnedBy i)\<rparr>"
  have "unat (block_free_count p - 1) = length bs"
    using assms n(3) by (simp add: mp_rep_def unat_minus_one)
  then have r: "mp_rep i ?p' bs" using assms n by (auto simp: mp_rep_def)
  have t: "mp_take_block i p = Some (b, ?p')" using n by (simp add: mp_take_block_def)
  show thesis by (rule that [OF t r]) simp_all
qed

lemma mp_put_block_rep:
  assumes "mp_rep i p fs" "b < unat (block_total_count p)" "mp_header p b = OwnedBy j"
  shows "mp_rep i (mp_put_block b p) (b # fs)"
proof -
  have nb: "b \<notin> set fs"
  proof
    assume "b \<in> set fs"
    moreover have "mp_chain (mp_header p) q bs \<Longrightarrow> c \<in> set bs \<Longrightarrow> \<exists>n. mp_header p c = FreeLink n" for q bs c
      by (induction bs arbitrary: q) (auto split: mp_header.splits)
    ultimately show False using assms(1,3) unfolding mp_rep_def by fastforce
  qed
  have "card (set fs) < card {..<unat (block_total_count p)}"
    using assms(1,2) nb by (intro psubset_card_mono) (auto simp: mp_rep_def)
  then have "length fs < unat (block_total_count p)"
    using assms(1) by (simp add: mp_rep_def distinct_card)
  moreover have "unat (block_total_count p) < 2 ^ LENGTH(32)" by (rule unsigned_less)
  ultimately have "unat (block_free_count p) + 1 < 2 ^ 32" using assms(1) by (simp add: mp_rep_def)
  then have "unat (block_free_count p + 1) = unat (block_free_count p) + 1"
    by (simp add: unat_word_ariths)
  with assms nb show ?thesis by (auto simp: mp_rep_def mp_put_block_def)
qed

lemma mp_link_blocks_get: "mp_link_blocks n h b = (if b < n then FreeLink (Some (b + 1)) else h b)"
  by (induction n) auto

lemma mp_link_all_chain:
  assumes "mp_link_all room stride n h = Some h'" "k \<le> n" "k > 0"
  shows "mp_chain h' (Some (n - k)) [n - k..<n]"
  using assms(2,3)
proof (induction k)
  case (Suc k)
  have h': "h' = (mp_link_blocks n h)(n - 1 := FreeLink None)"
    using assms(1) by (simp add: mp_link_all_def split: if_splits)
  have up: "[n - Suc k..<n] = (n - Suc k) # [n - k..<n]"
    using Suc.prems by (simp add: upt_rec [of "n - Suc k"] Suc_diff_Suc)
  show ?case
  proof (cases "k = 0")
    case True
    with Suc.prems show ?thesis unfolding up by (simp add: h')
  next
    case False
    then have c: "mp_chain h' (Some (n - k)) [n - k..<n]" using Suc by simp
    have "h' (n - Suc k) = FreeLink (Some (n - k))"
      using False Suc.prems by (auto simp: h' mp_link_blocks_get)
    with c show ?thesis unfolding up by simp
  qed
qed simp

lemma mp_link_all_rep:
  assumes "mp_link_all room stride (unat c) h = Some h'"
  shows "mp_rep i (p\<lparr>block_total_count := c, block_free_count := c, mp_header := h', mp_block_list := Some 0\<rparr>)
    [0..<unat c]"
proof -
  have "unat c > 0" using assms by (auto simp: mp_link_all_def split: if_splits)
  from mp_link_all_chain [OF assms order_refl this] show ?thesis by (auto simp: mp_rep_def)
qed

section \<open>Blocks and their users\<close>

lemma pool_update_fields [simp]:
  "pool j (pool_update i f s) = (if j = i then f (pool i s) else pool j s)"
  "threads (pool_update i f s) = threads s" "thread_lists (pool_update i f s) = thread_lists s"
  "objects (pool_update i f s) = objects s" "rt_current_thread (pool_update i f s) = rt_current_thread s"
  "sched_inv (pool_update i f s) = sched_inv s"
  by (simp_all add: pool_update_def)

lemma pool_update_ok [simp]:
  "sys_ok (pool_update i f s) = sys_ok s" "is_thread t (pool_update i f s) = is_thread t s"
  "is_timer tm (pool_update i f s) = is_timer tm s" "thread_stat (pool_update i f s) t = thread_stat s t"
  by (simp_all add: is_thread_def is_timer_def rt_object_get_type_def sys_ok_def stacks_ok_def thread_stat_def)

lemma rt_set_errno_drivers [simp]: "drivers (rt_set_errno e s) = drivers s"
  by (simp add: rt_set_errno_def split: option.split)

lemma mp_block_frame:
  assumes "block_on rt_list_insert_after h t time s = Some s'"
  shows "ipc_frame s s'"
  by (rule block_on_frame [OF assms])
    (auto simp: rt_list_insert_after_def ipc_frame_def split: if_splits)

lemma mp_alloc_loop_cases:
  assumes "mp_alloc_loop i th time before s = Some (r, s')"
  shows "(\<exists>b p. r = Returned (Some (i, b)) \<and> mp_take_block i (pool i s) = Some (b, p) \<and>
      block_free_count (pool i s) \<noteq> 0 \<and> pool i s' = p) \<or>
    ((\<forall>x. r \<noteq> Returned (Some x)) \<and> pool i s' = pool i s)"
proof (cases "block_free_count (pool i s) = 0")
  case False
  with assms show ?thesis by (auto simp: mp_alloc_loop_def bind_Some_iff)
next
  case True
  show ?thesis
  proof (cases "time = 0")
    case True
    with assms \<open>block_free_count (pool i s) = 0\<close> show ?thesis by (auto simp: mp_alloc_loop_def)
  next
    case nz: False
    with assms True obtain w t where r: "r = Blocked w"
      and b: "block_on rt_list_insert_after (PoolSuspend i) t time
          (thread_update t (\<lambda>th. th\<lparr>error := RT_EOK\<rparr>) s) = Some s'"
      by (auto simp: mp_alloc_loop_def bind_Some_iff Let_def)
    from ipc_frameD(14) [OF mp_block_frame [OF b]] r show ?thesis by simp
  qed
qed

lemma rt_mp_free_pool:
  assumes "rt_mp_free (Some (i, b)) s = Some s'"
  shows "mp_header (pool i s) b = OwnedBy i" "pool i s' = mp_put_block b (pool i s)"
proof -
  let ?s = "pool_update i (mp_put_block b) s"
  from assms show "mp_header (pool i s) b = OwnedBy i" by (auto simp: rt_mp_free_def split: if_splits)
  with assms consider "s' = ?s"
    | t e s1 where "rt_thread_resume t (thread_update t (\<lambda>th. th\<lparr>error := RT_EOK\<rparr>) ?s) = Some (e, s1)"
      "rt_schedule s1 = Some s'"
    by (auto simp: rt_mp_free_def Let_def bind_Some_iff split: list.splits)
  then have "drivers s' = drivers ?s"
  proof cases
    case 2
    then show ?thesis
      using ipc_frameD(14) [OF rt_thread_resume_frame] ipc_frameD(14) [OF resched_ipc_frame [OF rt_schedule_frame]]
      by fastforce
  qed simp
  then show "pool i s' = mp_put_block b (pool i s)" by simp
qed

text \<open>
  A step of an allocation: the call, or its continuation when a waiting thread runs again. A run
  collects the blocks that users hold; they free only what they hold.
\<close>

definition mp_alloc_step ::
  "nat \<Rightarrow> kstate \<Rightarrow> ((nat \<times> nat) option, u32 \<times> u32) outcome \<Rightarrow> kstate \<Rightarrow> bool" where
  "mp_alloc_step i s r s' \<longleftrightarrow> (\<exists>time. rt_mp_alloc i time s = Some (r, s')) \<or>
     (\<exists>t w. rt_mp_alloc_wake i t w s = Some (r, s'))"

inductive mp_run :: "nat \<Rightarrow> kstate \<Rightarrow> nat set \<Rightarrow> kstate \<Rightarrow> bool" for i s where
  start: "mp_run i s {} s"
| allocated: "mp_run i s H s1 \<Longrightarrow> mp_alloc_step i s1 (Returned (Some (i, b))) s2 \<Longrightarrow> mp_run i s (insert b H) s2"
| not_allocated: "mp_run i s H s1 \<Longrightarrow> mp_alloc_step i s1 r s2 \<Longrightarrow> \<forall>x. r \<noteq> Returned (Some x) \<Longrightarrow> mp_run i s H s2"
| freed: "mp_run i s H s1 \<Longrightarrow> b \<in> H \<Longrightarrow> rt_mp_free (Some (i, b)) s1 = Some s2 \<Longrightarrow> mp_run i s (H - {b}) s2"
| other: "mp_run i s H s1 \<Longrightarrow> pool i s2 = pool i s1 \<Longrightarrow> mp_run i s H s2"

lemma mp_alloc_step_cases:
  assumes "mp_alloc_step i s r s'"
  shows "(\<exists>b p. r = Returned (Some (i, b)) \<and> mp_take_block i (pool i s) = Some (b, p) \<and>
      block_free_count (pool i s) \<noteq> 0 \<and> pool i s' = p) \<or>
    ((\<forall>x. r \<noteq> Returned (Some x)) \<and> pool i s' = pool i s)"
proof -
  from assms consider "\<forall>x. r \<noteq> Returned (Some x)" "s' = s"
    | th time before where "mp_alloc_loop i th time before s = Some (r, s')"
    by (auto simp: mp_alloc_step_def rt_mp_alloc_def rt_mp_alloc_wake_def split: if_splits)
  then show ?thesis by cases (use mp_alloc_loop_cases in blast)+
qed

text \<open>
  C11: A memory pool never hands a block to two users and never loses one. In every run of
  allocations, waiting ones included, and frees, interleaved with anything else, the blocks in
  users' hands and the blocks on the free list are disjoint and together all blocks of the pool,
  and the free count is the length of the free list.
\<close>

theorem rt_mp_blocks_partition:
  assumes "mp_run i s H s'" "mp_rep i (pool i s) fs" "set fs = {..<unat (block_total_count (pool i s))}"
  shows "\<exists>fs'. mp_rep i (pool i s') fs' \<and> block_total_count (pool i s') = block_total_count (pool i s) \<and>
    set fs' \<union> H = {..<unat (block_total_count (pool i s))} \<and> set fs' \<inter> H = {} \<and>
    unat (block_free_count (pool i s')) = length fs'"
proof -
  let ?n = "unat (block_total_count (pool i s))"
  have "\<exists>fs'. mp_rep i (pool i s') fs' \<and> block_total_count (pool i s') = block_total_count (pool i s) \<and>
      set fs' \<union> H = {..<?n} \<and> set fs' \<inter> H = {}"
    using assms
  proof (induction rule: mp_run.induct)
    case start
    then show ?case by blast
  next
    case (allocated H s1 b s2)
    then obtain fs' where fs': "mp_rep i (pool i s1) fs'" "block_total_count (pool i s1) = block_total_count (pool i s)"
      "set fs' \<union> H = {..<?n}" "set fs' \<inter> H = {}" by blast
    obtain p where p: "mp_take_block i (pool i s1) = Some (b, p)" "pool i s2 = p"
      and nz: "block_free_count (pool i s1) \<noteq> 0"
      using mp_alloc_step_cases [OF allocated.hyps(2)] by auto
    then obtain c cs where c: "fs' = c # cs" using mp_rep_cases(1) [OF fs'(1)] by (cases fs') auto
    obtain p' where p': "mp_take_block i (pool i s1) = Some (c, p')" "mp_rep i p' cs"
      "block_total_count p' = block_total_count (pool i s1)"
      by (rule mp_take_block_rep [OF fs'(1) [unfolded c]])
    have "distinct (c # cs)" using fs'(1) c by (simp add: mp_rep_def)
    moreover have "c = b" "p' = p" using p p' by simp_all
    ultimately show ?case using fs'(2-4) p p'(2,3) c by (intro exI [of _ cs]) auto
  next
    case (not_allocated H s1 r s2)
    have "pool i s2 = pool i s1" using mp_alloc_step_cases [OF not_allocated.hyps(2)] not_allocated.hyps(3) by auto
    with not_allocated.IH not_allocated.prems show ?case by simp
  next
    case (freed H s1 b s2)
    then obtain fs' where fs': "mp_rep i (pool i s1) fs'" "block_total_count (pool i s1) = block_total_count (pool i s)"
      "set fs' \<union> H = {..<?n}" "set fs' \<inter> H = {}" by blast
    have b: "b < unat (block_total_count (pool i s1))" using freed.hyps(2) fs'(2,3) by auto
    have "mp_rep i (pool i s2) (b # fs')"
      using mp_put_block_rep [OF fs'(1) b] rt_mp_free_pool [OF freed.hyps(3)] by auto
    moreover have "block_total_count (pool i s2) = block_total_count (pool i s1)"
      using rt_mp_free_pool [OF freed.hyps(3)] by (simp add: mp_put_block_def)
    ultimately show ?case using fs'(2-4) freed.hyps(2) by (intro exI [of _ "b # fs'"]) auto
  next
    case (other H s1 s2)
    then show ?case by simp
  qed
  then show ?thesis by (auto simp: mp_rep_def)
qed

section \<open>Allocation, free and initialisation\<close>

text \<open>
  \<^verbatim>\<open>rt_mp_alloc\<close> on every branch: a free block is taken from the front of the list; without one
  it fails at once with \<^verbatim>\<open>-RT_ETIMEOUT\<close> when no time is given; otherwise the caller waits at the front
  of the queue, before the threads that wait already, its timer is armed and another thread runs.
\<close>

theorem rt_mp_alloc_result:
  assumes mb: "may_block s t" and rep: "mp_rep i (pool i s) fs"
    and time: "0 < sint time \<longrightarrow> time < RT_TICK_MAX div 2"
  shows "case fs of
      b # bs \<Rightarrow> \<exists>s'. rt_mp_alloc i time s = Some (Returned (Some (i, b)), s') \<and> sys_ok s' \<and>
        mp_rep i (pool i s') bs \<and> mp_header (pool i s') b = OwnedBy i
    | [] \<Rightarrow>
        if time = 0
        then \<exists>s'. rt_mp_alloc i time s = Some (Returned None, s') \<and> error (threads s' t) = - RT_ETIMEOUT \<and>
          pool i s' = pool i s
        else \<exists>w s' v. rt_mp_alloc i time s = Some (Blocked w, s') \<and> sys_ok s' \<and> pool i s' = pool i s \<and>
          mp_waiters i s' = t # mp_waiters i s \<and> thread_stat s' t = RT_THREAD_SUSPEND \<and>
          rt_current_thread s' = Some v \<and> v \<noteq> t \<and> thread_stat s' v = RT_THREAD_READY \<and>
          (0 < sint time \<longrightarrow> ThreadTimer t \<in> set (rt_timer_list s') \<and>
             timeout_tick (timers s' (ThreadTimer t)) = rt_tick s + time)"
proof (cases fs)
  case (Cons b bs)
  note nz = mp_rep_cases(1) [OF rep]
  obtain p' where p': "mp_take_block i (pool i s) = Some (b, p')" "mp_rep i p' bs"
    and own: "mp_header p' b = OwnedBy i"
    by (rule mp_take_block_rep [OF rep [unfolded Cons]])
  show ?thesis
    using p' own nz Cons may_blockD(1) [OF mb] by (simp add: rt_mp_alloc_def mp_alloc_loop_def)
next
  case Nil
  have z: "block_free_count (pool i s) = 0" using mp_rep_cases(1) [OF rep] Nil by simp
  note d = may_blockD [OF mb]
  show ?thesis
  proof (cases "time = 0")
    case True
    with z Nil d(3,8) show ?thesis
      by (simp add: rt_mp_alloc_def mp_alloc_loop_def rt_set_errno_def)
  next
    case False
    let ?f = "\<lambda>th. th\<lparr>error := RT_EOK\<rparr>"
    have irq: "RT_DEBUG_NOT_IN_INTERRUPT s = Some ()" using d(3) by (simp add: RT_DEBUG_NOT_IN_INTERRUPT_def)
    obtain s' v where b: "block_on rt_list_insert_after (PoolSuspend i) t time (thread_update t ?f s) = Some s'"
      and s': "sys_ok s'" "ipc_frame s s'" "thread_stat s' t = RT_THREAD_SUSPEND"
        "mp_waiters i s' = t # mp_waiters i s" "rt_current_thread s' = Some v" "v \<noteq> t"
        "thread_stat s' v = RT_THREAD_READY"
        "0 < sint time \<longrightarrow> ThreadTimer t \<in> set (rt_timer_list s') \<and>
           timeout_tick (timers s' (ThreadTimer t)) = rt_tick s + time"
      by (rule lifo.block_call [OF mb, of ?f "PoolSuspend i" time]) (use time in simp_all)
    have "pool i s' = pool i s" by (simp add: ipc_frameD(14) [OF s'(2)])
    then show ?thesis
      using z Nil False irq d(8) b s' by (simp add: rt_mp_alloc_def mp_alloc_loop_def Let_def)
  qed
qed

text \<open>
  \<^verbatim>\<open>rt_mp_free\<close> with threads waiting: the block goes to the front of the free list, the thread
  that began to wait last becomes ready, the others stay in order, and when the woken thread goes
  on it gets this very block, if nobody took it before.
\<close>

theorem rt_mp_free_wakes_last:
  assumes ok: "sys_ok s" and rep: "mp_rep i (pool i s) fs" and w: "mp_waiters i s = t # ts"
    and own: "b < unat (block_total_count (pool i s))" "mp_header (pool i s) b = OwnedBy i"
    and ty: "is_thread t s = Some ()" "is_timer (ThreadTimer t) s = Some ()"
  shows "\<exists>s' s''. rt_mp_free (Some (i, b)) s = Some s' \<and> sys_ok s' \<and> mp_rep i (pool i s') (b # fs) \<and>
    mp_waiters i s' = ts \<and> thread_stat s' t = RT_THREAD_READY \<and>
    rt_mp_alloc_wake i t left s' = Some (Returned (Some (i, b)), s'') \<and> mp_rep i (pool i s'') fs"
proof -
  let ?s = "pool_update i (mp_put_block b) s"
  let ?s0 = "thread_update t (\<lambda>th. th\<lparr>error := RT_EOK\<rparr>) ?s"
  have pu: "private_update (\<lambda>th. th\<lparr>error := RT_EOK\<rparr>)" by simp
  have ok0: "sys_ok ?s0" using ok by (simp add: private_update_inv [OF pu])
  have ty0: "is_thread t ?s0 = Some ()" "is_timer (ThreadTimer t) ?s0 = Some ()"
    using ty by (simp_all add: is_thread_def is_timer_def rt_object_get_type_def)
  obtain s1 s' where r: "rt_ipc_list_resume (PoolSuspend i) ?s0 = Some s1" "rt_schedule s1 = Some s'"
    and s': "sys_ok s'" "ipc_frame ?s0 s'" "thread_stat s' t = RT_THREAD_READY" "mp_waiters i s' = ts"
      "error (threads s' t) = error (threads ?s0 t)"
    by (rule resume_schedule_effect [OF ok0, of "PoolSuspend i" t ts]) (use w ty0 in simp_all)
  have free: "rt_mp_free (Some (i, b)) s = Some s'"
    using own(2) w r by (auto simp: rt_mp_free_def Let_def rt_ipc_list_resume_def)
  have pool: "pool i s' = mp_put_block b (pool i s)" by (simp add: ipc_frameD(14) [OF s'(2)])
  have rep': "mp_rep i (pool i s') (b # fs)"
    unfolding pool by (rule mp_put_block_rep [OF rep own(1,2)])
  obtain p' where p': "mp_take_block i (pool i s') = Some (b, p')" "mp_rep i p' fs"
    by (rule mp_take_block_rep [OF rep'])
  have "block_free_count (pool i s') \<noteq> 0" using mp_rep_cases(1) [OF rep'] by simp
  then have "rt_mp_alloc_wake i t left s' = Some (Returned (Some (i, b)), pool_update i (\<lambda>_. p') s')"
    using s'(5) p' by (simp add: rt_mp_alloc_wake_def mp_alloc_loop_def)
  then show ?thesis using free s' rep' p' by auto
qed

lemma aligned_stride:
  assumes "RT_ALIGN block_sz RT_ALIGN_SIZE + 4 \<noteq> 0"
  shows "4 \<le> RT_ALIGN block_sz RT_ALIGN_SIZE + 4"
proof -
  let ?b = "RT_ALIGN block_sz RT_ALIGN_SIZE"
  have "take_bit 2 ?b = 0" by (rule bit_eqI) (auto simp: RT_ALIGN_def RT_ALIGN_SIZE_def bit_simps)
  then have "take_bit 2 (unat ?b) = 0" by (metis unsigned_take_bit_eq unsigned_0)
  then have m: "unat ?b mod 4 = 0" by (simp add: take_bit_eq_mod)
  have lt: "unat ?b < 4294967296" using unsigned_less [of ?b] by simp
  have e: "unat (?b + 4) = (unat ?b + 4) mod 4294967296" by (simp add: unat_word_ariths)
  have "unat (?b + 4) \<noteq> 0" using assms by (simp add: unat_eq_0)
  obtain k where k: "unat ?b = 4 * k" using m by (metis mod_0_imp_dvd dvd_def)
  have "4 \<le> unat (?b + 4)"
  proof (cases "4 * k + 4 < 4294967296")
    case True
    then show ?thesis unfolding e k by simp
  next
    case False
    then have "k = 1073741823" using lt k by linarith
    with \<open>unat (?b + 4) \<noteq> 0\<close> show ?thesis unfolding e k by simp
  qed
  then show ?thesis by (simp add: word_le_nat_alt)
qed

text \<open>
  \<^verbatim>\<open>rt_mp_init\<close> on an area that is too small for one block does not fail: it writes the null
  pointer that ends the free list into the memory before the area. On every other area it gives a
  pool whose blocks are all free.
\<close>

theorem rt_mp_init_result:
  assumes "sz > 0" "block_sz > 0" "RT_ALIGN block_sz RT_ALIGN_SIZE + 4 \<noteq> 0"
    and "rt_object_init (OMemPool i) RT_Object_Class_MemPool name s = Some s0"
  defines "count \<equiv> RT_ALIGN_DOWN sz RT_ALIGN_SIZE div (RT_ALIGN block_sz RT_ALIGN_SIZE + 4)"
  shows "if count = 0 then rt_mp_init i name sz block_sz s = None
    else \<exists>s'. rt_mp_init i name sz block_sz s = Some (RT_EOK, s') \<and>
      block_total_count (pool i s') = count \<and> mp_rep i (pool i s') [0..<unat count]"
proof (cases "count = 0")
  case True
  with assms show ?thesis by (simp add: rt_mp_init_def mp_link_all_def Let_def)
next
  case False
  let ?sz = "RT_ALIGN_DOWN sz RT_ALIGN_SIZE" and ?st = "RT_ALIGN block_sz RT_ALIGN_SIZE + 4"
  have sz: "unat ?sz \<le> unat sz"
    unfolding RT_ALIGN_DOWN_def by (simp add: word_and_le2 flip: word_le_nat_alt)
  have st: "unat ?st \<ge> 4" using aligned_stride [OF assms(3)] by (simp add: word_le_nat_alt)
  have "unat count = unat ?sz div unat ?st" by (simp add: count_def unat_div)
  then have "unat count * unat ?st \<le> unat sz" using sz by (metis div_times_less_eq_dividend order_trans)
  moreover have "unat count > 0" using False by (simp add: unat_gt_0)
  ultimately have room: "\<not> (unat count = 0 \<or> (unat count - 1) * unat ?st + 4 > unat sz)"
    using st by (cases "unat count") auto
  then obtain h where h: "mp_link_all (unat sz) (unat ?st) (unat count) (mp_header (pool i s0)) = Some h"
    by (auto simp: mp_link_all_def)
  let ?s' = "mp_list_init i (pool_update i (\<lambda>_. \<lparr>mp_size = ?sz, mp_block_size = RT_ALIGN block_sz RT_ALIGN_SIZE,
      mp_block_list = Some 0, block_total_count = count, block_free_count = count, mp_header = h\<rparr>) s0)"
  have "rt_mp_init i name sz block_sz s = Some (RT_EOK, ?s')"
    using assms(1-4) h by (simp add: rt_mp_init_def Let_def flip: count_def)
  moreover have p: "pool i ?s' = \<lparr>mp_size = ?sz, mp_block_size = RT_ALIGN block_sz RT_ALIGN_SIZE,
      mp_block_list = Some 0, block_total_count = count, block_free_count = count, mp_header = h\<rparr>"
    by (simp add: mp_list_init_def)
  moreover have "mp_rep i (pool i ?s') [0..<unat count]"
    using mp_link_all_rep [OF h, of i "pool i ?s'"] by (simp add: p)
  ultimately show ?thesis using False by (auto simp: p)
qed

end
