(* ===== verification/RTT_WaitQueue.thy ===== *)
theory RTT_WaitQueue
  imports RTT_Ipc
begin

text \<open>
  Wait queues (\<^verbatim>\<open>waitqueue.c\<close>): a queue of nodes, each for a thread that polls, and a flag that
  remembers a wake-up for which nobody waited. A node's wake function decides whether a wake-up
  with a key concerns it; those of the drivers are the argument \<open>user\<close>, from the number of the
  function, the node and the key to the result.
\<close>

definition RT_WQ_FLAG_CLEAN :: u32 where "RT_WQ_FLAG_CLEAN = 0"
definition RT_WQ_FLAG_WAKEUP :: u32 where "RT_WQ_FLAG_WAKEUP = 1"

abbreviation wqueue :: "nat \<Rightarrow> kstate \<Rightarrow> rt_wqueue" where
  "wqueue q s \<equiv> wqueues (drivers s) q"

abbreviation wnode :: "nat \<Rightarrow> kstate \<Rightarrow> rt_wqueue_node" where
  "wnode n s \<equiv> wqueue_nodes (drivers s) n"

definition wqueue_update :: "nat \<Rightarrow> (rt_wqueue \<Rightarrow> rt_wqueue) \<Rightarrow> kstate \<Rightarrow> kstate" where
  "wqueue_update q f s =
     s\<lparr>drivers := (drivers s)\<lparr>wqueues := (wqueues (drivers s))(q := f (wqueues (drivers s) q))\<rparr>\<rparr>"

definition wnode_update :: "nat \<Rightarrow> (rt_wqueue_node \<Rightarrow> rt_wqueue_node) \<Rightarrow> kstate \<Rightarrow> kstate" where
  "wnode_update n f s =
     s\<lparr>drivers := (drivers s)\<lparr>wqueue_nodes := (wqueue_nodes (drivers s))(n := f (wqueue_nodes (drivers s) n))\<rparr>\<rparr>"

section \<open>Operations\<close>

definition rt_wqueue_init :: "nat \<Rightarrow> kstate \<Rightarrow> kstate" where
  "rt_wqueue_init q = wqueue_update q (\<lambda>_. \<lparr>wq_flag = RT_WQ_FLAG_CLEAN, waiting_list = []\<rparr>)"

text \<open>A node that is linked already would corrupt the list it is in.\<close>

definition rt_wqueue_add :: "nat \<Rightarrow> nat \<Rightarrow> kstate \<Rightarrow> kstate option" where
  "rt_wqueue_add q n s =
     (if wq_node_list (wnode n s) \<noteq> None then None
      else Some (wnode_update n (\<lambda>nd. nd\<lparr>wq_node_list := Some q\<rparr>)
             (wqueue_update q (\<lambda>w. w\<lparr>waiting_list := waiting_list w @ [n]\<rparr>) s)))"

definition rt_wqueue_remove :: "nat \<Rightarrow> kstate \<Rightarrow> kstate" where
  "rt_wqueue_remove n s =
     (case wq_node_list (wnode n s) of
        None \<Rightarrow> s
      | Some q \<Rightarrow> wnode_update n (\<lambda>nd. nd\<lparr>wq_node_list := None\<rparr>)
          (wqueue_update q (\<lambda>w. w\<lparr>waiting_list := remove1 n (waiting_list w)\<rparr>) s))"

definition wqueue_default_wake :: int where "wqueue_default_wake = 0"

definition node_wakes :: "(nat \<Rightarrow> rt_wqueue_node \<Rightarrow> nat \<Rightarrow> int) \<Rightarrow> nat \<Rightarrow> rt_wqueue_node \<Rightarrow> bool" where
  "node_wakes user key nd \<longleftrightarrow>
     (case wakeup nd of DefaultWake \<Rightarrow> wqueue_default_wake | UserWake f \<Rightarrow> user f nd key) = 0"

definition rt_wqueue_wakeup ::
  "(nat \<Rightarrow> rt_wqueue_node \<Rightarrow> nat \<Rightarrow> int) \<Rightarrow> nat \<Rightarrow> nat \<Rightarrow> kstate \<Rightarrow> kstate option" where
  "rt_wqueue_wakeup user q key s =
     (let s = wqueue_update q (\<lambda>w. w\<lparr>wq_flag := RT_WQ_FLAG_WAKEUP\<rparr>) s in
      case find (\<lambda>n. node_wakes user key (wnode n s)) (waiting_list (wqueue q s)) of
        None \<Rightarrow> Some s
      | Some n \<Rightarrow> do {
          (_, s) \<leftarrow> rt_thread_resume (polling_thread (wnode n s)) s;
          rt_schedule (rt_wqueue_remove n s) })"

definition wqueue_exit :: "nat \<Rightarrow> nat \<Rightarrow> kstate \<Rightarrow> kstate" where
  "wqueue_exit q n s = rt_wqueue_remove n (wqueue_update q (\<lambda>w. w\<lparr>wq_flag := 0\<rparr>) s)"

text \<open>\<open>n\<close> is the node on the caller's stack, which the call clears.\<close>

definition rt_wqueue_wait ::
  "nat \<Rightarrow> bool \<Rightarrow> u32 \<Rightarrow> nat \<Rightarrow> kstate \<Rightarrow> ((int, unit) outcome \<times> kstate) option" where
  "rt_wqueue_wait q cond msec n s = do {
     t \<leftarrow> rt_thread_self s;
     RT_DEBUG_NOT_IN_INTERRUPT s;
     let tick = rt_tick_from_millisecond msec;
     if cond \<or> tick = 0 then Some (Returned 0, s)
     else do {
       let s = wnode_update n (\<lambda>_. \<lparr>polling_thread = t, wq_node_list = None, wakeup = DefaultWake, wq_key = 0\<rparr>) s;
       if wq_flag (wqueue q s) = RT_WQ_FLAG_WAKEUP then Some (Returned 0, wqueue_exit q n s)
       else do {
         s \<leftarrow> rt_wqueue_add q n s;
         (_, s) \<leftarrow> rt_thread_suspend t s;
         s \<leftarrow> (if tick \<noteq> RT_WAITING_FOREVER then arm_thread_timer t tick s else Some s);
         s \<leftarrow> rt_schedule s;
         Some (Blocked (), s) } } }"

definition rt_wqueue_wait_wake :: "nat \<Rightarrow> nat \<Rightarrow> kstate \<Rightarrow> int \<times> kstate" where
  "rt_wqueue_wait_wake q n s = (0, wqueue_exit q n s)"

section \<open>Waiting\<close>

lemma wqueue_update_fields [simp]:
  "wqueue p (wqueue_update q f s) = (if p = q then f (wqueue q s) else wqueue p s)"
  "wqueue_nodes (drivers (wqueue_update q f s)) = wqueue_nodes (drivers s)"
  "threads (wqueue_update q f s) = threads s" "thread_lists (wqueue_update q f s) = thread_lists s"
  "objects (wqueue_update q f s) = objects s" "rt_current_thread (wqueue_update q f s) = rt_current_thread s"
  "sched_inv (wqueue_update q f s) = sched_inv s" "rt_tick (wqueue_update q f s) = rt_tick s"
  by (simp_all add: wqueue_update_def)

lemma wnode_update_fields [simp]:
  "wnode m (wnode_update n f s) = (if m = n then f (wnode n s) else wnode m s)"
  "wqueues (drivers (wnode_update n f s)) = wqueues (drivers s)"
  "threads (wnode_update n f s) = threads s" "thread_lists (wnode_update n f s) = thread_lists s"
  "objects (wnode_update n f s) = objects s" "rt_current_thread (wnode_update n f s) = rt_current_thread s"
  "sched_inv (wnode_update n f s) = sched_inv s" "rt_tick (wnode_update n f s) = rt_tick s"
  by (simp_all add: wnode_update_def)

lemma same_sched_steps [simp]:
  "same_sched s (wqueue_update q f s)" "same_sched s (wnode_update n g s)"
  by (simp_all add: same_sched_def)

text \<open>
  \<^verbatim>\<open>rt_wqueue_wait\<close> on every branch: it returns at once when the condition holds or no time is
  given; a wake-up that came before the wait is not lost, the call returns and takes the flag back;
  otherwise the caller is suspended behind the nodes that wait already, its timer is armed, and
  another thread runs.
\<close>

theorem rt_wqueue_wait_result:
  assumes mb: "may_block s t" and free: "n \<notin> set (waiting_list (wqueue q s))"
    and time: "rt_tick_from_millisecond msec < RT_TICK_MAX div 2"
  shows "if cond \<or> rt_tick_from_millisecond msec = 0 then rt_wqueue_wait q cond msec n s = Some (Returned 0, s)
    else if wq_flag (wqueue q s) = RT_WQ_FLAG_WAKEUP
    then \<exists>s'. rt_wqueue_wait q cond msec n s = Some (Returned 0, s') \<and>
      wqueue q s' = (wqueue q s)\<lparr>wq_flag := RT_WQ_FLAG_CLEAN\<rparr> \<and> sys_ok s' \<and> rt_current_thread s' = Some t
    else \<exists>s' v. rt_wqueue_wait q cond msec n s = Some (Blocked (), s') \<and> sys_ok s' \<and>
      wqueue q s' = (wqueue q s)\<lparr>waiting_list := waiting_list (wqueue q s) @ [n]\<rparr> \<and>
      polling_thread (wnode n s') = t \<and> thread_stat s' t = RT_THREAD_SUSPEND \<and>
      ThreadTimer t \<in> set (rt_timer_list s') \<and>
      timeout_tick (timers s' (ThreadTimer t)) = rt_tick s + rt_tick_from_millisecond msec \<and>
      rt_current_thread s' = Some v \<and> v \<noteq> t \<and> thread_stat s' v = RT_THREAD_READY"
proof -
  note d = may_blockD [OF mb]
  have irq: "RT_DEBUG_NOT_IN_INTERRUPT s = Some ()" using d(3) by (simp add: RT_DEBUG_NOT_IN_INTERRUPT_def)
  let ?tick = "rt_tick_from_millisecond msec"
  let ?n = "\<lparr>polling_thread = t, wq_node_list = None, wakeup = DefaultWake, wq_key = 0\<rparr>"
  let ?s0 = "wnode_update n (\<lambda>_. ?n) s"
  consider "cond \<or> ?tick = 0"
    | "\<not> cond" "?tick \<noteq> 0" "wq_flag (wqueue q s) = RT_WQ_FLAG_WAKEUP"
    | "\<not> cond" "?tick \<noteq> 0" "wq_flag (wqueue q s) \<noteq> RT_WQ_FLAG_WAKEUP" by blast
  then show ?thesis
  proof cases
    case 1
    then show ?thesis using irq d(8) by (auto simp: rt_wqueue_wait_def Let_def)
  next
    case 2
    let ?s' = "wqueue_exit q n ?s0"
    have e: "?s' = wqueue_update q (\<lambda>w. w\<lparr>wq_flag := 0\<rparr>) ?s0"
      by (simp add: wqueue_exit_def rt_wqueue_remove_def)
    have "same_sched s ?s'" unfolding e by (rule same_sched_trans [of _ ?s0]) simp_all
    then have "sys_ok ?s'" using same_sched_ok(1) d(1) by simp
    then show ?thesis using 2 irq d(4,8) by (auto simp: rt_wqueue_wait_def Let_def e RT_WQ_FLAG_CLEAN_def)
  next
    case 3
    let ?s1 = "wnode_update n (\<lambda>nd. nd\<lparr>wq_node_list := Some q\<rparr>)
        (wqueue_update q (\<lambda>w. w\<lparr>waiting_list := waiting_list w @ [n]\<rparr>) ?s0)"
    have ss: "same_sched s ?s1"
      by (meson same_sched_steps same_sched_trans)
    note eq = same_sched_ok [OF ss]
    have mb1: "may_block ?s1 t" using mb eq(6) by simp
    obtain u where u: "u \<noteq> t" "thread_stat ?s1 u = RT_THREAD_READY" by (rule may_block_other [OF mb1])
    obtain s2 s3 s' v where 2: "rt_thread_suspend t ?s1 = Some (RT_EOK, s2)"
      "arm_thread_timer t ?tick s2 = Some s3" "rt_schedule s3 = Some s'"
      and s': "sys_ok s'" "thread_stat s' t = RT_THREAD_SUSPEND" "ThreadTimer t \<in> set (rt_timer_list s')"
        "timeout_tick (timers s' (ThreadTimer t)) = rt_tick ?s1 + ?tick"
        "rt_current_thread s' = Some v" "v \<noteq> t" "thread_stat s' v = RT_THREAD_READY"
      using suspend_arm_schedule [OF may_blockD(1-6) [OF mb1] u time] by blast
    have "ipc_frame ?s1 s'"
      using rt_thread_suspend_frame [OF 2(1)] arm_thread_timer_frame [OF 2(2)]
        resched_ipc_frame [OF rt_schedule_frame [OF 2(3)]] by (blast intro: ipc_frame_trans)
    then have dr: "drivers s' = drivers ?s1" by (rule ipc_frameD(14))
    have "?tick \<noteq> RT_WAITING_FOREVER" using time by (auto simp: RT_WAITING_FOREVER_def RT_TICK_MAX_def)
    then have "rt_wqueue_wait q cond msec n s = Some (Blocked (), s')"
      using 3 irq d(8) 2 by (simp add: rt_wqueue_wait_def Let_def rt_wqueue_add_def)
    then show ?thesis using 3 s' by (simp add: dr)
  qed
qed

text \<open>
  \<^verbatim>\<open>rt_wqueue_wakeup\<close> sets the flag and wakes at most one waiter: the first whose wake function
  accepts the key leaves the queue and its thread is ready; the nodes before it and behind it stay.
  With no such waiter only the flag changes, and the next wait returns at once.
\<close>

theorem rt_wqueue_wakeup_result:
  assumes ok: "sys_ok s"
    and acc: "filter (\<lambda>n. node_wakes user key (wnode n s)) (waiting_list (wqueue q s)) = ns"
    and wait: "\<And>n. n \<in> set ns \<Longrightarrow> wq_node_list (wnode n s) = Some q \<and>
      thread_stat s (polling_thread (wnode n s)) = RT_THREAD_SUSPEND \<and>
      is_thread (polling_thread (wnode n s)) s = Some () \<and>
      is_timer (ThreadTimer (polling_thread (wnode n s))) s = Some ()"
  shows "\<exists>s'. rt_wqueue_wakeup user q key s = Some s' \<and> sys_ok s' \<and>
    wq_flag (wqueue q s') = RT_WQ_FLAG_WAKEUP \<and>
    (case ns of
       [] \<Rightarrow> waiting_list (wqueue q s') = waiting_list (wqueue q s) \<and> threads s' = threads s
     | n # _ \<Rightarrow> waiting_list (wqueue q s') = remove1 n (waiting_list (wqueue q s)) \<and>
         wq_node_list (wnode n s') = None \<and> thread_stat s' (polling_thread (wnode n s)) = RT_THREAD_READY \<and>
         (\<forall>u. u \<noteq> polling_thread (wnode n s) \<longrightarrow> thread_stat s' u = thread_stat s u))"
proof -
  let ?f = "\<lambda>w. w\<lparr>wq_flag := RT_WQ_FLAG_WAKEUP\<rparr>"
  let ?s0 = "wqueue_update q ?f s"
  note eq0 = same_sched_ok [OF same_sched_steps(1) [of s q ?f]]
  have find: "find (\<lambda>n. node_wakes user key (wnode n s)) (waiting_list (wqueue q s)) =
      (case ns of [] \<Rightarrow> None | n # _ \<Rightarrow> Some n)"
    by (simp add: find_filter acc)
  show ?thesis
  proof (cases ns)
    case Nil
    then show ?thesis using find ok eq0(1) by (simp add: rt_wqueue_wakeup_def Let_def)
  next
    case (Cons n ms)
    let ?t = "polling_thread (wnode n s)"
    have n: "wq_node_list (wnode n s) = Some q" "thread_stat s ?t = RT_THREAD_SUSPEND"
      "is_thread ?t s = Some ()" "is_timer (ThreadTimer ?t) s = Some ()"
      using wait [of n] Cons by simp_all
    have inv0: "sched_inv ?s0" using ok by (simp add: sys_ok_def)
    have ty0: "is_timer (ThreadTimer ?t) ?s0 = Some ()"
      using n(4) by (simp add: is_timer_def rt_object_get_type_def)
    obtain s1 where 1: "rt_thread_resume ?t ?s0 = Some (RT_EOK, s1)" "sched_inv s1" "ipc_frame ?s0 s1"
      and th: "threads s1 = (threads ?s0)(?t := (threads ?s0 ?t)\<lparr>stat := ready_stat (stat (threads ?s0 ?t)),
        tlist := Some (ReadyList (unat (current_priority (threads ?s0 ?t))))\<rparr>)"
      and cur: "rt_current_thread s1 = rt_current_thread ?s0"
      using rt_thread_resume_effect [OF inv0 n(3) [folded eq0(7)] ty0 n(2) [folded eq0(2)]] by metis
    have st1: "thread_stat s1 ?t = RT_THREAD_READY" by (simp add: th thread_stat_def)
    have "stacks_ok s1" using ok by (simp add: sys_ok_def stacks_ok_def th rt_scheduler_stack_check_def)
    then have ok1: "sys_ok s1" using 1 ok st1 by (auto simp: sys_ok_def cur)
    have dr: "drivers s1 = drivers ?s0" by (rule ipc_frameD(14) [OF 1(3)])
    let ?s2 = "rt_wqueue_remove n s1"
    have rm: "?s2 = wnode_update n (\<lambda>nd. nd\<lparr>wq_node_list := None\<rparr>)
        (wqueue_update q (\<lambda>w. w\<lparr>waiting_list := remove1 n (waiting_list w)\<rparr>) s1)"
      using n(1) by (simp add: rt_wqueue_remove_def dr)
    have ss: "same_sched s1 ?s2" unfolding rm by (meson same_sched_steps same_sched_trans)
    have ok2: "sys_ok ?s2" using ok1 same_sched_ok(1) [OF ss] by simp
    obtain s' where r: "rt_schedule ?s2 = Some s'" by (rule rt_schedule_total [OF ok2])
    note fr = rt_schedule_frame [OF r]
    have "rt_wqueue_wakeup user q key s = Some s'"
      using find Cons 1(1) r by (simp add: rt_wqueue_wakeup_def Let_def)
    moreover have "thread_stat s' ?t = RT_THREAD_READY"
      using st1 same_sched_ok(2) [OF ss] by (simp add: resched_frame_thread [OF fr])
    moreover have "thread_stat s' u = thread_stat s u" if "u \<noteq> ?t" for u
    proof -
      have "thread_stat s' u = thread_stat s1 u"
        using same_sched_ok(2) [OF ss] by (simp add: resched_frame_thread [OF fr])
      also have "\<dots> = thread_stat s u" using that by (simp add: th thread_stat_def)
      finally show ?thesis .
    qed
    moreover have "drivers s' = drivers ?s2" by (rule resched_frameD(15) [OF fr])
    ultimately show ?thesis
      using Cons resched_frame_inv(3) [OF fr ok2] by (simp add: rm dr)
  qed
qed

end
