(* ===== verification/RTT_WorkQueue.thy ===== *)
theory RTT_WorkQueue
  imports RTT_Sem RTT_Tick
begin

text \<open>
  Work queues (\<^verbatim>\<open>workqueue.c\<close>): a thread that runs submitted works in order. The list node of a
  work knows the queue in whose list it is. The body of the thread is split where it blocks and
  where it calls the work function.
\<close>

definition RT_WORK_STATE_PENDING :: u16 where "RT_WORK_STATE_PENDING = 1"
definition RT_WORK_STATE_SUBMITTING :: u16 where "RT_WORK_STATE_SUBMITTING = 2"
definition RT_WORK_TYPE_DELAYED :: u16 where "RT_WORK_TYPE_DELAYED = 1"

abbreviation wkq :: "nat \<Rightarrow> kstate \<Rightarrow> rt_workqueue" where
  "wkq q s \<equiv> workqueues (drivers s) q"

abbreviation wk :: "nat \<Rightarrow> kstate \<Rightarrow> rt_work" where
  "wk w s \<equiv> works (drivers s) w"

definition wkq_update :: "nat \<Rightarrow> (rt_workqueue \<Rightarrow> rt_workqueue) \<Rightarrow> kstate \<Rightarrow> kstate" where
  "wkq_update q f s =
     s\<lparr>drivers := (drivers s)\<lparr>workqueues := (workqueues (drivers s))(q := f (workqueues (drivers s) q))\<rparr>\<rparr>"

definition wk_update :: "nat \<Rightarrow> (rt_work \<Rightarrow> rt_work) \<Rightarrow> kstate \<Rightarrow> kstate" where
  "wk_update w f s =
     s\<lparr>drivers := (drivers s)\<lparr>works := (works (drivers s))(w := f (works (drivers s) w))\<rparr>\<rparr>"

definition set_flag :: "nat \<Rightarrow> u16 \<Rightarrow> kstate \<Rightarrow> kstate" where
  "set_flag w f = wk_update w (\<lambda>k. k\<lparr>work_flags := work_flags k OR f\<rparr>)"

definition clear_flag :: "nat \<Rightarrow> u16 \<Rightarrow> kstate \<Rightarrow> kstate" where
  "clear_flag w f = wk_update w (\<lambda>k. k\<lparr>work_flags := work_flags k AND NOT f\<rparr>)"

text \<open>The list operations on the node of a work.\<close>

definition work_remove :: "nat \<Rightarrow> kstate \<Rightarrow> kstate" where
  "work_remove w s =
     (case work_node (wk w s) of
        None \<Rightarrow> s
      | Some q \<Rightarrow> wk_update w (\<lambda>k. k\<lparr>work_node := None\<rparr>)
          (wkq_update q (\<lambda>x. x\<lparr>work_list := remove1 w (work_list x)\<rparr>) s))"

definition work_append :: "nat \<Rightarrow> nat \<Rightarrow> kstate \<Rightarrow> kstate" where
  "work_append q w s =
     wk_update w (\<lambda>k. k\<lparr>work_node := Some q\<rparr>) (wkq_update q (\<lambda>x. x\<lparr>work_list := work_list x @ [w]\<rparr>) s)"

definition rt_work_init :: "nat \<Rightarrow> nat \<Rightarrow> nat \<Rightarrow> kstate \<Rightarrow> kstate" where
  "rt_work_init w func data =
     wk_update w (\<lambda>k. k\<lparr>work_node := None, work_func := func, work_data := data, work_queue := None,
       work_flags := 0, work_type := 0\<rparr>)"

definition rt_delayed_work_init :: "nat \<Rightarrow> nat \<Rightarrow> nat \<Rightarrow> kstate \<Rightarrow> kstate" where
  "rt_delayed_work_init w func data = rt_work_init w func data"

section \<open>The worker\<close>

text \<open>The loop that releases the semaphore until a take finds it at 0 waiters.\<close>

partial_function (option) completion_loop :: "nat \<Rightarrow> kstate \<Rightarrow> (rt_err_t \<times> kstate) option" where
  "completion_loop sm s = do {
     (r, s) \<leftarrow> rt_sem_trytake sm s;
     (case r of
        Returned e \<Rightarrow>
          if e = - RT_ETIMEOUT then do { (_, s) \<leftarrow> rt_sem_release sm s; completion_loop sm s }
          else if e = RT_EOK then Some (RT_EOK, s)
          else Some (- RT_ERROR, s)
      | Blocked _ \<Rightarrow> None) }"

definition workqueue_work_completion :: "nat \<Rightarrow> kstate \<Rightarrow> (rt_err_t \<times> kstate) option" where
  "workqueue_work_completion q s = do {
     (e, s) \<leftarrow> completion_loop (work_sem (wkq q s)) (rt_enter_critical s);
     s \<leftarrow> rt_exit_critical s;
     Some (e, s) }"

definition workqueue_thread_idle :: "nat \<Rightarrow> kstate \<Rightarrow> ((unit, unit) outcome \<times> kstate) option" where
  "workqueue_thread_idle q s =
     (if work_list (wkq q s) = []
      then do {
        t \<leftarrow> rt_thread_self s;
        (_, s) \<leftarrow> rt_thread_suspend t s;
        s \<leftarrow> rt_schedule s;
        Some (Blocked (), s) }
      else Some (Returned (), s))"

text \<open>
  Taking the first work: with an empty list the code would take the list head for a work.
\<close>

definition workqueue_thread_begin :: "nat \<Rightarrow> kstate \<Rightarrow> (nat \<times> kstate) option" where
  "workqueue_thread_begin q s =
     (case work_list (wkq q s) of
        [] \<Rightarrow> None
      | w # _ \<Rightarrow>
          Some (w, wk_update w (\<lambda>k. k\<lparr>work_queue := None\<rparr>) (clear_flag w RT_WORK_STATE_PENDING
            (wkq_update q (\<lambda>x. x\<lparr>work_current := Some w\<rparr>) (work_remove w s)))))"

definition workqueue_thread_end :: "nat \<Rightarrow> kstate \<Rightarrow> kstate option" where
  "workqueue_thread_end q s =
     map_option snd (workqueue_work_completion q (wkq_update q (\<lambda>x. x\<lparr>work_current := None\<rparr>) s))"

section \<open>Submitting and cancelling\<close>

definition workqueue_submit_work :: "nat \<Rightarrow> nat \<Rightarrow> kstate \<Rightarrow> (rt_err_t \<times> kstate) option" where
  "workqueue_submit_work q w s =
     (if work_flags (wk w s) AND RT_WORK_STATE_PENDING \<noteq> 0 then Some (- RT_EBUSY, s)
      else if work_current (wkq q s) = Some w then Some (- RT_EBUSY, s)
      else
        let s = set_flag w RT_WORK_STATE_PENDING (work_append q w (work_remove w s)) in
        if work_current (wkq q s) = None
        then do {
          (_, s) \<leftarrow> rt_thread_resume (work_thread (wkq q s)) s;
          s \<leftarrow> rt_schedule s;
          Some (RT_EOK, s) }
        else Some (RT_EOK, s))"

definition workqueue_cancel_work :: "nat \<Rightarrow> nat \<Rightarrow> kstate \<Rightarrow> rt_err_t \<times> kstate" where
  "workqueue_cancel_work q w s =
     (if work_current (wkq q s) = Some w then (- RT_EBUSY, s)
      else (RT_EOK, clear_flag w RT_WORK_STATE_PENDING (work_remove w s)))"

definition workqueue_cancel_delayed_work :: "nat \<Rightarrow> kstate \<Rightarrow> (rt_err_t \<times> kstate) option" where
  "workqueue_cancel_delayed_work w s =
     (case work_queue (wk w s) of
        None \<Rightarrow> Some (- RT_EINVAL, s)
      | Some q \<Rightarrow> do {
          (ret, s) \<leftarrow>
            (if work_flags (wk w s) AND RT_WORK_STATE_PENDING \<noteq> 0
             then Some (workqueue_cancel_work q w s)
             else if work_flags (wk w s) AND RT_WORK_STATE_SUBMITTING \<noteq> 0
             then do {
               (_, s) \<leftarrow> rt_timer_stop (work_timer (wk w s)) s;
               s \<leftarrow> rt_timer_detach (work_timer (wk w s)) s;
               Some (RT_EOK, clear_flag w RT_WORK_STATE_SUBMITTING s) }
             else Some (RT_EOK, s));
          if ret \<noteq> RT_EOK then Some (ret, s)
          else Some (RT_EOK,
            clear_flag w RT_WORK_STATE_PENDING (wk_update w (\<lambda>k. k\<lparr>work_queue := None\<rparr>) s)) })"

text \<open>\<open>handler\<close> is the number of \<^verbatim>\<open>_delayed_work_timeout_handler\<close> among the timeout functions.\<close>

definition workqueue_submit_delayed_work ::
  "nat \<Rightarrow> nat \<Rightarrow> nat \<Rightarrow> u32 \<Rightarrow> kstate \<Rightarrow> (rt_err_t \<times> kstate) option" where
  "workqueue_submit_delayed_work handler q w ticks s =
     (if work_queue (wk w s) \<noteq> None \<and> work_queue (wk w s) \<noteq> Some q then Some (- RT_EINVAL, s)
      else do {
        (ret, s) \<leftarrow> (if work_queue (wk w s) = Some q then workqueue_cancel_delayed_work w s else Some (RT_EOK, s));
        if ret < 0 then Some (ret, s)
        else
          let s = wk_update w (\<lambda>k. k\<lparr>work_queue := Some q\<rparr>) s in
          if ticks = 0 then workqueue_submit_work q w s
          else do {
            let s = set_flag w RT_WORK_STATE_SUBMITTING s;
            s \<leftarrow> rt_timer_init (work_timer (wk w s)) ''work'' (UserTimeout handler) ticks
                  RT_TIMER_FLAG_SOFT_TIMER s;
            (_, s) \<leftarrow> rt_timer_start (work_timer (wk w s)) s;
            Some (ret, s) } })"

definition delayed_work_timeout_handler :: "nat \<Rightarrow> kstate \<Rightarrow> kstate option" where
  "delayed_work_timeout_handler w s = do {
     (_, s) \<leftarrow> rt_timer_stop (work_timer (wk w s)) s;
     s \<leftarrow> rt_timer_detach (work_timer (wk w s)) s;
     let s = clear_flag w RT_WORK_STATE_SUBMITTING s;
     let s = wk_update w (\<lambda>k. k\<lparr>work_type := work_type k AND NOT RT_WORK_TYPE_DELAYED\<rparr>) s;
     q \<leftarrow> work_queue (wk w s);
     map_option snd (workqueue_submit_work q w s) }"

section \<open>The interface\<close>

text \<open>
  \<open>mem\<close> is the memory of the queue with its semaphore, \<open>tmem\<close> and \<open>stack\<close> the memory of the thread.
\<close>

definition rt_workqueue_create ::
  "(nat \<Rightarrow> nat \<Rightarrow> u32 \<Rightarrow> u32) \<Rightarrow> bool \<Rightarrow> nat \<Rightarrow> string \<Rightarrow> u16 \<Rightarrow> u8 \<Rightarrow> (nat \<times> nat) option \<Rightarrow> tid option \<Rightarrow> u32 option
     \<Rightarrow> kstate \<Rightarrow> (nat option \<times> kstate) option" where
  "rt_workqueue_create stack_init irqs_disabled ent name stack_sz priority mem tmem stack s =
     (case mem of
        None \<Rightarrow> Some (None, s)
      | Some (q, sm) \<Rightarrow> do {
          let s = wkq_update q (\<lambda>x. x\<lparr>work_list := [], work_current := None, work_sem := sm\<rparr>) s;
          (_, s) \<leftarrow> rt_sem_init sm ''wqueue'' 0 RT_IPC_FLAG_FIFO s;
          (th, s) \<leftarrow> rt_thread_create stack_init name ent q (ucast stack_sz) priority 10 tmem stack s;
          (case th of
             None \<Rightarrow> Some (None, s)
           | Some t \<Rightarrow> do {
               (_, s) \<leftarrow> rt_thread_startup irqs_disabled t (wkq_update q (\<lambda>x. x\<lparr>work_thread := t\<rparr>) s);
               Some (Some q, s) }) })"

definition rt_workqueue_destroy :: "nat \<Rightarrow> kstate \<Rightarrow> (rt_err_t \<times> kstate) option" where
  "rt_workqueue_destroy q s = do {
     (_, s) \<leftarrow> rt_thread_delete (work_thread (wkq q s)) s;
     Some (RT_EOK, s) }"

definition rt_workqueue_dowork :: "nat \<Rightarrow> nat \<Rightarrow> kstate \<Rightarrow> (rt_err_t \<times> kstate) option" where
  "rt_workqueue_dowork q w s = workqueue_submit_work q w s"

definition rt_workqueue_submit_work ::
  "nat \<Rightarrow> nat \<Rightarrow> nat \<Rightarrow> u32 \<Rightarrow> kstate \<Rightarrow> (rt_err_t \<times> kstate) option" where
  "rt_workqueue_submit_work handler q w time s =
     (let s = (if time > 0 then wk_update w (\<lambda>k. k\<lparr>work_type := work_type k OR RT_WORK_TYPE_DELAYED\<rparr>) s else s) in
      if work_type (wk w s) AND RT_WORK_TYPE_DELAYED \<noteq> 0
      then workqueue_submit_delayed_work handler q w time s
      else workqueue_submit_work q w s)"

definition rt_workqueue_critical_work :: "nat \<Rightarrow> nat \<Rightarrow> kstate \<Rightarrow> (rt_err_t \<times> kstate) option" where
  "rt_workqueue_critical_work q w s =
     (if work_current (wkq q s) = Some w then Some (- RT_EBUSY, s)
      else
        let s = work_append q w (work_remove w s) in
        if work_current (wkq q s) = None
        then do {
          (_, s) \<leftarrow> rt_thread_resume (work_thread (wkq q s)) s;
          s \<leftarrow> rt_schedule s;
          Some (RT_EOK, s) }
        else Some (RT_EOK, s))"

definition rt_workqueue_cancel_work :: "nat \<Rightarrow> nat \<Rightarrow> kstate \<Rightarrow> (rt_err_t \<times> kstate) option" where
  "rt_workqueue_cancel_work q w s =
     (if work_type (wk w s) AND RT_WORK_TYPE_DELAYED \<noteq> 0 then workqueue_cancel_delayed_work w s
      else Some (workqueue_cancel_work q w s))"

text \<open>The wait for the running work is \<^verbatim>\<open>rt_sem_take(RT_WAITING_FOREVER)\<close>.\<close>

definition rt_workqueue_cancel_work_sync ::
  "nat \<Rightarrow> nat \<Rightarrow> kstate \<Rightarrow> ((rt_err_t, unit) outcome \<times> kstate) option" where
  "rt_workqueue_cancel_work_sync q w s =
     (if work_current (wkq q s) = Some w
      then do {
        (r, s) \<leftarrow> rt_sem_take (work_sem (wkq q s)) (- 1) s;
        (case r of
           Blocked _ \<Rightarrow> Some (Blocked (), s)
         | Returned _ \<Rightarrow> Some (Returned RT_EOK, clear_flag w RT_WORK_STATE_PENDING s)) }
      else Some (Returned RT_EOK, clear_flag w RT_WORK_STATE_PENDING (work_remove w s)))"

definition rt_workqueue_cancel_work_sync_wake :: "nat \<Rightarrow> kstate \<Rightarrow> rt_err_t \<times> kstate" where
  "rt_workqueue_cancel_work_sync_wake w s = (RT_EOK, clear_flag w RT_WORK_STATE_PENDING s)"

text \<open>The loop reads the next node before it unlinks one, so it visits the works of the list.\<close>

definition rt_workqueue_cancel_all_work :: "nat \<Rightarrow> kstate \<Rightarrow> (rt_err_t \<times> kstate) option" where
  "rt_workqueue_cancel_all_work q s = do {
     let s = rt_enter_critical s;
     let s = fold work_remove (work_list (wkq q s)) s;
     s \<leftarrow> rt_exit_critical s;
     Some (RT_EOK, s) }"

text \<open>The system work queue is the number \<open>sys\<close> of a queue, or none before it is created.\<close>

definition rt_work_submit :: "nat \<Rightarrow> nat option \<Rightarrow> nat \<Rightarrow> u32 \<Rightarrow> kstate \<Rightarrow> (rt_err_t \<times> kstate) option" where
  "rt_work_submit handler sys w time s = do { q \<leftarrow> sys; rt_workqueue_submit_work handler q w time s }"

definition rt_work_cancel :: "nat option \<Rightarrow> nat \<Rightarrow> kstate \<Rightarrow> (rt_err_t \<times> kstate) option" where
  "rt_work_cancel sys w s = do { q \<leftarrow> sys; rt_workqueue_cancel_work q w s }"

definition rt_work_sys_workqueue_init ::
  "(nat \<Rightarrow> nat \<Rightarrow> u32 \<Rightarrow> u32) \<Rightarrow> bool \<Rightarrow> nat \<Rightarrow> nat option \<Rightarrow> (nat \<times> nat) option \<Rightarrow> tid option \<Rightarrow> u32 option
     \<Rightarrow> kstate \<Rightarrow> (rt_err_t \<times> nat option \<times> kstate) option" where
  "rt_work_sys_workqueue_init stack_init irqs_disabled ent sys mem tmem stack s =
     (if sys \<noteq> None then Some (0, sys, s)
      else do {
        (q, s) \<leftarrow> rt_workqueue_create stack_init irqs_disabled ent ''sys_work'' 2048 23 mem tmem stack s;
        Some (RT_EOK, q, s) })"

section \<open>What the operations leave alone\<close>

lemma rt_enter_critical_drivers [simp]: "drivers (rt_enter_critical s) = drivers s"
  by (rule resched_frameD(15)) simp

lemma rt_exit_critical_drivers: "rt_exit_critical s = Some s' \<Longrightarrow> drivers s' = drivers s"
  using resched_frameD(15) [OF rt_exit_critical_frame] .

lemma rt_sem_trytake_drivers: "rt_sem_trytake sm s = Some (r, s') \<Longrightarrow> drivers s' = drivers s \<and> (\<exists>e. r = Returned e)"
  by (auto simp: rt_sem_trytake_def rt_sem_take_def bind_Some_iff set_sem_value_def split: if_splits)

lemma rt_sem_release_drivers: "rt_sem_release sm s = Some (e, s') \<Longrightarrow> drivers s' = drivers s"
  by (auto simp: rt_sem_release_def bind_Some_iff set_sem_value_def split: if_splits
      dest!: ipc_frameD(14) [OF rt_ipc_list_resume_frame] resched_frameD(15) [OF rt_schedule_frame])

lemma completion_loop_drivers: "completion_loop sm s = Some (e, s') \<Longrightarrow> drivers s' = drivers s"
proof -
  have "drivers (snd r) = drivers s" if "completion_loop sm s = Some r" for r
  proof (rule completion_loop.raw_induct [of "\<lambda>sm s r. drivers (snd r) = drivers s", OF _ that])
    fix f :: "nat \<Rightarrow> kstate \<Rightarrow> (rt_err_t \<times> kstate) option" and sm s r
    assume IH: "\<And>sm s r. f sm s = Some r \<Longrightarrow> drivers (snd r) = drivers s"
    assume "do {
       (r, s) \<leftarrow> rt_sem_trytake sm s;
       (case r of
          Returned e \<Rightarrow>
            if e = - RT_ETIMEOUT then do { (_, s) \<leftarrow> rt_sem_release sm s; f sm s }
            else if e = RT_EOK then Some (RT_EOK, s)
            else Some (- RT_ERROR, s)
        | Blocked _ \<Rightarrow> None) } = Some r"
    then obtain x s1 where 1: "rt_sem_trytake sm s = Some (x, s1)"
      and b: "(case x of
          Returned e \<Rightarrow>
            if e = - RT_ETIMEOUT then do { (_, s) \<leftarrow> rt_sem_release sm s1; f sm s }
            else if e = RT_EOK then Some (RT_EOK, s1)
            else Some (- RT_ERROR, s1)
        | Blocked _ \<Rightarrow> None) = Some r"
      by (auto simp only: bind_Some_iff split_paired_Ex prod.case)
    obtain e where x: "x = Returned e" using rt_sem_trytake_drivers [OF 1] by auto
    have 2: "snd r = s1 \<or> (\<exists>e2 s2. rt_sem_release sm s1 = Some (e2, s2) \<and> f sm s2 = Some r)"
      using b by (auto simp: x bind_Some_iff split: if_splits)
    show "drivers (snd r) = drivers s"
      using 2 rt_sem_trytake_drivers [OF 1] by (auto dest!: IH rt_sem_release_drivers)
  qed
  then show "completion_loop sm s = Some (e, s') \<Longrightarrow> drivers s' = drivers s" by fastforce
qed

lemma workqueue_thread_end_drivers:
  assumes "workqueue_thread_end q s = Some s'"
  shows "drivers s' = drivers (wkq_update q (\<lambda>x. x\<lparr>work_current := None\<rparr>) s)"
proof -
  let ?s = "wkq_update q (\<lambda>x. x\<lparr>work_current := None\<rparr>) s"
  from assms obtain e s1 where
    c: "completion_loop (work_sem (wkq q ?s)) (rt_enter_critical ?s) = Some (e, s1)"
    and x: "rt_exit_critical s1 = Some s'"
    by (auto simp: workqueue_thread_end_def workqueue_work_completion_def bind_Some_iff)
  from completion_loop_drivers [OF c] rt_exit_critical_drivers [OF x] show ?thesis by simp
qed

lemma wk_fields [simp]:
  "wkq p (wkq_update q f s) = (if p = q then f (wkq q s) else wkq p s)"
  "wk v (wkq_update q f s) = wk v s" "wkq p (wk_update w g s) = wkq p s"
  "wk v (wk_update w g s) = (if v = w then g (wk w s) else wk v s)"
  "threads (wkq_update q f s) = threads s" "threads (wk_update w g s) = threads s"
  by (simp_all add: wkq_update_def wk_update_def)

lemma flag_fields [simp]:
  "wkq p (set_flag w f s) = wkq p s" "wkq p (clear_flag w f s) = wkq p s"
  "wk v (set_flag w f s) = (if v = w then (wk w s)\<lparr>work_flags := work_flags (wk w s) OR f\<rparr> else wk v s)"
  "wk v (clear_flag w f s) = (if v = w then (wk w s)\<lparr>work_flags := work_flags (wk w s) AND NOT f\<rparr> else wk v s)"
  by (simp_all add: set_flag_def clear_flag_def)

lemma work_remove_wk:
  "wk v (work_remove w s) = (if v = w then (wk w s)\<lparr>work_node := None\<rparr> else wk v s)"
  "wkq p (work_remove w s) = (if work_node (wk w s) = Some p
     then (wkq p s)\<lparr>work_list := remove1 w (work_list (wkq p s))\<rparr> else wkq p s)"
  by (auto simp: work_remove_def split: option.splits)

lemma work_append_wk [simp]:
  "wk v (work_append q w s) = (if v = w then (wk w s)\<lparr>work_node := Some q\<rparr> else wk v s)"
  "wkq p (work_append q w s) = (if p = q
     then (wkq p s)\<lparr>work_list := work_list (wkq p s) @ [w]\<rparr> else wkq p s)"
  by (auto simp: work_append_def)

lemma pending_bits:
  "(f OR RT_WORK_STATE_PENDING) AND RT_WORK_STATE_PENDING \<noteq> 0"
  "(f AND NOT RT_WORK_STATE_PENDING) AND RT_WORK_STATE_PENDING = 0"
proof -
  have "(f OR RT_WORK_STATE_PENDING) AND RT_WORK_STATE_PENDING = RT_WORK_STATE_PENDING"
    by (rule bit_eqI) (auto simp: bit_simps)
  then show "(f OR RT_WORK_STATE_PENDING) AND RT_WORK_STATE_PENDING \<noteq> 0"
    by (simp add: RT_WORK_STATE_PENDING_def)
  show "(f AND NOT RT_WORK_STATE_PENDING) AND RT_WORK_STATE_PENDING = 0"
    by (rule bit_eqI) (auto simp: bit_simps)
qed

lemma pending_nonzero [simp]: "RT_WORK_STATE_PENDING \<noteq> 0"
  by (simp add: RT_WORK_STATE_PENDING_def)

section \<open>Works run in the order of submission\<close>

abbreviation pending :: "nat \<Rightarrow> kstate \<Rightarrow> bool" where
  "pending w s \<equiv> work_flags (wk w s) AND RT_WORK_STATE_PENDING \<noteq> 0"

definition wkq_inv :: "nat \<Rightarrow> kstate \<Rightarrow> bool" where
  "wkq_inv q s \<longleftrightarrow> distinct (work_list (wkq q s)) \<and>
     (\<forall>w. w \<in> set (work_list (wkq q s)) \<longleftrightarrow> work_node (wk w s) = Some q) \<and>
     (\<forall>w\<in>set (work_list (wkq q s)). pending w s)"

datatype work_event = Submitted nat | Cancelled nat | Started nat | Ended

text \<open>The specification: the works that wait, in order, and the work that runs.\<close>

fun work_next :: "nat list \<times> nat option \<Rightarrow> work_event \<Rightarrow> (nat list \<times> nat option) option" where
  "work_next (ws, c) (Submitted w) = (if w \<in> set ws \<or> c = Some w then None else Some (ws @ [w], c))"
| "work_next (ws, c) (Cancelled w) = (if c = Some w then None else Some (remove1 w ws, c))"
| "work_next ([], c) (Started w) = None"
| "work_next (v # ws, c) (Started w) = (if v = w then Some (ws, Some w) else None)"
| "work_next (ws, c) Ended = Some (ws, None)"

fun work_trace :: "nat list \<times> nat option \<Rightarrow> work_event list \<Rightarrow> (nat list \<times> nat option) option" where
  "work_trace x [] = Some x"
| "work_trace x (e # es) = (case work_next x e of None \<Rightarrow> None | Some y \<Rightarrow> work_trace y es)"

lemma work_trace_snoc: "work_trace x (es @ [e]) = (case work_trace x es of None \<Rightarrow> None | Some y \<Rightarrow> work_next y e)"
  by (induction es arbitrary: x) (auto split: option.splits)

definition wkq_abs :: "nat \<Rightarrow> kstate \<Rightarrow> nat list \<times> nat option" where
  "wkq_abs q s = (work_list (wkq q s), work_current (wkq q s))"

inductive wkq_run :: "nat \<Rightarrow> kstate \<Rightarrow> work_event list \<Rightarrow> kstate \<Rightarrow> bool" for q s where
  start: "wkq_run q s [] s"
| submitted: "wkq_run q s es s1 \<Longrightarrow> workqueue_submit_work q w s1 = Some (RT_EOK, s2) \<Longrightarrow>
    wkq_run q s (es @ [Submitted w]) s2"
| not_submitted: "wkq_run q s es s1 \<Longrightarrow> workqueue_submit_work q w s1 = Some (e, s2) \<Longrightarrow> e \<noteq> RT_EOK \<Longrightarrow>
    wkq_run q s es s2"
| cancelled: "wkq_run q s es s1 \<Longrightarrow> workqueue_cancel_work q w s1 = (RT_EOK, s2) \<Longrightarrow>
    wkq_run q s (es @ [Cancelled w]) s2"
| not_cancelled: "wkq_run q s es s1 \<Longrightarrow> workqueue_cancel_work q w s1 = (e, s2) \<Longrightarrow> e \<noteq> RT_EOK \<Longrightarrow>
    wkq_run q s es s2"
| started: "wkq_run q s es s1 \<Longrightarrow> workqueue_thread_begin q s1 = Some (w, s2) \<Longrightarrow>
    wkq_run q s (es @ [Started w]) s2"
| ended: "wkq_run q s es s1 \<Longrightarrow> workqueue_thread_end q s1 = Some s2 \<Longrightarrow> wkq_run q s (es @ [Ended]) s2"
| other: "wkq_run q s es s1 \<Longrightarrow> drivers s2 = drivers s1 \<Longrightarrow> wkq_run q s es s2"

lemma submit_cases:
  assumes "workqueue_submit_work q w s = Some (e, s')"
  shows "if e = RT_EOK
    then \<not> pending w s \<and> work_current (wkq q s) \<noteq> Some w \<and>
      drivers s' = drivers (set_flag w RT_WORK_STATE_PENDING (work_append q w (work_remove w s)))
    else s' = s"
proof -
  let ?s = "set_flag w RT_WORK_STATE_PENDING (work_append q w (work_remove w s))"
  have "drivers s' = drivers x"
    if "rt_thread_resume t x = Some (e2, s2)" "rt_schedule s2 = Some s'" for t x e2 s2
    using that ipc_frameD(14) [OF rt_thread_resume_frame] resched_frameD(15) [OF rt_schedule_frame] by metis
  with assms show ?thesis
    by (auto simp: workqueue_submit_work_def Let_def bind_Some_iff RT_EOK_def RT_EBUSY_def split: if_splits)
qed

lemma submit_inv:
  assumes inv: "wkq_inv q s" and np: "\<not> pending w s"
    and dr: "drivers s' = drivers (set_flag w RT_WORK_STATE_PENDING (work_append q w (work_remove w s)))"
  shows "wkq_inv q s'" "wkq_abs q s' = (work_list (wkq q s) @ [w], work_current (wkq q s))"
    "w \<notin> set (work_list (wkq q s))"
proof -
  show w: "w \<notin> set (work_list (wkq q s))" using inv np by (auto simp: wkq_inv_def)
  then have nn: "work_node (wk w s) \<noteq> Some q" using inv by (simp add: wkq_inv_def)
  have q': "wkq q s' = (wkq q s)\<lparr>work_list := work_list (wkq q s) @ [w]\<rparr>"
    unfolding dr using nn by (simp add: work_remove_wk)
  have wk': "wk v s' = (if v = w
      then (wk w s)\<lparr>work_node := Some q, work_flags := work_flags (wk w s) OR RT_WORK_STATE_PENDING\<rparr> else wk v s)" for v
    unfolding dr by (simp add: work_remove_wk)
  show "wkq_inv q s'" using inv w by (auto simp: wkq_inv_def q' wk' pending_bits)
  show "wkq_abs q s' = (work_list (wkq q s) @ [w], work_current (wkq q s))" by (simp add: wkq_abs_def q')
qed

lemma remove_inv:
  assumes inv: "wkq_inv q s" and dr: "drivers s' = drivers (clear_flag w RT_WORK_STATE_PENDING (work_remove w s))"
  shows "wkq_inv q s'" "wkq_abs q s' = (remove1 w (work_list (wkq q s)), work_current (wkq q s))"
proof -
  have l: "work_node (wk w s) \<noteq> Some q \<Longrightarrow> remove1 w (work_list (wkq q s)) = work_list (wkq q s)"
    using inv by (intro remove1_idem) (simp add: wkq_inv_def)
  have q': "wkq q s' = (wkq q s)\<lparr>work_list := remove1 w (work_list (wkq q s))\<rparr>"
    unfolding dr by (simp add: work_remove_wk l)
  have wk': "wk v s' = (if v = w
      then (wk w s)\<lparr>work_node := None, work_flags := work_flags (wk w s) AND NOT RT_WORK_STATE_PENDING\<rparr> else wk v s)" for v
    unfolding dr by (simp add: work_remove_wk)
  show "wkq_inv q s'" using inv by (auto simp: wkq_inv_def q' wk')
  show "wkq_abs q s' = (remove1 w (work_list (wkq q s)), work_current (wkq q s))" by (simp add: wkq_abs_def q')
qed

text \<open>
  C6: A work queue runs its works in the order of their submission, each once per submission: every
  run of submissions, cancellations and steps of the worker is a history of the specification. A
  work that waits or runs is refused with \<^verbatim>\<open>-RT_EBUSY\<close>, a running work is not cancelled.
\<close>

theorem workqueue_is_fifo:
  assumes "wkq_run q s es s'" "wkq_inv q s"
  shows "work_trace (wkq_abs q s) es = Some (wkq_abs q s') \<and> wkq_inv q s'"
  using assms
proof (induction rule: wkq_run.induct)
  case start
  then show ?case by simp
next
  case (submitted es s1 w s2)
  then have IH: "work_trace (wkq_abs q s) es = Some (wkq_abs q s1)" "wkq_inv q s1" by simp_all
  from submit_cases [OF submitted.hyps(2)] have c: "\<not> pending w s1" "work_current (wkq q s1) \<noteq> Some w"
    and dr: "drivers s2 = drivers (set_flag w RT_WORK_STATE_PENDING (work_append q w (work_remove w s1)))"
    by simp_all
  note si = submit_inv [OF IH(2) c(1) dr]
  show ?case using IH(1) si c(2) by (simp add: work_trace_snoc wkq_abs_def [of q s1])
next
  case (not_submitted es s1 w e s2)
  then show ?case using submit_cases [OF not_submitted.hyps(2)] by simp
next
  case (cancelled es s1 w s2)
  then have IH: "work_trace (wkq_abs q s) es = Some (wkq_abs q s1)" "wkq_inv q s1" by simp_all
  from cancelled.hyps(2) have c: "work_current (wkq q s1) \<noteq> Some w"
    and s2: "s2 = clear_flag w RT_WORK_STATE_PENDING (work_remove w s1)"
    by (auto simp: workqueue_cancel_work_def RT_EOK_def RT_EBUSY_def split: if_splits)
  note ri = remove_inv [OF IH(2), of s2 w, OF arg_cong [OF s2]]
  show ?case using IH(1) ri c by (simp add: work_trace_snoc wkq_abs_def [of q s1])
next
  case (not_cancelled es s1 w e s2)
  then show ?case by (auto simp: workqueue_cancel_work_def split: if_splits)
next
  case (started es s1 w s2)
  then have IH: "work_trace (wkq_abs q s) es = Some (wkq_abs q s1)" "wkq_inv q s1" by simp_all
  from started.hyps(2) obtain ws where l: "work_list (wkq q s1) = w # ws"
    and s2: "s2 = wk_update w (\<lambda>k. k\<lparr>work_queue := None\<rparr>) (clear_flag w RT_WORK_STATE_PENDING
            (wkq_update q (\<lambda>x. x\<lparr>work_current := Some w\<rparr>) (work_remove w s1)))"
    by (auto simp: workqueue_thread_begin_def split: list.splits)
  have n: "work_node (wk w s1) = Some q" using IH(2) l by (auto simp: wkq_inv_def)
  have q': "wkq q s2 = (wkq q s1)\<lparr>work_list := ws, work_current := Some w\<rparr>"
    unfolding s2 by (simp add: work_remove_wk n l)
  have wk': "wk v s2 = (if v = w then (wk w s1)\<lparr>work_node := None, work_flags := work_flags (wk w s1) AND NOT
      RT_WORK_STATE_PENDING, work_queue := None\<rparr> else wk v s1)" for v
    unfolding s2 by (simp add: work_remove_wk)
  have d: "w \<notin> set ws" "distinct ws" using IH(2) l by (simp_all add: wkq_inv_def)
  have "wkq_inv q s2" using IH(2) l d by (auto simp: wkq_inv_def q' wk')
  then show ?case using IH(1) l by (simp add: work_trace_snoc wkq_abs_def [of q s1] wkq_abs_def [of q s2] q')
next
  case (ended es s1 s2)
  then have IH: "work_trace (wkq_abs q s) es = Some (wkq_abs q s1)" "wkq_inv q s1" by simp_all
  note dr = workqueue_thread_end_drivers [OF ended.hyps(2)]
  have "wkq_inv q s2" using IH(2) by (simp add: wkq_inv_def dr)
  then show ?case using IH(1) by (simp add: work_trace_snoc wkq_abs_def dr)
next
  case (other es s1 s2)
  then show ?case by (simp add: wkq_inv_def wkq_abs_def)
qed

section \<open>The end of a work\<close>

lemma sem_release_waiter:
  assumes ok: "sys_ok s" and sem: "is_sem i s = Some ()" and w: "sem_waiters i s = t # ts"
    and ty: "is_thread t s = Some ()" "is_timer (ThreadTimer t) s = Some ()"
  obtains s' where "rt_sem_release i s = Some (RT_EOK, s')" "sys_ok s'" "ipc_frame s s'"
    "sem_waiters i s' = ts" "thread_stat s' t = RT_THREAD_READY"
    "\<And>u. u \<noteq> t \<Longrightarrow> thread_stat s' u = thread_stat s u"
proof -
  have inv: "sched_inv s" using ok by (simp add: sys_ok_def)
  obtain s1 s' where s': "rt_ipc_list_resume (IpcSuspend (OSem i)) s = Some s1" "rt_schedule s1 = Some s'"
    "sys_ok s'" "ipc_frame s s'" "thread_stat s' t = RT_THREAD_READY" "sem_waiters i s' = ts"
    by (rule resume_schedule_effect [OF ok _ w ty]) auto
  obtain s2 where s2: "rt_ipc_list_resume (IpcSuspend (OSem i)) s = Some s2"
    "threads s2 = (threads s)(t := (threads s t)\<lparr>stat := ready_stat (stat (threads s t)),
       tlist := Some (ReadyList (unat (current_priority (threads s t))))\<rparr>)"
    by (rule rt_ipc_list_resume_effect [OF inv _ w ty]) auto
  have st: "thread_stat s' u = thread_stat s u" if "u \<noteq> t" for u
    using that s'(1) s2 by (simp add: resched_frame_thread [OF rt_schedule_frame [OF s'(2)]] thread_stat_def)
  have "rt_sem_release i s = Some (RT_EOK, s')" using sem w s'(1,2) by (simp add: rt_sem_release_def)
  then show thesis by (rule that [OF _ s'(3,4,6,5) st])
qed

lemma completion_loop_effect:
  assumes "sys_ok s" "is_sem i s = Some ()" "sem_value (sems s i) = 0"
    and "\<And>t. t \<in> set (sem_waiters i s) \<Longrightarrow> is_thread t s = Some () \<and> is_timer (ThreadTimer t) s = Some ()"
  obtains s' where "completion_loop i s = Some (RT_EOK, s')" "sys_ok s'" "sem_value (sems s' i) = 0"
    "sem_waiters i s' = []" "\<And>u. thread_stat s u = RT_THREAD_READY \<Longrightarrow> thread_stat s' u = RT_THREAD_READY"
    "\<And>u. u \<in> set (sem_waiters i s) \<Longrightarrow> thread_stat s' u = RT_THREAD_READY"
proof -
  have "\<exists>s'. completion_loop i s = Some (RT_EOK, s') \<and> sys_ok s' \<and> sem_value (sems s' i) = 0 \<and>
      sem_waiters i s' = [] \<and> (\<forall>u. thread_stat s u = RT_THREAD_READY \<or> u \<in> set (sem_waiters i s) \<longrightarrow>
        thread_stat s' u = RT_THREAD_READY)"
    using assms
  proof (induction "sem_waiters i s" arbitrary: s)
    case Nil
    have take: "rt_sem_trytake i s = Some (Returned (- RT_ETIMEOUT), s)"
      using Nil.prems by (simp add: rt_sem_trytake_def rt_sem_take_def)
    have rel: "rt_sem_release i s = Some (RT_EOK, set_sem_value i 1 s)"
      using Nil by (simp add: rt_sem_release_def)
    have take2: "rt_sem_trytake i (set_sem_value i 1 s)
        = Some (Returned RT_EOK, set_sem_value i 0 (set_sem_value i 1 s))"
      using Nil.prems by (simp add: rt_sem_trytake_def rt_sem_take_def is_sem_def rt_object_get_type_def)
    let ?s = "set_sem_value i 0 (set_sem_value i 1 s)"
    have "completion_loop i s = Some (RT_EOK, ?s)"
      by (subst completion_loop.simps, simp add: take rel, subst completion_loop.simps)
        (simp add: take2 RT_EOK_def RT_ETIMEOUT_def)
    moreover have "sys_ok ?s" using Nil.prems(1) by (simp add: sys_ok_def stacks_ok_def thread_stat_def)
    ultimately show ?case using Nil.hyps by (simp add: thread_stat_def)
  next
    case (Cons t ts)
    have take: "rt_sem_trytake i s = Some (Returned (- RT_ETIMEOUT), s)"
      using Cons.prems by (simp add: rt_sem_trytake_def rt_sem_take_def)
    have w: "sem_waiters i s = t # ts" using Cons.hyps(2) by simp
    obtain s1 where s1: "rt_sem_release i s = Some (RT_EOK, s1)" "sys_ok s1" "ipc_frame s s1"
      "sem_waiters i s1 = ts" "thread_stat s1 t = RT_THREAD_READY"
      "\<And>u. u \<noteq> t \<Longrightarrow> thread_stat s1 u = thread_stat s u"
      by (rule sem_release_waiter [OF Cons.prems(1,2) w]) (use Cons.prems(4) [of t] w in auto)
    have "is_sem i s1 = Some ()" "sem_value (sems s1 i) = 0"
      "\<And>t. t \<in> set (sem_waiters i s1) \<Longrightarrow> is_thread t s1 = Some () \<and> is_timer (ThreadTimer t) s1 = Some ()"
      using Cons.prems(2-4) s1(4) w by (simp_all add: is_sem_def ipc_frameD [OF s1(3)])
    from Cons.hyps(1) [OF s1(4) [symmetric] s1(2) this]
    obtain s' where s': "completion_loop i s1 = Some (RT_EOK, s')" "sys_ok s'" "sem_value (sems s' i) = 0"
      "sem_waiters i s' = []"
      "\<forall>u. thread_stat s1 u = RT_THREAD_READY \<or> u \<in> set ts \<longrightarrow> thread_stat s' u = RT_THREAD_READY"
      using s1(4) by blast
    have "completion_loop i s = Some (RT_EOK, s')"
      by (subst completion_loop.simps) (simp add: take s1(1) s'(1))
    moreover have "\<forall>u. thread_stat s u = RT_THREAD_READY \<or> u \<in> set (sem_waiters i s) \<longrightarrow>
        thread_stat s' u = RT_THREAD_READY"
      using s'(5) s1(5,6) w by (metis set_ConsD)
    ultimately show ?case using s'(2-4) by blast
  qed
  with that show thesis by blast
qed

text \<open>
  C28: When a work has run, the queue returns to the state without a current work and every thread
  that waits in \<^verbatim>\<open>rt_workqueue_cancel_work_sync\<close> is ready: the loop of \<^verbatim>\<open>_workqueue_work_completion\<close>
  ends after one release for each of them, and the semaphore is back at 0 for the next work.
\<close>

theorem workqueue_completion_wakes_all:
  assumes "sys_ok s" "is_sem (work_sem (wkq q s)) s = Some ()" "sem_value (sems s (work_sem (wkq q s))) = 0"
    and "\<forall>t\<in>set (sem_waiters (work_sem (wkq q s)) s). is_thread t s = Some () \<and> is_timer (ThreadTimer t) s = Some ()"
  shows "\<exists>s'. workqueue_thread_end q s = Some s' \<and> sys_ok s' \<and> work_current (wkq q s') = None \<and>
    work_list (wkq q s') = work_list (wkq q s) \<and>
    sem_waiters (work_sem (wkq q s)) s' = [] \<and> sem_value (sems s' (work_sem (wkq q s))) = 0 \<and>
    (\<forall>t\<in>set (sem_waiters (work_sem (wkq q s)) s). thread_stat s' t = RT_THREAD_READY)"
proof -
  let ?i = "work_sem (wkq q s)"
  let ?s = "wkq_update q (\<lambda>x. x\<lparr>work_current := None\<rparr>) s"
  let ?t = "rt_enter_critical ?s"
  note fr0 = rt_enter_critical_frame [of ?s]
  have eq: "sems ?s = sems s" "objects ?s = objects s" "thread_lists ?s = thread_lists s"
    "rt_current_thread ?s = rt_current_thread s" by (simp_all add: wkq_update_def)
  have "sched_inv ?s = sched_inv s" by (rule sched_inv_cong) (simp_all add: wkq_update_def)
  then have "sys_ok ?s" using assms(1) by (simp add: sys_ok_def stacks_ok_def thread_stat_def eq)
  then have ok0: "sys_ok ?t" by (rule resched_frame_inv(3) [OF fr0])
  have pre: "is_sem ?i ?t = Some ()" "sem_value (sems ?t ?i) = 0"
    "\<And>t. t \<in> set (sem_waiters ?i ?t) \<Longrightarrow> is_thread t ?t = Some () \<and> is_timer (ThreadTimer t) ?t = Some ()"
    using assms(2-4)
    by (simp_all add: is_sem_def is_thread_def is_timer_def rt_object_get_type_def resched_frameD [OF fr0] eq)
  obtain s1 where s1: "completion_loop ?i ?t = Some (RT_EOK, s1)" "sys_ok s1" "sem_value (sems s1 ?i) = 0"
    "sem_waiters ?i s1 = []" "\<And>u. u \<in> set (sem_waiters ?i ?t) \<Longrightarrow> thread_stat s1 u = RT_THREAD_READY"
    by (rule completion_loop_effect [OF ok0 pre]) auto
  obtain s' where s': "rt_exit_critical s1 = Some s'" "resched_frame s1 s'" "sys_ok s'"
    by (rule rt_exit_critical_total [OF s1(2)])
  have e: "workqueue_thread_end q s = Some s'"
    using s1(1) s'(1) by (simp add: workqueue_thread_end_def workqueue_work_completion_def)
  show ?thesis
    using e s'(3) s1(3-5) workqueue_thread_end_drivers [OF e]
    by (simp add: resched_frameD [OF s'(2)] resched_frame_thread [OF s'(2)] resched_frameD [OF fr0] eq)
qed

section \<open>Two defects\<close>

lemma fold_work_remove:
  shows "wk v (fold work_remove ws s) = (if v \<in> set ws then (wk v s)\<lparr>work_node := None\<rparr> else wk v s)"
    "work_current (wkq q (fold work_remove ws s)) = work_current (wkq q s)"
    "distinct ws \<Longrightarrow> \<forall>w\<in>set ws. work_node (wk w s) = Some q \<Longrightarrow>
       work_list (wkq q (fold work_remove ws s)) = fold remove1 ws (work_list (wkq q s))"
proof -
  show "distinct ws \<Longrightarrow> \<forall>w\<in>set ws. work_node (wk w s) = Some q \<Longrightarrow>
       work_list (wkq q (fold work_remove ws s)) = fold remove1 ws (work_list (wkq q s))"
  proof (induction ws arbitrary: s)
    case (Cons a ws)
    have "\<forall>w\<in>set ws. work_node (wk w (work_remove a s)) = Some q"
      using Cons.prems by (auto simp: work_remove_wk)
    from Cons.IH [OF _ this] Cons.prems show ?case by (simp add: work_remove_wk)
  qed simp
qed (induction ws arbitrary: s; auto simp: work_remove_wk)+

lemma fold_remove1_self: "fold remove1 xs xs = []"
  by (induction xs) simp_all

text \<open>
  \<^verbatim>\<open>rt_workqueue_cancel_all_work\<close> empties the list of the queue but leaves the pending flag of
  its works set: after it, each of those works is refused with \<^verbatim>\<open>-RT_EBUSY\<close> by every submission,
  although it waits nowhere.
\<close>

theorem rt_workqueue_cancel_all_work_stuck:
  assumes "sys_ok s" "wkq_inv q s" "w \<in> set (work_list (wkq q s))"
  shows "\<exists>s'. rt_workqueue_cancel_all_work q s = Some (RT_EOK, s') \<and> work_list (wkq q s') = [] \<and>
    work_node (wk w s') = None \<and> workqueue_submit_work q w s' = Some (- RT_EBUSY, s')"
proof -
  let ?t = "rt_enter_critical s"
  let ?ws = "work_list (wkq q ?t)"
  let ?s1 = "fold work_remove ?ws ?t"
  have keep: "threads (work_remove v x) = threads x" "rt_current_thread (work_remove v x) = rt_current_thread x"
    "sched_inv (work_remove v x) = sched_inv x" for v x
    by (auto simp: work_remove_def wkq_update_def wk_update_def split: option.split intro!: sched_inv_cong)
  have ok1: "sys_ok (fold work_remove ws x) = sys_ok x" for ws x
    by (induction ws arbitrary: x) (simp_all add: sys_ok_def stacks_ok_def thread_stat_def keep)
  have "sys_ok ?t" by (rule resched_frame_inv(3) [OF rt_enter_critical_frame assms(1)])
  then obtain s' where s': "rt_exit_critical ?s1 = Some s'" by (rule rt_exit_critical_total [OF ok1 [THEN iffD2]])
  note dr = rt_exit_critical_drivers [OF s']
  have d: "distinct ?ws" and n: "\<forall>v\<in>set ?ws. work_node (wk v ?t) = Some q" and w: "w \<in> set ?ws"
    and p: "pending w ?t" using assms(2,3) by (simp_all add: wkq_inv_def)
  note f = fold_work_remove(1) [where v = w and ws = ?ws and s = ?t] fold_work_remove(3) [OF d n]
  have "rt_workqueue_cancel_all_work q s = Some (RT_EOK, s')"
    using s' by (simp add: rt_workqueue_cancel_all_work_def Let_def)
  moreover have "work_list (wkq q s') = []" using f(2) by (simp add: dr fold_remove1_self)
  moreover have wk': "wk w s' = (wk w ?t)\<lparr>work_node := None\<rparr>" using f(1) w by (simp add: dr)
  moreover have "workqueue_submit_work q w s' = Some (- RT_EBUSY, s')"
    using p by (simp add: workqueue_submit_work_def wk')
  ultimately show ?thesis by simp
qed


end
