(* ===== verification/RTT_KService.thy ===== *)
theory RTT_KService
  imports RTT_Prelude
begin

text \<open>
  The memory and string functions of \<^verbatim>\<open>kservice.c\<close>, on a memory of bytes. The object that a
  pointer points into does not wrap around the end of the address space, so that addresses are
  numbers; a word is 32 bits, little endian, and \<^verbatim>\<open>char\<close> is unsigned, as on the ARM target.
  A string function that finds no terminator reads on for ever and is \<open>None\<close>.
\<close>

type_synonym mem = "nat \<Rightarrow> u8"

definition LBLOCKSIZE :: nat where "LBLOCKSIZE = 4"

declare LBLOCKSIZE_def [simp]

definition load_word :: "nat \<Rightarrow> mem \<Rightarrow> u32" where
  "load_word a m = ucast (m a) OR push_bit 8 (ucast (m (a + 1))) OR push_bit 16 (ucast (m (a + 2))) OR
     push_bit 24 (ucast (m (a + 3)))"

definition store_word :: "nat \<Rightarrow> u32 \<Rightarrow> mem \<Rightarrow> mem" where
  "store_word a w m = m(a := ucast w, a + 1 := ucast (drop_bit 8 w), a + 2 := ucast (drop_bit 16 w),
     a + 3 := ucast (drop_bit 24 w))"

definition UNALIGNED :: "nat \<Rightarrow> bool" where
  "UNALIGNED a \<longleftrightarrow> a mod LBLOCKSIZE \<noteq> 0"

section \<open>Filling\<close>

text \<open>The loops carry the address and the bytes that remain.\<close>

fun memset_bytes :: "nat \<Rightarrow> u8 \<Rightarrow> nat \<Rightarrow> mem \<Rightarrow> mem" where
  "memset_bytes a d 0 m = m"
| "memset_bytes a d (Suc n) m = memset_bytes (a + 1) d n (m(a := d))"

fun memset_blocks :: "nat \<Rightarrow> u32 \<Rightarrow> nat \<Rightarrow> mem \<Rightarrow> nat \<times> nat \<times> mem" where
  "memset_blocks a buf n m =
     (if n \<ge> LBLOCKSIZE * 4
      then memset_blocks (a + 16) buf (n - 4 * LBLOCKSIZE)
        (store_word (a + 12) buf (store_word (a + 8) buf (store_word (a + 4) buf (store_word a buf m))))
      else (a, n, m))"

fun memset_words :: "nat \<Rightarrow> u32 \<Rightarrow> nat \<Rightarrow> mem \<Rightarrow> nat \<times> nat \<times> mem" where
  "memset_words a buf n m =
     (if n \<ge> LBLOCKSIZE then memset_words (a + 4) buf (n - LBLOCKSIZE) (store_word a buf m) else (a, n, m))"

definition memset_buffer :: "u8 \<Rightarrow> u32" where
  "memset_buffer d =
     (let buf = push_bit 8 (ucast d) OR ucast d in buf OR push_bit 16 buf)"

definition rt_memset :: "nat \<Rightarrow> u32 \<Rightarrow> u32 \<Rightarrow> mem \<Rightarrow> mem" where
  "rt_memset s c count m =
     (let d = ucast c; n = unat count in
      if n \<ge> LBLOCKSIZE \<and> \<not> UNALIGNED s
      then
        let (a, n, m) = memset_blocks s (memset_buffer d) n m;
            (a, n, m) = memset_words a (memset_buffer d) n m
        in memset_bytes a d n m
      else memset_bytes s d n m)"

section \<open>Copying\<close>

fun copy_bytes :: "nat \<Rightarrow> nat \<Rightarrow> nat \<Rightarrow> mem \<Rightarrow> mem" where
  "copy_bytes d s 0 m = m"
| "copy_bytes d s (Suc n) m = copy_bytes (d + 1) (s + 1) n (m(d := m s))"

fun copy_bytes_down :: "nat \<Rightarrow> nat \<Rightarrow> nat \<Rightarrow> mem \<Rightarrow> mem" where
  "copy_bytes_down d s 0 m = m"
| "copy_bytes_down d s (Suc n) m = copy_bytes_down d s n (m(d + n := m (s + n)))"

definition copy_word :: "nat \<Rightarrow> nat \<Rightarrow> mem \<Rightarrow> mem" where
  "copy_word d s m = store_word d (load_word s m) m"

fun copy_blocks :: "nat \<Rightarrow> nat \<Rightarrow> nat \<Rightarrow> mem \<Rightarrow> nat \<times> nat \<times> nat \<times> mem" where
  "copy_blocks d s n m =
     (if n \<ge> LBLOCKSIZE * 4
      then copy_blocks (d + 16) (s + 16) (n - LBLOCKSIZE * 4)
        (copy_word (d + 12) (s + 12) (copy_word (d + 8) (s + 8) (copy_word (d + 4) (s + 4) (copy_word d s m))))
      else (d, s, n, m))"

fun copy_words :: "nat \<Rightarrow> nat \<Rightarrow> nat \<Rightarrow> mem \<Rightarrow> nat \<times> nat \<times> nat \<times> mem" where
  "copy_words d s n m =
     (if n \<ge> LBLOCKSIZE then copy_words (d + 4) (s + 4) (n - LBLOCKSIZE) (copy_word d s m) else (d, s, n, m))"

text \<open>
  \<^verbatim>\<open>rt_memcpy\<close> counts in an \<^verbatim>\<open>int\<close>, which the comparisons with the block sizes convert back to an
  unsigned number.
\<close>

definition rt_memcpy :: "nat \<Rightarrow> nat \<Rightarrow> u32 \<Rightarrow> mem \<Rightarrow> mem" where
  "rt_memcpy dst src count m =
     (let n = unat count in
      if n \<ge> LBLOCKSIZE * 4 \<and> \<not> (UNALIGNED src \<or> UNALIGNED dst)
      then
        let (d, s, n, m) = copy_blocks dst src n m;
            (d, s, n, m) = copy_words d s n m
        in copy_bytes d s n m
      else copy_bytes dst src n m)"

definition rt_memmove :: "nat \<Rightarrow> nat \<Rightarrow> u32 \<Rightarrow> mem \<Rightarrow> mem" where
  "rt_memmove dest src n m =
     (if src < dest \<and> dest < src + unat n then copy_bytes_down dest src (unat n) m
      else copy_bytes dest src (unat n) m)"

section \<open>Comparing and searching\<close>

fun memcmp_loop :: "nat \<Rightarrow> nat \<Rightarrow> nat \<Rightarrow> mem \<Rightarrow> int" where
  "memcmp_loop a b 0 m = 0"
| "memcmp_loop a b (Suc n) m =
     (let res = uint (m a) - uint (m b) in if res \<noteq> 0 then res else memcmp_loop (a + 1) (b + 1) n m)"

definition rt_memcmp :: "nat \<Rightarrow> nat \<Rightarrow> u32 \<Rightarrow> mem \<Rightarrow> int" where
  "rt_memcmp cs ct count m = memcmp_loop cs ct (unat count) m"

partial_function (option) strlen_loop :: "nat \<Rightarrow> mem \<Rightarrow> nat option" where
  "strlen_loop sc m = (if m sc \<noteq> 0 then strlen_loop (sc + 1) m else Some sc)"

definition rt_strlen :: "nat \<Rightarrow> mem \<Rightarrow> u32 option" where
  "rt_strlen s m = map_option (\<lambda>sc. of_nat (sc - s)) (strlen_loop s m)"

text \<open>The code tests the character before the length, so that it reads one byte more; its value does not matter.\<close>

fun strnlen_loop :: "nat \<Rightarrow> nat \<Rightarrow> nat \<Rightarrow> mem \<Rightarrow> nat" where
  "strnlen_loop s sc 0 m = sc"
| "strnlen_loop s sc (Suc n) m = (if m sc \<noteq> 0 then strnlen_loop s (sc + 1) n m else sc)"

definition rt_strnlen :: "nat \<Rightarrow> u32 \<Rightarrow> mem \<Rightarrow> u32" where
  "rt_strnlen s maxlen m = of_nat (strnlen_loop s s (unat maxlen) m - s)"

fun strstr_loop :: "nat \<Rightarrow> nat \<Rightarrow> nat \<Rightarrow> nat \<Rightarrow> mem \<Rightarrow> nat option" where
  "strstr_loop s1 s2 l1 l2 m =
     (if l1 \<ge> l2 \<and> l2 > 0
      then if rt_memcmp s1 s2 (of_nat l2) m = 0 then Some s1 else strstr_loop (s1 + 1) s2 (l1 - 1) l2 m
      else None)"

text \<open>The lengths are \<^verbatim>\<open>int\<close>s: strings are shorter than half of the address space.\<close>

definition rt_strstr :: "nat \<Rightarrow> nat \<Rightarrow> mem \<Rightarrow> nat option option" where
  "rt_strstr s1 s2 m = do {
     l2 \<leftarrow> rt_strlen s2 m;
     if l2 = 0 then Some (Some s1)
     else do {
       l1 \<leftarrow> rt_strlen s1 m;
       rt_assert (unat l1 < 2 ^ 31 \<and> unat l2 < 2 ^ 31);
       Some (strstr_loop s1 s2 (unat l1) (unat l2) m) } }"

definition lower :: "u8 \<Rightarrow> int" where
  "lower c = (let c = uint c in if c \<ge> 65 \<and> c \<le> 90 then c + (97 - 65) else c)"

partial_function (option) strcasecmp_loop :: "nat \<Rightarrow> nat \<Rightarrow> mem \<Rightarrow> int option" where
  "strcasecmp_loop a b m =
     (let ca = lower (m a); cb = lower (m b) in
      if ca = cb \<and> ca \<noteq> 0 then strcasecmp_loop (a + 1) (b + 1) m else Some (ca - cb))"

definition rt_strcasecmp :: "nat \<Rightarrow> nat \<Rightarrow> mem \<Rightarrow> u32 option" where
  "rt_strcasecmp a b m = map_option word_of_int (strcasecmp_loop a b m)"

fun strncpy_loop :: "nat \<Rightarrow> nat \<Rightarrow> nat \<Rightarrow> mem \<Rightarrow> mem" where
  "strncpy_loop d s 0 m = m"
| "strncpy_loop d s (Suc n) m =
     (if m s = 0 then memset_bytes (d + 1) 0 n (m(d := m s)) else strncpy_loop (d + 1) (s + 1) n (m(d := m s)))"

definition rt_strncpy :: "nat \<Rightarrow> nat \<Rightarrow> u32 \<Rightarrow> mem \<Rightarrow> mem" where
  "rt_strncpy dst src n m = strncpy_loop dst src (unat n) m"

text \<open>The difference goes through a \<^verbatim>\<open>signed char\<close>.\<close>

fun strncmp_loop :: "nat \<Rightarrow> nat \<Rightarrow> nat \<Rightarrow> 8 word \<Rightarrow> mem \<Rightarrow> 8 word" where
  "strncmp_loop cs ct 0 res m = res"
| "strncmp_loop cs ct (Suc n) res m =
     (let res = m cs - m ct in if res \<noteq> 0 \<or> m cs = 0 then res else strncmp_loop (cs + 1) (ct + 1) n res m)"

definition rt_strncmp :: "nat \<Rightarrow> nat \<Rightarrow> u32 \<Rightarrow> mem \<Rightarrow> int" where
  "rt_strncmp cs ct count m = sint (strncmp_loop cs ct (unat count) 0 m)"

partial_function (option) strcmp_loop :: "nat \<Rightarrow> nat \<Rightarrow> mem \<Rightarrow> int option" where
  "strcmp_loop cs ct m =
     (if m cs \<noteq> 0 \<and> m cs = m ct then strcmp_loop (cs + 1) (ct + 1) m else Some (uint (m cs) - uint (m ct)))"

definition rt_strcmp :: "nat \<Rightarrow> nat \<Rightarrow> mem \<Rightarrow> int option" where
  "rt_strcmp cs ct m = strcmp_loop cs ct m"

declare memset_blocks.simps [simp del] memset_words.simps [simp del]
  copy_blocks.simps [simp del] copy_words.simps [simp del] strstr_loop.simps [simp del]

section \<open>Filling and copying are right\<close>

definition filled :: "nat \<Rightarrow> nat \<Rightarrow> u8 \<Rightarrow> mem \<Rightarrow> mem" where
  "filled a n d m = (\<lambda>x. if a \<le> x \<and> x < a + n then d else m x)"

definition copied :: "nat \<Rightarrow> nat \<Rightarrow> nat \<Rightarrow> mem \<Rightarrow> mem" where
  "copied d s n m = (\<lambda>x. if d \<le> x \<and> x < d + n then m (s + (x - d)) else m x)"

lemma filled_filled: "filled (a + n) k d (filled a n d m) = filled a (n + k) d m"
  by (auto simp: filled_def fun_eq_iff)

lemma filled_0 [simp]: "filled a 0 d m = m"
  by (auto simp: filled_def fun_eq_iff)

lemma memset_bytes_filled: "memset_bytes a d n m = filled a n d m"
proof (induction a d n m rule: memset_bytes.induct)
  case (2 a d n m)
  have "m(a := d) = filled a 1 d m" by (auto simp: filled_def)
  with 2 show ?case using filled_filled [of a 1 n d m] by simp
qed simp

lemma bit_memset_buffer:
  assumes "i < 8"
  shows "bit (memset_buffer d) i = bit d i" "bit (memset_buffer d) (8 + i) = bit d i"
    "bit (memset_buffer d) (16 + i) = bit d i" "bit (memset_buffer d) (24 + i) = bit d i"
  using assms by (auto simp: memset_buffer_def Let_def bit_simps dest: bit_imp_le_length)

lemma memset_buffer_bytes:
  "ucast (memset_buffer d) = d" "ucast (drop_bit 8 (memset_buffer d)) = d"
  "ucast (drop_bit 16 (memset_buffer d)) = d" "ucast (drop_bit 24 (memset_buffer d)) = d"
proof -
  show "ucast (memset_buffer d) = d"
    by (rule bit_word_eqI) (simp add: bit_ucast_iff bit_memset_buffer)
  show "ucast (drop_bit 8 (memset_buffer d)) = d"
    by (rule bit_word_eqI) (simp add: bit_ucast_iff bit_drop_bit_eq bit_memset_buffer)
  show "ucast (drop_bit 16 (memset_buffer d)) = d"
    by (rule bit_word_eqI) (simp add: bit_ucast_iff bit_drop_bit_eq bit_memset_buffer)
  show "ucast (drop_bit 24 (memset_buffer d)) = d"
    by (rule bit_word_eqI) (simp add: bit_ucast_iff bit_drop_bit_eq bit_memset_buffer)
qed

lemma store_word_filled: "store_word a (memset_buffer d) m = filled a 4 d m"
proof -
  have "x = a \<or> x = a + 1 \<or> x = a + 2 \<or> x = a + 3" if "a \<le> x" "x < a + 4" for x using that by linarith
  then show ?thesis by (fastforce simp: store_word_def filled_def fun_eq_iff memset_buffer_bytes)
qed

lemma memset_blocks_filled:
  assumes "memset_blocks a (memset_buffer d) n m = (b, k, m')"
  shows "b + k = a + n \<and> a \<le> b \<and> m' = filled a (b - a) d m"
  using assms
proof (induction n arbitrary: a m rule: less_induct)
  case (less n)
  show ?case
  proof (cases "n \<ge> 16")
    case True
    have four: "store_word (a + 12) (memset_buffer d) (store_word (a + 8) (memset_buffer d) (store_word (a + 4) (memset_buffer d)
        (store_word a (memset_buffer d) m))) = filled a 16 d m"
      by (auto simp: store_word_filled filled_def fun_eq_iff)
    have "memset_blocks (a + 16) (memset_buffer d) (n - 16) (filled a 16 d m) = (b, k, m')"
      using less.prems True four by (subst (asm) memset_blocks.simps) (simp add: LBLOCKSIZE_def)
    from less.IH [OF _ this] True have "b + k = a + n" "a + 16 \<le> b" "m' = filled (a + 16) (b - (a + 16)) d (filled a 16 d m)"
      by auto
    then show ?thesis using filled_filled [of a 16 "b - (a + 16)" d m] by simp
  next
    case False
    then show ?thesis using less.prems by (subst (asm) memset_blocks.simps) (simp add: LBLOCKSIZE_def)
  qed
qed

lemma memset_words_filled:
  assumes "memset_words a (memset_buffer d) n m = (b, k, m')"
  shows "b + k = a + n \<and> a \<le> b \<and> m' = filled a (b - a) d m"
  using assms
proof (induction n arbitrary: a m rule: less_induct)
  case (less n)
  show ?case
  proof (cases "n \<ge> 4")
    case True
    have "memset_words (a + 4) (memset_buffer d) (n - 4) (filled a 4 d m) = (b, k, m')"
      using less.prems True by (subst (asm) memset_words.simps) (simp add: LBLOCKSIZE_def store_word_filled)
    from less.IH [OF _ this] True have "b + k = a + n" "a + 4 \<le> b" "m' = filled (a + 4) (b - (a + 4)) d (filled a 4 d m)"
      by auto
    then show ?thesis using filled_filled [of a 4 "b - (a + 4)" d m] by simp
  next
    case False
    then show ?thesis using less.prems by (subst (asm) memset_words.simps) (simp add: LBLOCKSIZE_def)
  qed
qed

lemma rt_memset_filled: "rt_memset s c count m = filled s (unat count) (ucast c) m"
proof -
  let ?d = "ucast c :: u8" and ?n = "unat count"
  obtain a k m1 where 1: "memset_blocks s (memset_buffer ?d) ?n m = (a, k, m1)" by (metis prod_cases3)
  obtain b j m2 where 2: "memset_words a (memset_buffer ?d) k m1 = (b, j, m2)" by (metis prod_cases3)
  note f1 = memset_blocks_filled [OF 1] and f2 = memset_words_filled [OF 2]
  have "m2 = filled s (b - s) ?d m" using f1 f2 filled_filled [of s "a - s" "b - a" ?d m] by simp
  then have "memset_bytes b ?d j m2 = filled s ?n ?d m"
    using f1 f2 filled_filled [of s "b - s" j ?d m] by (simp add: memset_bytes_filled)
  then show ?thesis
    using 1 2 by (simp add: rt_memset_def Let_def memset_bytes_filled)
qed

text \<open>Copying upwards is right when the areas do not overlap or the destination is below.\<close>

lemma copied_0 [simp]: "copied d s 0 m = m"
  by (auto simp: copied_def fun_eq_iff)

lemma copied_copied:
  assumes "d \<le> s \<or> s + (n + k) \<le> d"
  shows "copied (d + n) (s + n) k (copied d s n m) = copied d s (n + k) m"
  using assms by (auto simp: copied_def fun_eq_iff)

lemma copy_bytes_copied: "d \<le> s \<or> s + n \<le> d \<Longrightarrow> copy_bytes d s n m = copied d s n m"
proof (induction d s n m rule: copy_bytes.induct)
  case (2 d s n m)
  have "m(d := m s) = copied d s 1 m" by (auto simp: copied_def)
  with 2 show ?case using copied_copied [of d s 1 n m] by auto
qed simp

lemma copy_bytes_down_copied: "s \<le> d \<Longrightarrow> copy_bytes_down d s n m = copied d s n m"
proof (induction d s n m rule: copy_bytes_down.induct)
  case (2 d s n m)
  have "copy_bytes_down d s (Suc n) m = copied d s n (m(d + n := m (s + n)))"
    unfolding copy_bytes_down.simps by (rule 2(1) [OF 2(2)])
  also have "\<dots> = copied d s (Suc n) m" using 2(2) by (auto simp: copied_def fun_eq_iff)
  finally show ?case .
qed simp

lemma load_word_bytes:
  "ucast (load_word a m) = m a" "ucast (drop_bit 8 (load_word a m)) = m (a + 1)"
  "ucast (drop_bit 16 (load_word a m)) = m (a + 2)" "ucast (drop_bit 24 (load_word a m)) = m (a + 3)"
proof -
  have "bit (load_word a m) i = bit (m a) i" "bit (load_word a m) (8 + i) = bit (m (a + 1)) i"
    "bit (load_word a m) (16 + i) = bit (m (a + 2)) i" "bit (load_word a m) (24 + i) = bit (m (a + 3)) i" if "i < 8" for i
    using that by (auto simp: load_word_def bit_simps dest: bit_imp_le_length)
  then show "ucast (load_word a m) = m a" "ucast (drop_bit 8 (load_word a m)) = m (a + 1)"
    "ucast (drop_bit 16 (load_word a m)) = m (a + 2)" "ucast (drop_bit 24 (load_word a m)) = m (a + 3)"
    by (auto intro!: bit_word_eqI simp: bit_ucast_iff bit_drop_bit_eq)
qed

lemma copy_word_copied: "copy_word d s m = copied d s 4 m"
proof -
  have "x = d \<or> x = d + 1 \<or> x = d + 2 \<or> x = d + 3" if "d \<le> x" "x < d + 4" for x using that by linarith
  then show ?thesis by (fastforce simp: copy_word_def store_word_def copied_def fun_eq_iff load_word_bytes)
qed

text \<open>Words are read before they are written, so that the distance may be less than a block.\<close>

definition far :: "nat \<Rightarrow> nat \<Rightarrow> nat \<Rightarrow> bool" where
  "far d s n \<longleftrightarrow> d \<le> s \<or> s + n \<le> d"

lemma copy_words_copied:
  assumes "copy_words d s n m = (d', s', k, m')" "far d s n"
  obtains i where "d' = d + i" "s' = s + i" "n = i + k" "m' = copied d s i m"
  using assms
proof (induction n arbitrary: d s m thesis rule: less_induct)
  case (less n)
  show ?case
  proof (cases "n \<ge> 4")
    case True
    have w: "copy_words (d + 4) (s + 4) (n - 4) (copied d s 4 m) = (d', s', k, m')"
      using less.prems(2) True by (subst (asm) copy_words.simps) (simp add: copy_word_copied)
    have "far (d + 4) (s + 4) (n - 4)" using less.prems(3) True by (auto simp: far_def)
    from less.IH [OF _ _ w this] True obtain i where i: "d' = d + 4 + i" "s' = s + 4 + i" "n - 4 = i + k"
      "m' = copied (d + 4) (s + 4) i (copied d s 4 m)" by auto
    have "m' = copied d s (4 + i) m"
      unfolding i(4) by (rule copied_copied) (use less.prems(3) i(3) True in \<open>auto simp: far_def\<close>)
    then show ?thesis using less.prems(1) [of "4 + i"] i True by simp
  next
    case False
    then show ?thesis using less.prems(1) [of 0] less.prems(2) by (subst (asm) copy_words.simps) simp
  qed
qed

lemma copy_blocks_copied:
  assumes "copy_blocks d s n m = (d', s', k, m')" "far d s n"
  obtains i where "d' = d + i" "s' = s + i" "n = i + k" "m' = copied d s i m"
  using assms
proof (induction n arbitrary: d s m thesis rule: less_induct)
  case (less n)
  show ?case
  proof (cases "n \<ge> 16")
    case True
    have f: "d \<le> s \<or> s + (i + j) \<le> d" if "i + j \<le> 16" for i j using less.prems(3) True that by (auto simp: far_def)
    have "copied (d + 8) (s + 8) 4 (copied (d + 4) (s + 4) 4 (copied d s 4 m)) = copied d s 12 m"
      using copied_copied [OF f, of 4 4 m] copied_copied [OF f, of 8 4 m] by simp
    then have four: "copy_word (d + 12) (s + 12) (copy_word (d + 8) (s + 8) (copy_word (d + 4) (s + 4) (copy_word d s m)))
        = copied d s 16 m"
      using copied_copied [OF f, of 12 4 m] by (simp add: copy_word_copied)
    have w: "copy_blocks (d + 16) (s + 16) (n - 16) (copied d s 16 m) = (d', s', k, m')"
      using less.prems(2) True four by (subst (asm) copy_blocks.simps) simp
    have "far (d + 16) (s + 16) (n - 16)" using less.prems(3) True by (auto simp: far_def)
    from less.IH [OF _ _ w this] True obtain i where i: "d' = d + 16 + i" "s' = s + 16 + i" "n - 16 = i + k"
      "m' = copied (d + 16) (s + 16) i (copied d s 16 m)" by auto
    have "m' = copied d s (16 + i) m"
      unfolding i(4) by (rule copied_copied) (use less.prems(3) i(3) True in \<open>auto simp: far_def\<close>)
    then show ?thesis using less.prems(1) [of "16 + i"] i True by simp
  next
    case False
    then show ?thesis using less.prems(1) [of 0] less.prems(2) by (subst (asm) copy_blocks.simps) simp
  qed
qed

lemma rt_memcpy_copied:
  assumes "far dst src (unat count)"
  shows "rt_memcpy dst src count m = copied dst src (unat count) m"
proof -
  let ?n = "unat count"
  obtain d s k m1 where 1: "copy_blocks dst src ?n m = (d, s, k, m1)" by (metis prod_cases4)
  obtain d' s' j m2 where 2: "copy_words d s k m1 = (d', s', j, m2)" by (metis prod_cases4)
  obtain x where x: "d = dst + x" "s = src + x" "?n = x + k" "m1 = copied dst src x m"
    by (rule copy_blocks_copied [OF 1 assms])
  have far': "far d s k" using assms x by (auto simp: far_def)
  obtain y where y: "d' = d + y" "s' = s + y" "k = y + j" "m2 = copied d s y m1"
    by (rule copy_words_copied [OF 2 far'])
  have a: "m2 = copied dst src (x + y) m"
    unfolding y(4) x(1,2,4) by (rule copied_copied) (use assms x(3) y(3) in \<open>auto simp: far_def\<close>)
  have ds: "d' = dst + (x + y)" "s' = src + (x + y)" using x(1,2) y(1,2) by simp_all
  have "copy_bytes d' s' j m2 = copied d' s' j m2"
    by (rule copy_bytes_copied) (use assms x y in \<open>auto simp: far_def\<close>)
  also have "\<dots> = copied (dst + (x + y)) (src + (x + y)) j (copied dst src (x + y) m)"
    unfolding ds a by (rule refl)
  also have "\<dots> = copied dst src (x + y + j) m"
    by (rule copied_copied) (use assms x(3) y(3) in \<open>auto simp: far_def\<close>)
  also have "x + y + j = ?n" using x(3) y(3) by simp
  finally show ?thesis
    using 1 2 assms by (auto simp: rt_memcpy_def Let_def far_def copy_bytes_copied)
qed

lemma rt_memmove_copied: "rt_memmove dest src n m = copied dest src (unat n) m"
  by (auto simp: rt_memmove_def copy_bytes_down_copied intro!: copy_bytes_copied)

section \<open>Strings\<close>

text \<open>The string \<open>xs\<close> with its terminator is at the address \<open>a\<close>.\<close>

fun cstr :: "mem \<Rightarrow> nat \<Rightarrow> u8 list \<Rightarrow> bool" where
  "cstr m a [] \<longleftrightarrow> m a = 0"
| "cstr m a (x # xs) \<longleftrightarrow> m a = x \<and> x \<noteq> 0 \<and> cstr m (a + 1) xs"

definition block :: "mem \<Rightarrow> nat \<Rightarrow> nat \<Rightarrow> u8 list" where
  "block m a n = map m [a..<a + n]"

lemma block_simps [simp]:
  "block m a 0 = []" "block m a (Suc n) = m a # block m (a + 1) n" "length (block m a n) = n"
  by (simp_all add: block_def upt_conv_Cons del: upt_Suc)

lemma cstr_block: "cstr m a xs \<Longrightarrow> block m a (length xs) = xs"
  by (induction m a xs rule: cstr.induct) auto

lemma cstr_drop: "cstr m a xs \<Longrightarrow> i \<le> length xs \<Longrightarrow> cstr m (a + i) (drop i xs)"
proof (induction i arbitrary: a xs)
  case (Suc i)
  then obtain y ys where "xs = y # ys" by (cases xs) auto
  with Suc.IH [of "a + 1" ys] Suc.prems show ?case by simp
qed simp

lemma block_take: "k \<le> n \<Longrightarrow> block m a k = take k (block m a n)"
  by (simp add: block_def take_map)

lemma strlen_loop_cstr: "cstr m a xs \<Longrightarrow> strlen_loop a m = Some (a + length xs)"
  by (induction m a xs rule: cstr.induct) (subst strlen_loop.simps; simp)+

lemma rt_strlen_cstr: "cstr m a xs \<Longrightarrow> rt_strlen a m = Some (of_nat (length xs))"
  by (simp add: rt_strlen_def strlen_loop_cstr)

lemma strnlen_loop_cstr: "cstr m a xs \<Longrightarrow> strnlen_loop s a n m = a + min n (length xs)"
proof (induction m a xs arbitrary: n rule: cstr.induct)
  case (1 m a)
  then show ?case by (cases n) auto
next
  case (2 m a x xs)
  then show ?case by (cases n) auto
qed

lemma rt_strnlen_cstr: "cstr m a xs \<Longrightarrow> rt_strnlen a n m = of_nat (min (unat n) (length xs))"
  by (simp add: rt_strnlen_def strnlen_loop_cstr)

lemma uint_eq [simp]: "uint (x :: u8) = uint y \<longleftrightarrow> x = y" "uint x = 0 \<longleftrightarrow> x = 0"
  by (simp_all add: word_uint_eq_iff)

lemma memcmp_loop_0: "memcmp_loop a b n m = 0 \<longleftrightarrow> block m a n = block m b n"
  by (induction a b n m rule: memcmp_loop.induct) (auto simp: Let_def)

lemma rt_memcmp_0: "rt_memcmp a b n m = 0 \<longleftrightarrow> block m a (unat n) = block m b (unat n)"
  by (simp add: rt_memcmp_def memcmp_loop_0)

definition occurs_at :: "u8 list \<Rightarrow> u8 list \<Rightarrow> nat \<Rightarrow> bool" where
  "occurs_at ys xs i \<longleftrightarrow> i + length ys \<le> length xs \<and> take (length ys) (drop i xs) = ys"

lemma occurs_at_Suc: "occurs_at ys (x # xs) (Suc i) = occurs_at ys xs i"
  by (simp add: occurs_at_def)

lemma strstr_loop_cstr:
  assumes "cstr m s2 ys" "ys \<noteq> []" "length ys < 2 ^ 32"
  shows "cstr m s1 xs \<Longrightarrow>
    (case strstr_loop s1 s2 (length xs) (length ys) m of
       None \<Rightarrow> \<forall>i. \<not> occurs_at ys xs i
     | Some p \<Rightarrow> \<exists>i. p = s1 + i \<and> occurs_at ys xs i \<and> (\<forall>j<i. \<not> occurs_at ys xs j))"
proof (induction xs arbitrary: s1)
  case Nil
  then show ?case using assms(2) by (subst strstr_loop.simps) (simp add: occurs_at_def)
next
  case (Cons x xs)
  have c: "cstr m (s1 + 1) xs" using Cons.prems by simp
  have un: "unat (of_nat (length ys) :: u32) = length ys" using assms(3) by (simp add: unat_of_nat32)
  have bl: "block m s1 (length ys) = take (length ys) (x # xs)" if "length ys \<le> length (x # xs)"
    using cstr_block [OF Cons.prems] block_take [OF that, of m s1] by simp
  have z: "occurs_at ys (x # xs) 0 \<longleftrightarrow> length ys \<le> length (x # xs) \<and> rt_memcmp s1 s2 (of_nat (length ys)) m = 0"
    using bl cstr_block [OF assms(1)] by (auto simp: occurs_at_def rt_memcmp_0 un)
  show ?case
  proof (cases "length ys \<le> length (x # xs)")
    case False
    then have "\<not> occurs_at ys (x # xs) i" for i by (simp add: occurs_at_def)
    then show ?thesis using False by (subst strstr_loop.simps) simp
  next
    case True
    show ?thesis
    proof (cases "occurs_at ys (x # xs) 0")
      case hit: True
      then have "strstr_loop s1 s2 (length (x # xs)) (length ys) m = Some s1"
        using z assms(2) by (subst strstr_loop.simps) simp
      with hit show ?thesis by auto
    next
      case miss: False
      then have step: "strstr_loop s1 s2 (length (x # xs)) (length ys) m = strstr_loop (s1 + 1) s2 (length xs) (length ys) m"
        using z True assms(2) by (subst strstr_loop.simps) simp
      show ?thesis
      proof (cases "strstr_loop (s1 + 1) s2 (length xs) (length ys) m")
        case None
        with Cons.IH [OF c] have "\<forall>i. \<not> occurs_at ys xs i" by simp
        then have "\<forall>i. \<not> occurs_at ys (x # xs) i" using miss by (metis not0_implies_Suc occurs_at_Suc)
        then show ?thesis unfolding step None by simp
      next
        case (Some p)
        with Cons.IH [OF c] obtain i where i: "p = s1 + 1 + i" "occurs_at ys xs i" "\<forall>j<i. \<not> occurs_at ys xs j" by auto
        have "\<not> occurs_at ys (x # xs) j" if "j < Suc i" for j
          using that miss i(3) by (cases j) (simp_all add: occurs_at_Suc)
        then show ?thesis unfolding step Some using i(1,2) by (auto intro!: exI [of _ "Suc i"] simp: occurs_at_Suc)
      qed
    qed
  qed
qed

lemma strcmp_loop_cstr:
  "cstr m a xs \<Longrightarrow> cstr m b ys \<Longrightarrow> \<exists>r. strcmp_loop a b m = Some r \<and> (r = 0 \<longleftrightarrow> xs = ys)"
proof (induction m a xs arbitrary: b ys rule: cstr.induct)
  case (1 m a)
  then show ?case by (cases ys) (subst strcmp_loop.simps; auto)+
next
  case (2 m a x xs)
  show ?case
  proof (cases "m b = x")
    case False
    have "strcmp_loop a b m = Some (uint x - uint (m b))" using 2 False by (subst strcmp_loop.simps) auto
    moreover have "ys \<noteq> x # xs" using 2(3) False by auto
    ultimately show ?thesis using False by auto
  next
    case True
    then obtain zs where ys: "ys = x # zs" "cstr m (b + 1) zs" using 2(2,3) by (cases ys) auto
    have "strcmp_loop a b m = strcmp_loop (a + 1) (b + 1) m" using 2(2) True by (subst strcmp_loop.simps) simp
    then show ?thesis using 2(1) [OF _ ys(2)] 2(2) ys(1) by simp
  qed
qed

lemma lower_0 [simp]: "lower c = 0 \<longleftrightarrow> c = 0"
  by (auto simp: lower_def Let_def)

lemma strcasecmp_loop_cstr:
  "cstr m a xs \<Longrightarrow> cstr m b ys \<Longrightarrow> \<exists>r. strcasecmp_loop a b m = Some r \<and> \<bar>r\<bar> < 256 \<and> (r = 0 \<longleftrightarrow> map lower xs = map lower ys)"
proof (induction m a xs arbitrary: b ys rule: cstr.induct)
  case (1 m a)
  have l: "0 \<le> lower (m b)" "lower (m b) < 256" using unsigned_less [of "m b"] by (auto simp: lower_def Let_def)
  have "strcasecmp_loop a b m = Some (lower (m a) - lower (m b))" using 1 by (subst strcasecmp_loop.simps) (simp add: Let_def)
  moreover have "lower (m a) = 0" using 1 by simp
  moreover have "lower (m b) = 0 \<longleftrightarrow> ys = []" using 1(2) by (cases ys) auto
  ultimately show ?case using l by auto
next
  case (2 m a x xs)
  have l: "0 \<le> lower (m c) \<and> lower (m c) < 256" for c using unsigned_less [of "m c"] by (auto simp: lower_def Let_def)
  show ?case
  proof (cases "lower (m b) = lower x")
    case False
    have "strcasecmp_loop a b m = Some (lower (m a) - lower (m b))" using 2 False by (subst strcasecmp_loop.simps) (auto simp: Let_def)
    moreover have "map lower ys \<noteq> map lower (x # xs)" using 2(3) False by (cases ys) auto
    ultimately show ?thesis using False l [of a] l [of b] 2(2) by auto
  next
    case True
    have "lower (m b) \<noteq> 0" using 2(2) True by simp
    then have "m b \<noteq> 0" by simp
    then obtain z zs where ys: "ys = z # zs" "cstr m (b + 1) zs" "m b = z" using 2(3) by (cases ys) auto
    have "strcasecmp_loop a b m = strcasecmp_loop (a + 1) (b + 1) m"
      using 2(2) True by (subst strcasecmp_loop.simps) (simp add: Let_def)
    then show ?thesis using 2(1) [OF _ ys(2)] 2(2) ys(1,3) True by auto
  qed
qed

text \<open>\<^verbatim>\<open>rt_strncpy\<close> copies the string and pads with zeros.\<close>

lemma strncpy_loop_cstr:
  assumes "cstr m src xs" "far dst src (length xs + 1)" "dst + n \<le> src \<or> src + length xs < dst"
  shows "strncpy_loop dst src n m =
    (\<lambda>x. if dst \<le> x \<and> x < dst + n then (if x - dst < length xs then xs ! (x - dst) else 0) else m x)"
  using assms
proof (induction n arbitrary: dst src xs m)
  case 0
  show ?case by (auto simp: fun_eq_iff)
next
  case (Suc n)
  show ?case
  proof (cases xs)
    case Nil
    then have "strncpy_loop dst src (Suc n) m = filled (dst + 1) n 0 (m(dst := 0))"
      using Suc.prems(1) by (simp add: memset_bytes_filled)
    then show ?thesis using Nil by (auto simp: filled_def fun_eq_iff)
  next
    case (Cons x ys)
    have step: "strncpy_loop dst src (Suc n) m = strncpy_loop (dst + 1) (src + 1) n (m(dst := x))"
      using Suc.prems(1) Cons by simp
    have out: "dst \<notin> {src + 1..src + length xs}" using Suc.prems(3) Cons by auto
    have "cstr (m(d := x)) a zs" if "cstr m a zs" "d \<notin> {a..a + length zs}" for a zs d
      using that by (induction m a zs rule: cstr.induct) auto
    then have c: "cstr (m(dst := x)) (src + 1) ys" using Suc.prems(1) Cons out by simp
    have "strncpy_loop (dst + 1) (src + 1) n (m(dst := x)) = (\<lambda>z. if dst + 1 \<le> z \<and> z < dst + 1 + n
        then (if z - (dst + 1) < length ys then ys ! (z - (dst + 1)) else 0) else (m(dst := x)) z)"
      by (rule Suc.IH [OF c]) (use Suc.prems(2,3) Cons in \<open>auto simp: far_def\<close>)
    then show ?thesis unfolding step Cons by (auto simp: fun_eq_iff nth_Cons') 
  qed
qed

lemma strncmp_loop_0:
  "cstr m a xs \<Longrightarrow> cstr m b ys \<Longrightarrow> strncmp_loop a b n 0 m = 0 \<longleftrightarrow> take n xs = take n ys"
proof (induction n arbitrary: a b xs ys)
  case (Suc n)
  show ?case
  proof (cases xs; cases ys)
    fix x xs' y ys' assume eq: "xs = x # xs'" "ys = y # ys'"
    then show ?thesis using Suc.IH [of "a + 1" xs' "b + 1" ys'] Suc.prems by (auto simp: Let_def)
  qed (use Suc.prems in \<open>auto simp: Let_def\<close>)
qed simp

section \<open>What the library promises\<close>

text \<open>
  C35: \<^verbatim>\<open>rt_memmove\<close> copies the bytes of the source, as they were, to the destination and
  changes no other byte, however the areas overlap. Where the destination is below the source or
  the areas are apart, \<^verbatim>\<open>rt_memcpy\<close>, by blocks of four words, words and bytes, does the same.
\<close>

theorem rt_memcpy_is_memmove:
  "(\<forall>x. rt_memmove dst src n m x = (if dst \<le> x \<and> x < dst + unat n then m (src + (x - dst)) else m x)) \<and>
   (far dst src (unat n) \<longrightarrow> rt_memcpy dst src n m = rt_memmove dst src n m)"
  by (simp add: rt_memcpy_copied rt_memmove_copied copied_def)

theorem rt_memcpy_is_memmove_witness:
  "rt_memcpy 6 2 4 (\<lambda>a. of_nat a) 7 = 3 \<and> rt_memmove 3 2 4 (\<lambda>a. of_nat a) 6 = 5"
  using rt_memcpy_is_memmove [of 6 2 4 "\<lambda>a. of_nat a"] rt_memcpy_is_memmove [of 3 2 4 "\<lambda>a. of_nat a"]
  by (simp add: far_def)

text \<open>
  The blocks of four words, the words and the bytes of \<^verbatim>\<open>rt_memset\<close> together are the loop over
  the bytes, whatever the address, the length and the bits of the value above the lowest eight.
\<close>

theorem rt_memset_bytewise: "rt_memset s c n m = memset_bytes s (ucast c) (unat n) m"
  by (simp add: rt_memset_filled memset_bytes_filled)

text \<open>
  \<^verbatim>\<open>rt_strstr\<close> returns the first place where the string occurs, and the null pointer when it
  does not; an empty string occurs at the start.
\<close>

theorem rt_strstr_first:
  assumes "cstr m s1 xs" "cstr m s2 ys" "length xs < 2 ^ 31" "length ys < 2 ^ 31"
  shows "(\<exists>i. rt_strstr s1 s2 m = Some (Some (s1 + i)) \<and> occurs_at ys xs i \<and> (\<forall>j<i. \<not> occurs_at ys xs j)) \<or>
    rt_strstr s1 s2 m = Some None \<and> (\<forall>i. \<not> occurs_at ys xs i)"
proof (cases "ys = []")
  case True
  then have "rt_strstr s1 s2 m = Some (Some (s1 + 0))" using rt_strlen_cstr [OF assms(2)] by (simp add: rt_strstr_def)
  then show ?thesis using True by (auto simp: occurs_at_def)
next
  case False
  have un: "unat (of_nat (length ys) :: u32) = length ys" "unat (of_nat (length xs) :: u32) = length xs"
    using assms(3,4) by (simp_all add: unat_of_nat32)
  then have nz: "(of_nat (length ys) :: u32) \<noteq> 0" using False by (metis length_0_conv unat_0)
  have res: "rt_strstr s1 s2 m = Some (strstr_loop s1 s2 (length xs) (length ys) m)"
    using assms nz un by (simp add: rt_strstr_def rt_strlen_cstr rt_assert_def)
  show ?thesis
    using strstr_loop_cstr [OF assms(2) False _ assms(1)] assms(4) unfolding res
    by (cases "strstr_loop s1 s2 (length xs) (length ys) m") auto
qed

theorem rt_strstr_first_witness:
  "rt_strstr 10 20 (\<lambda>a. if a \<in> {10, 11, 12, 20} then (if a = 10 then 97 else 98) else 0) = Some (Some 11)"
proof -
  let ?m = "\<lambda>a. if a \<in> {10, 11, 12, 20} then (if a = 10 then 97 else 98) else 0 :: u8"
  have o: "occurs_at [98] [97, 98, 98 :: u8] i \<longleftrightarrow> i = 1 \<or> i = 2" for i
  proof (cases "i < 3")
    case True
    then have "i = 0 \<or> i = 1 \<or> i = 2" by auto
    then show ?thesis by (auto simp: occurs_at_def)
  qed (simp add: occurs_at_def)
  have "\<not> i < 1 \<Longrightarrow> i = 2 \<Longrightarrow> \<exists>j<i. j = 1 \<or> j = 2" for i :: nat by (intro exI [of _ 1]) simp
  with rt_strstr_first [of ?m 10 "[97, 98, 98]" 20 "[98]"] show ?thesis
    unfolding o by auto
qed

text \<open>
  \<^verbatim>\<open>rt_strncmp\<close> finds equality, but the sign of a difference beyond a signed character is lost: it
  orders these strings the other way round than \<^verbatim>\<open>rt_strcmp\<close>.
\<close>

lemma rt_strncmp_0:
  assumes "cstr m a xs" "cstr m b ys"
  shows "rt_strncmp a b n m = 0 \<longleftrightarrow> take (unat n) xs = take (unat n) ys"
proof -
  have "sint w = 0 \<longleftrightarrow> w = 0" for w :: u8 by (metis signed_0 signed_word_eqI)
  then show ?thesis by (simp add: rt_strncmp_def strncmp_loop_0 [OF assms])
qed

lemma rt_strncmp_sign_lost:
  assumes "m a = 1" "m b = 255"
  shows "rt_strncmp a b 1 m = 2 \<and> rt_strcmp a b m = Some (- 254)"
proof -
  have "rt_strcmp a b m = Some (- 254)" unfolding rt_strcmp_def by (subst strcmp_loop.simps) (simp add: assms)
  moreover have "rt_strncmp a b 1 m = 2" using assms by (simp add: rt_strncmp_def Let_def)
  ultimately show ?thesis by simp
qed

end
