(* ===== verification/RTT_Printf.thy ===== *)
theory RTT_Printf
  imports RTT_KService
begin

text \<open>
  Formatted output (\<^verbatim>\<open>kservice.c\<close>): \<^verbatim>\<open>rt_vsnprintf\<close> and what it is made of, in the configuration with a
  precision and without \<^verbatim>\<open>long long\<close> or the alternative forms. Output goes through \<open>put\<close>, which counts
  every character and writes those that fit: the state of the output is the pointer \<open>str\<close> and the
  memory. The variable arguments are a list; taking an argument of the wrong kind or one too many
  is undefined in C and \<open>None\<close> here, as is the overflow of an \<^verbatim>\<open>int\<close>.
\<close>

type_synonym outbuf = "nat \<times> mem"

datatype va_arg = IntArg u32 | StrArg "nat option"

definition ZEROPAD :: u8 where "ZEROPAD = 1"
definition SIGN :: u8 where "SIGN = 2"
definition PLUS :: u8 where "PLUS = 4"
definition SPACE :: u8 where "SPACE = 8"
definition LEFT :: u8 where "LEFT = 16"
definition SPECIAL :: u8 where "SPECIAL = 32"
definition LARGE :: u8 where "LARGE = 64"

section \<open>Numbers\<close>

definition put :: "nat \<Rightarrow> u8 \<Rightarrow> outbuf \<Rightarrow> outbuf" where
  "put e c x = (fst x + 1, if fst x < e then (snd x)(fst x := c) else snd x)"

fun put_times :: "nat \<Rightarrow> u8 \<Rightarrow> nat \<Rightarrow> outbuf \<Rightarrow> outbuf" where
  "put_times e c 0 x = x"
| "put_times e c (Suc n) x = put_times e c n (put e c x)"

fun put_all :: "nat \<Rightarrow> u8 list \<Rightarrow> outbuf \<Rightarrow> outbuf" where
  "put_all e [] x = x"
| "put_all e (c # cs) x = put_all e cs (put e c x)"

text \<open>\<^verbatim>\<open>while (size-- > 0)\<close>, with the value that \<^verbatim>\<open>size\<close> has behind the loop.\<close>

definition pad :: "nat \<Rightarrow> u8 \<Rightarrow> int \<Rightarrow> outbuf \<Rightarrow> int \<times> outbuf" where
  "pad e c sz x = (if sz > 0 then - 1 else sz - 1, put_times e c (nat sz) x)"

definition small_digits :: "u8 list" where
  "small_digits = [48, 49, 50, 51, 52, 53, 54, 55, 56, 57, 97, 98, 99, 100, 101, 102]"
definition large_digits :: "u8 list" where
  "large_digits = [48, 49, 50, 51, 52, 53, 54, 55, 56, 57, 65, 66, 67, 68, 69, 70]"

definition divide :: "u32 \<Rightarrow> int \<Rightarrow> nat \<times> u32" where
  "divide n base = (if base = 10 then (unat (n mod 10), n div 10) else (unat (n mod 16), n div 16))"

lemma divide_less: "n \<noteq> 0 \<Longrightarrow> unat (snd (divide n base)) < unat n"
  by (auto simp: divide_def unat_div unat_gt_0)

text \<open>The characters of \<^verbatim>\<open>tmp\<close>, from the last digit.\<close>

function num_digits :: "u8 list \<Rightarrow> int \<Rightarrow> u32 \<Rightarrow> u8 list" where
  "num_digits digits base n =
     (if n = 0 then [] else digits ! fst (divide n base) # num_digits digits base (snd (divide n base)))"
  by auto
termination by (relation "measure (\<lambda>(_, _, n). unat n)") (auto simp: divide_less)

declare num_digits.simps [simp del]

text \<open>The sign character and the digits; a sign of 0 is none.\<close>

definition number_digits :: "u32 \<Rightarrow> int \<Rightarrow> u8 \<Rightarrow> u8 \<times> u8 list" where
  "number_digits num base type =
     (let digits = (if type AND LARGE \<noteq> 0 then large_digits else small_digits);
          minus = (type AND SIGN \<noteq> 0 \<and> sint num < 0);
          sign = (if type AND SIGN = 0 then 0 else if minus then 45
            else if type AND PLUS \<noteq> 0 then 43 else if type AND SPACE \<noteq> 0 then 32 else 0);
          num = (if minus then - num else num)
      in (sign, if num = 0 then [48] else num_digits digits base num))"

text \<open>The rest of \<^verbatim>\<open>print_number\<close>: \<open>tmp\<close> are the digits.\<close>

definition number_put :: "nat \<Rightarrow> u8 \<Rightarrow> u8 list \<Rightarrow> int \<Rightarrow> int \<Rightarrow> u8 \<Rightarrow> outbuf \<Rightarrow> outbuf" where
  "number_put e sign tmp s precision type x =
     (let c = (if type AND ZEROPAD \<noteq> 0 then 48 else 32);
          i = int (length tmp);
          precision_bak = precision;
          precision = (if i > precision then i else precision);
          size = s - precision;
          (size, x) =
            (if type AND (ZEROPAD OR LEFT) = 0
             then pad e 32 (if sign \<noteq> 0 \<and> size > 0 then size - 1 else size) x else (size, x));
          (size, x) = (if sign \<noteq> 0 then (size - 1, put e sign x) else (size, x));
          (size, x) = (if type AND LEFT = 0 then pad e c size x else (size, x));
          x = put_times e 48 (nat (precision - i)) x;
          x = (if precision_bak \<noteq> 0 then put_all e (rev tmp) x else x)
      in snd (pad e 32 size x))"

definition print_number :: "nat \<Rightarrow> u32 \<Rightarrow> int \<Rightarrow> int \<Rightarrow> int \<Rightarrow> u8 \<Rightarrow> outbuf \<Rightarrow> outbuf" where
  "print_number e num base s precision type x =
     (let type = (if type AND LEFT \<noteq> 0 then type AND NOT ZEROPAD else type);
          (sign, tmp) = number_digits num base type
      in number_put e sign tmp s precision type x)"

section \<open>Directives\<close>

definition isdigit :: "u8 \<Rightarrow> bool" where
  "isdigit c \<longleftrightarrow> (ucast c - 48 :: u32) < 10"

partial_function (option) skip_atoi :: "mem \<Rightarrow> nat \<Rightarrow> int \<Rightarrow> (int \<times> nat) option" where
  "skip_atoi m s i =
     (if isdigit (m s)
      then if i * 10 + uint (m s) < 2 ^ 31 then skip_atoi m (s + 1) (i * 10 + uint (m s) - 48) else None
      else Some (i, s))"

partial_function (option) flags_loop :: "mem \<Rightarrow> nat \<Rightarrow> u8 \<Rightarrow> (u8 \<times> nat) option" where
  "flags_loop m fmt flags =
     (let fmt = fmt + 1; c = m fmt in
      if c = 45 then flags_loop m fmt (flags OR LEFT)
      else if c = 43 then flags_loop m fmt (flags OR PLUS)
      else if c = 32 then flags_loop m fmt (flags OR SPACE)
      else if c = 35 then flags_loop m fmt (flags OR SPECIAL)
      else if c = 48 then flags_loop m fmt (flags OR ZEROPAD)
      else Some (flags, fmt))"

fun int_arg :: "va_arg list \<Rightarrow> (u32 \<times> va_arg list) option" where
  "int_arg (IntArg n # args) = Some (n, args)"
| "int_arg _ = None"

fun str_arg :: "va_arg list \<Rightarrow> (nat option \<times> va_arg list) option" where
  "str_arg (StrArg a # args) = Some (a, args)"
| "str_arg _ = None"

definition parse_width :: "mem \<Rightarrow> nat \<Rightarrow> u8 \<Rightarrow> va_arg list \<Rightarrow> (int \<times> u8 \<times> nat \<times> va_arg list) option" where
  "parse_width m fmt flags args =
     (if isdigit (m fmt) then do { (w, fmt) \<leftarrow> skip_atoi m fmt 0; Some (w, flags, fmt, args) }
      else if m fmt = 42 then do {
        (n, args) \<leftarrow> int_arg args;
        let w = sint n;
        if w < 0 then do { rt_assert (- w < 2 ^ 31); Some (- w, flags OR LEFT, fmt + 1, args) }
        else Some (w, flags, fmt + 1, args) }
      else Some (- 1, flags, fmt, args))"

definition parse_precision :: "mem \<Rightarrow> nat \<Rightarrow> va_arg list \<Rightarrow> (int \<times> nat \<times> va_arg list) option" where
  "parse_precision m fmt args =
     (if m fmt \<noteq> 46 then Some (- 1, fmt, args)
      else do {
        let fmt = fmt + 1;
        (p, fmt, args) \<leftarrow>
          (if isdigit (m fmt) then do { (p, fmt) \<leftarrow> skip_atoi m fmt 0; Some (p, fmt, args) }
           else if m fmt = 42 then do { (n, args) \<leftarrow> int_arg args; Some (sint n, fmt + 1, args) }
           else Some (- 1, fmt, args));
        Some (if p < 0 then 0 else p, fmt, args) })"

definition parse_qualifier :: "mem \<Rightarrow> nat \<Rightarrow> u8 \<times> nat" where
  "parse_qualifier m fmt = (if m fmt = 104 \<or> m fmt = 108 then (m fmt, fmt + 1) else (0, fmt))"

text \<open>\<^verbatim>\<open>%c\<close>: the width counts the character itself.\<close>

definition put_char :: "nat \<Rightarrow> u8 \<Rightarrow> int \<Rightarrow> u8 \<Rightarrow> outbuf \<Rightarrow> outbuf" where
  "put_char e flags w c x =
     (let (w, x) = (if flags AND LEFT = 0 then (if w > 1 then 0 else w - 1, put_times e 32 (nat (w - 1)) x) else (w, x));
          x = put e c x
      in put_times e 32 (nat (w - 1)) x)"

fun put_bytes :: "nat \<Rightarrow> nat \<Rightarrow> nat \<Rightarrow> outbuf \<Rightarrow> outbuf" where
  "put_bytes e s 0 x = x"
| "put_bytes e s (Suc n) x = put_bytes e (s + 1) n (put e (snd x s) x)"

definition null_text :: "u8 list" where "null_text = [40, 78, 85, 76, 76, 41]"

text \<open>\<^verbatim>\<open>%s\<close>: a null pointer prints a text of the code's own; a precision of 0 is no limit.\<close>

definition put_string :: "nat \<Rightarrow> u8 \<Rightarrow> int \<Rightarrow> int \<Rightarrow> nat option \<Rightarrow> outbuf \<Rightarrow> outbuf option" where
  "put_string e flags w precision s x = do {
     len \<leftarrow> (case s of None \<Rightarrow> Some (int (length null_text)) | Some a \<Rightarrow> map_option sint (rt_strlen a (snd x)));
     rt_assert (len \<ge> 0);
     let len = (if precision > 0 \<and> len > precision then precision else len);
     let (w, x) =
       (if flags AND LEFT = 0 then (if len < w then len - 1 else w - 1, put_times e 32 (nat (w - len)) x) else (w, x));
     let x = (case s of None \<Rightarrow> put_all e (take (nat len) null_text) x | Some a \<Rightarrow> put_bytes e a (nat len) x);
     Some (put_times e 32 (nat (w - len)) x) }"

text \<open>The base and the flags that the conversion character adds, for the integer formats.\<close>

definition int_format :: "u8 \<Rightarrow> (int \<times> u8) option" where
  "int_format c =
     (if c = 111 then Some (8, 0)
      else if c = 88 then Some (16, LARGE)
      else if c = 120 then Some (16, 0)
      else if c = 100 \<or> c = 105 then Some (10, SIGN)
      else if c = 117 then Some (10, 0)
      else None)"

definition int_value :: "u8 \<Rightarrow> u8 \<Rightarrow> u32 \<Rightarrow> u32" where
  "int_value qualifier flags n =
     (if qualifier = 104
      then (if flags AND SIGN \<noteq> 0 then scast (ucast n :: 16 word) else ucast (ucast n :: 16 word))
      else n)"

text \<open>A directive, from its \<^verbatim>\<open>%\<close> up to its conversion character: flags, width, precision and qualifier.\<close>

definition parse_directive ::
  "mem \<Rightarrow> nat \<Rightarrow> va_arg list \<Rightarrow> (u8 \<times> int \<times> int \<times> u8 \<times> nat \<times> va_arg list) option" where
  "parse_directive m fmt args = do {
     (flags, fmt) \<leftarrow> flags_loop m fmt 0;
     (w, flags, fmt, args) \<leftarrow> parse_width m fmt flags args;
     (precision, fmt, args) \<leftarrow> parse_precision m fmt args;
     Some (flags, w, precision, fst (parse_qualifier m fmt), snd (parse_qualifier m fmt), args) }"

text \<open>The switch on the conversion character; the result starts with the address of the last character.\<close>

definition convert ::
  "nat \<Rightarrow> u8 \<Rightarrow> int \<Rightarrow> int \<Rightarrow> u8 \<Rightarrow> nat \<Rightarrow> va_arg list \<Rightarrow> outbuf \<Rightarrow> (nat \<times> va_arg list \<times> outbuf) option" where
  "convert e flags w precision qualifier fmt args x = do {
     let c = snd x fmt;
     if c = 99 then do {
       (n, args) \<leftarrow> int_arg args;
       Some (fmt, args, put_char e flags w (ucast n) x) }
     else if c = 115 then do {
       (s, args) \<leftarrow> str_arg args;
       x \<leftarrow> put_string e flags w precision s x;
       Some (fmt, args, x) }
     else if c = 112 then do {
       (n, args) \<leftarrow> int_arg args;
       Some (fmt, args,
         print_number e n 16 (if w = - 1 then 8 else w) precision (if w = - 1 then flags OR ZEROPAD else flags) x) }
     else if c = 37 then Some (fmt, args, put e 37 x)
     else (case int_format c of
         Some (base, extra) \<Rightarrow> do {
           (n, args) \<leftarrow> int_arg args;
           Some (fmt, args, print_number e (int_value qualifier (flags OR extra) n) base w precision (flags OR extra) x) }
       | None \<Rightarrow>
           let x = put e 37 x; c = snd x fmt in
           Some (if c \<noteq> 0 then (fmt, args, put e c x) else (fmt - 1, args, x))) }"

definition directive ::
  "nat \<Rightarrow> nat \<Rightarrow> va_arg list \<Rightarrow> outbuf \<Rightarrow> (nat \<times> va_arg list \<times> outbuf) option" where
  "directive e fmt args x = do {
     (flags, w, precision, qualifier, fmt, args) \<leftarrow> parse_directive (snd x) fmt args;
     convert e flags w precision qualifier fmt args x }"

partial_function (option) vsn_loop :: "nat \<Rightarrow> nat \<Rightarrow> va_arg list \<Rightarrow> outbuf \<Rightarrow> outbuf option" where
  "vsn_loop e fmt args x =
     (if snd x fmt = 0 then Some x
      else if snd x fmt \<noteq> 37 then vsn_loop e (fmt + 1) args (put e (snd x fmt) x)
      else do {
        (fmt, args, x) \<leftarrow> directive e fmt args x;
        vsn_loop e (fmt + 1) args x })"

text \<open>The end of the buffer when it would wrap around is the end of the address space.\<close>

definition vsn_end :: "nat \<Rightarrow> u32 \<Rightarrow> nat" where
  "vsn_end buf sz = (if buf + unat sz \<ge> 2 ^ 32 then 2 ^ 32 - 1 else buf + unat sz)"

definition rt_vsnprintf :: "nat \<Rightarrow> u32 \<Rightarrow> nat \<Rightarrow> va_arg list \<Rightarrow> mem \<Rightarrow> (int \<times> mem) option" where
  "rt_vsnprintf buf sz fmt args m = do {
     let e = vsn_end buf sz;
     (str, m) \<leftarrow> vsn_loop e fmt args (buf, m);
     let m = (if e - buf > 0 then if str < e then m(str := 0) else m(e - 1 := 0) else m);
     Some (sint (of_nat (str - buf) :: u32), m) }"

definition rt_snprintf :: "nat \<Rightarrow> u32 \<Rightarrow> nat \<Rightarrow> va_arg list \<Rightarrow> mem \<Rightarrow> (int \<times> mem) option" where
  "rt_snprintf buf sz fmt args m = rt_vsnprintf buf sz fmt args m"

definition rt_vsprintf :: "nat \<Rightarrow> nat \<Rightarrow> va_arg list \<Rightarrow> mem \<Rightarrow> (int \<times> mem) option" where
  "rt_vsprintf buf fmt args m = rt_vsnprintf buf (- 1) fmt args m"

definition rt_sprintf :: "nat \<Rightarrow> nat \<Rightarrow> va_arg list \<Rightarrow> mem \<Rightarrow> (int \<times> mem) option" where
  "rt_sprintf buf fmt args m = rt_vsprintf buf fmt args m"

section \<open>The text of a format\<close>

text \<open>What is put out, as a list of characters read off the memory before the call.\<close>

definition pad_text :: "u8 \<Rightarrow> int \<Rightarrow> int \<times> u8 list" where
  "pad_text c sz = (if sz > 0 then - 1 else sz - 1, replicate (nat sz) c)"

definition number_layout :: "u8 \<Rightarrow> u8 list \<Rightarrow> int \<Rightarrow> int \<Rightarrow> u8 \<Rightarrow> u8 list" where
  "number_layout sign tmp s precision type =
     (let sg = (if sign \<noteq> 0 then [sign] else []);
          body = replicate (nat (precision - int (length tmp))) 48 @ (if precision \<noteq> 0 then rev tmp else []);
          fill = nat (s - max (int (length tmp)) precision - int (length sg))
      in if type AND LEFT \<noteq> 0 then sg @ body @ replicate fill 32
         else if type AND ZEROPAD \<noteq> 0 then sg @ replicate fill 48 @ body
         else replicate fill 32 @ sg @ body)"

definition number_text :: "u32 \<Rightarrow> int \<Rightarrow> int \<Rightarrow> int \<Rightarrow> u8 \<Rightarrow> u8 list" where
  "number_text num base s precision type =
     (let type = (if type AND LEFT \<noteq> 0 then type AND NOT ZEROPAD else type);
          (sign, tmp) = number_digits num base type
      in number_layout sign tmp s precision type)"

definition char_text :: "u8 \<Rightarrow> int \<Rightarrow> u8 \<Rightarrow> u8 list" where
  "char_text flags w c =
     (if flags AND LEFT = 0 then replicate (nat (w - 1)) 32 @ [c] else c # replicate (nat (w - 1)) 32)"

definition string_text :: "mem \<Rightarrow> u8 \<Rightarrow> int \<Rightarrow> int \<Rightarrow> nat option \<Rightarrow> u8 list option" where
  "string_text m flags w precision s = do {
     len \<leftarrow> (case s of None \<Rightarrow> Some (int (length null_text)) | Some a \<Rightarrow> map_option sint (rt_strlen a m));
     rt_assert (len \<ge> 0);
     let len = (if precision > 0 \<and> len > precision then precision else len);
     let t = (case s of None \<Rightarrow> take (nat len) null_text | Some a \<Rightarrow> block m a (nat len));
     let fill = replicate (nat (w - len)) 32;
     Some (if flags AND LEFT = 0 then fill @ t else t @ fill) }"

definition convert_text ::
  "mem \<Rightarrow> u8 \<Rightarrow> int \<Rightarrow> int \<Rightarrow> u8 \<Rightarrow> nat \<Rightarrow> va_arg list \<Rightarrow> (nat \<times> va_arg list \<times> u8 list) option" where
  "convert_text m flags w precision qualifier fmt args = do {
     let c = m fmt;
     if c = 99 then do {
       (n, args) \<leftarrow> int_arg args;
       Some (fmt, args, char_text flags w (ucast n)) }
     else if c = 115 then do {
       (s, args) \<leftarrow> str_arg args;
       t \<leftarrow> string_text m flags w precision s;
       Some (fmt, args, t) }
     else if c = 112 then do {
       (n, args) \<leftarrow> int_arg args;
       Some (fmt, args,
         number_text n 16 (if w = - 1 then 8 else w) precision (if w = - 1 then flags OR ZEROPAD else flags)) }
     else if c = 37 then Some (fmt, args, [37])
     else (case int_format c of
         Some (base, extra) \<Rightarrow> do {
           (n, args) \<leftarrow> int_arg args;
           Some (fmt, args, number_text (int_value qualifier (flags OR extra) n) base w precision (flags OR extra)) }
       | None \<Rightarrow> Some (if c \<noteq> 0 then (fmt, args, [37, c]) else (fmt - 1, args, [37]))) }"

definition directive_text :: "mem \<Rightarrow> nat \<Rightarrow> va_arg list \<Rightarrow> (nat \<times> va_arg list \<times> u8 list) option" where
  "directive_text m fmt args = do {
     (flags, w, precision, qualifier, fmt, args) \<leftarrow> parse_directive m fmt args;
     convert_text m flags w precision qualifier fmt args }"

partial_function (option) format_text :: "mem \<Rightarrow> nat \<Rightarrow> va_arg list \<Rightarrow> u8 list option" where
  "format_text m fmt args =
     (if m fmt = 0 then Some []
      else if m fmt \<noteq> 37 then do { t \<leftarrow> format_text m (fmt + 1) args; Some (m fmt # t) }
      else do {
        (fmt, args, t) \<leftarrow> directive_text m fmt args;
        u \<leftarrow> format_text m (fmt + 1) args;
        Some (t @ u) })"

lemma put_all_append: "put_all e (xs @ ys) x = put_all e ys (put_all e xs x)"
  by (induction xs arbitrary: x) auto

lemma put_times_all: "put_times e c n x = put_all e (replicate n c) x"
  by (induction n arbitrary: x) auto

lemma pad_all: "pad e c sz x = (fst (pad_text c sz), put_all e (snd (pad_text c sz)) x)"
  by (simp add: pad_def pad_text_def put_times_all)

lemma flag_or: "type AND (ZEROPAD OR LEFT) = 0 \<longleftrightarrow> type AND ZEROPAD = 0 \<and> type AND LEFT = 0"
  by (simp add: bit.conj_disj_distrib or_eq_0_iff)

lemma number_put_text:
  assumes "type AND LEFT \<noteq> 0 \<Longrightarrow> type AND ZEROPAD = 0"
  shows "number_put e sign tmp s precision type x = put_all e (number_layout sign tmp s precision type) x"
proof -
  let ?i = "int (length tmp)"
  define p where "p = (if ?i > precision then ?i else precision)"
  have p: "p = max ?i precision" by (simp add: p_def)
  have z: "nat (p - ?i) = nat (precision - ?i)" by (simp add: p)
  consider "type AND LEFT \<noteq> 0" "type AND ZEROPAD = 0" | "type AND LEFT = 0" "type AND ZEROPAD \<noteq> 0"
    | "type AND LEFT = 0" "type AND ZEROPAD = 0" using assms by blast
  then show ?thesis
  proof cases
    case 1
    show ?thesis unfolding number_put_def number_layout_def Let_def p_def [symmetric] p [symmetric] z flag_or pad_all put_times_all
      using 1 by (simp add: put_all_append pad_text_def)
  next
    case 2
    show ?thesis unfolding number_put_def number_layout_def Let_def p_def [symmetric] p [symmetric] z flag_or pad_all put_times_all
      using 2 by (simp add: put_all_append pad_text_def)
  next
    case 3
    show ?thesis unfolding number_put_def number_layout_def Let_def p_def [symmetric] p [symmetric] z flag_or pad_all put_times_all
      using 3 by (simp add: put_all_append pad_text_def)
  qed
qed

lemma left_no_zeropad:
  fixes type :: u8
  defines "ty \<equiv> if type AND LEFT \<noteq> 0 then type AND NOT ZEROPAD else type"
  shows "ty AND LEFT \<noteq> 0 \<Longrightarrow> ty AND ZEROPAD = 0"
  by (simp add: ty_def and.assoc split: if_splits)

lemma print_number_text: "print_number e num base s precision type x = put_all e (number_text num base s precision type) x"
  unfolding print_number_def number_text_def Let_def
  by (simp add: number_put_text left_no_zeropad split: prod.split)

lemma put_char_text: "put_char e flags w c x = put_all e (char_text flags w c) x"
  by (auto simp: put_char_def char_text_def put_times_all put_all_append)

section \<open>Reading the format\<close>

text \<open>Two memories agree on a stretch that ends with a terminator.\<close>

definition same_text :: "mem \<Rightarrow> mem \<Rightarrow> nat \<Rightarrow> nat \<Rightarrow> bool" where
  "same_text m m' a z \<longleftrightarrow> a \<le> z \<and> m z = 0 \<and> (\<forall>b. a \<le> b \<longrightarrow> b \<le> z \<longrightarrow> m' b = m b)"

lemma same_textD:
  assumes "same_text m m' a z"
  shows "m' a = m a" "m a \<noteq> 0 \<Longrightarrow> same_text m m' (a + 1) z" "m a \<noteq> 0 \<Longrightarrow> a < z"
proof -
  show "m' a = m a" using assms by (simp add: same_text_def)
  assume "m a \<noteq> 0"
  then have "a \<noteq> z" using assms by (auto simp: same_text_def)
  then show "a < z" using assms by (simp add: same_text_def)
  then show "same_text m m' (a + 1) z" using assms by (auto simp: same_text_def)
qed

lemma same_text_later: "same_text m m' a z \<Longrightarrow> a \<le> b \<Longrightarrow> b \<le> z \<Longrightarrow> same_text m m' b z"
  by (auto simp: same_text_def)

lemma isdigit_0 [simp]: "\<not> isdigit 0"
  by (simp add: isdigit_def)

lemma skip_atoi_same:
  "same_text m m' a z \<Longrightarrow> skip_atoi m' a i = skip_atoi m a i \<and>
     (\<forall>j b. skip_atoi m a i = Some (j, b) \<longrightarrow> a \<le> b \<and> b \<le> z)"
proof (induction "z - a" arbitrary: a i rule: less_induct)
  case less
  note d = same_textD [OF less.prems]
  show ?case
  proof (cases "isdigit (m a) \<and> i * 10 + uint (m a) < 2 ^ 31")
    case True
    then have nz: "m a \<noteq> 0" by auto
    have eq: "skip_atoi m' a i = skip_atoi m' (a + 1) (i * 10 + uint (m a) - 48)"
      "skip_atoi m a i = skip_atoi m (a + 1) (i * 10 + uint (m a) - 48)"
      using True d(1) by (subst skip_atoi.simps; simp)+
    have "z - (a + 1) < z - a" using d(3) [OF nz] by simp
    from less.hyps [OF this d(2) [OF nz], of "i * 10 + uint (m a) - 48"] show ?thesis
      unfolding eq by (auto dest: Suc_leD)
  next
    case False
    then show ?thesis using d(1) less.prems
      by (subst (1 2 3) skip_atoi.simps) (auto simp: same_text_def)
  qed
qed

lemma flags_loop_same:
  "same_text m m' a z \<Longrightarrow> m a \<noteq> 0 \<Longrightarrow> flags_loop m' a f = flags_loop m a f \<and>
     (\<forall>g b. flags_loop m a f = Some (g, b) \<longrightarrow> a < b \<and> b \<le> z)"
proof (induction "z - a" arbitrary: a f rule: less_induct)
  case less
  have s: "same_text m m' (a + 1) z" by (rule same_textD(2) [OF less.prems])
  note e = same_textD(1) [OF s]
  have lt: "z - (a + 1) < z - a" using same_textD(3) [OF less.prems] by simp
  have IH: "flags_loop m' (a + 1) g = flags_loop m (a + 1) g \<and>
     (\<forall>h b. flags_loop m (a + 1) g = Some (h, b) \<longrightarrow> a < b \<and> b \<le> z)" if "m (a + 1) \<noteq> 0" for g
    using less.hyps [OF lt s that, of g] by auto
  consider "m (a + 1) = 45" | "m (a + 1) = 43" | "m (a + 1) = 32" | "m (a + 1) = 35" | "m (a + 1) = 48"
    | "m (a + 1) \<notin> {45, 43, 32, 35, 48}" by blast
  then show ?case
  proof cases
    case 6
    then show ?thesis using e same_textD(3) [OF less.prems] by (subst (1 2 3) flags_loop.simps) (auto simp: Let_def)
  qed (use IH e in \<open>subst (1 2 3) flags_loop.simps; simp add: Let_def\<close>)+
qed

lemma parse_width_same:
  assumes "same_text m m' a z"
  shows "parse_width m' a f args = parse_width m a f args"
    "parse_width m a f args = Some (w, g, b, as) \<Longrightarrow> a \<le> b \<and> b \<le> z"
proof -
  note d = same_textD [OF assms] and k = skip_atoi_same [OF assms, of 0]
  show "parse_width m' a f args = parse_width m a f args"
    using k d(1) by (simp add: parse_width_def)
  assume "parse_width m a f args = Some (w, g, b, as)"
  then show "a \<le> b \<and> b \<le> z"
    using k d(3) assms by (auto simp: parse_width_def bind_Some_iff same_text_def Let_def split: if_splits)
qed

lemma parse_precision_same:
  assumes "same_text m m' a z"
  shows "parse_precision m' a args = parse_precision m a args"
    "parse_precision m a args = Some (p, b, as) \<Longrightarrow> a \<le> b \<and> b \<le> z"
proof -
  note d = same_textD [OF assms]
  have dot: "same_text m m' (a + 1) z" if "m a = 46" using d(2) that by simp
  note k = skip_atoi_same [OF dot, of 0] and e = same_textD [OF dot]
  show "parse_precision m' a args = parse_precision m a args"
    using k e(1) d(1) by (cases "m a = 46") (simp_all add: parse_precision_def Let_def)
  assume p: "parse_precision m a args = Some (p, b, as)"
  show "a \<le> b \<and> b \<le> z"
  proof (cases "m a = 46")
    case False
    then show ?thesis using p assms by (simp add: parse_precision_def same_text_def)
  next
    case True
    then show ?thesis
      using p k e(3) dot [OF True] by (auto simp: parse_precision_def bind_Some_iff same_text_def Let_def split: if_splits)
  qed
qed

lemma parse_qualifier_same:
  assumes "same_text m m' a z"
  shows "parse_qualifier m' a = parse_qualifier m a" "parse_qualifier m a = (q, b) \<Longrightarrow> a \<le> b \<and> b \<le> z"
  using same_textD [OF assms] assms by (auto simp: parse_qualifier_def same_text_def split: if_splits)

section \<open>The output is the text\<close>

text \<open>
  The output memory agrees with the memory before the call outside of the buffer from \<open>lo\<close> to
  \<open>e\<close>, and the pointer has not gone back before the buffer.
\<close>

definition agrees :: "nat \<Rightarrow> nat \<Rightarrow> mem \<Rightarrow> outbuf \<Rightarrow> bool" where
  "agrees lo e m x \<longleftrightarrow> lo \<le> fst x \<and> (\<forall>a. a < lo \<or> e \<le> a \<longrightarrow> snd x a = m a)"

definition clear_of :: "nat \<Rightarrow> nat \<Rightarrow> nat \<Rightarrow> nat \<Rightarrow> bool" where
  "clear_of lo e a n \<longleftrightarrow> a + n < lo \<or> e \<le> a"

lemma agrees_put: "agrees lo e m x \<Longrightarrow> agrees lo e m (put e c x)"
  by (auto simp: agrees_def put_def)

lemma agrees_put_all: "agrees lo e m x \<Longrightarrow> agrees lo e m (put_all e cs x)"
  by (induction cs arbitrary: x) (auto simp: agrees_put)

lemma agrees_text:
  assumes "agrees lo e m x" "clear_of lo e a (z - a)" "a \<le> z" "m z = 0"
  shows "same_text m (snd x) a z"
  using assms by (auto simp: same_text_def agrees_def clear_of_def)

lemma put_bytes_block:
  "agrees lo e m x \<Longrightarrow> clear_of lo e s n \<Longrightarrow> put_bytes e s n x = put_all e (block m s n) x"
proof (induction e s n x rule: put_bytes.induct)
  case (2 e s n x)
  have "snd x s = m s" using "2.prems" by (auto simp: agrees_def clear_of_def)
  moreover have "clear_of lo e (s + 1) n" using "2.prems"(2) by (auto simp: clear_of_def)
  ultimately show ?case using "2.IH" agrees_put [OF "2.prems"(1)] by simp
qed simp

text \<open>A string argument ends before or lies behind the buffer.\<close>

fun arg_clear :: "nat \<Rightarrow> nat \<Rightarrow> mem \<Rightarrow> va_arg \<Rightarrow> bool" where
  "arg_clear lo e m (StrArg (Some a)) \<longleftrightarrow> (\<exists>xs. cstr m a xs \<and> clear_of lo e a (length xs))"
| "arg_clear lo e m _ \<longleftrightarrow> True"

lemma cstr_same: "cstr m a xs \<Longrightarrow> (\<And>b. a \<le> b \<Longrightarrow> b \<le> a + length xs \<Longrightarrow> m' b = m b) \<Longrightarrow> cstr m' a xs"
  by (induction m a xs rule: cstr.induct) auto

lemma sint_le_uint: "sint (w :: u32) \<le> uint w"
proof -
  have "uint w < 2 ^ LENGTH(32)" by (rule unsigned_less)
  then have "take_bit 32 (uint w) = uint w" by (intro take_bit_int_eq_self) simp_all
  then show ?thesis by (simp add: sint_uint signed_take_bit_eq_take_bit_minus)
qed

lemma put_string_text:
  assumes "agrees lo e m x" "arg_clear lo e m (StrArg s)"
  shows "put_string e flags w precision s x = map_option (\<lambda>t. put_all e t x) (string_text m flags w precision s)"
proof -
  have len: "map_option sint (rt_strlen a (snd x)) = map_option sint (rt_strlen a m)" if sa: "s = Some a" for a
  proof -
    obtain xs where xs: "cstr m a xs" "clear_of lo e a (length xs)" using assms(2) sa by auto
    have "cstr (snd x) a xs"
      by (rule cstr_same [OF xs(1)]) (use assms(1) xs(2) in \<open>auto simp: agrees_def clear_of_def\<close>)
    then show ?thesis using xs(1) by (simp add: rt_strlen_cstr)
  qed
  have bytes: "put_bytes e a (nat k) y = put_all e (block m a (nat k)) y"
    if sa: "s = Some a" and lk: "map_option sint (rt_strlen a m) = Some l" "k \<le> l" "l \<ge> 0" "agrees lo e m y" for a k l y
  proof -
    obtain xs where xs: "cstr m a xs" "clear_of lo e a (length xs)" using assms(2) sa by auto
    have l: "l = sint (of_nat (length xs) :: u32)" using lk(1) rt_strlen_cstr [OF xs(1)] by simp
    have "nat l \<le> length xs"
    proof -
      have "sint (of_nat (length xs) :: u32) \<le> uint (of_nat (length xs) :: u32)"
        by (rule sint_le_uint)
      also have "\<dots> \<le> int (length xs)" by (simp add: uint_word_of_int_eq take_bit_int_less_eq_self_iff unsigned_of_nat take_bit_nat_less_eq_self)
      finally show ?thesis using l by simp
    qed
    then have "clear_of lo e a (nat k)" using xs(2) lk(2) by (auto simp: clear_of_def)
    then show ?thesis by (rule put_bytes_block [OF lk(4)])
  qed
  show ?thesis
  proof (cases s)
    case None
    then show ?thesis
      by (auto simp: put_string_def string_text_def Let_def put_times_all put_all_append rt_assert_def)
  next
    case (Some a)
    show ?thesis
    proof (cases "map_option sint (rt_strlen a m)")
      case None
      then show ?thesis unfolding put_string_def string_text_def Some option.case len [OF Some] None by simp
    next
      case l: (Some l)
      show ?thesis
      proof (cases "l \<ge> 0")
        case False
        then show ?thesis
          unfolding put_string_def string_text_def Some option.case len [OF Some] l by (simp add: rt_assert_def)
      next
        case True
        let ?k = "if precision > 0 \<and> l > precision then precision else l"
        have by_k: "put_bytes e a (nat ?k) y = put_all e (block m a (nat ?k)) y" if "agrees lo e m y" for y
          by (rule bytes [OF Some l _ True that]) simp
        show ?thesis
          unfolding put_string_def string_text_def Some option.case len [OF Some] l using True
          by (simp add: Let_def rt_assert_def put_times_all put_all_append by_k agrees_put_all assms(1) del: nat_le_iff)
      qed
    qed
  qed
qed

lemma int_arg_set: "int_arg args = Some (n, as) \<Longrightarrow> set as \<subseteq> set args"
  by (cases args rule: int_arg.cases) auto

lemma str_arg_set: "str_arg args = Some (s, as) \<Longrightarrow> set as \<subseteq> set args \<and> StrArg s \<in> set args"
  by (cases args rule: str_arg.cases) auto

lemma parse_width_args: "parse_width m a f args = Some (w, g, b, as) \<Longrightarrow> set as \<subseteq> set args"
  by (auto simp: parse_width_def bind_Some_iff Let_def dest: int_arg_set split: if_splits)

lemma parse_precision_args: "parse_precision m a args = Some (p, b, as) \<Longrightarrow> set as \<subseteq> set args"
  by (auto simp: parse_precision_def bind_Some_iff Let_def dest: int_arg_set split: if_splits)

lemma parse_directive_same:
  assumes st: "same_text m m' fmt z" "m fmt \<noteq> 0"
  shows "parse_directive m' fmt args = parse_directive m fmt args"
    "parse_directive m fmt args = Some (g, w, p, q, f, as) \<Longrightarrow> fmt < f \<and> f \<le> z \<and> set as \<subseteq> set args"
proof -
  note fl = flags_loop_same [OF st, of 0]
  have w: "parse_width m' b f args = parse_width m b f args \<and>
      (\<forall>v g c as. parse_width m b f args = Some (v, g, c, as) \<longrightarrow> b \<le> c \<and> c \<le> z \<and> same_text m m' c z)"
    if "flags_loop m fmt 0 = Some (f, b)" for f b
  proof -
    have "fmt < b" "b \<le> z" using fl that by auto
    then have s: "same_text m m' b z" using same_text_later [OF st(1), of b] by simp
    show ?thesis using parse_width_same [OF s, of f args] same_text_later [OF s] by blast
  qed
  have p: "parse_precision m' c as = parse_precision m c as \<and>
      (\<forall>p d bs. parse_precision m c as = Some (p, d, bs) \<longrightarrow> c \<le> d \<and> d \<le> z \<and> same_text m m' d z)"
    if "same_text m m' c z" for c as
    using parse_precision_same [OF that, of as] same_text_later [OF that] by blast
  have q: "parse_qualifier m' d = parse_qualifier m d \<and>
      (\<forall>q b. parse_qualifier m d = (q, b) \<longrightarrow> d \<le> b \<and> b \<le> z)" if "same_text m m' d z" for d
    using parse_qualifier_same [OF that] by blast
  show "parse_directive m' fmt args = parse_directive m fmt args"
  proof (cases "flags_loop m fmt 0")
    case None
    then show ?thesis using fl by (simp add: parse_directive_def)
  next
    case (Some x)
    then obtain f b where x: "flags_loop m fmt 0 = Some (f, b)" by (cases x) auto
    show ?thesis
    proof (cases "parse_width m b f args")
      case None
      then show ?thesis using fl x w [OF x] by (simp add: parse_directive_def)
    next
      case (Some y)
      then obtain v g c as where y: "parse_width m b f args = Some (v, g, c, as)" by (cases y) auto
      then have s: "same_text m m' c z" using w [OF x] by blast
      show ?thesis
      proof (cases "parse_precision m c as")
        case None
        then show ?thesis using fl x w [OF x] y p [OF s, of as] by (simp add: parse_directive_def)
      next
        case (Some u)
        then obtain pr d bs where u: "parse_precision m c as = Some (pr, d, bs)" by (cases u) auto
        then have "same_text m m' d z" using p [OF s, of as] by blast
        then show ?thesis using fl x w [OF x] y p [OF s, of as] u q by (simp add: parse_directive_def)
      qed
    qed
  qed
  assume "parse_directive m fmt args = Some (g, w, p, q, f, as)"
  then obtain f1 b w1 g1 c as1 d where st': "flags_loop m fmt 0 = Some (f1, b)" "parse_width m b f1 args = Some (w1, g1, c, as1)"
    "parse_precision m c as1 = Some (p, d, as)" "parse_qualifier m d = (q, f)"
    by (auto simp: parse_directive_def bind_Some_iff)
  have b: "fmt < b" using fl st'(1) by auto
  have c: "b \<le> c" "same_text m m' c z" using w [OF st'(1)] st'(2) by blast+
  have d: "c \<le> d" "same_text m m' d z" using p [OF c(2), of as1] st'(3) by blast+
  have "d \<le> f" "f \<le> z" using q [OF d(2)] st'(4) by blast+
  moreover have "set as \<subseteq> set args" using parse_width_args [OF st'(2)] parse_precision_args [OF st'(3)] by blast
  ultimately show "fmt < f \<and> f \<le> z \<and> set as \<subseteq> set args" using b c(1) d(1) by auto
qed

lemma convert_same:
  assumes ag: "agrees lo e m x" and cl: "clear_of lo e fmt (z - fmt)" "fmt \<le> z"
    and args: "\<forall>a\<in>set args. arg_clear lo e m a"
  shows "convert e g w p q fmt args x = map_option (\<lambda>(f, as, t). (f, as, put_all e t x)) (convert_text m g w p q fmt args)"
proof -
  have c: "snd x fmt = m fmt" using ag cl by (auto simp: agrees_def clear_of_def)
  have c': "snd (put e 37 x) fmt = m fmt" using agrees_put [OF ag, of 37] cl by (auto simp: agrees_def clear_of_def)
  have str: "put_string e g w p s x = map_option (\<lambda>t. put_all e t x) (string_text m g w p s)"
    if "str_arg args = Some (s, as)" for s as
    by (rule put_string_text [OF ag]) (use str_arg_set [OF that] args in blast)
  consider "m fmt = 99" | "m fmt = 115" | "m fmt = 112" | "m fmt = 37" | "m fmt \<notin> {99, 115, 112, 37}" by blast
  then show ?thesis
  proof cases
    case 1
    then show ?thesis using c
      by (cases "int_arg args") (auto simp: convert_def convert_text_def put_char_text)
  next
    case 2
    show ?thesis
    proof (cases "str_arg args")
      case None
      then show ?thesis using 2 c by (simp add: convert_def convert_text_def)
    next
      case (Some y)
      then obtain s as where y: "str_arg args = Some (s, as)" by (cases y) auto
      then show ?thesis using 2 c str [OF y]
        by (cases "string_text m g w p s") (simp_all add: convert_def convert_text_def)
    qed
  next
    case 3
    then show ?thesis using c
      by (cases "int_arg args") (auto simp: convert_def convert_text_def print_number_text)
  next
    case 4
    then show ?thesis using c by (simp add: convert_def convert_text_def)
  next
    case 5
    show ?thesis
    proof (cases "int_format (m fmt)")
      case None
      then show ?thesis using 5 c c' by (simp add: convert_def convert_text_def Let_def)
    next
      case (Some y)
      then show ?thesis using 5 c
        by (cases y; cases "int_arg args") (auto simp: convert_def convert_text_def print_number_text)
    qed
  qed
qed

lemma convert_text_result:
  assumes "convert_text m g w p q fmt args = Some (f, as, t)"
  shows "(f = fmt \<or> f = fmt - 1) \<and> (m fmt = 0 \<longrightarrow> f = fmt - 1) \<and> set as \<subseteq> set args"
  using assms
  by (auto simp: convert_text_def bind_Some_iff Let_def int_format_def dest: int_arg_set str_arg_set split: if_splits)

lemma directive_same:
  assumes ag: "agrees lo e m x" and cl: "clear_of lo e fmt (z - fmt)" "fmt \<le> z" "m z = 0" and pc: "m fmt \<noteq> 0"
    and args: "\<forall>a\<in>set args. arg_clear lo e m a"
  shows "directive e fmt args x = map_option (\<lambda>(f, as, t). (f, as, put_all e t x)) (directive_text m fmt args)"
    "directive_text m fmt args = Some (f, as, t) \<Longrightarrow> fmt \<le> f \<and> f < z \<and> set as \<subseteq> set args"
proof -
  have st: "same_text m (snd x) fmt z" by (rule agrees_text [OF ag cl])
  note pd = parse_directive_same [OF st pc, of args]
  show "directive e fmt args x = map_option (\<lambda>(f, as, t). (f, as, put_all e t x)) (directive_text m fmt args)"
  proof (cases "parse_directive m fmt args")
    case None
    then show ?thesis using pd(1) by (simp add: directive_def directive_text_def)
  next
    case (Some y)
    then obtain g w p q f as where y: "parse_directive m fmt args = Some (g, w, p, q, f, as)" by (cases y) auto
    have f: "fmt < f" "f \<le> z" "set as \<subseteq> set args" using pd(2) [OF y] by auto
    have "convert e g w p q f as x = map_option (\<lambda>(f, as, t). (f, as, put_all e t x)) (convert_text m g w p q f as)"
      by (rule convert_same [OF ag, of f z]) (use f cl(1) args in \<open>auto simp: clear_of_def\<close>)
    then show ?thesis using pd(1) y by (simp add: directive_def directive_text_def)
  qed
  assume "directive_text m fmt args = Some (f, as, t)"
  then obtain g w p q b bs where y: "parse_directive m fmt args = Some (g, w, p, q, b, bs)"
    and k: "convert_text m g w p q b bs = Some (f, as, t)"
    by (auto simp: directive_text_def bind_Some_iff)
  have b: "fmt < b" "b \<le> z" "set bs \<subseteq> set args" using pd(2) [OF y] by auto
  note r = convert_text_result [OF k]
  have "b = z \<longrightarrow> f = b - 1" using r cl(3) by auto
  then show "fmt \<le> f \<and> f < z \<and> set as \<subseteq> set args" using r b by auto
qed

lemma vsn_loop_text:
  "format_text m fmt args = Some t \<Longrightarrow> agrees lo e m x \<Longrightarrow> clear_of lo e fmt (z - fmt) \<Longrightarrow> fmt \<le> z \<Longrightarrow> m z = 0 \<Longrightarrow>
     \<forall>a\<in>set args. arg_clear lo e m a \<Longrightarrow> vsn_loop e fmt args x = Some (put_all e t x)"
proof (induction "z - fmt" arbitrary: fmt args t x rule: less_induct)
  case less
  note pr = less.prems
  have same: "snd x fmt = m fmt" using same_textD(1) [OF agrees_text [OF pr(2,3,4,5)]] .
  consider "m fmt = 0" | "m fmt \<noteq> 0" "m fmt \<noteq> 37" | "m fmt = 37" by blast
  then show ?case
  proof cases
    case 1
    with pr(1) have "t = []" by (subst (asm) format_text.simps) simp
    then show ?thesis using 1 same by (subst vsn_loop.simps) simp
  next
    case 2
    then have lt: "fmt < z" using pr(4,5) by (metis le_neq_implies_less)
    obtain u where u: "format_text m (fmt + 1) args = Some u" "t = m fmt # u"
      using pr(1) 2 by (subst (asm) format_text.simps) (auto simp: bind_Some_iff)
    have "vsn_loop e (fmt + 1) args (put e (m fmt) x) = Some (put_all e u (put e (m fmt) x))"
      by (rule less.hyps [OF _ u(1) agrees_put [OF pr(2)] _ _ pr(5,6)]) (use lt pr(3) in \<open>auto simp: clear_of_def\<close>)
    then show ?thesis using 2 same u(2) by (subst vsn_loop.simps) simp
  next
    case 3
    then have nz: "m fmt \<noteq> 0" by simp
    obtain f as t1 u where u: "directive_text m fmt args = Some (f, as, t1)" "format_text m (f + 1) as = Some u" "t = t1 @ u"
      using pr(1) 3 by (subst (asm) format_text.simps) (auto simp: bind_Some_iff)
    note d = directive_same [OF pr(2,3,4,5) nz pr(6)]
    have f: "fmt \<le> f" "f < z" "set as \<subseteq> set args" using d(2) [OF u(1)] by auto
    have "vsn_loop e (f + 1) as (put_all e t1 x) = Some (put_all e u (put_all e t1 x))"
      by (rule less.hyps [OF _ u(2) agrees_put_all [OF pr(2)] _ _ pr(5)]) (use f pr(3,6) in \<open>auto simp: clear_of_def\<close>)
    then show ?thesis using 3 same u(1,3) d(1) by (subst vsn_loop.simps) (simp add: put_all_append)
  qed
qed

text \<open>What the buffer holds behind \<open>put_all\<close>.\<close>

lemma put_all_memory:
  "put_all e cs (a, m) = (a + length cs, \<lambda>b. if a \<le> b \<and> b < e \<and> b < a + length cs then cs ! (b - a) else m b)"
proof (induction cs arbitrary: a m)
  case (Cons c cs)
  show ?case
    unfolding put_all.simps put_def fst_conv snd_conv Cons.IH
    by (auto simp: fun_eq_iff nth_Cons' less_Suc_eq_le)
qed (auto simp: fun_eq_iff)

section \<open>What is printed\<close>

lemma cstr_end: "cstr m a xs \<Longrightarrow> m (a + length xs) = 0"
  by (induction m a xs rule: cstr.induct) auto

text \<open>
  C13: \<^verbatim>\<open>rt_vsnprintf\<close> writes the longest prefix of the formatted text that fits with its
  terminator, and nothing outside of the \<open>sz\<close> bytes of the buffer; its result is the length of
  the whole text, cut off or not. A size of 0 writes nothing.
\<close>

theorem rt_vsnprintf_writes_prefix:
  assumes buf: "buf + unat sz < 2 ^ 32" and fmt: "cstr m fmt fs" "clear_of buf (buf + unat sz) fmt (length fs)"
    and args: "\<forall>a\<in>set args. arg_clear buf (buf + unat sz) m a"
    and t: "format_text m fmt args = Some t" "length t < 2 ^ 31"
  defines "k \<equiv> min (length t) (unat sz - 1)"
  shows "\<exists>m'. rt_vsnprintf buf sz fmt args m = Some (int (length t), m') \<and>
    (\<forall>a. m' a = (if unat sz = 0 \<or> a < buf \<or> buf + k < a then m a else if a = buf + k then 0 else t ! (a - buf)))"
proof -
  let ?e = "buf + unat sz"
  have e: "vsn_end buf sz = ?e" using buf by (simp add: vsn_end_def)
  have ag: "agrees buf ?e m (buf, m)" by (simp add: agrees_def)
  have "vsn_loop ?e fmt args (buf, m) = Some (put_all ?e t (buf, m))"
    by (rule vsn_loop_text [OF t(1) ag, of "fmt + length fs"]) (use fmt args cstr_end in auto)
  then have loop: "vsn_loop ?e fmt args (buf, m) = Some (buf + length t,
      \<lambda>b. if buf \<le> b \<and> b < ?e \<and> b < buf + length t then t ! (b - buf) else m b)"
    by (simp add: put_all_memory)
  have res: "sint (of_nat (length t) :: u32) = int (length t)" 
    using t(2) by (simp add: signed_of_nat signed_take_bit_int_eq_self)
  show ?thesis
    using res by (auto simp: rt_vsnprintf_def Let_def e loop k_def)
qed

text \<open>The digits of a number, and their value.\<close>

definition decimal_value :: "int \<Rightarrow> u8 list \<Rightarrow> int" where
  "decimal_value i cs = foldl (\<lambda>i c. i * 10 + uint c - 48) i cs"

lemma small_digit:
  assumes "r < 10"
  shows "isdigit (small_digits ! r)" "uint (small_digits ! r) = int r + 48"
proof -
  have "r \<in> {0, 1, 2, 3, 4, 5, 6, 7, 8, 9}" using assms by auto
  then show "isdigit (small_digits ! r)" "uint (small_digits ! r) = int r + 48"
    by (auto simp: small_digits_def isdigit_def)
qed

lemma num_digits_decimal:
  "(\<forall>c\<in>set (num_digits small_digits 10 n). isdigit c) \<and> decimal_value 0 (rev (num_digits small_digits 10 n)) = uint n"
proof (induction "unat n" arbitrary: n rule: less_induct)
  case less
  show ?case
  proof (cases "n = 0")
    case True
    then show ?thesis by (subst (1 2) num_digits.simps) (simp add: decimal_value_def)
  next
    case False
    let ?d = "divide n 10"
    have r: "fst ?d < 10" by (simp add: divide_def unat_mod)
    have eq: "num_digits small_digits 10 n = small_digits ! fst ?d # num_digits small_digits 10 (snd ?d)"
      using False by (subst num_digits.simps) simp
    have IH: "\<forall>c\<in>set (num_digits small_digits 10 (snd ?d)). isdigit c"
      "decimal_value 0 (rev (num_digits small_digits 10 (snd ?d))) = uint (snd ?d)"
      using less [OF divide_less [OF False]] by auto
    have "uint (snd ?d) * 10 + int (fst ?d) = uint n"
      by (simp add: divide_def uint_div uint_mod flip: uint_nat)
    then show ?thesis
      using IH small_digit [OF r] unfolding eq by (simp add: decimal_value_def)
  qed
qed

lemma isdigit_bounds: "isdigit c \<longleftrightarrow> 48 \<le> uint c \<and> uint c \<le> 57"
proof -
  have lt: "unat c < 2 ^ LENGTH(8)" by (rule unsigned_less)
  then have u: "unat (ucast c :: u32) = unat c" by (simp add: unsigned_ucast_eq take_bit_nat_eq_self)
  have "isdigit c \<longleftrightarrow> unat (ucast c - 48 :: u32) < 10" by (simp add: isdigit_def word_less_nat_alt)
  also have "unat (ucast c - 48 :: u32) = (if 48 \<le> unat c then unat c - 48 else unat c + 2 ^ 32 - 48)"
    using unat_sub_if_size [of "ucast c :: u32" 48] by (simp add: word_size u)
  also have "\<dots> < 10 \<longleftrightarrow> 48 \<le> unat c \<and> unat c \<le> 57" using lt by auto
  finally show ?thesis unfolding uint_nat by linarith
qed

lemma decimal_value_mono: "\<forall>c\<in>set cs. isdigit c \<Longrightarrow> 0 \<le> i \<Longrightarrow> i \<le> decimal_value i cs"
proof (induction cs arbitrary: i)
  case (Cons c cs)
  have "48 \<le> uint c" using Cons.prems by (simp add: isdigit_bounds)
  then show ?case using Cons.IH [of "i * 10 + uint c - 48"] Cons.prems by (simp add: decimal_value_def)
qed (simp add: decimal_value_def)

lemma skip_atoi_digits:
  "block m a (length cs) = cs \<Longrightarrow> \<forall>c\<in>set cs. isdigit c \<Longrightarrow> \<not> isdigit (m (a + length cs)) \<Longrightarrow> 0 \<le> i \<Longrightarrow>
     decimal_value i cs \<le> 2 ^ 31 - 49 \<Longrightarrow> skip_atoi m a i = Some (decimal_value i cs, a + length cs)"
proof (induction cs arbitrary: a i)
  case Nil
  then show ?case by (subst skip_atoi.simps) (simp add: decimal_value_def)
next
  case (Cons c cs)
  let ?i = "i * 10 + uint c - 48"
  have c: "m a = c" "isdigit c" "48 \<le> uint c" using Cons.prems by (simp_all add: isdigit_bounds)
  have v: "decimal_value i (c # cs) = decimal_value ?i cs" by (simp add: decimal_value_def)
  have i: "0 \<le> ?i" using c(3) Cons.prems(4) by simp
  have "?i \<le> decimal_value ?i cs" by (rule decimal_value_mono [OF _ i]) (use Cons.prems(2) in simp)
  then have "i * 10 + uint c < 2 ^ 31" using Cons.prems(5) v by simp
  then have "skip_atoi m a i = skip_atoi m (a + 1) ?i" using c by (subst skip_atoi.simps) simp
  then show ?case using Cons.IH [of "a + 1" ?i] Cons.prems i v by simp
qed

lemma number_text_plain:
  "number_text n 10 (- 1) (- 1) 0 = rev (if n = 0 then [48] else num_digits small_digits 10 n)"
  by (simp add: number_text_def number_digits_def number_layout_def Let_def)

text \<open>
  \<^verbatim>\<open>skip_atoi\<close>, which reads the widths of a format, reads back what \<^verbatim>\<open>print_number\<close> printed in
  base 10, and stops behind it.
\<close>

theorem print_number_skip_atoi:
  assumes "print_number e n 10 (- 1) (- 1) 0 (a, m) = (b, m')" "b \<le> e" "\<not> isdigit (m' b)" "uint n \<le> 2 ^ 31 - 49"
  shows "skip_atoi m' a 0 = Some (uint n, b)"
proof -
  let ?t = "number_text n 10 (- 1) (- 1) 0"
  have p: "b = a + length ?t" "m' = (\<lambda>x. if a \<le> x \<and> x < e \<and> x < a + length ?t then ?t ! (x - a) else m x)"
    using assms(1) unfolding print_number_text put_all_memory prod.inject by (blast dest: sym)+
  have bl: "block m' a (length ?t) = ?t"
    unfolding block_def p(2) using assms(2) p(1) by (auto intro!: nth_equalityI)
  have dg: "\<forall>c\<in>set ?t. isdigit c" "decimal_value 0 ?t = uint n"
    unfolding number_text_plain using num_digits_decimal [of n] by (auto simp: decimal_value_def isdigit_def)
  show ?thesis
    using skip_atoi_digits [OF bl dg(1), of 0] assms(3,4) dg(2) p(1) by simp
qed

lemma num_digits_octal: "num_digits ds 8 n = num_digits ds 16 n"
proof (induction ds "8 :: int" n rule: num_digits.induct)
  case (1 ds n)
  then show ?case by (subst (1 2) num_digits.simps) (simp add: divide_def)
qed

text \<open>
  The octal conversion prints in base 16, with every width, precision and flag: the digit
  routine takes every base that is not 10 for 16.
\<close>

theorem print_number_octal_is_hex:
  "int_format 111 = Some (8, 0) \<and> print_number e n 8 s precision type x = print_number e n 16 s precision type x"
  unfolding print_number_def number_digits_def num_digits_octal by (simp add: int_format_def)

text \<open>An integer with the precision 0 is not printed at all, and a string with the precision 0 in full.\<close>

lemma number_precision_0: "number_text n base (- 1) 0 0 = []"
  by (simp add: number_text_def number_digits_def number_layout_def Let_def)

lemma string_precision_0: "string_text m flags w 0 s = string_text m flags w (- 1) s"
  by (simp add: string_text_def)

text \<open>The text of a number fills the field.\<close>

lemma number_layout_length:
  "precision \<noteq> 0 \<Longrightarrow> int (length (number_layout sign tmp s precision type)) =
     max s (max (int (length tmp)) precision + (if sign \<noteq> 0 then 1 else 0))"
  by (auto simp: number_layout_def Let_def)

end
