(* ===== verification/RTT_Allocator.thy ===== *)
theory RTT_Allocator
  imports RTT_Prelude
begin

text \<open>
  What a heap promises its users, as an interface: the blocks that are allocated do not overlap,
  an operation on one of them leaves the bytes of the others alone, and a reallocated block keeps
  its contents. The client theorem follows a program that allocates, frees, reallocates and writes.
\<close>

datatype heap_request = Malloc u32 | Free nat | Realloc nat u32 | Store nat nat u8

text \<open>What the program holds: the bytes behind each pointer, as far as it asked for.\<close>

type_synonym holding = "nat \<Rightarrow> u8 list option"

definition max_request :: nat where "max_request = 2 ^ 32 - 16"

fun legal :: "heap_request \<Rightarrow> holding \<Rightarrow> bool" where
  "legal (Malloc k) held \<longleftrightarrow> unat k \<le> max_request"
| "legal (Free p) held \<longleftrightarrow> held p \<noteq> None"
| "legal (Realloc p k) held \<longleftrightarrow> held p \<noteq> None \<and> k \<noteq> 0 \<and> unat k \<le> max_request"
| "legal (Store p i b) held \<longleftrightarrow> (case held p of None \<Rightarrow> False | Some xs \<Rightarrow> i < length xs)"

definition fetch :: "(nat \<Rightarrow> u8) \<Rightarrow> nat \<Rightarrow> nat \<Rightarrow> u8 list" where
  "fetch d p n = map (\<lambda>i. d (p + i)) [0..<n]"

lemma length_fetch [simp]: "length (fetch d p n) = n"
  by (simp add: fetch_def)

definition keep_prefix :: "u8 list \<Rightarrow> u8 list \<Rightarrow> u8 list" where
  "keep_prefix old new = take (length new) old @ drop (length old) new"

fun serve ::
  "(u32 \<Rightarrow> 's \<Rightarrow> (nat option \<times> 's) option) \<Rightarrow> (nat \<Rightarrow> 's \<Rightarrow> 's option) \<Rightarrow>
   (nat \<Rightarrow> u32 \<Rightarrow> 's \<Rightarrow> (nat option \<times> 's) option) \<Rightarrow> (nat \<Rightarrow> u8 \<Rightarrow> 's \<Rightarrow> 's) \<Rightarrow> ('s \<Rightarrow> nat \<Rightarrow> u8) \<Rightarrow>
   heap_request \<Rightarrow> holding \<times> 's \<Rightarrow> (holding \<times> 's) option" where
  "serve alloc free realloc store data (Malloc k) (held, s) = do {
     (r, s) \<leftarrow> alloc k s;
     Some (case r of None \<Rightarrow> (held, s) | Some p \<Rightarrow> (held(p \<mapsto> fetch (data s) p (unat k)), s)) }"
| "serve alloc free realloc store data (Free p) (held, s) = do {
     s \<leftarrow> free p s;
     Some (held(p := None), s) }"
| "serve alloc free realloc store data (Realloc p k) (held, s) = do {
     old \<leftarrow> held p;
     (r, s) \<leftarrow> realloc p k s;
     Some (case r of
         None \<Rightarrow> (held, s)
       | Some q \<Rightarrow> ((held(p := None))(q \<mapsto> keep_prefix old (fetch (data s) q (unat k))), s)) }"
| "serve alloc free realloc store data (Store p i b) (held, s) = do {
     old \<leftarrow> held p;
     Some (held(p \<mapsto> old[i := b]), store (p + i) b s) }"

text \<open>A program makes no request that is not legal.\<close>

fun client_run ::
  "(u32 \<Rightarrow> 's \<Rightarrow> (nat option \<times> 's) option) \<Rightarrow> (nat \<Rightarrow> 's \<Rightarrow> 's option) \<Rightarrow>
   (nat \<Rightarrow> u32 \<Rightarrow> 's \<Rightarrow> (nat option \<times> 's) option) \<Rightarrow> (nat \<Rightarrow> u8 \<Rightarrow> 's \<Rightarrow> 's) \<Rightarrow> ('s \<Rightarrow> nat \<Rightarrow> u8) \<Rightarrow>
   heap_request list \<Rightarrow> holding \<times> 's \<Rightarrow> (holding \<times> 's) option" where
  "client_run alloc free realloc store data [] x = Some x"
| "client_run alloc free realloc store data (r # rs) x =
     (if legal r (fst x)
      then Option.bind (serve alloc free realloc store data r x) (client_run alloc free realloc store data rs)
      else client_run alloc free realloc store data rs x)"

definition apart :: "holding \<Rightarrow> bool" where
  "apart held \<longleftrightarrow> (\<forall>p q xs ys. held p = Some xs \<longrightarrow> held q = Some ys \<longrightarrow> p \<noteq> q \<longrightarrow>
     p + length xs \<le> q \<or> q + length ys \<le> p)"

definition intact :: "holding \<Rightarrow> (nat \<Rightarrow> u8) \<Rightarrow> bool" where
  "intact held d \<longleftrightarrow> (\<forall>p xs. held p = Some xs \<longrightarrow> fetch d p (length xs) = xs)"

text \<open>\<open>rep s L\<close>: the allocated blocks are those of \<open>L\<close>, with address and size.\<close>

locale allocator =
  fixes rep :: "'s \<Rightarrow> (nat \<times> nat) set \<Rightarrow> bool"
    and data :: "'s \<Rightarrow> nat \<Rightarrow> u8"
    and alloc :: "u32 \<Rightarrow> 's \<Rightarrow> (nat option \<times> 's) option"
    and free :: "nat \<Rightarrow> 's \<Rightarrow> 's option"
    and realloc :: "nat \<Rightarrow> u32 \<Rightarrow> 's \<Rightarrow> (nat option \<times> 's) option"
    and store :: "nat \<Rightarrow> u8 \<Rightarrow> 's \<Rightarrow> 's"
  assumes disjoint: "rep s L \<Longrightarrow> (p, n) \<in> L \<Longrightarrow> (q, m) \<in> L \<Longrightarrow> (p, n) \<noteq> (q, m) \<Longrightarrow>
      p \<noteq> q \<and> (p + n \<le> q \<or> q + m \<le> p)"
    and alloc_law: "rep s L \<Longrightarrow> unat k \<le> max_request \<Longrightarrow>
      \<exists>r s'. alloc k s = Some (r, s') \<and> data s' = data s \<and>
        (case r of None \<Rightarrow> rep s' L | Some p \<Rightarrow> \<exists>m. unat k \<le> m \<and> (p, m) \<notin> L \<and> rep s' (insert (p, m) L))"
    and free_law: "rep s L \<Longrightarrow> (p, n) \<in> L \<Longrightarrow> \<exists>s'. free p s = Some s' \<and> data s' = data s \<and> rep s' (L - {(p, n)})"
    and realloc_law: "rep s L \<Longrightarrow> (p, n) \<in> L \<Longrightarrow> k \<noteq> 0 \<Longrightarrow> unat k \<le> max_request \<Longrightarrow>
      \<exists>r s'. realloc p k s = Some (r, s') \<and>
        (\<forall>x l i. (x, l) \<in> L - {(p, n)} \<longrightarrow> i < l \<longrightarrow> data s' (x + i) = data s (x + i)) \<and>
        (case r of
           None \<Rightarrow> rep s' L \<and> data s' = data s
         | Some q \<Rightarrow> (\<exists>m. unat k \<le> m \<and> (q, m) \<notin> L - {(p, n)} \<and> rep s' (insert (q, m) (L - {(p, n)}))) \<and>
             (\<forall>i. i < n \<longrightarrow> i < unat k \<longrightarrow> data s' (q + i) = data s (p + i)))"
    and store_law: "rep s L \<Longrightarrow> rep (store x b s) L" "data (store x b s) = (data s)(x := b)"
begin

definition serves :: "holding \<Rightarrow> 's \<Rightarrow> bool" where
  "serves held s \<longleftrightarrow> (\<exists>L. rep s L \<and>
     (\<forall>p xs. held p = Some xs \<longrightarrow> (\<exists>n. length xs \<le> n \<and> (p, n) \<in> L) \<and> fetch (data s) p (length xs) = xs))"

lemma fetch_nth: "fetch d p (length xs) = xs \<longleftrightarrow> (\<forall>i<length xs. d (p + i) = xs ! i)"
  unfolding fetch_def list_eq_iff_nth_eq by (simp del: upt_Suc)

lemma serves_apart:
  assumes "serves held s"
  shows "apart held" "intact held (data s)"
proof -
  obtain L where L: "rep s L" and h: "\<And>p xs. held p = Some xs \<Longrightarrow> (\<exists>n. length xs \<le> n \<and> (p, n) \<in> L) \<and> fetch (data s) p (length xs) = xs"
    using assms by (auto simp: serves_def)
  show "intact held (data s)" using h by (simp add: intact_def)
  show "apart held" unfolding apart_def
  proof (intro allI impI)
    fix p q xs ys assume pq: "held p = Some xs" "held q = Some ys" "p \<noteq> q"
    obtain n where n: "length xs \<le> n" "(p, n) \<in> L" using h [OF pq(1)] by blast
    obtain m where m: "length ys \<le> m" "(q, m) \<in> L" using h [OF pq(2)] by blast
    from disjoint [OF L n(2) m(2)] pq(3) have "p + n \<le> q \<or> q + m \<le> p" by simp
    with n(1) m(1) show "p + length xs \<le> q \<or> q + length ys \<le> p" by auto
  qed
qed

lemma blocks_differ: "rep s L \<Longrightarrow> (p, n) \<in> L \<Longrightarrow> (p, m) \<in> L \<Longrightarrow> n = m"
  using disjoint [of s L p n p m] by auto

lemma servesE:
  assumes "serves held s"
  obtains L where "rep s L" "\<forall>p xs. held p = Some xs \<longrightarrow> (\<exists>n. length xs \<le> n \<and> (p, n) \<in> L)"
    "\<forall>p xs. held p = Some xs \<longrightarrow> fetch (data s) p (length xs) = xs"
  using assms unfolding serves_def by blast

lemma servesI:
  assumes "rep s L"
    and "\<And>p xs. held p = Some xs \<Longrightarrow> (\<exists>n. length xs \<le> n \<and> (p, n) \<in> L) \<and> fetch (data s) p (length xs) = xs"
  shows "serves held s"
  using assms unfolding serves_def by blast

lemma serves_malloc:
  assumes "serves held s" "unat k \<le> max_request"
  obtains held' s' where "serve alloc free realloc store data (Malloc k) (held, s) = Some (held', s')" "serves held' s'"
proof -
  obtain L where L: "rep s L" and h: "\<forall>p xs. held p = Some xs \<longrightarrow> (\<exists>n. length xs \<le> n \<and> (p, n) \<in> L)"
    and f: "\<forall>p xs. held p = Some xs \<longrightarrow> fetch (data s) p (length xs) = xs"
    using assms(1) by (rule servesE)
  obtain q s' where a: "alloc k s = Some (q, s')" "data s' = data s"
    "case q of None \<Rightarrow> rep s' L | Some p \<Rightarrow> \<exists>m. unat k \<le> m \<and> (p, m) \<notin> L \<and> rep s' (insert (p, m) L)"
    using alloc_law [OF L assms(2)] by auto
  show thesis
  proof (cases q)
    case None
    then have "serves held s'" using a(2,3) h f by (auto intro!: servesI [of _ L])
    then show thesis using that a(1) None by simp
  next
    case (Some p)
    then obtain m where m: "unat k \<le> m" "rep s' (insert (p, m) L)" using a(3) by auto
    have "serves (held(p \<mapsto> fetch (data s') p (unat k))) s'"
      by (rule servesI [OF m(2)]) (use m a(2) h f in \<open>auto simp: fetch_def split: if_splits\<close>)
    then show thesis using that a(1) Some by simp
  qed
qed

lemma serves_free:
  assumes "serves held s" "held p = Some xs"
  obtains held' s' where "serve alloc free realloc store data (Free p) (held, s) = Some (held', s')" "serves held' s'"
proof -
  obtain L where L: "rep s L" and h: "\<forall>p xs. held p = Some xs \<longrightarrow> (\<exists>n. length xs \<le> n \<and> (p, n) \<in> L)"
    and f: "\<forall>p xs. held p = Some xs \<longrightarrow> fetch (data s) p (length xs) = xs"
    using assms(1) by (rule servesE)
  obtain n where n: "(p, n) \<in> L" using h [rule_format, OF assms(2)] by blast
  obtain s' where s': "free p s = Some s'" "data s' = data s" "rep s' (L - {(p, n)})"
    using free_law [OF L n] by blast
  have "serves (held(p := None)) s'"
    by (rule servesI [OF s'(3)]) (use s'(2) h f in \<open>auto split: if_splits\<close>)
  then show thesis using that s'(1) by simp
qed

lemma fetch_keep_prefix:
  assumes "\<And>i. i < length xs \<Longrightarrow> i < n \<Longrightarrow> d (q + i) = xs ! i"
  shows "fetch d q (length (keep_prefix xs (fetch d q n))) = keep_prefix xs (fetch d q n)"
proof -
  have "d (q + i) = keep_prefix xs (fetch d q n) ! i" if "i < n" for i
    using assms [of i] that by (cases "i < length xs") (simp_all add: keep_prefix_def nth_append fetch_def min_def)
  then show ?thesis unfolding fetch_nth by (simp add: keep_prefix_def fetch_def)
qed

lemma serves_realloc:
  assumes "serves held s" "held p = Some xs" "k \<noteq> 0" "unat k \<le> max_request"
  obtains held' s' where "serve alloc free realloc store data (Realloc p k) (held, s) = Some (held', s')" "serves held' s'"
proof -
  obtain L where L: "rep s L" and h: "\<forall>p xs. held p = Some xs \<longrightarrow> (\<exists>n. length xs \<le> n \<and> (p, n) \<in> L)"
    and f: "\<forall>p xs. held p = Some xs \<longrightarrow> fetch (data s) p (length xs) = xs"
    using assms(1) by (rule servesE)
  obtain n where n: "length xs \<le> n" "(p, n) \<in> L" using h [rule_format, OF assms(2)] by blast
  obtain r s' where a: "realloc p k s = Some (r, s')"
    "\<forall>x l i. (x, l) \<in> L - {(p, n)} \<longrightarrow> i < l \<longrightarrow> data s' (x + i) = data s (x + i)"
    "case r of
         None \<Rightarrow> rep s' L \<and> data s' = data s
       | Some q \<Rightarrow> (\<exists>m. unat k \<le> m \<and> (q, m) \<notin> L - {(p, n)} \<and> rep s' (insert (q, m) (L - {(p, n)}))) \<and>
           (\<forall>i. i < n \<longrightarrow> i < unat k \<longrightarrow> data s' (q + i) = data s (p + i))"
    using realloc_law [OF L n(2) assms(3,4)] by auto
  show thesis
  proof (cases r)
    case None
    then have "serves held s'" using a(3) h f by (auto intro!: servesI [of _ L])
    then show thesis using that assms(2) a(1) None by simp
  next
    case (Some q)
    then obtain m where m: "unat k \<le> m" "rep s' (insert (q, m) (L - {(p, n)}))"
      and c: "\<forall>i. i < n \<longrightarrow> i < unat k \<longrightarrow> data s' (q + i) = data s (p + i)" using a(3) by auto
    let ?new = "keep_prefix xs (fetch (data s') q (unat k))"
    have "\<forall>i<length xs. data s (p + i) = xs ! i" using f [rule_format, OF assms(2)] fetch_nth by blast
    then have new: "fetch (data s') q (length ?new) = ?new" using c n(1) by (intro fetch_keep_prefix) simp
    have len: "length ?new = unat k" by (simp add: keep_prefix_def fetch_def min_def)
    have other: "(\<exists>l. length ys \<le> l \<and> (x, l) \<in> insert (q, m) (L - {(p, n)})) \<and> fetch (data s') x (length ys) = ys"
      if hx: "held x = Some ys" "x \<noteq> p" for x ys
    proof -
      obtain l where l: "length ys \<le> l" "(x, l) \<in> L - {(p, n)}" using h [rule_format, OF hx(1)] hx(2) by auto
      then have "data s' (x + i) = data s (x + i)" if "i < length ys" for i using a(2) that by auto
      then have "fetch (data s') x (length ys) = fetch (data s) x (length ys)" by (simp add: fetch_def)
      then show ?thesis using f [rule_format, OF hx(1)] l by auto
    qed
    have "serves ((held(p := None))(q \<mapsto> ?new)) s'"
      by (rule servesI [OF m(2)]) (use other len m(1) new in \<open>auto split: if_splits\<close>)
    then show thesis using that assms(2) a(1) Some by simp
  qed
qed

lemma serves_store:
  assumes "serves held s" "held p = Some xs" "i < length xs"
  obtains held' s' where "serve alloc free realloc store data (Store p i b) (held, s) = Some (held', s')" "serves held' s'"
proof -
  obtain L where L: "rep s L" and h: "\<forall>p xs. held p = Some xs \<longrightarrow> (\<exists>n. length xs \<le> n \<and> (p, n) \<in> L)"
    and f: "\<forall>p xs. held p = Some xs \<longrightarrow> fetch (data s) p (length xs) = xs"
    using assms(1) by (rule servesE)
  obtain n where n: "length xs \<le> n" "(p, n) \<in> L" using h [rule_format, OF assms(2)] by blast
  let ?s = "store (p + i) b s"
  have own: "fetch (data ?s) p (length (xs[i := b])) = xs[i := b]"
    using f [rule_format, OF assms(2)] assms(3) unfolding fetch_nth by (auto simp: store_law(2) nth_list_update)
  have other: "(\<exists>l. length ys \<le> l \<and> (x, l) \<in> L) \<and> fetch (data ?s) x (length ys) = ys"
    if hx: "held x = Some ys" "x \<noteq> p" for x ys
  proof -
    obtain l where l: "length ys \<le> l" "(x, l) \<in> L" using h [rule_format, OF hx(1)] by blast
    have "p + n \<le> x \<or> x + l \<le> p" using disjoint [OF L n(2) l(2)] hx(2) by simp
    then have "x + j \<noteq> p + i" if "j < length ys" for j using that l(1) n(1) assms(3) by auto
    then have "fetch (data ?s) x (length ys) = fetch (data s) x (length ys)" by (simp add: fetch_def store_law(2))
    then show ?thesis using f [rule_format, OF hx(1)] l by auto
  qed
  have "serves (held(p \<mapsto> xs[i := b])) ?s"
    by (rule servesI [OF store_law(1) [OF L]]) (use own other n in \<open>auto split: if_splits\<close>)
  then show thesis using that assms(2) by simp
qed

lemma serves_step:
  assumes "serves held s" "legal r held"
  obtains held' s' where "serve alloc free realloc store data r (held, s) = Some (held', s')" "serves held' s'"
proof (cases r)
  case (Malloc k)
  then show thesis using serves_malloc [OF assms(1), of k] that assms(2) by auto
next
  case (Free p)
  then obtain xs where "held p = Some xs" using assms(2) by auto
  then show thesis using serves_free [OF assms(1)] that Free by metis
next
  case (Realloc p k)
  then obtain xs where "held p = Some xs" "k \<noteq> 0" "unat k \<le> max_request" using assms(2) by auto
  then show thesis using serves_realloc [OF assms(1)] that Realloc by metis
next
  case (Store p i b)
  then obtain xs where "held p = Some xs" "i < length xs" using assms(2) by (auto split: option.splits)
  then show thesis using serves_store [OF assms(1)] that Store by metis
qed

lemma client_run_safe:
  assumes "serves held s"
  shows "\<exists>held' s'. client_run alloc free realloc store data rs (held, s) = Some (held', s') \<and> serves held' s'"
  using assms
proof (induction rs arbitrary: held s)
  case (Cons r rs)
  show ?case
  proof (cases "legal r held")
    case True
    obtain held' s' where "serve alloc free realloc store data r (held, s) = Some (held', s')" "serves held' s'"
      by (rule serves_step [OF Cons.prems True])
    then show ?thesis using Cons.IH True by simp
  next
    case False
    then show ?thesis using Cons by simp
  qed
qed simp

lemma client_safe:
  assumes "rep s L"
  shows "\<exists>held s'. client_run alloc free realloc store data rs (Map.empty, s) = Some (held, s') \<and> apart held \<and>
    intact held (data s') \<and> (\<exists>L'. rep s' L')"
proof -
  have "serves Map.empty s" using assms by (auto simp: serves_def)
  from client_run_safe [OF this, of rs] obtain held s' where
    r: "client_run alloc free realloc store data rs (Map.empty, s) = Some (held, s')" "serves held s'" by blast
  moreover have "\<exists>L'. rep s' L'" using r(2) by (auto simp: serves_def)
  ultimately show ?thesis using serves_apart by blast
qed

end

end
