(* ===== verification/RTT_HeapBlocks.thy ===== *)
theory RTT_HeapBlocks
  imports RTT_State
begin

text \<open>
  The blocks of a memory heap (\<^verbatim>\<open>memheap.c\<close>): every block starts with a
  \<^verbatim>\<open>struct rt_memheap_item\<close> that links it into the ring of all blocks, in address order, and, while
  it is free, into the ring of the free blocks. This theory holds what happens to the blocks while
  the heap is locked, and the lemmas on such rings; \<^theory_text>\<open>RTT_MemHeap\<close> has the calls themselves.
\<close>

definition RT_MEMHEAP_MAGIC :: u32 where "RT_MEMHEAP_MAGIC = 0x1ea01ea0"
definition RT_MEMHEAP_MASK :: u32 where "RT_MEMHEAP_MASK = 0xfffffffe"
definition RT_MEMHEAP_USED :: u32 where "RT_MEMHEAP_USED = 1"
definition RT_MEMHEAP_MINIALLOC :: u32 where "RT_MEMHEAP_MINIALLOC = 12"
definition RT_MEMHEAP_SIZE :: u32 where "RT_MEMHEAP_SIZE = 24"

section \<open>Headers\<close>

definition item_update :: "item_ptr \<Rightarrow> (rt_memheap_item \<Rightarrow> rt_memheap_item) \<Rightarrow> rt_memheap \<Rightarrow> rt_memheap" where
  "item_update p f hp = hp\<lparr>heap_items := (heap_items hp)(p := f (heap_items hp p))\<rparr>"

definition magic_of :: "rt_memheap \<Rightarrow> item_ptr \<Rightarrow> u32" where "magic_of hp p = item_magic (heap_items hp p)"
definition pool_of :: "rt_memheap \<Rightarrow> item_ptr \<Rightarrow> nat option" where "pool_of hp p = item_pool (heap_items hp p)"
definition next_of :: "rt_memheap \<Rightarrow> item_ptr \<Rightarrow> item_ptr option" where "next_of hp p = item_next (heap_items hp p)"
definition prev_of :: "rt_memheap \<Rightarrow> item_ptr \<Rightarrow> item_ptr option" where "prev_of hp p = item_prev (heap_items hp p)"
definition nfree_of :: "rt_memheap \<Rightarrow> item_ptr \<Rightarrow> item_ptr option" where
  "nfree_of hp p = item_next_free (heap_items hp p)"
definition pfree_of :: "rt_memheap \<Rightarrow> item_ptr \<Rightarrow> item_ptr option" where
  "pfree_of hp p = item_prev_free (heap_items hp p)"

definition set_magic :: "item_ptr \<Rightarrow> u32 \<Rightarrow> rt_memheap \<Rightarrow> rt_memheap" where
  "set_magic p m = item_update p (\<lambda>i. i\<lparr>item_magic := m\<rparr>)"
definition set_pool :: "item_ptr \<Rightarrow> nat option \<Rightarrow> rt_memheap \<Rightarrow> rt_memheap" where
  "set_pool p h = item_update p (\<lambda>i. i\<lparr>item_pool := h\<rparr>)"
definition set_next :: "item_ptr \<Rightarrow> item_ptr option \<Rightarrow> rt_memheap \<Rightarrow> rt_memheap" where
  "set_next p q = item_update p (\<lambda>i. i\<lparr>item_next := q\<rparr>)"
definition set_prev :: "item_ptr \<Rightarrow> item_ptr option \<Rightarrow> rt_memheap \<Rightarrow> rt_memheap" where
  "set_prev p q = item_update p (\<lambda>i. i\<lparr>item_prev := q\<rparr>)"
definition set_nfree :: "item_ptr \<Rightarrow> item_ptr option \<Rightarrow> rt_memheap \<Rightarrow> rt_memheap" where
  "set_nfree p q = item_update p (\<lambda>i. i\<lparr>item_next_free := q\<rparr>)"
definition set_pfree :: "item_ptr \<Rightarrow> item_ptr option \<Rightarrow> rt_memheap \<Rightarrow> rt_memheap" where
  "set_pfree p q = item_update p (\<lambda>i. i\<lparr>item_prev_free := q\<rparr>)"

definition item_used :: "rt_memheap \<Rightarrow> item_ptr \<Rightarrow> bool" where
  "item_used hp p \<longleftrightarrow> magic_of hp p AND RT_MEMHEAP_USED \<noteq> 0"

text \<open>\<^verbatim>\<open>MEMITEM_SIZE\<close> of a block in the heap; the distance of two addresses wraps.\<close>

definition memitem_size :: "item_ptr \<Rightarrow> rt_memheap \<Rightarrow> u32 option" where
  "memitem_size p hp =
     (case (p, next_of hp p) of
        (Item a, Some (Item b)) \<Rightarrow> Some (of_nat b - of_nat a - RT_MEMHEAP_SIZE)
      | _ \<Rightarrow> None)"

section \<open>Steps under the lock\<close>

text \<open>Taking a block out of the free ring, and putting one behind the header of the free ring.\<close>

definition free_unlink :: "item_ptr \<Rightarrow> rt_memheap \<Rightarrow> rt_memheap option" where
  "free_unlink p hp = do {
     n \<leftarrow> nfree_of hp p;
     let hp = set_pfree n (pfree_of hp p) hp;
     v \<leftarrow> pfree_of hp p;
     Some (set_nfree v (nfree_of hp p) hp) }"

definition free_insert :: "item_ptr \<Rightarrow> rt_memheap \<Rightarrow> rt_memheap option" where
  "free_insert p hp = do {
     let hp = set_nfree p (nfree_of hp (free_list hp)) hp;
     let hp = set_pfree p (Some (free_list hp)) hp;
     n \<leftarrow> nfree_of hp (free_list hp);
     let hp = set_pfree n (Some p) hp;
     Some (set_nfree (free_list hp) (Some p) hp) }"

text \<open>A new free block at \<open>new\<close> behind the block \<open>p\<close>.\<close>

definition split_block :: "nat \<Rightarrow> item_ptr \<Rightarrow> item_ptr \<Rightarrow> rt_memheap \<Rightarrow> rt_memheap option" where
  "split_block h p new hp = do {
     let hp = set_magic new RT_MEMHEAP_MAGIC hp;
     let hp = set_pool new (Some h) hp;
     let hp = set_prev new (Some p) hp;
     let hp = set_next new (next_of hp p) hp;
     n \<leftarrow> next_of hp p;
     let hp = set_prev n (Some new) hp;
     Some (set_next p (Some new) hp) }"

definition add_available :: "u32 \<Rightarrow> rt_memheap \<Rightarrow> rt_memheap" where
  "add_available n hp = hp\<lparr>available_size := available_size hp + n\<rparr>"

definition sub_available :: "u32 \<Rightarrow> rt_memheap \<Rightarrow> rt_memheap" where
  "sub_available n hp = hp\<lparr>available_size := available_size hp - n\<rparr>"

definition note_max_used :: "rt_memheap \<Rightarrow> rt_memheap" where
  "note_max_used hp =
     (if pool_size hp - available_size hp > max_used_size hp
      then hp\<lparr>max_used_size := pool_size hp - available_size hp\<rparr> else hp)"

text \<open>
  The memory of \<^verbatim>\<open>rt_memheap_init\<close>: one free block and the used tailer. An area without room for the
  two headers makes the tailer lie outside of it.
\<close>

definition memheap_setup :: "nat \<Rightarrow> u32 \<Rightarrow> rt_memheap \<Rightarrow> rt_memheap option" where
  "memheap_setup h sz hp = do {
     let pool = RT_ALIGN_DOWN sz RT_ALIGN_SIZE;
     let avail = pool - 2 * RT_MEMHEAP_SIZE;
     let tail = unat avail + unat RT_MEMHEAP_SIZE;
     let hp = hp\<lparr>pool_size := pool, available_size := avail, max_used_size := pool - avail,
       free_list := FreeHeader, block_list := Some (Item 0)\<rparr>;
     let hp = item_update FreeHeader (\<lambda>_. \<lparr>item_magic = RT_MEMHEAP_MAGIC, item_pool = Some h, item_next = None,
       item_prev = None, item_next_free = Some FreeHeader, item_prev_free = Some FreeHeader\<rparr>) hp;
     let hp = item_update (Item 0) (\<lambda>_. \<lparr>item_magic = RT_MEMHEAP_MAGIC, item_pool = Some h, item_next = None,
       item_prev = None, item_next_free = Some (Item 0), item_prev_free = Some (Item 0)\<rparr>) hp;
     let hp = set_next (Item 0) (Some (Item tail)) hp;
     hp \<leftarrow> free_insert (Item 0) (set_prev (Item 0) (Some (Item tail)) hp);
     rt_assert (tail + unat RT_MEMHEAP_SIZE \<le> unat sz);
     Some (item_update (Item tail) (\<lambda>_. \<lparr>item_magic = RT_MEMHEAP_MAGIC OR RT_MEMHEAP_USED, item_pool = Some h,
       item_next = Some (Item 0), item_prev = Some (Item 0), item_next_free = None, item_prev_free = None\<rparr>) hp) }"

text \<open>The search for the first free block of at least \<open>sz\<close> bytes.\<close>

partial_function (option) search_free :: "u32 \<Rightarrow> rt_memheap \<Rightarrow> item_ptr \<Rightarrow> u32 \<Rightarrow> (item_ptr \<times> u32) option" where
  "search_free sz hp p free_size =
     (if p \<noteq> free_list hp \<and> free_size < sz
      then do {
        free_size \<leftarrow> memitem_size p hp;
        if free_size < sz then do { n \<leftarrow> nfree_of hp p; search_free sz hp n free_size }
        else search_free sz hp p free_size }
      else Some (p, free_size))"

definition memheap_align :: "u32 \<Rightarrow> u32" where
  "memheap_align sz =
     (let sz = RT_ALIGN sz RT_ALIGN_SIZE in if sz < RT_MEMHEAP_MINIALLOC then RT_MEMHEAP_MINIALLOC else sz)"

text \<open>Taking \<open>sz\<close> of the \<open>free_size\<close> bytes of the free block at \<open>a\<close>.\<close>

definition memheap_carve :: "nat \<Rightarrow> u32 \<Rightarrow> u32 \<Rightarrow> nat \<Rightarrow> rt_memheap \<Rightarrow> rt_memheap option" where
  "memheap_carve h sz free_size a hp = do {
     let p = Item a;
     hp \<leftarrow>
       (if free_size \<ge> sz + RT_MEMHEAP_SIZE + RT_MEMHEAP_MINIALLOC
        then do {
          let new = Item (a + unat sz + unat RT_MEMHEAP_SIZE);
          hp \<leftarrow> split_block h p new hp;
          hp \<leftarrow> free_unlink p hp;
          let hp = set_pfree p None (set_nfree p None hp);
          hp \<leftarrow> free_insert new hp;
          Some (note_max_used (sub_available (sz + RT_MEMHEAP_SIZE) hp)) }
        else do {
          hp \<leftarrow> free_unlink p (note_max_used (sub_available free_size hp));
          Some (set_pfree p None (set_nfree p None hp)) });
     Some (set_magic p (magic_of hp p OR RT_MEMHEAP_USED) hp) }"

definition memheap_take :: "nat \<Rightarrow> u32 \<Rightarrow> rt_memheap \<Rightarrow> (nat option \<times> rt_memheap) option" where
  "memheap_take h sz hp = do {
     p \<leftarrow> nfree_of hp (free_list hp);
     (p, free_size) \<leftarrow> search_free sz hp p 0;
     if free_size \<ge> sz
     then (case p of
        Item a \<Rightarrow> do {
          hp \<leftarrow> memheap_carve h sz free_size a hp;
          Some (Some (a + unat RT_MEMHEAP_SIZE), hp) }
      | FreeHeader \<Rightarrow> None)
     else Some (None, hp) }"

text \<open>Merging the block \<open>p\<close> with the free block behind it.\<close>

definition merge_right :: "item_ptr \<Rightarrow> rt_memheap \<Rightarrow> rt_memheap option" where
  "merge_right p hp = do {
     q \<leftarrow> next_of hp p;
     n \<leftarrow> next_of hp q;
     let hp = set_prev n (Some p) hp;
     let hp = set_next p (next_of hp q) hp;
     free_unlink q hp }"

text \<open>Unlinking a block from the ring of the blocks.\<close>

definition block_unlink :: "item_ptr \<Rightarrow> rt_memheap \<Rightarrow> rt_memheap option" where
  "block_unlink p hp = do {
     v \<leftarrow> prev_of hp p;
     let hp = set_next v (next_of hp p) hp;
     n \<leftarrow> next_of hp p;
     Some (set_prev n (prev_of hp p) hp) }"

text \<open>Releasing a block: merging it into a free block before it, with the one behind it, or listing it.\<close>

definition merge_left :: "item_ptr \<Rightarrow> rt_memheap \<Rightarrow> (rt_memheap \<times> item_ptr \<times> bool) option" where
  "merge_left p hp = do {
     v \<leftarrow> prev_of hp p;
     if \<not> item_used hp v
     then do { hp \<leftarrow> block_unlink p (add_available RT_MEMHEAP_SIZE hp); Some (hp, v, False) }
     else Some (hp, p, True) }"

definition merge_next :: "item_ptr \<Rightarrow> rt_memheap \<Rightarrow> rt_memheap option" where
  "merge_next p hp = do {
     n \<leftarrow> next_of hp p;
     if \<not> item_used hp n then merge_right p (add_available RT_MEMHEAP_SIZE hp) else Some hp }"

definition memheap_put :: "item_ptr \<Rightarrow> rt_memheap \<Rightarrow> rt_memheap option" where
  "memheap_put p hp = do {
     let hp = set_magic p (magic_of hp p AND NOT RT_MEMHEAP_USED) hp;
     sz \<leftarrow> memitem_size p hp;
     (hp, p, insert_header) \<leftarrow> merge_left p (add_available sz hp);
     hp \<leftarrow> merge_next p hp;
     if insert_header then free_insert p hp else Some hp }"

text \<open>
  Growing the used block at \<open>a\<close> from \<open>oldsize\<close> into the free block behind it; the result tells
  whether there was room. A new block that does not lie in the memory of the heap is \<open>None\<close>: the
  code would write over whatever is there.
\<close>

definition memheap_grow :: "nat \<Rightarrow> nat \<Rightarrow> u32 \<Rightarrow> u32 \<Rightarrow> rt_memheap \<Rightarrow> (bool \<times> rt_memheap) option" where
  "memheap_grow h a oldsize newsize hp = do {
     q \<leftarrow> next_of hp (Item a);
     rt_assert (case q of Item b \<Rightarrow> b > a | FreeHeader \<Rightarrow> False);
     if \<not> item_used hp q
     then do {
       nextsize \<leftarrow> memitem_size q hp;
       if nextsize + oldsize > newsize + RT_MEMHEAP_MINIALLOC
       then do {
         let hp = note_max_used (sub_available (newsize - oldsize) hp);
         hp \<leftarrow> free_unlink q hp;
         n \<leftarrow> next_of hp q;
         let hp = set_prev n (prev_of hp q) hp;
         v \<leftarrow> prev_of hp q;
         let hp = set_next v (next_of hp q) hp;
         rt_assert (a + unat RT_MEMHEAP_SIZE + unat newsize + unat RT_MEMHEAP_SIZE \<le> unat (pool_size hp));
         let new = Item (a + unat RT_MEMHEAP_SIZE + unat newsize);
         hp \<leftarrow> split_block h (Item a) new hp;
         hp \<leftarrow> free_insert new hp;
         Some (True, hp) }
       else Some (False, hp) }
     else Some (False, hp) }"

definition absorb_next :: "item_ptr \<Rightarrow> rt_memheap \<Rightarrow> rt_memheap option" where
  "absorb_next p hp = do {
     q \<leftarrow> next_of hp p;
     if \<not> item_used hp q
     then do { sz \<leftarrow> memitem_size q hp; merge_right p (sub_available sz hp) }
     else Some hp }"

definition memheap_shrink :: "nat \<Rightarrow> nat \<Rightarrow> u32 \<Rightarrow> rt_memheap \<Rightarrow> rt_memheap option" where
  "memheap_shrink h a newsize hp = do {
     let new = Item (a + unat newsize + unat RT_MEMHEAP_SIZE);
     hp \<leftarrow> split_block h (Item a) new hp;
     hp \<leftarrow> absorb_next new hp;
     hp \<leftarrow> free_insert new hp;
     sz \<leftarrow> memitem_size new hp;
     Some (add_available sz hp) }"

section \<open>Doubly linked rings\<close>

fun links :: "('p \<Rightarrow> 'p option) \<Rightarrow> ('p \<Rightarrow> 'p option) \<Rightarrow> 'p list \<Rightarrow> bool" where
  "links nx pv (p # q # ps) \<longleftrightarrow> nx p = Some q \<and> pv q = Some p \<and> links nx pv (q # ps)"
| "links nx pv _ \<longleftrightarrow> True"

definition ring :: "('p \<Rightarrow> 'p option) \<Rightarrow> ('p \<Rightarrow> 'p option) \<Rightarrow> 'p list \<Rightarrow> bool" where
  "ring nx pv ps \<longleftrightarrow> distinct ps \<and> ps \<noteq> [] \<and> links nx pv (ps @ [hd ps])"

lemma links_append:
  "links nx pv (ps @ q # qs) \<longleftrightarrow> links nx pv (ps @ [q]) \<and> links nx pv (q # qs)"
proof (induction ps)
  case (Cons p ps)
  then show ?case by (cases ps) auto
qed simp

lemma links_upd:
  "p \<notin> set (butlast ps) \<Longrightarrow> links (nx(p := x)) pv ps = links nx pv ps"
  "p \<notin> set (tl ps) \<Longrightarrow> links nx (pv(p := x)) ps = links nx pv ps"
  by (induction nx pv ps rule: links.induct) auto

lemma ring_rotate: "ring nx pv (us @ vs) \<longleftrightarrow> ring nx pv (vs @ us)"
proof (cases "us = [] \<or> vs = []")
  case False
  then obtain u us' v vs' where "us = u # us'" "vs = v # vs'" by (auto simp: neq_Nil_conv)
  then show ?thesis
    using links_append [of nx pv "u # us'" v "vs' @ [u]"] links_append [of nx pv "v # vs'" u "us' @ [v]"]
    by (auto simp: ring_def)
qed auto

lemma ring_upd:
  assumes "p \<notin> set ps"
  shows "ring (nx(p := x)) pv ps = ring nx pv ps" "ring nx (pv(p := x)) ps = ring nx pv ps"
proof -
  have "p \<notin> set (butlast (ps @ [hd ps]))" using assms by simp
  moreover have "ps \<noteq> [] \<Longrightarrow> p \<notin> set (tl (ps @ [hd ps]))" using assms by (cases ps) auto
  ultimately show "ring (nx(p := x)) pv ps = ring nx pv ps" "ring nx (pv(p := x)) ps = ring nx pv ps"
    by (auto simp: ring_def links_upd)
qed

lemma ring_step:
  assumes "ring nx pv (us @ p # q # vs)"
  shows "nx p = Some q" "pv q = Some p"
proof -
  have "links nx pv (us @ p # q # vs @ [hd (us @ [p])])" using assms by (cases us) (auto simp: ring_def)
  then have "links nx pv (p # q # vs @ [hd (us @ [p])])" by (rule links_append [THEN iffD1, THEN conjunct2])
  then show "nx p = Some q" "pv q = Some p" by simp_all
qed

text \<open>Removing an element, and inserting one behind another.\<close>

lemma ring_delete:
  assumes "ring nx pv (us @ p # vs)" "us @ vs \<noteq> []"
  obtains u v where "nx p = Some v" "pv p = Some u" "u \<in> set (us @ vs)" "v \<in> set (us @ vs)"
    "ring (nx(u := Some v)) (pv(v := Some u)) (us @ vs)"
    "u = last (vs @ us)" "v = hd (vs @ us)"
proof -
  let ?zs = "vs @ us"
  have r: "ring nx pv (p # ?zs)" using assms(1) ring_rotate [of nx pv us "p # vs"] by simp
  obtain v zs where v: "?zs = v # zs" using assms(2) by (cases ?zs) auto
  obtain ys u where u: "?zs = ys @ [u]" using assms(2) by (cases ?zs rule: rev_cases) auto
  have l: "links nx pv (p # ?zs @ [p])" and d: "distinct (p # ?zs)" using r by (simp_all add: ring_def)
  have "links nx pv (p # v # zs @ [p])" using l v by simp
  then have n: "nx p = Some v" by simp
  have "links nx pv ((p # ys) @ u # [p])" using l u by simp
  then have q: "pv p = Some u" "links nx pv ((p # ys) @ [u])" by (subst (asm) links_append, simp)+
  have lz: "links nx pv (ys @ [u])" using q(2) by (cases ys) auto
  let ?n = "nx(u := Some v)" and ?p = "pv(v := Some u)"
  have "u \<notin> set (butlast (ys @ [u]))" using d u by auto
  moreover have "v \<notin> set (tl (ys @ [u]))" using d v u by (cases ys) auto
  ultimately have "links ?n ?p (ys @ [u])" using lz by (simp add: links_upd)
  moreover have "links ?n ?p (u # [v])" by simp
  ultimately have "links ?n ?p (?zs @ [v])"
    unfolding u using links_append [of ?n ?p ys u "[v]"] by simp
  then have "ring ?n ?p ?zs" using d v by (simp add: ring_def)
  then have "ring ?n ?p (us @ vs)" using ring_rotate by blast
  moreover have s: "set ?zs = set (us @ vs)" by auto
  have "u \<in> set (us @ vs)" unfolding s [symmetric] u by simp
  moreover have "v \<in> set (us @ vs)" unfolding s [symmetric] v by simp
  moreover have "u = last ?zs" unfolding u by simp
  moreover have "v = hd ?zs" unfolding v by simp
  ultimately show thesis using that n q(1) by blast
qed

lemma ring_insert:
  assumes "ring nx pv (us @ p # vs)" "x \<notin> set (us @ p # vs)"
  obtains v where "nx p = Some v" "v \<in> set (us @ p # vs)" "v = hd (vs @ us @ [p])"
    "ring (nx(p := Some x, x := Some v)) (pv(x := Some p, v := Some x)) (us @ p # x # vs)"
proof -
  let ?zs = "vs @ us"
  have r: "ring nx pv (p # ?zs)" using assms(1) ring_rotate [of nx pv us "p # vs"] by simp
  obtain v zs where v: "?zs @ [p] = v # zs" by (cases "?zs @ [p]") auto
  have l: "links nx pv (p # v # zs)" and d: "distinct (p # ?zs)" using r v by (simp_all add: ring_def)
  let ?n = "nx(p := Some x, x := Some v)" and ?p = "pv(x := Some p, v := Some x)"
  have zs: "set (v # zs) = set (?zs @ [p])" "butlast (v # zs) = ?zs" "distinct (v # zs)"
    using d unfolding v [symmetric] by (auto simp: butlast_append)
  have vx: "v \<noteq> x" using zs(1) assms(2) by auto
  have "links ?n ?p (v # zs)"
    using l zs assms(2) d by (simp add: links_upd del: butlast.simps) (auto simp: links_upd)
  then have "links ?n ?p (p # x # v # zs)" using vx assms(2) by auto
  then have "ring ?n ?p (p # x # ?zs)" using d assms(2) v by (auto simp: ring_def)
  then have "ring ?n ?p (us @ p # x # vs)" using ring_rotate [of ?n ?p us "p # x # vs"] by simp
  moreover have "v \<in> set (us @ p # vs)" using zs(1) by auto
  moreover have "v = hd (vs @ us @ [p])" using v by (metis append_assoc list.sel(1))
  ultimately show thesis using that l by simp
qed

section \<open>The steps as operations on the rings\<close>

text \<open>Only headers change.\<close>

definition headers_only :: "rt_memheap \<Rightarrow> rt_memheap \<Rightarrow> bool" where
  "headers_only hp hp' \<longleftrightarrow> hp' = hp\<lparr>heap_items := heap_items hp'\<rparr>"

lemma headers_onlyD:
  assumes "headers_only hp hp'"
  shows "pool_size hp' = pool_size hp" "available_size hp' = available_size hp" "max_used_size hp' = max_used_size hp"
    "free_list hp' = free_list hp" "heap_lock hp' = heap_lock hp" "heap_data hp' = heap_data hp"
proof -
  obtain f where f: "hp' = hp\<lparr>heap_items := f\<rparr>" using assms by (auto simp: headers_only_def)
  show "pool_size hp' = pool_size hp" "available_size hp' = available_size hp" "max_used_size hp' = max_used_size hp"
    "free_list hp' = free_list hp" "heap_lock hp' = heap_lock hp" "heap_data hp' = heap_data hp" by (simp_all add: f)
qed

lemma headers_only_update [simp]: "headers_only hp (item_update p f hp') \<longleftrightarrow> headers_only hp hp'"
  by (simp add: headers_only_def item_update_def) (metis (lifting) rt_memheap.surjective rt_memheap.update_convs(6))

lemma headers_only_refl [simp]: "headers_only hp hp"
  by (simp add: headers_only_def)

lemma headers_only_trans [trans]: "headers_only hp hp' \<Longrightarrow> headers_only hp' hp'' \<Longrightarrow> headers_only hp hp''"
  by (simp add: headers_only_def) (metis (lifting) rt_memheap.surjective rt_memheap.update_convs(6))

lemmas accessor_defs =
  magic_of_def pool_of_def next_of_def prev_of_def nfree_of_def pfree_of_def
lemmas setter_defs =
  set_magic_def set_pool_def set_next_def set_prev_def set_nfree_def set_pfree_def

lemma headers_only_set [simp]:
  "headers_only hp (set_magic p m hp') \<longleftrightarrow> headers_only hp hp'" "headers_only hp (set_pool p h hp') \<longleftrightarrow> headers_only hp hp'"
  "headers_only hp (set_next p q hp') \<longleftrightarrow> headers_only hp hp'" "headers_only hp (set_prev p q hp') \<longleftrightarrow> headers_only hp hp'"
  "headers_only hp (set_nfree p q hp') \<longleftrightarrow> headers_only hp hp'" "headers_only hp (set_pfree p q hp') \<longleftrightarrow> headers_only hp hp'"
  by (simp_all add: setter_defs)

lemma accessor_set [simp]:
  "magic_of (set_magic p m hp) = (magic_of hp)(p := m)" "magic_of (set_pool p h hp) = magic_of hp"
  "magic_of (set_next p x hp) = magic_of hp" "magic_of (set_prev p x hp) = magic_of hp"
  "magic_of (set_nfree p x hp) = magic_of hp" "magic_of (set_pfree p x hp) = magic_of hp"
  "pool_of (set_magic p m hp) = pool_of hp" "pool_of (set_pool p h hp) = (pool_of hp)(p := h)"
  "pool_of (set_next p x hp) = pool_of hp" "pool_of (set_prev p x hp) = pool_of hp"
  "pool_of (set_nfree p x hp) = pool_of hp" "pool_of (set_pfree p x hp) = pool_of hp"
  "next_of (set_magic p m hp) = next_of hp" "next_of (set_pool p h hp) = next_of hp"
  "next_of (set_next p x hp) = (next_of hp)(p := x)" "next_of (set_prev p x hp) = next_of hp"
  "next_of (set_nfree p x hp) = next_of hp" "next_of (set_pfree p x hp) = next_of hp"
  "prev_of (set_magic p m hp) = prev_of hp" "prev_of (set_pool p h hp) = prev_of hp"
  "prev_of (set_next p x hp) = prev_of hp" "prev_of (set_prev p x hp) = (prev_of hp)(p := x)"
  "prev_of (set_nfree p x hp) = prev_of hp" "prev_of (set_pfree p x hp) = prev_of hp"
  "nfree_of (set_magic p m hp) = nfree_of hp" "nfree_of (set_pool p h hp) = nfree_of hp"
  "nfree_of (set_next p x hp) = nfree_of hp" "nfree_of (set_prev p x hp) = nfree_of hp"
  "nfree_of (set_nfree p x hp) = (nfree_of hp)(p := x)" "nfree_of (set_pfree p x hp) = nfree_of hp"
  "pfree_of (set_magic p m hp) = pfree_of hp" "pfree_of (set_pool p h hp) = pfree_of hp"
  "pfree_of (set_next p x hp) = pfree_of hp" "pfree_of (set_prev p x hp) = pfree_of hp"
  "pfree_of (set_nfree p x hp) = pfree_of hp" "pfree_of (set_pfree p x hp) = (pfree_of hp)(p := x)"
  by (auto simp: accessor_defs setter_defs item_update_def fun_eq_iff)

lemma free_list_set [simp]:
  "free_list (set_magic p m hp) = free_list hp" "free_list (set_pool p h hp) = free_list hp"
  "free_list (set_next p q hp) = free_list hp" "free_list (set_prev p q hp) = free_list hp"
  "free_list (set_nfree p q hp) = free_list hp" "free_list (set_pfree p q hp) = free_list hp"
  "pool_size (set_magic p m hp) = pool_size hp" "pool_size (set_pool p h hp) = pool_size hp"
  "pool_size (set_next p q hp) = pool_size hp" "pool_size (set_prev p q hp) = pool_size hp"
  "pool_size (set_nfree p q hp) = pool_size hp" "pool_size (set_pfree p q hp) = pool_size hp"
  by (simp_all add: setter_defs item_update_def)

abbreviation block_ring :: "rt_memheap \<Rightarrow> item_ptr list \<Rightarrow> bool" where
  "block_ring hp \<equiv> ring (next_of hp) (prev_of hp)"

abbreviation free_ring :: "rt_memheap \<Rightarrow> item_ptr list \<Rightarrow> bool" where
  "free_ring hp \<equiv> ring (nfree_of hp) (pfree_of hp)"

definition same_blocks :: "rt_memheap \<Rightarrow> rt_memheap \<Rightarrow> bool" where
  "same_blocks hp hp' \<longleftrightarrow> next_of hp' = next_of hp \<and> prev_of hp' = prev_of hp \<and> magic_of hp' = magic_of hp \<and>
     pool_of hp' = pool_of hp"

definition same_free :: "rt_memheap \<Rightarrow> rt_memheap \<Rightarrow> bool" where
  "same_free hp hp' \<longleftrightarrow> nfree_of hp' = nfree_of hp \<and> pfree_of hp' = pfree_of hp"

lemma free_unlink_ring:
  assumes "free_ring hp (us @ p # vs)" "us @ vs \<noteq> []"
  obtains hp' where "free_unlink p hp = Some hp'" "free_ring hp' (us @ vs)" "same_blocks hp hp'" "headers_only hp hp'"
proof -
  obtain u v where uv: "nfree_of hp p = Some v" "pfree_of hp p = Some u" "u \<in> set (us @ vs)" "v \<in> set (us @ vs)"
    and r: "ring ((nfree_of hp)(u := Some v)) ((pfree_of hp)(v := Some u)) (us @ vs)"
    by (rule ring_delete [OF assms])
  have "p \<notin> set (us @ vs)" using assms(1) by (auto simp: ring_def)
  then have "v \<noteq> p" using uv(4) by auto
  show thesis
    by (rule that [of "set_nfree u (Some v) (set_pfree v (Some u) hp)"])
      (use uv r \<open>v \<noteq> p\<close> in \<open>simp_all add: free_unlink_def same_blocks_def\<close>)
qed

lemma free_insert_ring:
  assumes "free_list hp = FreeHeader" "free_ring hp (FreeHeader # ps)" "p \<notin> set (FreeHeader # ps)"
  obtains hp' where "free_insert p hp = Some hp'" "free_ring hp' (FreeHeader # p # ps)" "same_blocks hp hp'"
    "headers_only hp hp'"
proof -
  obtain v where v: "nfree_of hp FreeHeader = Some v" "v \<in> set (FreeHeader # ps)"
    and r: "ring ((nfree_of hp)(FreeHeader := Some p, p := Some v)) ((pfree_of hp)(p := Some FreeHeader, v := Some p))
      (FreeHeader # p # ps)"
    using assms(2,3)
    by (auto elim: ring_insert [where us = "[]" and p = FreeHeader and vs = ps and x = p, simplified])
  have "p \<noteq> FreeHeader" using assms(3) by auto
  then have r': "ring ((nfree_of hp)(p := Some v, FreeHeader := Some p)) ((pfree_of hp)(p := Some FreeHeader, v := Some p))
      (FreeHeader # p # ps)"
    using r by (simp add: fun_upd_twist)
  show thesis
    by (rule that [of "set_nfree FreeHeader (Some p) (set_pfree v (Some p) (set_pfree p (Some FreeHeader)
        (set_nfree p (Some v) hp)))"])
      (use v r' assms(1) \<open>p \<noteq> FreeHeader\<close> in \<open>simp_all add: free_insert_def Let_def same_blocks_def\<close>)
qed

lemma split_block_ring:
  assumes "block_ring hp (us @ p # vs)" "new \<notin> set (us @ p # vs)"
  obtains hp' where "split_block h p new hp = Some hp'" "block_ring hp' (us @ p # new # vs)"
    "magic_of hp' = (magic_of hp)(new := RT_MEMHEAP_MAGIC)" "pool_of hp' = (pool_of hp)(new := Some h)"
    "same_free hp hp'" "headers_only hp hp'"
proof -
  obtain v where v: "next_of hp p = Some v" "v \<in> set (us @ p # vs)"
    and r: "ring ((next_of hp)(p := Some new, new := Some v)) ((prev_of hp)(new := Some p, v := Some new))
      (us @ p # new # vs)"
    by (rule ring_insert [OF assms])
  have "p \<noteq> new" using assms(2) by auto
  then have r': "ring ((next_of hp)(new := Some v, p := Some new)) ((prev_of hp)(new := Some p, v := Some new))
      (us @ p # new # vs)"
    using r by (simp add: fun_upd_twist)
  show thesis
    by (rule that [of "set_next p (Some new) (set_prev v (Some new) (set_next new (Some v) (set_prev new (Some p)
        (set_pool new (Some h) (set_magic new RT_MEMHEAP_MAGIC hp)))))"])
      (use v r' \<open>p \<noteq> new\<close> in \<open>simp_all add: split_block_def Let_def same_free_def\<close>)
qed

lemma block_unlink_ring:
  assumes "block_ring hp (us @ p # vs)" "us @ vs \<noteq> []"
  obtains hp' where "block_unlink p hp = Some hp'" "block_ring hp' (us @ vs)"
    "magic_of hp' = magic_of hp" "pool_of hp' = pool_of hp" "same_free hp hp'" "headers_only hp hp'"
proof -
  obtain u v where uv: "next_of hp p = Some v" "prev_of hp p = Some u" "u \<in> set (us @ vs)" "v \<in> set (us @ vs)"
    and r: "ring ((next_of hp)(u := Some v)) ((prev_of hp)(v := Some u)) (us @ vs)"
    by (rule ring_delete [OF assms])
  have "p \<notin> set (us @ vs)" using assms(1) by (auto simp: ring_def)
  then have "u \<noteq> p" using uv(3) by auto
  show thesis
    by (rule that [of "set_prev v (Some u) (set_next u (Some v) hp)"])
      (use uv r \<open>u \<noteq> p\<close> in \<open>simp_all add: block_unlink_def same_free_def\<close>)
qed

lemma merge_right_ring:
  assumes "block_ring hp (us @ p # q # vs)" "free_ring hp (fs @ q # gs)" "fs @ gs \<noteq> []"
  obtains hp' where "merge_right p hp = Some hp'" "block_ring hp' (us @ p # vs)" "free_ring hp' (fs @ gs)"
    "magic_of hp' = magic_of hp" "pool_of hp' = pool_of hp" "headers_only hp hp'"
proof -
  obtain u v where uv: "next_of hp q = Some v" "u = last (vs @ us @ [p])"
    and r: "ring ((next_of hp)(u := Some v)) ((prev_of hp)(v := Some u)) ((us @ [p]) @ vs)"
    by (rule ring_delete [of "next_of hp" "prev_of hp" "us @ [p]" q vs]) (use assms(1) in auto)
  have u: "u = p" using uv(2) by simp
  have pq: "p \<noteq> q" using assms(1) by (auto simp: ring_def)
  have n: "next_of hp p = Some q" by (rule ring_step(1) [OF assms(1)])
  let ?hp = "set_next p (Some v) (set_prev v (Some p) hp)"
  have fr: "free_ring ?hp (fs @ q # gs)" using assms(2) by simp
  obtain hp' where "free_unlink q ?hp = Some hp'" "free_ring hp' (fs @ gs)" "same_blocks ?hp hp'" "headers_only ?hp hp'"
    by (rule free_unlink_ring [OF fr assms(3)])
  moreover have "headers_only hp ?hp" by simp
  ultimately show thesis
    using that [of hp'] uv(1) r u n headers_only_trans [of hp ?hp hp'] by (auto simp: merge_right_def same_blocks_def)
qed

section \<open>Layouts\<close>

text \<open>
  The specification of a heap: its blocks in address order, each with its offset, the bytes behind
  its header, and whether it is free.
\<close>

type_synonym layout = "(nat \<times> nat \<times> bool) list"

abbreviation room :: "nat \<times> nat \<times> bool \<Rightarrow> nat" where "room x \<equiv> fst (snd x)"
abbreviation is_free :: "nat \<times> nat \<times> bool \<Rightarrow> bool" where "is_free x \<equiv> snd (snd x)"

text \<open>The blocks fill the addresses from \<open>b\<close> to \<open>e\<close> without gap or overlap.\<close>

fun tiles :: "nat \<Rightarrow> layout \<Rightarrow> nat \<Rightarrow> bool" where
  "tiles b [] e \<longleftrightarrow> b = e"
| "tiles b ((a, n, f) # bs) e \<longleftrightarrow> a = b \<and> tiles (a + 24 + n) bs e"

definition free_total :: "layout \<Rightarrow> nat" where
  "free_total bs = sum_list (map room (filter is_free bs))"

definition frees :: "layout \<Rightarrow> nat set" where
  "frees bs = fst ` set (filter is_free bs)"

definition compact :: "layout \<Rightarrow> bool" where
  "compact bs = successively (\<lambda>x y. \<not> (is_free x \<and> is_free y)) bs"

fun coalesce :: "layout \<Rightarrow> layout" where
  "coalesce (x # y # bs) =
     (if is_free x \<and> is_free y then coalesce ((fst x, room x + 24 + room y, True) # bs) else x # coalesce (y # bs))"
| "coalesce bs = bs"

fun carve :: "nat \<Rightarrow> nat \<Rightarrow> layout \<Rightarrow> layout" where
  "carve p sz ((a, n, f) # bs) =
     (if a = p
      then (if n \<ge> sz + 36 then (a, sz, False) # (a + 24 + sz, n - 24 - sz, True) # bs else (a, n, False) # bs)
      else (a, n, f) # carve p sz bs)"
| "carve p sz [] = []"

definition release :: "nat \<Rightarrow> layout \<Rightarrow> layout" where
  "release p bs = map (\<lambda>(a, n, f). (a, n, if a = p then True else f)) bs"

lemma tiles_append: "tiles b (us @ vs) e \<longleftrightarrow> (\<exists>m. tiles b us m \<and> tiles m vs e)"
  by (induction b us e rule: tiles.induct) auto

lemma tiles_bounds:
  assumes "tiles b bs e"
  shows "b + free_total bs \<le> e" "(a, n, f) \<in> set bs \<Longrightarrow> b \<le> a \<and> a + 24 + n \<le> e"
proof -
  show "b + free_total bs \<le> e" using assms
    by (induction b bs e rule: tiles.induct) (auto simp: free_total_def)
  show "(a, n, f) \<in> set bs \<Longrightarrow> b \<le> a \<and> a + 24 + n \<le> e" using assms
  proof (induction b bs e rule: tiles.induct)
    case (2 b c m g bs e)
    have "k \<le> e" if "tiles k bs e" for k using that by (induction k bs e rule: tiles.induct) auto
    with 2 show ?case by fastforce
  qed simp
qed

lemma tiles_distinct:
  assumes "tiles b bs e"
  shows "distinct (map fst bs @ [e])"
  using assms
proof (induction b bs e rule: tiles.induct)
  case (2 b a n f bs e)
  then have t: "tiles (a + 24 + n) bs e" "distinct (map fst bs @ [e])" by auto
  have "a \<notin> fst ` set bs"
  proof
    assume "a \<in> fst ` set bs"
    then obtain m g where "(a, m, g) \<in> set bs" by auto
    with tiles_bounds(2) [OF t(1)] show False by fastforce
  qed
  moreover have "a \<noteq> e" using tiles_bounds(1) [OF t(1)] by simp
  ultimately show ?case using t(2) by simp
qed simp

lemma free_total_simps [simp]:
  "free_total [] = 0" "free_total ((a, n, f) # bs) = (if f then n else 0) + free_total bs"
  "free_total (us @ vs) = free_total us + free_total vs"
  by (simp_all add: free_total_def)

lemma frees_simps [simp]:
  "frees [] = {}" "frees ((a, n, f) # bs) = (if f then insert a (frees bs) else frees bs)"
  "frees (us @ vs) = frees us \<union> frees vs"
  by (auto simp: frees_def)

lemma frees_subset: "frees bs \<subseteq> fst ` set bs"
  by (auto simp: frees_def)

lemma compact_Nil [simp]: "compact []"
  by (simp add: compact_def)

lemma compact_append:
  "compact (us @ vs) \<longleftrightarrow> compact us \<and> compact vs \<and> (us = [] \<or> vs = [] \<or> \<not> (is_free (last us) \<and> is_free (hd vs)))"
  by (auto simp: compact_def successively_append_iff)

lemma compact_Cons:
  "compact (x # vs) \<longleftrightarrow> compact vs \<and> (vs = [] \<or> \<not> (is_free x \<and> is_free (hd vs)))"
  by (cases vs) (auto simp: compact_def)

lemma coalesce_compact: "compact bs \<Longrightarrow> coalesce bs = bs"
  by (induction bs rule: coalesce.induct) (auto simp: compact_Cons)

lemma coalesce_append:
  assumes "compact us" "us = [] \<or> \<not> is_free (last us)"
  shows "coalesce (us @ ws) = us @ coalesce ws"
  using assms
proof (induction us)
  case (Cons x us)
  show ?case
  proof (cases us)
    case Nil
    with Cons.prems have "\<not> is_free x" by simp
    then show ?thesis using Nil by (cases ws) simp_all
  next
    case (Cons y us')
    with Cons.IH Cons.prems show ?thesis by (auto simp: compact_Cons split: if_splits)
  qed
qed simp

lemma tiles_coalesce: "tiles b bs e \<Longrightarrow> tiles b (coalesce bs) e"
proof (induction bs arbitrary: b rule: coalesce.induct)
  case (1 x y bs)
  obtain a n f c m g where x: "x = (a, n, f)" "y = (c, m, g)" by (cases x, cases y) auto
  with 1(3) have t: "a = b" "c = a + 24 + n" "tiles (c + 24 + m) bs e" by auto
  have "tiles b ((a, n + 24 + m, True) # bs) e" using t by (simp add: ac_simps)
  moreover have "tiles (a + 24 + n) (y # bs) e" using t x by simp
  ultimately show ?case using 1(1,2) x t(1) by auto
qed simp_all

lemma release_at:
  assumes "a \<notin> fst ` set us" "a \<notin> fst ` set vs"
  shows "release a (us @ (a, n, f) # vs) = us @ (a, n, True) # vs"
  using assms by (force simp: release_def intro!: map_idI)

lemma carve_at:
  assumes "a \<notin> fst ` set us"
  shows "carve a sz (us @ (a, n, f) # vs) = us @ (if n \<ge> sz + 36
    then (a, sz, False) # (a + 24 + sz, n - 24 - sz, True) # vs else (a, n, False) # vs)"
  using assms by (induction us) auto

section \<open>The representation of a layout\<close>

definition block_magic :: "bool \<Rightarrow> u32" where
  "block_magic f = (if f then RT_MEMHEAP_MAGIC else RT_MEMHEAP_MAGIC OR RT_MEMHEAP_USED)"

abbreviation tail_of :: "rt_memheap \<Rightarrow> nat" where
  "tail_of hp \<equiv> unat (pool_size hp) - 24"

definition all_items :: "layout \<Rightarrow> nat \<Rightarrow> item_ptr list" where
  "all_items bs e = map (\<lambda>x. Item (fst x)) bs @ [Item e]"

text \<open>
  The headers of the blocks of \<open>bs\<close> are as they should be and the free ring has the blocks \<open>fs\<close>. In
  \<open>heap_rep\<close> these are the free ones, no two free blocks are neighbours, and the counters agree.
\<close>

definition heap_shape :: "nat \<Rightarrow> rt_memheap \<Rightarrow> layout \<Rightarrow> nat list \<Rightarrow> bool" where
  "heap_shape h hp bs fs \<longleftrightarrow>
     24 \<le> unat (pool_size hp) \<and> tiles 0 bs (tail_of hp) \<and> block_ring hp (all_items bs (tail_of hp)) \<and>
     free_list hp = FreeHeader \<and> free_ring hp (FreeHeader # map Item fs) \<and>
     (\<forall>(a, n, f)\<in>set bs. magic_of hp (Item a) = block_magic f \<and> pool_of hp (Item a) = Some h) \<and>
     magic_of hp (Item (tail_of hp)) = block_magic False"

definition heap_rep :: "nat \<Rightarrow> rt_memheap \<Rightarrow> layout \<Rightarrow> nat list \<Rightarrow> bool" where
  "heap_rep h hp bs fs \<longleftrightarrow> heap_shape h hp bs fs \<and> compact bs \<and> set fs = frees bs \<and>
     unat (available_size hp) = free_total bs \<and> pool_size hp - available_size hp \<le> max_used_size hp"

lemma block_magic_simps [simp]:
  "block_magic f AND RT_MEMHEAP_USED = (if f then 0 else 1)"
  "block_magic f OR RT_MEMHEAP_USED = block_magic False"
  "block_magic f AND NOT RT_MEMHEAP_USED = block_magic True" "block_magic True = RT_MEMHEAP_MAGIC"
  "block_magic f AND RT_MEMHEAP_MASK = RT_MEMHEAP_MAGIC"
  "RT_MEMHEAP_MAGIC OR RT_MEMHEAP_USED = block_magic False" "RT_MEMHEAP_MAGIC AND RT_MEMHEAP_USED = 0"
  by (simp_all add: block_magic_def RT_MEMHEAP_MAGIC_def RT_MEMHEAP_USED_def RT_MEMHEAP_MASK_def)

lemma item_used_magic: "magic_of hp p = block_magic f \<Longrightarrow> item_used hp p \<longleftrightarrow> \<not> f"
  by (simp add: item_used_def)

lemma heap_shapeD:
  assumes "heap_shape h hp bs fs"
  shows "tiles 0 bs (tail_of hp)" "block_ring hp (all_items bs (tail_of hp))"
    "free_list hp = FreeHeader" "free_ring hp (FreeHeader # map Item fs)"
    "magic_of hp (Item (tail_of hp)) = block_magic False" "24 \<le> unat (pool_size hp)"
    "(a, n, f) \<in> set bs \<Longrightarrow> magic_of hp (Item a) = block_magic f \<and> pool_of hp (Item a) = Some h"
  using assms by (auto simp: heap_shape_def)

lemma heap_repD:
  assumes "heap_rep h hp bs fs"
  shows "heap_shape h hp bs fs" "compact bs" "set fs = frees bs"
    "unat (available_size hp) = free_total bs" "pool_size hp - available_size hp \<le> max_used_size hp"
  using assms by (auto simp: heap_rep_def)

text \<open>The block behind a block, and the one before it.\<close>

lemma all_items_next:
  assumes "tiles b (us @ (a, n, f) # vs) e"
  obtains Y where "all_items vs e = Item (a + 24 + n) # Y"
proof -
  from assms have "tiles (a + 24 + n) vs e" by (auto simp: tiles_append)
  then show thesis by (cases vs) (auto simp: all_items_def intro: that)
qed

lemma all_items_split:
  "all_items (us @ x # vs) e = map (\<lambda>x. Item (fst x)) us @ Item (fst x) # all_items vs e"
  by (simp add: all_items_def)

lemma heap_shape_next:
  assumes "heap_shape h hp (us @ (a, n, f) # vs) fs"
  shows "next_of hp (Item a) = Some (Item (a + 24 + n))" "memitem_size (Item a) hp = Some (of_nat n)"
    "prev_of hp (Item a) = Some (if us = [] then Item (tail_of hp) else Item (fst (last us)))"
proof -
  note d = heap_shapeD [OF assms]
  let ?U = "map (\<lambda>x. Item (fst x)) us"
  obtain Y where Y: "all_items vs (tail_of hp) = Item (a + 24 + n) # Y" by (rule all_items_next [OF d(1)])
  have r: "block_ring hp (?U @ Item a # Item (a + 24 + n) # Y)" using d(2) by (simp add: all_items_split Y)
  show n: "next_of hp (Item a) = Some (Item (a + 24 + n))" by (rule ring_step(1) [OF r])
  then show "memitem_size (Item a) hp = Some (of_nat n)" by (simp add: memitem_size_def RT_MEMHEAP_SIZE_def)
  show "prev_of hp (Item a) = Some (if us = [] then Item (tail_of hp) else Item (fst (last us)))"
  proof (cases us rule: rev_cases)
    case Nil
    then have "block_ring hp ((Item a # map (\<lambda>x. Item (fst x)) vs) @ [Item (tail_of hp)])"
      using d(2) by (simp add: all_items_def)
    then have "block_ring hp ([] @ Item (tail_of hp) # Item a # map (\<lambda>x. Item (fst x)) vs)"
      by (subst (asm) ring_rotate) simp
    from ring_step(2) [OF this] Nil show ?thesis by simp
  next
    case (snoc us' x)
    then have "block_ring hp (map (\<lambda>x. Item (fst x)) us' @ Item (fst x) # Item a # all_items vs (tail_of hp))"
      using d(2) by (simp add: all_items_def)
    from ring_step(2) [OF this] snoc show ?thesis by simp
  qed
qed

lemma heap_shape_bounds:
  assumes "heap_shape h hp bs fs" "(a, n, f) \<in> set bs"
  shows "a + 24 + n \<le> tail_of hp" "n < 2 ^ 32" "unat (of_nat n :: u32) = n" "n + 48 < 2 ^ 32"
proof -
  show "a + 24 + n \<le> tail_of hp" using tiles_bounds(2) [OF heap_shapeD(1) [OF assms(1)] assms(2)] by simp
  moreover have "unat (pool_size hp) < 2 ^ LENGTH(32)" by (rule unsigned_less)
  moreover have "24 \<le> unat (pool_size hp)" by (rule heap_shapeD(6) [OF assms(1)])
  ultimately show "n < 2 ^ 32" "n + 48 < 2 ^ 32" by simp_all
  then show "unat (of_nat n :: u32) = n" by (simp add: unat_of_nat32)
qed

lemma heap_shape_distinct:
  assumes "heap_shape h hp bs fs"
  shows "distinct (map fst bs)" "tail_of hp \<notin> fst ` set bs" "distinct fs"
    "Item a \<in> set (all_items bs (tail_of hp)) \<longleftrightarrow> a \<in> fst ` set bs \<or> a = tail_of hp"
  using tiles_distinct [OF heap_shapeD(1) [OF assms]] heap_shapeD(4) [OF assms]
  by (auto simp: ring_def all_items_def distinct_map)

text \<open>The block behind a block is the tailer or a block that is free or not.\<close>

lemma heap_shape_is_used:
  assumes "heap_shape h hp (us @ (a, n, f) # vs) fs"
  shows "item_used hp (Item (a + 24 + n)) \<longleftrightarrow> (vs = [] \<or> \<not> is_free (hd vs))"
proof (cases vs)
  case Nil
  then have "a + 24 + n = tail_of hp" using heap_shapeD(1) [OF assms] by (auto simp: tiles_append)
  then show ?thesis using Nil item_used_magic [OF heap_shapeD(5) [OF assms]] by simp
next
  case (Cons x ws)
  obtain b m g where x: "x = (b, m, g)" by (cases x)
  with Cons have "b = a + 24 + n" using heap_shapeD(1) [OF assms] by (auto simp: tiles_append)
  moreover have "magic_of hp (Item b) = block_magic g"
    using heap_shapeD(7) [OF assms, of b m g] by (simp add: Cons x)
  ultimately show ?thesis using Cons x item_used_magic by simp
qed

lemma heap_shape_prev_used:
  assumes "heap_shape h hp (us @ (a, n, f) # vs) fs" "prev_of hp (Item a) = Some v"
  shows "item_used hp v \<longleftrightarrow> (us = [] \<or> \<not> is_free (last us))"
proof (cases us rule: rev_cases)
  case Nil
  then show ?thesis
    using heap_shape_next(3) [OF assms(1)] assms(2) item_used_magic [OF heap_shapeD(5) [OF assms(1)]] by simp
next
  case (snoc us' x)
  obtain b m g where x: "x = (b, m, g)" by (cases x)
  then have "magic_of hp (Item b) = block_magic g"
    using heap_shapeD(7) [OF assms(1), of b m g] by (simp add: snoc x)
  then show ?thesis
    using heap_shape_next(3) [OF assms(1)] assms(2) item_used_magic snoc x by auto
qed

section \<open>The steps on layouts\<close>

text \<open>What does not change outside of the headers and counters.\<close>

definition same_memory :: "rt_memheap \<Rightarrow> rt_memheap \<Rightarrow> bool" where
  "same_memory hp hp' \<longleftrightarrow> pool_size hp' = pool_size hp \<and> heap_data hp' = heap_data hp \<and> heap_lock hp' = heap_lock hp"

lemma same_memory_simps [simp]:
  "same_memory hp hp" "same_memory hp (sub_available k hp') \<longleftrightarrow> same_memory hp hp'"
  "same_memory hp (add_available k hp') \<longleftrightarrow> same_memory hp hp'" "same_memory hp (note_max_used hp') \<longleftrightarrow> same_memory hp hp'"
  "same_memory hp (item_update p f hp') \<longleftrightarrow> same_memory hp hp'" "headers_only hp hp' \<Longrightarrow> same_memory hp hp'"
  by (simp_all add: same_memory_def sub_available_def add_available_def note_max_used_def item_update_def headers_onlyD)

lemma same_memory_trans [trans]: "same_memory hp hp' \<Longrightarrow> same_memory hp' hp'' \<Longrightarrow> same_memory hp hp''"
  by (simp add: same_memory_def)

lemma counter_simps [simp]:
  "magic_of (sub_available n hp) = magic_of hp" "pool_of (sub_available n hp) = pool_of hp"
  "next_of (sub_available n hp) = next_of hp" "prev_of (sub_available n hp) = prev_of hp"
  "nfree_of (sub_available n hp) = nfree_of hp" "pfree_of (sub_available n hp) = pfree_of hp"
  "magic_of (add_available n hp) = magic_of hp" "pool_of (add_available n hp) = pool_of hp"
  "next_of (add_available n hp) = next_of hp" "prev_of (add_available n hp) = prev_of hp"
  "nfree_of (add_available n hp) = nfree_of hp" "pfree_of (add_available n hp) = pfree_of hp"
  "magic_of (note_max_used hp) = magic_of hp" "pool_of (note_max_used hp) = pool_of hp"
  "next_of (note_max_used hp) = next_of hp" "prev_of (note_max_used hp) = prev_of hp"
  "nfree_of (note_max_used hp) = nfree_of hp" "pfree_of (note_max_used hp) = pfree_of hp"
  by (simp_all add: accessor_defs sub_available_def add_available_def note_max_used_def fun_eq_iff)

lemma counter_fields [simp]:
  "pool_size (sub_available n hp) = pool_size hp" "free_list (sub_available n hp) = free_list hp"
  "available_size (sub_available n hp) = available_size hp - n" "max_used_size (sub_available n hp) = max_used_size hp"
  "pool_size (add_available n hp) = pool_size hp" "free_list (add_available n hp) = free_list hp"
  "available_size (add_available n hp) = available_size hp + n" "max_used_size (add_available n hp) = max_used_size hp"
  "pool_size (note_max_used hp) = pool_size hp" "free_list (note_max_used hp) = free_list hp"
  "available_size (note_max_used hp) = available_size hp"
  by (simp_all add: sub_available_def add_available_def note_max_used_def)

lemma note_max_used_bound [simp]: "pool_size hp - available_size hp \<le> max_used_size (note_max_used hp)"
  by (simp add: note_max_used_def linorder_not_less)

lemma shape_counters [simp]:
  "heap_shape h (sub_available k hp) bs fs = heap_shape h hp bs fs"
  "heap_shape h (add_available k hp) bs fs = heap_shape h hp bs fs"
  "heap_shape h (note_max_used hp) bs fs = heap_shape h hp bs fs"
  by (simp_all add: heap_shape_def)

lemma shape_mark:
  assumes "heap_shape h hp (us @ (a, n, f) # vs) fs"
  shows "heap_shape h (set_magic (Item a) (block_magic g) hp) (us @ (a, n, g) # vs) fs"
proof -
  note d = heap_shapeD [OF assms] and dis = heap_shape_distinct [OF assms]
  have "b \<noteq> a" if "(b, m, k) \<in> set (us @ vs)" for b m k
    using that dis(1) by (auto simp: rev_image_eqI)
  moreover have "a \<noteq> tail_of hp" using dis(2) by auto
  moreover have "tiles 0 (us @ (a, n, g) # vs) (tail_of hp)" using d(1) by (auto simp: tiles_append)
  ultimately show ?thesis
    using assms by (simp add: heap_shape_def all_items_split) (auto split: prod.splits)
qed

lemma shape_remove:
  assumes "heap_shape h hp bs (ps @ a # qs)"
  obtains hp' where "free_unlink (Item a) hp = Some hp'" "heap_shape h hp' bs (ps @ qs)" "headers_only hp hp'"
proof -
  note d = heap_shapeD [OF assms]
  have "free_ring hp ((FreeHeader # map Item ps) @ Item a # map Item qs)" using d(4) by simp
  then obtain hp' where hp': "free_unlink (Item a) hp = Some hp'" "free_ring hp' ((FreeHeader # map Item ps) @ map Item qs)"
    "same_blocks hp hp'" "headers_only hp hp'" by (rule free_unlink_ring) simp
  have "heap_shape h hp' bs (ps @ qs)"
    using assms hp'(2,3) by (simp add: heap_shape_def headers_onlyD [OF hp'(4)] same_blocks_def)
  then show thesis using that hp' by blast
qed

lemma shape_insert:
  assumes "heap_shape h hp bs fs" "a \<notin> set fs"
  obtains hp' where "free_insert (Item a) hp = Some hp'" "heap_shape h hp' bs (a # fs)" "headers_only hp hp'"
proof -
  note d = heap_shapeD [OF assms(1)]
  have "Item a \<notin> set (FreeHeader # map Item fs)" using assms(2) by auto
  then obtain hp' where hp': "free_insert (Item a) hp = Some hp'" "free_ring hp' (FreeHeader # Item a # map Item fs)"
    "same_blocks hp hp'" "headers_only hp hp'" by (rule free_insert_ring [OF d(3,4)])
  have "heap_shape h hp' bs (a # fs)"
    using assms(1) hp'(2,3) by (simp add: heap_shape_def headers_onlyD [OF hp'(4)] same_blocks_def)
  then show thesis using that hp' by blast
qed

lemma shape_null:
  assumes "heap_shape h hp bs fs" "a \<notin> set fs"
  shows "heap_shape h (set_pfree (Item a) None (set_nfree (Item a) None hp)) bs fs"
proof -
  have "Item a \<notin> set (FreeHeader # map Item fs)" using assms(2) by auto
  note upd = ring_upd [OF this]
  have "headers_only hp (set_pfree (Item a) None (set_nfree (Item a) None hp))" by simp
  then show ?thesis using assms(1) by (simp add: heap_shape_def upd headers_onlyD)
qed

lemma shape_split:
  assumes sh: "heap_shape h hp (us @ (a, n, f) # vs) fs" and k: "k + 24 \<le> n"
  obtains hp' where "split_block h (Item a) (Item (a + 24 + k)) hp = Some hp'" "headers_only hp hp'"
    "heap_shape h hp' (us @ (a, k, f) # (a + 24 + k, n - 24 - k, True) # vs) fs"
    "a + 24 + k \<notin> fst ` set (us @ (a, n, f) # vs)"
proof -
  let ?bs = "us @ (a, n, f) # vs" and ?b = "a + 24 + k" and ?e = "tail_of hp"
  let ?new = "us @ (a, k, f) # (?b, n - 24 - k, True) # vs"
  note d = heap_shapeD [OF sh]
  have t: "tiles 0 ?new ?e" using d(1) k by (auto simp: tiles_append ac_simps)
  have b: "?b \<notin> fst ` set ?bs" "?b \<noteq> ?e" using tiles_distinct [OF t] by auto
  have "block_ring hp (map (\<lambda>x. Item (fst x)) us @ Item a # all_items vs ?e)" using d(2) by (simp add: all_items_split)
  moreover have "Item ?b \<notin> set (map (\<lambda>x. Item (fst x)) us @ Item a # all_items vs ?e)"
    using b by (auto simp: all_items_def)
  ultimately obtain hp' where hp': "split_block h (Item a) (Item ?b) hp = Some hp'"
    "block_ring hp' (map (\<lambda>x. Item (fst x)) us @ Item a # Item ?b # all_items vs ?e)"
    "magic_of hp' = (magic_of hp)(Item ?b := RT_MEMHEAP_MAGIC)"
    "pool_of hp' = (pool_of hp)(Item ?b := Some h)" "same_free hp hp'" "headers_only hp hp'"
    by (rule split_block_ring)
  have "magic_of hp' (Item c) = block_magic g \<and> pool_of hp' (Item c) = Some h" if "(c, m, g) \<in> set ?new" for c m g
  proof -
    from that consider "c = ?b" g | m' where "(c, m', g) \<in> set ?bs" by auto
    then show ?thesis
    proof cases
      case (2 m')
      then have "c \<noteq> ?b" using b(1) by (metis fst_conv rev_image_eqI)
      with d(7) [OF 2] show ?thesis by (simp add: hp'(3,4))
    qed (simp add: hp'(3,4))
  qed
  then have "\<forall>(c, m, g)\<in>set ?new. magic_of hp' (Item c) = block_magic g \<and> pool_of hp' (Item c) = Some h" by blast
  moreover have "block_ring hp' (all_items ?new ?e)" using hp'(2) by (simp add: all_items_def)
  moreover have "magic_of hp' (Item ?e) = block_magic False" using d(5) b(2) by (simp add: hp'(3))
  ultimately have "heap_shape h hp' ?new fs"
    using d(3,4,6) t unfolding heap_shape_def headers_onlyD [OF hp'(6)] hp'(5) [unfolded same_free_def, THEN conjunct1]
      hp'(5) [unfolded same_free_def, THEN conjunct2]
    by - (intro conjI; assumption)
  then show thesis using that hp'(1,6) b(1) by blast
qed

lemma shape_join:
  assumes "heap_shape h hp (us @ (a, n, f) # (b, m, g) # vs) fs" "block_ring hp' (all_items (us @ (a, n + 24 + m, f) # vs) (tail_of hp))"
    "magic_of hp' = magic_of hp" "pool_of hp' = pool_of hp" "headers_only hp hp'" "free_ring hp' (FreeHeader # map Item fs')"
  shows "heap_shape h hp' (us @ (a, n + 24 + m, f) # vs) fs'"
proof -
  note d = heap_shapeD [OF assms(1)]
  have "tiles 0 (us @ (a, n + 24 + m, f) # vs) (tail_of hp)" using d(1) by (auto simp: tiles_append ac_simps)
  moreover have "magic_of hp (Item c) = block_magic k \<and> pool_of hp (Item c) = Some h"
    if "(c, l, k) \<in> set (us @ (a, n + 24 + m, f) # vs)" for c l k
    using that d(7) [of c l k] d(7) [of a n f] by auto
  ultimately show ?thesis
    using d(3,5,6) assms(2-4,6) unfolding heap_shape_def headers_onlyD [OF assms(5)] by auto
qed

lemma shape_merge_right:
  assumes sh: "heap_shape h hp (us @ (a, n, f) # (b, m, g) # vs) (ps @ b # qs)"
  obtains hp' where "merge_right (Item a) hp = Some hp'" "headers_only hp hp'"
    "heap_shape h hp' (us @ (a, n + 24 + m, f) # vs) (ps @ qs)"
proof -
  note d = heap_shapeD [OF sh]
  have "block_ring hp (map (\<lambda>x. Item (fst x)) us @ Item a # Item b # all_items vs (tail_of hp))"
    using d(2) by (simp add: all_items_def)
  moreover have "free_ring hp ((FreeHeader # map Item ps) @ Item b # map Item qs)" using d(4) by simp
  ultimately obtain hp' where hp': "merge_right (Item a) hp = Some hp'"
    "block_ring hp' (map (\<lambda>x. Item (fst x)) us @ Item a # all_items vs (tail_of hp))"
    "free_ring hp' ((FreeHeader # map Item ps) @ map Item qs)"
    "magic_of hp' = magic_of hp" "pool_of hp' = pool_of hp" "headers_only hp hp'"
    by (rule merge_right_ring) simp
  have "heap_shape h hp' (us @ (a, n + 24 + m, f) # vs) (ps @ qs)"
    by (rule shape_join [OF sh]) (use hp' in \<open>simp_all add: all_items_split\<close>)
  then show thesis using that hp' by blast
qed

lemma shape_unlink:
  assumes sh: "heap_shape h hp (us @ (b, m, g) # (a, n, f) # vs) fs"
  obtains hp' where "block_unlink (Item a) hp = Some hp'" "headers_only hp hp'"
    "heap_shape h hp' (us @ (b, m + 24 + n, g) # vs) fs"
proof -
  note d = heap_shapeD [OF sh]
  have "block_ring hp ((map (\<lambda>x. Item (fst x)) us @ [Item b]) @ Item a # all_items vs (tail_of hp))"
    using d(2) by (simp add: all_items_def)
  then obtain hp' where hp': "block_unlink (Item a) hp = Some hp'"
    "block_ring hp' ((map (\<lambda>x. Item (fst x)) us @ [Item b]) @ all_items vs (tail_of hp))"
    "magic_of hp' = magic_of hp" "pool_of hp' = pool_of hp" "same_free hp hp'" "headers_only hp hp'"
    by (rule block_unlink_ring) simp
  have "heap_shape h hp' (us @ (b, m + 24 + n, g) # vs) fs"
    by (rule shape_join [OF sh]) (use hp' d(4) in \<open>simp_all add: all_items_split same_free_def\<close>)
  then show thesis using that hp' by blast
qed

end
