(* ===== verification/RTT_HeapRep.thy ===== *)
theory RTT_HeapRep
  imports RTT_HeapBlocks
begin

text \<open>
  The operations on the blocks of a heap refine operations on layouts: an allocation carves the block
  it found, a release frees the block and coalesces free neighbours, a block grows into the free
  block behind it or shrinks in place.
\<close>

section \<open>Allocation\<close>

lemma heap_rep_free:
  assumes "heap_rep h hp bs fs" "g \<in> set fs"
  obtains n where "(g, n, True) \<in> set bs"
  using assms(2) heap_repD(3) [OF assms(1)] by (force simp: frees_def)

lemma free_ring_start:
  assumes "heap_rep h hp bs fs"
  shows "nfree_of hp (free_list hp) = Some (hd (map Item fs @ [FreeHeader]))"
    "links (nfree_of hp) (pfree_of hp) (map Item fs @ [FreeHeader])"
  using heap_shapeD(3,4) [OF heap_repD(1) [OF assms]] by (cases fs; simp add: ring_def)+

lemma search_free_finds:
  assumes rep: "heap_rep h hp bs fs"
  obtains p f where "search_free sz hp (hd (map Item fs @ [FreeHeader])) cur = Some (p, f)"
    "f < sz \<Longrightarrow> p = FreeHeader \<and> (\<forall>a n. (a, n, True) \<in> set bs \<longrightarrow> n < unat sz)"
    "\<not> f < sz \<Longrightarrow> cur < sz \<Longrightarrow> \<exists>a n. p = Item a \<and> (a, n, True) \<in> set bs \<and> f = of_nat n \<and> unat sz \<le> n"
proof (cases "cur < sz")
  case False
  have "search_free sz hp (hd (map Item fs @ [FreeHeader])) cur = Some (hd (map Item fs @ [FreeHeader]), cur)"
    using False by (subst search_free.simps) simp
  then show thesis using False that by blast
next
  case cur: True
  have "\<exists>p f. search_free sz hp (hd (map Item gs @ [FreeHeader])) cur = Some (p, f) \<and>
      (f < sz \<longrightarrow> p = FreeHeader \<and> (\<forall>a\<in>set gs. \<forall>n. (a, n, True) \<in> set bs \<longrightarrow> n < unat sz)) \<and>
      (\<not> f < sz \<longrightarrow> (\<exists>a n. p = Item a \<and> (a, n, True) \<in> set bs \<and> f = of_nat n \<and> unat sz \<le> n))"
    if "links (nfree_of hp) (pfree_of hp) (map Item gs @ [FreeHeader])" "set gs \<subseteq> set fs" for gs
    using that cur
  proof (induction gs arbitrary: cur)
    case Nil
    then show ?case using heap_shapeD(3) [OF heap_repD(1) [OF rep]] by (subst search_free.simps) auto
  next
    case (Cons g gs)
    obtain n where n: "(g, n, True) \<in> set bs" by (rule heap_rep_free [OF rep, of g]) (use Cons.prems in auto)
    obtain us vs where bs: "bs = us @ (g, n, True) # vs" using n by (meson split_list)
    have sz: "memitem_size (Item g) hp = Some (of_nat n)" using heap_shape_next(2) [of h hp us g n True vs fs] heap_repD(1) [OF rep] bs by simp
    have un: "unat (of_nat n :: u32) = n" by (rule heap_shape_bounds(3) [OF heap_repD(1) [OF rep] n])
    have inj: "m = n" if "(g, m, True) \<in> set bs" for m
      using heap_shape_distinct(1) [OF heap_repD(1) [OF rep]] n that by (auto dest: eq_key_imp_eq_value)
    have l: "links (nfree_of hp) (pfree_of hp) (map Item gs @ [FreeHeader])"
      and nx: "nfree_of hp (Item g) = Some (hd (map Item gs @ [FreeHeader]))"
      using Cons.prems(1) by (cases gs; simp)+
    show ?case
    proof (cases "(of_nat n :: u32) < sz")
      case True
      then have step: "search_free sz hp (Item g) cur = search_free sz hp (hd (map Item gs @ [FreeHeader])) (of_nat n)"
        using Cons.prems(3) heap_shapeD(3) [OF heap_repD(1) [OF rep]] sz nx by (subst search_free.simps) simp
      have "n < unat sz" using True un by (simp add: word_less_nat_alt)
      then show ?thesis
        using Cons.IH [OF l _ True] Cons.prems(2) inj unfolding list.map append.simps list.sel step by auto
    next
      case False
      have "search_free sz hp (Item g) (of_nat n) = Some (Item g, of_nat n)"
        using False by (subst search_free.simps) simp
      then have step: "search_free sz hp (Item g) cur = Some (Item g, of_nat n)"
        using False Cons.prems(3) heap_shapeD(3) [OF heap_repD(1) [OF rep]] sz by (subst search_free.simps) simp
      have "unat sz \<le> n" using False un by (simp add: word_less_nat_alt)
      then show ?thesis using step n False by auto
    qed
  qed
  from this [OF free_ring_start(2) [OF rep]] obtain p f where
    s: "search_free sz hp (hd (map Item fs @ [FreeHeader])) cur = Some (p, f)"
    "f < sz \<longrightarrow> p = FreeHeader \<and> (\<forall>a\<in>set fs. \<forall>n. (a, n, True) \<in> set bs \<longrightarrow> n < unat sz)"
    "\<not> f < sz \<longrightarrow> (\<exists>a n. p = Item a \<and> (a, n, True) \<in> set bs \<and> f = of_nat n \<and> unat sz \<le> n)"
    by blast
  have "a \<in> set fs" if "(a, n, True) \<in> set bs" for a n
    using that heap_repD(3) [OF rep] by (force simp: frees_def)
  with s show thesis using that by blast
qed

lemma unat_heap_size: "unat RT_MEMHEAP_SIZE = 24"
  by (simp add: RT_MEMHEAP_SIZE_def)

lemma rep_take_out:
  assumes "heap_rep h hp (us @ (a, n, True) # vs) fs"
  obtains ps qs where "fs = ps @ a # qs" "a \<notin> set (ps @ qs)" "set (ps @ qs) = frees us \<union> frees vs"
    "a \<notin> fst ` set us" "a \<notin> fst ` set vs"
proof -
  have s: "set fs = insert a (frees us \<union> frees vs)" using heap_repD(3) [OF assms] by simp
  then obtain ps qs where fs: "fs = ps @ a # qs" using split_list [of a fs] by blast
  have "distinct fs" "distinct (map fst (us @ (a, n, True) # vs))"
    using heap_shape_distinct [OF heap_repD(1) [OF assms]] by simp_all
  then have n: "a \<notin> set (ps @ qs)" "a \<notin> fst ` set us" "a \<notin> fst ` set vs" using fs by auto
  then have "a \<notin> frees us \<union> frees vs" using frees_subset [of us] frees_subset [of vs] by blast
  then have "set (ps @ qs) = frees us \<union> frees vs"
    using s fs n insert_ident [of a "set (ps @ qs)" "frees us \<union> frees vs"] by simp
  then show thesis using that fs n by blast
qed

lemma shape_used:
  assumes "heap_shape h hp (us @ (a, n, True) # vs) fs"
  shows "heap_shape h (set_magic (Item a) (magic_of hp (Item a) OR RT_MEMHEAP_USED) hp) (us @ (a, n, False) # vs) fs"
  using shape_mark [OF assms, of False] heap_shapeD(7) [OF assms, of a n True] by simp

lemma magic_counters [simp]:
  "available_size (set_magic p m hp) = available_size hp" "max_used_size (set_magic p m hp) = max_used_size hp"
  "available_size (set_nfree p q hp) = available_size hp" "max_used_size (set_nfree p q hp) = max_used_size hp"
  "available_size (set_pfree p q hp) = available_size hp" "max_used_size (set_pfree p q hp) = max_used_size hp"
  "same_memory hp' (set_magic p m hp) = same_memory hp' hp" "same_memory hp' (set_nfree p q hp) = same_memory hp' hp"
  "same_memory hp' (set_pfree p q hp) = same_memory hp' hp"
  by (simp_all add: setter_defs) (simp_all add: item_update_def)

lemma memheap_carve_rep:
  assumes rep: "heap_rep h hp bs fs" and a: "(a, n, True) \<in> set bs" and sz: "unat sz \<le> n"
  obtains hp' fs' where "memheap_carve h sz (of_nat n) a hp = Some hp'"
    "heap_rep h hp' (carve a (unat sz) bs) fs'" "same_memory hp hp'"
proof -
  obtain us vs where bs: "bs = us @ (a, n, True) # vs" using a by (meson split_list)
  note d = heap_repD [OF rep [unfolded bs]] and sh = heap_repD(1) [OF rep [unfolded bs]]
  note bd = heap_shape_bounds [OF heap_repD(1) [OF rep] a]
  obtain ps qs where fs: "fs = ps @ a # qs" "a \<notin> set (ps @ qs)" "set (ps @ qs) = frees us \<union> frees vs"
    and au: "a \<notin> fst ` set us" "a \<notin> fst ` set vs" by (rule rep_take_out [OF rep [unfolded bs]])
  have tot: "n \<le> unat (available_size hp)" using d(4) by simp
  have sum: "unat (sz + RT_MEMHEAP_SIZE) = unat sz + 24" "unat (sz + RT_MEMHEAP_SIZE + RT_MEMHEAP_MINIALLOC) = unat sz + 36"
    using sz bd(4) by (simp_all add: RT_MEMHEAP_SIZE_def RT_MEMHEAP_MINIALLOC_def unat_word_ariths)
  have cond: "of_nat n \<ge> sz + RT_MEMHEAP_SIZE + RT_MEMHEAP_MINIALLOC \<longleftrightarrow> n \<ge> unat sz + 36"
    by (simp add: word_le_nat_alt bd(3) sum)
  show thesis
  proof (cases "n \<ge> unat sz + 36")
    case True
    let ?b = "a + 24 + unat sz" and ?rest = "n - 24 - unat sz"
    have adr: "a + unat sz + unat RT_MEMHEAP_SIZE = ?b" by (simp add: unat_heap_size)
    have car: "carve a (unat sz) bs = us @ (a, unat sz, False) # (?b, ?rest, True) # vs"
      using True bs by (simp add: carve_at [OF au(1)])
    obtain h1 where h1: "split_block h (Item a) (Item ?b) hp = Some h1" "headers_only hp h1"
      "heap_shape h h1 (us @ (a, unat sz, True) # (?b, ?rest, True) # vs) fs" and b: "?b \<notin> fst ` set (us @ (a, n, True) # vs)"
      by (rule shape_split [OF sh, of "unat sz"]) (use True in auto)
    obtain h2 where h2: "free_unlink (Item a) h1 = Some h2" "headers_only h1 h2"
      "heap_shape h h2 (us @ (a, unat sz, True) # (?b, ?rest, True) # vs) (ps @ qs)"
      by (rule shape_remove [OF h1(3) [unfolded fs(1)]])
    let ?h3 = "set_pfree (Item a) None (set_nfree (Item a) None h2)"
    have bf: "?b \<notin> set (ps @ qs)" using b fs(3) frees_subset by fastforce
    obtain h4 where h4: "free_insert (Item ?b) ?h3 = Some h4" "headers_only ?h3 h4"
      "heap_shape h h4 (us @ (a, unat sz, True) # (?b, ?rest, True) # vs) (?b # ps @ qs)"
      by (rule shape_insert [OF shape_null [OF h2(3) fs(2)] bf])
    let ?h5 = "note_max_used (sub_available (sz + RT_MEMHEAP_SIZE) h4)"
    let ?h6 = "set_magic (Item a) (magic_of ?h5 (Item a) OR RT_MEMHEAP_USED) ?h5"
    have "headers_only h2 h4" using h4(2) by (rule headers_only_trans [rotated]) simp
    then have ho: "headers_only hp h4" using h1(2) h2(2) headers_only_trans by blast
    have call: "memheap_carve h sz (of_nat n) a hp = Some ?h6"
      using True h1(1) h2(1) h4(1) by (simp add: memheap_carve_def cond adr Let_def)
    have sh6: "heap_shape h ?h6 (us @ (a, unat sz, False) # (?b, ?rest, True) # vs) (?b # ps @ qs)"
      by (rule shape_used) (use h4(3) in simp)
    have av: "unat (available_size hp - (sz + RT_MEMHEAP_SIZE)) = free_total us + (?rest + free_total vs)"
      using d(4) True tot by (subst unat_sub32) (simp_all add: sum)
    have mx: "pool_size hp - (available_size hp - (sz + RT_MEMHEAP_SIZE)) \<le> max_used_size ?h5"
      using note_max_used_bound [of "sub_available (sz + RT_MEMHEAP_SIZE) h4"] by (simp add: headers_onlyD [OF ho])
    have "heap_rep h ?h6 (carve a (unat sz) bs) (?b # ps @ qs)"
      using sh6 d(2) fs(3) av mx unfolding heap_rep_def car
      by (auto simp: compact_append compact_Cons headers_onlyD [OF ho])
    moreover have "same_memory hp ?h6" using ho by simp
    ultimately show thesis using that call by blast
  next
    case False
    have car: "carve a (unat sz) bs = us @ (a, n, False) # vs" using False bs by (simp add: carve_at [OF au(1)])
    let ?h1 = "note_max_used (sub_available (of_nat n) hp)"
    have "heap_shape h ?h1 (us @ (a, n, True) # vs) (ps @ a # qs)" using sh fs(1) by simp
    then obtain h2 where h2: "free_unlink (Item a) ?h1 = Some h2" "headers_only ?h1 h2"
      "heap_shape h h2 (us @ (a, n, True) # vs) (ps @ qs)" by (rule shape_remove)
    let ?h3 = "set_pfree (Item a) None (set_nfree (Item a) None h2)"
    let ?h6 = "set_magic (Item a) (magic_of ?h3 (Item a) OR RT_MEMHEAP_USED) ?h3"
    have sh6: "heap_shape h ?h6 (us @ (a, n, False) # vs) (ps @ qs)"
      by (rule shape_used [OF shape_null [OF h2(3) fs(2)]])
    have call: "memheap_carve h sz (of_nat n) a hp = Some ?h6"
      using False h2(1) by (simp add: memheap_carve_def cond Let_def)
    have av: "unat (available_size hp - of_nat n) = free_total us + free_total vs"
      using d(4) tot bd(3) by (subst unat_sub32) simp_all
    have mx: "pool_size hp - (available_size hp - of_nat n) \<le> max_used_size ?h1"
      using note_max_used_bound [of "sub_available (of_nat n) hp"] by simp
    have "heap_rep h ?h6 (carve a (unat sz) bs) (ps @ qs)"
      using sh6 d(2) fs(3) av mx unfolding heap_rep_def car
      by (auto simp: compact_append compact_Cons headers_onlyD [OF h2(2)])
    moreover have "same_memory ?h1 ?h6" using h2(2) by simp
    then have "same_memory hp ?h6" by (rule same_memory_trans [rotated]) simp
    ultimately show thesis using that call by blast
  qed
qed

lemma memheap_take_rep:
  assumes rep: "heap_rep h hp bs fs" and sz: "sz > 0"
  shows "if \<forall>a n. (a, n, True) \<in> set bs \<longrightarrow> n < unat sz then memheap_take h sz hp = Some (None, hp)
    else \<exists>a n hp' fs'. (a, n, True) \<in> set bs \<and> unat sz \<le> n \<and> memheap_take h sz hp = Some (Some (a + 24), hp') \<and>
      heap_rep h hp' (carve a (unat sz) bs) fs' \<and> same_memory hp hp'"
proof -
  obtain p f where s: "search_free sz hp (hd (map Item fs @ [FreeHeader])) 0 = Some (p, f)"
    "f < sz \<Longrightarrow> p = FreeHeader \<and> (\<forall>a n. (a, n, True) \<in> set bs \<longrightarrow> n < unat sz)"
    "\<not> f < sz \<Longrightarrow> 0 < sz \<Longrightarrow> \<exists>a n. p = Item a \<and> (a, n, True) \<in> set bs \<and> f = of_nat n \<and> unat sz \<le> n"
    by (rule search_free_finds [OF rep, of sz 0]) blast
  show ?thesis
  proof (cases "f < sz")
    case True
    with s(2) have "memheap_take h sz hp = Some (None, hp)"
      using s(1) free_ring_start(1) [OF rep] by (simp add: memheap_take_def linorder_not_less)
    with s(2) True show ?thesis by simp
  next
    case False
    with s(3) sz obtain a n where a: "p = Item a" "(a, n, True) \<in> set bs" "f = of_nat n" "unat sz \<le> n" by blast
    obtain hp' fs' where c: "memheap_carve h sz (of_nat n) a hp = Some hp'"
      "heap_rep h hp' (carve a (unat sz) bs) fs'" "same_memory hp hp'"
      by (rule memheap_carve_rep [OF rep a(2,4)])
    have "memheap_take h sz hp = Some (Some (a + 24), hp')"
      using s(1) free_ring_start(1) [OF rep] a c(1) False by (simp add: memheap_take_def unat_heap_size linorder_not_less)
    moreover have "\<not> (\<forall>a n. (a, n, True) \<in> set bs \<longrightarrow> n < unat sz)" using a by (meson linorder_not_less)
    ultimately show ?thesis using a c by auto
  qed
qed

section \<open>Release\<close>

text \<open>Only headers and the number of available bytes have changed, the latter by \<open>k\<close>.\<close>

definition more_available :: "nat \<Rightarrow> rt_memheap \<Rightarrow> rt_memheap \<Rightarrow> bool" where
  "more_available k hp hp' \<longleftrightarrow> available_size hp' = available_size hp + of_nat k \<and>
     max_used_size hp' = max_used_size hp \<and> same_memory hp hp'"

lemma more_available_intros:
  "headers_only hp hp' \<Longrightarrow> more_available 0 hp hp'" "more_available k hp (add_available (of_nat k) hp)"
  by (simp_all add: more_available_def headers_onlyD)

lemma more_available_trans [trans]:
  "more_available k hp hp' \<Longrightarrow> more_available l hp' hp'' \<Longrightarrow> more_available (k + l) hp hp''"
  unfolding more_available_def using same_memory_trans by (auto simp: ac_simps)

lemma more_available_heap_size: "more_available 24 hp (add_available RT_MEMHEAP_SIZE hp)"
  using more_available_intros(2) [of 24 hp] by (simp add: RT_MEMHEAP_SIZE_def)

lemma rep_add_intro:
  assumes "heap_rep h hp bs fs" "heap_shape h hp' bs' fs'" "compact bs'" "set fs' = frees bs'"
    "more_available k hp hp'" "free_total bs' = free_total bs + k"
  shows "heap_rep h hp' bs' fs'"
proof -
  have eq: "available_size hp' = available_size hp + of_nat k" "max_used_size hp' = max_used_size hp"
    "pool_size hp' = pool_size hp" using assms(5) by (simp_all add: more_available_def same_memory_def)
  have b: "free_total bs' \<le> tail_of hp" using tiles_bounds(1) [OF heap_shapeD(1) [OF assms(2)]] eq by simp
  have p: "unat (pool_size hp) < 2 ^ LENGTH(32)" by (rule unsigned_less)
  have av: "unat (available_size hp + of_nat k) = free_total bs'"
    using heap_repD(4) [OF assms(1)] assms(6) b p by (subst unat_add_nat32) simp_all
  have "pool_size hp - (available_size hp + of_nat k) \<le> pool_size hp - available_size hp"
    using heap_repD(4) [OF assms(1)] assms(6) b av by (simp add: word_le_nat_alt unat_sub32)
  then show ?thesis
    using assms(2-4) eq av heap_repD(5) [OF assms(1)] unfolding heap_rep_def by force
qed

lemma shape_neighbours_distinct:
  assumes "heap_shape h hp (us @ (a, n, f) # vs) fs"
  shows "a \<notin> fst ` set us" "a \<notin> fst ` set vs"
  using heap_shape_distinct(1) [OF assms] by auto

lemma merge_left_shape:
  assumes sh: "heap_shape h hp (us @ (a, n, True) # vs) fs" and c: "compact us"
    and fs: "set fs = frees us \<union> frees vs"
  obtains hp' b us' m k where "merge_left (Item a) hp = Some (hp', Item b, b = a)"
    "heap_shape h hp' (us' @ (b, m, True) # vs) fs"
    "coalesce (us @ (a, n, True) # vs) = coalesce (us' @ (b, m, True) # vs)"
    "compact us'" "us' = [] \<or> \<not> is_free (last us')" "b \<in> set fs \<longleftrightarrow> b \<noteq> a"
    "set fs - {b} = frees us' \<union> frees vs" "more_available k hp hp'" "free_total us' + m = free_total us + n + k"
proof -
  obtain v where v: "prev_of hp (Item a) = Some v" "us \<noteq> [] \<longrightarrow> v = Item (fst (last us))"
    using heap_shape_next(3) [OF sh] by auto
  have used: "item_used hp v \<longleftrightarrow> (us = [] \<or> \<not> is_free (last us))" by (rule heap_shape_prev_used [OF sh v(1)])
  note au = shape_neighbours_distinct [OF sh]
  have fa: "a \<notin> set fs" unfolding fs using au frees_subset [of us] frees_subset [of vs] by blast
  show thesis
  proof (cases "us \<noteq> [] \<and> is_free (last us)")
    case True
    then obtain us' b m where us: "us = us' @ [(b, m, True)]"
      by (metis append_butlast_last_id eq_snd_iff prod.collapse)
    let ?h1 = "add_available RT_MEMHEAP_SIZE hp"
    have "heap_shape h ?h1 (us' @ (b, m, True) # (a, n, True) # vs) fs" using sh us by simp
    then obtain h3 where h3: "block_unlink (Item a) ?h1 = Some h3" "headers_only ?h1 h3"
      "heap_shape h h3 (us' @ (b, m + 24 + n, True) # vs) fs" by (rule shape_unlink)
    have ba: "b \<noteq> a" using au us by auto
    have bn: "b \<notin> frees us' \<union> frees vs"
      using shape_neighbours_distinct [OF h3(3)] frees_subset [of us'] frees_subset [of vs] by blast
    have ne: "us' = [] \<or> \<not> is_free (last us')" "compact us'" using c us by (auto simp: compact_append)
    have co: "coalesce (us @ (a, n, True) # vs) = coalesce (us' @ (b, m + 24 + n, True) # vs)"
      using ne unfolding us by (simp add: coalesce_append)
    have s: "set fs = insert b (frees us' \<union> frees vs)" using fs us by auto
    have call: "merge_left (Item a) hp = Some (h3, Item b, b = a)"
      using v used True us h3(1) ba by (simp add: merge_left_def)
    have mo: "more_available 24 hp h3"
      using more_available_trans [OF more_available_heap_size more_available_intros(1) [OF h3(2)]] by simp
    show thesis
      by (rule that [OF call h3(3) co ne(2,1) _ _ mo]) (use s ba bn us in auto)
  next
    case False
    have call: "merge_left (Item a) hp = Some (hp, Item a, a = a)" using v(1) used False by (auto simp: merge_left_def)
    have mo: "more_available 0 hp hp" by (rule more_available_intros) simp
    show thesis by (rule that [OF call sh refl c _ _ _ mo]) (use False fa fs in auto)
  qed
qed

lemma set_minus_elem:
  assumes "set (ps @ e # qs) - {b} = insert e X" "distinct (ps @ e # qs)" "e \<noteq> b" "e \<notin> X"
  shows "set (ps @ qs) - {b} = X"
proof -
  let ?Y = "set (ps @ qs) - {b}"
  have "set (ps @ e # qs) - {b} = insert e ?Y" using assms(3) by (simp add: insert_Diff_if)
  then have "insert e ?Y = insert e X" using assms(1) by simp
  moreover have "e \<notin> ?Y" using assms(2) by simp
  ultimately show ?thesis using assms(4) insert_ident [of e ?Y X] by simp
qed

lemma merge_next_shape:
  assumes sh: "heap_shape h hp (us @ (b, m, True) # vs) fs" and c: "compact us" "us = [] \<or> \<not> is_free (last us)" "compact vs"
    and fs: "set fs - {b} = frees us \<union> frees vs"
  obtains hp' gs l ws k where "merge_next (Item b) hp = Some hp'" "heap_shape h hp' (us @ (b, l, True) # ws) gs"
    "coalesce (us @ (b, m, True) # vs) = us @ (b, l, True) # ws" "compact (us @ (b, l, True) # ws)"
    "b \<in> set gs \<longleftrightarrow> b \<in> set fs" "set gs - {b} = frees us \<union> frees ws"
    "more_available k hp hp'" "l + free_total ws = m + free_total vs + k"
proof -
  have n: "next_of hp (Item b) = Some (Item (b + 24 + m))" by (rule heap_shape_next(1) [OF sh])
  have u: "item_used hp (Item (b + 24 + m)) \<longleftrightarrow> (vs = [] \<or> \<not> is_free (hd vs))" by (rule heap_shape_is_used [OF sh])
  show thesis
  proof (cases "vs \<noteq> [] \<and> is_free (hd vs)")
    case True
    then obtain e l ws where vs: "vs = (e, l, True) # ws" by (cases vs) auto
    have eb: "e \<noteq> b" "e \<notin> frees us \<union> frees ws"
      using heap_shape_distinct(1) [OF sh] vs frees_subset [of us] frees_subset [of ws] by auto
    have "e \<in> set fs" using fs vs by auto
    then obtain ps qs where split: "fs = ps @ e # qs" by (meson split_list)
    have df: "distinct fs" by (rule heap_shape_distinct(3) [OF sh])
    let ?h1 = "add_available RT_MEMHEAP_SIZE hp"
    have "heap_shape h ?h1 (us @ (b, m, True) # (e, l, True) # ws) (ps @ e # qs)" using sh vs split by simp
    then obtain h2 where h2: "merge_right (Item b) ?h1 = Some h2" "headers_only ?h1 h2"
      "heap_shape h h2 (us @ (b, m + 24 + l, True) # ws) (ps @ qs)" by (rule shape_merge_right)
    have com: "compact (us @ (b, m + 24 + l, True) # ws)" using c vs by (auto simp: compact_append compact_Cons)
    have co: "coalesce (us @ (b, m, True) # vs) = us @ (b, m + 24 + l, True) # ws"
      using c com vs by (simp add: coalesce_append coalesce_compact compact_append)
    have call: "merge_next (Item b) hp = Some h2" using n u vs h2(1) by (simp add: merge_next_def)
    have mo: "more_available 24 hp h2"
      using more_available_trans [OF more_available_heap_size more_available_intros(1) [OF h2(2)]] by simp
    have g: "set (ps @ qs) - {b} = frees us \<union> frees ws"
      by (rule set_minus_elem [OF _ _ eb]) (use fs vs df split in simp_all)
    have bs: "b \<in> set (ps @ qs) \<longleftrightarrow> b \<in> set fs" using split eb(1) by simp
    show thesis
      by (rule that [OF call h2(3) co com bs g mo]) (simp add: vs)
  next
    case False
    have com: "compact (us @ (b, m, True) # vs)" using c False by (auto simp: compact_append compact_Cons)
    have call: "merge_next (Item b) hp = Some hp" using n u False by (auto simp: merge_next_def)
    have mo: "more_available 0 hp hp" by (rule more_available_intros) simp
    show thesis by (rule that [OF call sh coalesce_compact [OF com] com refl fs mo]) simp
  qed
qed

lemma memheap_put_rep:
  assumes rep: "heap_rep h hp bs fs" and a: "(a, n, False) \<in> set bs"
  obtains hp' fs' where "memheap_put (Item a) hp = Some hp'" "heap_rep h hp' (coalesce (release a bs)) fs'"
    "same_memory hp hp'"
proof -
  obtain us vs where bs: "bs = us @ (a, n, False) # vs" using a by (meson split_list)
  note d = heap_repD [OF rep [unfolded bs]]
  have rel: "release a bs = us @ (a, n, True) # vs"
    unfolding bs by (rule release_at [OF shape_neighbours_distinct [OF d(1)]])
  have cu: "compact us" "compact vs" using d(2) by (auto simp: compact_append compact_Cons)
  have s: "set fs = frees us \<union> frees vs" using d(3) by simp
  let ?h1 = "set_magic (Item a) (magic_of hp (Item a) AND NOT RT_MEMHEAP_USED) hp"
  let ?h2 = "add_available (of_nat n) ?h1"
  have sh2: "heap_shape h ?h2 (us @ (a, n, True) # vs) fs"
    using shape_mark [OF d(1), of True] heap_shapeD(7) [OF d(1), of a n False] by simp
  have "headers_only hp ?h1" by simp
  then have m2: "more_available n hp ?h2"
    using more_available_trans [OF more_available_intros(1) more_available_intros(2)] by simp
  obtain h3 b us' m k where l: "merge_left (Item a) ?h2 = Some (h3, Item b, b = a)"
    "heap_shape h h3 (us' @ (b, m, True) # vs) fs"
    "coalesce (us @ (a, n, True) # vs) = coalesce (us' @ (b, m, True) # vs)"
    "compact us'" "us' = [] \<or> \<not> is_free (last us')" "b \<in> set fs \<longleftrightarrow> b \<noteq> a"
    "set fs - {b} = frees us' \<union> frees vs" "more_available k ?h2 h3" "free_total us' + m = free_total us + n + k"
    by (rule merge_left_shape [OF sh2 cu(1) s])
  obtain h4 gs q ws j where r: "merge_next (Item b) h3 = Some h4" "heap_shape h h4 (us' @ (b, q, True) # ws) gs"
    "coalesce (us' @ (b, m, True) # vs) = us' @ (b, q, True) # ws" "compact (us' @ (b, q, True) # ws)"
    "b \<in> set gs \<longleftrightarrow> b \<in> set fs" "set gs - {b} = frees us' \<union> frees ws"
    "more_available j h3 h4" "q + free_total ws = m + free_total vs + j"
    by (rule merge_next_shape [OF l(2,4,5) cu(2) l(7)])
  have end': "coalesce (release a bs) = us' @ (b, q, True) # ws" using rel l(3) r(3) by simp
  have mo: "more_available (n + (k + j)) hp h4"
    by (rule more_available_trans [OF m2 more_available_trans [OF l(8) r(7)]])
  have ft: "free_total (us' @ (b, q, True) # ws) = free_total bs + (n + (k + j))" using l(9) r(8) bs by simp
  have sz: "memitem_size (Item a) ?h1 = Some (of_nat n)" using heap_shape_next(2) [OF sh2] by (simp add: memitem_size_def)
  have call: "memheap_put (Item a) hp = (if b = a then free_insert (Item b) h4 else Some h4)"
    unfolding memheap_put_def Let_def using sz l(1) r(1) by simp
  show thesis
  proof (cases "b = a")
    case True
    then have "b \<notin> set gs" using l(6) r(5) by simp
    then obtain h5 where h5: "free_insert (Item b) h4 = Some h5" "heap_shape h h5 (us' @ (b, q, True) # ws) (b # gs)"
      "headers_only h4 h5" by (rule shape_insert [OF r(2)])
    have mo5: "more_available (n + (k + j)) hp h5"
      using more_available_trans [OF mo more_available_intros(1) [OF h5(3)]] by simp
    have "heap_rep h h5 (us' @ (b, q, True) # ws) (b # gs)"
      by (rule rep_add_intro [OF rep h5(2) r(4) _ mo5 ft]) (use r(6) \<open>b \<notin> set gs\<close> in auto)
    then show thesis using that call h5(1) True mo5 end' by (simp add: more_available_def)
  next
    case False
    then have "b \<in> set gs" using l(6) r(5) by simp
    then have "heap_rep h h4 (us' @ (b, q, True) # ws) gs"
      by (intro rep_add_intro [OF rep r(2,4) _ mo ft]) (use r(6) in auto)
    then show thesis using that call False mo end' by (simp add: more_available_def)
  qed
qed

section \<open>Growing and shrinking a block\<close>

fun enlarge :: "nat \<Rightarrow> nat \<Rightarrow> layout \<Rightarrow> layout option" where
  "enlarge p sz ((a, n, f) # bs) =
     (if a = p
      then (case bs of
          (b, m, True) # vs \<Rightarrow>
            if m + n > sz + 12 then Some ((a, sz, False) # (a + 24 + sz, n + m - sz, True) # vs) else None
        | _ \<Rightarrow> None)
      else map_option ((#) (a, n, f)) (enlarge p sz bs))"
| "enlarge p sz [] = None"

fun reduce :: "nat \<Rightarrow> nat \<Rightarrow> layout \<Rightarrow> layout" where
  "reduce p sz ((a, n, f) # bs) =
     (if a = p then (a, sz, False) # coalesce ((a + 24 + sz, n - 24 - sz, True) # bs) else (a, n, f) # reduce p sz bs)"
| "reduce p sz [] = []"

lemma enlarge_at:
  assumes "a \<notin> fst ` set us"
  shows "enlarge a sz (us @ (a, n, f) # vs) =
    (if vs \<noteq> [] \<and> is_free (hd vs) \<and> room (hd vs) + n > sz + 12
     then Some (us @ (a, sz, False) # (a + 24 + sz, n + room (hd vs) - sz, True) # tl vs) else None)"
  using assms
proof (induction us)
  case Nil
  show ?case by (cases vs) (auto split: bool.splits)
next
  case (Cons x us)
  then have "enlarge a sz (us @ (a, n, f) # vs) = (if vs \<noteq> [] \<and> is_free (hd vs) \<and> room (hd vs) + n > sz + 12
     then Some (us @ (a, sz, False) # (a + 24 + sz, n + room (hd vs) - sz, True) # tl vs) else None)" by simp
  moreover obtain c l g where "x = (c, l, g)" by (cases x)
  ultimately show ?case using Cons.prems by simp
qed

lemma reduce_at:
  assumes "a \<notin> fst ` set us"
  shows "reduce a sz (us @ (a, n, f) # vs) = us @ (a, sz, False) # coalesce ((a + 24 + sz, n - 24 - sz, True) # vs)"
  using assms by (induction us) auto

lemma set_commute: "set_next v x (set_prev u y hp) = set_prev u y (set_next v x hp)"
  by (cases "u = v"; cases "heap_items hp v") (simp_all add: set_next_def set_prev_def item_update_def fun_upd_twist)

lemma memheap_grow_rep:
  assumes rep: "heap_rep h hp bs fs" and a: "(a, n, False) \<in> set bs"
    and nw: "n < unat newsize" "unat newsize + 12 < 2 ^ 32"
  shows "case enlarge a (unat newsize) bs of
      None \<Rightarrow> memheap_grow h a (of_nat n) newsize hp = Some (False, hp)
    | Some bs' \<Rightarrow> \<exists>hp' fs'. memheap_grow h a (of_nat n) newsize hp = Some (True, hp') \<and> heap_rep h hp' bs' fs' \<and>
        same_memory hp hp'"
proof -
  obtain us vs where bs: "bs = us @ (a, n, False) # vs" using a by (meson split_list)
  note d = heap_repD [OF rep [unfolded bs]]
  note au = shape_neighbours_distinct [OF d(1)]
  let ?b = "a + 24 + n" and ?k = "unat newsize"
  have nx: "next_of hp (Item a) = Some (Item ?b)" by (rule heap_shape_next(1) [OF d(1)])
  have u: "item_used hp (Item ?b) \<longleftrightarrow> (vs = [] \<or> \<not> is_free (hd vs))" by (rule heap_shape_is_used [OF d(1)])
  show ?thesis
  proof (cases "vs \<noteq> [] \<and> is_free (hd vs)")
    case False
    then have "enlarge a ?k bs = None" unfolding bs enlarge_at [OF au(1)] by auto
    moreover have "memheap_grow h a (of_nat n) newsize hp = Some (False, hp)"
      using nx u False by (auto simp: memheap_grow_def)
    ultimately show ?thesis by simp
  next
    case True
    then obtain e m ws where vs0: "vs = (e, m, True) # ws" by (cases vs) auto
    have "e = ?b" using heap_shapeD(1) [OF d(1)] vs0 by (auto simp: tiles_append)
    then have vs: "vs = (?b, m, True) # ws" using vs0 by simp
    have shb: "heap_shape h hp ((us @ [(a, n, False)]) @ (?b, m, True) # ws) fs" using d(1) vs by simp
    note sb = heap_shape_bounds [OF shb, of ?b m True]
    have ms: "memitem_size (Item ?b) hp = Some (of_nat m)" by (rule heap_shape_next(2) [OF shb])
    have pl: "unat (pool_size hp) < 2 ^ LENGTH(32)" by (rule unsigned_less)
    have mn: "m + n < 2 ^ 32" using sb(1) pl by simp
    have cond: "(of_nat m + of_nat n :: u32) > newsize + RT_MEMHEAP_MINIALLOC \<longleftrightarrow> m + n > ?k + 12"
    proof -
      have "unat (of_nat m + of_nat n :: u32) = m + n" using unat_of_nat32 [OF mn] by simp
      moreover have "unat (newsize + RT_MEMHEAP_MINIALLOC) = ?k + 12"
        using nw(2) by (simp add: RT_MEMHEAP_MINIALLOC_def unat_word_ariths)
      ultimately show ?thesis by (simp add: word_less_nat_alt)
    qed
    show ?thesis
    proof (cases "m + n > ?k + 12")
      case False
      then have "enlarge a ?k bs = None" unfolding bs enlarge_at [OF au(1)] vs by simp
      moreover have "memheap_grow h a (of_nat n) newsize hp = Some (False, hp)"
        using nx u vs ms cond False by (simp add: memheap_grow_def)
      ultimately show ?thesis by simp
    next
      case room: True
      let ?bs = "us @ (a, ?k, False) # (a + 24 + ?k, n + m - ?k, True) # ws"
      have e: "enlarge a ?k bs = Some ?bs" unfolding bs enlarge_at [OF au(1)] vs using room by simp
      let ?h1 = "note_max_used (sub_available (newsize - of_nat n) hp)"
      obtain ps qs where fs: "fs = ps @ ?b # qs" "?b \<notin> set (ps @ qs)" "set (ps @ qs) = frees (us @ [(a, n, False)]) \<union> frees ws"
        by (rule rep_take_out [of h hp "us @ [(a, n, False)]" ?b m ws fs]) (use rep bs vs in simp_all)
      have "heap_shape h ?h1 (us @ (a, n, False) # (?b, m, True) # ws) (ps @ ?b # qs)" using d(1) vs fs(1) by simp
      then obtain h2 where h2: "free_unlink (Item ?b) ?h1 = Some h2"
        "heap_shape h h2 (us @ (a, n, False) # (?b, m, True) # ws) (ps @ qs)" "headers_only ?h1 h2" by (rule shape_remove)
      obtain h3 where h3: "block_unlink (Item ?b) h2 = Some h3" "headers_only h2 h3"
        "heap_shape h h3 (us @ (a, n + 24 + m, False) # ws) (ps @ qs)" by (rule shape_unlink [OF h2(2)])
      obtain h4 where h4: "split_block h (Item a) (Item (a + 24 + ?k)) h3 = Some h4" "headers_only h3 h4"
        "heap_shape h h4 (us @ (a, ?k, False) # (a + 24 + ?k, n + 24 + m - 24 - ?k, True) # ws) (ps @ qs)"
        "a + 24 + ?k \<notin> fst ` set (us @ (a, n + 24 + m, False) # ws)"
        by (rule shape_split [OF h3(3), of ?k]) (use room in simp)
      have nf: "a + 24 + ?k \<notin> set (ps @ qs)"
      proof -
        have "set (ps @ qs) = frees us \<union> frees ws" using fs(3) by simp
        then show ?thesis using h4(4) frees_subset [of us] frees_subset [of ws] by auto
      qed
      obtain h5 where h5: "free_insert (Item (a + 24 + ?k)) h4 = Some h5"
        "heap_shape h h5 (us @ (a, ?k, False) # (a + 24 + ?k, n + 24 + m - 24 - ?k, True) # ws) ((a + 24 + ?k) # ps @ qs)"
        "headers_only h4 h5" by (rule shape_insert [OF h4(3) nf])
      have ho: "headers_only ?h1 h5" using h2(3) h3(2) h4(2) h5(3) headers_only_trans by blast
      have nb: "prev_of h2 (Item ?b) = Some (Item a)" "next_of h2 (Item ?b) = Some (Item (?b + 24 + m))"
        using heap_shape_next(1,3) [of h h2 "us @ [(a, n, False)]" ?b m True ws "ps @ qs"] h2(2) by simp_all
      have ord: "(do { q \<leftarrow> next_of h2 (Item ?b);
           let hp = set_prev q (prev_of h2 (Item ?b)) h2;
           v \<leftarrow> prev_of hp (Item ?b);
           Some (set_next v (next_of hp (Item ?b)) hp) }) = Some h3"
        using nb h3(1) by (simp add: block_unlink_def set_commute)
      have fit: "a + 24 + ?k + 24 \<le> unat (pool_size hp)"
        using sb(1) room heap_shapeD(6) [OF d(1)] by simp
      have call: "memheap_grow h a (of_nat n) newsize hp = Some (True, h5)"
        using nx u vs ms cond room h2(1) nb ord h4(1) h5(1) fit headers_onlyD(1) [OF h2(3)]
        by (simp add: memheap_grow_def unat_heap_size set_commute Let_def)
      have ft: "free_total bs = free_total us + (m + free_total ws)" unfolding bs vs by simp
      have wn: "unat (newsize - of_nat n :: u32) = ?k - n"
        using nw(1) unat_of_nat32 [of n] mn by (subst unat_sub32) simp_all
      have av: "unat (available_size hp - (newsize - of_nat n)) = free_total ?bs"
        using wn heap_repD(4) [OF rep] ft room nw(1) by (subst unat_sub32) simp_all
      have mx: "pool_size hp - (available_size hp - (newsize - of_nat n)) \<le> max_used_size ?h1"
        using note_max_used_bound [of "sub_available (newsize - of_nat n) hp"] by simp
      have sh5: "heap_shape h h5 ?bs ((a + 24 + ?k) # ps @ qs)" using h5(2) by simp
      have cp: "compact ?bs" using d(2) vs by (auto simp: compact_append compact_Cons)
      have fr: "set ((a + 24 + ?k) # ps @ qs) = frees ?bs" using fs(3) by simp
      have "heap_rep h h5 ?bs ((a + 24 + ?k) # ps @ qs)"
        using sh5 cp fr av mx unfolding heap_rep_def headers_onlyD [OF ho] by simp
      moreover have "same_memory ?h1 h5" using ho by simp
      then have "same_memory hp h5" by (rule same_memory_trans [rotated]) simp
      ultimately show ?thesis using e call by auto
    qed
  qed
qed

lemma memheap_shrink_rep:
  assumes rep: "heap_rep h hp bs fs" and a: "(a, n, False) \<in> set bs" and nw: "unat newsize + 36 < n"
  obtains hp' fs' where "memheap_shrink h a newsize hp = Some hp'" "heap_rep h hp' (reduce a (unat newsize) bs) fs'"
    "same_memory hp hp'"
proof -
  let ?k = "unat newsize"
  let ?c = "a + 24 + ?k"
  obtain us vs where bs: "bs = us @ (a, n, False) # vs" using a by (meson split_list)
  note d = heap_repD [OF rep [unfolded bs]]
  note au = shape_neighbours_distinct [OF d(1)]
  have red: "reduce a ?k bs = us @ (a, ?k, False) # coalesce ((?c, n - 24 - ?k, True) # vs)"
    unfolding bs by (rule reduce_at [OF au(1)])
  have cp: "compact (us @ [(a, ?k, False)])" "compact vs" using d(2) by (auto simp: compact_append compact_Cons)
  obtain h1 where h1: "split_block h (Item a) (Item ?c) hp = Some h1" "headers_only hp h1"
    "heap_shape h h1 (us @ (a, ?k, False) # (?c, n - 24 - ?k, True) # vs) fs"
    "?c \<notin> fst ` set (us @ (a, n, False) # vs)" by (rule shape_split [OF d(1), of ?k]) (use nw in simp)
  have s: "set fs = frees us \<union> frees vs" using d(3) by simp
  have cf: "?c \<notin> frees us \<union> frees vs" using h1(4) frees_subset [of us] frees_subset [of vs] by auto
  have sh1: "heap_shape h h1 ((us @ [(a, ?k, False)]) @ (?c, n - 24 - ?k, True) # vs) fs" using h1(3) by simp
  let ?e = "?c + 24 + (n - 24 - ?k)"
  have nx: "next_of h1 (Item ?c) = Some (Item ?e)" by (rule heap_shape_next(1) [OF sh1])
  have u: "item_used h1 (Item ?e) \<longleftrightarrow> (vs = [] \<or> \<not> is_free (hd vs))" by (rule heap_shape_is_used [OF sh1])
  have m1: "more_available 0 hp h1" by (rule more_available_intros(1) [OF h1(2)])
  have adr: "a + ?k + unat RT_MEMHEAP_SIZE = ?c" by (simp add: unat_heap_size)
  obtain h2 gs l ws av where right: "absorb_next (Item ?c) h1 = Some h2"
    and sh2: "heap_shape h h2 (us @ (a, ?k, False) # (?c, l, True) # ws) gs"
    and co: "coalesce ((?c, n - 24 - ?k, True) # vs) = (?c, l, True) # ws"
    and com: "compact ((?c, l, True) # ws)" and gs: "set gs = frees us \<union> frees ws" "?c \<notin> set gs"
    and cnt: "available_size h2 + of_nat l = available_size hp + of_nat av" "max_used_size h2 = max_used_size hp"
      "same_memory hp h2" "l + free_total ws = free_total vs + av"
  proof (cases "vs \<noteq> [] \<and> is_free (hd vs)")
    case True
    then obtain e m ws where vs0: "vs = (e, m, True) # ws" by (cases vs) auto
    have "e = ?e" using heap_shapeD(1) [OF sh1] vs0 by (auto simp: tiles_append)
    then have vs: "vs = (?e, m, True) # ws" using vs0 by simp
    have shb: "heap_shape h h1 ((us @ [(a, ?k, False), (?c, n - 24 - ?k, True)]) @ (?e, m, True) # ws) fs"
      using sh1 vs by simp
    have ms: "memitem_size (Item ?e) h1 = Some (of_nat m)" by (rule heap_shape_next(2) [OF shb])
    have "?e \<in> set fs" using s vs by simp
    then obtain ps qs where fs: "fs = ps @ ?e # qs" by (meson split_list)
    let ?h2 = "sub_available (of_nat m) h1"
    have "heap_shape h ?h2 ((us @ [(a, ?k, False)]) @ (?c, n - 24 - ?k, True) # (?e, m, True) # ws) (ps @ ?e # qs)"
      using sh1 vs fs by simp
    then obtain h3 where h3: "merge_right (Item ?c) ?h2 = Some h3" "headers_only ?h2 h3"
      "heap_shape h h3 ((us @ [(a, ?k, False)]) @ (?c, n - 24 - ?k + 24 + m, True) # ws) (ps @ qs)"
      by (rule shape_merge_right)
    have com: "compact ((?c, n - 24 - ?k + 24 + m, True) # ws)" using cp(2) vs by (auto simp: compact_Cons)
    have co: "coalesce ((?c, n - 24 - ?k, True) # vs) = (?c, n - 24 - ?k + 24 + m, True) # ws"
      using coalesce_compact [OF com] vs by simp
    have sh3: "heap_shape h h3 (us @ (a, ?k, False) # (?c, n - 24 - ?k + 24 + m, True) # ws) (ps @ qs)"
      using h3(3) by simp
    have "?e \<notin> frees us \<union> frees ws" "?e \<noteq> ?c"
      using shape_neighbours_distinct [OF shb] frees_subset [of us] frees_subset [of ws] by auto
    then have "set (ps @ qs) - {?c} = frees us \<union> frees ws"
      by (intro set_minus_elem [of ps ?e qs]) (use s vs fs cf heap_shape_distinct(3) [OF sh1] in auto)
    moreover have "?c \<notin> set (ps @ qs)" using cf unfolding s [symmetric] fs by simp
    ultimately have g: "set (ps @ qs) = frees us \<union> frees ws" "?c \<notin> set (ps @ qs)" by (simp_all only: Diff_insert0 Diff_empty not_False_eq_True)
    have call: "absorb_next (Item ?c) h1 = Some h3"
      using nx u vs ms h3(1) by (simp add: absorb_next_def)
    have n: "n - 24 - ?k + 24 + m = n - ?k + m" using nw by simp
    have a1: "available_size h3 + of_nat (n - 24 - ?k + 24 + m) = available_size hp + of_nat (n - ?k)"
      unfolding n using headers_onlyD(2) [OF h3(2)] m1 by (simp add: more_available_def)
    have a2: "same_memory hp h3"
    proof -
      have "same_memory ?h2 h3" using h3(2) by simp
      then show ?thesis using m1 same_memory_trans [of hp h1 h3] by (simp add: more_available_def same_memory_def sub_available_def)
    qed
    show thesis
      by (rule that [OF call sh3 co com g a1 _ a2]) (use headers_onlyD(3) [OF h3(2)] m1 vs n in \<open>simp_all add: more_available_def\<close>)
  next
    case False
    have com: "compact ((?c, n - 24 - ?k, True) # vs)" using cp(2) False by (auto simp: compact_Cons)
    have call: "absorb_next (Item ?c) h1 = Some h1"
      using nx u False by (auto simp: absorb_next_def)
    show thesis
      by (rule that [OF call h1(3) coalesce_compact [OF com] com s, of "n - 24 - ?k"])
        (use cf s m1 in \<open>simp_all add: more_available_def\<close>)
  qed
  obtain h3 where h3: "free_insert (Item ?c) h2 = Some h3" "headers_only h2 h3"
    "heap_shape h h3 (us @ (a, ?k, False) # (?c, l, True) # ws) (?c # gs)" by (rule shape_insert [OF sh2 gs(2)])
  have ms3: "memitem_size (Item ?c) h3 = Some (of_nat l)"
    using heap_shape_next(2) [of h h3 "us @ [(a, ?k, False)]" ?c l True ws] h3(3) by simp
  let ?h4 = "add_available (of_nat l) h3"
  have call: "memheap_shrink h a newsize hp = Some ?h4"
    unfolding memheap_shrink_def Let_def adr using h1(1) right h3(1) ms3 by simp
  have mo: "more_available av hp ?h4"
    using cnt(1-3) headers_onlyD [OF h3(2)] same_memory_simps(6) [OF h3(2)] same_memory_trans [of hp h2 h3]
    by (simp add: more_available_def)
  have "heap_rep h ?h4 (us @ (a, ?k, False) # (?c, l, True) # ws) (?c # gs)"
    by (rule rep_add_intro [OF rep _ _ _ mo])
      (use h3(3) cp com gs cnt(4) bs in \<open>auto simp: compact_append compact_Cons\<close>)
  then show thesis using that [OF call] red co mo by (simp add: more_available_def)
qed

section \<open>A new heap\<close>

lemma accessor_update:
  "magic_of (item_update p f hp) = (magic_of hp)(p := item_magic (f (heap_items hp p)))"
  "pool_of (item_update p f hp) = (pool_of hp)(p := item_pool (f (heap_items hp p)))"
  "next_of (item_update p f hp) = (next_of hp)(p := item_next (f (heap_items hp p)))"
  "prev_of (item_update p f hp) = (prev_of hp)(p := item_prev (f (heap_items hp p)))"
  "nfree_of (item_update p f hp) = (nfree_of hp)(p := item_next_free (f (heap_items hp p)))"
  "pfree_of (item_update p f hp) = (pfree_of hp)(p := item_prev_free (f (heap_items hp p)))"
  by (auto simp: accessor_defs item_update_def)

lemma fields_update [simp]:
  "pool_size (item_update p f hp) = pool_size hp" "available_size (item_update p f hp) = available_size hp"
  "max_used_size (item_update p f hp) = max_used_size hp" "free_list (item_update p f hp) = free_list hp"
  "heap_lock (item_update p f hp) = heap_lock hp" "heap_data (item_update p f hp) = heap_data hp"
  by (simp_all add: item_update_def)

lemma accessor_fields [simp]:
  "magic_of (hp\<lparr>pool_size := n\<rparr>) = magic_of hp" "pool_of (hp\<lparr>pool_size := n\<rparr>) = pool_of hp"
  "next_of (hp\<lparr>pool_size := n\<rparr>) = next_of hp" "prev_of (hp\<lparr>pool_size := n\<rparr>) = prev_of hp"
  "nfree_of (hp\<lparr>pool_size := n\<rparr>) = nfree_of hp" "pfree_of (hp\<lparr>pool_size := n\<rparr>) = pfree_of hp"
  "magic_of (hp\<lparr>available_size := n\<rparr>) = magic_of hp" "pool_of (hp\<lparr>available_size := n\<rparr>) = pool_of hp"
  "next_of (hp\<lparr>available_size := n\<rparr>) = next_of hp" "prev_of (hp\<lparr>available_size := n\<rparr>) = prev_of hp"
  "nfree_of (hp\<lparr>available_size := n\<rparr>) = nfree_of hp" "pfree_of (hp\<lparr>available_size := n\<rparr>) = pfree_of hp"
  "magic_of (hp\<lparr>max_used_size := n\<rparr>) = magic_of hp" "pool_of (hp\<lparr>max_used_size := n\<rparr>) = pool_of hp"
  "next_of (hp\<lparr>max_used_size := n\<rparr>) = next_of hp" "prev_of (hp\<lparr>max_used_size := n\<rparr>) = prev_of hp"
  "nfree_of (hp\<lparr>max_used_size := n\<rparr>) = nfree_of hp" "pfree_of (hp\<lparr>max_used_size := n\<rparr>) = pfree_of hp"
  "magic_of (hp\<lparr>block_list := b\<rparr>) = magic_of hp" "pool_of (hp\<lparr>block_list := b\<rparr>) = pool_of hp"
  "next_of (hp\<lparr>block_list := b\<rparr>) = next_of hp" "prev_of (hp\<lparr>block_list := b\<rparr>) = prev_of hp"
  "nfree_of (hp\<lparr>block_list := b\<rparr>) = nfree_of hp" "pfree_of (hp\<lparr>block_list := b\<rparr>) = pfree_of hp"
  "magic_of (hp\<lparr>free_list := q\<rparr>) = magic_of hp" "pool_of (hp\<lparr>free_list := q\<rparr>) = pool_of hp"
  "next_of (hp\<lparr>free_list := q\<rparr>) = next_of hp" "prev_of (hp\<lparr>free_list := q\<rparr>) = prev_of hp"
  "nfree_of (hp\<lparr>free_list := q\<rparr>) = nfree_of hp" "pfree_of (hp\<lparr>free_list := q\<rparr>) = pfree_of hp"
  by (simp_all add: accessor_defs fun_eq_iff)

lemma memheap_setup_rep:
  assumes "48 \<le> unat sz"
  obtains hp' where "memheap_setup h sz hp = Some hp'" "pool_size hp' = RT_ALIGN_DOWN sz RT_ALIGN_SIZE"
    "heap_rep h hp' [(0, unat (RT_ALIGN_DOWN sz RT_ALIGN_SIZE) - 48, True)] [0]"
    "heap_lock hp' = heap_lock hp" "heap_data hp' = heap_data hp"
proof -
  let ?P = "RT_ALIGN_DOWN sz RT_ALIGN_SIZE"
  have P: "unat ?P = unat sz - unat sz mod 4" "48 \<le> unat ?P" "unat ?P \<le> unat sz"
    using assms by (simp_all add: unat_align_down) presburger+
  have av: "unat (?P - 48) = unat ?P - 48" using P(2) by (subst unat_sub32) simp_all
  have tl: "unat (?P - 48) + unat RT_MEMHEAP_SIZE = unat ?P - 24" using av P(2) by (simp add: unat_heap_size)
  obtain e where e: "e = unat ?P - 24" by blast
  then have e: "e = unat ?P - 24" "e \<noteq> 0" "unat ?P = e + 24" using P(2) by auto
  let ?F = "\<lparr>item_magic = RT_MEMHEAP_MAGIC, item_pool = Some h, item_next = None, item_prev = None,
    item_next_free = Some FreeHeader, item_prev_free = Some FreeHeader\<rparr>"
  let ?B = "\<lparr>item_magic = RT_MEMHEAP_MAGIC, item_pool = Some h, item_next = None, item_prev = None,
    item_next_free = Some (Item 0), item_prev_free = Some (Item 0)\<rparr>"
  let ?T = "\<lparr>item_magic = RT_MEMHEAP_MAGIC OR RT_MEMHEAP_USED, item_pool = Some h, item_next = Some (Item 0),
    item_prev = Some (Item 0), item_next_free = None, item_prev_free = None\<rparr>"
  define h1 where "h1 = item_update (Item 0) (\<lambda>_. ?B) (item_update FreeHeader (\<lambda>_. ?F)
    (hp\<lparr>pool_size := ?P, available_size := ?P - 48, max_used_size := ?P - (?P - 48), free_list := FreeHeader,
      block_list := Some (Item 0)\<rparr>))"
  define h2 where "h2 = set_prev (Item 0) (Some (Item e)) (set_next (Item 0) (Some (Item e)) h1)"
  define h3 where "h3 = set_nfree FreeHeader (Some (Item 0)) (set_pfree FreeHeader (Some (Item 0))
    (set_pfree (Item 0) (Some FreeHeader) (set_nfree (Item 0) (Some FreeHeader) h2)))"
  define hp' where "hp' = item_update (Item e) (\<lambda>_. ?T) h3"
  have t2: "nfree_of h2 FreeHeader = Some FreeHeader" "free_list h2 = FreeHeader"
    by (simp_all add: h2_def h1_def accessor_update setter_defs)
  have ins: "free_insert (Item 0) h2 = Some h3" by (simp add: free_insert_def t2 h3_def)
  have c: "2 * RT_MEMHEAP_SIZE = 48" by (simp add: RT_MEMHEAP_SIZE_def)
  have tl': "unat (?P - 48) + unat RT_MEMHEAP_SIZE = e" unfolding e(1) by (rule tl)
  have fit: "e + unat RT_MEMHEAP_SIZE \<le> unat sz" using e(3) P(3) by (simp add: unat_heap_size)
  have call: "memheap_setup h sz hp = Some hp'"
    using ins fit unfolding memheap_setup_def Let_def c tl' hp'_def h2_def h1_def by simp
  have hp': "pool_size hp' = ?P" "available_size hp' = ?P - 48"
      "max_used_size hp' = ?P - (?P - 48)" "free_list hp' = FreeHeader"
      "heap_lock hp' = heap_lock hp" "heap_data hp' = heap_data hp"
    by (simp_all add: hp'_def h3_def h2_def h1_def setter_defs)
  have it: "magic_of hp' (Item 0) = RT_MEMHEAP_MAGIC" "magic_of hp' (Item e) = RT_MEMHEAP_MAGIC OR RT_MEMHEAP_USED"
      "pool_of hp' (Item 0) = Some h"
      "next_of hp' (Item 0) = Some (Item e)" "prev_of hp' (Item 0) = Some (Item e)"
      "next_of hp' (Item e) = Some (Item 0)" "prev_of hp' (Item e) = Some (Item 0)"
      "nfree_of hp' FreeHeader = Some (Item 0)" "pfree_of hp' FreeHeader = Some (Item 0)"
      "nfree_of hp' (Item 0) = Some FreeHeader" "pfree_of hp' (Item 0) = Some FreeHeader"
    using e(2) by (simp_all add: hp'_def h3_def h2_def h1_def accessor_update)
  have "heap_shape h hp' [(0, unat ?P - 48, True)] [0]"
    using hp' it e(2,3) P(2) by (simp add: heap_shape_def all_items_def ring_def)
  then have "heap_rep h hp' [(0, unat ?P - 48, True)] [0]"
    using hp'(1-3) av by (simp add: heap_rep_def compact_def)
  then show thesis using that call hp'(1,5,6) by blast
qed

text \<open>An area that is too small makes the tailer lie behind it, or wrap around far behind it.\<close>

lemma memheap_setup_small:
  assumes "unat sz < 48"
  shows "memheap_setup h sz hp = None"
proof -
  let ?P = "RT_ALIGN_DOWN sz RT_ALIGN_SIZE"
  have P: "unat ?P = unat sz - unat sz mod 4" by (rule unat_align_down)
  have "unat (?P - 48) > unat sz"
  proof -
    have "unat (?P - 48) = unat ?P + 2 ^ 32 - 48"
      using P assms unat_sub_if_size [of ?P 48] by (simp add: word_size)
    then show ?thesis using assms by simp
  qed
  then have "\<not> unat (?P - 2 * RT_MEMHEAP_SIZE) + unat RT_MEMHEAP_SIZE + unat RT_MEMHEAP_SIZE \<le> unat sz"
    by (simp add: RT_MEMHEAP_SIZE_def)
  then show ?thesis by (simp add: memheap_setup_def Let_def rt_assert_def bind_eq_None_conv)
qed

section \<open>The blocks in use\<close>

definition used :: "layout \<Rightarrow> (nat \<times> nat) set" where
  "used bs = {(a, n). (a, n, False) \<in> set bs}"

lemma used_simps [simp]:
  "used [] = {}" "used ((a, n, f) # bs) = (if f then used bs else insert (a, n) (used bs))"
  "used (us @ vs) = used us \<union> used vs"
  by (auto simp: used_def)

lemma used_coalesce [simp]: "used (coalesce bs) = used bs"
proof (induction bs rule: coalesce.induct)
  case (1 x y bs)
  obtain a n f c m g where "x = (a, n, f)" "y = (c, m, g)" by (cases x, cases y) auto
  with 1 show ?case by (auto split: if_splits)
qed simp_all

lemma used_not_fst: "a \<notin> fst ` set bs \<Longrightarrow> (a, n) \<notin> used bs"
  by (force simp: used_def)

lemma used_carve:
  assumes "distinct (map fst bs)" "(a, m, True) \<in> set bs" "n \<le> m"
  obtains k where "n \<le> k" "used (carve a n bs) = insert (a, k) (used bs)" "(a, k) \<notin> used bs"
proof -
  obtain us vs where bs: "bs = us @ (a, m, True) # vs" using assms(2) by (meson split_list)
  have au: "a \<notin> fst ` set us" "a \<notin> fst ` set vs" using assms(1) bs by auto
  show thesis
  proof (rule that)
    show "n \<le> (if m \<ge> n + 36 then n else m)" using assms(3) by simp
    show "used (carve a n bs) = insert (a, if m \<ge> n + 36 then n else m) (used bs)"
      unfolding bs carve_at [OF au(1)] by simp
    show "(a, if m \<ge> n + 36 then n else m) \<notin> used bs" using used_not_fst [OF au(1)] used_not_fst [OF au(2)] bs by simp
  qed
qed

lemma used_at:
  assumes "distinct (map fst bs)" "(a, n, False) \<in> set bs"
  obtains us vs where "bs = us @ (a, n, False) # vs" "a \<notin> fst ` set us" "a \<notin> fst ` set vs"
    "used us \<union> used vs = used bs - {(a, n)}"
proof -
  obtain us vs where bs: "bs = us @ (a, n, False) # vs" using assms(2) by (meson split_list)
  have au: "a \<notin> fst ` set us" "a \<notin> fst ` set vs" using assms(1) bs by auto
  have "used us \<union> used vs = used bs - {(a, n)}"
    using used_not_fst [OF au(1), of n] used_not_fst [OF au(2), of n] bs by auto
  then show thesis using that bs au by blast
qed

lemma used_release:
  assumes "distinct (map fst bs)" "(a, n, False) \<in> set bs"
  shows "used (coalesce (release a bs)) = used bs - {(a, n)}"
  by (rule used_at [OF assms]) (simp add: release_at)

lemma used_reduce:
  assumes "distinct (map fst bs)" "(a, n, False) \<in> set bs"
  shows "used (reduce a k bs) = insert (a, k) (used bs - {(a, n)})"
  by (rule used_at [OF assms]) (simp add: reduce_at)

lemma used_enlarge:
  assumes "distinct (map fst bs)" "(a, n, False) \<in> set bs" "enlarge a k bs = Some bs'"
  shows "used bs' = insert (a, k) (used bs - {(a, n)})"
proof -
  obtain us vs where u: "bs = us @ (a, n, False) # vs" "a \<notin> fst ` set us" "used us \<union> used vs = used bs - {(a, n)}"
    by (rule used_at [OF assms(1,2)])
  have "enlarge a k (us @ (a, n, False) # vs) = Some bs'" using assms(3) u(1) by simp
  then obtain c m ws where "vs = (c, m, True) # ws"
    "bs' = us @ (a, k, False) # (a + 24 + k, n + m - k, True) # ws"
    by (cases vs) (auto simp: enlarge_at [OF u(2)] split: if_splits)
  then show ?thesis using u(3) by auto
qed

text \<open>Taking a block and giving it back restores the layout.\<close>

lemma release_carve:
  assumes "distinct (map fst bs)" "compact bs" "(a, m, True) \<in> set bs" "tiles 0 bs e"
  shows "coalesce (release a (carve a n bs)) = bs"
proof -
  obtain us vs where bs: "bs = us @ (a, m, True) # vs" using assms(3) by (meson split_list)
  have au: "a \<notin> fst ` set us" "a \<notin> fst ` set vs" using assms(1) bs by auto
  have c: "compact us" "us = [] \<or> \<not> is_free (last us)" "compact ((a, m, True) # vs)"
    using assms(2) bs by (auto simp: compact_append compact_Cons)
  show ?thesis
  proof (cases "m \<ge> n + 36")
    case False
    then have "coalesce (release a (carve a n bs)) = coalesce bs"
      unfolding bs carve_at [OF au(1)] by (simp add: release_at [OF au])
    then show ?thesis using coalesce_compact [OF assms(2)] by simp
  next
    case True
    let ?r = "(a + 24 + n, m - 24 - n, True)"
    have "release a (carve a n bs) = us @ (a, n, True) # ?r # vs"
      unfolding bs carve_at [OF au(1)] using True au release_at [of a us "?r # vs" n False] by simp
    also have "coalesce \<dots> = us @ coalesce ((a, n, True) # ?r # vs)" by (rule coalesce_append [OF c(1,2)])
    also have "coalesce ((a, n, True) # ?r # vs) = coalesce ((a, m, True) # vs)" using True by simp
    also have "\<dots> = (a, m, True) # vs" by (rule coalesce_compact [OF c(3)])
    finally show ?thesis using bs by simp
  qed
qed

lemma tiles_disjoint:
  assumes "tiles b bs e" "(a, n, f) \<in> set bs" "(c, m, g) \<in> set bs" "a < c"
  shows "a + 24 + n \<le> c"
  using assms
proof (induction b bs e rule: tiles.induct)
  case (2 b x k h bs e)
  have t: "tiles (x + 24 + k) bs e" using 2(2) by auto
  consider "(a, n, f) = (x, k, h)" "(c, m, g) \<in> set bs" | "(a, n, f) \<in> set bs" "(c, m, g) \<in> set bs"
    | "(c, m, g) = (x, k, h)" "(a, n, f) \<in> set bs" using 2(3,4,5) by auto
  then show ?case
  proof cases
    case 1
    then show ?thesis using tiles_bounds(2) [OF t, of c m g] by auto
  next
    case 2
    then show ?thesis using "2.IH" [OF t] \<open>a < c\<close> by blast
  next
    case 3
    then show ?thesis using tiles_bounds(2) [OF t, of a n f] \<open>a < c\<close> by auto
  qed
qed simp

end
