(* ===== verification/RTT_MemHeap.thy ===== *)
theory RTT_MemHeap
  imports RTT_Sem RTT_HeapRep RTT_KService RTT_Allocator
begin

text \<open>
  The calls of a memory heap (\<^verbatim>\<open>memheap.c\<close>): the steps on the blocks, between taking and releasing
  the semaphore of the heap. A pointer is the heap whose memory it points into and an offset in
  that memory; the memory starts at an aligned address. A call is split where it waits for the
  semaphore: \<open>Blocked\<close> holds its local variables and the \<open>_wake\<close> function goes on with them.
\<close>

abbreviation memheap :: "nat \<Rightarrow> kstate \<Rightarrow> rt_memheap" where
  "memheap h s \<equiv> memheaps (drivers s) h"

definition heap_update :: "nat \<Rightarrow> rt_memheap \<Rightarrow> kstate \<Rightarrow> kstate" where
  "heap_update h hp s = s\<lparr>drivers := (drivers s)\<lparr>memheaps := (memheaps (drivers s))(h := hp)\<rparr>\<rparr>"

definition is_memheap :: "nat \<Rightarrow> kstate \<Rightarrow> unit option" where
  "is_memheap h s = rt_assert (rt_object_get_type (OMemHeap h) s = RT_Object_Class_MemHeap)"

abbreviation lock_of :: "nat \<Rightarrow> kstate \<Rightarrow> nat" where
  "lock_of h s \<equiv> heap_lock (memheap h s)"

type_synonym heap_ptr = "nat \<times> nat"

section \<open>Operations\<close>

definition rt_memheap_init :: "nat \<Rightarrow> string \<Rightarrow> u32 \<Rightarrow> kstate \<Rightarrow> (rt_err_t \<times> kstate) option" where
  "rt_memheap_init h name sz s = do {
     s \<leftarrow> rt_object_init (OMemHeap h) RT_Object_Class_MemHeap name s;
     hp \<leftarrow> memheap_setup h sz (memheap h s);
     (_, s) \<leftarrow> rt_sem_init (lock_of h s) name 1 RT_IPC_FLAG_FIFO (heap_update h hp s);
     Some (RT_EOK, s) }"

definition rt_memheap_detach :: "nat \<Rightarrow> kstate \<Rightarrow> (rt_err_t \<times> kstate) option" where
  "rt_memheap_detach h s = do {
     is_memheap h s;
     rt_assert (rt_object_is_systemobject (OMemHeap h) s);
     Some (RT_EOK, rt_object_detach (OMemHeap h) (rt_object_detach (OSem (lock_of h s)) s)) }"

text \<open>Taking the lock: \<open>f\<close> goes on with the lock, \<open>g\<close> with the error.\<close>

definition heap_locked ::
  "nat \<Rightarrow> 'w \<Rightarrow> (kstate \<Rightarrow> (('a, 'w) outcome \<times> kstate) option) \<Rightarrow> 'a \<Rightarrow> kstate \<Rightarrow> (('a, 'w) outcome \<times> kstate) option" where
  "heap_locked h w f err s = do {
     (r, s) \<leftarrow> rt_sem_take (lock_of h s) RT_WAITING_FOREVER s;
     (case r of
        Blocked _ \<Rightarrow> Some (Blocked w, s)
      | Returned e \<Rightarrow> if e \<noteq> RT_EOK then Some (Returned err, rt_set_errno e s) else f s) }"

definition heap_woken ::
  "tid \<Rightarrow> (kstate \<Rightarrow> (('a, 'w) outcome \<times> kstate) option) \<Rightarrow> 'a \<Rightarrow> kstate \<Rightarrow> (('a, 'w) outcome \<times> kstate) option" where
  "heap_woken t f err s =
     (let e = rt_sem_take_wake t s in
      if e \<noteq> RT_EOK then Some (Returned err, rt_set_errno e s) else f s)"

definition heap_unlock :: "nat \<Rightarrow> kstate \<Rightarrow> kstate option" where
  "heap_unlock h s = map_option snd (rt_sem_release (lock_of h s) s)"

definition memheap_alloc_body :: "nat \<Rightarrow> u32 \<Rightarrow> kstate \<Rightarrow> ((heap_ptr option, u32) outcome \<times> kstate) option" where
  "memheap_alloc_body h sz s = do {
     (p, hp) \<leftarrow> memheap_take h sz (memheap h s);
     s \<leftarrow> heap_unlock h (heap_update h hp s);
     Some (Returned (map_option (Pair h) p), s) }"

definition rt_memheap_alloc :: "nat \<Rightarrow> u32 \<Rightarrow> kstate \<Rightarrow> ((heap_ptr option, u32) outcome \<times> kstate) option" where
  "rt_memheap_alloc h sz s = do {
     is_memheap h s;
     let sz = memheap_align sz;
     if sz < available_size (memheap h s)
     then heap_locked h sz (memheap_alloc_body h sz) None s
     else Some (Returned None, s) }"

definition rt_memheap_alloc_wake ::
  "nat \<Rightarrow> tid \<Rightarrow> u32 \<Rightarrow> kstate \<Rightarrow> ((heap_ptr option, u32) outcome \<times> kstate) option" where
  "rt_memheap_alloc_wake h t sz = heap_woken t (memheap_alloc_body h sz) None"

text \<open>Freeing: the header says which heap the block belongs to; the model has it in the memory of that heap.\<close>

definition memheap_free_body :: "nat \<Rightarrow> nat \<Rightarrow> kstate \<Rightarrow> ((unit, nat) outcome \<times> kstate) option" where
  "memheap_free_body h a s = do {
     hp \<leftarrow> memheap_put (Item a) (memheap h s);
     s \<leftarrow> heap_unlock h (heap_update h hp s);
     Some (Returned (), s) }"

definition rt_memheap_free :: "heap_ptr option \<Rightarrow> kstate \<Rightarrow> ((unit, nat) outcome \<times> kstate) option" where
  "rt_memheap_free ptr s =
     (case ptr of
        None \<Rightarrow> Some (Returned (), s)
      | Some (h, p) \<Rightarrow> do {
          rt_assert (unat RT_MEMHEAP_SIZE \<le> p);
          let a = p - unat RT_MEMHEAP_SIZE;
          let hp = memheap h s;
          rt_assert (magic_of hp (Item a) AND RT_MEMHEAP_MASK = RT_MEMHEAP_MAGIC);
          rt_assert (item_used hp (Item a));
          n \<leftarrow> next_of hp (Item a);
          rt_assert (magic_of hp n AND RT_MEMHEAP_MASK = RT_MEMHEAP_MAGIC);
          owner \<leftarrow> pool_of hp (Item a);
          rt_assert (owner = h);
          is_memheap h s;
          heap_locked h a (memheap_free_body h a) () s })"

definition rt_memheap_free_wake :: "nat \<Rightarrow> tid \<Rightarrow> nat \<Rightarrow> kstate \<Rightarrow> ((unit, nat) outcome \<times> kstate) option" where
  "rt_memheap_free_wake h t a = heap_woken t (memheap_free_body h a) ()"

text \<open>
  Where \<^verbatim>\<open>rt_memheap_realloc\<close> waits: for the lock to grow or to shrink the block at \<open>a\<close>, in
  \<^verbatim>\<open>rt_memheap_alloc\<close> for the copy, in \<^verbatim>\<open>rt_memheap_free\<close> of the old block, or in one of the two
  calls it is replaced by when the size or the pointer is 0.
\<close>

datatype realloc_wait =
    WaitGrow nat u32 u32 | WaitCopy nat u32 u32 u32 | WaitFreeOld nat heap_ptr
  | WaitShrink nat u32 | WaitAlloc u32 | WaitFree nat

definition memcpy_heap :: "nat \<Rightarrow> nat \<Rightarrow> u32 \<Rightarrow> rt_memheap \<Rightarrow> rt_memheap" where
  "memcpy_heap dst src n hp = hp\<lparr>heap_data := rt_memcpy dst src n (heap_data hp)\<rparr>"

fun wait_as :: "('w \<Rightarrow> 'v) \<Rightarrow> ('a \<Rightarrow> 'b) \<Rightarrow> ('a, 'w) outcome \<times> kstate \<Rightarrow> ('b, 'v) outcome \<times> kstate" where
  "wait_as w r (Returned x, s) = (Returned (r x), s)"
| "wait_as w r (Blocked x, s) = (Blocked (w x), s)"

text \<open>The new block is there: copy the old one and free it.\<close>

definition realloc_copy ::
  "nat \<Rightarrow> nat \<Rightarrow> u32 \<Rightarrow> u32 \<Rightarrow> heap_ptr option \<Rightarrow> kstate \<Rightarrow> ((heap_ptr option, realloc_wait) outcome \<times> kstate) option" where
  "realloc_copy h a oldsize newsize new s =
     (case new of
        None \<Rightarrow> Some (Returned None, s)
      | Some (h', q) \<Rightarrow>
          let hp = memcpy_heap q (a + unat RT_MEMHEAP_SIZE) (if oldsize < newsize then oldsize else newsize) (memheap h s) in
          map_option (wait_as (\<lambda>_. WaitFreeOld a (h', q)) (\<lambda>_. new))
            (rt_memheap_free (Some (h, a + unat RT_MEMHEAP_SIZE)) (heap_update h hp s)))"

definition realloc_move ::
  "nat \<Rightarrow> nat \<Rightarrow> u32 \<Rightarrow> u32 \<Rightarrow> (heap_ptr option, u32) outcome \<times> kstate \<Rightarrow>
     ((heap_ptr option, realloc_wait) outcome \<times> kstate) option" where
  "realloc_move h a oldsize newsize x =
     (case x of
        (Blocked sz, s) \<Rightarrow> Some (Blocked (WaitCopy a oldsize newsize sz), s)
      | (Returned new, s) \<Rightarrow> realloc_copy h a oldsize newsize new s)"

definition realloc_grow_body ::
  "nat \<Rightarrow> nat \<Rightarrow> u32 \<Rightarrow> u32 \<Rightarrow> kstate \<Rightarrow> ((heap_ptr option, realloc_wait) outcome \<times> kstate) option" where
  "realloc_grow_body h a oldsize newsize s = do {
     (grown, hp) \<leftarrow> memheap_grow h a oldsize newsize (memheap h s);
     s \<leftarrow> heap_unlock h (heap_update h hp s);
     if grown then Some (Returned (Some (h, a + unat RT_MEMHEAP_SIZE)), s)
     else do {
       x \<leftarrow> rt_memheap_alloc h newsize s;
       realloc_move h a oldsize newsize x } }"

definition realloc_shrink_body ::
  "nat \<Rightarrow> nat \<Rightarrow> u32 \<Rightarrow> kstate \<Rightarrow> ((heap_ptr option, realloc_wait) outcome \<times> kstate) option" where
  "realloc_shrink_body h a newsize s = do {
     hp \<leftarrow> memheap_shrink h a newsize (memheap h s);
     s \<leftarrow> heap_unlock h (heap_update h hp s);
     Some (Returned (Some (h, a + unat RT_MEMHEAP_SIZE)), s) }"

definition rt_memheap_realloc ::
  "nat \<Rightarrow> nat option \<Rightarrow> u32 \<Rightarrow> kstate \<Rightarrow> ((heap_ptr option, realloc_wait) outcome \<times> kstate) option" where
  "rt_memheap_realloc h ptr newsize s = do {
     is_memheap h s;
     if newsize = 0
     then map_option (wait_as WaitFree (\<lambda>_. None)) (rt_memheap_free (map_option (Pair h) ptr) s)
     else do {
       let newsize = memheap_align newsize;
       (case ptr of
          None \<Rightarrow> map_option (wait_as WaitAlloc id) (rt_memheap_alloc h newsize s)
        | Some p \<Rightarrow> do {
            rt_assert (unat RT_MEMHEAP_SIZE \<le> p);
            let a = p - unat RT_MEMHEAP_SIZE;
            oldsize \<leftarrow> memitem_size (Item a) (memheap h s);
            if newsize > oldsize
            then heap_locked h (WaitGrow a oldsize newsize) (realloc_grow_body h a oldsize newsize) None s
            else if newsize + RT_MEMHEAP_SIZE + RT_MEMHEAP_MINIALLOC \<ge> oldsize then Some (Returned (Some (h, p)), s)
            else heap_locked h (WaitShrink a newsize) (realloc_shrink_body h a newsize) None s }) } }"

definition rt_memheap_realloc_wake ::
  "nat \<Rightarrow> tid \<Rightarrow> realloc_wait \<Rightarrow> kstate \<Rightarrow> ((heap_ptr option, realloc_wait) outcome \<times> kstate) option" where
  "rt_memheap_realloc_wake h t w s =
     (case w of
        WaitGrow a oldsize newsize \<Rightarrow> heap_woken t (realloc_grow_body h a oldsize newsize) None s
      | WaitCopy a oldsize newsize sz \<Rightarrow>
          Option.bind (rt_memheap_alloc_wake h t sz s) (realloc_move h a oldsize newsize)
      | WaitFreeOld a new \<Rightarrow>
          map_option (wait_as (\<lambda>_. WaitFreeOld a new) (\<lambda>_. Some new)) (rt_memheap_free_wake h t a s)
      | WaitShrink a newsize \<Rightarrow> heap_woken t (realloc_shrink_body h a newsize) None s
      | WaitAlloc sz \<Rightarrow> map_option (wait_as WaitAlloc id) (rt_memheap_alloc_wake h t sz s)
      | WaitFree a \<Rightarrow> map_option (wait_as WaitFree (\<lambda>_. None)) (rt_memheap_free_wake h t a s))"

section \<open>Calls with the lock free\<close>

text \<open>
  The heap is an object, its lock is a free semaphore, and its blocks are the layout \<open>bs\<close>.
\<close>

definition heap_ready :: "nat \<Rightarrow> kstate \<Rightarrow> bool" where
  "heap_ready h s \<longleftrightarrow> rt_object_get_type (OMemHeap h) s = RT_Object_Class_MemHeap \<and>
     rt_object_get_type (OSem (lock_of h s)) s = RT_Object_Class_Semaphore \<and>
     sem_value (sems s (lock_of h s)) = 1 \<and> sem_waiters (lock_of h s) s = []"

definition heap_at :: "nat \<Rightarrow> kstate \<Rightarrow> layout \<Rightarrow> bool" where
  "heap_at h s bs \<longleftrightarrow> heap_ready h s \<and> (\<exists>fs. heap_rep h (memheap h s) bs fs)"

lemma heap_update_fields [simp]:
  "memheap h (heap_update h hp s) = hp" "objects (heap_update h hp s) = objects s"
  "sems (heap_update h hp s) = sems s" "thread_lists (heap_update h hp s) = thread_lists s"
  "rt_object_get_type x (heap_update h hp s) = rt_object_get_type x s"
  "heap_update h (memheap h s) s = s" "heap_update h hp (heap_update h hp' s) = heap_update h hp s"
  "memheap h (set_sem_value i v s) = memheap h s"
  by (simp_all add: heap_update_def rt_object_get_type_def set_sem_value_def)

lemma is_memheap_ready: "heap_ready h s \<Longrightarrow> is_memheap h s = Some ()"
  by (simp add: heap_ready_def is_memheap_def rt_assert_def)

lemma heap_ready_update [simp]:
  "heap_lock hp = lock_of h s \<Longrightarrow> heap_ready h (heap_update h hp s) = heap_ready h s"
  by (simp add: heap_ready_def)

lemma heap_locked_ready:
  "heap_ready h s \<Longrightarrow> heap_locked h w f err s = f (set_sem_value (lock_of h s) 0 s)"
  by (simp add: heap_ready_def heap_locked_def rt_sem_take_def is_sem_def rt_assert_def)

lemma heap_unlock_ready:
  assumes "heap_ready h s" "heap_lock hp = lock_of h s"
  shows "heap_unlock h (heap_update h hp (set_sem_value (lock_of h s) 0 s)) = Some (heap_update h hp s)"
  using assms
  by (simp add: heap_unlock_def rt_sem_release_def is_sem_def rt_assert_def heap_ready_def rt_object_get_type_def)
    (simp add: heap_update_def set_sem_value_def fun_upd_idem)

lemma heap_data_fields [simp]:
  "magic_of (hp\<lparr>heap_data := d\<rparr>) = magic_of hp" "pool_of (hp\<lparr>heap_data := d\<rparr>) = pool_of hp"
  "next_of (hp\<lparr>heap_data := d\<rparr>) = next_of hp" "prev_of (hp\<lparr>heap_data := d\<rparr>) = prev_of hp"
  "nfree_of (hp\<lparr>heap_data := d\<rparr>) = nfree_of hp" "pfree_of (hp\<lparr>heap_data := d\<rparr>) = pfree_of hp"
  by (simp_all add: accessor_defs fun_eq_iff)

lemma heap_data_rep [simp]: "heap_rep h (hp\<lparr>heap_data := d\<rparr>) bs fs = heap_rep h hp bs fs"
  by (simp add: heap_rep_def heap_shape_def)

lemma heap_at_update:
  assumes "heap_at h s bs" "heap_rep h hp bs' fs" "same_memory (memheap h s) hp"
  shows "heap_at h (heap_update h hp s) bs'"
  using assms by (auto simp: heap_at_def same_memory_def)

lemma heap_at_layout:
  assumes "heap_at h s bs"
  obtains e where "tiles 0 bs e" "distinct (map fst bs)" "compact bs" "e + 24 < 2 ^ 32"
proof -
  obtain fs where rep: "heap_rep h (memheap h s) bs fs" using assms by (auto simp: heap_at_def)
  note sh = heap_repD(1) [OF rep]
  have "unat (pool_size (memheap h s)) < 2 ^ LENGTH(32)" by (rule unsigned_less)
  then show thesis
    using that heap_shapeD(1,6) [OF sh] heap_shape_distinct(1) [OF sh] heap_repD(2) [OF rep] by simp
qed

lemma unat_RT_ALIGN:
  assumes "unat sz \<le> 2 ^ 32 - 4"
  shows "unat (RT_ALIGN sz RT_ALIGN_SIZE) = unat sz + 3 - (unat sz + 3) mod 4"
proof -
  have e: "RT_ALIGN sz RT_ALIGN_SIZE = RT_ALIGN_DOWN (sz + 3) RT_ALIGN_SIZE"
    by (simp add: RT_ALIGN_def RT_ALIGN_DOWN_def RT_ALIGN_SIZE_def add.commute)
  have "unat (sz + 3) = unat sz + 3" using assms by (subst unat_word_ariths) simp
  then show ?thesis unfolding e by (simp add: unat_align_down)
qed


text \<open>Allocation: the first block of the free ring that is large enough, when one is.\<close>

lemma rt_memheap_alloc_layout:
  assumes at: "heap_at h s bs" and n: "n = unat (memheap_align sz)"
  shows "if n < free_total bs \<and> (\<exists>a m. (a, m, True) \<in> set bs \<and> n \<le> m)
    then \<exists>a m hp. (a, m, True) \<in> set bs \<and> n \<le> m \<and>
      rt_memheap_alloc h sz s = Some (Returned (Some (h, a + 24)), heap_update h hp s) \<and>
      heap_at h (heap_update h hp s) (carve a n bs) \<and> heap_data hp = heap_data (memheap h s)
    else rt_memheap_alloc h sz s = Some (Returned None, s)"
proof -
  have rd: "heap_ready h s" using at by (simp add: heap_at_def)
  obtain fs where rep: "heap_rep h (memheap h s) bs fs" using at by (auto simp: heap_at_def)
  have av: "memheap_align sz < available_size (memheap h s) \<longleftrightarrow> n < free_total bs"
    using heap_repD(4) [OF rep] n by (simp add: word_less_nat_alt)
  show ?thesis
  proof (cases "n < free_total bs")
    case False
    with av is_memheap_ready [OF rd] show ?thesis by (simp add: rt_memheap_alloc_def Let_def)
  next
    case True
    have "12 \<le> n" unfolding n
      by (auto simp: memheap_align_def Let_def RT_MEMHEAP_MINIALLOC_def word_less_nat_alt)
    then have pos: "memheap_align sz > 0" using n by (simp add: word_less_nat_alt)
    have call: "rt_memheap_alloc h sz s = memheap_alloc_body h (memheap_align sz) (set_sem_value (lock_of h s) 0 s)"
      using True av is_memheap_ready [OF rd]
      by (simp add: rt_memheap_alloc_def Let_def heap_locked_ready [OF rd])
    have unlock: "heap_unlock h (heap_update h hp (set_sem_value (lock_of h s) 0 s)) = Some (heap_update h hp s)"
      if "same_memory (memheap h s) hp" for hp
      by (rule heap_unlock_ready [OF rd]) (use that in \<open>simp add: same_memory_def\<close>)
    show ?thesis
    proof (cases "\<exists>a m. (a, m, True) \<in> set bs \<and> n \<le> m")
      case False
      then have "memheap_take h (memheap_align sz) (memheap h s) = Some (None, memheap h s)"
        using memheap_take_rep [OF rep pos] n by (auto simp: linorder_not_le split: if_splits)
      then have "rt_memheap_alloc h sz s = Some (Returned None, s)"
        using call unlock [of "memheap h s"] by (simp add: memheap_alloc_body_def)
      with False show ?thesis by simp
    next
      case hit: True
      then have no: "\<not> (\<forall>a m. (a, m, True) \<in> set bs \<longrightarrow> m < unat (memheap_align sz))" using n by (meson linorder_not_le)
      obtain a m hp fs' where t: "(a, m, True) \<in> set bs" "n \<le> m"
        "memheap_take h (memheap_align sz) (memheap h s) = Some (Some (a + 24), hp)"
        "heap_rep h hp (carve a n bs) fs'" "same_memory (memheap h s) hp"
        using memheap_take_rep [OF rep pos] unfolding if_not_P [OF no] unfolding n [symmetric] by (elim exE conjE) (rule that)
      have "rt_memheap_alloc h sz s = Some (Returned (Some (h, a + 24)), heap_update h hp s)"
        using call unlock [OF t(5)] t(3) by (simp add: memheap_alloc_body_def)
      moreover have "heap_at h (heap_update h hp s) (carve a n bs)" by (rule heap_at_update [OF at t(4,5)])
      moreover have "heap_data hp = heap_data (memheap h s)" using t(5) by (simp add: same_memory_def)
      ultimately show ?thesis using True hit t(1,2) by auto
    qed
  qed
qed

lemma rt_memheap_free_layout:
  assumes at: "heap_at h s bs" and a: "(a, n, False) \<in> set bs"
  obtains hp where "rt_memheap_free (Some (h, a + 24)) s = Some (Returned (), heap_update h hp s)"
    "heap_at h (heap_update h hp s) (coalesce (release a bs))" "heap_data hp = heap_data (memheap h s)"
proof -
  have rd: "heap_ready h s" using at by (simp add: heap_at_def)
  obtain fs where rep: "heap_rep h (memheap h s) bs fs" using at by (auto simp: heap_at_def)
  note sh = heap_repD(1) [OF rep]
  obtain us vs where bs: "bs = us @ (a, n, False) # vs" using a by (meson split_list)
  have nx: "next_of (memheap h s) (Item a) = Some (Item (a + 24 + n))"
    using heap_shape_next(1) [of h "memheap h s" us a n False vs fs] sh bs by simp
  have mg: "magic_of (memheap h s) (Item a) = block_magic False" "pool_of (memheap h s) (Item a) = Some h"
    using heap_shapeD(7) [OF sh a] by simp_all
  have nm: "magic_of (memheap h s) (Item (a + 24 + n)) AND RT_MEMHEAP_MASK = RT_MEMHEAP_MAGIC"
  proof (cases vs)
    case Nil
    then have "a + 24 + n = tail_of (memheap h s)" using heap_shapeD(1) [OF sh] bs by (auto simp: tiles_append)
    then show ?thesis using heap_shapeD(5) [OF sh] by simp
  next
    case (Cons x ws)
    obtain b m g where x: "x = (b, m, g)" by (cases x)
    have "b = a + 24 + n" using heap_shapeD(1) [OF sh] bs Cons x by (auto simp: tiles_append)
    moreover have "magic_of (memheap h s) (Item b) = block_magic g"
      using heap_shapeD(7) [OF sh, of b m g] bs Cons x by simp
    ultimately show ?thesis by simp
  qed
  obtain hp fs' where p: "memheap_put (Item a) (memheap h s) = Some hp"
    "heap_rep h hp (coalesce (release a bs)) fs'" "same_memory (memheap h s) hp"
    by (rule memheap_put_rep [OF rep a])
  have unlock: "heap_unlock h (heap_update h hp (set_sem_value (lock_of h s) 0 s)) = Some (heap_update h hp s)"
    by (rule heap_unlock_ready [OF rd]) (use p(3) in \<open>simp add: same_memory_def\<close>)
  have "rt_memheap_free (Some (h, a + 24)) s = Some (Returned (), heap_update h hp s)"
    using nx mg nm p(1) unlock is_memheap_ready [OF rd]
    by (simp add: heap_locked_ready [OF rd] rt_memheap_free_def unat_heap_size rt_assert_def item_used_magic memheap_free_body_def Let_def)
  then show thesis using that heap_at_update [OF at p(2,3)] p(3) by (simp add: same_memory_def)
qed

text \<open>Reallocation grows in place, moves, shrinks or keeps the block.\<close>

lemma heap_at_rep:
  assumes "heap_at h s bs"
  obtains fs where "heap_rep h (memheap h s) bs fs" "heap_ready h s"
  using assms by (auto simp: heap_at_def)

lemma heap_at_bounds:
  assumes "heap_at h s bs" "(a, n, f) \<in> set bs"
  shows "n + 48 < 2 ^ 32" "unat (of_nat n :: u32) = n" "memitem_size (Item a) (memheap h s) = Some (of_nat n)"
proof -
  obtain fs where rep: "heap_rep h (memheap h s) bs fs" using assms(1) by (rule heap_at_rep)
  note sh = heap_repD(1) [OF rep]
  show "n + 48 < 2 ^ 32" "unat (of_nat n :: u32) = n" using heap_shape_bounds [OF sh assms(2)] by simp_all
  obtain us vs where bs: "bs = us @ (a, n, f) # vs" using assms(2) by (meson split_list)
  show "memitem_size (Item a) (memheap h s) = Some (of_nat n)"
    using heap_shape_next(2) [of h "memheap h s" us a n f vs fs] sh bs by simp
qed






section \<open>The heap as an allocator\<close>




definition heap_bytes :: "nat \<Rightarrow> kstate \<Rightarrow> nat \<Rightarrow> u8" where
  "heap_bytes h s = heap_data (memheap h s)"


















section \<open>What the calls do\<close>


text \<open>
  \<^verbatim>\<open>rt_memheap_alloc\<close> on every branch of a heap that nobody has locked: when the aligned size is
  below the available bytes and a free block is large enough, a free block is carved (split when
  more than a smallest block would be left) and the pointer is the one behind its header;
  otherwise the result is null and nothing changes. The payload bytes are never touched.
\<close>

theorem rt_memheap_alloc_result:
  fixes sz :: u32
  assumes "heap_at h s bs"
  defines "n \<equiv> unat (memheap_align sz)"
  shows "(\<exists>a m s'. n < free_total bs \<and> (a, m, True) \<in> set bs \<and> n \<le> m \<and>
        rt_memheap_alloc h sz s = Some (Returned (Some (h, a + 24)), s') \<and> heap_at h s' (carve a n bs) \<and>
        heap_bytes h s' = heap_bytes h s) \<or>
    (\<not> n < free_total bs \<or> (\<forall>a m. (a, m, True) \<in> set bs \<longrightarrow> m < n)) \<and>
      rt_memheap_alloc h sz s = Some (Returned None, s)"
proof (cases "n < free_total bs \<and> (\<exists>a m. (a, m, True) \<in> set bs \<and> n \<le> m)")
  case True
  then show ?thesis
    using rt_memheap_alloc_layout [OF assms(1), of n sz] n_def unfolding if_P [OF True] by (auto simp: heap_bytes_def)
next
  case False
  then show ?thesis
    using rt_memheap_alloc_layout [OF assms(1), of n sz] n_def unfolding if_not_P [OF False] by (auto simp: linorder_not_le)
qed

text \<open>
  C14: Freeing a block right after it was allocated gives back the heap as it was: the same blocks
  with the same free bytes, since the split block is merged again.
\<close>

theorem rt_memheap_alloc_free_roundtrip:
  assumes "heap_at h s bs" "rt_memheap_alloc h sz s = Some (Returned (Some p), s')"
  shows "\<exists>s''. rt_memheap_free (Some p) s' = Some (Returned (), s'') \<and> heap_at h s'' bs \<and>
    heap_bytes h s'' = heap_bytes h s"
proof -
  let ?n = "unat (memheap_align sz)"
  have hit: "?n < free_total bs \<and> (\<exists>a m. (a, m, True) \<in> set bs \<and> ?n \<le> m)"
    using rt_memheap_alloc_layout [OF assms(1) refl, of sz] assms(2) by (auto split: if_splits)
  obtain a m hp where a: "(a, m, True) \<in> set bs" "?n \<le> m"
    "rt_memheap_alloc h sz s = Some (Returned (Some (h, a + 24)), heap_update h hp s)"
    "heap_at h (heap_update h hp s) (carve a ?n bs)" "heap_data hp = heap_data (memheap h s)"
    using rt_memheap_alloc_layout [OF assms(1) refl, of sz] unfolding if_P [OF hit] by (elim exE conjE) (rule that)
  obtain e where lay: "tiles 0 bs e" "distinct (map fst bs)" "compact bs" using assms(1) by (rule heap_at_layout)
  obtain j where "used (carve a ?n bs) = insert (a, j) (used bs)" by (rule used_carve [OF lay(2) a(1,2)])
  then have "(a, j, False) \<in> set (carve a ?n bs)" by (auto simp: used_def)
  from rt_memheap_free_layout [OF a(4) this] obtain hp' where
    "rt_memheap_free (Some (h, a + 24)) (heap_update h hp s) = Some (Returned (), heap_update h hp' (heap_update h hp s))"
    "heap_at h (heap_update h hp' (heap_update h hp s)) (coalesce (release a (carve a ?n bs)))"
    "heap_data hp' = heap_data (memheap h (heap_update h hp s))" by blast
  then show ?thesis using a(3,5) assms(2) release_carve [OF lay(2,3) a(1) lay(1)] by (auto simp: heap_bytes_def)
qed

text \<open>
  The aligned size of a request of the last three bytes of the size range wraps around to 0,
  which is raised to the smallest block: the caller that asked for almost 4 GiB gets the 12 bytes
  that a request for 12 gets, and no error.
\<close>

theorem rt_memheap_alloc_wraps:
  assumes "heap_at h s bs" "unat sz > 2 ^ 32 - 4" "(a, m, True) \<in> set bs" "12 \<le> m" "12 < free_total bs"
  shows "\<exists>b k s'. rt_memheap_alloc h sz s = Some (Returned (Some (h, b + 24)), s') \<and>
    heap_at h s' (carve b 12 bs) \<and> (b, k, True) \<in> set bs \<and> rt_memheap_alloc h 12 s = rt_memheap_alloc h sz s"
proof -
  have e: "sz = 0xfffffffd \<or> sz = 0xfffffffe \<or> sz = 0xffffffff"
  proof -
    have "unat sz < 2 ^ LENGTH(32)" by (rule unsigned_less)
    with assms(2) have "unat sz = 4294967293 \<or> unat sz = 4294967294 \<or> unat sz = 4294967295" by auto
    then show ?thesis by (auto simp: word_unat_eq_iff)
  qed
  then have al: "memheap_align sz = 12"
    by (auto simp: memheap_align_def RT_ALIGN_def RT_ALIGN_SIZE_def RT_MEMHEAP_MINIALLOC_def)
  have al': "memheap_align 12 = 12"
    by (simp add: memheap_align_def RT_ALIGN_def RT_ALIGN_SIZE_def RT_MEMHEAP_MINIALLOC_def)
  have hit: "12 < free_total bs \<and> (\<exists>a m. (a, m, True) \<in> set bs \<and> 12 \<le> m)" using assms(3-5) by blast
  have "rt_memheap_alloc h sz s = rt_memheap_alloc h 12 s" by (simp add: rt_memheap_alloc_def al al')
  then show ?thesis
    using rt_memheap_alloc_layout [OF assms(1) refl, of sz] hit unfolding al by auto
qed

text \<open>
  A request that would use all available bytes is refused although it fits: the comparison with
  the available bytes is strict.
\<close>

lemma rt_memheap_alloc_exact_fit:
  assumes "heap_at h s [(0, n, True)]" "unat (memheap_align sz) = n"
  shows "rt_memheap_alloc h sz s = Some (Returned None, s)"
  using rt_memheap_alloc_layout [OF assms(1) refl, of sz] assms(2) by simp

text \<open>
  \<^verbatim>\<open>rt_memheap_realloc\<close> of a block with a free neighbour to a size within 16 bytes of the size
  range: the sum of the new size and the smallest block wraps around, the test for room succeeds,
  and the new free block is written outside of the heap.
\<close>

theorem rt_memheap_realloc_overruns:
  assumes "heap_at h s (us @ (a, n, False) # (b, m, True) # vs)" "2 ^ 32 - 16 < unat sz" "unat sz \<le> 2 ^ 32 - 4" "8 < m + n"
  shows "rt_memheap_realloc h (Some (a + 24)) sz s = None"
proof -
  let ?bs = "us @ (a, n, False) # (b, m, True) # vs"
  obtain fs where rep: "heap_rep h (memheap h s) ?bs fs" and rd: "heap_ready h s" using assms(1) by (rule heap_at_rep)
  note sh = heap_repD(1) [OF rep]
  note bd = heap_at_bounds [OF assms(1), of a n False]
  let ?K = "memheap_align sz"
  have u: "unat (RT_ALIGN sz RT_ALIGN_SIZE) = unat sz + 3 - (unat sz + 3) mod 4" by (rule unat_RT_ALIGN [OF assms(3)])
  have sz: "4294967280 < unat sz" "unat sz \<le> 4294967292" using assms(2,3) by simp_all
  have K: "4294967284 \<le> unat ?K" "unat ?K \<le> 4294967292"
  proof -
    have "4294967284 \<le> unat (RT_ALIGN sz RT_ALIGN_SIZE)" "unat (RT_ALIGN sz RT_ALIGN_SIZE) \<le> 4294967292"
      unfolding u using sz by presburger+
    then show "4294967284 \<le> unat ?K" "unat ?K \<le> 4294967292"
      by (auto simp: memheap_align_def Let_def RT_MEMHEAP_MINIALLOC_def word_less_nat_alt)
  qed
  have gt: "?K > of_nat n" using bd K by (simp add: word_less_nat_alt)
  have bb: "b = a + 24 + n" using heap_shapeD(1) [OF sh] by (auto simp: tiles_append)
  have nx: "next_of (memheap h s) (Item a) = Some (Item b)" using heap_shape_next(1) [OF sh] bb by simp
  have shb: "heap_shape h (memheap h s) ((us @ [(a, n, False)]) @ (b, m, True) # vs) fs" using sh by simp
  have ms: "memitem_size (Item b) (memheap h s) = Some (of_nat m)" by (rule heap_shape_next(2) [OF shb])
  have fr: "\<not> item_used (memheap h s) (Item b)" using heap_shapeD(7) [OF sh, of b m True] by (simp add: item_used_def)
  have mn: "m + n < 2 ^ 32"
  proof -
    have "unat (pool_size (memheap h s)) < 2 ^ LENGTH(32)" by (rule unsigned_less)
    then show ?thesis using heap_shape_bounds(1) [OF sh, of b m True] bb by simp
  qed
  have room: "(of_nat m + of_nat n :: u32) > ?K + RT_MEMHEAP_MINIALLOC"
  proof -
    have "unat (?K + RT_MEMHEAP_MINIALLOC) = unat ?K + 12 - 4294967296"
      using K by (simp add: RT_MEMHEAP_MINIALLOC_def unat_word_ariths mod_if)
    moreover have "unat (of_nat m + of_nat n :: u32) = m + n" using unat_of_nat32 [OF mn] by simp
    ultimately show ?thesis using K assms(4) by (simp add: word_less_nat_alt)
  qed
  have out: "\<not> a + unat RT_MEMHEAP_SIZE + unat ?K + unat RT_MEMHEAP_SIZE \<le> unat (pool_size hp)" for hp
  proof -
    have "unat (pool_size hp) < 2 ^ LENGTH(32)" by (rule unsigned_less)
    then show ?thesis using K by (simp add: unat_heap_size)
  qed
  have "memheap_grow h a (of_nat n) ?K (memheap h s) = None"
    using nx bb ms fr room out by (auto simp: memheap_grow_def rt_assert_def Let_def bind_eq_None_conv)
  moreover have "sz \<noteq> 0" using sz by auto
  ultimately show ?thesis
    using bd(3) gt is_memheap_ready [OF rd]
    by (simp add: rt_memheap_realloc_def rt_assert_def unat_heap_size Let_def heap_locked_ready [OF rd] realloc_grow_body_def)
qed

text \<open>
  \<^verbatim>\<open>rt_memheap_detach\<close> takes the lock out of the semaphores and wakes nobody: a thread that waits
  for the heap stays suspended on it.
\<close>

lemma rt_memheap_detach_leaves_waiters:
  assumes "rt_memheap_detach h s = Some (e, s')"
  shows "e = RT_EOK" "sem_waiters (lock_of h s) s' = sem_waiters (lock_of h s) s" "threads s' = threads s"
  using assms
  by (auto simp: rt_memheap_detach_def bind_Some_iff rt_object_detach_def container_remove_def object_update_def)

lemma heap_locked_waits:
  assumes "sem_value (sems s (lock_of h s)) = 0" "heap_locked h w f err s = Some (r, s')"
  shows "drivers s' = drivers s \<and> r = Blocked w"
  using assms
  by (auto simp: heap_locked_def rt_sem_take_def bind_Some_iff RT_WAITING_FOREVER_def Let_def
      dest!: ipc_frameD(14) [OF ipc_block_frame])

text \<open>
  While another thread holds the lock of a heap, no call touches its blocks: allocating,
  freeing and reallocating either return at once without an effect or leave the caller waiting
  for the lock.
\<close>

theorem memheap_mutual_exclusion:
  assumes "sem_value (sems s (lock_of h s)) = 0"
  shows "(\<forall>sz ra s'. rt_memheap_alloc h sz s = Some (ra, s') \<longrightarrow>
      drivers s' = drivers s \<and> (ra = Returned None \<or> (\<exists>w. ra = Blocked w))) \<and>
    (\<forall>p rf s'. rt_memheap_free (Some (h, p)) s = Some (rf, s') \<longrightarrow> drivers s' = drivers s \<and> (\<exists>w. rf = Blocked w)) \<and>
    (\<forall>p sz rr s'. rt_memheap_realloc h (Some p) sz s = Some (rr, s') \<longrightarrow>
      drivers s' = drivers s \<and> (rr = Returned (Some (h, p)) \<or> (\<exists>w. rr = Blocked w)))"
proof -
  have a: "drivers s' = drivers s \<and> (ra = Returned None \<or> (\<exists>w. ra = Blocked w))"
    if "rt_memheap_alloc h sz s = Some (ra, s')" for sz ra s'
    using that by (auto simp: rt_memheap_alloc_def bind_Some_iff Let_def dest!: heap_locked_waits [OF assms] split: if_splits)
  have f: "drivers s' = drivers s \<and> (\<exists>w. rf = Blocked w)" if "rt_memheap_free (Some (h, p)) s = Some (rf, s')" for p rf s'
    using that by (auto simp: rt_memheap_free_def bind_Some_iff Let_def dest!: heap_locked_waits [OF assms] split: if_splits)
  have r: "drivers s' = drivers s \<and> (rr = Returned (Some (h, p)) \<or> (\<exists>w. rr = Blocked w))"
    if r: "rt_memheap_realloc h (Some p) sz s = Some (rr, s')" for p sz rr s'
  proof (cases "sz = 0")
    case True
    with r obtain x s4 where "rt_memheap_free (Some (h, p)) s = Some (x, s4)" "wait_as WaitFree (\<lambda>_. None) (x, s4) = (rr, s')"
      by (auto simp: rt_memheap_realloc_def bind_Some_iff)
    with f [OF this(1)] show ?thesis by auto
  next
    case False
    with r show ?thesis
      by (auto simp: rt_memheap_realloc_def bind_Some_iff Let_def dest!: heap_locked_waits [OF assms] split: if_splits)
  qed
  show ?thesis using a f r by blast
qed

text \<open>The object, the one free block and the lock of a new heap.\<close>

lemma rt_memheap_init_layout:
  assumes "sys_ok s" "OMemHeap h \<notin> set (containers s RT_Object_Class_MemHeap)"
    and "OSem (lock_of h s) \<notin> set (containers s RT_Object_Class_Semaphore)"
  shows "if 48 \<le> unat sz
    then \<exists>s'. rt_memheap_init h name sz s = Some (RT_EOK, s') \<and>
      heap_at h s' [(0, unat (RT_ALIGN_DOWN sz RT_ALIGN_SIZE) - 48, True)]
    else rt_memheap_init h name sz s = None"
proof -
  have inf: "rt_object_get_information RT_Object_Class_MemHeap = Some RT_Object_Class_MemHeap"
    "rt_object_get_information RT_Object_Class_Semaphore = Some RT_Object_Class_Semaphore"
    by (simp_all add: rt_object_get_information_def rt_object_container_types_def obj_simps)
  obtain s1 where s1: "rt_object_init (OMemHeap h) RT_Object_Class_MemHeap name s = Some s1" "sys_ok s1"
    "drivers s1 = drivers s" "objects s1 = (objects s)(OMemHeap h := (objects s (OMemHeap h))\<lparr>obj_type :=
      RT_Object_Class_MemHeap OR RT_Object_Class_Static, obj_name := take RT_NAME_MAX name\<rparr>)"
    "containers s1 = (containers s)(RT_Object_Class_MemHeap := OMemHeap h # containers s RT_Object_Class_MemHeap)"
    by (rule rt_object_init_total [OF assms(1) inf(1) assms(2)])
  show ?thesis
  proof (cases "48 \<le> unat sz")
    case False
    have "memheap_setup h sz (memheap h s1) = None" by (rule memheap_setup_small) (use False in simp)
    then show ?thesis using False s1(1) by (simp add: rt_memheap_init_def)
  next
    case True
    obtain hp where hp: "memheap_setup h sz (memheap h s1) = Some hp"
      "heap_rep h hp [(0, unat (RT_ALIGN_DOWN sz RT_ALIGN_SIZE) - 48, True)] [0]" "heap_lock hp = heap_lock (memheap h s1)"
      by (rule memheap_setup_rep [OF True])
    let ?s2 = "heap_update h hp s1" and ?L = "lock_of h s"
    have ok: "sys_ok ?s2"
      using s1(2) by (simp add: sys_ok_def stacks_ok_def thread_stat_def heap_update_def rt_scheduler_stack_check_def)
    have L: "lock_of h s1 = ?L" "OSem ?L \<notin> set (containers ?s2 RT_Object_Class_Semaphore)"
      using s1(3,5) assms(3) by (simp_all add: heap_update_def obj_simps)
    obtain s3 where s3: "rt_object_init (OSem ?L) RT_Object_Class_Semaphore name ?s2 = Some s3" "drivers s3 = drivers ?s2"
      "objects s3 = (objects ?s2)(OSem ?L := (objects ?s2 (OSem ?L))\<lparr>obj_type :=
        RT_Object_Class_Semaphore OR RT_Object_Class_Static, obj_name := take RT_NAME_MAX name\<rparr>)"
      by (rule rt_object_init_total [OF ok inf(2) L(2)])
    let ?s4 = "set_ipc_flag (OSem ?L) RT_IPC_FLAG_FIFO (set_sem_value ?L 1 (rt_ipc_object_init (OSem ?L) s3))"
    have call: "rt_memheap_init h name sz s = Some (RT_EOK, ?s4)"
      using s1(1) hp(1) s3(1) L(1) by (simp add: rt_memheap_init_def rt_sem_init_def rt_assert_def Let_def)
    have mh: "memheap h ?s4 = hp"
      using s3(2) by (simp add: set_ipc_flag_def object_update_def set_sem_value_def rt_ipc_object_init_def heap_update_def)
    have "heap_ready h ?s4"
      using s3(3) s1(4) hp(3) L(1) unfolding heap_ready_def mh
      by (simp add: rt_object_get_type_def set_ipc_flag_def object_update_def rt_ipc_object_init_def obj_simps)
    then have "heap_at h ?s4 [(0, unat (RT_ALIGN_DOWN sz RT_ALIGN_SIZE) - 48, True)]"
      using hp(2) mh by (auto simp: heap_at_def)
    then show ?thesis using True call by auto
  qed
qed

text \<open>
  \<^verbatim>\<open>rt_memheap_init\<close> gives a heap of one free block that fills the area but for the two headers,
  with the lock free; an area with no room for two headers makes it write behind the area.
\<close>

theorem rt_memheap_init_result:
  assumes "sys_ok s" "OMemHeap h \<notin> set (containers s RT_Object_Class_MemHeap)"
    and "OSem (lock_of h s) \<notin> set (containers s RT_Object_Class_Semaphore)"
  shows "(48 \<le> unat sz \<longrightarrow> (\<exists>s'. rt_memheap_init h name sz s = Some (RT_EOK, s') \<and>
      heap_at h s' [(0, unat (RT_ALIGN_DOWN sz RT_ALIGN_SIZE) - 48, True)])) \<and>
    (unat sz < 48 \<longrightarrow> rt_memheap_init h name sz s = None)"
  using rt_memheap_init_layout [OF assms, of sz name] by auto

end
