(* ===== verification/RTT_Pages.thy ===== *)
theory RTT_Pages
  imports RTT_Prelude
begin

text \<open>
  The page allocator below the slab allocator (\<^verbatim>\<open>slab.c\<close>): a list of runs of free pages in address
  order. A page is its number, counted from \<^verbatim>\<open>heap_start\<close>; the header that a free run keeps in its
  first page is an entry of the table \<open>page_head\<close>. The code walks the list with a pointer to the link
  that leads to the current run: the list head or the \<^verbatim>\<open>next\<close> field of a run.
\<close>

definition RT_MM_PAGE_SIZE :: nat where "RT_MM_PAGE_SIZE = 4096"

record rt_page_head =
  ph_next :: "nat option"
  ph_page :: nat

record page_state =
  rt_page_list :: "nat option"
  page_head :: "nat \<Rightarrow> rt_page_head"

datatype page_link = ListHead | NextOf nat

fun read_link :: "page_link \<Rightarrow> page_state \<Rightarrow> nat option" where
  "read_link ListHead s = rt_page_list s"
| "read_link (NextOf b) s = ph_next (page_head s b)"

definition set_head :: "nat \<Rightarrow> rt_page_head \<Rightarrow> page_state \<Rightarrow> page_state" where
  "set_head b h s = s\<lparr>page_head := (page_head s)(b := h)\<rparr>"

fun write_link :: "page_link \<Rightarrow> nat option \<Rightarrow> page_state \<Rightarrow> page_state" where
  "write_link ListHead p s = s\<lparr>rt_page_list := p\<rparr>"
| "write_link (NextOf b) p s = set_head b ((page_head s b)\<lparr>ph_next := p\<rparr>) s"

partial_function (option) page_alloc_loop ::
  "nat \<Rightarrow> page_link \<Rightarrow> page_state \<Rightarrow> (nat option \<times> page_state) option" where
  "page_alloc_loop npages prev s =
     (case read_link prev s of
        None \<Rightarrow> Some (None, s)
      | Some b \<Rightarrow>
          let h = page_head s b in
          if ph_page h > npages
          then Some (Some b, write_link prev (Some (b + npages))
            (set_head (b + npages) \<lparr>ph_next = ph_next h, ph_page = ph_page h - npages\<rparr> s))
          else if ph_page h = npages then Some (Some b, write_link prev (ph_next h) s)
          else page_alloc_loop npages (NextOf b) s)"

text \<open>\<^verbatim>\<open>__rt_page_alloc\<close>\<close>

definition page_alloc :: "nat \<Rightarrow> page_state \<Rightarrow> (nat option \<times> page_state) option" where
  "page_alloc npages s = (if npages = 0 then Some (None, s) else page_alloc_loop npages ListHead s)"

text \<open>The run that ends where the freed pages start takes them, and the run behind them too.\<close>

definition page_join :: "nat \<Rightarrow> nat \<Rightarrow> page_state \<Rightarrow> page_state" where
  "page_join b npages s =
     (let h = page_head s b; k = ph_page h + npages in
      case ph_next h of
        None \<Rightarrow> set_head b (h\<lparr>ph_page := k\<rparr>) s
      | Some c \<Rightarrow>
          if b + k = c then set_head b \<lparr>ph_next = ph_next (page_head s c), ph_page = k + ph_page (page_head s c)\<rparr> s
          else set_head b (h\<lparr>ph_page := k\<rparr>) s)"

definition page_insert :: "nat \<Rightarrow> nat \<Rightarrow> nat option \<Rightarrow> page_link \<Rightarrow> page_state \<Rightarrow> page_state" where
  "page_insert n npages b prev s = write_link prev (Some n) (set_head n \<lparr>ph_next = b, ph_page = npages\<rparr> s)"

partial_function (option) page_free_loop ::
  "nat \<Rightarrow> nat \<Rightarrow> page_link \<Rightarrow> page_state \<Rightarrow> page_state option" where
  "page_free_loop n npages prev s =
     (case read_link prev s of
        None \<Rightarrow> Some (page_insert n npages None prev s)
      | Some b \<Rightarrow>
          let h = page_head s b in
          if \<not> (ph_page h > 0 \<and> (b > n \<or> b + ph_page h \<le> n)) then None
          else if b + ph_page h = n then Some (page_join b npages s)
          else if b = n + npages
          then Some (page_insert n (ph_page h + npages) (ph_next h) prev s)
          else if b > n + npages then Some (page_insert n npages (Some b) prev s)
          else page_free_loop n npages (NextOf b) s)"

text \<open>\<^verbatim>\<open>__rt_page_free\<close>; that the address is the start of a page is part of its type here.\<close>

definition page_free :: "nat \<Rightarrow> nat \<Rightarrow> page_state \<Rightarrow> page_state option" where
  "page_free n npages s = do {
     rt_assert (npages \<noteq> 0);
     page_free_loop n npages ListHead s }"

definition rt_page_init :: "nat \<Rightarrow> page_state \<Rightarrow> page_state option" where
  "rt_page_init npages s = do {
     rt_assert (npages \<noteq> 0);
     page_free 0 npages (s\<lparr>rt_page_list := None\<rparr>) }"

section \<open>Lists of runs\<close>

type_synonym runs = "(nat \<times> nat) list"

fun runs_at :: "(nat \<Rightarrow> rt_page_head) \<Rightarrow> nat option \<Rightarrow> runs \<Rightarrow> bool" where
  "runs_at hs p [] \<longleftrightarrow> p = None"
| "runs_at hs p ((b, k) # rs) \<longleftrightarrow> p = Some b \<and> ph_page (hs b) = k \<and> runs_at hs (ph_next (hs b)) rs"

text \<open>Runs in address order that do not touch, from \<open>lo\<close> up to \<open>hi\<close>.\<close>

fun runs_ok :: "nat \<Rightarrow> nat \<Rightarrow> runs \<Rightarrow> bool" where
  "runs_ok lo hi [] \<longleftrightarrow> True"
| "runs_ok lo hi ((b, k) # rs) \<longleftrightarrow> lo \<le> b \<and> 0 < k \<and> b + k \<le> hi \<and> runs_ok (b + k + 1) hi rs"

fun run_pages :: "runs \<Rightarrow> nat set" where
  "run_pages [] = {}"
| "run_pages ((b, k) # rs) = {b..<b + k} \<union> run_pages rs"

lemma runs_ok_mono: "runs_ok lo hi rs \<Longrightarrow> lo' \<le> lo \<Longrightarrow> runs_ok lo' hi rs"
  by (cases rs) auto

lemma runs_ok_pages: "runs_ok lo hi rs \<Longrightarrow> x \<in> run_pages rs \<Longrightarrow> lo \<le> x \<and> x < hi"
  by (induction lo hi rs rule: runs_ok.induct) fastforce+

lemma runs_starts: "runs_ok lo hi rs \<Longrightarrow> b \<in> fst ` set rs \<Longrightarrow> b \<in> run_pages rs"
  by (induction lo hi rs rule: runs_ok.induct) auto

lemma runs_at_cong: "(\<And>b. b \<in> fst ` set rs \<Longrightarrow> hs' b = hs b) \<Longrightarrow> runs_at hs' p rs = runs_at hs p rs"
  by (induction hs p rs rule: runs_at.induct) auto

text \<open>The set of free pages determines the list.\<close>

lemma runs_first:
  assumes "runs_ok lo hi ((b, k) # rs)" "runs_ok lo' hi' ((c, l) # rs')" "run_pages ((b, k) # rs) = run_pages ((c, l) # rs')"
  shows "b = c" "k = l" "run_pages rs = run_pages rs'"
proof -
  have up: "\<And>x. x \<in> run_pages rs \<Longrightarrow> b + k < x" "\<And>x. x \<in> run_pages rs' \<Longrightarrow> c + l < x"
    using assms(1,2) runs_ok_pages [of "b + k + 1" hi rs] runs_ok_pages [of "c + l + 1" hi' rs'] by fastforce+
  have "c \<in> run_pages ((b, k) # rs)" unfolding assms(3) using assms(2) by simp
  moreover have "b \<in> run_pages ((c, l) # rs')" unfolding assms(3) [symmetric] using assms(1) by simp
  ultimately show bc: "b = c" using up [of b] up [of c] by auto
  have "b + k \<notin> run_pages ((b, k) # rs)" "c + l \<notin> run_pages ((c, l) # rs')" using up by auto
  then have "b + k \<notin> {c..<c + l}" "c + l \<notin> {b..<b + k}" using assms(3) by auto
  then show kl: "k = l" using bc by auto
  show "run_pages rs = run_pages rs'"
  proof -
    have "{b..<b + k} \<inter> run_pages rs = {}" "{c..<c + l} \<inter> run_pages rs' = {}"
      by (fastforce dest: up)+
    then show ?thesis using assms(3) unfolding bc kl by auto
  qed
qed

lemma runs_unique:
  "runs_ok lo hi rs \<Longrightarrow> runs_ok lo' hi' rs' \<Longrightarrow> run_pages rs = run_pages rs' \<Longrightarrow> rs = rs'"
proof (induction lo hi rs arbitrary: lo' rs' rule: runs_ok.induct)
  case (1 lo hi)
  then show ?case by (cases rs') (auto dest!: sym [of "{}"])
next
  case (2 lo hi b k rs)
  show ?case
  proof (cases rs')
    case Nil
    then show ?thesis using 2 by auto
  next
    case (Cons x ys)
    obtain c l where x: "x = (c, l)" by (cases x)
    note f = runs_first [OF 2(2) 2(3) [unfolded Cons x] 2(4) [unfolded Cons x]]
    then show ?thesis using 2(1) [of "c + l + 1" ys] 2(2,3) Cons x by simp
  qed
qed

section \<open>The reference operations\<close>

fun take_run :: "nat \<Rightarrow> runs \<Rightarrow> (nat \<times> runs) option" where
  "take_run n [] = None"
| "take_run n ((b, k) # rs) =
     (if k > n then Some (b, (b + n, k - n) # rs)
      else if k = n then Some (b, rs)
      else map_option (\<lambda>(c, ys). (c, (b, k) # ys)) (take_run n rs))"

fun put_run :: "nat \<Rightarrow> nat \<Rightarrow> runs \<Rightarrow> runs" where
  "put_run n j [] = [(n, j)]"
| "put_run n j ((b, k) # rs) =
     (if b + k = n
      then (case rs of
          [] \<Rightarrow> [(b, k + j)]
        | (c, l) # ys \<Rightarrow> if n + j = c then (b, k + j + l) # ys else (b, k + j) # rs)
      else if b = n + j then (n, j + k) # rs
      else if b > n + j then (n, j) # (b, k) # rs
      else (b, k) # put_run n j rs)"

lemma take_run_pages:
  "runs_ok lo hi rs \<Longrightarrow> 0 < n \<Longrightarrow> take_run n rs = Some (b, ys) \<Longrightarrow>
    {b..<b + n} \<subseteq> run_pages rs \<and> run_pages ys = run_pages rs - {b..<b + n} \<and> runs_ok lo hi ys"
proof (induction lo hi rs arbitrary: ys rule: runs_ok.induct)
  case (2 lo hi c k rs)
  note IH = 2(1) and ok = 2(2) and n = 2(3) and tk = 2(4)
  have up: "x \<in> run_pages rs \<Longrightarrow> c + k < x" for x using ok runs_ok_pages [of "c + k + 1" hi rs x] by auto
  consider "k > n" | "k = n" | "k < n" by linarith
  then show ?case
  proof cases
    case 1
    then have "b = c" "ys = (c + n, k - n) # rs" using tk by auto
    then show ?thesis using 1 ok by (fastforce dest: up)
  next
    case 2
    then have "b = c" "ys = rs" using tk by auto
    moreover have "runs_ok lo hi rs" using ok by (auto intro: runs_ok_mono)
    ultimately show ?thesis using 2 ok by (fastforce dest: up)
  next
    case 3
    then obtain zs where zs: "take_run n rs = Some (b, zs)" "ys = (c, k) # zs" using tk by auto
    have rec: "{b..<b + n} \<subseteq> run_pages rs" "run_pages zs = run_pages rs - {b..<b + n}" "runs_ok (c + k + 1) hi zs"
      using IH [OF _ n zs(1)] 3 ok by auto
    have "b \<in> run_pages rs" using rec(1) n by auto
    then have "c + k < b" by (rule up)
    then show ?thesis using rec zs(2) ok by (fastforce dest: up)
  qed
qed simp

lemma take_run_None:
  "runs_ok lo hi rs \<Longrightarrow> 0 < n \<Longrightarrow> take_run n rs = None \<Longrightarrow> \<not> {b..<b + n} \<subseteq> run_pages rs"
proof (induction lo hi rs rule: runs_ok.induct)
  case (2 lo hi c k rs)
  have up: "x \<in> run_pages rs \<Longrightarrow> c + k < x" for x using 2(2) runs_ok_pages [of "c + k + 1" hi rs x] by auto
  have k: "k < n" "take_run n rs = None" using 2(4) by (auto split: if_splits)
  then have no: "\<not> {b..<b + n} \<subseteq> run_pages rs" using 2 by auto
  show ?case
  proof
    assume sub: "{b..<b + n} \<subseteq> run_pages ((c, k) # rs)"
    have gap: "c + k \<notin> run_pages ((c, k) # rs)" using up by auto
    show False
    proof (cases "b < c + k")
      case True
      then have "c \<le> b" using sub 2(3) up by fastforce
      then have "c + k \<in> {b..<b + n}" using True k(1) by auto
      then show False using sub gap by blast
    next
      case False
      then have "{b..<b + n} \<subseteq> run_pages rs" using sub by fastforce
      then show False using no by blast
    qed
  qed
qed auto

lemma put_run_pages:
  "runs_ok lo hi rs \<Longrightarrow> 0 < j \<Longrightarrow> lo \<le> n \<Longrightarrow> n + j \<le> hi \<Longrightarrow> {n..<n + j} \<inter> run_pages rs = {} \<Longrightarrow>
    run_pages (put_run n j rs) = run_pages rs \<union> {n..<n + j} \<and> runs_ok lo hi (put_run n j rs)"
proof (induction lo hi rs rule: runs_ok.induct)
  case (2 lo hi b k rs)
  note IH = 2(1) and j = 2(3) and n_lo = 2(4) and n_hi = 2(5) and apart = 2(6)
  have ok: "lo \<le> b" "0 < k" "b + k \<le> hi" "runs_ok (b + k + 1) hi rs" using 2(2) by auto
  have "n \<in> {n..<n + j}" "b \<in> {b..<b + k}" using j ok(2) by auto
  then have n: "n \<notin> {b..<b + k}" "b \<notin> {n..<n + j}" using apart unfolding run_pages.simps by blast+
  consider "b + k = n" "rs = []" | c l ys where "b + k = n" "rs = (c, l) # ys" "n + j = c"
    | c l ys where "b + k = n" "rs = (c, l) # ys" "n + j \<noteq> c"
    | "b + k \<noteq> n" "b = n + j" | "b + k \<noteq> n" "b > n + j" | "b + k \<noteq> n" "b < n + j"
    by (metis list.exhaust linorder_neqE_nat surj_pair)
  then show ?case
  proof cases
    case 1
    then show ?thesis using ok j n_lo n_hi apart by auto
  next
    case 2
    then show ?thesis using ok 2 j n_hi n_lo apart by (auto simp: add.assoc)
  next
    case (3 c l ys)
    have "n + j < c"
    proof -
      have "c \<in> run_pages ((b, k) # rs)" using 3 ok by auto
      then have "c \<notin> {n..<n + j}" using apart by blast
      moreover have "n < c" using ok(4) 3 by auto
      ultimately show ?thesis using 3(3) by auto
    qed
    then show ?thesis using ok 3 j n_lo n_hi apart by auto
  next
    case 4
    then show ?thesis using ok j n_lo n_hi apart by (auto simp: add.assoc)
  next
    case 5
    then show ?thesis using ok j n_lo n_hi apart by auto
  next
    case 6
    then have "b + k < n" using n by auto
    then have "run_pages (put_run n j rs) = run_pages rs \<union> {n..<n + j} \<and> runs_ok (b + k + 1) hi (put_run n j rs)"
      using IH j n_hi apart ok(4) 6 by auto
    then show ?thesis using 6 ok by auto
  qed
qed auto


section \<open>The loops refine them\<close>

text \<open>The link that the loop stands at, and what it leaves alone.\<close>

fun link_below :: "page_link \<Rightarrow> nat \<Rightarrow> bool" where
  "link_below ListHead b \<longleftrightarrow> True"
| "link_below (NextOf a) b \<longleftrightarrow> a < b"

definition same_below :: "page_link \<Rightarrow> page_state \<Rightarrow> page_state \<Rightarrow> bool" where
  "same_below l s s' \<longleftrightarrow>
     (case l of
        ListHead \<Rightarrow> True
      | NextOf a \<Rightarrow> rt_page_list s' = rt_page_list s \<and> (\<forall>x<a. page_head s' x = page_head s x) \<and>
          ph_page (page_head s' a) = ph_page (page_head s a))"

lemma head_fields [simp]:
  "page_head (set_head b h s) = (page_head s)(b := h)" "rt_page_list (set_head b h s) = rt_page_list s"
  by (simp_all add: set_head_def)

lemma same_below_refl [simp]: "same_below l s s"
  by (cases l) (simp_all add: same_below_def)

lemma write_link_below:
  "same_below l s s' \<Longrightarrow> same_below l s (write_link l p s')"
  by (cases l) (auto simp: same_below_def)

lemma set_head_below: "link_below l b \<Longrightarrow> same_below l s (set_head b h s)"
  by (cases l) (auto simp: same_below_def)

lemma read_write_link [simp]: "read_link l (write_link l p s) = p"
  by (cases l) simp_all

lemma page_head_write_link: "link_below l b \<Longrightarrow> page_head (write_link l p s) b = page_head s b"
  by (cases l) simp_all

lemma read_link_set_head: "link_below l b \<Longrightarrow> read_link l (set_head b h s) = read_link l s"
  by (cases l) simp_all

lemma runs_link_below: "runs_ok lo hi rs \<Longrightarrow> link_below l lo \<Longrightarrow> b \<in> fst ` set rs \<Longrightarrow> link_below l b"
  using runs_ok_pages runs_starts by (cases l) fastforce+

lemma runs_at_keep:
  assumes "runs_ok lo hi rs" "\<And>b. lo \<le> b \<Longrightarrow> page_head s' b = page_head s b"
  shows "runs_at (page_head s') p rs = runs_at (page_head s) p rs"
  by (rule runs_at_cong) (use assms runs_ok_pages runs_starts in blast)

text \<open>A run stays where it is and the loop goes on at its link.\<close>

lemma runs_at_behind:
  assumes "runs_at (page_head s') (read_link (NextOf b) s') ys" "same_below (NextOf b) s s'"
    "read_link l s = Some b" "ph_page (page_head s b) = k" "link_below l b"
  shows "runs_at (page_head s') (read_link l s') ((b, k) # ys) \<and> same_below l s s'"
  using assms by (cases l) (auto simp: same_below_def)

lemma page_alloc_loop_runs:
  assumes "runs_at (page_head s) (read_link l s) rs" "runs_ok lo hi rs" "link_below l lo" "0 < n"
  shows "case take_run n rs of
      None \<Rightarrow> page_alloc_loop n l s = Some (None, s)
    | Some (b, ys) \<Rightarrow> \<exists>s'. page_alloc_loop n l s = Some (Some b, s') \<and> runs_at (page_head s') (read_link l s') ys \<and>
        same_below l s s'"
  using assms
proof (induction lo hi rs arbitrary: l rule: runs_ok.induct)
  case (1 lo hi)
  then show ?case by (subst page_alloc_loop.simps) simp
next
  case (2 lo hi b k rs)
  have b: "read_link l s = Some b" "ph_page (page_head s b) = k" "runs_at (page_head s) (ph_next (page_head s b)) rs"
    "runs_ok (b + k + 1) hi rs" "0 < k" "lo \<le> b" using 2(2,3) by auto
  have lb: "link_below l x" if "b \<le> x" for x using that 2(4) b(6) by (cases l) auto
  have keep: "runs_at (page_head s') (ph_next (page_head s b)) rs"
    if "\<And>x. b + k < x \<Longrightarrow> page_head s' x = page_head s x" for s'
    using runs_at_keep [OF b(4), of s' s] that b(3) by simp
  consider "k > n" | "k = n" | "k < n" by linarith
  then show ?case
  proof cases
    case 1
    let ?s = "write_link l (Some (b + n)) (set_head (b + n) \<lparr>ph_next = ph_next (page_head s b), ph_page = k - n\<rparr> s)"
    have "page_alloc_loop n l s = Some (Some b, ?s)"
      using b(1,2) 1 by (subst page_alloc_loop.simps) (simp add: Let_def)
    moreover have "runs_at (page_head ?s) (ph_next (page_head s b)) rs"
      by (rule keep) (use 1 lb in \<open>simp add: page_head_write_link\<close>)
    moreover have "same_below l s ?s" by (rule write_link_below, rule set_head_below, rule lb) simp
    ultimately show ?thesis using 1 lb by (simp add: page_head_write_link)
  next
    case 2
    let ?s = "write_link l (ph_next (page_head s b)) s"
    have "page_alloc_loop n l s = Some (Some b, ?s)"
      using b(1,2) 2 by (subst page_alloc_loop.simps) (simp add: Let_def)
    moreover have "runs_at (page_head ?s) (ph_next (page_head s b)) rs"
      by (rule keep) (use lb in \<open>simp add: page_head_write_link\<close>)
    moreover have "same_below l s ?s" by (rule write_link_below) simp
    ultimately show ?thesis using 2 by simp
  next
    case 3
    have step: "page_alloc_loop n l s = page_alloc_loop n (NextOf b) s"
      using b(1,2) 3 by (subst page_alloc_loop.simps) (simp add: Let_def)
    have IH: "case take_run n rs of
        None \<Rightarrow> page_alloc_loop n (NextOf b) s = Some (None, s)
      | Some (c, ys) \<Rightarrow> \<exists>s'. page_alloc_loop n (NextOf b) s = Some (Some c, s') \<and>
          runs_at (page_head s') (read_link (NextOf b) s') ys \<and> same_below (NextOf b) s s'"
      by (rule 2(1)) (use b 2(5) in auto)
    show ?thesis
    proof (cases "take_run n rs")
      case None
      then show ?thesis using IH step 3 by simp
    next
      case (Some x)
      obtain c ys where x: "x = (c, ys)" by (cases x)
      obtain s' where s': "page_alloc_loop n (NextOf b) s = Some (Some c, s')"
        "runs_at (page_head s') (read_link (NextOf b) s') ys" "same_below (NextOf b) s s'"
        using IH Some x by auto
      show ?thesis
        using s'(1) runs_at_behind [OF s'(2,3) b(1,2) lb [OF order_refl]] step 3 Some x by auto
    qed
  qed
qed

lemma page_join_runs:
  assumes "read_link l s = Some b" "ph_page (page_head s b) = k" "runs_at (page_head s) (ph_next (page_head s b)) rs"
    "runs_ok (b + k + 1) hi rs" "link_below l b"
  shows "runs_at (page_head (page_join b j s)) (read_link l (page_join b j s)) (put_run (b + k) j ((b, k) # rs)) \<and>
    same_below l s (page_join b j s)"
proof -
  have low: "same_below l s (page_join b j s)" "read_link l (page_join b j s) = Some b"
    using assms(1,5) by (auto simp: page_join_def Let_def set_head_below read_link_set_head split: option.splits)
  show ?thesis
  proof (cases rs)
    case Nil
    then have "page_join b j s = set_head b ((page_head s b)\<lparr>ph_page := k + j\<rparr>) s"
      using assms(2,3) by (simp add: page_join_def Let_def)
    then show ?thesis using low Nil assms(3) by auto
  next
    case (Cons x ys)
    obtain c m where x: "x = (c, m)" by (cases x)
    have c: "ph_next (page_head s b) = Some c" "ph_page (page_head s c) = m" "runs_at (page_head s) (ph_next (page_head s c)) ys"
      "b + k < c" "runs_ok (c + m + 1) hi ys" using assms(3,4) Cons x by auto
    have keep: "runs_at (page_head (set_head b h s)) (ph_next (page_head s c)) ys" for h
      using runs_at_keep [OF c(5), of "set_head b h s" s] c(3,4) by simp
    show ?thesis
    proof (cases "b + k + j = c")
      case True
      then have "page_join b j s = set_head b \<lparr>ph_next = ph_next (page_head s c), ph_page = k + j + m\<rparr> s"
        using assms(2) c by (auto simp: page_join_def Let_def)
      then show ?thesis using low Cons x True keep by auto
    next
      case False
      then have "page_join b j s = set_head b ((page_head s b)\<lparr>ph_page := k + j\<rparr>) s"
        using assms(2) c by (auto simp: page_join_def Let_def)
      then show ?thesis using low Cons x False keep c by auto
    qed
  qed
qed

lemma page_insert_runs:
  assumes "runs_at (page_head s) p rs" "runs_ok (n + 1) hi rs" "link_below l n"
  shows "runs_at (page_head (page_insert n j p l s)) (read_link l (page_insert n j p l s)) ((n, j) # rs) \<and>
    same_below l s (page_insert n j p l s)"
proof -
  have "link_below l x" if "n \<le> x" for x using that assms(3) by (cases l) auto
  then have "runs_at (page_head (page_insert n j p l s)) p rs"
    using runs_at_keep [OF assms(2), of "page_insert n j p l s" s p] assms(1)
    by (simp add: page_insert_def page_head_write_link)
  then show ?thesis using assms(3) by (simp add: page_insert_def page_head_write_link write_link_below set_head_below)
qed

lemma page_free_loop_runs:
  assumes "runs_at (page_head s) (read_link l s) rs" "runs_ok lo hi rs" "link_below l lo" "lo \<le> n" "0 < j"
    "{n..<n + j} \<inter> run_pages rs = {}"
  shows "\<exists>s'. page_free_loop n j l s = Some s' \<and> runs_at (page_head s') (read_link l s') (put_run n j rs) \<and> same_below l s s'"
  using assms
proof (induction lo hi rs arbitrary: l rule: runs_ok.induct)
  case (1 lo hi)
  have "link_below l n" using 1 by (cases l) auto
  then show ?case
    using 1(1) page_insert_runs [of s None "[]" n hi l j] by (subst page_free_loop.simps) simp
next
  case (2 lo hi b k rs)
  note IH = 2(1) and j = 2(6) and apart = 2(7)
  have b: "read_link l s = Some b" "ph_page (page_head s b) = k" "runs_at (page_head s) (ph_next (page_head s b)) rs"
    "runs_ok (b + k + 1) hi rs" "0 < k" "lo \<le> b" using 2(2,3) by auto
  have lb: "link_below l x" if "lo \<le> x" for x using that 2(4) by (cases l) auto
  have "n \<in> {n..<n + j}" "b \<in> {b..<b + k}" using j b(5) by auto
  then have n: "n \<notin> {b..<b + k}" "b \<notin> {n..<n + j}" using apart unfolding run_pages.simps by blast+
  then have chk: "0 < k \<and> (b > n \<or> b + k \<le> n)" using b(5) by auto
  consider "b + k = n" | "b + k \<noteq> n" "b = n + j" | "b + k \<noteq> n" "b > n + j" | "b + k < n"
    using n by fastforce
  then show ?case
  proof cases
    case 1
    have "page_free_loop n j l s = Some (page_join b j s)" using b(1,2) chk 1 by (subst page_free_loop.simps) (auto simp: Let_def)
    then show ?thesis using page_join_runs [OF b(1-4) lb [OF b(6)], of j] 1 by simp
  next
    case 2
    have "page_free_loop n j l s = Some (page_insert n (k + j) (ph_next (page_head s b)) l s)"
      using b(1,2) chk 2 j by (subst page_free_loop.simps) (auto simp: Let_def)
    moreover have "runs_ok (n + 1) hi rs" using b(4) 2 by (auto intro: runs_ok_mono)
    ultimately show ?thesis
      using page_insert_runs [OF b(3) _ lb [OF \<open>lo \<le> n\<close>], of hi "k + j"] 2 j by (simp add: add.commute)
  next
    case 3
    have "page_free_loop n j l s = Some (page_insert n j (Some b) l s)" using b(1,2) chk 3 by (subst page_free_loop.simps) (auto simp: Let_def)
    moreover have "runs_at (page_head s) (Some b) ((b, k) # rs)" "runs_ok (n + 1) hi ((b, k) # rs)"
      using 2(3) b 3 by auto
    ultimately show ?thesis using page_insert_runs [OF _ _ lb [OF \<open>lo \<le> n\<close>], of s "Some b" "(b, k) # rs" hi j] 3 by auto
  next
    case 4
    have step: "page_free_loop n j l s = page_free_loop n j (NextOf b) s" using b(1,2) chk 4 by (subst page_free_loop.simps) (auto simp: Let_def)
    obtain s' where s': "page_free_loop n j (NextOf b) s = Some s'"
      "runs_at (page_head s') (read_link (NextOf b) s') (put_run n j rs)" "same_below (NextOf b) s s'"
      using IH [of "NextOf b"] b(3,4) 4 j apart by auto
    show ?thesis
      using s'(1) runs_at_behind [OF s'(2,3) b(1,2) lb [OF b(6)]] step 4 by auto
  qed
qed

section \<open>The page allocator\<close>

text \<open>The free pages are \<open>P\<close>, all below \<open>hi\<close>.\<close>

definition page_rep :: "nat \<Rightarrow> page_state \<Rightarrow> nat set \<Rightarrow> bool" where
  "page_rep hi s P \<longleftrightarrow> (\<exists>rs. runs_at (page_head s) (rt_page_list s) rs \<and> runs_ok 0 hi rs \<and> run_pages rs = P)"

lemma page_rep_below: "page_rep hi s P \<Longrightarrow> x \<in> P \<Longrightarrow> x < hi"
  using runs_ok_pages by (auto simp: page_rep_def)

lemma page_alloc_rep:
  assumes "page_rep hi s P" "0 < n"
  shows "(\<exists>b s'. page_alloc n s = Some (Some b, s') \<and> {b..<b + n} \<subseteq> P \<and> page_rep hi s' (P - {b..<b + n})) \<or>
    page_alloc n s = Some (None, s) \<and> (\<forall>b. \<not> {b..<b + n} \<subseteq> P)"
proof -
  obtain rs where rs: "runs_at (page_head s) (rt_page_list s) rs" "runs_ok 0 hi rs" "run_pages rs = P"
    using assms(1) by (auto simp: page_rep_def)
  have loop: "case take_run n rs of
      None \<Rightarrow> page_alloc n s = Some (None, s)
    | Some (b, ys) \<Rightarrow> \<exists>s'. page_alloc n s = Some (Some b, s') \<and> runs_at (page_head s') (rt_page_list s') ys"
    using page_alloc_loop_runs [of s ListHead rs 0 hi n] rs(1,2) assms(2) by (auto simp: page_alloc_def split: option.splits)
  show ?thesis
  proof (cases "take_run n rs")
    case None
    then show ?thesis using loop take_run_None [OF rs(2) assms(2) None] rs(3) by simp
  next
    case (Some x)
    obtain b ys where x: "x = (b, ys)" by (cases x)
    obtain s' where s': "page_alloc n s = Some (Some b, s')" "runs_at (page_head s') (rt_page_list s') ys"
      using loop Some x by auto
    then show ?thesis
      using take_run_pages [OF rs(2) assms(2), of b ys] Some x rs(3) unfolding page_rep_def by blast
  qed
qed

lemma page_free_rep:
  assumes "page_rep hi s P" "0 < j" "{n..<n + j} \<inter> P = {}" "n + j \<le> hi"
  obtains s' where "page_free n j s = Some s'" "page_rep hi s' (P \<union> {n..<n + j})"
proof -
  obtain rs where rs: "runs_at (page_head s) (rt_page_list s) rs" "runs_ok 0 hi rs" "run_pages rs = P"
    using assms(1) by (auto simp: page_rep_def)
  obtain s' where s': "page_free n j s = Some s'" "runs_at (page_head s') (rt_page_list s') (put_run n j rs)"
    using page_free_loop_runs [of s ListHead rs 0 hi n j] rs assms by (auto simp: page_free_def rt_assert_def)
  have "run_pages (put_run n j rs) = P \<union> {n..<n + j} \<and> runs_ok 0 hi (put_run n j rs)"
    using put_run_pages [OF rs(2) assms(2)] rs(3) assms(3,4) by simp
  then show thesis using that s' unfolding page_rep_def by blast
qed

text \<open>
  C16: \<^verbatim>\<open>__rt_page_free\<close> undoes \<^verbatim>\<open>__rt_page_alloc\<close>: after the pages of an allocation are freed again, the
  list of runs is exactly the list before, however the run was split and joined.
\<close>

theorem page_alloc_free_roundtrip:
  assumes "runs_at (page_head s) (rt_page_list s) rs" "runs_ok 0 hi rs" "page_alloc n s = Some (Some b, s1)" "0 < n"
  shows "\<exists>s2. page_free b n s1 = Some s2 \<and> runs_at (page_head s2) (rt_page_list s2) rs"
proof -
  have rep: "page_rep hi s (run_pages rs)" unfolding page_rep_def using assms(1,2) by blast
  have b: "{b..<b + n} \<subseteq> run_pages rs" "page_rep hi s1 (run_pages rs - {b..<b + n})"
    using page_alloc_rep [OF rep assms(4)] assms(3) by auto
  have "b + (n - 1) \<in> run_pages rs" using b(1) assms(4) by auto
  then have "b + n \<le> hi" using runs_ok_pages [OF assms(2)] assms(4) by fastforce
  then obtain s2 where s2: "page_free b n s1 = Some s2" "page_rep hi s2 (run_pages rs - {b..<b + n} \<union> {b..<b + n})"
    using page_free_rep [OF b(2) assms(4), of b] by blast
  obtain ys where ys: "runs_at (page_head s2) (rt_page_list s2) ys" "runs_ok 0 hi ys" "run_pages ys = run_pages rs"
    using s2(2) b(1) unfolding page_rep_def by (auto simp: Un_absorb2)
  have "ys = rs" by (rule runs_unique [OF ys(2) assms(2) ys(3)])
  then show ?thesis using s2(1) ys(1) by blast
qed

end
