(* ===== verification/RTT_Slab.thy ===== *)
theory RTT_Slab
  imports RTT_Pages RTT_KService
begin

text \<open>
  The slab allocator (\<^verbatim>\<open>slab.c\<close>), which is the heap of the configured system: zones of chunks of one
  size for small requests, runs of pages for large ones. Addresses count from \<^verbatim>\<open>heap_start\<close>, which is
  the start of a page, and pages from 0; a zone is the number of its first page. What the code
  keeps in the heap itself, the header at the start of a zone and the link in a free chunk, are
  entries of tables beside the bytes. The critical sections of one call are not interrupted by
  another call. The debugging code of \<^verbatim>\<open>CONFIG_SLAB_DEBUG\<close> is not configured.
\<close>

datatype page_type = PAGE_TYPE_FREE | PAGE_TYPE_SMALL | PAGE_TYPE_LARGE | PAGE_TYPE_SHORT

record memusage =
  mu_type :: page_type
  mu_size :: nat

record slab_zone =
  z_magic :: u32
  z_nfree :: int
  z_nused :: int
  z_nmax :: int
  z_next :: "nat option"
  z_baseptr :: nat
  z_uindex :: nat
  z_chunksize :: u32
  z_zoneindex :: nat
  z_freechunk :: "nat option"

record slab =
  heap_npages :: nat
  slab_pages :: page_state
  usage :: "nat \<Rightarrow> memusage"
  zone_array :: "nat \<Rightarrow> nat option"
  zone_free :: "nat option"
  zone_free_cnt :: int
  zone_size :: u32
  zone_limit :: u32
  zone_page_cnt :: nat
  zones :: "nat \<Rightarrow> slab_zone"
  chunk_next :: "nat \<Rightarrow> nat option"
  used_mem :: u32
  max_mem :: u32
  slab_data :: mem

definition ZALLOC_SLAB_MAGIC :: u32 where "ZALLOC_SLAB_MAGIC = 0x51ab51ab"
definition ZALLOC_ZONE_LIMIT :: u32 where "ZALLOC_ZONE_LIMIT = 16 * 1024"
definition ZALLOC_MIN_ZONE_SIZE :: u32 where "ZALLOC_MIN_ZONE_SIZE = 32 * 1024"
definition ZALLOC_MAX_ZONE_SIZE :: u32 where "ZALLOC_MAX_ZONE_SIZE = 128 * 1024"
definition NZONES :: nat where "NZONES = 72"
definition ZONE_RELEASE_THRESH :: int where "ZONE_RELEASE_THRESH = 2"
definition MIN_CHUNK_MASK :: u32 where "MIN_CHUNK_MASK = 8 - 1"
definition RT_MM_PAGE_BITS :: nat where "RT_MM_PAGE_BITS = 12"

text \<open>The header is ten words, a \<^verbatim>\<open>struct memusage\<close> is one.\<close>

definition sizeof_slab_zone :: u32 where "sizeof_slab_zone = 40"
definition sizeof_memusage :: u32 where "sizeof_memusage = 4"

definition page_align :: "u32 \<Rightarrow> u32" where
  "page_align sz = RT_ALIGN sz (of_nat RT_MM_PAGE_SIZE)"

definition zone_update :: "nat \<Rightarrow> (slab_zone \<Rightarrow> slab_zone) \<Rightarrow> slab \<Rightarrow> slab" where
  "zone_update z f s = s\<lparr>zones := (zones s)(z := f (zones s z))\<rparr>"

definition set_usage :: "nat \<Rightarrow> page_type \<Rightarrow> nat \<Rightarrow> slab \<Rightarrow> slab" where
  "set_usage p t n s = s\<lparr>usage := (usage s)(p := \<lparr>mu_type = t, mu_size = n\<rparr>)\<rparr>"

text \<open>The loops over the pages of a zone.\<close>

definition usage_small :: "nat \<Rightarrow> nat \<Rightarrow> slab \<Rightarrow> slab" where
  "usage_small z n s = fold (\<lambda>off. set_usage (z + off) PAGE_TYPE_SMALL off) [0..<n] s"

definition usage_free :: "nat \<Rightarrow> nat \<Rightarrow> slab \<Rightarrow> slab" where
  "usage_free z n s = fold (\<lambda>i. set_usage (z + i) PAGE_TYPE_FREE 0) [0..<n] s"

definition add_used :: "u32 \<Rightarrow> slab \<Rightarrow> slab" where
  "add_used n s =
     (let u = used_mem s + n in s\<lparr>used_mem := u, max_mem := (if u > max_mem s then u else max_mem s)\<rparr>)"

definition sub_used :: "u32 \<Rightarrow> slab \<Rightarrow> slab" where
  "sub_used n s = s\<lparr>used_mem := used_mem s - n\<rparr>"

definition with_pages :: "('a \<times> page_state) option \<Rightarrow> slab \<Rightarrow> ('a \<times> slab) option" where
  "with_pages x s = map_option (\<lambda>(r, p). (r, s\<lparr>slab_pages := p\<rparr>)) x"

section \<open>Pages for drivers\<close>

text \<open>\<^verbatim>\<open>rt_page_alloc\<close> stops in the debugger when there is no run of pages.\<close>

definition rt_page_alloc :: "nat \<Rightarrow> slab \<Rightarrow> (nat \<times> slab) option" where
  "rt_page_alloc npages s = do {
     (p, s) \<leftarrow> with_pages (page_alloc npages (slab_pages s)) s;
     b \<leftarrow> p;
     Some (b, set_usage b PAGE_TYPE_SHORT npages s) }"

definition rt_page_free :: "nat option \<Rightarrow> nat \<Rightarrow> slab \<Rightarrow> slab option" where
  "rt_page_free addr npages s =
     (case addr of
        None \<Rightarrow> Some s
      | Some b \<Rightarrow>
          if npages = 0 then Some s
          else do {
            rt_assert (mu_type (usage s b) = PAGE_TYPE_SHORT);
            let s = set_usage b PAGE_TYPE_FREE 0 s;
            p \<leftarrow> page_free b npages (slab_pages s);
            Some (s\<lparr>slab_pages := p\<rparr>) })"

section \<open>Chunk sizes\<close>

text \<open>The zone index of a request, and the size of the chunks of that zone.\<close>

definition zoneindex :: "u32 \<Rightarrow> int \<times> u32" where
  "zoneindex n =
     (if n < 128 then let n = (n + 7) AND NOT 7 in (uint (n div 8) - 1, n)
      else if n < 256 then let n = (n + 15) AND NOT 15 in (uint (n div 16 + 7), n)
      else if n < 8192 then
        if n < 512 then let n = (n + 31) AND NOT 31 in (uint (n div 32 + 15), n)
        else if n < 1024 then let n = (n + 63) AND NOT 63 in (uint (n div 64 + 23), n)
        else if n < 2048 then let n = (n + 127) AND NOT 127 in (uint (n div 128 + 31), n)
        else if n < 4096 then let n = (n + 255) AND NOT 255 in (uint (n div 256 + 39), n)
        else let n = (n + 511) AND NOT 511 in (uint (n div 512 + 47), n)
      else if n < 16384 then let n = (n + 1023) AND NOT 1023 in (uint (n div 1024 + 55), n)
      else (0, n))"

section \<open>Allocating\<close>

definition malloc_large :: "u32 \<Rightarrow> slab \<Rightarrow> (nat option \<times> slab) option" where
  "malloc_large sz s = do {
     let sz = page_align sz;
     (p, s) \<leftarrow> with_pages (page_alloc (unat (drop_bit RT_MM_PAGE_BITS sz)) (slab_pages s)) s;
     (case p of
        None \<Rightarrow> Some (None, s)
      | Some b \<Rightarrow>
          Some (Some (b * RT_MM_PAGE_SIZE),
            add_used sz (set_usage b PAGE_TYPE_LARGE (unat (drop_bit RT_MM_PAGE_BITS sz)) s))) }"

text \<open>A chunk of the first zone \<open>z\<close> of the list for the index \<open>zi\<close>.\<close>

definition zone_unlist_full :: "nat \<Rightarrow> nat \<Rightarrow> slab \<Rightarrow> slab" where
  "zone_unlist_full zi z s =
     (if z_nfree (zones s z) = 0
      then zone_update z (\<lambda>r. r\<lparr>z_next := None\<rparr>) (s\<lparr>zone_array := (zone_array s)(zi := z_next (zones s z))\<rparr>)
      else s)"

definition zone_take_chunk :: "nat \<Rightarrow> u32 \<Rightarrow> slab \<Rightarrow> (nat \<times> slab) option" where
  "zone_take_chunk z sz s =
     (let r = zones s z in
      if int (z_uindex r) + 1 \<noteq> z_nmax r
      then Some (z_baseptr r + (z_uindex r + 1) * unat sz, zone_update z (\<lambda>r. r\<lparr>z_uindex := z_uindex r + 1\<rparr>) s)
      else do {
        c \<leftarrow> z_freechunk r;
        Some (c, zone_update z (\<lambda>r. r\<lparr>z_freechunk := chunk_next s c\<rparr>) s) })"

definition malloc_chunk :: "nat \<Rightarrow> nat \<Rightarrow> u32 \<Rightarrow> slab \<Rightarrow> (nat option \<times> slab) option" where
  "malloc_chunk zi z sz s = do {
     rt_assert (z_nfree (zones s z) > 0);
     let s = zone_unlist_full zi z (zone_update z (\<lambda>r. r\<lparr>z_nfree := z_nfree r - 1\<rparr>) s);
     let s = zone_update z (\<lambda>r. r\<lparr>z_nused := z_nused r + 1\<rparr>) s;
     rt_assert (z_nused (zones s z) + z_nfree (zones s z) = z_nmax (zones s z));
     (c, s) \<leftarrow> zone_take_chunk z sz s;
     Some (Some c, add_used (z_chunksize (zones s z)) s) }"

text \<open>The offset of the first chunk: chunks of a power of two are aligned to it within the zone.\<close>

definition zone_offset :: "u32 \<Rightarrow> u32" where
  "zone_offset sz =
     (if (sz OR (sz - 1)) + 1 = push_bit 1 sz
      then (sizeof_slab_zone + sz - 1) AND NOT (sz - 1)
      else (sizeof_slab_zone + MIN_CHUNK_MASK) AND NOT MIN_CHUNK_MASK)"

definition zone_setup :: "nat \<Rightarrow> nat \<Rightarrow> u32 \<Rightarrow> slab \<Rightarrow> slab" where
  "zone_setup zi z sz s =
     (let off = zone_offset sz; nmax = uint ((zone_size s - off) div sz) in
      s\<lparr>zones := (zones s)(z := \<lparr>z_magic = ZALLOC_SLAB_MAGIC, z_nfree = nmax - 1, z_nused = 1, z_nmax = nmax,
          z_next = zone_array s zi, z_baseptr = z * RT_MM_PAGE_SIZE + unat off, z_uindex = 0, z_chunksize = sz,
          z_zoneindex = zi, z_freechunk = None\<rparr>),
        zone_array := (zone_array s)(zi := Some z)\<rparr>)"

text \<open>A zone from the list of the free zones, or new pages.\<close>

definition zone_obtain :: "slab \<Rightarrow> (nat option \<times> slab) option" where
  "zone_obtain s =
     (case zone_free s of
        Some z \<Rightarrow> Some (Some z, s\<lparr>zone_free := z_next (zones s z), zone_free_cnt := zone_free_cnt s - 1\<rparr>)
      | None \<Rightarrow> do {
          (p, s) \<leftarrow> with_pages (page_alloc (unat (zone_size s) div RT_MM_PAGE_SIZE) (slab_pages s)) s;
          (case p of
             None \<Rightarrow> Some (None, s)
           | Some z \<Rightarrow> Some (Some z, usage_small z (zone_page_cnt s) s)) })"

definition malloc_zone :: "nat \<Rightarrow> u32 \<Rightarrow> slab \<Rightarrow> (nat option \<times> slab) option" where
  "malloc_zone zi sz s = do {
     (p, s) \<leftarrow> zone_obtain s;
     (case p of
        None \<Rightarrow> Some (None, s)
      | Some z \<Rightarrow>
          let s = zone_setup zi z sz s in
          Some (Some (z_baseptr (zones s z)), add_used sz s)) }"

definition internal_malloc :: "u32 \<Rightarrow> slab \<Rightarrow> (nat option \<times> slab) option" where
  "internal_malloc sz s =
     (if sz = 0 then Some (None, s)
      else if sz \<ge> zone_limit s then malloc_large sz s
      else do {
        let (zi, sz) = zoneindex sz;
        rt_assert (0 \<le> zi \<and> zi < int NZONES);
        (case zone_array s (nat zi) of
           Some z \<Rightarrow> malloc_chunk (nat zi) z sz s
         | None \<Rightarrow> malloc_zone (nat zi) sz s) })"

section \<open>Freeing\<close>

definition page_of :: "nat \<Rightarrow> nat" where
  "page_of ptr = ptr div RT_MM_PAGE_SIZE"

definition free_large :: "nat \<Rightarrow> slab \<Rightarrow> slab option" where
  "free_large ptr s = do {
     let p = page_of ptr;
     let n = mu_size (usage s p);
     let s = s\<lparr>usage := (usage s)(p := (usage s p)\<lparr>mu_size := 0\<rparr>)\<rparr>;
     let s = sub_used (of_nat n * of_nat RT_MM_PAGE_SIZE) s;
     rt_assert (ptr mod RT_MM_PAGE_SIZE = 0);
     pg \<leftarrow> page_free p n (slab_pages s);
     Some (s\<lparr>slab_pages := pg\<rparr>) }"

text \<open>The list of a zone index is searched for the zone, with a pointer to the link to it.\<close>

datatype zone_link = ZoneArray nat | ZoneNext nat

fun read_zlink :: "zone_link \<Rightarrow> slab \<Rightarrow> nat option" where
  "read_zlink (ZoneArray i) s = zone_array s i"
| "read_zlink (ZoneNext z) s = z_next (zones s z)"

fun write_zlink :: "zone_link \<Rightarrow> nat option \<Rightarrow> slab \<Rightarrow> slab" where
  "write_zlink (ZoneArray i) p s = s\<lparr>zone_array := (zone_array s)(i := p)\<rparr>"
| "write_zlink (ZoneNext z) p s = zone_update z (\<lambda>r. r\<lparr>z_next := p\<rparr>) s"

partial_function (option) zone_unlink :: "nat \<Rightarrow> zone_link \<Rightarrow> slab \<Rightarrow> slab option" where
  "zone_unlink z pz s =
     (case read_zlink pz s of
        None \<Rightarrow> None
      | Some y \<Rightarrow> if y = z then Some (write_zlink pz (z_next (zones s z)) s) else zone_unlink z (ZoneNext y) s)"

text \<open>Above the threshold one free zone goes back to the page allocator.\<close>

definition zone_release :: "slab \<Rightarrow> slab option" where
  "zone_release s =
     (if zone_free_cnt s > ZONE_RELEASE_THRESH
      then do {
        z \<leftarrow> zone_free s;
        let s = s\<lparr>zone_free := z_next (zones s z), zone_free_cnt := zone_free_cnt s - 1\<rparr>;
        let s = usage_free z (zone_page_cnt s) s;
        pg \<leftarrow> page_free z (unat (zone_size s) div RT_MM_PAGE_SIZE) (slab_pages s);
        Some (s\<lparr>slab_pages := pg\<rparr>) }
      else Some s)"

definition zone_retire :: "nat \<Rightarrow> slab \<Rightarrow> slab option" where
  "zone_retire z s = do {
     rt_assert (z_nused (zones s z) = 0);
     s \<leftarrow> zone_unlink z (ZoneArray (z_zoneindex (zones s z))) s;
     let s = zone_update z (\<lambda>r. r\<lparr>z_magic := - 1, z_next := zone_free s\<rparr>) s;
     zone_release (s\<lparr>zone_free := Some z, zone_free_cnt := zone_free_cnt s + 1\<rparr>) }"

definition zone_put_chunk :: "nat \<Rightarrow> nat \<Rightarrow> slab \<Rightarrow> slab" where
  "zone_put_chunk z ptr s =
     zone_update z (\<lambda>r. r\<lparr>z_freechunk := Some ptr\<rparr>) (s\<lparr>chunk_next := (chunk_next s)(ptr := z_freechunk (zones s z))\<rparr>)"

definition zone_relist :: "nat \<Rightarrow> slab \<Rightarrow> slab" where
  "zone_relist z s =
     (let i = z_zoneindex (zones s z) in
      if z_nfree (zones s z) = 0
      then zone_update z (\<lambda>r. r\<lparr>z_nfree := 1, z_next := zone_array s i\<rparr>) (s\<lparr>zone_array := (zone_array s)(i := Some z)\<rparr>)
      else zone_update z (\<lambda>r. r\<lparr>z_nfree := z_nfree r + 1\<rparr>) s)"

definition free_chunk :: "nat \<Rightarrow> nat \<Rightarrow> slab \<Rightarrow> slab option" where
  "free_chunk z ptr s = do {
     rt_assert (z_magic (zones s z) = ZALLOC_SLAB_MAGIC);
     let s = sub_used (z_chunksize (zones s z)) (zone_put_chunk z ptr s);
     let s = zone_relist z s;
     let r = zones s z;
     if z_nfree r > z_nmax r then Some (zone_update z (\<lambda>r. r\<lparr>z_nfree := z_nmax r, z_nused := 0\<rparr>) s)
     else do {
       let s = zone_update z (\<lambda>r. r\<lparr>z_nused := z_nused r - 1\<rparr>) s;
       let r = zones s z;
       rt_assert (z_nused r + z_nfree r = z_nmax r);
       if z_nfree r = z_nmax r \<and> (z_next r \<noteq> None \<or> zone_array s (z_zoneindex r) \<noteq> Some z)
       then zone_retire z s else Some s } }"

definition internal_free :: "nat option \<Rightarrow> slab \<Rightarrow> slab option" where
  "internal_free ptr s =
     (case ptr of
        None \<Rightarrow> Some s
      | Some ptr \<Rightarrow>
          let u = usage s (page_of ptr) in
          (case mu_type u of
             PAGE_TYPE_LARGE \<Rightarrow> free_large ptr s
           | PAGE_TYPE_FREE \<Rightarrow> Some s
           | _ \<Rightarrow> do {
               rt_assert (mu_size u \<le> page_of ptr);
               free_chunk (page_of ptr - mu_size u) ptr s }))"

section \<open>The calls\<close>

text \<open>
  \<^verbatim>\<open>rt_malloc\<close> and \<^verbatim>\<open>rt_free\<close> (\<^verbatim>\<open>wrapper/epos.c\<close>) in a thread, while the detection of memory leaks is
  off, which it is until a command turns it on.
\<close>

definition rt_malloc :: "u32 \<Rightarrow> slab \<Rightarrow> (nat option \<times> slab) option" where
  "rt_malloc sz s = internal_malloc sz s"

definition rt_free :: "nat option \<Rightarrow> slab \<Rightarrow> slab option" where
  "rt_free ptr s = internal_free ptr s"

definition slab_memcpy :: "nat \<Rightarrow> nat \<Rightarrow> u32 \<Rightarrow> slab \<Rightarrow> slab" where
  "slab_memcpy d p n s = s\<lparr>slab_data := rt_memcpy d p n (slab_data s)\<rparr>"

definition realloc_into :: "nat \<Rightarrow> u32 \<Rightarrow> u32 \<Rightarrow> slab \<Rightarrow> (nat option \<times> slab) option" where
  "realloc_into ptr sz osize s = do {
     (nptr, s) \<leftarrow> rt_malloc sz s;
     (case nptr of
        None \<Rightarrow> Some (None, s)
      | Some q \<Rightarrow> do {
          s \<leftarrow> rt_free (Some ptr) (slab_memcpy q ptr (if sz > osize then osize else sz) s);
          Some (Some q, s) }) }"

definition rt_realloc :: "nat option \<Rightarrow> u32 \<Rightarrow> slab \<Rightarrow> (nat option \<times> slab) option" where
  "rt_realloc ptr sz s =
     (case ptr of
        None \<Rightarrow> rt_malloc sz s
      | Some p \<Rightarrow>
          if sz = 0 then do { s \<leftarrow> rt_free (Some p) s; Some (None, s) }
          else
            let u = usage s (page_of p) in
            (case mu_type u of
               PAGE_TYPE_LARGE \<Rightarrow> realloc_into p sz (of_nat (mu_size u) * of_nat RT_MM_PAGE_SIZE) s
             | PAGE_TYPE_SMALL \<Rightarrow> do {
                 rt_assert (mu_size u \<le> page_of p);
                 let z = zones s (page_of p - mu_size u);
                 rt_assert (z_magic z = ZALLOC_SLAB_MAGIC);
                 let sz = snd (zoneindex sz);
                 if z_chunksize z = sz then Some (Some p, s) else realloc_into p sz (z_chunksize z) s }
             | _ \<Rightarrow> Some (None, s)))"

definition rt_calloc :: "u32 \<Rightarrow> u32 \<Rightarrow> slab \<Rightarrow> (nat option \<times> slab) option" where
  "rt_calloc count sz s = do {
     (p, s) \<leftarrow> rt_malloc (count * sz) s;
     Some (p, case p of None \<Rightarrow> s | Some a \<Rightarrow> s\<lparr>slab_data := rt_memset a 0 (count * sz) (slab_data s)\<rparr>) }"

definition rt_memory_info :: "slab \<Rightarrow> u32 \<times> u32 \<times> u32" where
  "rt_memory_info s = (of_nat (heap_npages s * RT_MM_PAGE_SIZE), used_mem s, max_mem s)"

section \<open>Initialisation\<close>

partial_function (option) zone_size_loop :: "u32 \<Rightarrow> u32 \<Rightarrow> u32 option" where
  "zone_size_loop lim zs =
     (if zs < ZALLOC_MAX_ZONE_SIZE \<and> push_bit 1 zs < lim div 1024 then zone_size_loop lim (push_bit 1 zs) else Some zs)"

text \<open>
  The lists of zones start empty. The usage table itself takes the first pages; without room for it
  the code stops in the debugger.
\<close>

definition rt_system_heap_init :: "u32 \<Rightarrow> u32 \<Rightarrow> slab \<Rightarrow> slab option" where
  "rt_system_heap_init begin_addr end_addr s =
     (let heap_start = page_align begin_addr; heap_end = RT_ALIGN_DOWN end_addr (of_nat RT_MM_PAGE_SIZE) in
      if heap_start \<ge> heap_end then Some s
      else do {
        let limsize = heap_end - heap_start;
        let npages = unat (limsize div of_nat RT_MM_PAGE_SIZE);
        pg \<leftarrow> rt_page_init npages (slab_pages s);
        zs \<leftarrow> zone_size_loop limsize ZALLOC_MIN_ZONE_SIZE;
        let limsize = page_align (of_nat npages * sizeof_memusage);
        (p, pg) \<leftarrow> page_alloc (unat (limsize div of_nat RT_MM_PAGE_SIZE)) pg;
        b \<leftarrow> p;
        let s = s\<lparr>heap_npages := npages, slab_pages := pg, zone_size := zs,
          zone_limit := (if zs div 4 > ZALLOC_ZONE_LIMIT then ZALLOC_ZONE_LIMIT else zs div 4),
          zone_page_cnt := unat zs div RT_MM_PAGE_SIZE,
          usage := (\<lambda>_. \<lparr>mu_type = PAGE_TYPE_FREE, mu_size = 0\<rparr>)\<rparr>;
        Some (if limsize > zs then set_usage b PAGE_TYPE_LARGE (unat (drop_bit RT_MM_PAGE_BITS limsize)) s
          else usage_small b (unat (limsize div of_nat RT_MM_PAGE_SIZE)) s) })"

section \<open>Chunk sizes are right\<close>

definition chunk_size :: "nat \<Rightarrow> nat" where
  "chunk_size i =
     (if i < 16 then 8 * (i + 1) else if i < 24 then 16 * (i - 7) else if i < 32 then 32 * (i - 15)
      else if i < 40 then 64 * (i - 23) else if i < 48 then 128 * (i - 31) else if i < 56 then 256 * (i - 39)
      else if i < 64 then 512 * (i - 47) else 1024 * (i - 55))"

lemma round_index:
  fixes n :: u32 and c :: nat
  assumes "unat n < 2 ^ 14" "k \<le> 10" "c < 100"
  defines "n' \<equiv> (n + (2 ^ k - 1)) AND NOT (2 ^ k - 1)" and "q \<equiv> (unat n + (2 ^ k - 1)) div 2 ^ k"
  shows "n' = of_nat (2 ^ k * q)" "uint (n' div 2 ^ k) = int q" "uint (n' div 2 ^ k + of_nat c) = int (q + c)"
    "unat n \<le> 2 ^ k * q" "2 ^ k * q < unat n + 2 ^ k" "unat n \<le> 1024 * m \<Longrightarrow> 2 ^ k * q \<le> 1024 * m"
proof -
  have "(2 :: nat) ^ k \<le> 2 ^ 10" using assms(2) by (intro power_increasing) auto
  then have pk: "(2 :: nat) ^ k \<le> 1024" "0 < (2 :: nat) ^ k" by simp_all
  let ?d = "2 ^ k :: nat"
  have "?d * q \<le> unat n + (?d - 1)" "unat n + (?d - 1) < ?d * q + ?d"
    unfolding q_def using pk(2) dividend_less_times_div [of ?d "unat n + (?d - 1)"] by (auto simp: mult.commute)
  then show q: "unat n \<le> ?d * q" "?d * q < unat n + ?d" using pk(2) by linarith+
  show "?d * q \<le> 1024 * m" if m: "unat n \<le> 1024 * m"
  proof -
    have e: "1024 * m = ?d * (2 ^ (10 - k) * m)"
      using power_add [of "2 :: nat" k "10 - k"] assms(2) by (simp add: mult.assoc [symmetric])
    have "?d * q < ?d * (2 ^ (10 - k) * m + 1)" using q(2) m e by simp
    then have "q \<le> 2 ^ (10 - k) * m" unfolding mult_less_cancel1 by simp
    then show ?thesis unfolding e by (rule mult_le_mono2)
  qed
  have qb: "q < 2 ^ 15"
    unfolding q_def using pk assms(1) by (intro le_less_trans [OF div_le_dividend]) auto
  have u: "unat n' = ?d * q"
    unfolding n'_def q_def using pk assms(1,2) by (subst unat_round_up) (auto simp: mult.commute)
  moreover have "?d * q < 2 ^ 32" using q(2) pk assms(1) by simp
  ultimately show "n' = of_nat (?d * q)" unfolding word_unat_eq_iff by (simp only: unat_of_nat32)
  have "unat (2 ^ k :: u32) = ?d" using unat_of_nat32 [of ?d] pk by simp
  then have d: "unat (n' div 2 ^ k) = q" using pk u by (simp add: unat_div)
  then show "uint (n' div 2 ^ k) = int q" by (simp add: uint_nat)
  have "unat (n' div 2 ^ k + of_nat c) = q + c"
    using unat_add_nat32 [of "n' div 2 ^ k" c] d qb assms(3) by simp
  then show "uint (n' div 2 ^ k + of_nat c) = int (q + c)" by (simp add: uint_nat)
qed

lemma chunk_size_class:
  assumes "4 \<le> k" "k \<le> 10" "8 \<le> q" "q \<le> 16"
  shows "chunk_size (q + (8 * k - 25)) = 2 ^ k * q"
proof -
  have "k = 4 \<or> k = 5 \<or> k = 6 \<or> k = 7 \<or> k = 8 \<or> k = 9 \<or> k = 10" using assms(1,2) by linarith
  moreover have "q = 8 \<or> q = 9 \<or> q = 10 \<or> q = 11 \<or> q = 12 \<or> q = 13 \<or> q = 14 \<or> q = 15 \<or> q = 16" using assms(3,4) by linarith
  ultimately show ?thesis by (elim disjE) (simp_all add: chunk_size_def)
qed

text \<open>The classes of eight sizes, for \<open>4 \<le> k \<le> 10\<close>: from \<open>8 * 2 ^ k\<close> on, in steps of \<open>2 ^ k\<close>.\<close>

lemma zone_class:
  fixes n :: u32
  assumes "8 * 2 ^ k \<le> unat n" "unat n < 16 * 2 ^ k" "4 \<le> k" "k \<le> 10"
    and z: "zoneindex n = (uint (((n + (2 ^ k - 1)) AND NOT (2 ^ k - 1)) div 2 ^ k + of_nat (8 * k - 25)),
      (n + (2 ^ k - 1)) AND NOT (2 ^ k - 1))"
  obtains i where "zoneindex n = (int i, of_nat (chunk_size i))" "i < NZONES" "unat n \<le> chunk_size i"
    "8 * (chunk_size i - unat n) < max 64 (unat n)" "\<forall>m. unat n \<le> 1024 * m \<longrightarrow> chunk_size i \<le> 1024 * m"
proof -
  let ?q = "(unat n + (2 ^ k - 1)) div 2 ^ k"
  have pk: "(2 :: nat) ^ k \<le> 2 ^ 10" by (rule power_increasing) (use assms(4) in simp_all)
  have n: "unat n < 2 ^ 14" using assms(2) pk(1) by simp
  have c: "8 * k - 25 < 100" using assms(4) by simp
  note ri = round_index [OF n assms(4) c]
  have "2 ^ k * 8 \<le> 2 ^ k * ?q" "2 ^ k * ?q < 2 ^ k * 17" using ri(4,5) assms(1,2) by linarith+
  then have q: "8 \<le> ?q" "?q \<le> 16" unfolding mult_less_cancel1 nat_mult_le_cancel_disj by auto
  have i: "?q + (8 * k - 25) < NZONES" using q(2) assms(4) by (simp add: NZONES_def)
  have sz: "chunk_size (?q + (8 * k - 25)) = 2 ^ k * ?q" by (rule chunk_size_class [OF assms(3,4) q])
  have w: "8 * (2 ^ k * ?q - unat n) < max 64 (unat n)" using ri(4,5) assms(1) by linarith
  have "zoneindex n = (int (?q + (8 * k - 25)), of_nat (2 ^ k * ?q))" using z unfolding ri(3) unfolding ri(1) .
  then show thesis using that [of "?q + (8 * k - 25)", unfolded sz] ri(4,6) i w by blast
qed

lemma zoneindex_spec:
  assumes "0 < unat n" "unat n < 16384"
  obtains i where "zoneindex n = (int i, of_nat (chunk_size i))" "i < NZONES" "unat n \<le> chunk_size i"
    "8 * (chunk_size i - unat n) < max 64 (unat n)" "\<forall>m. unat n \<le> 1024 * m \<longrightarrow> chunk_size i \<le> 1024 * m"
proof -
  consider "unat n < 128" | "128 \<le> unat n" "unat n < 256" | "256 \<le> unat n" "unat n < 512" | "512 \<le> unat n" "unat n < 1024"
    | "1024 \<le> unat n" "unat n < 2048" | "2048 \<le> unat n" "unat n < 4096" | "4096 \<le> unat n" "unat n < 8192" | "8192 \<le> unat n"
    by linarith
  then show thesis
  proof cases
    case 1
    let ?q = "(unat n + 7) div 8"
    have n: "unat n < 2 ^ 14" using assms(2) by simp
    have m: "8 * ?q \<le> 1024 * m" if "unat n \<le> 1024 * m" for m
      using round_index(6) [OF n, of 3 0 m] that by simp
    note ri = round_index(1,2,4,5) [OF n, of 3 0, simplified]
    have q: "0 < ?q" "?q \<le> 16" using assms(1) 1 by auto
    have z: "zoneindex n = (int (?q - 1), of_nat (8 * ?q))"
      using ri(1,2) 1 q(1) by (simp add: zoneindex_def word_less_nat_alt)
    have sz: "chunk_size (?q - 1) = 8 * ?q" using q by (simp add: chunk_size_def)
    have w: "8 * (8 * ?q - unat n) < max 64 (unat n)" using ri(4) by linarith
    have i: "?q - 1 < NZONES" using q(2) by (simp add: NZONES_def)
    show thesis by (rule that [of "?q - 1", unfolded sz]) (use z i ri(3) w m in blast)+
  next
    case 2
    have "zoneindex n = (uint (((n + (2 ^ 4 - 1)) AND NOT (2 ^ 4 - 1)) div 2 ^ 4 + of_nat (8 * 4 - 25)),
        (n + (2 ^ 4 - 1)) AND NOT (2 ^ 4 - 1))"
      using 2 assms(2) by (simp add: zoneindex_def word_less_nat_alt Let_def)
    then show thesis by (rule zone_class [rotated 4]) (use 2 assms(2) that in simp_all)
  next
    case 3
    have "zoneindex n = (uint (((n + (2 ^ 5 - 1)) AND NOT (2 ^ 5 - 1)) div 2 ^ 5 + of_nat (8 * 5 - 25)),
        (n + (2 ^ 5 - 1)) AND NOT (2 ^ 5 - 1))"
      using 3 assms(2) by (simp add: zoneindex_def word_less_nat_alt Let_def)
    then show thesis by (rule zone_class [rotated 4]) (use 3 assms(2) that in simp_all)
  next
    case 4
    have "zoneindex n = (uint (((n + (2 ^ 6 - 1)) AND NOT (2 ^ 6 - 1)) div 2 ^ 6 + of_nat (8 * 6 - 25)),
        (n + (2 ^ 6 - 1)) AND NOT (2 ^ 6 - 1))"
      using 4 assms(2) by (simp add: zoneindex_def word_less_nat_alt Let_def)
    then show thesis by (rule zone_class [rotated 4]) (use 4 assms(2) that in simp_all)
  next
    case 5
    have "zoneindex n = (uint (((n + (2 ^ 7 - 1)) AND NOT (2 ^ 7 - 1)) div 2 ^ 7 + of_nat (8 * 7 - 25)),
        (n + (2 ^ 7 - 1)) AND NOT (2 ^ 7 - 1))"
      using 5 assms(2) by (simp add: zoneindex_def word_less_nat_alt Let_def)
    then show thesis by (rule zone_class [rotated 4]) (use 5 assms(2) that in simp_all)
  next
    case 6
    have "zoneindex n = (uint (((n + (2 ^ 8 - 1)) AND NOT (2 ^ 8 - 1)) div 2 ^ 8 + of_nat (8 * 8 - 25)),
        (n + (2 ^ 8 - 1)) AND NOT (2 ^ 8 - 1))"
      using 6 assms(2) by (simp add: zoneindex_def word_less_nat_alt Let_def)
    then show thesis by (rule zone_class [rotated 4]) (use 6 assms(2) that in simp_all)
  next
    case 7
    have "zoneindex n = (uint (((n + (2 ^ 9 - 1)) AND NOT (2 ^ 9 - 1)) div 2 ^ 9 + of_nat (8 * 9 - 25)),
        (n + (2 ^ 9 - 1)) AND NOT (2 ^ 9 - 1))"
      using 7 assms(2) by (simp add: zoneindex_def word_less_nat_alt Let_def)
    then show thesis by (rule zone_class [rotated 4]) (use 7 assms(2) that in simp_all)
  next
    case 8
    have "zoneindex n = (uint (((n + (2 ^ 10 - 1)) AND NOT (2 ^ 10 - 1)) div 2 ^ 10 + of_nat (8 * 10 - 25)),
        (n + (2 ^ 10 - 1)) AND NOT (2 ^ 10 - 1))"
      using 8 assms(2) by (simp add: zoneindex_def word_less_nat_alt Let_def)
    then show thesis by (rule zone_class [rotated 4]) (use 8 assms(2) that in simp_all)
  qed
qed

lemma all_less_numeral: "(\<forall>i<numeral n. P i) = (P (pred_numeral n) \<and> (\<forall>i<pred_numeral n. P i))"
  by (auto simp: numeral_eq_Suc less_Suc_eq)

lemma chunk_size_bounds:
  assumes "i < NZONES"
  shows "8 \<le> chunk_size i" "chunk_size i \<le> 16384" "unat (of_nat (chunk_size i) :: u32) = chunk_size i"
proof -
  show b: "8 \<le> chunk_size i" "chunk_size i \<le> 16384" using assms by (auto simp: chunk_size_def NZONES_def)
  show "unat (of_nat (chunk_size i) :: u32) = chunk_size i" using b(2) by (simp add: unat_of_nat32)
qed

text \<open>The chunks start behind the header of the zone, and not far.\<close>

lemma zone_offset_bounds:
  assumes "i < NZONES"
  shows "40 \<le> unat (zone_offset (of_nat (chunk_size i)))" "unat (zone_offset (of_nat (chunk_size i))) \<le> max 64 (chunk_size i)"
proof -
  have "\<forall>i<72. 40 \<le> zone_offset (of_nat (chunk_size i)) \<and>
      (zone_offset (of_nat (chunk_size i)) \<le> 64 \<or> zone_offset (of_nat (chunk_size i)) = of_nat (chunk_size i))"
    by (simp add: all_less_numeral chunk_size_def zone_offset_def sizeof_slab_zone_def MIN_CHUNK_MASK_def)
  then have w: "40 \<le> zone_offset (of_nat (chunk_size i))"
      "zone_offset (of_nat (chunk_size i)) \<le> 64 \<or> zone_offset (of_nat (chunk_size i)) = of_nat (chunk_size i)"
    using assms by (simp_all add: NZONES_def)
  show "40 \<le> unat (zone_offset (of_nat (chunk_size i)))" using w(1) by (simp add: word_le_nat_alt)
  show "unat (zone_offset (of_nat (chunk_size i))) \<le> max 64 (chunk_size i)"
    using w(2) chunk_size_bounds(3) [OF assms] by (auto simp: word_le_nat_alt)
qed

text \<open>
  C17: \<^verbatim>\<open>zoneindex\<close> on every request below the largest zone limit: the index is one of the zone array,
  it is computed without wrap-around, the chunk of that index is the rounded size, it holds the
  request, and at most an eighth of the request, or 8 bytes, is lost.
\<close>

theorem zoneindex_result:
  assumes "0 < unat n" "unat n < 16384"
  shows "\<exists>i < NZONES. zoneindex n = (int i, of_nat (chunk_size i)) \<and> unat n \<le> chunk_size i \<and>
    8 * (chunk_size i - unat n) < max 64 (unat n)"
proof -
  obtain i where "zoneindex n = (int i, of_nat (chunk_size i))" "i < NZONES" "unat n \<le> chunk_size i"
    "8 * (chunk_size i - unat n) < max 64 (unat n)" by (rule zoneindex_spec [OF assms])
  then show ?thesis by blast
qed

end
