(* ===== verification/RTT_SlabInv.thy ===== *)
theory RTT_SlabInv
  imports RTT_Slab RTT_Allocator
begin

text \<open>
  The slab allocator keeps the contract of a heap. The pages that are not free are cut into extents:
  what the start-up reserved, the zones in use, the zones that wait on the list of free zones, and
  the large blocks. \<open>slab_shape\<close> says how the extents, the lists of zones and the lists of free chunks
  are laid out in the state, \<open>slab_rep\<close> which blocks are allocated.
\<close>

section \<open>Extents\<close>

datatype extent_kind = Reserved | InZone | Idle | LargeBlock

type_synonym extents = "nat \<Rightarrow> (extent_kind \<times> nat) option"

definition extents_ok :: "nat \<Rightarrow> nat set \<Rightarrow> extents \<Rightarrow> bool" where
  "extents_ok hi P e \<longleftrightarrow>
     (\<forall>b t k. e b = Some (t, k) \<longrightarrow> 0 < k \<and> b + k \<le> hi \<and> {b..<b + k} \<inter> P = {}) \<and>
     (\<forall>b t k c u l. e b = Some (t, k) \<longrightarrow> e c = Some (u, l) \<longrightarrow> b \<noteq> c \<longrightarrow> {b..<b + k} \<inter> {c..<c + l} = {})"

lemma extents_okD:
  assumes "extents_ok hi P e" "e b = Some (t, k)"
  shows "0 < k" "b + k \<le> hi" "{b..<b + k} \<inter> P = {}" "b \<notin> P"
    "e c = Some (u, l) \<Longrightarrow> b \<noteq> c \<Longrightarrow> {b..<b + k} \<inter> {c..<c + l} = {}"
proof -
  show k: "0 < k" "b + k \<le> hi" "{b..<b + k} \<inter> P = {}" using assms unfolding extents_ok_def by blast+
  have "b \<in> {b..<b + k}" using k(1) by simp
  then show "b \<notin> P" using k(3) by blast
  show "e c = Some (u, l) \<Longrightarrow> b \<noteq> c \<Longrightarrow> {b..<b + k} \<inter> {c..<c + l} = {}"
    using assms unfolding extents_ok_def by blast
qed

lemma extent_unique:
  assumes "extents_ok hi P e" "e b = Some (t, k)" "e c = Some (u, l)" "p \<in> {b..<b + k}" "p \<in> {c..<c + l}"
  shows "b = c"
  using extents_okD(5) [OF assms(1,2,3)] assms(4,5) by blast

lemma extents_alloc:
  assumes "extents_ok hi P e" "{b..<b + n} \<subseteq> P" "0 < n" "\<forall>x\<in>P. x < hi"
  shows "extents_ok hi (P - {b..<b + n}) (e(b \<mapsto> (t, n)))" "e b = None"
proof -
  have b: "b \<in> P" "b + (n - 1) \<in> P" using assms(2,3) by auto
  show none: "e b = None"
  proof (cases "e b")
    case (Some x)
    then show ?thesis using extents_okD(4) [OF assms(1), of b "fst x" "snd x"] b(1) by simp
  qed
  have apart: "{b..<b + n} \<inter> {c..<c + l} = {}" if "e c = Some (u, l)" for c u l
    using extents_okD(3) [OF assms(1) that] assms(2) by blast
  have hi: "b + n \<le> hi" using b(2) assms(3,4) by fastforce
  show "extents_ok hi (P - {b..<b + n}) (e(b \<mapsto> (t, n)))"
    unfolding extents_ok_def
  proof (intro conjI allI impI)
    fix c u l assume c: "(e(b \<mapsto> (t, n))) c = Some (u, l)"
    show "0 < l" "c + l \<le> hi" "{c..<c + l} \<inter> (P - {b..<b + n}) = {}"
      using c hi assms(3) extents_okD(1-3) [OF assms(1), of c u l] by (auto split: if_splits)
  next
    fix c u l d v m assume "(e(b \<mapsto> (t, n))) c = Some (u, l)" "(e(b \<mapsto> (t, n))) d = Some (v, m)" "c \<noteq> d"
    then show "{c..<c + l} \<inter> {d..<d + m} = {}"
      using apart [of c u l] apart [of d v m] extents_okD(5) [OF assms(1), of c u l d v m]
      by (auto simp: Int_commute split: if_splits)
  qed
qed

lemma extents_free:
  assumes "extents_ok hi P e" "e b = Some (t, k)"
  shows "extents_ok hi (P \<union> {b..<b + k}) (e(b := None))"
  unfolding extents_ok_def
proof (intro conjI allI impI)
  fix c u l assume c: "(e(b := None)) c = Some (u, l)"
  then have c': "e c = Some (u, l)" "c \<noteq> b" by (auto split: if_splits)
  then show "0 < l" "c + l \<le> hi" "{c..<c + l} \<inter> (P \<union> {b..<b + k}) = {}"
    using extents_okD(1-3) [OF assms(1) c'(1)] extents_okD(5) [OF assms(1) c'(1) assms(2) c'(2)] by blast+
next
  fix c u l d v m assume "(e(b := None)) c = Some (u, l)" "(e(b := None)) d = Some (v, m)" "c \<noteq> d"
  then show "{c..<c + l} \<inter> {d..<d + m} = {}"
    using extents_okD(5) [OF assms(1), of c u l d v m] by (auto split: if_splits)
qed

lemma extents_retype:
  assumes "extents_ok hi P e" "e b = Some (t, k)"
  shows "extents_ok hi P (e(b \<mapsto> (u, k)))"
  unfolding extents_ok_def
proof (intro conjI allI impI)
  fix c v l assume c: "(e(b \<mapsto> (u, k))) c = Some (v, l)"
  then obtain w where "e c = Some (w, l)" using assms(2) by (auto split: if_splits)
  then show "0 < l" "c + l \<le> hi" "{c..<c + l} \<inter> P = {}" using extents_okD(1-3) [OF assms(1)] by blast+
next
  fix c v l d w m assume a: "(e(b \<mapsto> (u, k))) c = Some (v, l)" "(e(b \<mapsto> (u, k))) d = Some (w, m)" "c \<noteq> d"
  obtain v' w' where "e c = Some (v', l)" "e d = Some (w', m)" using a assms(2) by (auto split: if_splits)
  then show "{c..<c + l} \<inter> {d..<d + m} = {}" using extents_okD(5) [OF assms(1)] a(3) by blast
qed

section \<open>Zones\<close>

definition chunk_at :: "slab_zone \<Rightarrow> nat \<Rightarrow> nat" where
  "chunk_at r i = z_baseptr r + i * unat (z_chunksize r)"

text \<open>
  A zone of \<open>n\<close> pages from page \<open>z\<close>, whose chunks with the numbers \<open>fc\<close> were freed. The chunks up to
  \<open>z_uindex\<close> were handed out at some time; the free ones among them are linked.
\<close>

definition zone_ok :: "nat \<Rightarrow> (nat \<Rightarrow> nat option) \<Rightarrow> nat \<Rightarrow> slab_zone \<Rightarrow> nat list \<Rightarrow> bool" where
  "zone_ok n nx z r fc \<longleftrightarrow>
     z_magic r = ZALLOC_SLAB_MAGIC \<and> z_zoneindex r < NZONES \<and> z_chunksize r = of_nat (chunk_size (z_zoneindex r)) \<and>
     z_baseptr r = z * 4096 + unat (zone_offset (z_chunksize r)) \<and> (\<exists>m. z_nmax r = int m \<and> z_uindex r < m \<and> chunk_at r m \<le> (z + n) * 4096) \<and>
     z_nfree r = z_nmax r - 1 - int (z_uindex r) + int (length fc) \<and> z_nused r + z_nfree r = z_nmax r \<and>
     distinct fc \<and> (\<forall>i\<in>set fc. i \<le> z_uindex r) \<and> chain nx (z_freechunk r) (map (chunk_at r) fc)"

lemma chunk_at_fields:
  "z_baseptr r' = z_baseptr r \<Longrightarrow> z_chunksize r' = z_chunksize r \<Longrightarrow> chunk_at r' = chunk_at r"
  by (simp add: chunk_at_def fun_eq_iff)

lemma chunk_at_next [simp]: "chunk_at (r\<lparr>z_next := p\<rparr>) = chunk_at r"
  by (rule chunk_at_fields) simp_all

definition zone_blocks :: "slab_zone \<Rightarrow> nat list \<Rightarrow> (nat \<times> nat) set" where
  "zone_blocks r fc = (\<lambda>i. (chunk_at r i, unat (z_chunksize r))) ` ({..z_uindex r} - set fc)"

lemma zone_okD:
  assumes "zone_ok n nx z r fc"
  shows "z_magic r = ZALLOC_SLAB_MAGIC" "z_zoneindex r < NZONES" "unat (z_chunksize r) = chunk_size (z_zoneindex r)"
    "8 \<le> unat (z_chunksize r)" "z_nused r + z_nfree r = z_nmax r" "distinct fc" "set fc \<subseteq> {..z_uindex r}"
    "int (z_uindex r) < z_nmax r" "z_nfree r = z_nmax r - 1 - int (z_uindex r) + int (length fc)"
    "chain nx (z_freechunk r) (map (chunk_at r) fc)" "z * 4096 < z_baseptr r"
proof -
  show "z_magic r = ZALLOC_SLAB_MAGIC" and i: "z_zoneindex r < NZONES" "z_nused r + z_nfree r = z_nmax r" "distinct fc"
    "set fc \<subseteq> {..z_uindex r}" "int (z_uindex r) < z_nmax r" "z_nfree r = z_nmax r - 1 - int (z_uindex r) + int (length fc)"
    "chain nx (z_freechunk r) (map (chunk_at r) fc)"
    using assms by (auto simp: zone_ok_def)
  have c: "z_chunksize r = of_nat (chunk_size (z_zoneindex r))" using assms by (simp add: zone_ok_def)
  show u: "unat (z_chunksize r) = chunk_size (z_zoneindex r)" unfolding c by (rule chunk_size_bounds(3) [OF i(1)])
  show "8 \<le> unat (z_chunksize r)" unfolding u by (rule chunk_size_bounds(1) [OF i(1)])
  show "z * 4096 < z_baseptr r" using assms zone_offset_bounds(1) [OF i(1)] unfolding zone_ok_def by simp
qed

text \<open>The links between zones do not matter for a zone, nor do the links in other zones.\<close>

lemma zone_ok_next [simp]:
  "zone_ok n nx z (r\<lparr>z_next := p\<rparr>) fc = zone_ok n nx z r fc" "zone_blocks (r\<lparr>z_next := p\<rparr>) fc = zone_blocks r fc"
  by (simp_all add: zone_ok_def zone_blocks_def)

lemma chunk_inside:
  assumes "zone_ok n nx z r fc" "i \<le> z_uindex r"
  shows "z * 4096 < chunk_at r i" "chunk_at r i + unat (z_chunksize r) \<le> (z + n) * 4096"
proof -
  obtain m where m: "z_uindex r < m" "chunk_at r m \<le> (z + n) * 4096" using assms(1) by (auto simp: zone_ok_def)
  show "z * 4096 < chunk_at r i" using zone_okD(11) [OF assms(1)] by (simp add: chunk_at_def)
  have "Suc i * unat (z_chunksize r) \<le> m * unat (z_chunksize r)" using m(1) assms(2) by (intro mult_le_mono1) simp
  then show "chunk_at r i + unat (z_chunksize r) \<le> (z + n) * 4096" using m(2) by (simp add: chunk_at_def)
qed

lemma zone_ok_cong:
  assumes "zone_ok n nx z r fc" "\<And>x. z * 4096 < x \<Longrightarrow> x < (z + n) * 4096 \<Longrightarrow> nx' x = nx x"
  shows "zone_ok n nx' z r fc"
proof -
  have "nx' x = nx x" if "x \<in> set (map (chunk_at r) fc)" for x
  proof -
    obtain i where i: "i \<le> z_uindex r" "x = chunk_at r i" using \<open>x \<in> _\<close> zone_okD(7) [OF assms(1)] by auto
    show ?thesis using chunk_inside [OF assms(1) i(1)] zone_okD(4) [OF assms(1)] unfolding i(2) by (intro assms(2)) linarith+
  qed
  then have "chain nx' (z_freechunk r) (map (chunk_at r) fc)" using zone_okD(10) [OF assms(1)] chain_cong by metis
  then show ?thesis using assms(1) by (simp add: zone_ok_def)
qed

lemma chunk_at_less: "0 < unat (z_chunksize r) \<Longrightarrow> i < j \<Longrightarrow> chunk_at r i + unat (z_chunksize r) \<le> chunk_at r j"
  using mult_le_mono1 [of "Suc i" j "unat (z_chunksize r)"] by (simp add: chunk_at_def)

lemma chunk_at_inj:
  assumes "0 < unat (z_chunksize r)" "chunk_at r i = chunk_at r j"
  shows "i = j"
  using chunk_at_less [OF assms(1), of i j] chunk_at_less [OF assms(1), of j i] assms by (cases i j rule: linorder_cases) auto

lemma zone_blocks_disjoint:
  assumes "zone_ok n nx z r fc" "(p, k) \<in> zone_blocks r fc" "(q, l) \<in> zone_blocks r fc" "(p, k) \<noteq> (q, l)"
  shows "p + k \<le> q \<or> q + l \<le> p"
proof -
  have c: "0 < unat (z_chunksize r)" using zone_okD(4) [OF assms(1)] by simp
  obtain i j where ij: "p = chunk_at r i" "q = chunk_at r j" "k = unat (z_chunksize r)" "l = unat (z_chunksize r)"
    using assms(2,3) by (auto simp: zone_blocks_def)
  then have "i \<noteq> j" using assms(4) by blast
  then show ?thesis using chunk_at_less [OF c, of i j] chunk_at_less [OF c, of j i] ij by linarith
qed

lemma zone_blocks_inside:
  assumes "zone_ok n nx z r fc" "(p, k) \<in> zone_blocks r fc"
  shows "z * 4096 < p" "p + k \<le> (z + n) * 4096" "8 \<le> k" "k = unat (z_chunksize r)"
  using assms(2) chunk_inside [OF assms(1)] zone_okD(4) [OF assms(1)] by (auto simp: zone_blocks_def)

text \<open>A zone counts its chunks right: without used ones it has no blocks.\<close>

lemma zone_empty:
  assumes "zone_ok n nx z r fc" "z_nused r = 0"
  shows "zone_blocks r fc = {}"
proof -
  have "int (length fc) = int (z_uindex r) + 1" using zone_okD(5,9) [OF assms(1)] assms(2) by linarith
  then have "card (set fc) = card {..z_uindex r}" using distinct_card [OF zone_okD(6) [OF assms(1)]] by simp
  then have "set fc = {..z_uindex r}" using zone_okD(7) [OF assms(1)] by (intro card_subset_eq) auto
  then show ?thesis by (simp add: zone_blocks_def)
qed

text \<open>
  Every chunk is aligned to 8 bytes, and a chunk whose size is a power of two up to the page size to
  its size.
\<close>

lemma chunk_align:
  assumes "zone_ok n nx z r fc" "a dvd 4096" "a dvd unat (z_chunksize r)" "a dvd unat (zone_offset (z_chunksize r))"
  shows "a dvd chunk_at r i"
proof -
  have "z_baseptr r = z * 4096 + unat (zone_offset (z_chunksize r))" using assms(1) by (simp add: zone_ok_def)
  then show ?thesis using assms(2-4) by (simp add: chunk_at_def)
qed

lemma zone_offset_align:
  assumes "i < NZONES"
  shows "8 dvd chunk_size i" "8 dvd unat (zone_offset (of_nat (chunk_size i)))"
    "k \<le> 12 \<Longrightarrow> chunk_size i = 2 ^ k \<Longrightarrow> 2 ^ k dvd unat (zone_offset (of_nat (chunk_size i)))"
proof -
  show "8 dvd chunk_size i" by (simp add: chunk_size_def dvd_mult2)
  define d where "d = zone_offset (of_nat (chunk_size i))"
  have "\<forall>i<72. zone_offset (of_nat (chunk_size i)) = of_nat (chunk_size i) \<or>
      chunk_size i = 16 \<and> zone_offset (of_nat (chunk_size i)) = 48 \<or> chunk_size i = 32 \<and> zone_offset (of_nat (chunk_size i)) = 64 \<or>
      chunk_size i \<notin> {16, 32, 64, 128, 256, 512, 1024, 2048, 4096} \<and> zone_offset (of_nat (chunk_size i)) = 40"
    by (simp add: all_less_numeral chunk_size_def zone_offset_def sizeof_slab_zone_def MIN_CHUNK_MASK_def)
  then have off: "d = of_nat (chunk_size i) \<or> chunk_size i = 16 \<and> d = 48 \<or> chunk_size i = 32 \<and> d = 64 \<or>
      chunk_size i \<notin> {16, 32, 64, 128, 256, 512, 1024, 2048, 4096} \<and> d = 40"
    unfolding d_def using assms by (simp add: NZONES_def)
  show "8 dvd unat (zone_offset (of_nat (chunk_size i)))"
    using off chunk_size_bounds(3) [OF assms] \<open>8 dvd chunk_size i\<close> unfolding d_def [symmetric] by (elim disjE) simp_all
  assume k: "k \<le> 12" "chunk_size i = 2 ^ k"
  have "k = 3 \<or> k = 4 \<or> k = 5 \<or> k = 6 \<or> k = 7 \<or> k = 8 \<or> k = 9 \<or> k = 10 \<or> k = 11 \<or> k = 12"
  proof -
    have "(2 :: nat) ^ 3 \<le> 2 ^ k" using chunk_size_bounds(1) [OF assms] k(2) by simp
    then have "3 \<le> k" by (simp only: power_increasing_iff)
    then show ?thesis using k(1) by presburger
  qed
  from this show "2 ^ k dvd unat (zone_offset (of_nat (chunk_size i)))"
    using off k(2) chunk_size_bounds(3) [OF assms] unfolding d_def [symmetric] by (elim disjE) simp_all
qed

section \<open>The shape of the heap\<close>

definition slab_geometry :: "slab \<Rightarrow> bool" where
  "slab_geometry s \<longleftrightarrow>
     unat (zone_size s) = zone_page_cnt s * 4096 \<and> 8 \<le> zone_page_cnt s \<and> zone_page_cnt s \<le> 32 \<and>
     (zone_limit s = 8192 \<or> zone_limit s = 16384 \<and> 16 \<le> zone_page_cnt s) \<and> heap_npages s < 2 ^ 20"

definition usage_ok :: "slab \<Rightarrow> extents \<Rightarrow> bool" where
  "usage_ok s e \<longleftrightarrow>
     (\<forall>b k. e b = Some (LargeBlock, k) \<longrightarrow> usage s b = \<lparr>mu_type = PAGE_TYPE_LARGE, mu_size = k\<rparr>) \<and>
     (\<forall>z t k. e z = Some (t, k) \<longrightarrow> t = InZone \<or> t = Idle \<longrightarrow>
        k = zone_page_cnt s \<and> (\<forall>i<k. usage s (z + i) = \<lparr>mu_type = PAGE_TYPE_SMALL, mu_size = i\<rparr>))"

abbreviation znext :: "slab \<Rightarrow> nat \<Rightarrow> nat option" where
  "znext s \<equiv> (\<lambda>z. z_next (zones s z))"

text \<open>The list for a zone index holds the zones of that index with free chunks.\<close>

definition listed :: "slab \<Rightarrow> extents \<Rightarrow> nat \<Rightarrow> nat set" where
  "listed s e i = {z. (\<exists>k. e z = Some (InZone, k)) \<and> z_zoneindex (zones s z) = i \<and> 0 < z_nfree (zones s z)}"

definition lists_ok :: "slab \<Rightarrow> extents \<Rightarrow> bool" where
  "lists_ok s e \<longleftrightarrow> (\<forall>i. \<exists>zs. chain (znext s) (zone_array s i) zs \<and> distinct zs \<and> set zs = listed s e i)"

definition idle_ok :: "slab \<Rightarrow> extents \<Rightarrow> bool" where
  "idle_ok s e \<longleftrightarrow> (\<exists>zs. chain (znext s) (zone_free s) zs \<and> distinct zs \<and>
     set zs = {z. \<exists>k. e z = Some (Idle, k)} \<and> zone_free_cnt s = int (length zs))"

definition zones_ok :: "slab \<Rightarrow> extents \<Rightarrow> (nat \<Rightarrow> nat list) \<Rightarrow> bool" where
  "zones_ok s e fc \<longleftrightarrow>
     (\<forall>z k. e z = Some (InZone, k) \<longrightarrow> zone_ok (zone_page_cnt s) (chunk_next s) z (zones s z) (fc z))"

definition slab_shape :: "slab \<Rightarrow> nat set \<Rightarrow> extents \<Rightarrow> (nat \<Rightarrow> nat list) \<Rightarrow> bool" where
  "slab_shape s P e fc \<longleftrightarrow>
     page_rep (heap_npages s) (slab_pages s) P \<and> extents_ok (heap_npages s) P e \<and> slab_geometry s \<and>
     usage_ok s e \<and> lists_ok s e \<and> idle_ok s e \<and> zones_ok s e fc"

text \<open>The allocated blocks.\<close>

definition large_blocks :: "extents \<Rightarrow> (nat \<times> nat) set" where
  "large_blocks e = {(b * 4096, k * 4096) | b k. e b = Some (LargeBlock, k)}"

definition small_blocks :: "slab \<Rightarrow> extents \<Rightarrow> (nat \<Rightarrow> nat list) \<Rightarrow> (nat \<times> nat) set" where
  "small_blocks s e fc = (\<Union>z\<in>{z. \<exists>k. e z = Some (InZone, k)}. zone_blocks (zones s z) (fc z))"

definition slab_blocks :: "slab \<Rightarrow> extents \<Rightarrow> (nat \<Rightarrow> nat list) \<Rightarrow> (nat \<times> nat) set" where
  "slab_blocks s e fc = large_blocks e \<union> small_blocks s e fc"

definition block_sum :: "(nat \<times> nat) set \<Rightarrow> nat" where
  "block_sum L = (\<Sum>b\<in>L. snd b)"

definition slab_rep :: "slab \<Rightarrow> (nat \<times> nat) set \<Rightarrow> bool" where
  "slab_rep s L \<longleftrightarrow>
     (\<exists>P e fc. slab_shape s P e fc \<and> L = slab_blocks s e fc) \<and> finite L \<and> used_mem s = of_nat (block_sum L)"

section \<open>Blocks\<close>

lemma shapeD:
  assumes "slab_shape s P e fc"
  shows "page_rep (heap_npages s) (slab_pages s) P" "extents_ok (heap_npages s) P e" "slab_geometry s" "usage_ok s e"
    "lists_ok s e" "idle_ok s e" "zones_ok s e fc"
  using assms unfolding slab_shape_def by blast+

lemma zone_extent:
  assumes "slab_shape s P e fc" "e z = Some (t, k)" "t = InZone \<or> t = Idle"
  shows "k = zone_page_cnt s" "\<And>i. i < k \<Longrightarrow> usage s (z + i) = \<lparr>mu_type = PAGE_TYPE_SMALL, mu_size = i\<rparr>"
  using shapeD(4) [OF assms(1)] assms(2,3) unfolding usage_ok_def by blast+

lemma shape_zone_ok: "slab_shape s P e fc \<Longrightarrow> e z = Some (InZone, k) \<Longrightarrow> zone_ok (zone_page_cnt s) (chunk_next s) z (zones s z) (fc z)"
  using shapeD(7) unfolding zones_ok_def by blast

text \<open>Every block lies in an extent.\<close>

lemma block_extent:
  assumes "slab_shape s P e fc" "(p, n) \<in> slab_blocks s e fc"
  obtains b k where "e b = Some (LargeBlock, k)" "p = b * 4096" "n = k * 4096" "0 < k"
  | z k where "e z = Some (InZone, k)" "k = zone_page_cnt s" "(p, n) \<in> zone_blocks (zones s z) (fc z)"
    "z * 4096 < p" "p + n \<le> (z + k) * 4096" "8 \<le> n"
proof -
  consider b k where "e b = Some (LargeBlock, k)" "p = b * 4096" "n = k * 4096"
    | z k where "e z = Some (InZone, k)" "(p, n) \<in> zone_blocks (zones s z) (fc z)"
    using assms(2) by (auto simp: slab_blocks_def large_blocks_def small_blocks_def)
  then show thesis
  proof cases
    case (1 b k)
    then show thesis using that(1) extents_okD(1) [OF shapeD(2) [OF assms(1)]] by blast
  next
    case (2 z k)
    note zb = zone_blocks_inside [OF shape_zone_ok [OF assms(1) 2(1)] 2(2)]
    have k: "k = zone_page_cnt s" by (rule zone_extent(1) [OF assms(1) 2(1)]) simp
    show thesis by (rule that(2) [OF 2(1) k 2(2) zb(1) _ zb(3)]) (use zb(2) k in simp)
  qed
qed

lemma block_inside:
  assumes "slab_shape s P e fc" "(p, n) \<in> slab_blocks s e fc"
  obtains b t k where "e b = Some (t, k)" "b * 4096 \<le> p" "p + n \<le> (b + k) * 4096" "0 < n" "t = LargeBlock \<and> p = b * 4096 \<and> n = k * 4096 \<or> t = InZone \<and> (p, n) \<in> zone_blocks (zones s b) (fc b)"
  using assms by (rule block_extent) (use that in \<open>force simp: algebra_simps\<close>)+

lemma ranges_apart:
  fixes b c :: nat
  assumes "{b..<b + k} \<inter> {c..<c + l} = {}" "0 < k" "0 < l"
  shows "b + k \<le> c \<or> c + l \<le> b"
proof (rule ccontr)
  assume "\<not> ?thesis"
  then have "max b c \<in> {b..<b + k} \<inter> {c..<c + l}" using assms(2,3) by auto
  then show False using assms(1) by blast
qed

lemma extents_apart:
  assumes "extents_ok hi P e" "e b = Some (t, k)" "e c = Some (u, l)" "b \<noteq> c"
  shows "(b + k) * 4096 \<le> c * 4096 \<or> (c + l) * 4096 \<le> b * 4096"
  using ranges_apart [OF extents_okD(5) [OF assms]] extents_okD(1) [OF assms(1,2)] extents_okD(1) [OF assms(1,3)]
  unfolding mult_le_cancel2 by blast

lemma slab_blocks_disjoint:
  assumes "slab_shape s P e fc" "(p, n) \<in> slab_blocks s e fc" "(q, m) \<in> slab_blocks s e fc" "(p, n) \<noteq> (q, m)"
  shows "p \<noteq> q \<and> (p + n \<le> q \<or> q + m \<le> p)"
proof -
  obtain b t k where b: "e b = Some (t, k)" "b * 4096 \<le> p" "p + n \<le> (b + k) * 4096" "0 < n" 
    "t = LargeBlock \<and> p = b * 4096 \<and> n = k * 4096 \<or> t = InZone \<and> (p, n) \<in> zone_blocks (zones s b) (fc b)"
    by (rule block_inside [OF assms(1,2)])
  obtain c u l where c: "e c = Some (u, l)" "c * 4096 \<le> q" "q + m \<le> (c + l) * 4096" "0 < m" 
    "u = LargeBlock \<and> q = c * 4096 \<and> m = l * 4096 \<or> u = InZone \<and> (q, m) \<in> zone_blocks (zones s c) (fc c)"
    by (rule block_inside [OF assms(1,3)])
  have "p + n \<le> q \<or> q + m \<le> p"
  proof (cases "b = c")
    case False
    then show ?thesis using extents_apart [OF shapeD(2) [OF assms(1)] b(1) c(1)] b(2,3) c(2,3) by linarith
  next
    case True
    then have u: "u = t" "l = k" using b(1) c(1) by auto
    then have z: "t = InZone" "(p, n) \<in> zone_blocks (zones s b) (fc b)" "(q, m) \<in> zone_blocks (zones s b) (fc b)"
      using b(5) c(5) assms(4) unfolding True by auto
    show ?thesis by (rule zone_blocks_disjoint [OF shape_zone_ok [OF assms(1) b(1) [unfolded z(1)]] z(2,3) assms(4)])
  qed
  then show ?thesis using b(4) c(4) by linarith
qed

lemma small_not_large:
  assumes sh: "slab_shape s P e fc"
  shows "small_blocks s e fc \<inter> large_blocks e = {}"
proof -
  have "(b * 4096, k * 4096) \<notin> zone_blocks (zones s z) (fc z)" if eb: "e b = Some (LargeBlock, k)" and ez: "e z = Some (InZone, l)" for b k z l
  proof
    assume m: "(b * 4096, k * 4096) \<in> zone_blocks (zones s z) (fc z)"
    have l: "l = zone_page_cnt s" by (rule zone_extent(1) [OF sh ez]) simp
    have "z \<noteq> b" using eb ez by auto
    then show False
      using extents_apart [OF shapeD(2) [OF sh] ez eb] zone_blocks_inside(1,2) [OF shape_zone_ok [OF sh ez] m]
        extents_okD(1) [OF shapeD(2) [OF sh] eb] unfolding l by (simp add: algebra_simps)
  qed
  then show ?thesis by (auto simp: small_blocks_def large_blocks_def)
qed

text \<open>The blocks after a change of the extents, or of one zone.\<close>

lemma small_blocks_cong:
  assumes "\<And>z k. e' z = Some (InZone, k) \<longleftrightarrow> e z = Some (InZone, k)"
    and "\<And>z k. e z = Some (InZone, k) \<Longrightarrow> zone_blocks (zones s' z) (fc' z) = zone_blocks (zones s z) (fc z)"
  shows "small_blocks s' e' fc' = small_blocks s e fc"
  unfolding small_blocks_def assms(1) by (rule SUP_cong) (use assms(2) in auto)

lemma slab_blocks_fields:
  assumes "zones s' = zones s"
  shows "slab_blocks s' e fc = slab_blocks s e fc"
  using assms by (simp add: slab_blocks_def small_blocks_def)

lemma large_blocks_upd:
  assumes "\<And>k. e b \<noteq> Some (LargeBlock, k)"
  shows "large_blocks (e(b \<mapsto> (LargeBlock, n))) = insert (b * 4096, n * 4096) (large_blocks e)"
    "t \<noteq> LargeBlock \<Longrightarrow> large_blocks (e(b \<mapsto> (t, n))) = large_blocks e" "large_blocks (e(b := None)) = large_blocks e"
proof -
  have ne: "c \<noteq> b" if "e c = Some (LargeBlock, k)" for c k using that assms by blast
  show "large_blocks (e(b \<mapsto> (LargeBlock, n))) = insert (b * 4096, n * 4096) (large_blocks e)"
    "t \<noteq> LargeBlock \<Longrightarrow> large_blocks (e(b \<mapsto> (t, n))) = large_blocks e" "large_blocks (e(b := None)) = large_blocks e"
    unfolding large_blocks_def by (auto split: if_splits dest: ne)
qed

lemma large_blocks_remove:
  assumes "e b = Some (LargeBlock, k)"
  shows "large_blocks (e(b := None)) = large_blocks e - {(b * 4096, k * 4096)}"
  using assms by (auto simp: large_blocks_def split: if_splits)

text \<open>A change of the zone \<open>z\<close> alone.\<close>

lemma small_blocks_zone:
  assumes "slab_shape s P e fc" "e z = Some (InZone, k)"
    and "\<And>x. x \<noteq> z \<Longrightarrow> zone_blocks (zones s' x) (fc' x) = zone_blocks (zones s x) (fc x)"
  shows "small_blocks s' e fc' = (small_blocks s e fc - zone_blocks (zones s z) (fc z)) \<union> zone_blocks (zones s' z) (fc' z)"
proof -
  have "zone_blocks (zones s x) (fc x) \<inter> zone_blocks (zones s z) (fc z) = {}" if "e x = Some (InZone, l)" "x \<noteq> z" for x l
  proof -
    have lk: "l = zone_page_cnt s" "k = zone_page_cnt s" using zone_extent(1) [OF assms(1)] that(1) assms(2) by blast+
    note x = zone_blocks_inside [OF shape_zone_ok [OF assms(1) that(1)]]
    note z = zone_blocks_inside [OF shape_zone_ok [OF assms(1,2)]]
    have ap: "(x + l) * 4096 \<le> z * 4096 \<or> (z + k) * 4096 \<le> x * 4096"
      by (rule extents_apart [OF shapeD(2) [OF assms(1)] that(1) assms(2) that(2)])
    have False if "(p, n) \<in> zone_blocks (zones s x) (fc x)" "(p, n) \<in> zone_blocks (zones s z) (fc z)" for p n
      using x(1-3) [OF that(1)] z(1-3) [OF that(2)] ap unfolding lk by linarith
    then show ?thesis by auto
  qed
  then show ?thesis using assms(2,3) unfolding small_blocks_def by fastforce
qed

section \<open>The account of used memory\<close>

lemma block_sum_insert: "finite L \<Longrightarrow> (p, n) \<notin> L \<Longrightarrow> block_sum (insert (p, n) L) = n + block_sum L"
  by (simp add: block_sum_def)

lemma block_sum_remove: "finite L \<Longrightarrow> (p, n) \<in> L \<Longrightarrow> block_sum L = n + block_sum (L - {(p, n)})"
  using block_sum_insert [of "L - {(p, n)}" p n] by (simp add: insert_absorb)

lemma slab_repI_insert:
  assumes "slab_rep s L" "slab_shape s' P e fc" "slab_blocks s' e fc = insert (p, n) L" "(p, n) \<notin> L"
    "used_mem s' = used_mem s + of_nat n"
  shows "slab_rep s' (insert (p, n) L)"
proof -
  have L: "finite L" "used_mem s = of_nat (block_sum L)" using assms(1) by (simp_all add: slab_rep_def)
  then have "used_mem s' = of_nat (block_sum (insert (p, n) L))" unfolding assms(5) block_sum_insert [OF L(1) assms(4)] by simp
  then show ?thesis using assms(2,3) L(1) unfolding slab_rep_def by (metis finite_insert)
qed

lemma slab_repI_remove:
  assumes "slab_rep s L" "slab_shape s' P e fc" "slab_blocks s' e fc = L - {(p, n)}" "(p, n) \<in> L"
    "used_mem s' = used_mem s - of_nat n"
  shows "slab_rep s' (L - {(p, n)})"
proof -
  have L: "finite L" "used_mem s = of_nat (block_sum L)" using assms(1) by (simp_all add: slab_rep_def)
  then have "used_mem s' = of_nat (block_sum (L - {(p, n)}))" unfolding assms(5) block_sum_remove [OF L(1) assms(4)] by simp
  then show ?thesis using assms(2,3) L(1) unfolding slab_rep_def by (metis finite_Diff)
qed

lemma slab_repI_same:
  assumes "slab_rep s L" "slab_shape s' P e fc" "slab_blocks s' e fc = L" "used_mem s' = used_mem s"
  shows "slab_rep s' L"
  using assms unfolding slab_rep_def by metis

section \<open>Changes of the state\<close>

lemma shape_accounts [simp]:
  "slab_shape (add_used n s) P e fc = slab_shape s P e fc" "slab_shape (sub_used n s) P e fc = slab_shape s P e fc"
  "slab_shape (s\<lparr>slab_data := d\<rparr>) P e fc = slab_shape s P e fc"
  by (simp_all add: slab_shape_def add_used_def sub_used_def Let_def slab_geometry_def usage_ok_def lists_ok_def
      idle_ok_def zones_ok_def listed_def)

lemma blocks_accounts [simp]:
  "slab_blocks (add_used n s) e fc = slab_blocks s e fc" "slab_blocks (sub_used n s) e fc = slab_blocks s e fc"
  "slab_blocks (s\<lparr>slab_data := d\<rparr>) e fc = slab_blocks s e fc"
  by (simp_all add: slab_blocks_def small_blocks_def add_used_def sub_used_def Let_def)

lemma usage_ok_frame:
  assumes "usage_ok s e" "zone_page_cnt s' = zone_page_cnt s"
    and "\<And>b t k. e b = Some (t, k) \<Longrightarrow> \<forall>x\<in>{b..<b + k}. usage s' x = usage s x" "\<And>b t k. e b = Some (t, k) \<Longrightarrow> 0 < k"
  shows "usage_ok s' e"
proof -
  have same: "usage s' (b + i) = usage s (b + i)" if "e b = Some (t, k)" "i < k" for b t k i
    using assms(3) [OF that(1)] that(2) by auto
  have first: "usage s' b = usage s b" if "e b = Some (t, k)" for b t k
    using same [OF that assms(4) [OF that]] by simp
  show ?thesis using assms(1,2) unfolding usage_ok_def by (metis same first)
qed

lemma usage_ok_upd:
  assumes "usage_ok s (e(b := None))"
    and "t = LargeBlock \<Longrightarrow> usage s b = \<lparr>mu_type = PAGE_TYPE_LARGE, mu_size = k\<rparr>"
    and "t = InZone \<or> t = Idle \<Longrightarrow> k = zone_page_cnt s \<and> (\<forall>i<k. usage s (b + i) = \<lparr>mu_type = PAGE_TYPE_SMALL, mu_size = i\<rparr>)"
  shows "usage_ok s (e(b \<mapsto> (t, k)))"
  using assms unfolding usage_ok_def by (auto split: if_splits)

lemma usage_ok_drop: "usage_ok s e \<Longrightarrow> usage_ok s (e(b := None))"
  unfolding usage_ok_def by (auto split: if_splits)

text \<open>An extent that is neither a zone nor waits on the free list comes or goes.\<close>

definition plain :: "(extent_kind \<times> nat) option \<Rightarrow> bool" where
  "plain x \<longleftrightarrow> (\<forall>k. x \<noteq> Some (InZone, k) \<and> x \<noteq> Some (Idle, k))"

lemma plain_simps [simp]: "plain None" "plain (Some (LargeBlock, k))" "plain (Some (Reserved, k))"
  by (simp_all add: plain_def)

lemma shape_extent:
  assumes "slab_shape s P e fc" "plain (e b)" "plain x"
    and "page_rep (heap_npages s) pg P'" "extents_ok (heap_npages s) P' (e(b := x))"
    and "usage_ok (s\<lparr>slab_pages := pg, usage := u\<rparr>) (e(b := x))"
  shows "slab_shape (s\<lparr>slab_pages := pg, usage := u\<rparr>) P' (e(b := x)) fc"
proof -
  have same: "(e(b := x)) z = Some (InZone, k) \<longleftrightarrow> e z = Some (InZone, k)" "(e(b := x)) z = Some (Idle, k) \<longleftrightarrow> e z = Some (Idle, k)"
    for z k using assms(2,3) by (auto simp: plain_def)
  show ?thesis
    using assms(1,4-6) unfolding slab_shape_def lists_ok_def idle_ok_def zones_ok_def listed_def slab_geometry_def same by simp
qed

text \<open>One zone changes, or appears in a reserved extent, and with it the list for its index.\<close>

lemma shape_zone:
  assumes sh: "slab_shape s P e fc" and ez: "e z = Some (t, k)" "t = InZone \<or> t = Reserved"
    and k: "k = zone_page_cnt s" "\<forall>i<k. usage s (z + i) = \<lparr>mu_type = PAGE_TYPE_SMALL, mu_size = i\<rparr>"
    and i: "z_zoneindex r = i" "t = InZone \<Longrightarrow> z_zoneindex (zones s z) = i"
    and ok: "zone_ok k cn z r fcz" "\<And>x. \<not> (z * 4096 < x \<and> x < (z + k) * 4096) \<Longrightarrow> cn x = chunk_next s x"
    and lst: "chain ((znext s)(z := z_next r)) p zs" "distinct zs" "set zs = listed s e i - {z} \<union> (if 0 < z_nfree r then {z} else {})"
  shows "slab_shape (s\<lparr>zones := (zones s)(z := r), zone_array := (zone_array s)(i := p), chunk_next := cn\<rparr>) P
    (e(z \<mapsto> (InZone, k))) (fc(z := fcz))"
    (is "slab_shape ?s P ?e ?fc")
proof -
  have next_s: "znext ?s = (znext s)(z := z_next r)" by auto
  have in_e: "?e x = Some (InZone, l) \<longleftrightarrow> (if x = z then l = k else e x = Some (InZone, l))" for x l by auto
  have idle: "?e x = Some (Idle, l) \<longleftrightarrow> e x = Some (Idle, l)" for x l using ez by auto
  have l_i: "listed ?s ?e i = set zs" using i unfolding lst(3) listed_def by auto
  have l_j: "listed ?s ?e j = listed s e j" "z \<notin> listed s e j" if "j \<noteq> i" for j
    using that i ez unfolding listed_def by auto
  have lists: "lists_ok ?s ?e" unfolding lists_ok_def
  proof
    fix j
    show "\<exists>zs. chain (znext ?s) (zone_array ?s j) zs \<and> distinct zs \<and> set zs = listed ?s ?e j"
    proof (cases "j = i")
      case True
      then show ?thesis using lst(1,2) l_i unfolding next_s by auto
    next
      case False
      obtain ys where ys: "chain (znext s) (zone_array s j) ys" "distinct ys" "set ys = listed s e j"
        using shapeD(5) [OF sh] unfolding lists_ok_def by blast
      moreover have "chain ((znext s)(z := z_next r)) (zone_array s j) ys" using ys(1,3) l_j(2) [OF False] by simp
      ultimately show ?thesis using l_j(1) [OF False] False unfolding next_s by auto
    qed
  qed
  obtain ys where ys: "chain (znext s) (zone_free s) ys" "distinct ys" "set ys = {z. \<exists>k. e z = Some (Idle, k)}"
    "zone_free_cnt s = int (length ys)" using shapeD(6) [OF sh] unfolding idle_ok_def by blast
  have "z \<notin> set ys" using ys(3) ez by auto
  then have "chain ((znext s)(z := z_next r)) (zone_free s) ys" using ys(1) by simp
  then have idl: "idle_ok ?s ?e" unfolding idle_ok_def idle next_s using ys(2-4) by auto
  have ext: "extents_ok (heap_npages s) P ?e" by (rule extents_retype [OF shapeD(2) [OF sh] ez(1)])
  have us: "usage_ok s ?e" by (rule usage_ok_upd [OF usage_ok_drop [OF shapeD(4) [OF sh]]]) (use k in simp_all)
  have zs: "zones_ok ?s ?e ?fc" unfolding zones_ok_def
  proof (intro allI impI)
    fix x l assume x: "?e x = Some (InZone, l)"
    show "zone_ok (zone_page_cnt ?s) (chunk_next ?s) x (zones ?s x) (?fc x)"
    proof (cases "x = z")
      case True
      then show ?thesis using ok(1) k(1) by simp
    next
      case False
      then have ex: "e x = Some (InZone, l)" using x by simp
      have l: "l = zone_page_cnt s" by (rule zone_extent(1) [OF sh ex]) simp
      have ap: "(x + l) * 4096 \<le> z * 4096 \<or> (z + k) * 4096 \<le> x * 4096"
        by (rule extents_apart [OF shapeD(2) [OF sh] ex ez(1) False])
      have "zone_ok (zone_page_cnt s) cn x (zones s x) (fc x)"
      proof (rule zone_ok_cong [OF shape_zone_ok [OF sh ex]])
        fix y assume "x * 4096 < y" "y < (x + zone_page_cnt s) * 4096"
        then show "cn y = chunk_next s y" using ap unfolding l by (intro ok(2)) linarith
      qed
      then show ?thesis using False by simp
    qed
  qed
  show ?thesis unfolding slab_shape_def
    using shapeD(1,3) [OF sh] ext us lists idl zs by (simp add: slab_geometry_def usage_ok_def)
qed

end
