(* ===== verification/RTT_SlabAlloc.thy ===== *)
theory RTT_SlabAlloc
  imports RTT_SlabInv
begin

text \<open>
  \<^verbatim>\<open>__internal_malloc\<close> keeps the invariant of the slab allocator on every path, a large block, a chunk
  of a zone in use, a new zone, no memory, and adds exactly the block that it returns.
\<close>

section \<open>Large blocks\<close>

lemma page_align_pages:
  assumes "unat sz \<le> 2 ^ 32 - 4096"
  shows "unat (page_align sz) = 4096 * ((unat sz + 4095) div 4096)"
proof -
  have "unat ((sz + (2 ^ 12 - 1)) AND NOT (2 ^ 12 - 1)) = (unat sz + (2 ^ 12 - 1)) div 2 ^ 12 * 2 ^ 12"
    by (rule unat_round_up) (use assms in simp_all)
  then show ?thesis by (simp add: page_align_def RT_ALIGN_def RT_MM_PAGE_SIZE_def mult.commute add.commute)
qed

lemma page_align_wraps:
  assumes "2 ^ 32 - 4096 < unat sz"
  shows "page_align sz = 0"
proof -
  have "unat (sz + 4095) = unat sz + 4095 - 2 ^ 32"
    using assms unsigned_less [of sz, where 'a = nat] by (simp add: unat_word_ariths mod_if)
  then have "unat (sz + 4095) < 2 ^ 12" using unsigned_less [of sz, where 'a = nat] by simp
  then have "(sz + 4095) AND NOT (mask 12) = 0" by (simp add: unat_and_not_mask word_unat_eq_iff)
  then show ?thesis by (simp add: page_align_def RT_ALIGN_def RT_MM_PAGE_SIZE_def mask_eq_exp_minus_1 add.commute)
qed

lemma malloc_large_shape:
  assumes sh: "slab_shape s P e fc" and sz: "0 < unat sz"
  obtains "malloc_large sz s = Some (None, s)"
  | b n s' P' where "malloc_large sz s = Some (Some (b * 4096), add_used (of_nat (n * 4096)) s')" "unat sz \<le> n * 4096"
    "e b = None" "slab_shape s' P' (e(b \<mapsto> (LargeBlock, n))) fc" "zones s' = zones s" "used_mem s' = used_mem s"
    "slab_data s' = slab_data s"
proof (cases "unat sz \<le> 2 ^ 32 - 4096")
  case False
  then have "page_align sz = 0" by (intro page_align_wraps) simp
  then have "malloc_large sz s = Some (None, s)" by (simp add: malloc_large_def with_pages_def page_alloc_def)
  then show thesis using that(1) by blast
next
  case True
  define n where "n = (unat sz + 4095) div 4096"
  have al: "unat (page_align sz) = 4096 * n" unfolding n_def by (rule page_align_pages [OF True])
  then have dn: "unat (drop_bit RT_MM_PAGE_BITS (page_align sz)) = n"
    by (simp add: RT_MM_PAGE_BITS_def drop_bit_eq_div unat_div)
  have n: "0 < n" "unat sz \<le> n * 4096" using sz unfolding n_def by auto
  consider b pg where "page_alloc n (slab_pages s) = Some (Some b, pg)" "{b..<b + n} \<subseteq> P" "page_rep (heap_npages s) pg (P - {b..<b + n})"
    | "page_alloc n (slab_pages s) = Some (None, slab_pages s)"
    using page_alloc_rep [OF shapeD(1) [OF sh] n(1)] by blast
  then show thesis
  proof cases
    case 2
    have "malloc_large sz s = Some (None, s)" unfolding malloc_large_def Let_def dn 2 by (simp add: with_pages_def)
    then show thesis by (rule that(1))
  next
    case (1 b pg)
    let ?s = "set_usage b PAGE_TYPE_LARGE n (s\<lparr>slab_pages := pg\<rparr>)"
    have c: "malloc_large sz s = Some (Some (b * 4096), add_used (of_nat (n * 4096)) ?s)"
    proof -
      have "page_align sz = of_nat (unat (page_align sz))" by simp
      then have "page_align sz = of_nat (n * 4096)" unfolding al by (simp only: mult.commute)
      then show ?thesis unfolding malloc_large_def Let_def dn 1(1) by (simp add: with_pages_def RT_MM_PAGE_SIZE_def)
    qed
    have below: "\<forall>x\<in>P. x < heap_npages s" using page_rep_below [OF shapeD(1) [OF sh]] by blast
    note ea = extents_alloc(1) [OF shapeD(2) [OF sh] 1(2) n(1) below, of LargeBlock]
      extents_alloc(2) [OF shapeD(2) [OF sh] 1(2) n(1) below]
    have us: "usage_ok ?s (e(b \<mapsto> (LargeBlock, n)))"
    proof (rule usage_ok_upd)
      have "usage_ok ?s e"
      proof (rule usage_ok_frame [OF shapeD(4) [OF sh]])
        fix c t k assume c: "e c = Some (t, k)"
        have "b \<in> P" using 1(2) n(1) by auto
        then show "\<forall>x\<in>{c..<c + k}. usage ?s x = usage s x"
          using extents_okD(3) [OF shapeD(2) [OF sh] c] by (auto simp: set_usage_def)
        show "0 < k" by (rule extents_okD(1) [OF shapeD(2) [OF sh] c])
      qed (simp add: set_usage_def)
      then show "usage_ok ?s (e(b := None))" by (rule usage_ok_drop)
    qed (simp_all add: set_usage_def)
    have "slab_shape ?s (P - {b..<b + n}) (e(b \<mapsto> (LargeBlock, n))) fc"
      using shape_extent [OF sh _ _ 1(3) ea(1), of "(usage s)(b := \<lparr>mu_type = PAGE_TYPE_LARGE, mu_size = n\<rparr>)"] ea(2) us
      by (simp add: set_usage_def)
    then show thesis by (rule that(2) [OF c n(2) ea(2)]) (simp_all add: set_usage_def)
  qed
qed

text \<open>What lies in a zone and is not one of its blocks is no block at all.\<close>

lemma fresh_block:
  assumes sh: "slab_shape s P e fc" and ez: "e z = Some (t, k)" "t \<noteq> LargeBlock"
    and c: "z * 4096 < c" "c + n \<le> (z + k) * 4096" "0 < n" "t = InZone \<Longrightarrow> (c, n) \<notin> zone_blocks (zones s z) (fc z)"
  shows "(c, n) \<notin> slab_blocks s e fc"
proof
  assume "(c, n) \<in> slab_blocks s e fc"
  then obtain b u l where b: "e b = Some (u, l)" "b * 4096 \<le> c" "c + n \<le> (b + l) * 4096" "0 < n"
    "u = LargeBlock \<and> c = b * 4096 \<and> n = l * 4096 \<or> u = InZone \<and> (c, n) \<in> zone_blocks (zones s b) (fc b)"
    by (rule block_inside [OF sh])
  show False
  proof (cases "b = z")
    case True
    then show False using b(1,5) ez c(4) by auto
  next
    case False
    then show False using extents_apart [OF shapeD(2) [OF sh] b(1) ez(1)] b(2,3) c(1-3) by linarith
  qed
qed

section \<open>A chunk of a zone\<close>

text \<open>Where the next chunk of a zone comes from, and the zone without it.\<close>

definition zone_taken :: "(nat \<Rightarrow> nat option) \<Rightarrow> slab_zone \<Rightarrow> nat \<Rightarrow> slab_zone" where
  "zone_taken nx r c =
     (let r1 = r\<lparr>z_nfree := z_nfree r - 1, z_nused := z_nused r + 1\<rparr> in
      if int (z_uindex r) + 1 \<noteq> z_nmax r then r1\<lparr>z_uindex := z_uindex r + 1\<rparr> else r1\<lparr>z_freechunk := nx c\<rparr>)"

lemma zone_take_ok:
  assumes ok: "zone_ok n nx z r fc" and pos: "0 < z_nfree r"
  obtains c fc' where "if int (z_uindex r) + 1 \<noteq> z_nmax r then c = chunk_at r (z_uindex r + 1) else z_freechunk r = Some c"
    "zone_ok n nx z (zone_taken nx r c) fc'"
    "zone_blocks (zone_taken nx r c) fc' = insert (c, unat (z_chunksize r)) (zone_blocks r fc)"
    "(c, unat (z_chunksize r)) \<notin> zone_blocks r fc" "z_zoneindex (zone_taken nx r c) = z_zoneindex r"
proof -
  note zd = zone_okD [OF ok]
  have cs: "0 < unat (z_chunksize r)" using zd(4) by simp
  have fields: "chunk_at (zone_taken nx r c) = chunk_at r" "z_chunksize (zone_taken nx r c) = z_chunksize r"
      "z_zoneindex (zone_taken nx r c) = z_zoneindex r" for c
    by (auto simp: zone_taken_def Let_def intro!: chunk_at_fields)
  obtain m where m: "z_nmax r = int m" "z_uindex r < m" "chunk_at r m \<le> (z + n) * 4096" using ok unfolding zone_ok_def by blast
  have fresh: "(chunk_at r j, unat (z_chunksize r)) \<notin> zone_blocks r fc" if "j \<in> set fc \<or> z_uindex r < j" for j
    using that by (auto simp: zone_blocks_def dest!: chunk_at_inj [OF cs])
  show thesis
  proof (cases "int (z_uindex r) + 1 = z_nmax r")
    case False
    let ?c = "chunk_at r (z_uindex r + 1)"
    have "{..z_uindex r + 1} - set fc = insert (z_uindex r + 1) ({..z_uindex r} - set fc)" using zd(7) by auto
    then have b: "zone_blocks (zone_taken nx r ?c) fc = insert (?c, unat (z_chunksize r)) (zone_blocks r fc)"
      unfolding zone_blocks_def fields using False by (simp add: zone_taken_def Let_def)
    have "zone_ok n nx z (zone_taken nx r ?c) fc"
      unfolding zone_ok_def fields using False ok m(1,2) by (auto simp: zone_ok_def zone_taken_def Let_def le_Suc_eq)
    then show thesis by (rule that [rotated]) (use b fresh fields(3) False in simp_all)
  next
    case True
    have "length fc \<noteq> 0" using zd(9) pos True by linarith
    then obtain j ys where fc: "fc = j # ys" by (cases fc) auto
    let ?c = "chunk_at r j"
    have c: "z_freechunk r = Some ?c" "chain nx (nx ?c) (map (chunk_at r) ys)" using zd(10) fc by auto
    have "{..z_uindex r} - set ys = insert j ({..z_uindex r} - set fc)" using zd(6,7) fc by auto
    then have b: "zone_blocks (zone_taken nx r ?c) ys = insert (?c, unat (z_chunksize r)) (zone_blocks r fc)"
      unfolding zone_blocks_def fields using True by (simp add: zone_taken_def Let_def)
    have "zone_ok n nx z (zone_taken nx r ?c) ys"
      unfolding zone_ok_def fields using True ok m(1,2) c(2) fc by (auto simp: zone_ok_def zone_taken_def Let_def)
    then show thesis by (rule that [rotated]) (use b fresh fields(3) True c(1) fc in simp_all)
  qed
qed

lemma malloc_chunk_shape:
  assumes sh: "slab_shape s P e fc" and z: "zone_array s i = Some z"
  obtains c s' fc' where "malloc_chunk i z (of_nat (chunk_size i)) s = Some (Some c, add_used (of_nat (chunk_size i)) s')"
    "slab_shape s' P e fc'" "slab_blocks s' e fc' = insert (c, chunk_size i) (slab_blocks s e fc)"
    "(c, chunk_size i) \<notin> slab_blocks s e fc" "used_mem s' = used_mem s" "slab_data s' = slab_data s"
proof -
  obtain zs where zs: "chain (znext s) (zone_array s i) zs" "distinct zs" "set zs = listed s e i"
    using shapeD(5) [OF sh] unfolding lists_ok_def by blast
  then obtain ys where ys: "zs = z # ys" "chain (znext s) (z_next (zones s z)) ys" using z by (cases zs) auto
  have "z \<in> listed s e i" using zs(3) ys by auto
  then obtain k where ez: "e z = Some (InZone, k)" and i: "z_zoneindex (zones s z) = i" and pos: "0 < z_nfree (zones s z)"
    by (auto simp: listed_def)
  note zx = zone_extent [OF sh ez, simplified]
  note ok = shape_zone_ok [OF sh ez]
  let ?r = "zones s z"
  have cs: "unat (z_chunksize ?r) = chunk_size i" using zone_okD(3) [OF ok] i by simp
  have cw: "z_chunksize ?r = of_nat (chunk_size i)" using ok i by (simp add: zone_ok_def)
  obtain c fcz where c: "if int (z_uindex ?r) + 1 \<noteq> z_nmax ?r then c = chunk_at ?r (z_uindex ?r + 1) else z_freechunk ?r = Some c"
    "zone_ok (zone_page_cnt s) (chunk_next s) z (zone_taken (chunk_next s) ?r c) fcz"
    "zone_blocks (zone_taken (chunk_next s) ?r c) fcz = insert (c, unat (z_chunksize ?r)) (zone_blocks ?r (fc z))"
    "(c, unat (z_chunksize ?r)) \<notin> zone_blocks ?r (fc z)" "z_zoneindex (zone_taken (chunk_next s) ?r c) = z_zoneindex ?r"
    by (rule zone_take_ok [OF ok pos])
  let ?full = "z_nfree ?r = 1"
  define r where "r = (if ?full then (zone_taken (chunk_next s) ?r c)\<lparr>z_next := None\<rparr> else zone_taken (chunk_next s) ?r c)"
  define p where "p = (if ?full then z_next ?r else Some z)"
  let ?s = "s\<lparr>zones := (zones s)(z := r), zone_array := (zone_array s)(i := p), chunk_next := chunk_next s\<rparr>"
  have call: "malloc_chunk i z (of_nat (chunk_size i)) s = Some (Some c, add_used (of_nat (chunk_size i)) ?s)"
  proof -
    have cnt: "z_nused ?r + z_nfree ?r = z_nmax ?r" by (rule zone_okD(5) [OF ok])
    have arr: "(zone_array s)(i := Some z) = zone_array s" using z by (simp add: fun_upd_idem)
    show ?thesis
      using pos cnt c(1) cw cs
      by (cases ?full; cases "int (z_uindex ?r) + 1 = z_nmax ?r")
        (simp_all add: malloc_chunk_def zone_unlist_full_def zone_update_def zone_take_chunk_def Let_def r_def p_def
          zone_taken_def arr chunk_at_def, auto intro!: arg_cong [of _ _ "add_used _"] slab.equality slab_zone.equality)
  qed
  have "slab_shape ?s P (e(z \<mapsto> (InZone, k))) (fc(z := fcz))"
  proof (rule shape_zone [OF sh ez])
    show "z_zoneindex r = i" "zone_ok k (chunk_next s) z r fcz" using c(2,5) i zx(1) by (simp_all add: r_def)
    show "chain ((znext s)(z := z_next r)) p (if ?full then ys else z # ys)"
      using ys zs(2) by (simp add: r_def p_def zone_taken_def Let_def)
    show "distinct (if ?full then ys else z # ys)" using ys(1) zs(2) by simp
    have "z_nfree r = z_nfree ?r - 1" by (simp add: r_def zone_taken_def Let_def)
    then show "set (if ?full then ys else z # ys) = listed s e i - {z} \<union> (if 0 < z_nfree r then {z} else {})"
      using pos ys(1) zs(2,3) by auto
  qed (use zx i in simp_all)
  then have sh': "slab_shape ?s P e (fc(z := fcz))" using ez by (simp add: fun_upd_idem)
  have "zone_blocks (zones ?s z) ((fc(z := fcz)) z) = insert (c, chunk_size i) (zone_blocks ?r (fc z))"
    using c(3) cs by (simp add: r_def)
  moreover have "zone_blocks ?r (fc z) \<subseteq> small_blocks s e fc" using ez unfolding small_blocks_def by blast
  ultimately have "small_blocks ?s e (fc(z := fcz)) = insert (c, chunk_size i) (small_blocks s e fc)"
    using small_blocks_zone [OF sh ez, of ?s "fc(z := fcz)"] by auto
  then have bl: "slab_blocks ?s e (fc(z := fcz)) = insert (c, chunk_size i) (slab_blocks s e fc)"
    by (simp add: slab_blocks_def)
  have "(c, chunk_size i) \<in> zone_blocks (zone_taken (chunk_next s) ?r c) fcz" unfolding c(3) cs by simp
  note in_z = zone_blocks_inside(1,2) [OF c(2) this]
  have new: "(c, chunk_size i) \<notin> slab_blocks s e fc"
    by (rule fresh_block [OF sh ez]) (use in_z zx(1) c(4) cs zone_okD(4) [OF ok] in simp_all)
  show thesis by (rule that [OF call sh' bl new]) simp_all
qed

section \<open>A new zone\<close>

lemma usage_small_pages:
  "usage_small z n s = s\<lparr>usage := (\<lambda>x. if z \<le> x \<and> x < z + n then \<lparr>mu_type = PAGE_TYPE_SMALL, mu_size = x - z\<rparr> else usage s x)\<rparr>"
proof (induction n)
  case (Suc n)
  have "usage_small z (Suc n) s = set_usage (z + n) PAGE_TYPE_SMALL n (usage_small z n s)" by (simp add: usage_small_def)
  then show ?case unfolding Suc by (auto intro!: slab.equality simp: set_usage_def fun_eq_iff)
qed (auto intro!: slab.equality simp: usage_small_def fun_eq_iff)

lemma usage_free_pages:
  "usage_free z n s = s\<lparr>usage := (\<lambda>x. if z \<le> x \<and> x < z + n then \<lparr>mu_type = PAGE_TYPE_FREE, mu_size = 0\<rparr> else usage s x)\<rparr>"
proof (induction n)
  case (Suc n)
  have "usage_free z (Suc n) s = set_usage (z + n) PAGE_TYPE_FREE 0 (usage_free z n s)" by (simp add: usage_free_def)
  then show ?case unfolding Suc by (auto intro!: slab.equality simp: set_usage_def fun_eq_iff)
qed (auto intro!: slab.equality simp: usage_free_def fun_eq_iff)

lemma geometry_pages: "slab_geometry s \<Longrightarrow> unat (zone_size s) div RT_MM_PAGE_SIZE = zone_page_cnt s"
  by (simp add: slab_geometry_def RT_MM_PAGE_SIZE_def)

lemma free_list_frame [simp]:
  "slab_geometry (s\<lparr>zone_free := p, zone_free_cnt := n\<rparr>) = slab_geometry s"
  "usage_ok (s\<lparr>zone_free := p, zone_free_cnt := n\<rparr>) e = usage_ok s e"
  "lists_ok (s\<lparr>zone_free := p, zone_free_cnt := n\<rparr>) e = lists_ok s e"
  "zones_ok (s\<lparr>zone_free := p, zone_free_cnt := n\<rparr>) e fc = zones_ok s e fc"
  by (simp_all add: slab_geometry_def usage_ok_def lists_ok_def listed_def zones_ok_def)

lemma zones_same:
  assumes "\<And>z k. e' z = Some (InZone, k) \<longleftrightarrow> e z = Some (InZone, k)"
  shows "lists_ok s e' = lists_ok s e" "zones_ok s e' fc = zones_ok s e fc"
  by (simp_all add: lists_ok_def listed_def zones_ok_def assms)

lemma reserve_idle:
  assumes sh: "slab_shape s P e fc" and z: "zone_free s = Some z"
  shows "\<exists>k. e z = Some (Idle, k) \<and>
    slab_shape (s\<lparr>zone_free := z_next (zones s z), zone_free_cnt := zone_free_cnt s - 1\<rparr>) P (e(z \<mapsto> (Reserved, k))) fc"
proof -
  obtain zs where zs: "chain (znext s) (zone_free s) zs" "distinct zs" "set zs = {z. \<exists>k. e z = Some (Idle, k)}"
    "zone_free_cnt s = int (length zs)" using shapeD(6) [OF sh] unfolding idle_ok_def by blast
  then obtain ys where ys: "zs = z # ys" "chain (znext s) (z_next (zones s z)) ys" using z by (cases zs) auto
  obtain k where ez: "e z = Some (Idle, k)" using zs(3) ys(1) by auto
  let ?e = "e(z \<mapsto> (Reserved, k))"
  have zone: "\<And>x l. ?e x = Some (InZone, l) \<longleftrightarrow> e x = Some (InZone, l)" using ez by auto
  have "set ys = {z. \<exists>k. ?e z = Some (Idle, k)}" using zs(2,3) ys(1) by auto
  then have idle: "idle_ok (s\<lparr>zone_free := z_next (zones s z), zone_free_cnt := zone_free_cnt s - 1\<rparr>) ?e"
    using ys zs(2,4) unfolding idle_ok_def by auto
  have "extents_ok (heap_npages s) P ?e" by (rule extents_retype [OF shapeD(2) [OF sh] ez])
  moreover have "usage_ok s ?e" by (rule usage_ok_upd [OF usage_ok_drop [OF shapeD(4) [OF sh]]]) simp_all
  ultimately have "slab_shape (s\<lparr>zone_free := z_next (zones s z), zone_free_cnt := zone_free_cnt s - 1\<rparr>) P ?e fc"
    using shapeD [OF sh] idle unfolding slab_shape_def free_list_frame zones_same [of ?e e, OF zone] by simp
  then show ?thesis using ez by blast
qed

lemma slab_blocks_retype:
  assumes "\<And>k. e z \<noteq> Some (LargeBlock, k)" "\<And>k. e z \<noteq> Some (InZone, k)" "t \<noteq> LargeBlock" "t \<noteq> InZone"
  shows "slab_blocks s (e(z \<mapsto> (t, k))) fc = slab_blocks s e fc" "slab_blocks s (e(z := None)) fc = slab_blocks s e fc"
proof -
  have ne: "x \<noteq> z" if "e x = Some (InZone, l)" for x l using that assms(2) by blast
  have "small_blocks s (e(z \<mapsto> (t, k))) fc = small_blocks s e fc" "small_blocks s (e(z := None)) fc = small_blocks s e fc"
    by (rule small_blocks_cong; use assms(4) in \<open>auto split: if_splits dest: ne\<close>)+
  then show "slab_blocks s (e(z \<mapsto> (t, k))) fc = slab_blocks s e fc" "slab_blocks s (e(z := None)) fc = slab_blocks s e fc"
    using assms by (simp_all add: slab_blocks_def large_blocks_upd)
qed

lemma zone_obtain_shape:
  assumes sh: "slab_shape s P e fc"
  obtains "zone_obtain s = Some (None, s)"
  | z s' P' e' where "zone_obtain s = Some (Some z, s')" "slab_shape s' P' e' fc" "e' z = Some (Reserved, zone_page_cnt s')"
    "\<forall>i<zone_page_cnt s'. usage s' (z + i) = \<lparr>mu_type = PAGE_TYPE_SMALL, mu_size = i\<rparr>"
    "slab_blocks s' e' fc = slab_blocks s e fc" "used_mem s' = used_mem s" "slab_data s' = slab_data s"
    "zone_array s' = zone_array s" "zone_limit s' = zone_limit s"
proof (cases "zone_free s")
  case (Some z)
  obtain k where k: "e z = Some (Idle, k)"
    "slab_shape (s\<lparr>zone_free := z_next (zones s z), zone_free_cnt := zone_free_cnt s - 1\<rparr>) P (e(z \<mapsto> (Reserved, k))) fc"
    using reserve_idle [OF sh Some] by blast
  note zx = zone_extent [OF sh k(1), simplified]
  have "slab_blocks s (e(z \<mapsto> (Reserved, k))) fc = slab_blocks s e fc" by (rule slab_blocks_retype(1)) (use k(1) in simp_all)
  then have bl: "slab_blocks (s\<lparr>zone_free := z_next (zones s z), zone_free_cnt := zone_free_cnt s - 1\<rparr>) (e(z \<mapsto> (Reserved, k))) fc
      = slab_blocks s e fc" by (subst slab_blocks_fields [of _ s]) simp_all
  show thesis by (rule that(2) [of z, OF _ k(2) _ _ bl]) (use Some zx in \<open>simp_all add: zone_obtain_def\<close>)
next
  case None
  have cnt: "0 < zone_page_cnt s" using shapeD(3) [OF sh] by (auto simp: slab_geometry_def)
  consider z pg where "page_alloc (zone_page_cnt s) (slab_pages s) = Some (Some z, pg)" "{z..<z + zone_page_cnt s} \<subseteq> P"
      "page_rep (heap_npages s) pg (P - {z..<z + zone_page_cnt s})"
    | "page_alloc (zone_page_cnt s) (slab_pages s) = Some (None, slab_pages s)"
    using page_alloc_rep [OF shapeD(1) [OF sh] cnt] by blast
  then show thesis
  proof cases
    case 2
    then show thesis using that(1) None by (simp add: zone_obtain_def geometry_pages [OF shapeD(3) [OF sh]] with_pages_def)
  next
    case (1 z pg)
    let ?e = "e(z \<mapsto> (Reserved, zone_page_cnt s))" and ?u = "usage (usage_small z (zone_page_cnt s) (s\<lparr>slab_pages := pg\<rparr>))"
    have below: "\<forall>x\<in>P. x < heap_npages s" using page_rep_below [OF shapeD(1) [OF sh]] by blast
    note ea = extents_alloc(1) [OF shapeD(2) [OF sh] 1(2) cnt below, of Reserved]
      extents_alloc(2) [OF shapeD(2) [OF sh] 1(2) cnt below]
    have "usage_ok (s\<lparr>slab_pages := pg, usage := ?u\<rparr>) e"
    proof (rule usage_ok_frame [OF shapeD(4) [OF sh]])
      fix c t k assume c: "e c = Some (t, k)"
      show "\<forall>x\<in>{c..<c + k}. usage (s\<lparr>slab_pages := pg, usage := ?u\<rparr>) x = usage s x"
        using extents_okD(3) [OF shapeD(2) [OF sh] c] 1(2) by (fastforce simp: usage_small_pages)
      show "0 < k" by (rule extents_okD(1) [OF shapeD(2) [OF sh] c])
    qed simp
    then have us: "usage_ok (s\<lparr>slab_pages := pg, usage := ?u\<rparr>) ?e" by (rule usage_ok_upd [OF usage_ok_drop]) simp_all
    have sh': "slab_shape (s\<lparr>slab_pages := pg, usage := ?u\<rparr>) (P - {z..<z + zone_page_cnt s}) ?e fc"
      by (rule shape_extent [OF sh _ _ 1(3) ea(1) us]) (simp_all add: ea(2))
    have st: "usage_small z (zone_page_cnt s) (s\<lparr>slab_pages := pg\<rparr>) = s\<lparr>slab_pages := pg, usage := ?u\<rparr>"
      by (simp add: usage_small_pages)
    have "slab_blocks s ?e fc = slab_blocks s e fc" by (rule slab_blocks_retype(1)) (simp_all add: ea(2))
    then have bl: "slab_blocks (s\<lparr>slab_pages := pg, usage := ?u\<rparr>) ?e fc = slab_blocks s e fc"
      by (subst slab_blocks_fields [of _ s]) simp_all
    have "zone_obtain s = Some (Some z, s\<lparr>slab_pages := pg, usage := ?u\<rparr>)"
      using None 1(1) st by (simp add: zone_obtain_def geometry_pages [OF shapeD(3) [OF sh]] with_pages_def)
    then show thesis by (rule that(2) [of z, OF _ sh' _ _ bl]) (simp_all add: usage_small_pages)
  qed
qed

lemma zone_room:
  assumes "slab_geometry s" "i < NZONES" "chunk_size i \<le> unat (zone_limit s)"
  defines "off \<equiv> unat (zone_offset (of_nat (chunk_size i)))"
  defines "m \<equiv> (zone_page_cnt s * 4096 - off) div chunk_size i"
  shows "uint ((zone_size s - zone_offset (of_nat (chunk_size i))) div of_nat (chunk_size i)) = int m" "2 \<le> m"
    "off + m * chunk_size i \<le> zone_page_cnt s * 4096"
proof -
  have off: "40 \<le> off" "off \<le> max 64 (chunk_size i)" unfolding off_def by (rule zone_offset_bounds [OF assms(2)])+
  have zs: "unat (zone_size s) = zone_page_cnt s * 4096" using assms(1) by (simp add: slab_geometry_def)
  have big: "4 * chunk_size i \<le> zone_page_cnt s * 4096" "32768 \<le> zone_page_cnt s * 4096"
    using assms(1,3) by (auto simp: slab_geometry_def)
  have cs: "8 \<le> chunk_size i" "unat (of_nat (chunk_size i) :: u32) = chunk_size i" by (rule chunk_size_bounds [OF assms(2)])+
  have le: "off + 2 * chunk_size i \<le> zone_page_cnt s * 4096"
  proof (cases "chunk_size i \<le> 64")
    case True
    then have "off \<le> 64" using off(2) by simp
    then show ?thesis using True big(2) by linarith
  next
    case False
    then have "off \<le> chunk_size i" using off(2) by simp
    then show ?thesis using big by linarith
  qed
  have "unat (zone_size s - zone_offset (of_nat (chunk_size i))) = zone_page_cnt s * 4096 - off"
    using le zs by (subst unat_sub) (simp_all add: word_le_nat_alt off_def)
  then have "unat ((zone_size s - zone_offset (of_nat (chunk_size i))) div of_nat (chunk_size i)) = m"
    unfolding m_def by (simp add: unat_div cs(2))
  then show "uint ((zone_size s - zone_offset (of_nat (chunk_size i))) div of_nat (chunk_size i)) = int m"
    unfolding uint_nat by simp
  have "2 * chunk_size i div chunk_size i \<le> m" unfolding m_def by (rule div_le_mono) (use le in linarith)
  then show "2 \<le> m" using cs(1) by simp
  have "m * chunk_size i \<le> zone_page_cnt s * 4096 - off" unfolding m_def by (rule div_times_less_eq_dividend)
  then show "off + m * chunk_size i \<le> zone_page_cnt s * 4096" using le by linarith
qed

lemma zone_setup_shape:
  assumes sh: "slab_shape s P e fc" and ez: "e z = Some (Reserved, zone_page_cnt s)"
    and us: "\<forall>i<zone_page_cnt s. usage s (z + i) = \<lparr>mu_type = PAGE_TYPE_SMALL, mu_size = i\<rparr>"
    and i: "i < NZONES" "chunk_size i \<le> unat (zone_limit s)"
  defines "s' \<equiv> zone_setup i z (of_nat (chunk_size i)) s"
  defines "c \<equiv> z_baseptr (zones s' z)"
  shows "slab_shape s' P (e(z \<mapsto> (InZone, zone_page_cnt s))) (fc(z := []))"
    "slab_blocks s' (e(z \<mapsto> (InZone, zone_page_cnt s))) (fc(z := [])) = insert (c, chunk_size i) (slab_blocks s e fc)"
    "(c, chunk_size i) \<notin> slab_blocks s e fc"
proof -
  let ?k = "zone_page_cnt s" and ?e = "e(z \<mapsto> (InZone, zone_page_cnt s))" and ?fc = "fc(z := [])"
  note room = zone_room [OF shapeD(3) [OF sh] i]
  define r where "r = zones s' z"
  have s': "s' = s\<lparr>zones := (zones s)(z := r), zone_array := (zone_array s)(i := Some z), chunk_next := chunk_next s\<rparr>"
    unfolding r_def s'_def by (simp add: zone_setup_def Let_def)
  have cs: "8 \<le> chunk_size i" "unat (of_nat (chunk_size i) :: u32) = chunk_size i" by (rule chunk_size_bounds [OF i(1)])+
  let ?m = "(?k * 4096 - unat (zone_offset (of_nat (chunk_size i)))) div chunk_size i"
  have r: "z_nmax r = int ?m" "z_nfree r = int ?m - 1" "z_uindex r = 0" "z_chunksize r = of_nat (chunk_size i)" "z_next r = zone_array s i"
    "z_zoneindex r = i" "z_baseptr r = z * 4096 + unat (zone_offset (of_nat (chunk_size i)))"
    unfolding r_def s'_def zone_setup_def Let_def room(1) by (simp_all add: RT_MM_PAGE_SIZE_def)
  have ok: "zone_ok ?k (chunk_next s) z r []"
    unfolding zone_ok_def using i(1) room(2,3) r cs(2)
    by (simp add: chunk_at_def algebra_simps) (simp add: r_def s'_def zone_setup_def Let_def)
  have bl: "zone_blocks r [] = {(c, chunk_size i)}" using r(3,4) cs(2) by (simp add: zone_blocks_def chunk_at_def c_def r_def)
  have in_z: "z * 4096 < c" "c + chunk_size i \<le> (z + ?k) * 4096" using zone_blocks_inside(1,2) [OF ok, of c "chunk_size i"] bl by simp_all
  show "(c, chunk_size i) \<notin> slab_blocks s e fc" by (rule fresh_block [OF sh ez]) (use in_z cs(1) in simp_all)
  obtain zs where zs: "chain (znext s) (zone_array s i) zs" "distinct zs" "set zs = listed s e i"
    using shapeD(5) [OF sh] unfolding lists_ok_def by blast
  have out: "z \<notin> set zs" using zs(3) ez by (simp add: listed_def)
  show "slab_shape s' P ?e ?fc"
    unfolding s'
  proof (rule shape_zone [OF sh ez])
    show "chain ((znext s)(z := z_next r)) (Some z) (z # zs)" using zs(1) out r(5) by simp
    show "set (z # zs) = listed s e i - {z} \<union> (if 0 < z_nfree r then {z} else {})"
      using zs(3) out r(2) room(2) by auto
  qed (use ok us r(6) zs(2) out in simp_all)
  have ne: "x \<noteq> z" if "e x = Some (InZone, l)" for x l using that ez by auto
  have dom: "{x. \<exists>k. ?e x = Some (InZone, k)} = insert z {x. \<exists>k. e x = Some (InZone, k)}" by auto
  have same: "zone_blocks (zones s' x) (?fc x) = zone_blocks (zones s x) (fc x)" if "x \<noteq> z" for x using that by (subst s') simp
  have "small_blocks s' ?e ?fc = insert (c, chunk_size i) (small_blocks s e fc)"
  proof -
    have "(\<Union>x\<in>{x. \<exists>k. e x = Some (InZone, k)}. zone_blocks (zones s' x) (?fc x)) = small_blocks s e fc"
      unfolding small_blocks_def by (rule SUP_cong [OF refl]) (use same ne in blast)
    moreover have "zone_blocks (zones s' z) (?fc z) = {(c, chunk_size i)}" using bl by (simp add: r_def)
    ultimately show ?thesis unfolding small_blocks_def dom by simp
  qed
  then show "slab_blocks s' ?e ?fc = insert (c, chunk_size i) (slab_blocks s e fc)"
    using ez large_blocks_upd(2) [of e z InZone ?k] by (simp add: slab_blocks_def)
qed

section \<open>Allocation keeps the contract\<close>

definition malloc_done :: "nat \<Rightarrow> (nat \<times> nat) set \<Rightarrow> slab \<Rightarrow> nat option \<Rightarrow> slab \<Rightarrow> bool" where
  "malloc_done n L s r s' \<longleftrightarrow> slab_data s' = slab_data s \<and>
     (case r of None \<Rightarrow> slab_rep s' L | Some p \<Rightarrow> \<exists>m. n \<le> m \<and> (p, m) \<notin> L \<and> slab_rep s' (insert (p, m) L))"

lemma account_fields [simp]:
  "used_mem (add_used n s) = used_mem s + n" "slab_data (add_used n s) = slab_data s" "used_mem (sub_used n s) = used_mem s - n"
  "slab_data (sub_used n s) = slab_data s" "zones (add_used n s) = zones s" "zones (sub_used n s) = zones s"
  by (simp_all add: add_used_def sub_used_def Let_def)

lemma malloc_done_block:
  assumes "slab_rep s L" "L = slab_blocks s e fc" "slab_shape s' P e' fc'" "slab_blocks s' e' fc' = insert (p, m) L" "(p, m) \<notin> L"
    "used_mem s' = used_mem s" "slab_data s' = slab_data s" "n \<le> m"
  shows "malloc_done n L s (Some p) (add_used (of_nat m) s')"
proof -
  have "slab_rep (add_used (of_nat m) s') (insert (p, m) L)"
    by (rule slab_repI_insert [OF assms(1), of _ P e' fc']) (use assms(3-6) in simp_all)
  then show ?thesis using assms(5,7,8) by (auto simp: malloc_done_def)
qed

lemma malloc_zone_done:
  assumes rep: "slab_rep s L" and sh: "slab_shape s P e fc" and L: "L = slab_blocks s e fc"
    and i: "i < NZONES" "chunk_size i \<le> unat (zone_limit s)" "n \<le> chunk_size i"
  shows "\<exists>r s'. malloc_zone i (of_nat (chunk_size i)) s = Some (r, s') \<and> malloc_done n L s r s'"
  using zone_obtain_shape [OF sh]
proof cases
  case 1
  then show ?thesis using rep by (simp add: malloc_zone_def malloc_done_def)
next
  case (2 z s1 P1 e1)
  let ?s = "zone_setup i z (of_nat (chunk_size i)) s1"
  note zs = zone_setup_shape [OF 2(2,3,4) i(1) i(2) [folded 2(9)]]
  have "malloc_zone i (of_nat (chunk_size i)) s = Some (Some (z_baseptr (zones ?s z)), add_used (of_nat (chunk_size i)) ?s)"
    using 2(1) by (simp add: malloc_zone_def Let_def)
  moreover have "malloc_done n L s (Some (z_baseptr (zones ?s z))) (add_used (of_nat (chunk_size i)) ?s)"
    by (rule malloc_done_block [OF rep L zs(1)]) (use zs(2,3) 2(5-7) L i(3) in \<open>simp_all add: zone_setup_def Let_def\<close>)
  ultimately show ?thesis by blast
qed

lemma malloc_large_done:
  assumes rep: "slab_rep s L" and sh: "slab_shape s P e fc" and L: "L = slab_blocks s e fc" and sz: "0 < unat sz"
  shows "\<exists>r s'. malloc_large sz s = Some (r, s') \<and> malloc_done (unat sz) L s r s'"
  using malloc_large_shape [OF sh sz]
proof cases
  case 1
  then show ?thesis using rep by (auto simp: malloc_done_def)
next
  case (2 b n s' P')
  have ne: "\<And>k. e b \<noteq> Some (LargeBlock, k)" using 2(3) by simp
  have "small_blocks s' (e(b \<mapsto> (LargeBlock, n))) fc = small_blocks s e fc"
    using 2(3,5) by (intro small_blocks_cong) auto
  then have bl: "slab_blocks s' (e(b \<mapsto> (LargeBlock, n))) fc = insert (b * 4096, n * 4096) L"
    using large_blocks_upd(1) [of e b n, OF ne] L by (simp add: slab_blocks_def)
  have new: "(b * 4096, n * 4096) \<notin> L"
  proof
    assume "(b * 4096, n * 4096) \<in> L"
    then obtain c t k where c: "e c = Some (t, k)" "c * 4096 \<le> b * 4096" "b * 4096 + n * 4096 \<le> (c + k) * 4096"
      "0 < n * 4096" "t = LargeBlock \<and> b * 4096 = c * 4096 \<and> n * 4096 = k * 4096 \<or>
        t = InZone \<and> (b * 4096, n * 4096) \<in> zone_blocks (zones s c) (fc c)"
      unfolding L by (rule block_inside [OF sh])
    have "c \<noteq> b" using c(1) 2(3) by auto
    then have "(e(b \<mapsto> (LargeBlock, n))) c = Some (t, k)" using c(1) by simp
    from extents_apart [OF shapeD(2) [OF 2(4)] this, of b LargeBlock n] \<open>c \<noteq> b\<close> show False using c(2-4) by simp
  qed
  have "malloc_done (unat sz) L s (Some (b * 4096)) (add_used (of_nat (n * 4096)) s')"
    by (rule malloc_done_block [OF rep L 2(4) bl new 2(6,7,2)])
  then show ?thesis using 2(1) by blast
qed

lemma internal_malloc_done:
  assumes rep: "slab_rep s L"
  shows "\<exists>r s'. internal_malloc sz s = Some (r, s') \<and> malloc_done (unat sz) L s r s'"
proof -
  obtain P e fc where sh: "slab_shape s P e fc" and L: "L = slab_blocks s e fc" using rep unfolding slab_rep_def by blast
  consider "sz = 0" | "sz \<noteq> 0" "zone_limit s \<le> sz" | "sz \<noteq> 0" "sz < zone_limit s" by (meson not_le)
  then show ?thesis
  proof cases
    case 1
    then show ?thesis using rep by (simp add: internal_malloc_def malloc_done_def)
  next
    case 2
    then have "0 < unat sz" by (simp add: word_unat_eq_iff)
    from malloc_large_done [OF rep sh L this] 2 show ?thesis by (simp add: internal_malloc_def)
  next
    case 3
    have lim: "\<exists>m. unat (zone_limit s) = 1024 * m \<and> m \<le> 16"
      using shapeD(3) [OF sh] by (auto simp: slab_geometry_def)
    then obtain m where m: "unat (zone_limit s) = 1024 * m" "m \<le> 16" by blast
    have less: "unat sz < unat (zone_limit s)" using 3(2) by (simp add: word_less_nat_alt)
    have "0 < unat sz" "unat sz < 16384" using 3(1) less m by (simp_all add: word_unat_eq_iff)
    then obtain i where i: "zoneindex sz = (int i, of_nat (chunk_size i))" "i < NZONES" "unat sz \<le> chunk_size i"
      "\<forall>m. unat sz \<le> 1024 * m \<longrightarrow> chunk_size i \<le> 1024 * m" by (rule zoneindex_spec)
    have cl: "chunk_size i \<le> unat (zone_limit s)" using i(4) less m(1) by simp
    have call: "internal_malloc sz s = (case zone_array s i of
        Some z \<Rightarrow> malloc_chunk i z (of_nat (chunk_size i)) s | None \<Rightarrow> malloc_zone i (of_nat (chunk_size i)) s)"
      using 3 i(1,2) by (simp add: internal_malloc_def not_le [symmetric] split: option.split)
    show ?thesis
    proof (cases "zone_array s i")
      case None
      then show ?thesis using malloc_zone_done [OF rep sh L i(2) cl i(3)] call by simp
    next
      case (Some z)
      obtain c s' fc' where c: "malloc_chunk i z (of_nat (chunk_size i)) s = Some (Some c, add_used (of_nat (chunk_size i)) s')"
        "slab_shape s' P e fc'" "slab_blocks s' e fc' = insert (c, chunk_size i) (slab_blocks s e fc)"
        "(c, chunk_size i) \<notin> slab_blocks s e fc" "used_mem s' = used_mem s" "slab_data s' = slab_data s"
        by (rule malloc_chunk_shape [OF sh Some])
      have "malloc_done (unat sz) L s (Some c) (add_used (of_nat (chunk_size i)) s')"
        by (rule malloc_done_block [OF rep L c(2) _ _ c(5,6) i(3)]) (use c(3,4) L in simp_all)
      then show ?thesis using call Some c(1) by simp
    qed
  qed
qed

end
