(* ===== verification/RTT_SlabHeap.thy ===== *)
theory RTT_SlabHeap
  imports RTT_SlabAlloc
begin

text \<open>
  \<^verbatim>\<open>__internal_free\<close> and \<^verbatim>\<open>rt_realloc\<close> keep the invariant of the slab allocator and do to the allocated
  blocks what a heap promises; \<^verbatim>\<open>rt_system_heap_init\<close> establishes it.
\<close>

section \<open>Freeing a large block\<close>

lemma free_large_shape:
  assumes sh: "slab_shape s P e fc" and eb: "e b = Some (LargeBlock, k)"
  obtains s' P' where "internal_free (Some (b * 4096)) s = Some s'" "slab_shape s' P' (e(b := None)) fc"
    "slab_blocks s' (e(b := None)) fc = slab_blocks s e fc - {(b * 4096, k * 4096)}"
    "used_mem s' = used_mem s - of_nat (k * 4096)" "slab_data s' = slab_data s"
proof -
  have u: "usage s b = \<lparr>mu_type = PAGE_TYPE_LARGE, mu_size = k\<rparr>"
    using shapeD(4) [OF sh] eb unfolding usage_ok_def by blast
  note ed = extents_okD(1-3) [OF shapeD(2) [OF sh] eb]
  obtain pg where pg: "page_free b k (slab_pages s) = Some pg" "page_rep (heap_npages s) pg (P \<union> {b..<b + k})"
    by (rule page_free_rep [OF shapeD(1) [OF sh] ed(1,3,2)])
  let ?u = "(usage s)(b := \<lparr>mu_type = PAGE_TYPE_LARGE, mu_size = 0\<rparr>)" and ?e = "e(b := None)"
  let ?s = "s\<lparr>slab_pages := pg, usage := ?u\<rparr>"
  have "usage_ok (s\<lparr>slab_pages := pg, usage := ?u\<rparr>) ?e"
  proof (rule usage_ok_frame)
    show "usage_ok s ?e" by (rule usage_ok_drop [OF shapeD(4) [OF sh]])
    fix c t l assume c: "?e c = Some (t, l)"
    then have c': "e c = Some (t, l)" "c \<noteq> b" by (auto split: if_splits)
    show "0 < l" by (rule extents_okD(1) [OF shapeD(2) [OF sh] c'(1)])
    show "\<forall>x\<in>{c..<c + l}. usage (s\<lparr>slab_pages := pg, usage := ?u\<rparr>) x = usage s x"
      using extents_okD(5) [OF shapeD(2) [OF sh] c'(1) eb c'(2)] ed(1) by fastforce
  qed simp
  then have sh': "slab_shape ?s (P \<union> {b..<b + k}) ?e fc"
    by (intro shape_extent [OF sh _ _ pg(2) extents_free [OF shapeD(2) [OF sh] eb]]) (simp_all add: eb)
  have call: "internal_free (Some (b * 4096)) s = Some (sub_used (of_nat (k * 4096)) ?s)"
    using pg(1) u by (simp add: internal_free_def free_large_def page_of_def RT_MM_PAGE_SIZE_def Let_def sub_used_def)
  have "(b * 4096, k * 4096) \<in> large_blocks e" using eb unfolding large_blocks_def by blast
  then have "(b * 4096, k * 4096) \<notin> small_blocks s e fc" using small_not_large [OF sh] by blast
  moreover have "small_blocks ?s ?e fc = small_blocks s e fc" using eb by (intro small_blocks_cong) auto
  ultimately have bl: "slab_blocks ?s ?e fc = slab_blocks s e fc - {(b * 4096, k * 4096)}"
    unfolding slab_blocks_def large_blocks_remove [of e b k, OF eb] by blast
  show thesis by (rule that [OF call]) (use sh' bl in simp_all)
qed

section \<open>Retiring a zone\<close>

definition last_link :: "zone_link \<Rightarrow> nat list \<Rightarrow> zone_link" where
  "last_link pz xs = (if xs = [] then pz else ZoneNext (last xs))"

lemma zone_unlink_list:
  "chain (znext s) (read_zlink pz s) (xs @ z # ys) \<Longrightarrow> z \<notin> set xs \<Longrightarrow>
     zone_unlink z pz s = Some (write_zlink (last_link pz xs) (z_next (zones s z)) s)"
proof (induction xs arbitrary: pz)
  case Nil
  then show ?case by (subst zone_unlink.simps) (simp add: last_link_def)
next
  case (Cons x xs)
  then have "zone_unlink z (ZoneNext x) s = Some (write_zlink (last_link (ZoneNext x) xs) (z_next (zones s z)) s)" by simp
  then show ?case using Cons.prems by (subst zone_unlink.simps) (auto simp: last_link_def)
qed

lemma chain_drop:
  "chain nx p (xs @ z # ys) \<Longrightarrow> distinct (xs @ z # ys) \<Longrightarrow> xs \<noteq> [] \<Longrightarrow> chain (nx(last xs := nx z)) p (xs @ ys)"
proof (induction xs arbitrary: p)
  case (Cons x xs)
  have "last xs \<noteq> x" if "xs \<noteq> []" using Cons.prems(2) last_in_set [OF that] by auto
  then show ?case using Cons by (cases "xs = []") (auto simp: fun_upd_other fun_upd_same simp del: fun_upd_apply)
qed simp

text \<open>After the search every zone is as before, but for the links.\<close>

lemma zone_unlink_chain:
  assumes "chain (znext s) (zone_array s i) (xs @ z # ys)" "distinct (xs @ z # ys)"
  obtains nx p where "zone_unlink z (ZoneArray i) s =
      Some (s\<lparr>zones := (\<lambda>x. (zones s x)\<lparr>z_next := nx x\<rparr>), zone_array := (zone_array s)(i := p)\<rparr>)"
    "chain nx p (xs @ ys)" "\<forall>x. x \<notin> set xs \<longrightarrow> nx x = z_next (zones s x)"
proof (cases "xs = []")
  case True
  have "zone_unlink z (ZoneArray i) s = Some (s\<lparr>zone_array := (zone_array s)(i := z_next (zones s z))\<rparr>)"
    using zone_unlink_list [of s "ZoneArray i" xs z ys] assms True by (simp add: last_link_def)
  moreover have "(\<lambda>x. (zones s x)\<lparr>z_next := z_next (zones s x)\<rparr>) = zones s" by simp
  ultimately show thesis using that [of "z_next (zones s z)" "znext s"] assms(1) True by simp
next
  case False
  let ?nx = "(znext s)(last xs := z_next (zones s z))"
  have "zone_unlink z (ZoneArray i) s = Some (zone_update (last xs) (\<lambda>r. r\<lparr>z_next := z_next (zones s z)\<rparr>) s)"
    using zone_unlink_list [of s "ZoneArray i" xs z ys] assms False by (simp add: last_link_def)
  moreover have "(\<lambda>x. (zones s x)\<lparr>z_next := ?nx x\<rparr>) = (zones s)(last xs := (zones s (last xs))\<lparr>z_next := z_next (zones s z)\<rparr>)"
    by auto
  ultimately have "zone_unlink z (ZoneArray i) s =
      Some (s\<lparr>zones := (\<lambda>x. (zones s x)\<lparr>z_next := ?nx x\<rparr>), zone_array := (zone_array s)(i := zone_array s i)\<rparr>)"
    by (simp add: zone_update_def)
  then show thesis by (rule that [OF _ chain_drop [OF assms False]]) (use False in auto)
qed

lemma release_shape:
  assumes sh: "slab_shape s P e fc"
  obtains s' P' e' where "zone_release s = Some s'" "slab_shape s' P' e' fc" "slab_blocks s' e' fc = slab_blocks s e fc"
    "used_mem s' = used_mem s" "slab_data s' = slab_data s"
proof (cases "zone_free_cnt s > ZONE_RELEASE_THRESH")
  case False
  then show thesis using that [OF _ sh] by (simp add: zone_release_def)
next
  case True
  obtain zs where zs: "chain (znext s) (zone_free s) zs" "zone_free_cnt s = int (length zs)"
    using shapeD(6) [OF sh] unfolding idle_ok_def by blast
  then obtain z where z: "zone_free s = Some z" using True by (cases zs) (auto simp: ZONE_RELEASE_THRESH_def)
  let ?s1 = "s\<lparr>zone_free := z_next (zones s z), zone_free_cnt := zone_free_cnt s - 1\<rparr>"
  obtain k where k: "e z = Some (Idle, k)" "slab_shape ?s1 P (e(z \<mapsto> (Reserved, k))) fc" using reserve_idle [OF sh z] by blast
  have kc: "k = zone_page_cnt s" by (rule zone_extent(1) [OF sh k(1)]) simp
  let ?e = "e(z \<mapsto> (Reserved, k))"
  have ez: "?e z = Some (Reserved, k)" by simp
  note ed = extents_okD(1-3) [OF shapeD(2) [OF k(2)] ez]
  obtain pg where pg: "page_free z k (slab_pages ?s1) = Some pg" "page_rep (heap_npages ?s1) pg (P \<union> {z..<z + k})"
    by (rule page_free_rep [OF shapeD(1) [OF k(2)] ed(1,3,2)])
  let ?u = "usage (usage_free z k ?s1)"
  have us: "usage_ok (?s1\<lparr>slab_pages := pg, usage := ?u\<rparr>) (?e(z := None))"
  proof (rule usage_ok_frame)
    show "usage_ok ?s1 (?e(z := None))" by (rule usage_ok_drop [OF shapeD(4) [OF k(2)]])
    fix c t l assume c: "(?e(z := None)) c = Some (t, l)"
    then have c': "?e c = Some (t, l)" "c \<noteq> z" by (auto split: if_splits)
    show "0 < l" by (rule extents_okD(1) [OF shapeD(2) [OF k(2)] c'(1)])
    show "\<forall>x\<in>{c..<c + l}. usage (?s1\<lparr>slab_pages := pg, usage := ?u\<rparr>) x = usage ?s1 x"
      using extents_okD(5) [OF shapeD(2) [OF k(2)] c'(1) ez c'(2)] by (fastforce simp: usage_free_pages)
  qed simp
  have "slab_shape (?s1\<lparr>slab_pages := pg, usage := ?u\<rparr>) (P \<union> {z..<z + k}) (?e(z := None)) fc"
    by (rule shape_extent [OF k(2) _ _ pg(2) extents_free [OF shapeD(2) [OF k(2)] ez] us]) simp_all
  moreover have "?e(z := None) = e(z := None)" by simp
  ultimately have sh': "slab_shape (?s1\<lparr>slab_pages := pg, usage := ?u\<rparr>) (P \<union> {z..<z + k}) (e(z := None)) fc" by (simp only:)
  have call: "zone_release s = Some (?s1\<lparr>slab_pages := pg, usage := ?u\<rparr>)"
    using True z pg(1) kc geometry_pages [OF shapeD(3) [OF sh]] by (simp add: zone_release_def Let_def usage_free_pages)
  have "slab_blocks s (e(z := None)) fc = slab_blocks s e fc"
    by (rule slab_blocks_retype(2) [of _ _ Idle]) (use k(1) in simp_all)
  then have bl: "slab_blocks (?s1\<lparr>slab_pages := pg, usage := ?u\<rparr>) (e(z := None)) fc = slab_blocks s e fc"
    by (subst slab_blocks_fields [of _ s]) simp_all
  show thesis by (rule that [OF call sh' bl]) simp_all
qed

lemma retire_shape:
  assumes sh: "slab_shape s P e fc" and ez: "e z = Some (InZone, k)" and un: "z_nused (zones s z) = 0"
  obtains s' P' e' where "zone_retire z s = Some s'" "slab_shape s' P' e' fc" "slab_blocks s' e' fc = slab_blocks s e fc"
    "used_mem s' = used_mem s" "slab_data s' = slab_data s"
proof -
  note ok = shape_zone_ok [OF sh ez]
  let ?i = "z_zoneindex (zones s z)" and ?e = "e(z \<mapsto> (Idle, k))"
  have "0 < z_nfree (zones s z)" using zone_okD(5,8) [OF ok] un by linarith
  then have z: "z \<in> listed s e ?i" using ez by (simp add: listed_def)
  obtain zs where zs: "chain (znext s) (zone_array s ?i) zs" "distinct zs" "set zs = listed s e ?i"
    using shapeD(5) [OF sh] unfolding lists_ok_def by blast
  obtain xs ys where xy: "zs = xs @ z # ys" using z split_list [of z zs] zs(3) by blast
  obtain nx p where u: "zone_unlink z (ZoneArray ?i) s =
      Some (s\<lparr>zones := (\<lambda>x. (zones s x)\<lparr>z_next := nx x\<rparr>), zone_array := (zone_array s)(?i := p)\<rparr>)"
    "chain nx p (xs @ ys)" "\<forall>x. x \<notin> set xs \<longrightarrow> nx x = z_next (zones s x)"
    by (rule zone_unlink_chain [OF zs(1,2) [unfolded xy]])
  define zz where "zz = (\<lambda>x. (zones s x)\<lparr>z_next := nx x\<rparr>)(z := (zones s z)\<lparr>z_magic := - 1, z_next := zone_free s\<rparr>)"
  let ?s = "s\<lparr>zones := zz, zone_array := (zone_array s)(?i := p), zone_free := Some z, zone_free_cnt := zone_free_cnt s + 1\<rparr>"
  have call: "zone_retire z s = zone_release ?s" 
    using un u(1) by (simp add: zone_retire_def zone_update_def zz_def) (auto intro!: arg_cong [of _ _ zone_release] slab.equality)
  have zz: "z_zoneindex (zz x) = z_zoneindex (zones s x)" "z_nfree (zz x) = z_nfree (zones s x)" for x by (simp_all add: zz_def)
  have next_z: "znext ?s = nx(z := zone_free s)" by (auto simp: zz_def)
  have zone: "?e x = Some (InZone, l) \<longleftrightarrow> x \<noteq> z \<and> e x = Some (InZone, l)" for x l by auto
  have li: "listed ?s ?e j = listed s e j - {z}" for j unfolding listed_def zone by (auto simp: zz)
  have xs: "x \<notin> set xs" if "x \<notin> listed s e ?i" for x using that zs(3) xy by auto
  have lists: "lists_ok ?s ?e" unfolding lists_ok_def
  proof
    fix j
    show "\<exists>zs. chain (znext ?s) (zone_array ?s j) zs \<and> distinct zs \<and> set zs = listed ?s ?e j"
    proof (cases "j = ?i")
      case True
      have "z \<notin> set (xs @ ys)" "distinct (xs @ ys)" "set (xs @ ys) = listed ?s ?e ?i" using zs(2,3) xy li by auto
      moreover have "chain (nx(z := zone_free s)) p (xs @ ys)" using u(2) calculation(1) by (simp del: fun_upd_apply)
      ultimately show ?thesis using True unfolding next_z by auto
    next
      case False
      obtain ws where ws: "chain (znext s) (zone_array s j) ws" "distinct ws" "set ws = listed s e j"
        using shapeD(5) [OF sh] unfolding lists_ok_def by blast
      have out: "x \<notin> listed s e ?i" if "x \<in> set ws" for x using that ws(3) False by (simp add: listed_def)
      then have "z \<notin> set ws" using z by blast
      moreover have "chain nx (zone_array s j) ws" using ws(1) out xs u(3) chain_cong [of ws nx "znext s"] by simp
      ultimately have "chain (znext ?s) (zone_array ?s j) ws" "z \<notin> listed s e j" using False ws(3) unfolding next_z by auto
      then show ?thesis using ws(2,3) li by auto
    qed
  qed
  obtain ws where ws: "chain (znext s) (zone_free s) ws" "distinct ws" "set ws = {z. \<exists>k. e z = Some (Idle, k)}"
    "zone_free_cnt s = int (length ws)" using shapeD(6) [OF sh] unfolding idle_ok_def by blast
  have zw: "z \<notin> set ws" using ws(3) ez by simp
  have "x \<notin> set xs" if "x \<in> set ws" for x using that ws(3) by (intro xs) (auto simp: listed_def)
  then have "chain nx (zone_free s) ws" using ws(1) u(3) chain_cong [of ws nx "znext s"] by simp
  then have "chain (znext ?s) (zone_free ?s) (z # ws)" using zw unfolding next_z by simp
  moreover have "set (z # ws) = {z. \<exists>k. ?e z = Some (Idle, k)}" using ws(3) by auto
  ultimately have idle: "idle_ok ?s ?e" unfolding idle_ok_def using zw ws(2,4) by (intro exI [of _ "z # ws"]) simp
  have "usage_ok s ?e"
    by (rule usage_ok_upd [OF usage_ok_drop [OF shapeD(4) [OF sh]]]) (use zone_extent [OF sh ez] in auto)
  then have us: "usage_ok ?s ?e" by (simp add: usage_ok_def)
  have zok: "zones_ok ?s ?e fc" unfolding zones_ok_def zone using shape_zone_ok [OF sh] by (auto simp: zz_def)
  have "slab_shape ?s P ?e fc" unfolding slab_shape_def
    using shapeD(1,3) [OF sh] extents_retype [OF shapeD(2) [OF sh] ez] us lists idle zok by (simp add: slab_geometry_def)
  from release_shape [OF this] obtain s' P' e' where s': "zone_release ?s = Some s'" "slab_shape s' P' e' fc"
    "slab_blocks s' e' fc = slab_blocks ?s ?e fc" "used_mem s' = used_mem ?s" "slab_data s' = slab_data ?s" by blast
  have "small_blocks ?s ?e fc = small_blocks s e fc"
  proof -
    have "small_blocks s e fc = (\<Union>x\<in>{x. \<exists>k. ?e x = Some (InZone, k)}. zone_blocks (zones s x) (fc x))"
      using zone_empty [OF ok un] unfolding small_blocks_def zone by auto
    also have "\<dots> = small_blocks ?s ?e fc" unfolding small_blocks_def by (rule SUP_cong) (auto simp: zz_def)
    finally show ?thesis by simp
  qed
  then have "slab_blocks ?s ?e fc = slab_blocks s e fc"
    using large_blocks_upd(2) [of e z Idle k] ez by (simp add: slab_blocks_def)
  then show thesis using that [OF call [unfolded s'(1)] s'(2)] s'(3-5) by simp
qed

section \<open>Freeing a chunk\<close>

definition zone_put :: "slab_zone \<Rightarrow> nat \<Rightarrow> slab_zone" where
  "zone_put r c = r\<lparr>z_freechunk := Some c, z_nfree := z_nfree r + 1, z_nused := z_nused r - 1\<rparr>"

lemma zone_put_fields [simp]:
  "chunk_at (zone_put r c) = chunk_at r" "z_chunksize (zone_put r c) = z_chunksize r" "z_zoneindex (zone_put r c) = z_zoneindex r"
  "z_uindex (zone_put r c) = z_uindex r" "z_nfree (zone_put r c) = z_nfree r + 1" "z_nused (zone_put r c) = z_nused r - 1" "z_nmax (zone_put r c) = z_nmax r"
  by (auto simp: zone_put_def intro!: chunk_at_fields)

lemma zone_put_ok:
  assumes ok: "zone_ok n nx z r fc" and b: "(c, l) \<in> zone_blocks r fc"
  obtains j where "zone_ok n (nx(c := z_freechunk r)) z (zone_put r c) (j # fc)"
    "zone_blocks (zone_put r c) (j # fc) = zone_blocks r fc - {(c, l)}" "z_nfree r < z_nmax r"
proof -
  obtain j where j: "c = chunk_at r j" "l = unat (z_chunksize r)" "j \<le> z_uindex r" "j \<notin> set fc" using b by (auto simp: zone_blocks_def)
  note zd = zone_okD [OF ok]
  have cs: "0 < unat (z_chunksize r)" using zd(4) by simp
  have inj: "chunk_at r x = chunk_at r y \<Longrightarrow> x = y" for x y using chunk_at_inj [OF cs] by blast
  have "c \<notin> set (map (chunk_at r) fc)" using j(1,4) inj by auto
  then have ch: "chain (nx(c := z_freechunk r)) (Some c) (map (chunk_at r) (j # fc))" using zd(10) j(1) by simp
  have "card (set fc) < card {..z_uindex r}" using zd(7) j(3,4) by (intro psubset_card_mono) auto
  then have len: "length fc \<le> z_uindex r" using distinct_card [OF zd(6)] by simp
  then have "z_nfree r < z_nmax r" using zd(9) by linarith
  moreover have "zone_ok n (nx(c := z_freechunk r)) z (zone_put r c) (j # fc)"
    using ok ch j(3,4) unfolding zone_ok_def zone_put_fields by (auto simp: zone_put_def)
  moreover have "zone_blocks (zone_put r c) (j # fc) = zone_blocks r fc - {(c, l)}"
    using j unfolding zone_blocks_def zone_put_fields by (auto dest!: inj)
  ultimately show thesis using that by blast
qed

lemma chunk_page:
  assumes sh: "slab_shape s P e fc" and ez: "e z = Some (InZone, k)" and b: "(c, l) \<in> zone_blocks (zones s z) (fc z)"
  shows "usage s (page_of c) = \<lparr>mu_type = PAGE_TYPE_SMALL, mu_size = page_of c - z\<rparr>" "z \<le> page_of c"
proof -
  note zx = zone_extent [OF sh ez, simplified]
  note in_z = zone_blocks_inside [OF shape_zone_ok [OF sh ez] b]
  have "z \<le> c div 4096" "c div 4096 < z + k" using in_z(1-3) zx(1) by (auto simp: less_eq_div_iff_mult_less_eq div_less_iff_less_mult)
  then show "z \<le> page_of c" "usage s (page_of c) = \<lparr>mu_type = PAGE_TYPE_SMALL, mu_size = page_of c - z\<rparr>"
    using zx(2) [of "c div 4096 - z"] zx(1) by (simp_all add: page_of_def RT_MM_PAGE_SIZE_def)
qed

lemma free_chunk_shape:
  assumes sh: "slab_shape s P e fc" and ez: "e z = Some (InZone, k)" and b: "(c, l) \<in> zone_blocks (zones s z) (fc z)"
  obtains s' P' e' fc' where "internal_free (Some c) s = Some s'" "slab_shape s' P' e' fc'"
    "slab_blocks s' e' fc' = slab_blocks s e fc - {(c, l)}" "used_mem s' = used_mem s - of_nat l" "slab_data s' = slab_data s"
proof -
  let ?r = "zones s z" and ?i = "z_zoneindex (zones s z)"
  note ok = shape_zone_ok [OF sh ez]
  note zx = zone_extent [OF sh ez, simplified]
  note in_z = zone_blocks_inside [OF ok b]
  obtain j where j: "zone_ok (zone_page_cnt s) ((chunk_next s)(c := z_freechunk ?r)) z (zone_put ?r c) (j # fc z)"
    "zone_blocks (zone_put ?r c) (j # fc z) = zone_blocks ?r (fc z) - {(c, l)}" "z_nfree ?r < z_nmax ?r"
    by (rule zone_put_ok [OF ok b])
  let ?full = "z_nfree ?r = 0"
  define r where "r = (if ?full then (zone_put ?r c)\<lparr>z_next := zone_array s ?i\<rparr> else zone_put ?r c)"
  define p where "p = (if ?full then Some z else zone_array s ?i)"
  let ?s = "s\<lparr>zones := (zones s)(z := r), zone_array := (zone_array s)(?i := p), chunk_next := (chunk_next s)(c := z_freechunk ?r)\<rparr>"
  let ?fc = "fc(z := j # fc z)"
  have r: "z_zoneindex r = ?i" "z_nfree r = z_nfree ?r + 1" "z_nused r = z_nused ?r - 1" "z_nmax r = z_nmax ?r"
    by (simp_all add: r_def)
  obtain zs where zs: "chain (znext s) (zone_array s ?i) zs" "distinct zs" "set zs = listed s e ?i"
    using shapeD(5) [OF sh] unfolding lists_ok_def by blast
  have zin: "z \<in> set zs \<longleftrightarrow> \<not> ?full" using zs(3) ez zone_okD(8,9) [OF ok] by (auto simp: listed_def)
  have "slab_shape ?s P (e(z \<mapsto> (InZone, k))) ?fc"
  proof (rule shape_zone [OF sh ez])
    show "zone_ok k ((chunk_next s)(c := z_freechunk ?r)) z r (j # fc z)" using j(1) zx(1) by (simp add: r_def)
    show "((chunk_next s)(c := z_freechunk ?r)) x = chunk_next s x" if "\<not> (z * 4096 < x \<and> x < (z + k) * 4096)" for x
      using that in_z(1-3) zx(1) by auto
    have triv: "(znext s)(z := z_next ?r) = znext s" by (simp add: fun_upd_idem)
    show "chain ((znext s)(z := z_next r)) p (if ?full then z # zs else zs)"
      using zs(1) zin triv by (auto simp: r_def p_def zone_put_def)
    show "set (if ?full then z # zs else zs) = listed s e ?i - {z} \<union> (if 0 < z_nfree r then {z} else {})"
      using zs(3) zin r(2) zone_okD(8,9) [OF ok] by auto
  qed (use zx r zs(2) zin in auto)
  then have sh': "slab_shape ?s P e ?fc" using ez by (simp add: fun_upd_idem)
  have "zone_blocks (zones ?s z) (?fc z) = zone_blocks ?r (fc z) - {(c, l)}" using j(2) by (simp add: r_def)
  moreover have "zone_blocks ?r (fc z) \<subseteq> small_blocks s e fc" using ez unfolding small_blocks_def by blast
  ultimately have "small_blocks ?s e ?fc = small_blocks s e fc - {(c, l)}"
    using small_blocks_zone [OF sh ez, of ?s ?fc] b by auto
  moreover have "(c, l) \<notin> large_blocks e" using small_not_large [OF sh] ez b unfolding small_blocks_def by blast
  ultimately have bl: "slab_blocks ?s e ?fc = slab_blocks s e fc - {(c, l)}" unfolding slab_blocks_def by blast
  have lw: "z_chunksize ?r = of_nat l" using in_z(4) by simp
  note page = chunk_page [OF sh ez b]
  let ?t = "sub_used (of_nat l) ?s"
  have call: "internal_free (Some c) s =
      (if z_nfree r = z_nmax r \<and> (z_next r \<noteq> None \<or> p \<noteq> Some z) then zone_retire z ?t else Some ?t)"
  proof -
    have pos: "0 \<le> z_nfree ?r" using zone_okD(8,9) [OF ok] by linarith
    have "internal_free (Some c) s = free_chunk z c s" using page by (simp add: internal_free_def Let_def)
    also have "\<dots> = (if z_nfree r = z_nmax r \<and> (z_next r \<noteq> None \<or> p \<noteq> Some z) then zone_retire z ?t else Some ?t)"
    proof -
      define w where "w = zone_relist z (sub_used (z_chunksize ?r) (zone_put_chunk z c s))"
      have w: "z_nfree (zones w z) = z_nfree r" "z_nmax (zones w z) = z_nmax r"
        by (simp_all add: w_def zone_relist_def sub_used_def zone_put_chunk_def zone_update_def Let_def r_def)
      have t: "zone_update z (\<lambda>r. r\<lparr>z_nused := z_nused r - 1\<rparr>) w = ?t"
        unfolding w_def zone_relist_def sub_used_def zone_put_chunk_def zone_update_def Let_def lw
        by (rule slab.equality) (auto simp: r_def p_def zone_put_def intro!: slab_zone.equality)
      have "\<not> z_nfree r > z_nmax r" "z_nused r + z_nfree r = z_nmax r" using j(3) r zone_okD(5) [OF ok] by simp_all
      then show ?thesis using zone_okD(1) [OF ok] w t r(1)
        unfolding free_chunk_def by (simp add: w_def [symmetric] Let_def) (auto simp: sub_used_def)
    qed
    finally show ?thesis .
  qed
  show thesis
  proof (cases "z_nfree r = z_nmax r \<and> (z_next r \<noteq> None \<or> p \<noteq> Some z)")
    case False
    have "internal_free (Some c) s = Some ?t" unfolding call using False by (rule if_not_P)
    then show thesis by (rule that [of ?t P e ?fc]) (use sh' bl in simp_all)
  next
    case True
    have sht: "slab_shape ?t P e ?fc" using sh' by simp
    have un: "z_nused (zones ?t z) = 0" using True r(2-4) zone_okD(5) [OF ok] by simp
    obtain s' P' e' where s': "zone_retire z ?t = Some s'" "slab_shape s' P' e' ?fc" "slab_blocks s' e' ?fc = slab_blocks ?t e ?fc"
      "used_mem s' = used_mem ?t" "slab_data s' = slab_data ?t" by (rule retire_shape [OF sht ez un])
    show thesis by (rule that [OF _ s'(2)]) (use s'(1,3-5) call True bl in simp_all)
  qed
qed

section \<open>Freeing and reallocating keep the contract\<close>

lemma internal_free_done:
  assumes rep: "slab_rep s L" and p: "(p, n) \<in> L"
  shows "\<exists>s'. internal_free (Some p) s = Some s' \<and> slab_data s' = slab_data s \<and> slab_rep s' (L - {(p, n)})"
proof -
  obtain P e fc where sh: "slab_shape s P e fc" and L: "L = slab_blocks s e fc" using rep unfolding slab_rep_def by blast
  have "\<exists>s' P' e' fc'. internal_free (Some p) s = Some s' \<and> slab_shape s' P' e' fc' \<and>
      slab_blocks s' e' fc' = slab_blocks s e fc - {(p, n)} \<and> used_mem s' = used_mem s - of_nat n \<and> slab_data s' = slab_data s"
    using block_extent [OF sh p [unfolded L]]
  proof cases
    case (1 b k)
    show ?thesis unfolding 1(2,3) by (rule free_large_shape [OF sh 1(1)]) blast
  next
    case (2 z k)
    show ?thesis by (rule free_chunk_shape [OF sh 2(1,3)]) blast
  qed
  then obtain s' P' e' fc' where s': "internal_free (Some p) s = Some s'" "slab_shape s' P' e' fc'"
    "slab_blocks s' e' fc' = L - {(p, n)}" "used_mem s' = used_mem s - of_nat n" "slab_data s' = slab_data s"
    unfolding L by blast
  have "slab_rep s' (L - {(p, n)})" by (rule slab_repI_remove [OF rep s'(2,3) p s'(4)])
  then show ?thesis using s'(1,5) by blast
qed

lemma rep_disjoint:
  "slab_rep s L \<Longrightarrow> (p, n) \<in> L \<Longrightarrow> (q, m) \<in> L \<Longrightarrow> (p, n) \<noteq> (q, m) \<Longrightarrow> p \<noteq> q \<and> (p + n \<le> q \<or> q + m \<le> p)"
  unfolding slab_rep_def using slab_blocks_disjoint by blast

lemma rep_data [simp]: "slab_rep (s\<lparr>slab_data := d\<rparr>) L = slab_rep s L"
  by (simp add: slab_rep_def)

lemma rep_size:
  assumes "slab_rep s L" "(p, n) \<in> L"
  shows "n < 2 ^ 32"
proof -
  obtain P e fc where sh: "slab_shape s P e fc" and L: "L = slab_blocks s e fc" using assms(1) unfolding slab_rep_def by blast
  obtain b t k where b: "e b = Some (t, k)" "b * 4096 \<le> p" "p + n \<le> (b + k) * 4096" "0 < n"
    using block_inside [OF sh assms(2) [unfolded L]] by metis
  have "b + k < 2 ^ 20" using extents_okD(2) [OF shapeD(2) [OF sh] b(1)] shapeD(3) [OF sh] by (simp add: slab_geometry_def)
  then show ?thesis using b(3) by simp
qed

definition slab_realloc_done :: "nat \<Rightarrow> nat \<Rightarrow> nat \<Rightarrow> (nat \<times> nat) set \<Rightarrow> slab \<Rightarrow> nat option \<Rightarrow> slab \<Rightarrow> bool" where
  "slab_realloc_done p n k L s r s' \<longleftrightarrow>
     (\<forall>x l i. (x, l) \<in> L - {(p, n)} \<longrightarrow> i < l \<longrightarrow> slab_data s' (x + i) = slab_data s (x + i)) \<and>
     (case r of
        None \<Rightarrow> slab_rep s' L \<and> slab_data s' = slab_data s
      | Some q \<Rightarrow> (\<exists>m. k \<le> m \<and> (q, m) \<notin> L - {(p, n)} \<and> slab_rep s' (insert (q, m) (L - {(p, n)}))) \<and>
          (\<forall>i. i < n \<longrightarrow> i < k \<longrightarrow> slab_data s' (q + i) = slab_data s (p + i)))"

lemma realloc_into_done:
  assumes rep: "slab_rep s L" and p: "(p, n) \<in> L" and k: "k \<le> unat sz" and o: "unat osize = n"
  shows "\<exists>r s'. realloc_into p sz osize s = Some (r, s') \<and> slab_realloc_done p n k L s r s'"
proof -
  obtain r s1 where r: "internal_malloc sz s = Some (r, s1)" "malloc_done (unat sz) L s r s1" using internal_malloc_done [OF rep] by blast
  show ?thesis
  proof (cases r)
    case None
    then show ?thesis using r by (simp add: realloc_into_def rt_malloc_def malloc_done_def slab_realloc_done_def)
  next
    case (Some q)
    obtain m where m: "slab_data s1 = slab_data s" "unat sz \<le> m" "(q, m) \<notin> L" "slab_rep s1 (insert (q, m) L)"
      using r(2) Some by (auto simp: malloc_done_def)
    let ?c = "if sz > osize then osize else sz"
    have c: "unat ?c \<le> n" "unat ?c \<le> m" "i < n \<Longrightarrow> i < k \<Longrightarrow> i < unat ?c" for i
      using o k m(2) by (auto simp: word_less_nat_alt)
    have ne: "(p, n) \<noteq> (q, m)" using p m(3) by auto
    have pq: "p + n \<le> q \<or> q + m \<le> p" using rep_disjoint [OF m(4) _ _ ne] p by simp
    have far: "far q p (unat ?c)" using pq c(1) by (auto simp: far_def)
    let ?d = "copied q p (unat ?c) (slab_data s)"
    have cp: "slab_memcpy q p ?c s1 = s1\<lparr>slab_data := ?d\<rparr>"
      unfolding slab_memcpy_def rt_memcpy_copied [OF far] m(1) ..
    have "slab_rep (s1\<lparr>slab_data := ?d\<rparr>) (insert (q, m) L)" using m(4) by simp
    from internal_free_done [OF this insertI2 [OF p]] obtain s2 where s2: "internal_free (Some p) (s1\<lparr>slab_data := ?d\<rparr>) = Some s2"
      "slab_data s2 = ?d" "slab_rep s2 (insert (q, m) L - {(p, n)})" by auto
    have call: "realloc_into p sz osize s = Some (Some q, s2)"
      unfolding realloc_into_def rt_malloc_def rt_free_def r(1) Some using cp s2(1) by simp
    have keep: "?d (x + i) = slab_data s (x + i)" if "(x, l) \<in> L - {(p, n)}" "i < l" for x l i
    proof -
      have "(x, l) \<noteq> (q, m)" using that(1) m(3) by auto
      then have "x + l \<le> q \<or> q + m \<le> x" using rep_disjoint [OF m(4), of x l q m] that(1) by simp
      then show ?thesis using that(2) c(2) by (auto simp: copied_def)
    qed
    have new: "?d (q + i) = slab_data s (p + i)" if "i < n" "i < k" for i using c(3) [OF that] by (simp add: copied_def)
    have "insert (q, m) L - {(p, n)} = insert (q, m) (L - {(p, n)})" using ne by auto
    then have "slab_realloc_done p n k L s (Some q) s2"
      using s2(2,3) keep new m(2,3) k unfolding slab_realloc_done_def by (auto intro!: exI [of _ m])
    then show ?thesis using call by blast
  qed
qed

lemma zoneindex_size:
  assumes "sz \<noteq> 0"
  shows "unat sz \<le> unat (snd (zoneindex sz))"
proof (cases "unat sz < 16384")
  case True
  have "0 < unat sz" using assms by (simp add: word_unat_eq_iff)
  then obtain i where "zoneindex sz = (int i, of_nat (chunk_size i))" "i < NZONES" "unat sz \<le> chunk_size i"
    using True by (rule zoneindex_spec)
  then show ?thesis by (simp add: chunk_size_bounds(3))
next
  case False
  then show ?thesis by (simp add: zoneindex_def word_less_nat_alt)
qed

lemma rt_realloc_done:
  assumes rep: "slab_rep s L" and p: "(p, n) \<in> L" and k: "sz \<noteq> 0"
  shows "\<exists>r s'. rt_realloc (Some p) sz s = Some (r, s') \<and> slab_realloc_done p n (unat sz) L s r s'"
proof -
  obtain P e fc where sh: "slab_shape s P e fc" and L: "L = slab_blocks s e fc" using rep unfolding slab_rep_def by blast
  show ?thesis using block_extent [OF sh p [unfolded L]]
  proof cases
    case (1 b k)
    have u: "usage s (page_of p) = \<lparr>mu_type = PAGE_TYPE_LARGE, mu_size = k\<rparr>"
      using shapeD(4) [OF sh] 1(1,2) unfolding usage_ok_def by (simp add: page_of_def RT_MM_PAGE_SIZE_def)
    have "unat (of_nat k * of_nat RT_MM_PAGE_SIZE :: u32) = n"
      using rep_size [OF rep p] 1(3) unat_of_nat32 [of "k * 4096"] by (simp add: RT_MM_PAGE_SIZE_def)
    from realloc_into_done [OF rep p order_refl this] show ?thesis using k u by (simp add: rt_realloc_def Let_def)
  next
    case (2 z l)
    note ok = shape_zone_ok [OF sh 2(1)]
    note page = chunk_page [OF sh 2(1,3)]
    have n: "n = unat (z_chunksize (zones s z))" by (rule zone_blocks_inside(4) [OF ok 2(3)])
    note le = zoneindex_size [OF k]
    have call: "rt_realloc (Some p) sz s = (if z_chunksize (zones s z) = snd (zoneindex sz) then Some (Some p, s)
        else realloc_into p (snd (zoneindex sz)) (z_chunksize (zones s z)) s)"
      using k page zone_okD(1) [OF ok] by (simp add: rt_realloc_def Let_def)
    show ?thesis
    proof (cases "z_chunksize (zones s z) = snd (zoneindex sz)")
      case True
      have "insert (p, n) (L - {(p, n)}) = L" using p by auto
      then have "slab_realloc_done p n (unat sz) L s (Some p) s"
        using rep le True n by (auto simp: slab_realloc_done_def intro!: exI [of _ n])
      then show ?thesis using call True by auto
    next
      case False
      then show ?thesis using realloc_into_done [OF rep p le n [symmetric]] call by simp
    qed
  qed
qed

text \<open>The slab allocator is an allocator.\<close>

definition slab_free :: "nat \<Rightarrow> slab \<Rightarrow> slab option" where
  "slab_free p s = rt_free (Some p) s"

definition slab_realloc :: "nat \<Rightarrow> u32 \<Rightarrow> slab \<Rightarrow> (nat option \<times> slab) option" where
  "slab_realloc p k s = rt_realloc (Some p) k s"

definition slab_store :: "nat \<Rightarrow> u8 \<Rightarrow> slab \<Rightarrow> slab" where
  "slab_store x b s = s\<lparr>slab_data := (slab_data s)(x := b)\<rparr>"

interpretation slab_heap: allocator slab_rep slab_data rt_malloc slab_free slab_realloc slab_store
proof (unfold_locales, goal_cases)
  case (1 s L p n q m) then show ?case by (rule rep_disjoint)
next
  case (2 s L k)
  show ?case using internal_malloc_done [OF 2(1), of k] by (auto simp: rt_malloc_def malloc_done_def)
next
  case (3 s L p n) then show ?case using internal_free_done [of s L p n] by (simp add: slab_free_def rt_free_def)
next
  case (4 s L p n k)
  then show ?case using rt_realloc_done [of s L p n k] by (simp add: slab_realloc_def slab_realloc_done_def)
next
  case (5 s L x b) then show ?case by (simp add: slab_store_def)
next
  case (6 s x b) then show ?case by (simp add: slab_store_def)
qed

section \<open>The start\<close>

text \<open>The zones grow with the heap; the loop ends.\<close>

lemma zone_size_loop_result:
  "\<exists>zs. zone_size_loop lim ZALLOC_MIN_ZONE_SIZE = Some zs \<and> (zs = 32768 \<or> zs = 65536 \<or> zs = 131072)"
proof -
  have "zone_size_loop lim 131072 = Some 131072" by (subst zone_size_loop.simps) (simp add: ZALLOC_MAX_ZONE_SIZE_def)
  then have "zone_size_loop lim 65536 = Some 65536 \<or> zone_size_loop lim 65536 = Some 131072"
    by (subst (1 2) zone_size_loop.simps) (simp add: ZALLOC_MAX_ZONE_SIZE_def)
  then have "zone_size_loop lim 32768 = Some 32768 \<or> zone_size_loop lim 32768 = Some 65536 \<or> zone_size_loop lim 32768 = Some 131072"
    by (subst (1 2 3) zone_size_loop.simps) (auto simp add: ZALLOC_MAX_ZONE_SIZE_def)
  then show ?thesis by (auto simp: ZALLOC_MIN_ZONE_SIZE_def)
qed

lemma page_init_rep:
  assumes "0 < n"
  obtains pg where "rt_page_init n s = Some pg" "page_rep n pg {0..<n}"
proof -
  have "page_rep n (s\<lparr>rt_page_list := None\<rparr>) {}" unfolding page_rep_def by (intro exI [of _ "[]"]) simp
  from page_free_rep [OF this assms] obtain pg where "page_free 0 n (s\<lparr>rt_page_list := None\<rparr>) = Some pg" "page_rep n pg ({} \<union> {0..<0 + n})"
    by (metis Int_empty_right add_0 order_refl)
  then show thesis using that assms by (simp add: rt_page_init_def)
qed

lemma system_heap_init_rep:
  assumes order: "page_align a < RT_ALIGN_DOWN b 4096"
    and zero: "zone_array s = (\<lambda>_. None)" "zone_free s = None" "zone_free_cnt s = 0" "used_mem s = 0"
  obtains s' where "rt_system_heap_init a b s = Some s'" "slab_rep s' {}"
    "heap_npages s' = (unat (RT_ALIGN_DOWN b 4096) - unat (page_align a)) div 4096"
proof -
  define n where "n = (unat (RT_ALIGN_DOWN b 4096) - unat (page_align a)) div 4096"
  have lim: "unat (RT_ALIGN_DOWN b 4096 - page_align a) = unat (RT_ALIGN_DOWN b 4096) - unat (page_align a)"
    using order by (simp add: unat_sub word_less_nat_alt word_le_nat_alt)
  have un: "unat ((RT_ALIGN_DOWN b 4096 - page_align a) div 4096) = n" unfolding unat_div lim n_def by simp
  have nb: "n < 2 ^ 20"
    using unsigned_less [of "RT_ALIGN_DOWN b 4096", where 'a = nat] unfolding n_def by (simp add: div_less_iff_less_mult)
  have dvd: "4096 dvd unat (page_align a)" "4096 dvd unat (RT_ALIGN_DOWN b 4096)"
    using unat_and_not_mask [of "a + 4095" 12] unat_and_not_mask [of b 12]
    by (simp_all add: page_align_def RT_ALIGN_def RT_ALIGN_DOWN_def RT_MM_PAGE_SIZE_def mask_eq_exp_minus_1 add.commute)
  have "0 < unat (RT_ALIGN_DOWN b 4096) - unat (page_align a)" using order by (simp add: word_less_nat_alt)
  moreover have "4096 dvd unat (RT_ALIGN_DOWN b 4096) - unat (page_align a)" using dvd by (simp add: dvd_diff_nat)
  ultimately have npos: "0 < n" unfolding n_def by (simp add: div_greater_zero_iff dvd_imp_le)
  obtain pg where pg: "rt_page_init n (slab_pages s) = Some pg" "page_rep n pg {0..<n}" by (rule page_init_rep [OF npos])
  obtain zs where zs: "zone_size_loop (RT_ALIGN_DOWN b 4096 - page_align a) ZALLOC_MIN_ZONE_SIZE = Some zs"
    "zs = 32768 \<or> zs = 65536 \<or> zs = 131072" using zone_size_loop_result by blast
  define t where "t = (4 * n + 4095) div 4096"
  have t: "0 < t" "t \<le> n" using npos unfolding t_def by auto
  have tab: "unat (page_align (of_nat n * sizeof_memusage)) = 4096 * t"
  proof -
    have "unat (of_nat n * sizeof_memusage) = 4 * n" using nb unat_of_nat32 [of "4 * n"] by (simp add: sizeof_memusage_def mult.commute)
    then show ?thesis using page_align_pages [of "of_nat n * sizeof_memusage"] nb unfolding t_def by simp
  qed
  then have td: "unat (page_align (of_nat n * sizeof_memusage) div 4096) = t" unfolding unat_div by simp
  obtain p pg' where pg': "page_alloc t pg = Some (Some p, pg')" "{p..<p + t} \<subseteq> {0..<n}" "page_rep n pg' ({0..<n} - {p..<p + t})"
    using page_alloc_rep [OF pg(2) t(1)] t(2) by (metis add_0 atLeastatMost_subset_iff ivl_subset order_refl)
  let ?lim = "if zs div 4 > ZALLOC_ZONE_LIMIT then ZALLOC_ZONE_LIMIT else zs div 4"
  let ?s = "s\<lparr>heap_npages := n, slab_pages := pg', zone_size := zs, zone_limit := ?lim, zone_page_cnt := unat zs div 4096,
    usage := (\<lambda>_. \<lparr>mu_type = PAGE_TYPE_FREE, mu_size = 0\<rparr>)\<rparr>"
  obtain u where call: "rt_system_heap_init a b s = Some (?s\<lparr>usage := u\<rparr>)"
  proof -
    have "rt_system_heap_init a b s = Some (if page_align (of_nat n * sizeof_memusage) > zs
        then set_usage p PAGE_TYPE_LARGE (unat (drop_bit RT_MM_PAGE_BITS (page_align (of_nat n * sizeof_memusage)))) ?s
        else usage_small p t ?s)"
    proof -
      have page: "(of_nat RT_MM_PAGE_SIZE :: u32) = 4096" by (simp add: RT_MM_PAGE_SIZE_def)
      have nat_page: "x div RT_MM_PAGE_SIZE = x div 4096" for x by (simp add: RT_MM_PAGE_SIZE_def)
      have lt: "\<not> page_align a \<ge> RT_ALIGN_DOWN b 4096" using order by simp
      show ?thesis
        unfolding rt_system_heap_init_def Let_def page un pg(1) zs(1) if_not_P [OF lt] Option.bind.bind_lunit td pg'(1)
          prod.case nat_page ..
    qed
    then show thesis using that by (simp add: usage_small_pages set_usage_def split: if_splits)
  qed
  let ?e = "Map.empty(p \<mapsto> (Reserved, t)) :: extents"
  have ext: "extents_ok n ({0..<n} - {p..<p + t}) ?e"
    using extents_alloc(1) [of n "{0..<n}" Map.empty p t Reserved] pg'(2) t(1) by (simp add: extents_ok_def)
  have geo: "slab_geometry (?s\<lparr>usage := u\<rparr>)" using zs(2) nb by (auto simp: slab_geometry_def ZALLOC_ZONE_LIMIT_def)
  have sh: "slab_shape (?s\<lparr>usage := u\<rparr>) ({0..<n} - {p..<p + t}) ?e (\<lambda>_. [])"
    unfolding slab_shape_def using geo ext pg'(3) zero
    by (auto simp: usage_ok_def lists_ok_def listed_def idle_ok_def zones_ok_def split: if_splits)
  have bl: "slab_blocks (?s\<lparr>usage := u\<rparr>) ?e (\<lambda>_. []) = {}"
    by (auto simp: slab_blocks_def large_blocks_def small_blocks_def split: if_splits)
  have "slab_rep (?s\<lparr>usage := u\<rparr>) {}"
    unfolding slab_rep_def by (intro conjI exI, rule sh, rule bl [symmetric]) (simp_all add: zero(4) block_sum_def)
  then show thesis using that [OF call] by (simp add: n_def)
qed

section \<open>What the heap promises\<close>


text \<open>
  C7: From the start of the heap on: a program that allocates, frees, reallocates and writes, in any
  order and any number of times, never makes a call of the slab allocator stop (an assertion, a
  broken list); its live blocks never overlap and every one holds what the program wrote, through
  chunks of zones, new, retired and released zones, large blocks and the moves of \<^verbatim>\<open>rt_realloc\<close>; and
  the invariant of the allocator holds again.
\<close>

theorem slab_client_safe:
  assumes "page_align a < RT_ALIGN_DOWN b 4096"
    and "zone_array s = (\<lambda>_. None)" "zone_free s = None" "zone_free_cnt s = 0" "used_mem s = 0"
  shows "\<exists>s1 held s2 L. rt_system_heap_init a b s = Some s1 \<and>
    client_run rt_malloc slab_free slab_realloc slab_store slab_data rs (Map.empty, s1) = Some (held, s2) \<and>
    apart held \<and> intact held (slab_data s2) \<and> slab_rep s2 L"
proof -
  obtain s1 where "rt_system_heap_init a b s = Some s1" "slab_rep s1 {}" by (rule system_heap_init_rep [OF assms])
  then show ?thesis using slab_heap.client_safe [of s1 "{}" rs] by blast
qed


text \<open>
  C18: Blocks are aligned: every block starts at a multiple of 8 from the start of the heap, and a
  block whose size is a power of two up to the page size at a multiple of its size.
\<close>

theorem slab_blocks_aligned:
  assumes "slab_rep s L" "(p, n) \<in> L"
  shows "8 dvd p \<and> (\<forall>k. k \<le> RT_MM_PAGE_BITS \<longrightarrow> n = 2 ^ k \<longrightarrow> n dvd p)"
proof -
  obtain P e fc where sh: "slab_shape s P e fc" and L: "L = slab_blocks s e fc" using assms(1) unfolding slab_rep_def by blast
  have pow: "(2 :: nat) ^ k dvd 4096" if "k \<le> 12" for k using le_imp_power_dvd [OF that, of "2 :: nat"] by simp
  show ?thesis using block_extent [OF sh assms(2) [unfolded L]]
  proof cases
    case (1 b k)
    have "4096 dvd p" "8 dvd (4096 :: nat)" using 1(2) by simp_all
    then show ?thesis using pow by (auto simp: RT_MM_PAGE_BITS_def intro: dvd_trans)
  next
    case (2 z k)
    note ok = shape_zone_ok [OF sh 2(1)]
    let ?r = "zones s z" and ?i = "z_zoneindex (zones s z)"
    have i: "?i < NZONES" and cw: "z_chunksize ?r = of_nat (chunk_size ?i)" using ok unfolding zone_ok_def by blast+
    have n: "n = chunk_size ?i" using zone_blocks_inside(4) [OF ok 2(3)] zone_okD(3) [OF ok] by simp
    obtain j where j: "p = chunk_at ?r j" using 2(3) by (auto simp: zone_blocks_def)
    note al = chunk_align [OF ok _ _ _, of _ j]
    have "8 dvd p" unfolding j
      by (rule al) (use zone_offset_align(1,2) [OF i] zone_okD(3) [OF ok] cw in simp_all)
    moreover have "2 ^ k dvd p" if k: "k \<le> 12" "n = 2 ^ k" for k unfolding j
    proof (rule al)
      show "2 ^ k dvd unat (z_chunksize ?r)" using k(2) n zone_okD(3) [OF ok] by simp
      show "2 ^ k dvd unat (zone_offset (z_chunksize ?r))" unfolding cw using zone_offset_align(3) [OF i k(1)] k(2) n by simp
    qed (rule pow [OF k(1)])
    ultimately show ?thesis by (auto simp: RT_MM_PAGE_BITS_def)
  qed
qed

text \<open>
  \<^verbatim>\<open>rt_calloc\<close> with a product that fits: a new block of at least \<open>count * size\<close> bytes, all of
  them zero, or null; the bytes of the other blocks are left alone.
\<close>

theorem rt_calloc_zeroed:
  assumes "slab_rep s L" "unat count * unat sz < 2 ^ 32"
  shows "\<exists>r s'. rt_calloc count sz s = Some (r, s') \<and>
    (\<forall>x l i. (x, l) \<in> L \<longrightarrow> i < l \<longrightarrow> slab_data s' (x + i) = slab_data s (x + i)) \<and>
    (case r of
       None \<Rightarrow> slab_rep s' L
     | Some p \<Rightarrow> \<exists>m. unat count * unat sz \<le> m \<and> (p, m) \<notin> L \<and> slab_rep s' (insert (p, m) L) \<and>
         (\<forall>i < unat count * unat sz. slab_data s' (p + i) = 0))"
proof -
  have n: "unat (count * sz) = unat count * unat sz" using assms(2) by (simp add: unat_word_ariths)
  obtain r s1 where r: "internal_malloc (count * sz) s = Some (r, s1)" "malloc_done (unat count * unat sz) L s r s1"
    using internal_malloc_done [OF assms(1), of "count * sz"] unfolding n by blast
  show ?thesis
  proof (cases r)
    case None
    then show ?thesis using r by (simp add: rt_calloc_def rt_malloc_def malloc_done_def)
  next
    case (Some p)
    obtain m where m: "unat count * unat sz \<le> m" "(p, m) \<notin> L" "slab_rep s1 (insert (p, m) L)" "slab_data s1 = slab_data s"
      using r(2) Some by (auto simp: malloc_done_def)
    let ?d = "filled p (unat count * unat sz) 0 (slab_data s)"
    have keep: "?d (x + i) = slab_data s (x + i)" if "(x, l) \<in> L" "i < l" for x l i
    proof -
      have "(x, l) \<noteq> (p, m)" using that(1) m(2) by auto
      from rep_disjoint [OF m(3) insertI2 [OF that(1)] insertI1 this] have "x + l \<le> p \<or> p + m \<le> x" by blast
      then show ?thesis using that(2) m(1) by (auto simp: filled_def)
    qed
    have call: "rt_calloc count sz s = Some (Some p, s1\<lparr>slab_data := ?d\<rparr>)"
      unfolding rt_calloc_def rt_malloc_def r(1) Some by (simp add: rt_memset_filled m(4) n)
    have "slab_rep (s1\<lparr>slab_data := ?d\<rparr>) (insert (p, m) L)" using m(3) by simp
    moreover have "?d (p + i) = 0" if "i < unat count * unat sz" for i using that by (simp add: filled_def)
    ultimately have "\<exists>m. unat count * unat sz \<le> m \<and> (p, m) \<notin> L \<and> slab_rep (s1\<lparr>slab_data := ?d\<rparr>) (insert (p, m) L) \<and>
        (\<forall>i < unat count * unat sz. ?d (p + i) = 0)" using m(1,2) by blast
    moreover have "\<forall>x l i. (x, l) \<in> L \<longrightarrow> i < l \<longrightarrow> ?d (x + i) = slab_data s (x + i)" using keep by blast
    ultimately show ?thesis unfolding call by (intro exI [of _ "Some p"] exI [of _ "s1\<lparr>slab_data := ?d\<rparr>"]) simp
  qed
qed

text \<open>A product that does not fit is not noticed: 536870913 objects of 8 bytes get one block of 8 bytes.\<close>

lemma rt_calloc_wraps: "rt_calloc 0x20000001 8 s = rt_calloc 1 8 s"
proof -
  have "(0x20000001 :: u32) * 8 = 1 * 8" by simp
  then show ?thesis unfolding rt_calloc_def by (simp only:)
qed

end
