(* ===== verification/RTT_Examples.thy ===== *)
theory RTT_Examples
  imports RTT_Ipc
begin

text \<open>
  A concrete kernel state on which the properties are applied: thread 0 is the idle thread,
  threads 1 and 2 share priority 10 and thread 1 runs, thread 3 of priority 5 waits on the queue
  \<open>h\<close>, on an event for one of the flags 2 and 4; in \<open>ex_state\<close> that is semaphore 0, whose value is 0.
\<close>

definition ready_thread :: "nat \<Rightarrow> rt_thread" where
  "ready_thread p = zero_thread\<lparr>tlist := Some (ReadyList p), stat := RT_THREAD_READY,
     current_priority := of_nat p, init_priority := of_nat p, number_mask := push_bit p 1,
     sp := 200, stack_addr := 100, stack_size := 200, stack_guard := 0x23,
     init_tick := 10, remaining_tick := 5\<rparr>"

definition waiting_thread :: "nat \<Rightarrow> list_head \<Rightarrow> rt_thread" where
  "waiting_thread p h = (ready_thread p)\<lparr>tlist := Some h, stat := RT_THREAD_SUSPEND,
     event_set := 6, event_info := 6\<rparr>"

definition idle_like :: rt_thread where
  "idle_like = zero_thread\<lparr>sp := 200, stack_addr := 100, stack_size := 200, stack_guard := 0x23\<rparr>"

definition ex_threads :: "list_head \<Rightarrow> tid \<Rightarrow> rt_thread" where
  "ex_threads h = (\<lambda>_. idle_like)(0 := ready_thread 31, 1 := ready_thread 10, 2 := ready_thread 10,
     3 := waiting_thread 5 h)"

definition ex_lists :: "list_head \<Rightarrow> list_head \<Rightarrow> tid list" where
  "ex_lists h = (\<lambda>_. [])(ReadyList 31 := [0], ReadyList 10 := [1, 2], h := [3])"

primrec ex_objects :: "obj \<Rightarrow> rt_object" where
  "ex_objects (OThread t) = \<lparr>obj_name = ''th'', obj_type = 0x81, obj_flag = 0\<rparr>"
| "ex_objects (OSem i) = \<lparr>obj_name = ''sem'', obj_type = 0x82, obj_flag = 0\<rparr>"
| "ex_objects (OMutex i) = \<lparr>obj_name = ''mtx'', obj_type = 0x83, obj_flag = 1\<rparr>"
| "ex_objects (OEvent i) = \<lparr>obj_name = ''evt'', obj_type = 0x84, obj_flag = 0\<rparr>"
| "ex_objects (OMailBox i) = \<lparr>obj_name = ''mb'', obj_type = 0x85, obj_flag = 0\<rparr>"
| "ex_objects (OMessageQueue i) = \<lparr>obj_name = ''mq'', obj_type = 0x86, obj_flag = 0\<rparr>"
| "ex_objects (OMemHeap i) = \<lparr>obj_name = ''hp'', obj_type = 0x87, obj_flag = 0\<rparr>"
| "ex_objects (OMemPool i) = \<lparr>obj_name = ''mp'', obj_type = 0x88, obj_flag = 0\<rparr>"
| "ex_objects (ODevice i) = \<lparr>obj_name = ''dev'', obj_type = 0x89, obj_flag = 0\<rparr>"
| "ex_objects (OTimer t) = \<lparr>obj_name = ''tm'', obj_type = 0x8a, obj_flag = 0\<rparr>"

definition ex_drivers :: rt_driver_state where
  "ex_drivers = \<lparr>mempools = (\<lambda>_. \<lparr>mp_size = 0, mp_block_size = 0, mp_block_list = None,
       block_total_count = 0, block_free_count = 0, mp_header = (\<lambda>_. FreeLink None)\<rparr>),
     memheaps = (\<lambda>_. \<lparr>pool_size = 0, available_size = 0, max_used_size = 0, block_list = None,
       free_list = FreeHeader, heap_items = (\<lambda>_. \<lparr>item_magic = 0, item_pool = None, item_next = None,
         item_prev = None, item_next_free = None, item_prev_free = None\<rparr>),
       heap_lock = 9, heap_data = (\<lambda>_. 0)\<rparr>),
     completions = (\<lambda>_. \<lparr>comp_flag = 0\<rparr>),
     wqueue_nodes = (\<lambda>n. \<lparr>polling_thread = n, wq_node_list = None, wakeup = DefaultWake, wq_key = 0\<rparr>),
     wqueues = (\<lambda>_. \<lparr>wq_flag = 0, waiting_list = []\<rparr>),
     works = (\<lambda>n. \<lparr>work_node = None, work_func = n, work_data = 0, work_flags = 0, work_type = 0,
       work_timer = Timer n, work_queue = None\<rparr>),
     workqueues = (\<lambda>_. \<lparr>work_list = [], work_current = None, work_sem = 7, work_thread = 3\<rparr>)\<rparr>"

definition ex_wait :: "list_head \<Rightarrow> kstate" where
  "ex_wait h = \<lparr>threads = ex_threads h,
     timers = (\<lambda>t. \<lparr>timeout_func = (case t of ThreadTimer u \<Rightarrow> ThreadTimeout u | Timer n \<Rightarrow> UserTimeout n),
                    tm_init_tick = 0, timeout_tick = 0\<rparr>),
     objects = ex_objects, containers = (\<lambda>_. []), thread_lists = ex_lists h,
     rt_timer_list = [], rt_soft_timer_list = [], timer_thread = 4,
     rt_current_thread = Some 1, rt_current_priority = 10,
     rt_thread_ready_priority_group = push_bit 31 1 OR push_bit 10 1, rt_tick = 1000,
     sems = (\<lambda>_. \<lparr>sem_value = 0\<rparr>),
     mutexes = (\<lambda>_. \<lparr>mutex_value = 1, original_priority = 0xff, hold = 0, owner = None\<rparr>),
     events = (\<lambda>_. \<lparr>event_bits = 0\<rparr>),
     mailboxes = (\<lambda>_. \<lparr>msg_pool = [0, 0, 0, 0], mb_size = 4, mb_entry = 0, in_offset = 0, out_offset = 0\<rparr>),
     msgqueues = (\<lambda>_. \<lparr>mq_msg_size = 4, max_msgs = 2, mq_entry = 0, mq_next = (\<lambda>_. None),
       mq_data = (\<lambda>_. []), msg_queue_head = None, msg_queue_tail = None, msg_queue_free = None\<rparr>),
     drivers = ex_drivers, rt_errno = 0\<rparr>"

definition ex_state :: kstate where
  "ex_state = ex_wait (IpcSuspend (OSem 0))"

lemma ex_wait_fields [simp]:
  "threads (ex_wait h) = ex_threads h" "thread_lists (ex_wait h) = ex_lists h"
  "rt_current_thread (ex_wait h) = Some 1" "objects (ex_wait h) = ex_objects" "rt_tick (ex_wait h) = 1000"
  by (simp_all add: ex_wait_def)

lemmas ex_thread_defs =
  ex_threads_def ready_thread_def waiting_thread_def idle_like_def zero_thread_def

lemma ex_list_ok:
  assumes "wait_head h"
  shows "list_ok (ex_wait h)"
proof -
  have "distinct (ex_lists h h')" for h' by (simp add: ex_lists_def)
  moreover have "t \<in> set (ex_lists h h') \<longleftrightarrow> tlist (ex_threads h t) = Some h'" for t h'
    using assms by (auto simp: ex_lists_def ex_thread_defs)
  ultimately show ?thesis by (simp add: list_ok_def)
qed

lemma ex_group_ok:
  assumes "wait_head h"
  shows "group_ok (ex_wait h)"
proof -
  have g: "rt_thread_ready_priority_group (ex_wait h) = (0 OR push_bit 31 1) OR push_bit 10 1"
    by (simp add: ex_wait_def)
  have "bit (rt_thread_ready_priority_group (ex_wait h)) p \<longleftrightarrow> (bit (0 :: u32) p \<or> p = 31) \<or> p = 10" for p
    unfolding g by (subst bit_group_insert, simp add: RT_THREAD_PRIORITY_MAX_def)+ rule
  moreover have "ex_lists h (ReadyList p) \<noteq> [] \<longleftrightarrow> p = 31 \<or> p = 10" for p
    using assms by (cases h) (simp_all add: ex_lists_def)
  ultimately show ?thesis by (simp add: group_ok_def)
qed

lemma ex_wf:
  "thread_wf idle_like" "p < 32 \<Longrightarrow> thread_wf (ready_thread p)"
  by (simp_all add: ready_thread_def idle_like_def zero_thread_def thread_wf_def prio_weak_def
      prio_ok_def thread_stat_defs RT_THREAD_PRIORITY_MAX_def unat_of_nat)

lemma ex_thread_wf:
  assumes "wait_head h"
  shows "thread_wf (ex_threads h t)"
proof -
  have "thread_wf (waiting_thread 5 h)"
    using wait_head_wf [OF assms, of "waiting_thread 5 h"]
    by (simp add: ex_thread_defs prio_weak_def prio_ok_def thread_stat_defs RT_THREAD_PRIORITY_MAX_def)
  moreover have "ex_threads h t \<in> {idle_like, ready_thread 31, ready_thread 10, waiting_thread 5 h}"
    by (simp add: ex_threads_def)
  ultimately show ?thesis using ex_wf by auto
qed

lemma ex_sched_inv: "wait_head h \<Longrightarrow> sched_inv (ex_wait h)"
  by (simp add: sched_inv_def ex_list_ok ex_group_ok ex_thread_wf)

lemma ex_stats:
  "thread_stat (ex_wait h) 0 = RT_THREAD_READY" "thread_stat (ex_wait h) 1 = RT_THREAD_READY"
  "thread_stat (ex_wait h) 2 = RT_THREAD_READY" "thread_stat (ex_wait h) 3 = RT_THREAD_SUSPEND"
  by (simp_all add: thread_stat_def ex_thread_defs thread_stat_defs)

lemma ex_ready: "thread_stat (ex_wait h) t = RT_THREAD_READY \<longleftrightarrow> t \<in> {0, 1, 2}"
  by (auto simp: thread_stat_def ex_thread_defs thread_stat_defs split: if_splits)

lemma ex_sys_ok:
  assumes "wait_head h"
  shows "sys_ok (ex_wait h)"
proof -
  have "rt_scheduler_stack_check (ex_threads h t) = Some ()" for t
    by (simp add: rt_scheduler_stack_check_def ex_thread_defs rt_assert_def)
  then have "stacks_ok (ex_wait h)" by (simp add: stacks_ok_def)
  then show ?thesis using ex_sched_inv [OF assms] ex_stats(1) by (auto simp: sys_ok_def)
qed

lemma ex_unlocked: "preempt_level (ex_wait h) = 0" "rt_interrupt_get_nest (ex_wait h) = 0"
  by (simp_all add: preempt_level_def rt_interrupt_get_nest_def hardirq_count_def preempt_count_def
      rt_thread_self_def ex_thread_defs)

lemma ex_typed: "thread_typed (ex_wait h) t"
  by (simp add: thread_typed_def is_thread_def is_timer_def rt_object_get_type_def obj_simps
      timer_flag_def rt_assert_def)

lemma ex_may_block:
  assumes "wait_head h"
  shows "may_block (ex_wait h) 1"
proof -
  have "\<exists>u. u \<noteq> 1 \<and> thread_stat (ex_wait h) u = RT_THREAD_READY"
    using ex_stats(1) [of h] by (intro exI [of _ 0]) simp
  then show ?thesis
    using ex_sys_ok [OF assms] ex_unlocked [of h] ex_stats(2) [of h] ex_typed [of h 1] by (simp add: may_block_def)
qed

lemma ex_head [simp]: "wait_head (IpcSuspend (OSem 0))"
  by simp

lemmas ex_state_inv = ex_sys_ok [OF ex_head, folded ex_state_def]
lemmas ex_state_fields [simp] = ex_wait_fields [where h = "IpcSuspend (OSem 0)", folded ex_state_def]
lemmas ex_state_stats = ex_stats [where h = "IpcSuspend (OSem 0)", folded ex_state_def]
lemmas ex_state_ready = ex_ready [where h = "IpcSuspend (OSem 0)", folded ex_state_def]
lemmas ex_state_unlocked = ex_unlocked [where h = "IpcSuspend (OSem 0)", folded ex_state_def]
lemmas ex_state_typed = ex_typed [where h = "IpcSuspend (OSem 0)", folded ex_state_def]
lemmas ex_state_may_block = ex_may_block [OF ex_head, folded ex_state_def]

section \<open>Witnesses\<close>

lemma rt_schedule_picks_highest_witness:
  "\<exists>s' t. rt_schedule ex_state = Some s' \<and> rt_current_thread s' = Some t \<and>
     thread_stat s' t = RT_THREAD_READY"
  using rt_schedule_picks_highest [OF ex_state_inv ex_state_unlocked] by blast

lemma rt_schedule_deferred_witness:
  "\<exists>s'. rt_schedule (rt_interrupt_enter ex_state) = Some s' \<and> rt_current_thread s' = Some 1"
proof -
  let ?s = "rt_interrupt_enter ex_state"
  have fr: "resched_frame ex_state ?s" by (simp add: rt_interrupt_enter_def)
  have "rt_current_thread ?s = Some 1"
    by (simp add: rt_interrupt_enter_def preempt_count_add_def current_update_frame)
  moreover have "rt_interrupt_get_nest ?s \<noteq> 0"
    by (simp add: rt_interrupt_enter_def preempt_count_add_def current_update_def rt_interrupt_get_nest_def
        hardirq_count_def preempt_count_def rt_thread_self_def ex_thread_defs HARDIRQ_OFFSET_def
        HARDIRQ_MASK_def)
  ultimately show ?thesis
    using rt_schedule_deferred [OF resched_frame_inv(3) [OF fr ex_state_inv]] by auto
qed

lemma rt_thread_yield_round_robin_witness:
  "\<exists>s'. rt_thread_yield ex_state = Some (RT_EOK, s') \<and> rt_current_thread s' = Some 2 \<and>
     thread_lists s' (ReadyList 10) = [2, 1]"
proof -
  have p: "unat (current_priority (threads ex_state 1)) = 10" by (simp add: ex_thread_defs)
  have "\<forall>v. thread_stat ex_state v = RT_THREAD_READY \<longrightarrow>
      current_priority (threads ex_state 1) \<le> current_priority (threads ex_state v)"
    unfolding ex_state_ready by (auto simp: ex_thread_defs)
  moreover have "thread_lists ex_state (ReadyList (unat (current_priority (threads ex_state 1)))) = 1 # 2 # []"
    unfolding p by (simp add: ex_lists_def)
  ultimately show ?thesis
    using rt_thread_yield_round_robin [OF ex_state_inv ex_state_unlocked ex_state_fields(3) ex_state_stats(2)]
    unfolding p by force
qed

lemma rt_thread_sleep_suspends_witness:
  "\<exists>s'. rt_thread_sleep 20 ex_state = Some s' \<and> thread_stat s' 1 = RT_THREAD_SUSPEND \<and>
     timeout_tick (timers s' (ThreadTimer 1)) = 1020"
  using rt_thread_sleep_suspends [OF ex_state_inv ex_state_unlocked ex_state_fields(3) ex_state_stats(2) ex_state_typed _ ex_state_stats(1),
    of 20]
  by (auto simp: RT_TICK_MAX_def)

lemma rt_thread_delay_until_overshoots_witness:
  "\<exists>s'. rt_thread_delay_until 990 50 ex_state = Some (Inr 60, s') \<and>
     timeout_tick (timers s' (ThreadTimer 1)) = 1060"
  using rt_thread_delay_until_overshoots [OF ex_state_inv ex_state_unlocked ex_state_fields(3) ex_state_stats(2) ex_state_typed _
    ex_state_stats(1), of 990 50]
  by (auto simp: RT_TICK_MAX_def)

end
