(* ===== verification/RTT_Registry.thy ===== *)
theory RTT_Registry
  imports RTT_Examples
begin

text \<open>
  The registry of kernel objects: the containers of \<^verbatim>\<open>object.c\<close> over whole runs. \<open>registry_typed\<close> says
  that every object is in at most the container of its own class. It makes the untyped pointer that
  \<^verbatim>\<open>rt_object_find\<close> returns safe to cast to the class it was asked for.
\<close>

definition registered :: "obj \<Rightarrow> kstate \<Rightarrow> bool" where
  "registered x s \<longleftrightarrow> (\<exists>c. x \<in> set (containers s c))"

definition registry_typed :: "kstate \<Rightarrow> bool" where
  "registry_typed s \<longleftrightarrow>
     (\<forall>c. distinct (containers s c)) \<and>
     (\<forall>c x. x \<in> set (containers s c) \<longrightarrow> c \<in> set rt_object_container_types \<and> rt_object_get_type x s = c)"

text \<open>The objects inside of the memory of an object: a thread contains its timer.\<close>

fun object_parts :: "obj \<Rightarrow> obj set" where
  "object_parts (OThread t) = {OThread t, OTimer (ThreadTimer t)}"
| "object_parts x = {x}"

text \<open>
  The steps of a run. Static initialisation and allocation are of memory that holds no registered
  object; between the calls of \<^verbatim>\<open>object.c\<close> the kernel changes what it likes except for the containers and
  the types of objects.
\<close>

inductive registry_step :: "kstate \<Rightarrow> kstate \<Rightarrow> bool" where
  init: "\<not> registered x s \<Longrightarrow> rt_object_init x type name s = Some s' \<Longrightarrow> registry_step s s'"
| allocate: "\<forall>y \<in> (case mem of None \<Rightarrow> {} | Some x \<Rightarrow> object_parts x). \<not> registered y s \<Longrightarrow>
    rt_object_allocate type name mem s = Some (r, s') \<Longrightarrow> registry_step s s'"
| detach: "registry_step s (rt_object_detach x s)"
| delete: "rt_object_delete x s = Some s' \<Longrightarrow> registry_step s s'"
| find: "rt_object_find nm type s = Some (r, s') \<Longrightarrow> registry_step s s'"
| other: "containers s' = containers s \<Longrightarrow> (\<And>x. rt_object_get_type x s' = rt_object_get_type x s) \<Longrightarrow>
    registry_step s s'"

section \<open>Classes\<close>

lemma find_equal: "find (\<lambda>b. b = a) l = (if a \<in> set l then Some a else None)"
  by (induction l) auto

lemma find_Some_in: "find P l = Some x \<Longrightarrow> x \<in> set l \<and> P x"
  by (induction l) (auto split: if_splits)

lemma get_information_iff:
  "rt_object_get_information c = Some k \<longleftrightarrow> k = c \<and> c \<in> set rt_object_container_types"
  by (auto simp: rt_object_get_information_def find_equal)

lemma container_class_static:
  assumes "c \<in> set rt_object_container_types"
  shows "c AND NOT RT_Object_Class_Static = c"
    "(c OR RT_Object_Class_Static) AND NOT RT_Object_Class_Static = c"
  using assms by (auto simp: rt_object_container_types_def obj_simps)

lemma registry_typedI:
  assumes "\<And>c. distinct (containers s c)"
    and "\<And>c x. x \<in> set (containers s c) \<Longrightarrow> c \<in> set rt_object_container_types \<and> rt_object_get_type x s = c"
  shows "registry_typed s"
  using assms by (simp add: registry_typed_def)

lemma registry_typedD:
  assumes "registry_typed s"
  shows "distinct (containers s c)"
    "x \<in> set (containers s c) \<Longrightarrow> c \<in> set rt_object_container_types"
    "x \<in> set (containers s c) \<Longrightarrow> rt_object_get_type x s = c"
  using assms by (auto simp: registry_typed_def)

lemma registry_typed_cong:
  assumes "containers s' = containers s" "\<And>x. registered x s \<Longrightarrow> rt_object_get_type x s' = rt_object_get_type x s"
  shows "registry_typed s' = registry_typed s"
proof -
  have "rt_object_get_type x s' = rt_object_get_type x s" if "x \<in> set (containers s c)" for x c
    using assms(2) that by (auto simp: registered_def)
  then show ?thesis using assms(1) by (auto simp: registry_typed_def)
qed

text \<open>Registering an object of class \<open>c\<close> and taking one out of the registry.\<close>

lemma registry_insert:
  assumes "registry_typed s" "\<not> registered x s" "c \<in> set rt_object_container_types"
    and "containers s' = (containers s)(c := x # containers s c)"
    and "rt_object_get_type x s' = c"
    and "\<And>y. y \<noteq> x \<Longrightarrow> registered y s \<Longrightarrow> rt_object_get_type y s' = rt_object_get_type y s"
  shows "registry_typed s'"
proof (rule registry_typedI)
  fix k
  have new: "x \<notin> set (containers s k)" for k using assms(2) by (simp add: registered_def)
  show "distinct (containers s' k)" using assms(4) new registry_typedD(1) [OF assms(1)] by simp
  fix y assume y: "y \<in> set (containers s' k)"
  show "k \<in> set rt_object_container_types \<and> rt_object_get_type y s' = k"
  proof (cases "y = x")
    case True
    then show ?thesis using y assms(3-5) new by (auto split: if_splits)
  next
    case False
    then have "y \<in> set (containers s k)" using y assms(4) by (auto split: if_splits)
    then show ?thesis
      using False assms(6) [of y] registry_typedD(2,3) [OF assms(1)] by (auto simp: registered_def)
  qed
qed

lemma registry_remove:
  assumes "registry_typed s" and "\<And>c. containers s' c = remove1 x (containers s c)"
    and "\<And>y. y \<noteq> x \<Longrightarrow> rt_object_get_type y s' = rt_object_get_type y s"
  shows "registry_typed s'"
  using assms by (intro registry_typedI) (auto simp: registry_typed_def)

section \<open>Every step keeps the types\<close>

lemma resched_registry:
  assumes "resched_frame s s'"
  shows "registry_typed s' = registry_typed s" "registered x s' = registered x s"
  using resched_frameD [OF assms] by (simp_all add: registry_typed_def registered_def rt_object_get_type_def)

lemma critical_resched:
  assumes "rt_exit_critical (rt_enter_critical s) = Some s'"
  shows "resched_frame s s'"
  using assms rt_exit_critical_frame rt_enter_critical_frame resched_frame_trans by blast

lemma rt_object_init_typed:
  assumes ty: "registry_typed s" and new: "\<not> registered x s" and i: "rt_object_init x type name s = Some s'"
  shows "registry_typed s'"
proof -
  from i obtain s1 where s1: "rt_exit_critical (rt_enter_critical s) = Some s1"
    and c: "type \<in> set rt_object_container_types"
    and s': "s' = (object_update x (\<lambda>ob. ob\<lparr>obj_type := type OR RT_Object_Class_Static,
        obj_name := take RT_NAME_MAX name\<rparr>) s1)\<lparr>containers := (containers s1)(type := x # containers s1 type)\<rparr>"
    by (auto simp: rt_object_init_def bind_Some_iff object_update_def Let_def get_information_iff)
  note r = resched_registry [OF critical_resched [OF s1]]
  show ?thesis
    by (rule registry_insert [where s = s1 and x = x and c = type])
      (use ty new c r s' in \<open>auto simp: object_update_def rt_object_get_type_def container_class_static\<close>)
qed

lemma memory_clear_registry:
  "containers (memory_clear x s) = containers s"
  "y \<notin> object_parts x \<Longrightarrow> objects (memory_clear x s) y = objects s y"
  by (cases x; auto simp: memory_clear_def object_update_def timer_update_def thread_update_def)+

lemma rt_object_allocate_typed:
  assumes ty: "registry_typed s"
    and new: "\<forall>y \<in> (case mem of None \<Rightarrow> {} | Some x \<Rightarrow> object_parts x). \<not> registered y s"
    and a: "rt_object_allocate type name mem s = Some (r, s')"
  shows "registry_typed s'"
proof (cases mem)
  case None
  then show ?thesis using a ty by (auto simp: rt_object_allocate_def bind_Some_iff)
next
  case (Some x)
  from a have c: "type \<in> set rt_object_container_types"
    and s': "s' = (object_update x (\<lambda>_. \<lparr>obj_name = take RT_NAME_MAX name, obj_type = type, obj_flag = 0\<rparr>)
      (memory_clear x s))\<lparr>containers := (containers s)(type := x # containers s type)\<rparr>"
    by (auto simp: rt_object_allocate_def bind_Some_iff Some Let_def get_information_iff object_update_def
        memory_clear_registry)
  have new': "\<not> registered y s" if "y \<in> object_parts x" for y using new that by (simp add: Some)
  have part: "x \<in> object_parts x" by (cases x) simp_all
  show ?thesis
  proof (rule registry_insert [OF ty new' [OF part] c])
    fix y assume y: "y \<noteq> x" "registered y s"
    then have "y \<notin> object_parts x" using new' by blast
    then have "objects (memory_clear x s) y = objects s y" by (rule memory_clear_registry(2))
    then show "rt_object_get_type y s' = rt_object_get_type y s"
      using y(1) by (simp add: s' object_update_def rt_object_get_type_def)
  qed (simp_all add: s' object_update_def rt_object_get_type_def container_class_static c)
qed

lemma rt_object_find_frame:
  assumes "rt_object_find nm type s = Some (r, s')"
  shows "resched_frame s s'"
  using assms critical_resched
  by (fastforce simp: rt_object_find_def bind_Some_iff Let_def split: option.splits if_splits)

lemma registry_step_typed:
  assumes "registry_step s s'" "registry_typed s"
  shows "registry_typed s'"
  using assms
proof cases
  case init
  then show ?thesis using assms(2) by (blast intro: rt_object_init_typed)
next
  case allocate
  then show ?thesis using assms(2) by (blast intro: rt_object_allocate_typed)
next
  case (detach x)
  have "(a AND NOT b) AND NOT b = a AND NOT b" for a b :: u8 by (simp add: and.assoc)
  then show ?thesis
    by (intro registry_remove [OF assms(2), of _ x])
      (auto simp: detach rt_object_detach_def container_remove_def object_update_def rt_object_get_type_def)
next
  case (delete x)
  then show ?thesis
    by (intro registry_remove [OF assms(2), of _ x])
      (auto simp: rt_object_delete_def bind_Some_iff container_remove_def object_update_def rt_object_get_type_def)
next
  case find
  then show ?thesis using resched_registry(1) [OF rt_object_find_frame] assms(2) by blast
next
  case other
  then show ?thesis using registry_typed_cong [of s' s] assms(2) by blast
qed

lemma registry_steps_typed: "registry_step\<^sup>*\<^sup>* s s' \<Longrightarrow> registry_typed s \<Longrightarrow> registry_typed s'"
  by (induction rule: rtranclp_induct) (auto intro: registry_step_typed)

text \<open>The lookup, once it returns.\<close>

lemma rt_object_find_cases:
  assumes "rt_object_find (Some nm) type s = Some (r, s')" "registry_typed s"
  shows "r = find (\<lambda>x. take RT_NAME_MAX (obj_name (objects s x)) = take RT_NAME_MAX nm) (containers s type)"
    and "objects s' = objects s" "containers s' = containers s"
proof -
  have fr: "resched_frame s s'" using rt_object_find_frame assms(1) by blast
  show "objects s' = objects s" "containers s' = containers s" using resched_frameD [OF fr] by simp_all
  have "containers s type = []" if "type > RT_Object_Class_Unknown"
  proof (rule ccontr)
    assume "containers s type \<noteq> []"
    then have "type \<in> set rt_object_container_types"
      using registry_typedD(2) [OF assms(2)] by (meson list.set_intros(1) neq_Nil_conv hd_in_set)
    then show False using that by (auto simp: rt_object_container_types_def obj_simps)
  qed
  moreover have "objects (rt_enter_critical s) = objects s" "containers (rt_enter_critical s) = containers s"
    using resched_frameD [OF rt_enter_critical_frame] by simp_all
  ultimately show "r = find (\<lambda>x. take RT_NAME_MAX (obj_name (objects s x)) = take RT_NAME_MAX nm) (containers s type)"
    using assms(1) by (auto simp: rt_object_find_def bind_Some_iff Let_def get_information_iff split: if_splits)
qed

text \<open>
  C10: However the kernel initialises, allocates, detaches, deletes and looks up objects, from a typed
  registry on the registry stays typed: each object is registered once, in the container of its own
  class. So whatever \<^verbatim>\<open>rt_object_find\<close> returns for a class is a registered object of that class with the
  name, compared over 32 characters, and it returns nothing only if no object of the class has the name.
\<close>

theorem rt_object_find_well_typed:
  assumes "registry_typed s" "registry_step\<^sup>*\<^sup>* s s'"
    and "rt_object_find (Some nm) type s' = Some (r, s'')"
  shows "registry_typed s'' \<and>
    (case r of
       Some x \<Rightarrow> rt_object_get_type x s'' = type \<and> x \<in> set (containers s'' type) \<and>
         take RT_NAME_MAX (obj_name (objects s'' x)) = take RT_NAME_MAX nm
     | None \<Rightarrow> \<forall>c x. x \<in> set (containers s'' c) \<longrightarrow> rt_object_get_type x s'' = type \<longrightarrow>
         take RT_NAME_MAX (obj_name (objects s'' x)) \<noteq> take RT_NAME_MAX nm)"
proof -
  have ty: "registry_typed s'" using registry_steps_typed [OF assms(2,1)] .
  have ty': "registry_typed s''"
    using resched_registry(1) [OF rt_object_find_frame [OF assms(3)]] ty by simp
  note r = rt_object_find_cases [OF assms(3) ty]
  show ?thesis
  proof (cases r)
    case None
    then have n: "\<forall>x. x \<in> set (containers s' type) \<longrightarrow> take RT_NAME_MAX (obj_name (objects s' x)) \<noteq> take RT_NAME_MAX nm"
    proof -
      have "find (\<lambda>x. take RT_NAME_MAX (obj_name (objects s' x)) = take RT_NAME_MAX nm) (containers s' type) = None"
        using None unfolding r(1) .
      then show ?thesis unfolding find_None_iff by blast
    qed
    have "take RT_NAME_MAX (obj_name (objects s'' x)) \<noteq> take RT_NAME_MAX nm"
      if "x \<in> set (containers s'' c)" "rt_object_get_type x s'' = type" for c x
    proof -
      have "c = type" using registry_typedD(3) [OF ty' that(1)] that(2) by simp
      then show ?thesis using n that(1) r(2,3) by simp
    qed
    then show ?thesis using None ty' by simp
  next
    case (Some x)
    then have "x \<in> set (containers s'' type)"
      "take RT_NAME_MAX (obj_name (objects s'' x)) = take RT_NAME_MAX nm"
      using r find_Some_in [of "\<lambda>x. take RT_NAME_MAX (obj_name (objects s' x)) = take RT_NAME_MAX nm"
          "containers s' type" x] by simp_all
    then show ?thesis using Some ty' registry_typedD(3) [OF ty'] by simp
  qed
qed

lemma rt_object_find_total:
  assumes "sys_ok s" "RT_DEBUG_NOT_IN_INTERRUPT s = Some ()" "type \<in> set rt_object_container_types"
  obtains r s' where "rt_object_find (Some nm) type s = Some (r, s')"
proof -
  have ok: "sys_ok (rt_enter_critical s)" by (rule resched_frame_inv(3) [OF rt_enter_critical_frame assms(1)])
  obtain s' where "rt_exit_critical (rt_enter_critical s) = Some s'" by (rule rt_exit_critical_total [OF ok])
  moreover have "rt_object_get_information type = Some type" using assms(3) by (simp add: get_information_iff)
  moreover have "\<not> type > RT_Object_Class_Unknown"
    using assms(3) by (auto simp: rt_object_container_types_def obj_simps)
  ultimately show thesis using that assms(2) by (auto simp: rt_object_find_def Let_def)
qed

text \<open>Two semaphores of the same name: the lookup finds the older one once the newer one is detached.\<close>

lemma rt_object_find_well_typed_witness:
  "\<exists>s''. rt_object_find (Some ''sem'') RT_Object_Class_Semaphore
       (rt_object_detach (OSem 5) (ex_state\<lparr>containers := (\<lambda>_. [])(RT_Object_Class_Semaphore := [OSem 5, OSem 0])\<rparr>))
     = Some (Some (OSem 0), s'') \<and> rt_object_get_type (OSem 0) s'' = RT_Object_Class_Semaphore"
proof -
  let ?a = "ex_state\<lparr>containers := (\<lambda>_. [])(RT_Object_Class_Semaphore := [OSem 5, OSem 0])\<rparr>"
  let ?s = "rt_object_detach (OSem 5) ?a"
  have ty: "registry_typed ?a"
    by (rule registry_typedI)
      (auto simp: rt_object_get_type_def ex_state_def ex_wait_def rt_object_container_types_def obj_simps split: if_splits)
  have st: "registry_step\<^sup>*\<^sup>* ?a ?s" by (rule r_into_rtranclp, rule registry_step.detach)
  have c: "containers ?s = (\<lambda>_. [])(RT_Object_Class_Semaphore := [OSem 0])"
    by (auto simp: rt_object_detach_def container_remove_def object_update_def)
  have ok: "sys_ok ?s"
    using ex_state_inv by (simp add: rt_object_detach_def container_remove_def object_update_def sys_ok_def
        stacks_ok_def thread_stat_def rt_scheduler_stack_check_def)
  have irq: "RT_DEBUG_NOT_IN_INTERRUPT ?s = Some ()"
    using ex_state_unlocked(2) by (simp add: RT_DEBUG_NOT_IN_INTERRUPT_def rt_object_detach_def container_remove_def
        object_update_def rt_interrupt_get_nest_def hardirq_count_def preempt_count_def rt_thread_self_def)
  have sem: "RT_Object_Class_Semaphore \<in> set rt_object_container_types" by (simp add: rt_object_container_types_def)
  obtain r s'' where f: "rt_object_find (Some ''sem'') RT_Object_Class_Semaphore ?s = Some (r, s'')"
    by (rule rt_object_find_total [OF ok irq sem])
  note g = rt_object_find_well_typed [OF ty st f]
  have fr: "resched_frame ?s s''" by (rule rt_object_find_frame [OF f])
  have k: "containers s'' = containers ?s" "objects s'' = objects ?s" using resched_frameD [OF fr] by simp_all
  have n: "obj_name (objects ?s (OSem 0)) = ''sem''"
    by (simp add: rt_object_detach_def container_remove_def object_update_def)
  have t: "rt_object_get_type (OSem 0) s'' = RT_Object_Class_Semaphore"
    by (simp add: rt_object_get_type_def k rt_object_detach_def container_remove_def object_update_def obj_simps)
  have m: "OSem 0 \<in> set (containers s'' RT_Object_Class_Semaphore)" unfolding k(1) c by simp
  have "r = Some (OSem 0)"
  proof (cases r)
    case None
    then have "take RT_NAME_MAX (obj_name (objects s'' (OSem 0))) \<noteq> take RT_NAME_MAX ''sem''"
      using g m t by auto
    then show ?thesis unfolding k(2) n by blast
  next
    case (Some x)
    then have "x \<in> set (containers s'' RT_Object_Class_Semaphore)" using g by simp
    then show ?thesis using Some unfolding k(1) c by simp
  qed
  with f t show ?thesis by blast
qed

end
