(* ===== verification/RTT_Device.thy ===== *)
theory RTT_Device
  imports RTT_Registry RTT_WaitQueue
begin

text \<open>
  Devices (\<^verbatim>\<open>device.c\<close>): a registry of drivers behind one interface, with a reference count for opens.
  A driver is six function pointers in the device. What the functions do is the parameter \<open>drv\<close>, which
  takes the address of the function; \<open>'p\<close> is the memory of the drivers, and \<open>'k\<close> are the local variables
  of a driver function that blocks. A call of the device layer whose driver blocks returns \<open>Blocked\<close>;
  the rest of its body runs with the driver's result when the driver returns at last.
\<close>

record rt_device =
  dev_type :: int
  dev_flag :: u16
  open_flag :: u16
  ref_count :: u8
  rx_indicate :: "nat option"
  tx_complete :: "nat option"
  init_fn :: "nat option"
  open_fn :: "nat option"
  close_fn :: "nat option"
  read_fn :: "nat option"
  write_fn :: "nat option"
  control_fn :: "nat option"
  fops :: "nat option"
  wait_queue :: nat

record 'p world =
  kernel :: kstate
  devices :: "nat \<Rightarrow> rt_device"
  privates :: 'p

record ('p, 'k) driver_code =
  code_init :: "nat \<Rightarrow> nat \<Rightarrow> 'p world \<Rightarrow> ((rt_err_t, 'k) outcome \<times> 'p world) option"
  code_open :: "nat \<Rightarrow> nat \<Rightarrow> u16 \<Rightarrow> 'p world \<Rightarrow> ((rt_err_t, 'k) outcome \<times> 'p world) option"
  code_close :: "nat \<Rightarrow> nat \<Rightarrow> 'p world \<Rightarrow> ((rt_err_t, 'k) outcome \<times> 'p world) option"
  code_read :: "nat \<Rightarrow> nat \<Rightarrow> u32 \<Rightarrow> u8 list \<Rightarrow> u32 \<Rightarrow> 'p world \<Rightarrow> ((u32 \<times> u8 list, 'k) outcome \<times> 'p world) option"
  code_write :: "nat \<Rightarrow> nat \<Rightarrow> u32 \<Rightarrow> u8 list \<Rightarrow> u32 \<Rightarrow> 'p world \<Rightarrow> ((u32, 'k) outcome \<times> 'p world) option"
  code_control :: "nat \<Rightarrow> nat \<Rightarrow> int \<Rightarrow> nat \<Rightarrow> 'p world \<Rightarrow> ((rt_err_t, 'k) outcome \<times> 'p world) option"

definition RT_DEVICE_FLAG_RDWR :: u16 where "RT_DEVICE_FLAG_RDWR = 0x003"
definition RT_DEVICE_FLAG_REMOVABLE :: u16 where "RT_DEVICE_FLAG_REMOVABLE = 0x004"
definition RT_DEVICE_FLAG_STANDALONE :: u16 where "RT_DEVICE_FLAG_STANDALONE = 0x008"
definition RT_DEVICE_FLAG_ACTIVATED :: u16 where "RT_DEVICE_FLAG_ACTIVATED = 0x010"
definition RT_DEVICE_OFLAG_CLOSE :: u16 where "RT_DEVICE_OFLAG_CLOSE = 0x000"
definition RT_DEVICE_OFLAG_OPEN :: u16 where "RT_DEVICE_OFLAG_OPEN = 0x008"
definition RT_DEVICE_OFLAG_MASK :: u16 where "RT_DEVICE_OFLAG_MASK = 0xf0f"

named_theorems dev_simps \<open>values of the device flags\<close>

lemmas dev_flag_defs [dev_simps] =
  RT_DEVICE_FLAG_RDWR_def RT_DEVICE_FLAG_REMOVABLE_def RT_DEVICE_FLAG_STANDALONE_def
  RT_DEVICE_FLAG_ACTIVATED_def RT_DEVICE_OFLAG_CLOSE_def RT_DEVICE_OFLAG_OPEN_def RT_DEVICE_OFLAG_MASK_def

abbreviation dev :: "nat \<Rightarrow> 'p world \<Rightarrow> rt_device" where
  "dev d w \<equiv> devices w d"

definition dev_update :: "nat \<Rightarrow> (rt_device \<Rightarrow> rt_device) \<Rightarrow> 'p world \<Rightarrow> 'p world" where
  "dev_update d f w = w\<lparr>devices := (devices w)(d := f (devices w d))\<rparr>"

definition is_device :: "nat \<Rightarrow> 'p world \<Rightarrow> unit option" where
  "is_device d w = rt_assert (rt_object_get_type (ODevice d) (kernel w) = RT_Object_Class_Device)"

section \<open>Registration\<close>

definition rt_device_find :: "string \<Rightarrow> kstate \<Rightarrow> (obj option \<times> kstate) option" where
  "rt_device_find name s = do {
     let s = (if rt_thread_self s \<noteq> None then rt_enter_critical s else s);
     information \<leftarrow> rt_object_get_information RT_Object_Class_Device;
     let found = find (\<lambda>x. take RT_NAME_MAX (obj_name (objects s x)) = take RT_NAME_MAX name)
                   (containers s information);
     s \<leftarrow> (if rt_thread_self s \<noteq> None then rt_exit_critical s else Some s);
     Some (found, s) }"

definition rt_device_register :: "nat option \<Rightarrow> string \<Rightarrow> u16 \<Rightarrow> 'p world \<Rightarrow> (rt_err_t \<times> 'p world) option" where
  "rt_device_register device name flags w =
     (case device of
        None \<Rightarrow> Some (- RT_ERROR, w)
      | Some d \<Rightarrow> do {
          (found, k) \<leftarrow> rt_device_find name (kernel w);
          if found \<noteq> None then Some (- RT_ERROR, w\<lparr>kernel := k\<rparr>)
          else do {
            k \<leftarrow> rt_object_init (ODevice d) RT_Object_Class_Device name k;
            let w = dev_update d (\<lambda>v. v\<lparr>dev_flag := flags, ref_count := 0, open_flag := 0, fops := None\<rparr>) w;
            Some (RT_EOK, w\<lparr>kernel := rt_wqueue_init (wait_queue (devices w d)) k\<rparr>) } })"

definition rt_device_unregister :: "nat \<Rightarrow> 'p world \<Rightarrow> (rt_err_t \<times> 'p world) option" where
  "rt_device_unregister d w = do {
     is_device d w;
     rt_assert (rt_object_is_systemobject (ODevice d) (kernel w));
     Some (RT_EOK, w\<lparr>kernel := rt_object_detach (ODevice d) (kernel w)\<rparr>) }"

definition rt_device_init_all :: rt_err_t where
  "rt_device_init_all = RT_EOK"

definition zero_device :: "nat \<Rightarrow> rt_device" where
  "zero_device q = \<lparr>dev_type = 0, dev_flag = 0, open_flag = 0, ref_count = 0, rx_indicate = None,
     tx_complete = None, init_fn = None, open_fn = None, close_fn = None, read_fn = None, write_fn = None,
     control_fn = None, fops = None, wait_queue = q\<rparr>"

text \<open>
  \<^verbatim>\<open>sizeof(struct rt_device)\<close> is the argument \<open>sizeof\<close>; \<open>malloc\<close> answers \<^verbatim>\<open>rt_malloc\<close>, with the device that
  lies in the block and its wait queue.
\<close>

definition rt_device_create ::
  "u32 \<Rightarrow> (u32 \<Rightarrow> (nat \<times> nat) option) \<Rightarrow> int \<Rightarrow> u32 \<Rightarrow> 'p world \<Rightarrow> nat option \<times> 'p world" where
  "rt_device_create sizeof malloc type attach_size w =
     (let sz = RT_ALIGN sizeof RT_ALIGN_SIZE;
          attach_size = RT_ALIGN attach_size RT_ALIGN_SIZE;
          sz = sz + attach_size
      in case malloc sz of
           None \<Rightarrow> (None, w)
         | Some (d, q) \<Rightarrow>
             (Some d, dev_update d (\<lambda>_. (zero_device q)\<lparr>dev_type := type\<rparr>)
                (w\<lparr>kernel := object_update (ODevice d) (\<lambda>_. zero_object) (kernel w)\<rparr>)))"

text \<open>The block that \<^verbatim>\<open>rt_free\<close> takes back is the second component of the result.\<close>

definition rt_device_destroy :: "nat \<Rightarrow> 'p world \<Rightarrow> (nat \<times> 'p world) option" where
  "rt_device_destroy d w = do {
     is_device d w;
     rt_assert (\<not> rt_object_is_systemobject (ODevice d) (kernel w));
     Some (d, w\<lparr>kernel := rt_object_detach (ODevice d) (kernel w)\<rparr>) }"

section \<open>Initialisation, opening and closing\<close>

definition activate :: "rt_device \<Rightarrow> rt_device" where
  "activate v = v\<lparr>dev_flag := dev_flag v OR RT_DEVICE_FLAG_ACTIVATED\<rparr>"

definition device_init_done :: "nat \<Rightarrow> rt_err_t \<Rightarrow> 'p world \<Rightarrow> rt_err_t \<times> 'p world" where
  "device_init_done d result w =
     (if result \<noteq> RT_EOK then (result, w) else (result, dev_update d activate w))"

definition rt_device_init ::
  "('p, 'k) driver_code \<Rightarrow> nat \<Rightarrow> 'p world \<Rightarrow> ((rt_err_t, 'k) outcome \<times> 'p world) option" where
  "rt_device_init drv d w =
     (case init_fn (dev d w) of
        None \<Rightarrow> Some (Returned RT_EOK, w)
      | Some f \<Rightarrow>
          if dev_flag (dev d w) AND RT_DEVICE_FLAG_ACTIVATED = 0 then do {
            (r, w) \<leftarrow> code_init drv f d w;
            (case r of
               Returned result \<Rightarrow> (let (result, w) = device_init_done d result w in Some (Returned result, w))
             | Blocked k \<Rightarrow> Some (Blocked k, w)) }
          else Some (Returned RT_EOK, w))"

text \<open>
  \<^verbatim>\<open>rt_device_open\<close> calls two functions of the driver. \<open>open_done\<close> is the body behind the call of
  \<^verbatim>\<open>device_open\<close>, \<open>open_activated\<close> the body behind the activation.
\<close>

datatype 'k open_at = AtInit 'k | AtOpen 'k

definition open_done :: "nat \<Rightarrow> rt_err_t \<Rightarrow> 'p world \<Rightarrow> ((rt_err_t, 'k) outcome \<times> 'p world) option" where
  "open_done d result w =
     (if result = RT_EOK \<or> result = - RT_ENOSYS then do {
        let w = dev_update d (\<lambda>v. v\<lparr>open_flag := open_flag v OR RT_DEVICE_OFLAG_OPEN, ref_count := ref_count v + 1\<rparr>) w;
        rt_assert (ref_count (dev d w) \<noteq> 0);
        Some (Returned result, w) }
      else Some (Returned result, w))"

definition open_activated ::
  "('p, 'k) driver_code \<Rightarrow> nat \<Rightarrow> u16 \<Rightarrow> 'p world \<Rightarrow> ((rt_err_t, 'k open_at) outcome \<times> 'p world) option" where
  "open_activated drv d oflag w =
     (if dev_flag (dev d w) AND RT_DEVICE_FLAG_STANDALONE \<noteq> 0 \<and> open_flag (dev d w) AND RT_DEVICE_OFLAG_OPEN \<noteq> 0
      then Some (Returned (- RT_EBUSY), w)
      else case open_fn (dev d w) of
             Some f \<Rightarrow> do {
               (r, w) \<leftarrow> code_open drv f d oflag w;
               (case r of
                  Returned result \<Rightarrow> open_done d result w
                | Blocked k \<Rightarrow> Some (Blocked (AtOpen k), w)) }
           | None \<Rightarrow>
               open_done d RT_EOK (dev_update d (\<lambda>v. v\<lparr>open_flag := oflag AND RT_DEVICE_OFLAG_MASK\<rparr>) w))"

definition open_inited ::
  "('p, 'k) driver_code \<Rightarrow> nat \<Rightarrow> u16 \<Rightarrow> rt_err_t \<Rightarrow> 'p world \<Rightarrow> ((rt_err_t, 'k open_at) outcome \<times> 'p world) option" where
  "open_inited drv d oflag result w =
     (if result \<noteq> RT_EOK then Some (Returned result, w)
      else open_activated drv d oflag (dev_update d activate w))"

definition rt_device_open ::
  "('p, 'k) driver_code \<Rightarrow> nat \<Rightarrow> u16 \<Rightarrow> 'p world \<Rightarrow> ((rt_err_t, 'k open_at) outcome \<times> 'p world) option" where
  "rt_device_open drv d oflag w = do {
     is_device d w;
     if dev_flag (dev d w) AND RT_DEVICE_FLAG_ACTIVATED = 0
     then case init_fn (dev d w) of
            Some f \<Rightarrow> do {
              (r, w) \<leftarrow> code_init drv f d w;
              (case r of
                 Returned result \<Rightarrow> open_inited drv d oflag result w
               | Blocked k \<Rightarrow> Some (Blocked (AtInit k), w)) }
          | None \<Rightarrow> open_inited drv d oflag RT_EOK w
     else open_activated drv d oflag w }"

definition rt_device_open_wake ::
  "('p, 'k) driver_code \<Rightarrow> nat \<Rightarrow> u16 \<Rightarrow> 'k open_at \<Rightarrow> rt_err_t \<Rightarrow> 'p world \<Rightarrow>
     ((rt_err_t, 'k open_at) outcome \<times> 'p world) option" where
  "rt_device_open_wake drv d oflag at result w =
     (case at of
        AtInit _ \<Rightarrow> open_inited drv d oflag result w
      | AtOpen _ \<Rightarrow> open_done d result w)"

definition close_done :: "nat \<Rightarrow> rt_err_t \<Rightarrow> 'p world \<Rightarrow> rt_err_t \<times> 'p world" where
  "close_done d result w =
     (let w = (if result = RT_EOK \<or> result = - RT_ENOSYS
               then dev_update d (\<lambda>v. v\<lparr>open_flag := RT_DEVICE_OFLAG_CLOSE\<rparr>) w else w)
      in (result, dev_update d (\<lambda>v. v\<lparr>dev_flag := dev_flag v AND NOT RT_DEVICE_FLAG_ACTIVATED\<rparr>) w))"

definition rt_device_close ::
  "('p, 'k) driver_code \<Rightarrow> nat \<Rightarrow> 'p world \<Rightarrow> ((rt_err_t, 'k) outcome \<times> 'p world) option" where
  "rt_device_close drv d w = do {
     is_device d w;
     if ref_count (dev d w) = 0 then Some (Returned (- RT_ERROR), w)
     else do {
       let w = dev_update d (\<lambda>v. v\<lparr>ref_count := ref_count v - 1\<rparr>) w;
       if ref_count (dev d w) \<noteq> 0 then Some (Returned RT_EOK, w)
       else case close_fn (dev d w) of
              Some f \<Rightarrow> do {
                (r, w) \<leftarrow> code_close drv f d w;
                (case r of
                   Returned result \<Rightarrow> (let (result, w) = close_done d result w in Some (Returned result, w))
                 | Blocked k \<Rightarrow> Some (Blocked k, w)) }
            | None \<Rightarrow> (let (result, w) = close_done d RT_EOK w in Some (Returned result, w)) } }"

definition rt_device_close_wake :: "nat \<Rightarrow> rt_err_t \<Rightarrow> 'p world \<Rightarrow> rt_err_t \<times> 'p world" where
  "rt_device_close_wake d result w = close_done d result w"

section \<open>Reading, writing and control\<close>

definition rt_device_read ::
  "('p, 'k) driver_code \<Rightarrow> nat \<Rightarrow> u32 \<Rightarrow> u8 list \<Rightarrow> u32 \<Rightarrow> 'p world \<Rightarrow>
     ((u32 \<times> u8 list, 'k) outcome \<times> 'p world) option" where
  "rt_device_read drv d pos buffer sz w = do {
     is_device d w;
     if ref_count (dev d w) = 0
     then Some (Returned (0, buffer), w\<lparr>kernel := rt_set_errno (- RT_ERROR) (kernel w)\<rparr>)
     else case read_fn (dev d w) of
            Some f \<Rightarrow> code_read drv f d pos buffer sz w
          | None \<Rightarrow> Some (Returned (0, buffer), w\<lparr>kernel := rt_set_errno (- RT_ENOSYS) (kernel w)\<rparr>) }"

definition rt_device_write ::
  "('p, 'k) driver_code \<Rightarrow> nat \<Rightarrow> u32 \<Rightarrow> u8 list \<Rightarrow> u32 \<Rightarrow> 'p world \<Rightarrow>
     ((u32, 'k) outcome \<times> 'p world) option" where
  "rt_device_write drv d pos buffer sz w = do {
     is_device d w;
     if ref_count (dev d w) = 0
     then Some (Returned 0, w\<lparr>kernel := rt_set_errno (- RT_ERROR) (kernel w)\<rparr>)
     else case write_fn (dev d w) of
            Some f \<Rightarrow> code_write drv f d pos buffer sz w
          | None \<Rightarrow> Some (Returned 0, w\<lparr>kernel := rt_set_errno (- RT_ENOSYS) (kernel w)\<rparr>) }"

definition rt_device_control ::
  "('p, 'k) driver_code \<Rightarrow> nat \<Rightarrow> int \<Rightarrow> nat \<Rightarrow> 'p world \<Rightarrow> ((rt_err_t, 'k) outcome \<times> 'p world) option" where
  "rt_device_control drv d cmd arg w = do {
     is_device d w;
     (case control_fn (dev d w) of
        Some f \<Rightarrow> code_control drv f d cmd arg w
      | None \<Rightarrow> Some (Returned (- RT_ENOSYS), w)) }"

definition rt_device_set_rx_indicate :: "nat \<Rightarrow> nat option \<Rightarrow> 'p world \<Rightarrow> (rt_err_t \<times> 'p world) option" where
  "rt_device_set_rx_indicate d rx_ind w = do {
     is_device d w;
     Some (RT_EOK, dev_update d (\<lambda>v. v\<lparr>rx_indicate := rx_ind\<rparr>) w) }"

definition rt_device_set_tx_complete :: "nat \<Rightarrow> nat option \<Rightarrow> 'p world \<Rightarrow> (rt_err_t \<times> 'p world) option" where
  "rt_device_set_tx_complete d tx_done w = do {
     is_device d w;
     Some (RT_EOK, dev_update d (\<lambda>v. v\<lparr>tx_complete := tx_done\<rparr>) w) }"

section \<open>Registration and lookup\<close>

lemma dev_update_fields [simp]:
  "devices (dev_update d f w) = (devices w)(d := f (devices w d))"
  "kernel (dev_update d f w) = kernel w" "privates (dev_update d f w) = privates w"
  by (simp_all add: dev_update_def)

lemma device_class [simp]: "rt_object_get_information RT_Object_Class_Device = Some RT_Object_Class_Device"
  by (simp add: get_information_iff rt_object_container_types_def)

definition device_named :: "string \<Rightarrow> kstate \<Rightarrow> obj option" where
  "device_named name s = find (\<lambda>x. take RT_NAME_MAX (obj_name (objects s x)) = take RT_NAME_MAX name)
     (containers s RT_Object_Class_Device)"

lemma rt_device_find_cases:
  assumes "rt_device_find name s = Some (r, s')"
  shows "resched_frame s s'" "r = device_named name s"
proof -
  let ?s1 = "if rt_thread_self s \<noteq> None then rt_enter_critical s else s"
  have fr: "resched_frame s ?s1" by simp
  from assms have "(if rt_thread_self ?s1 \<noteq> None then rt_exit_critical ?s1 else Some ?s1) = Some s'"
    and r: "r = device_named name ?s1"
    by (simp_all add: rt_device_find_def Let_def bind_Some_iff device_named_def del: not_None_eq)
  then have "resched_frame ?s1 s'" by (auto dest: rt_exit_critical_frame split: if_splits)
  with fr show "resched_frame s s'" by (rule resched_frame_trans)
  show "r = device_named name s" unfolding r device_named_def resched_frameD(4,5) [OF fr] ..
qed

lemma rt_device_find_total:
  assumes "sys_ok s"
  obtains s' where "rt_device_find name s = Some (device_named name s, s')" "resched_frame s s'" "sys_ok s'"
proof -
  let ?s1 = "if rt_thread_self s \<noteq> None then rt_enter_critical s else s"
  have fr: "resched_frame s ?s1" by simp
  have ok: "sys_ok ?s1" by (rule resched_frame_inv(3) [OF fr assms])
  obtain s' where "rt_exit_critical ?s1 = Some s'" by (rule rt_exit_critical_total [OF ok])
  then have "\<exists>r s'. rt_device_find name s = Some (r, s')"
    by (auto simp: rt_device_find_def Let_def)
  then obtain r s' where f: "rt_device_find name s = Some (r, s')" by blast
  note c = rt_device_find_cases [OF f]
  show thesis by (rule that [OF _ c(1) resched_frame_inv(3) [OF c(1) assms]]) (simp add: f c(2))
qed

text \<open>
  \<^verbatim>\<open>rt_device_register\<close> refuses a name that is in use and otherwise leaves a closed device that
  \<^verbatim>\<open>rt_device_find\<close> finds by its name.
\<close>

theorem rt_device_register_result:
  assumes ok: "sys_ok (kernel w)" and new: "ODevice d \<notin> set (containers (kernel w) RT_Object_Class_Device)"
  shows "if device_named name (kernel w) \<noteq> None
    then \<exists>w'. rt_device_register (Some d) name flags w = Some (- RT_ERROR, w') \<and> devices w' = devices w \<and>
      containers (kernel w') = containers (kernel w)
    else \<exists>w'. rt_device_register (Some d) name flags w = Some (RT_EOK, w') \<and> is_device d w' = Some () \<and>
      devices w' = (devices w)(d := (dev d w)\<lparr>dev_flag := flags, ref_count := 0, open_flag := 0, fops := None\<rparr>) \<and>
      device_named name (kernel w') = Some (ODevice d) \<and> sys_ok (kernel w')"
proof -
  obtain k where k: "rt_device_find name (kernel w) = Some (device_named name (kernel w), k)"
    "resched_frame (kernel w) k" "sys_ok k"
    by (rule rt_device_find_total [OF ok])
  have new': "ODevice d \<notin> set (containers k RT_Object_Class_Device)" using new resched_frameD(5) [OF k(2)] by simp
  obtain k2 where k2: "rt_object_init (ODevice d) RT_Object_Class_Device name k = Some k2" "sys_ok k2"
    "objects k2 = (objects k)(ODevice d := (objects k (ODevice d))\<lparr>
       obj_type := RT_Object_Class_Device OR RT_Object_Class_Static, obj_name := take RT_NAME_MAX name\<rparr>)"
    "containers k2 = (containers k)(RT_Object_Class_Device := ODevice d # containers k RT_Object_Class_Device)"
    by (rule rt_object_init_total [OF k(3) device_class new', where name = name]) blast
  have ty: "(RT_Object_Class_Device OR RT_Object_Class_Static) AND NOT RT_Object_Class_Static = RT_Object_Class_Device"
    by (simp add: obj_simps)
  show ?thesis
  proof (cases "device_named name (kernel w)")
    case None
    let ?q = "wait_queue (dev d w)"
    have "sys_ok (rt_wqueue_init ?q k2)"
      unfolding rt_wqueue_init_def by (simp add: same_sched_ok(1) [OF same_sched_steps(1)] k2(2))
    then show ?thesis
      using None k(1) k2 ty
      by (simp add: rt_device_register_def Let_def is_device_def rt_object_get_type_def rt_wqueue_init_def
          device_named_def wqueue_update_def min_absorb2)
  next
    case (Some x)
    then show ?thesis using k(1) resched_frameD(5) [OF k(2)] by (simp add: rt_device_register_def)
  qed
qed

text \<open>
  \<^verbatim>\<open>rt_device_destroy\<close> asserts that the device is of class Device and not static. A device made by
  \<^verbatim>\<open>rt_device_create\<close> is of no class, and registration makes it static: the call passes only after
  \<^verbatim>\<open>rt_device_unregister\<close>.
\<close>

theorem rt_device_destroy_needs_unregister:
  shows "malloc (RT_ALIGN sizeof RT_ALIGN_SIZE + RT_ALIGN attach RT_ALIGN_SIZE) = Some (d, q) \<Longrightarrow>
      fst (rt_device_create sizeof malloc type attach w) = Some d \<and>
      rt_device_destroy d (snd (rt_device_create sizeof malloc type attach w)) = None"
    and "rt_device_register (Some d) name flags w = Some (RT_EOK, w') \<Longrightarrow> rt_device_destroy d w' = None"
    and "rt_device_unregister d w = Some (r, w') \<Longrightarrow> \<exists>w''. rt_device_destroy d w' = Some (d, w'')"
proof -
  show "fst (rt_device_create sizeof malloc type attach w) = Some d \<and>
      rt_device_destroy d (snd (rt_device_create sizeof malloc type attach w)) = None"
    if "malloc (RT_ALIGN sizeof RT_ALIGN_SIZE + RT_ALIGN attach RT_ALIGN_SIZE) = Some (d, q)"
    using that by (simp add: rt_device_create_def Let_def rt_device_destroy_def is_device_def
        rt_object_get_type_def object_update_def zero_object_def obj_simps rt_assert_def)
  have st: "(a OR RT_Object_Class_Static) AND RT_Object_Class_Static \<noteq> 0" for a :: u8
  proof -
    have "(a OR RT_Object_Class_Static) AND RT_Object_Class_Static = RT_Object_Class_Static"
      by (rule bit_eqI) (auto simp: bit_simps)
    then show ?thesis by (simp add: obj_simps)
  qed
  show "rt_device_destroy d w' = None" if "rt_device_register (Some d) name flags w = Some (RT_EOK, w')"
    using that st
    by (auto simp: rt_device_register_def bind_Some_iff Let_def rt_object_init_def rt_wqueue_init_def
        wqueue_update_def object_update_def rt_device_destroy_def is_device_def rt_object_is_systemobject_def
        rt_assert_def err_simps split: if_splits)
  have cl: "RT_Object_Class_Device AND NOT RT_Object_Class_Static = RT_Object_Class_Device"
    "RT_Object_Class_Device AND RT_Object_Class_Static = 0" by (simp_all add: obj_simps)
  show "\<exists>w''. rt_device_destroy d w' = Some (d, w'')" if "rt_device_unregister d w = Some (r, w')"
    using that
    by (auto simp: rt_device_unregister_def is_device_def rt_device_destroy_def rt_object_detach_def
        container_remove_def object_update_def rt_object_get_type_def rt_object_is_systemobject_def
        rt_assert_def and.assoc cl split: if_splits)
qed

section \<open>The handles of a device\<close>

text \<open>
  The contract of open and close is a number of handles. \<open>handle_next alone n e\<close> is the number after
  an event, \<open>None\<close> when the event is not possible with \<open>n\<close> handles: a standalone device refuses the
  second handle, a close without a handle is an error, and one that leaves a handle succeeds.
\<close>

datatype dev_event = Opened rt_err_t | Closed rt_err_t

definition accepted :: "rt_err_t \<Rightarrow> bool" where
  "accepted r \<longleftrightarrow> r = RT_EOK \<or> r = - RT_ENOSYS"

fun handle_next :: "bool \<Rightarrow> nat \<Rightarrow> dev_event \<Rightarrow> nat option" where
  "handle_next alone n (Opened r) =
     (if alone \<and> n \<noteq> 0 then if r = - RT_EBUSY then Some n else None
      else if accepted r then if n < 255 then Some (n + 1) else None else Some n)"
| "handle_next alone n (Closed r) =
     (if n = 0 then if r = - RT_ERROR then Some 0 else None
      else if n = 1 then Some 0
      else if r = RT_EOK then Some (n - 1) else None)"

fun handle_trace :: "bool \<Rightarrow> nat \<Rightarrow> dev_event list \<Rightarrow> nat option" where
  "handle_trace alone n [] = Some n"
| "handle_trace alone n (e # es) =
     (case handle_next alone n e of None \<Rightarrow> None | Some m \<Rightarrow> handle_trace alone m es)"

lemma handle_trace_snoc [simp]:
  "handle_trace alone n (es @ [e]) =
     (case handle_trace alone n es of None \<Rightarrow> None | Some m \<Rightarrow> handle_next alone m e)"
  by (induction es arbitrary: n) (simp_all split: option.split)

text \<open>What a driver, and the rest of the system, leave alone of a device.\<close>

definition dev_opened :: "rt_device \<Rightarrow> bool" where
  "dev_opened v \<longleftrightarrow> open_flag v AND RT_DEVICE_OFLAG_OPEN \<noteq> 0"

definition dev_alone :: "rt_device \<Rightarrow> bool" where
  "dev_alone v \<longleftrightarrow> dev_flag v AND RT_DEVICE_FLAG_STANDALONE \<noteq> 0"

definition dev_active :: "rt_device \<Rightarrow> bool" where
  "dev_active v \<longleftrightarrow> dev_flag v AND RT_DEVICE_FLAG_ACTIVATED \<noteq> 0"

definition dev_same :: "nat \<Rightarrow> 'p world \<Rightarrow> 'p world \<Rightarrow> bool" where
  "dev_same d w w' \<longleftrightarrow>
     dev_flag (dev d w') = dev_flag (dev d w) \<and> ref_count (dev d w') = ref_count (dev d w) \<and>
     dev_opened (dev d w') = dev_opened (dev d w)"

definition quiet_driver :: "('p, 'k) driver_code \<Rightarrow> nat \<Rightarrow> bool" where
  "quiet_driver drv d \<longleftrightarrow>
     (\<forall>f w r w'. code_init drv f d w = Some (r, w') \<longrightarrow> dev_same d w w' \<and> r \<noteq> Returned (- RT_ENOSYS)) \<and>
     (\<forall>f oflag w r w'. code_open drv f d oflag w = Some (r, w') \<longrightarrow> dev_same d w w') \<and>
     (\<forall>f w r w'. code_close drv f d w = Some (r, w') \<longrightarrow> dev_same d w w')"

text \<open>
  \<^verbatim>\<open>rt_device_open\<close> returns \<^verbatim>\<open>-RT_ENOSYS\<close> with a handle when the driver's open returns it, and without
  one when the driver's initialisation does. The runs are of drivers whose initialisation does not.
\<close>

definition init_result :: "'k open_at \<Rightarrow> rt_err_t \<Rightarrow> bool" where
  "init_result at result \<longleftrightarrow> (case at of AtInit _ \<Rightarrow> result \<noteq> - RT_ENOSYS | AtOpen _ \<Rightarrow> True)"

text \<open>
  A run of a device: its opens and closes one after the other, each possibly blocked in the driver
  for a while, and between any two steps everything else, as long as it leaves the device alone.
\<close>

datatype 'k dev_phase = Idle | Opening u16 "'k open_at" | Closing

inductive device_run ::
  "('p, 'k) driver_code \<Rightarrow> nat \<Rightarrow> 'p world \<Rightarrow> 'p world \<Rightarrow> 'k dev_phase \<Rightarrow> dev_event list \<Rightarrow> bool"
  for drv d wi where
  start: "device_run drv d wi wi Idle []"
| other: "device_run drv d wi w ph es \<Longrightarrow> dev_same d w w' \<Longrightarrow> device_run drv d wi w' ph es"
| opened: "device_run drv d wi w Idle es \<Longrightarrow> rt_device_open drv d oflag w = Some (Returned r, w') \<Longrightarrow>
    device_run drv d wi w' Idle (es @ [Opened r])"
| open_block: "device_run drv d wi w Idle es \<Longrightarrow> rt_device_open drv d oflag w = Some (Blocked at, w') \<Longrightarrow>
    device_run drv d wi w' (Opening oflag at) es"
| open_wake: "device_run drv d wi w (Opening oflag at) es \<Longrightarrow> init_result at result \<Longrightarrow>
    rt_device_open_wake drv d oflag at result w = Some (Returned r, w') \<Longrightarrow>
    device_run drv d wi w' Idle (es @ [Opened r])"
| open_again: "device_run drv d wi w (Opening oflag at) es \<Longrightarrow> init_result at result \<Longrightarrow>
    rt_device_open_wake drv d oflag at result w = Some (Blocked at', w') \<Longrightarrow>
    device_run drv d wi w' (Opening oflag at') es"
| closed: "device_run drv d wi w Idle es \<Longrightarrow> rt_device_close drv d w = Some (Returned r, w') \<Longrightarrow>
    device_run drv d wi w' Idle (es @ [Closed r])"
| close_block: "device_run drv d wi w Idle es \<Longrightarrow> rt_device_close drv d w = Some (Blocked k, w') \<Longrightarrow>
    device_run drv d wi w' Closing es"
| close_wake: "device_run drv d wi w Closing es \<Longrightarrow> rt_device_close_wake d result w = (r, w') \<Longrightarrow>
    device_run drv d wi w' Idle (es @ [Closed r])"

lemma flag_activate [simp]:
  "dev_alone (activate v) = dev_alone v" "dev_active (activate v)" "dev_opened (activate v) = dev_opened v"
  "ref_count (activate v) = ref_count v" "open_fn (activate v) = open_fn v"
proof -
  have "(a OR 0x10) AND 0x08 = a AND 0x08" for a :: u16
    by (simp add: word_ao_dist)
  then show "dev_alone (activate v) = dev_alone v"
    by (simp add: activate_def dev_alone_def dev_simps)
  have "(a OR 0x10) AND 0x10 = (0x10 :: u16)" for a :: u16
    by (rule bit_eqI) (auto simp: bit_simps)
  then show "dev_active (activate v)" by (simp add: activate_def dev_active_def dev_simps)
qed (simp_all add: activate_def dev_opened_def)

lemma flag_open [simp]:
  "dev_opened (v\<lparr>open_flag := f OR RT_DEVICE_OFLAG_OPEN, ref_count := n\<rparr>)"
  "\<not> dev_opened (v\<lparr>open_flag := RT_DEVICE_OFLAG_CLOSE\<rparr>)"
proof -
  have "(f OR RT_DEVICE_OFLAG_OPEN) AND RT_DEVICE_OFLAG_OPEN = RT_DEVICE_OFLAG_OPEN"
    by (rule bit_eqI) (auto simp: bit_simps)
  then show "dev_opened (v\<lparr>open_flag := f OR RT_DEVICE_OFLAG_OPEN, ref_count := n\<rparr>)"
    by (simp add: dev_opened_def) (simp add: dev_simps)
  show "\<not> dev_opened (v\<lparr>open_flag := RT_DEVICE_OFLAG_CLOSE\<rparr>)"
    by (simp add: dev_opened_def dev_simps)
qed

lemma dev_flag_other [simp]:
  "dev_alone (v\<lparr>ref_count := n\<rparr>) = dev_alone v" "dev_active (v\<lparr>ref_count := n\<rparr>) = dev_active v"
  "dev_opened (v\<lparr>ref_count := n\<rparr>) = dev_opened v"
  "dev_alone (v\<lparr>open_flag := f\<rparr>) = dev_alone v" "dev_active (v\<lparr>open_flag := f\<rparr>) = dev_active v"
  "dev_opened (v\<lparr>dev_flag := g\<rparr>) = dev_opened v"
  by (simp_all add: dev_alone_def dev_active_def dev_opened_def)

lemma dev_sameD:
  assumes "dev_same d w w'"
  shows "dev_alone (dev d w') = dev_alone (dev d w)" "dev_active (dev d w') = dev_active (dev d w)"
    "dev_opened (dev d w') = dev_opened (dev d w)" "ref_count (dev d w') = ref_count (dev d w)"
  using assms by (simp_all add: dev_same_def dev_alone_def dev_active_def)

lemma deactivate_alone [simp]:
  "dev_alone (v\<lparr>dev_flag := dev_flag v AND NOT RT_DEVICE_FLAG_ACTIVATED\<rparr>) = dev_alone v"
  by (simp add: dev_alone_def dev_simps and.assoc)

text \<open>
  The device with \<open>n\<close> handles, between calls and while an open is blocked in the driver; in the
  driver's initialisation it has no handle.
\<close>

definition handles_ok :: "rt_device \<Rightarrow> nat \<Rightarrow> bool" where
  "handles_ok v n \<longleftrightarrow> unat (ref_count v) = n \<and> (n \<noteq> 0 \<longrightarrow> dev_opened v \<and> dev_active v)"

definition opening_ok :: "'k open_at \<Rightarrow> rt_device \<Rightarrow> nat \<Rightarrow> bool" where
  "opening_ok at v n \<longleftrightarrow> handles_ok v n \<and>
     (case at of AtInit _ \<Rightarrow> n = 0 | AtOpen _ \<Rightarrow> dev_active v \<and> \<not> (dev_alone v \<and> n \<noteq> 0))"

definition open_result_ok :: "nat \<Rightarrow> nat \<Rightarrow> bool \<Rightarrow> (rt_err_t, 'k open_at) outcome \<Rightarrow> 'p world \<Rightarrow> bool" where
  "open_result_ok d n alone res w \<longleftrightarrow>
     dev_alone (dev d w) = alone \<and>
     (case res of
        Returned r \<Rightarrow> \<exists>m. handle_next alone n (Opened r) = Some m \<and> handles_ok (dev d w) m
      | Blocked at \<Rightarrow> opening_ok at (dev d w) n)"

lemma open_result_okI:
  "dev_alone (dev d w) = alone \<Longrightarrow> handle_next alone n (Opened r) = Some m \<Longrightarrow> handles_ok (dev d w) m \<Longrightarrow>
    open_result_ok d n alone (Returned r) w"
  by (simp add: open_result_ok_def)

lemma open_done_ok:
  assumes "open_done d result w = Some (res, w')" "unat (ref_count (dev d w)) = n" "dev_active (dev d w)"
    and "\<not> accepted result \<Longrightarrow> handles_ok (dev d w) n" and na: "\<not> (dev_alone (dev d w) \<and> n \<noteq> 0)"
  shows "open_result_ok d n (dev_alone (dev d w)) res w'"
proof (cases "accepted result")
  case True
  let ?c = "ref_count (dev d w) + 1"
  let ?f = "\<lambda>v. v\<lparr>open_flag := open_flag v OR RT_DEVICE_OFLAG_OPEN, ref_count := ref_count v + 1\<rparr>"
  have c: "?c \<noteq> 0" and r: "res = Returned result" and w': "w' = dev_update d ?f w"
    using assms(1) True by (auto simp: open_done_def accepted_def Let_def split: if_splits)
  have u: "unat ?c = n + 1" using c assms(2) unatSuc [of "ref_count (dev d w)"] by (simp add: add.commute)
  have "unat ?c < 256" by (rule order_less_le_trans [OF unsigned_less]) simp
  then have "handle_next (dev_alone (dev d w)) n (Opened result) = Some (n + 1)" using True na u by auto
  moreover have "dev_opened (?f (dev d w))" by (rule flag_open)
  then have "handles_ok (dev d w') (n + 1)" using assms(3) u by (simp add: handles_ok_def w' dev_active_def)
  ultimately show ?thesis unfolding r by (intro open_result_okI) (simp_all add: w' dev_alone_def)
next
  case False
  then have "res = Returned result" "w' = w" using assms(1) by (simp_all add: open_done_def accepted_def)
  then show ?thesis using False assms(4) na by (auto intro!: open_result_okI)
qed

lemma open_activated_ok:
  assumes "open_activated drv d oflag w = Some (res, w')" "handles_ok (dev d w) n" "dev_active (dev d w)"
    and q: "quiet_driver drv d"
  shows "open_result_ok d n (dev_alone (dev d w)) res w'"
proof -
  have op: "dev_opened (dev d w)" if "n \<noteq> 0" using assms(2) that by (simp add: handles_ok_def)
  show ?thesis
  proof (cases "dev_alone (dev d w) \<and> dev_opened (dev d w)")
    case True
    then have "res = Returned (- RT_EBUSY)" "w' = w"
      using assms(1) by (simp_all add: open_activated_def dev_alone_def dev_opened_def)
    then show ?thesis
      using True assms(2) by (cases "n = 0") (auto intro!: open_result_okI simp: accepted_def err_simps)
  next
    case False
    then have na: "\<not> (dev_alone (dev d w) \<and> n \<noteq> 0)" using op by blast
    have nb: "\<not> (dev_flag (dev d w) AND RT_DEVICE_FLAG_STANDALONE \<noteq> 0 \<and> open_flag (dev d w) AND RT_DEVICE_OFLAG_OPEN \<noteq> 0)"
      using False by (simp add: dev_alone_def dev_opened_def)
    show ?thesis
    proof (cases "open_fn (dev d w)")
      case None
      let ?w = "dev_update d (\<lambda>v. v\<lparr>open_flag := oflag AND RT_DEVICE_OFLAG_MASK\<rparr>) w"
      have od: "open_done d RT_EOK ?w = Some (res, w')"
        using assms(1) None unfolding open_activated_def if_not_P [OF nb] by simp
      have "open_result_ok d n (dev_alone (dev d ?w)) res w'"
        by (rule open_done_ok [OF od]) (use assms(2,3) na in \<open>auto simp: handles_ok_def accepted_def\<close>)
      then show ?thesis by simp
    next
      case (Some f)
      then obtain r w1 where 1: "code_open drv f d oflag w = Some (r, w1)"
        "(case r of Returned result \<Rightarrow> open_done d result w1 | Blocked k \<Rightarrow> Some (Blocked (AtOpen k), w1)) = Some (res, w')"
        using assms(1) unfolding open_activated_def if_not_P [OF nb] by (auto simp: bind_Some_iff)
      have "dev_same d w w1" using q 1(1) by (auto simp: quiet_driver_def)
      note sm = dev_sameD [OF this]
      have h1: "handles_ok (dev d w1) n" using assms(2) sm by (simp add: handles_ok_def)
      show ?thesis
      proof (cases r)
        case (Returned result)
        then have "open_done d result w1 = Some (res, w')" using 1(2) by simp
        from open_done_ok [OF this, of n] show ?thesis using h1 sm na assms(3) by (simp add: handles_ok_def)
      next
        case (Blocked k)
        then have "res = Blocked (AtOpen k)" "w' = w1" using 1(2) by simp_all
        then show ?thesis using h1 sm na assms(3) by (simp add: open_result_ok_def opening_ok_def)
      qed
    qed
  qed
qed

lemma open_inited_ok:
  assumes "open_inited drv d oflag result w = Some (res, w')" "handles_ok (dev d w) 0" and q: "quiet_driver drv d"
    and "result \<noteq> - RT_ENOSYS"
  shows "open_result_ok d 0 (dev_alone (dev d w)) res w'"
proof (cases "result = RT_EOK")
  case True
  let ?w = "dev_update d activate w"
  have "open_activated drv d oflag ?w = Some (res, w')" using assms(1) True by (simp add: open_inited_def)
  then have "open_result_ok d 0 (dev_alone (dev d ?w)) res w'"
    by (rule open_activated_ok) (use assms(2) q in \<open>simp_all add: handles_ok_def\<close>)
  then show ?thesis by simp
next
  case False
  then have "res = Returned result" "w' = w" using assms(1) by (simp_all add: open_inited_def)
  then show ?thesis using False assms(2,4) by (auto intro!: open_result_okI simp: accepted_def)
qed

lemma rt_device_open_ok:
  assumes "rt_device_open drv d oflag w = Some (res, w')" "handles_ok (dev d w) n" and q: "quiet_driver drv d"
  shows "open_result_ok d n (dev_alone (dev d w)) res w'"
proof (cases "dev_active (dev d w)")
  case True
  then have "open_activated drv d oflag w = Some (res, w')"
    using assms(1) by (simp add: rt_device_open_def dev_active_def bind_Some_iff)
  then show ?thesis using open_activated_ok True assms(2) q by blast
next
  case False
  then have h0: "n = 0" "handles_ok (dev d w) 0" using assms(2) by (auto simp: handles_ok_def)
  have e: "dev_flag (dev d w) AND RT_DEVICE_FLAG_ACTIVATED = 0" using False by (simp add: dev_active_def)
  show ?thesis
  proof (cases "init_fn (dev d w)")
    case None
    then have "open_inited drv d oflag RT_EOK w = Some (res, w')"
      using assms(1) e by (simp add: rt_device_open_def bind_Some_iff)
    from open_inited_ok [OF this h0(2) q] show ?thesis using h0(1) by (simp add: err_simps)
  next
    case (Some f)
    then obtain r w1 where 1: "code_init drv f d w = Some (r, w1)"
      "(case r of Returned result \<Rightarrow> open_inited drv d oflag result w1 | Blocked k \<Rightarrow> Some (Blocked (AtInit k), w1))
        = Some (res, w')"
      using assms(1) e by (auto simp: rt_device_open_def bind_Some_iff)
    have "dev_same d w w1" and ns: "r \<noteq> Returned (- RT_ENOSYS)" using q 1(1) unfolding quiet_driver_def by blast+
    note sm = dev_sameD [OF this(1)]
    have h1: "handles_ok (dev d w1) 0" using h0(2) sm by (simp add: handles_ok_def)
    show ?thesis
    proof (cases r)
      case (Returned result)
      then have "open_inited drv d oflag result w1 = Some (res, w')" using 1(2) by simp
      from open_inited_ok [OF this h1 q] show ?thesis using sm h0(1) ns Returned by simp
    next
      case (Blocked k)
      then have "res = Blocked (AtInit k)" "w' = w1" using 1(2) by simp_all
      then show ?thesis using h1 sm h0(1) by (simp add: open_result_ok_def opening_ok_def)
    qed
  qed
qed


lemma close_done_ok:
  assumes "close_done d result w = (r, w')"
  shows "r = result" "ref_count (dev d w') = ref_count (dev d w)" "dev_alone (dev d w') = dev_alone (dev d w)"
    "dev_opened (dev d w') \<longleftrightarrow> dev_opened (dev d w) \<and> \<not> accepted result"
proof -
  let ?w = "if accepted result then dev_update d (\<lambda>v. v\<lparr>open_flag := RT_DEVICE_OFLAG_CLOSE\<rparr>) w else w"
  have e: "r = result"
    "w' = dev_update d (\<lambda>v. v\<lparr>dev_flag := dev_flag v AND NOT RT_DEVICE_FLAG_ACTIVATED\<rparr>) ?w"
    using assms by (auto simp: close_done_def accepted_def Let_def)
  show "r = result" by (rule e(1))
  show "ref_count (dev d w') = ref_count (dev d w)" "dev_alone (dev d w') = dev_alone (dev d w)"
    "dev_opened (dev d w') \<longleftrightarrow> dev_opened (dev d w) \<and> \<not> accepted result"
    unfolding e(2) by simp_all
qed







section \<open>A driver that fails to close\<close>

definition wedged :: "rt_device \<Rightarrow> bool" where
  "wedged v \<longleftrightarrow> dev_alone v \<and> dev_opened v \<and> ref_count v = 0"

definition refused :: "dev_event \<Rightarrow> bool" where
  "refused e \<longleftrightarrow> (case e of Opened r \<Rightarrow> \<not> accepted r | Closed r \<Rightarrow> r = - RT_ERROR)"

lemma open_activated_wedged:
  assumes "wedged (dev d w)"
  shows "open_activated drv d oflag w = Some (Returned (- RT_EBUSY), w)"
  using assms by (simp add: open_activated_def wedged_def dev_alone_def dev_opened_def)

lemma busy_refused: "\<not> accepted (- RT_EBUSY)" "accepted RT_EOK"
  by (simp_all add: accepted_def err_simps)

definition open_wedged :: "nat \<Rightarrow> (rt_err_t, 'k open_at) outcome \<Rightarrow> 'p world \<Rightarrow> bool" where
  "open_wedged d res w \<longleftrightarrow> wedged (dev d w) \<and>
     (case res of Returned r \<Rightarrow> \<not> accepted r | Blocked at \<Rightarrow> \<exists>k. at = AtInit k)"

lemma open_inited_wedged:
  assumes "open_inited drv d oflag result w = Some (res, w')" "wedged (dev d w)" "result \<noteq> - RT_ENOSYS"
  shows "open_wedged d res w'"
proof (cases "result = RT_EOK")
  case True
  have w1: "wedged (dev d (dev_update d activate w))" using assms(2) by (simp add: wedged_def)
  then show ?thesis
    using assms(1) True open_activated_wedged [OF w1, of drv oflag]
    by (auto simp: open_inited_def open_wedged_def busy_refused)
next
  case False
  then show ?thesis using assms by (auto simp: open_inited_def open_wedged_def accepted_def)
qed

lemma wedged_same: "dev_same d w w' \<Longrightarrow> wedged (dev d w') = wedged (dev d w)"
  using dev_sameD [of d w w'] by (simp add: wedged_def)

lemma rt_device_open_wedged:
  assumes "rt_device_open drv d oflag w = Some (res, w')" "wedged (dev d w)" and q: "quiet_driver drv d"
  shows "open_wedged d res w'"
proof (cases "dev_active (dev d w)")
  case True
  then show ?thesis
    using assms(1,2) open_activated_wedged [OF assms(2), of drv oflag]
    by (auto simp: rt_device_open_def dev_active_def bind_Some_iff open_wedged_def busy_refused)
next
  case False
  then have e: "dev_flag (dev d w) AND RT_DEVICE_FLAG_ACTIVATED = 0" by (simp add: dev_active_def)
  show ?thesis
  proof (cases "init_fn (dev d w)")
    case None
    then have "open_inited drv d oflag RT_EOK w = Some (res, w')"
      using assms(1) e by (simp add: rt_device_open_def bind_Some_iff)
    from open_inited_wedged [OF this assms(2)] show ?thesis by (simp add: err_simps)
  next
    case (Some f)
    then obtain r w1 where 1: "code_init drv f d w = Some (r, w1)"
      "(case r of Returned result \<Rightarrow> open_inited drv d oflag result w1 | Blocked k \<Rightarrow> Some (Blocked (AtInit k), w1))
        = Some (res, w')"
      using assms(1) e by (auto simp: rt_device_open_def bind_Some_iff)
    have sm: "dev_same d w w1" and ns: "r \<noteq> Returned (- RT_ENOSYS)" using q 1(1) unfolding quiet_driver_def by blast+
    have w1: "wedged (dev d w1)" using assms(2) wedged_same [OF sm] by simp
    show ?thesis
    proof (cases r)
      case (Returned result)
      then show ?thesis using open_inited_wedged [OF _ w1, of drv oflag result res w'] 1(2) ns by simp
    next
      case (Blocked k)
      then show ?thesis using 1(2) w1 by (auto simp: open_wedged_def)
    qed
  qed
qed

lemma device_run_wedged:
  assumes "device_run drv d wi w ph es" and q: "quiet_driver drv d" and z: "wedged (dev d wi)"
  shows "wedged (dev d w) \<and> (\<forall>e \<in> set es. refused e) \<and>
    (case ph of Idle \<Rightarrow> True | Opening _ at \<Rightarrow> \<exists>k. at = AtInit k | Closing \<Rightarrow> False)"
  using assms(1)
proof induction
  case start
  then show ?case using z by simp
next
  case (other w ph es w')
  then show ?case using wedged_same [OF other(2)] by simp
next
  case (opened w es oflag r w')
  then show ?case using rt_device_open_wedged [OF opened(2) _ q] by (simp add: open_wedged_def refused_def)
next
  case (open_block w es oflag at w')
  then show ?case using rt_device_open_wedged [OF open_block(2) _ q] by (simp add: open_wedged_def)
next
  case (open_wake w oflag at es result r w')
  then obtain k where at: "at = AtInit k" by auto
  have "open_inited drv d oflag result w = Some (Returned r, w')"
    using open_wake(3) by (simp add: rt_device_open_wake_def at)
  then have "open_wedged d (Returned r :: (rt_err_t, 'b open_at) outcome) w'"
    by (rule open_inited_wedged) (use open_wake at in \<open>simp_all add: init_result_def\<close>)
  then show ?case using open_wake(4) by (simp add: open_wedged_def refused_def)
next
  case (open_again w oflag at es result at' w')
  then obtain k where at: "at = AtInit k" by auto
  have "open_inited drv d oflag result w = Some (Blocked at', w')"
    using open_again(3) by (simp add: rt_device_open_wake_def at)
  then have "open_wedged d (Blocked at' :: (rt_err_t, 'b open_at) outcome) w'"
    by (rule open_inited_wedged) (use open_again at in \<open>simp_all add: init_result_def\<close>)
  then show ?case using open_again(4) by (simp add: open_wedged_def)
next
  case (closed w es r w')
  then have "r = - RT_ERROR" "w' = w" by (auto simp: rt_device_close_def bind_Some_iff wedged_def)
  then show ?case using closed(3) by (simp add: refused_def)
next
  case (close_block w es k w')
  then show ?case by (auto simp: rt_device_close_def bind_Some_iff wedged_def)
next
  case (close_wake w es result r w')
  then show ?case by simp
qed

lemma rt_device_close_last:
  assumes "rt_device_close drv d w = Some (res, w')" "ref_count (dev d w) = 1"
  shows "res = Returned RT_EOK \<or>
    (\<exists>f r w1. code_close drv f d (dev_update d (\<lambda>v. v\<lparr>ref_count := ref_count v - 1\<rparr>) w) = Some (Returned r, w1) \<and>
      close_done d r w1 = (r, w') \<and> res = Returned r) \<or>
    (\<exists>f k. code_close drv f d (dev_update d (\<lambda>v. v\<lparr>ref_count := ref_count v - 1\<rparr>) w) = Some (Blocked k, w') \<and>
      res = Blocked k)"
proof (cases "close_fn (dev d w)")
  case None
  then show ?thesis using assms by (simp add: rt_device_close_def bind_Some_iff Let_def close_done_def)
next
  case (Some f)
  let ?w = "dev_update d (\<lambda>v. v\<lparr>ref_count := ref_count v - 1\<rparr>) w"
  obtain r w1 where 1: "code_close drv f d ?w = Some (r, w1)"
    "(case r of Returned result \<Rightarrow> (let (result, w) = close_done d result w1 in Some (Returned result, w))
      | Blocked k \<Rightarrow> Some (Blocked k, w1)) = Some (res, w')"
    using assms Some by (auto simp: rt_device_close_def bind_Some_iff Let_def)
  show ?thesis
  proof (cases r)
    case (Returned result)
    obtain r' w2 where cd: "close_done d result w1 = (r', w2)" by fastforce
    then have "close_done d result w1 = (result, w')" "res = Returned result"
      using 1(2) Returned close_done_ok(1) [OF cd] by simp_all
    then show ?thesis using 1(1) Returned by blast
  next
    case (Blocked k)
    then show ?thesis using 1 by auto
  qed
qed

text \<open>
  C37: When the driver of a standalone device fails the last close, the device has no handle left but
  keeps its open flag. From then on every open of the device is refused and so is every close, in any
  run: the device cannot be used again.
\<close>

theorem rt_device_close_failure_wedges:
  assumes q: "quiet_driver drv d" and alone: "dev_flag (dev d w0) AND RT_DEVICE_FLAG_STANDALONE \<noteq> 0"
    and opn: "open_flag (dev d w0) AND RT_DEVICE_OFLAG_OPEN \<noteq> 0" and last: "ref_count (dev d w0) = 1"
    and close: "rt_device_close drv d w0 = Some (Returned r, wi)" "r \<noteq> RT_EOK" "r \<noteq> - RT_ENOSYS"
    and run: "device_run drv d wi w ph es"
  shows "ref_count (dev d w) = 0 \<and> open_flag (dev d w) AND RT_DEVICE_OFLAG_OPEN \<noteq> 0 \<and>
    (\<forall>result. Opened result \<in> set es \<longrightarrow> result \<noteq> RT_EOK \<and> result \<noteq> - RT_ENOSYS) \<and>
    (\<forall>result. Closed result \<in> set es \<longrightarrow> result = - RT_ERROR)"
proof -
  let ?w = "dev_update d (\<lambda>v. v\<lparr>ref_count := ref_count v - 1\<rparr>) w0"
  have na: "\<not> accepted r" using close(2,3) by (simp add: accepted_def)
  have w1: "wedged (dev d ?w)" using alone opn last by (simp add: wedged_def dev_alone_def dev_opened_def)
  obtain f w1 where 1: "code_close drv f d ?w = Some (Returned r, w1)" and cd: "close_done d r w1 = (r, wi)"
    using rt_device_close_last [OF close(1) last] na by (auto simp: accepted_def)
  have w2: "wedged (dev d w1)" using w1 wedged_same q 1 unfolding quiet_driver_def by blast
  have "wedged (dev d wi)" using close_done_ok [OF cd] w2 na by (simp add: wedged_def)
  from device_run_wedged [OF run q this] show ?thesis
    by (force simp: wedged_def dev_opened_def refused_def accepted_def)
qed

text \<open>
  C38: \<^verbatim>\<open>rt_device_close\<close> gives up the last handle before it calls the driver, and takes the open and
  the activation back after. A thread that opens the device while the driver's close blocks is granted a
  handle, and ends up with a device that is marked neither open nor activated.
\<close>

theorem rt_device_close_open_race:
  assumes q: "quiet_driver drv d" and ty: "is_device d w = Some ()"
    and dv: "dev_flag (dev d w) AND RT_DEVICE_FLAG_STANDALONE = 0"
      "dev_flag (dev d w) AND RT_DEVICE_FLAG_ACTIVATED \<noteq> 0" "ref_count (dev d w) = 1"
    and c: "rt_device_close drv d w = Some (Blocked k, w1)"
    and o: "rt_device_open drv d oflag w1 = Some (Returned RT_EOK, w2)"
    and e: "rt_device_close_wake d RT_EOK w2 = (r, w3)"
  shows "ref_count (dev d w3) = 1 \<and> open_flag (dev d w3) AND RT_DEVICE_OFLAG_OPEN = 0 \<and>
    dev_flag (dev d w3) AND RT_DEVICE_FLAG_ACTIVATED = 0"
proof -
  let ?w = "dev_update d (\<lambda>v. v\<lparr>ref_count := ref_count v - 1\<rparr>) w"
  obtain f where f: "code_close drv f d ?w = Some (Blocked k, w1)"
    using rt_device_close_last [OF c dv(3)] by auto
  have "dev_same d ?w w1" using f q unfolding quiet_driver_def by blast
  then have z: "ref_count (dev d w1) = 0" using dv(3) by (simp add: dev_same_def)
  have "open_result_ok d 0 (dev_alone (dev d w1)) (Returned RT_EOK :: (rt_err_t, 'b open_at) outcome) w2"
    by (rule rt_device_open_ok [OF o _ q]) (simp add: handles_ok_def z)
  then have "unat (ref_count (dev d w2)) = 1"
    by (simp add: open_result_ok_def handles_ok_def busy_refused)
  then have "ref_count (dev d w2) = 1" by (simp add: word_unat_eq_iff)
  then have "ref_count (dev d w3) = 1 \<and> \<not> dev_opened (dev d w3)"
    using close_done_ok [OF e [unfolded rt_device_close_wake_def]] by (simp add: busy_refused)
  moreover have "dev_flag (dev d w3) AND RT_DEVICE_FLAG_ACTIVATED = 0"
    using e by (auto simp: rt_device_close_wake_def close_done_def Let_def and.assoc dev_simps)
  ultimately show ?thesis by (simp add: dev_opened_def)
qed

end
