(* ===== verification/RTT_Pipe.thy ===== *)
theory RTT_Pipe
  imports RTT_Device RTT_Mutex RTT_RingBuffer
begin

text \<open>
  Pipes (\<^verbatim>\<open>pipe.c\<close>): a device over a byte ring, with a lock and two wait queues. A pipe and its device
  start at the same address and have one number. The lock and the wait queues lie inside the
  structure: \<open>pipe_lock\<close>, \<open>reader_queue\<close> and \<open>writer_queue\<close> are their numbers. What \<^verbatim>\<open>rt_malloc\<close> answers
  inside \<^verbatim>\<open>rt_ringbuffer_create\<close> is the argument \<open>mem\<close>.
\<close>

record rt_pipe =
  is_named :: bool
  fifo :: "rt_ringbuffer option"
  bufsz :: u16
  readers :: u8
  writers :: u8
  reader_queue :: nat
  writer_queue :: nat
  pipe_lock :: nat

type_synonym pipe_world = "(nat \<Rightarrow> rt_pipe) world"
type_synonym rb_memory = "bool \<times> (nat \<Rightarrow> u8 list option)"

abbreviation the_pipe :: "nat \<Rightarrow> pipe_world \<Rightarrow> rt_pipe" where
  "the_pipe d w \<equiv> privates w d"

definition pipe_update :: "nat \<Rightarrow> (rt_pipe \<Rightarrow> rt_pipe) \<Rightarrow> pipe_world \<Rightarrow> pipe_world" where
  "pipe_update d f w = w\<lparr>privates := (privates w)(d := f (privates w d))\<rparr>"

definition RT_Device_Class_Pipe :: int where "RT_Device_Class_Pipe = 15"
definition EAGAIN :: int where "EAGAIN = 11"
definition ENODEV :: int where "ENODEV = 19"
definition EINVAL :: int where "EINVAL = 22"
definition EPIPE :: int where "EPIPE = 32"
definition POLLIN :: int where "POLLIN = 1"
definition POLLOUT :: int where "POLLOUT = 2"
definition POLLERR :: int where "POLLERR = 4"
definition POLLHUP :: int where "POLLHUP = 8"
definition O_ACCMODE :: u32 where "O_ACCMODE = 3"
definition O_RDONLY :: u32 where "O_RDONLY = 0"
definition O_WRONLY :: u32 where "O_WRONLY = 1"
definition O_RDWR :: u32 where "O_RDWR = 2"
definition O_NONBLOCK :: u32 where "O_NONBLOCK = 0x4000"

section \<open>The lock and the ring\<close>

definition pipe_take :: "nat \<Rightarrow> pipe_world \<Rightarrow> ((unit, unit) outcome \<times> pipe_world) option" where
  "pipe_take d w = do {
     (r, k) \<leftarrow> rt_mutex_take (pipe_lock (the_pipe d w)) RT_WAITING_FOREVER (kernel w);
     Some (case r of Returned _ \<Rightarrow> Returned () | Blocked _ \<Rightarrow> Blocked (), w\<lparr>kernel := k\<rparr>) }"

definition pipe_take_wake :: "nat \<Rightarrow> tid \<Rightarrow> pipe_world \<Rightarrow> ((unit, unit) outcome \<times> pipe_world) option" where
  "pipe_take_wake d t w = do {
     (r, k) \<leftarrow> rt_mutex_take_wake (pipe_lock (the_pipe d w)) t RT_WAITING_FOREVER (kernel w);
     Some (case r of Returned _ \<Rightarrow> Returned () | Blocked _ \<Rightarrow> Blocked (), w\<lparr>kernel := k\<rparr>) }"

definition pipe_release :: "nat \<Rightarrow> pipe_world \<Rightarrow> pipe_world option" where
  "pipe_release d w = do {
     (_, k) \<leftarrow> rt_mutex_release (pipe_lock (the_pipe d w)) (kernel w);
     Some (w\<lparr>kernel := k\<rparr>) }"

definition pipe_fifo_create :: "rb_memory \<Rightarrow> nat \<Rightarrow> pipe_world \<Rightarrow> pipe_world option" where
  "pipe_fifo_create mem d w = do {
     rb \<leftarrow> rt_ringbuffer_create (bufsz (the_pipe d w)) (fst mem) (snd mem);
     Some (pipe_update d (\<lambda>p. p\<lparr>fifo := rb\<rparr>) w) }"

text \<open>\<^verbatim>\<open>rt_ringbuffer_destroy\<close> asserts that there is a ring.\<close>

definition pipe_fifo_destroy :: "nat \<Rightarrow> pipe_world \<Rightarrow> pipe_world option" where
  "pipe_fifo_destroy d w = do {
     rt_assert (fifo (the_pipe d w) \<noteq> None);
     Some (pipe_update d (\<lambda>p. p\<lparr>fifo := None\<rparr>) w) }"

section \<open>The functions of the device\<close>

text \<open>
  Each takes the lock first, and may block there: \<open>pipe_call\<close> is what the call does once it has the
  lock, in the function ending in \<open>locked\<close>.
\<close>

datatype pipe_call = OpenCall | CloseCall | ReadCall "u8 list" u32 | WriteCall "u8 list" u32

definition rt_pipe_open_locked :: "rb_memory \<Rightarrow> nat \<Rightarrow> pipe_world \<Rightarrow> (rt_err_t \<times> pipe_world) option" where
  "rt_pipe_open_locked mem d w = do {
     w \<leftarrow> (if fifo (the_pipe d w) = None then pipe_fifo_create mem d w else Some w);
     w \<leftarrow> pipe_release d w;
     Some (RT_EOK, w) }"

definition rt_pipe_open ::
  "rb_memory \<Rightarrow> nat option \<Rightarrow> u16 \<Rightarrow> pipe_world \<Rightarrow> ((rt_err_t, pipe_call) outcome \<times> pipe_world) option" where
  "rt_pipe_open mem device oflag w =
     (case device of
        None \<Rightarrow> Some (Returned (- RT_EINVAL), w)
      | Some d \<Rightarrow> do {
          (r, w) \<leftarrow> pipe_take d w;
          (case r of
             Returned _ \<Rightarrow> do { (e, w) \<leftarrow> rt_pipe_open_locked mem d w; Some (Returned e, w) }
           | Blocked _ \<Rightarrow> Some (Blocked OpenCall, w)) })"

definition rt_pipe_close_locked :: "nat \<Rightarrow> pipe_world \<Rightarrow> (rt_err_t \<times> pipe_world) option" where
  "rt_pipe_close_locked d w = do {
     w \<leftarrow> (if ref_count (dev d w) = 1 then pipe_fifo_destroy d w else Some w);
     w \<leftarrow> pipe_release d w;
     Some (RT_EOK, w) }"

definition rt_pipe_close ::
  "nat option \<Rightarrow> pipe_world \<Rightarrow> ((rt_err_t, pipe_call) outcome \<times> pipe_world) option" where
  "rt_pipe_close device w =
     (case device of
        None \<Rightarrow> Some (Returned (- RT_EINVAL), w)
      | Some d \<Rightarrow> do {
          (r, w) \<leftarrow> pipe_take d w;
          (case r of
             Returned _ \<Rightarrow> do { (e, w) \<leftarrow> rt_pipe_close_locked d w; Some (Returned e, w) }
           | Blocked _ \<Rightarrow> Some (Blocked CloseCall, w)) })"

text \<open>
  \<^verbatim>\<open>rt_ringbuffer_get\<close> and \<^verbatim>\<open>rt_ringbuffer_put\<close> take a 16-bit length, so the count that is left is cut
  to its low half. They move at most that many bytes, which bounds the loops.
\<close>

lemma u16_of_u32_le: "(ucast (ucast (x :: u32) :: u16) :: u32) \<le> x"
  by (simp add: word_le_nat_alt unsigned_ucast_eq take_bit_eq_mod unat_mod)

lemma rt_ringbuffer_get_len:
  assumes "rt_ringbuffer_get rb ptr len = Some (n, out, rb')"
  shows "n \<le> ucast len"
proof (cases "rt_ringbuffer_data_len rb < ucast len")
  case True
  then have "(ucast (ucast (rt_ringbuffer_data_len rb) :: u16) :: u32) \<le> ucast len"
    using u16_of_u32_le [of "rt_ringbuffer_data_len rb"] by (meson order_le_less_trans order_less_imp_le)
  then show ?thesis
    using assms True by (auto simp: rt_ringbuffer_get_def Let_def bind_Some_iff split: if_splits)
next
  case False
  then show ?thesis
    using assms by (auto simp: rt_ringbuffer_get_def Let_def bind_Some_iff split: if_splits)
qed

lemma rt_ringbuffer_put_len:
  assumes "rt_ringbuffer_put rb ptr len = Some (n, rb')"
  shows "n \<le> ucast len"
  using assms
  by (auto simp: rt_ringbuffer_put_def Let_def bind_Some_iff word_le_nat_alt word_less_nat_alt
      split: if_splits)

lemma count_left_decreases:
  assumes "n < count" "(len :: u32) \<le> ucast (ucast (count - n) :: u16)" "\<not> sint len \<le> 0"
  shows "unat (count - (n + len)) < unat (count - n)"
proof -
  have le: "len \<le> count - n" using assms(2) u16_of_u32_le [of "count - n"] by (rule order_trans)
  have e: "count - (n + len) = (count - n) - len" by simp
  have "len \<noteq> 0" using assms(3) by auto
  then have "0 < unat len" by (simp add: unat_gt_0)
  moreover have "unat len \<le> unat (count - n)" using le by (simp add: word_le_nat_alt)
  ultimately show ?thesis unfolding e unat_sub [OF le] by linarith
qed

function pipe_read_loop ::
  "rt_ringbuffer \<Rightarrow> u8 list \<Rightarrow> u32 \<Rightarrow> u32 \<Rightarrow> (u32 \<times> u8 list \<times> rt_ringbuffer) option" where
  "pipe_read_loop rb pbuf count read_bytes =
     (if read_bytes < count then
        (case rt_ringbuffer_get rb (drop (unat read_bytes) pbuf) (ucast (count - read_bytes)) of
           None \<Rightarrow> None
         | Some (len, out, rb') \<Rightarrow>
             if sint len \<le> 0 then Some (read_bytes, take (unat read_bytes) pbuf @ out, rb')
             else pipe_read_loop rb' (take (unat read_bytes) pbuf @ out) count (read_bytes + len))
      else Some (read_bytes, pbuf, rb))"
  by pat_completeness auto

termination pipe_read_loop
  by (relation "measure (\<lambda>(_, _, count, n). unat (count - n))")
    (auto intro!: count_left_decreases dest: rt_ringbuffer_get_len)

function pipe_write_loop ::
  "rt_ringbuffer \<Rightarrow> u8 list \<Rightarrow> u32 \<Rightarrow> u32 \<Rightarrow> (u32 \<times> rt_ringbuffer) option" where
  "pipe_write_loop rb pbuf count write_bytes =
     (if write_bytes < count then
        (case rt_ringbuffer_put rb (drop (unat write_bytes) pbuf) (ucast (count - write_bytes)) of
           None \<Rightarrow> None
         | Some (len, rb') \<Rightarrow>
             if sint len \<le> 0 then Some (write_bytes, rb')
             else pipe_write_loop rb' pbuf count (write_bytes + len))
      else Some (write_bytes, rb))"
  by pat_completeness auto

termination pipe_write_loop
  by (relation "measure (\<lambda>(_, _, count, n). unat (count - n))")
    (auto intro!: count_left_decreases dest: rt_ringbuffer_put_len)

definition rt_pipe_read_locked ::
  "nat \<Rightarrow> u8 list \<Rightarrow> u32 \<Rightarrow> pipe_world \<Rightarrow> ((u32 \<times> u8 list) \<times> pipe_world) option" where
  "rt_pipe_read_locked d buffer count w = do {
     rb \<leftarrow> fifo (the_pipe d w);
     (n, pbuf, rb) \<leftarrow> pipe_read_loop rb buffer count 0;
     w \<leftarrow> pipe_release d (pipe_update d (\<lambda>p. p\<lparr>fifo := Some rb\<rparr>) w);
     Some ((n, pbuf), w) }"

definition rt_pipe_read ::
  "nat option \<Rightarrow> u32 \<Rightarrow> u8 list \<Rightarrow> u32 \<Rightarrow> pipe_world \<Rightarrow> ((u32 \<times> u8 list, pipe_call) outcome \<times> pipe_world) option" where
  "rt_pipe_read device pos buffer count w =
     (case device of
        None \<Rightarrow> Some (Returned (0, buffer), w\<lparr>kernel := rt_set_errno (- EINVAL) (kernel w)\<rparr>)
      | Some d \<Rightarrow>
          if count = 0 then Some (Returned (0, buffer), w)
          else do {
            (r, w) \<leftarrow> pipe_take d w;
            (case r of
               Returned _ \<Rightarrow> do { (n, w) \<leftarrow> rt_pipe_read_locked d buffer count w; Some (Returned n, w) }
             | Blocked _ \<Rightarrow> Some (Blocked (ReadCall buffer count), w)) })"

definition rt_pipe_write_locked ::
  "nat \<Rightarrow> u8 list \<Rightarrow> u32 \<Rightarrow> pipe_world \<Rightarrow> (u32 \<times> pipe_world) option" where
  "rt_pipe_write_locked d buffer count w = do {
     rb \<leftarrow> fifo (the_pipe d w);
     (n, rb) \<leftarrow> pipe_write_loop rb buffer count 0;
     w \<leftarrow> pipe_release d (pipe_update d (\<lambda>p. p\<lparr>fifo := Some rb\<rparr>) w);
     Some (n, w) }"

definition rt_pipe_write ::
  "nat option \<Rightarrow> u32 \<Rightarrow> u8 list \<Rightarrow> u32 \<Rightarrow> pipe_world \<Rightarrow> ((u32, pipe_call) outcome \<times> pipe_world) option" where
  "rt_pipe_write device pos buffer count w =
     (case device of
        None \<Rightarrow> Some (Returned 0, w\<lparr>kernel := rt_set_errno (- EINVAL) (kernel w)\<rparr>)
      | Some d \<Rightarrow>
          if count = 0 then Some (Returned 0, w)
          else do {
            (r, w) \<leftarrow> pipe_take d w;
            (case r of
               Returned _ \<Rightarrow> do { (n, w) \<leftarrow> rt_pipe_write_locked d buffer count w; Some (Returned n, w) }
             | Blocked _ \<Rightarrow> Some (Blocked (WriteCall buffer count), w)) })"

definition rt_pipe_control :: "nat \<Rightarrow> int \<Rightarrow> nat \<Rightarrow> pipe_world \<Rightarrow> (rt_err_t \<times> pipe_world) option" where
  "rt_pipe_control d cmd args w = Some (RT_EOK, w)"

text \<open>The driver of pipes, whose functions have the address \<open>pipe_driver\<close>.\<close>

definition pipe_driver :: nat where "pipe_driver = 0"

definition pipe_code :: "rb_memory \<Rightarrow> (nat \<Rightarrow> rt_pipe, pipe_call) driver_code" where
  "pipe_code mem =
     \<lparr>code_init = (\<lambda>_ _ _. None),
      code_open = (\<lambda>_ d oflag. rt_pipe_open mem (Some d) oflag),
      code_close = (\<lambda>_ d. rt_pipe_close (Some d)),
      code_read = (\<lambda>_ d. rt_pipe_read (Some d)),
      code_write = (\<lambda>_ d. rt_pipe_write (Some d)),
      code_control = (\<lambda>_ d cmd args w. do { (e, w) \<leftarrow> rt_pipe_control d cmd args w; Some (Returned e, w) })\<rparr>"

section \<open>Creating and deleting\<close>

text \<open>\<^verbatim>\<open>rt_memset(pipe, 0, sizeof(rt_pipe_t))\<close>: the pipe, its device and the lock inside of it.\<close>

definition pipe_memset :: "nat \<Rightarrow> pipe_world \<Rightarrow> pipe_world" where
  "pipe_memset d w =
     (let p = the_pipe d w; l = pipe_lock p;
          k = mutex_update l (\<lambda>_. \<lparr>mutex_value = 0, original_priority = 0, hold = 0, owner = None\<rparr>)
                (object_update (OMutex l) (\<lambda>_. zero_object)
                  (object_update (ODevice d) (\<lambda>_. zero_object) (kernel w)))
      in dev_update d (\<lambda>v. zero_device (wait_queue v))
           (pipe_update d (\<lambda>p. p\<lparr>is_named := False, fifo := None, bufsz := 0, readers := 0, writers := 0\<rparr>)
             (w\<lparr>kernel := k\<rparr>)))"

definition rt_pipe_create :: "string \<Rightarrow> int \<Rightarrow> nat option \<Rightarrow> pipe_world \<Rightarrow> (nat option \<times> pipe_world) option" where
  "rt_pipe_create name sz mem w =
     (case mem of
        None \<Rightarrow> Some (None, w)
      | Some d \<Rightarrow> do {
          let w = pipe_memset d w;
          let w = pipe_update d (\<lambda>p. p\<lparr>is_named := True\<rparr>) w;
          (_, k) \<leftarrow> rt_mutex_init (pipe_lock (the_pipe d w)) name RT_IPC_FLAG_FIFO (kernel w);
          let w = w\<lparr>kernel := rt_wqueue_init (writer_queue (the_pipe d w))
                       (rt_wqueue_init (reader_queue (the_pipe d w)) k)\<rparr>;
          rt_assert (sz < 0xFFFF);
          let w = pipe_update d (\<lambda>p. p\<lparr>bufsz := word_of_int sz\<rparr>) w;
          let w = dev_update d (\<lambda>v. v\<lparr>dev_type := RT_Device_Class_Pipe, init_fn := None, open_fn := Some pipe_driver,
                    read_fn := Some pipe_driver, write_fn := Some pipe_driver, close_fn := Some pipe_driver,
                    control_fn := Some pipe_driver, rx_indicate := None, tx_complete := None\<rparr>) w;
          (e, w) \<leftarrow> rt_device_register (Some d) name (RT_DEVICE_FLAG_RDWR OR RT_DEVICE_FLAG_REMOVABLE) w;
          if e \<noteq> 0 then Some (None, w)
          else Some (Some d, dev_update d (\<lambda>v. v\<lparr>fops := Some pipe_driver\<rparr>) w) })"

definition rt_pipe_delete :: "string \<Rightarrow> pipe_world \<Rightarrow> (int \<times> pipe_world) option" where
  "rt_pipe_delete name w = do {
     (device, k) \<leftarrow> rt_device_find name (kernel w);
     let w = w\<lparr>kernel := k\<rparr>;
     (case device of
        Some (ODevice d) \<Rightarrow>
          if dev_type (dev d w) = RT_Device_Class_Pipe then
            if ref_count (dev d w) \<noteq> 0 then Some (- RT_EBUSY, w)
            else do {
              (_, k) \<leftarrow> rt_mutex_detach (pipe_lock (the_pipe d w)) (kernel w);
              (_, w) \<leftarrow> rt_device_unregister d (w\<lparr>kernel := k\<rparr>);
              w \<leftarrow> (if fifo (the_pipe d w) \<noteq> None then pipe_fifo_destroy d w else Some w);
              Some (0, w) }
          else Some (- ENODEV, w)
      | _ \<Rightarrow> Some (- ENODEV, w)) }"

definition mkfifo :: "string \<Rightarrow> nat option \<Rightarrow> pipe_world \<Rightarrow> (int \<times> pipe_world) option" where
  "mkfifo path mem w = do {
     (p, w) \<leftarrow> rt_pipe_create path 512 mem w;
     Some (if p = None then - 1 else 0, w) }"

section \<open>Calls that find the lock free\<close>

lemma pipe_update_fields [simp]:
  "privates (pipe_update d f w) = (privates w)(d := f (privates w d))"
  "kernel (pipe_update d f w) = kernel w" "devices (pipe_update d f w) = devices w"
  by (simp_all add: pipe_update_def)

definition lock_ready :: "tid \<Rightarrow> nat \<Rightarrow> kstate \<Rightarrow> bool" where
  "lock_ready t l k \<longleftrightarrow>
     rt_current_thread k = Some t \<and> RT_DEBUG_NOT_IN_INTERRUPT k = Some () \<and> is_mutex l k = Some () \<and>
     mutexes k l = free_mutex \<and> mutex_waiters l k = []"

definition no_error :: "tid \<Rightarrow> kstate \<Rightarrow> kstate" where
  "no_error t k = thread_update t (\<lambda>th. th\<lparr>error := RT_EOK\<rparr>) k"

definition lock_held :: "tid \<Rightarrow> nat \<Rightarrow> kstate \<Rightarrow> kstate" where
  "lock_held t l k =
     mutex_update l (\<lambda>m. m\<lparr>mutex_value := mutex_value m - 1, owner := Some t,
       original_priority := current_priority (threads k t), hold := hold m + 1\<rparr>) (no_error t k)"

lemma irq_cong:
  assumes "rt_current_thread k' = rt_current_thread k"
    "\<And>t. th_preempt_count (threads k' t) = th_preempt_count (threads k t)"
  shows "RT_DEBUG_NOT_IN_INTERRUPT k' = RT_DEBUG_NOT_IN_INTERRUPT k"
  using assms by (simp add: RT_DEBUG_NOT_IN_INTERRUPT_def rt_interrupt_get_nest_def hardirq_count_def
      preempt_count_def rt_thread_self_def split: option.split)

lemma no_error_fields [simp]:
  "rt_current_thread (no_error t k) = rt_current_thread k" "mutexes (no_error t k) = mutexes k"
  "thread_lists (no_error t k) = thread_lists k" "objects (no_error t k) = objects k"
  "containers (no_error t k) = containers k" "drivers (no_error t k) = drivers k"
  "current_priority (threads (no_error t k) u) = current_priority (threads k u)"
  "is_mutex l (no_error t k) = is_mutex l k" "rt_object_get_type x (no_error t k) = rt_object_get_type x k"
  "RT_DEBUG_NOT_IN_INTERRUPT (no_error t k) = RT_DEBUG_NOT_IN_INTERRUPT k"
proof -
  show "RT_DEBUG_NOT_IN_INTERRUPT (no_error t k) = RT_DEBUG_NOT_IN_INTERRUPT k"
    by (rule irq_cong) (simp_all add: no_error_def threads_update)
qed (simp_all add: no_error_def threads_update is_mutex_def rt_object_get_type_def)

lemma lock_held_fields [simp]:
  "rt_current_thread (lock_held t l k) = rt_current_thread k"
  "objects (lock_held t l k) = objects k" "containers (lock_held t l k) = containers k"
  "drivers (lock_held t l k) = drivers k" "is_mutex l (lock_held t l k) = is_mutex l k"
  "RT_DEBUG_NOT_IN_INTERRUPT (lock_held t l k) = RT_DEBUG_NOT_IN_INTERRUPT k"
  "rt_object_get_type x (lock_held t l k) = rt_object_get_type x k"
proof -
  have "RT_DEBUG_NOT_IN_INTERRUPT (lock_held t l k) = RT_DEBUG_NOT_IN_INTERRUPT (no_error t k)"
    by (rule irq_cong) (simp_all add: lock_held_def mutex_update_def)
  then show "RT_DEBUG_NOT_IN_INTERRUPT (lock_held t l k) = RT_DEBUG_NOT_IN_INTERRUPT k" by simp
qed (simp_all add: lock_held_def mutex_update_def is_mutex_def rt_object_get_type_def)

lemma lock_ready_no_error [simp]: "lock_ready t l (no_error t k) = lock_ready t l k"
  by (simp add: lock_ready_def)

lemma mutex_take_ready:
  assumes "lock_ready t l k"
  shows "rt_mutex_take l time k = Some (Returned RT_EOK, lock_held t l k)"
  using assms
  by (simp add: rt_mutex_take_def lock_ready_def RT_DEBUG_IN_THREAD_CONTEXT_def rt_thread_self_def rt_assert_def
      Let_def free_mutex_def mutex_take_again_def lock_held_def no_error_def)

lemma mutex_release_held:
  assumes "lock_ready t l k"
  shows "rt_mutex_release l (lock_held t l k) = Some (RT_EOK, no_error t k)"
proof -
  have m: "mutexes (lock_held t l k) = (mutexes k)(l := \<lparr>mutex_value = 0,
      original_priority = current_priority (threads k t), hold = 1, owner = Some t\<rparr>)"
    using assms by (simp add: lock_held_def lock_ready_def free_mutex_def)
  have w: "mutex_waiters l (lock_held t l k) = []"
    using assms by (simp add: lock_held_def lock_ready_def)
  have p: "current_priority (threads (lock_held t l k) t) = current_priority (threads k t)"
    by (simp add: lock_held_def)
  have f: "(lock_held t l k)\<lparr>mutexes := (mutexes k)(l := free_mutex)\<rparr> = no_error t k"
    using assms by (simp add: lock_held_def lock_ready_def mutex_update_def no_error_def thread_update_def fun_upd_idem_iff)
  show ?thesis
    using assms m w p f
    by (simp add: rt_mutex_release_def lock_ready_def RT_DEBUG_IN_THREAD_CONTEXT_def rt_thread_self_def rt_assert_def
        Let_def mutex_update_def change_priority_if_def free_mutex_def)
qed

lemma pipe_take_ready:
  assumes "lock_ready t (pipe_lock (the_pipe d w)) (kernel w)"
  shows "pipe_take d w = Some (Returned (), w\<lparr>kernel := lock_held t (pipe_lock (the_pipe d w)) (kernel w)\<rparr>)"
  using mutex_take_ready [OF assms] by (simp add: pipe_take_def)

lemma pipe_release_held:
  assumes "lock_ready t (pipe_lock (the_pipe d w)) k" "kernel w = lock_held t (pipe_lock (the_pipe d w)) k"
  shows "pipe_release d w = Some (w\<lparr>kernel := no_error t k\<rparr>)"
  using mutex_release_held [OF assms(1)] assms(2) by (simp add: pipe_release_def)

section \<open>What the device moves\<close>

lemma unat_low16: "unat (ucast (c :: u32) :: u16) = unat c mod 65536"
  by (simp add: unsigned_ucast_eq take_bit_eq_mod unat_mod)

lemma low16_minus:
  assumes "m \<le> unat c mod 65536"
  shows "unat (ucast ((c :: u32) - of_nat m) :: u16) = unat c mod 65536 - m"
    and "unat (c - of_nat m) = unat c - m" "unat (of_nat m :: u32) = m"
proof -
  have m: "m \<le> unat c" using assms by (meson le_trans mod_less_eq_dividend)
  have l: "m < 65536" using assms by (meson le_less_trans mod_less_divisor zero_less_numeral)
  then show u: "unat (of_nat m :: u32) = m" by (simp add: unat_of_nat)
  then have "of_nat m \<le> c" using m by (simp add: word_le_nat_alt)
  then show d: "unat (c - of_nat m) = unat c - m" using u by (simp add: unat_sub)
  have "(unat c - m) mod 65536 = unat c mod 65536 - m"
  proof -
    have "unat c - m = (unat c mod 65536 - m) + 65536 * (unat c div 65536)"
      using assms m mod_mult_div_eq [of "unat c" 65536] by linarith
    then show ?thesis using l by (simp add: mod_less less_imp_diff_less)
  qed
  then show "unat (ucast (c - of_nat m) :: u16) = unat c mod 65536 - m" unfolding unat_low16 d .
qed

lemma sint_small: "n < 32768 \<Longrightarrow> sint (of_nat n :: u32) = int n"
  by (simp add: signed_of_nat signed_take_bit_int_eq_self)

text \<open>
  One call of the ring moves what fits of the low half of the count; a second call finds the ring full,
  empty, or asks for nothing, and ends the loop.
\<close>

lemma pipe_write_loop_appends:
  assumes inv: "rb_inv rb" and buf: "unat count mod 65536 \<le> length pbuf" and c: "count \<noteq> 0"
  defines "n \<equiv> min (unat count mod 65536) (rb_cap rb - rb_count rb)"
  shows "\<exists>rb'. pipe_write_loop rb pbuf count 0 = Some (of_nat n, rb') \<and> rb_inv rb' \<and>
    rb_cap rb' = rb_cap rb \<and> rb_data rb' = rb_data rb @ take n pbuf"
proof -
  have n: "n < 32768" "n \<le> unat count mod 65536" "n \<le> rb_cap rb - rb_count rb"
    using rb_inv_dest(3) [OF inv] by (auto simp: n_def)
  obtain rb1 where 1: "rt_ringbuffer_put rb pbuf (ucast count) = Some (of_nat n, rb1)" "rb_inv rb1"
    "rb_cap rb1 = rb_cap rb" "rb_data rb1 = rb_data rb @ take n pbuf"
    using rb_put_appends [OF inv, of "ucast count" pbuf] buf by (auto simp: unat_low16 n_def)
  have pos: "0 < count" using c by (simp add: word_gt_0)
  show ?thesis
  proof (cases "n = 0")
    case True
    then show ?thesis using 1 pos by (simp add: pipe_write_loop.simps [of rb])
  next
    case False
    let ?b = "drop n pbuf" and ?l = "ucast (count - of_nat n) :: u16"
    have cnt: "rb_count rb1 = rb_count rb + n"
      using 1(4) length_rb_data [of rb1] length_rb_data [of rb] n(2) buf by simp
    have l: "unat ?l = unat count mod 65536 - n" by (rule low16_minus(1) [OF n(2)])
    have z: "min (unat ?l) (rb_cap rb1 - rb_count rb1) = 0"
    proof -
      have "unat count mod 65536 - n = 0 \<or> rb_cap rb - (rb_count rb + n) = 0" unfolding n_def by auto
      then show ?thesis unfolding l cnt 1(3) by auto
    qed
    have "unat ?l \<le> length ?b" using buf n(2) unfolding l by simp
    from rb_put_appends [OF 1(2) this] z obtain rb2 where
      2: "rt_ringbuffer_put rb1 ?b ?l = Some (0, rb2)" "rb_inv rb2" "rb_cap rb2 = rb_cap rb1" "rb_data rb2 = rb_data rb1"
      by auto
    have u: "unat (of_nat n :: u32) = n" by (rule low16_minus(3) [OF n(2)])
    have second: "pipe_write_loop rb1 pbuf count (of_nat n) = Some (of_nat n, if of_nat n < count then rb2 else rb1)"
      using 2(1) u by (subst pipe_write_loop.simps) simp
    have "pipe_write_loop rb pbuf count 0 = pipe_write_loop rb1 pbuf count (of_nat n)"
      using 1(1) pos sint_small [OF n(1)] False by (subst pipe_write_loop.simps) simp
    then show ?thesis using 1 2 second by simp
  qed
qed

lemma pipe_read_loop_takes:
  assumes inv: "rb_inv rb" and buf: "unat count mod 65536 \<le> length pbuf" and c: "count \<noteq> 0"
  defines "n \<equiv> min (unat count mod 65536) (rb_count rb)"
  shows "\<exists>rb'. pipe_read_loop rb pbuf count 0 = Some (of_nat n, take n (rb_data rb) @ drop n pbuf, rb') \<and>
    rb_inv rb' \<and> rb_cap rb' = rb_cap rb \<and> rb_data rb' = drop n (rb_data rb)"
proof -
  have n: "n < 32768" "n \<le> unat count mod 65536" "n \<le> rb_count rb"
    using rb_inv_dest(3,7) [OF inv] by (auto simp: n_def)
  let ?o = "take n (rb_data rb) @ drop n pbuf"
  obtain rb1 where 1: "rt_ringbuffer_get rb pbuf (ucast count) = Some (of_nat n, ?o, rb1)" "rb_inv rb1"
    "rb_cap rb1 = rb_cap rb" "rb_data rb1 = drop n (rb_data rb)"
    using rb_get_takes [OF inv, of "ucast count" pbuf] buf by (auto simp: unat_low16 n_def)
  have pos: "0 < count" using c by (simp add: word_gt_0)
  show ?thesis
  proof (cases "n = 0")
    case True
    then show ?thesis using 1 pos by (simp add: pipe_read_loop.simps [of rb])
  next
    case False
    let ?b = "drop n ?o" and ?l = "ucast (count - of_nat n) :: u16"
    have cnt: "rb_count rb1 = rb_count rb - n"
      using 1(4) length_rb_data [of rb1] length_rb_data [of rb] by simp
    have l: "unat ?l = unat count mod 65536 - n" by (rule low16_minus(1) [OF n(2)])
    have z: "min (unat ?l) (rb_count rb1) = 0"
    proof -
      have "unat count mod 65536 - n = 0 \<or> rb_count rb - n = 0" unfolding n_def by auto
      then show ?thesis unfolding l cnt by auto
    qed
    have lo: "length ?o = length pbuf" using n buf by simp
    then have "unat ?l \<le> length ?b" using buf n(2) unfolding l by simp
    from rb_get_takes [OF 1(2) this] z obtain rb2 where
      2: "rt_ringbuffer_get rb1 ?b ?l = Some (0, ?b, rb2)" "rb_inv rb2" "rb_cap rb2 = rb_cap rb1" "rb_data rb2 = rb_data rb1"
      by auto
    have u: "unat (of_nat n :: u32) = n" by (rule low16_minus(3) [OF n(2)])
    have second: "pipe_read_loop rb1 ?o count (of_nat n) = Some (of_nat n, ?o, if of_nat n < count then rb2 else rb1)"
      using 2(1) u min_absorb2 [OF n(3)] by (subst pipe_read_loop.simps) simp
    have "pipe_read_loop rb pbuf count 0 = pipe_read_loop rb1 ?o count (of_nat n)"
      using 1(1) pos sint_small [OF n(1)] False by (subst pipe_read_loop.simps) simp
    then show ?thesis using 1 2 second by simp
  qed
qed

text \<open>
  The state of a pipe that is open as a device, and whose lock the running thread \<open>t\<close> finds free. What
  a call changes is the ring, and the error code of the thread.
\<close>

definition pipe_ready :: "tid \<Rightarrow> nat \<Rightarrow> rt_ringbuffer \<Rightarrow> pipe_world \<Rightarrow> bool" where
  "pipe_ready t d rb w \<longleftrightarrow>
     lock_ready t (pipe_lock (the_pipe d w)) (kernel w) \<and> is_device d w = Some () \<and>
     fifo (the_pipe d w) = Some rb \<and> rb_inv rb \<and>
     open_fn (dev d w) = Some pipe_driver \<and> close_fn (dev d w) = Some pipe_driver \<and>
     read_fn (dev d w) = Some pipe_driver \<and> write_fn (dev d w) = Some pipe_driver \<and> init_fn (dev d w) = None"

definition pipe_moved :: "tid \<Rightarrow> nat \<Rightarrow> rt_ringbuffer \<Rightarrow> pipe_world \<Rightarrow> pipe_world" where
  "pipe_moved t d rb w = (pipe_update d (\<lambda>p. p\<lparr>fifo := Some rb\<rparr>) w)\<lparr>kernel := no_error t (kernel w)\<rparr>"

lemma pipe_moved_fields [simp]:
  "kernel (pipe_moved t d rb w) = no_error t (kernel w)" "devices (pipe_moved t d rb w) = devices w"
  "privates (pipe_moved t d rb w) = (privates w)(d := (privates w d)\<lparr>fifo := Some rb\<rparr>)"
  by (simp_all add: pipe_moved_def)

lemma pipe_ready_moved:
  "pipe_ready t d rb w \<Longrightarrow> rb_inv rb' \<Longrightarrow> pipe_ready t d rb' (pipe_moved t d rb' w)"
  by (simp add: pipe_ready_def is_device_def)

lemma rt_pipe_write_ready:
  assumes p: "pipe_ready t d rb w" and buf: "unat count mod 65536 \<le> length data" and c: "count \<noteq> 0"
  defines "n \<equiv> min (unat count mod 65536) (rb_cap rb - rb_count rb)"
  shows "\<exists>rb'. rt_pipe_write (Some d) pos data count w = Some (Returned (of_nat n), pipe_moved t d rb' w) \<and>
    rb_inv rb' \<and> rb_cap rb' = rb_cap rb \<and> rb_data rb' = rb_data rb @ take n data"
proof -
  let ?l = "pipe_lock (the_pipe d w)"
  note r = p [unfolded pipe_ready_def]
  from r have inv: "rb_inv rb" by simp
  obtain rb' where rb': "pipe_write_loop rb data count 0 = Some (of_nat n, rb')" "rb_inv rb'" "rb_cap rb' = rb_cap rb"
    "rb_data rb' = rb_data rb @ take n data"
    using pipe_write_loop_appends [OF inv buf c] by (auto simp: n_def)
  let ?w = "pipe_update d (\<lambda>p. p\<lparr>fifo := Some rb'\<rparr>) (w\<lparr>kernel := lock_held t ?l (kernel w)\<rparr>)"
  have "pipe_release d ?w = Some (?w\<lparr>kernel := no_error t (kernel w)\<rparr>)"
    by (rule pipe_release_held) (use r in simp_all)
  then have "rt_pipe_write (Some d) pos data count w = Some (Returned (of_nat n), pipe_moved t d rb' w)"
    using c r pipe_take_ready [of t w d] rb'(1)
    by (simp add: rt_pipe_write_def rt_pipe_write_locked_def pipe_moved_def pipe_update_def)
  then show ?thesis using rb' by blast
qed

lemma rt_pipe_read_ready:
  assumes p: "pipe_ready t d rb w" and buf: "unat count mod 65536 \<le> length buffer" and c: "count \<noteq> 0"
  defines "n \<equiv> min (unat count mod 65536) (rb_count rb)"
  shows "\<exists>rb'. rt_pipe_read (Some d) pos buffer count w =
      Some (Returned (of_nat n, take n (rb_data rb) @ drop n buffer), pipe_moved t d rb' w) \<and>
    rb_inv rb' \<and> rb_cap rb' = rb_cap rb \<and> rb_data rb' = drop n (rb_data rb)"
proof -
  let ?l = "pipe_lock (the_pipe d w)"
  note r = p [unfolded pipe_ready_def]
  from r have inv: "rb_inv rb" by simp
  obtain rb' where rb': "pipe_read_loop rb buffer count 0 = Some (of_nat n, take n (rb_data rb) @ drop n buffer, rb')"
    "rb_inv rb'" "rb_cap rb' = rb_cap rb" "rb_data rb' = drop n (rb_data rb)"
    using pipe_read_loop_takes [OF inv buf c] by (auto simp: n_def)
  let ?w = "pipe_update d (\<lambda>p. p\<lparr>fifo := Some rb'\<rparr>) (w\<lparr>kernel := lock_held t ?l (kernel w)\<rparr>)"
  have "pipe_release d ?w = Some (?w\<lparr>kernel := no_error t (kernel w)\<rparr>)"
    by (rule pipe_release_held) (use r in simp_all)
  then have "rt_pipe_read (Some d) pos buffer count w =
      Some (Returned (of_nat n, take n (rb_data rb) @ drop n buffer), pipe_moved t d rb' w)"
    using c r pipe_take_ready [of t w d] rb'(1)
    by (simp add: rt_pipe_read_def rt_pipe_read_locked_def pipe_moved_def pipe_update_def)
  then show ?thesis using rb' by blast
qed

text \<open>
  Through the device layer: a write then a read of an open pipe. Each moves as much as fits, but of a
  count only its low 16 bits are seen: a write of 65536 bytes into an empty pipe writes nothing.
\<close>

theorem pipe_device_write_read:
  assumes p: "pipe_ready t d rb w" and opn: "ref_count (dev d w) \<noteq> 0"
    and c: "count \<noteq> 0" "unat count mod 65536 \<le> length data" "m \<noteq> 0" "unat m mod 65536 \<le> length buffer"
  defines "n \<equiv> min (unat count mod 65536) (rb_cap rb - rb_count rb)"
  shows "\<exists>w1 w2. rt_device_write (pipe_code mem) d pos data count w = Some (Returned (of_nat n), w1) \<and>
    (let xs = rb_data rb @ take n data; k = min (unat m mod 65536) (length xs) in
     rt_device_read (pipe_code mem) d pos buffer m w1 =
       Some (Returned (of_nat k, take k xs @ drop k buffer), w2))"
proof -
  obtain rb1 where 1: "rt_pipe_write (Some d) pos data count w = Some (Returned (of_nat n), pipe_moved t d rb1 w)"
    "rb_inv rb1" "rb_data rb1 = rb_data rb @ take n data"
    using rt_pipe_write_ready [OF p c(2,1)] by (auto simp: n_def)
  let ?w1 = "pipe_moved t d rb1 w"
  have p1: "pipe_ready t d rb1 ?w1" by (rule pipe_ready_moved [OF p 1(2)])
  have k: "rb_count rb1 = length (rb_data rb @ take n data)" using 1(3) length_rb_data [of rb1] by simp
  obtain rb2 where 2: "rt_pipe_read (Some d) pos buffer m ?w1 =
      Some (Returned (of_nat (min (unat m mod 65536) (rb_count rb1)),
        take (min (unat m mod 65536) (rb_count rb1)) (rb_data rb1) @ drop (min (unat m mod 65536) (rb_count rb1)) buffer),
        pipe_moved t d rb2 ?w1)"
    using rt_pipe_read_ready [OF p1 c(4,3)] by blast
  have "rt_device_write (pipe_code mem) d pos data count w = Some (Returned (of_nat n), ?w1)"
    using p opn 1(1) by (simp add: rt_device_write_def pipe_ready_def pipe_code_def)
  moreover have "rt_device_read (pipe_code mem) d pos buffer m ?w1 =
      Some (Returned (of_nat (min (unat m mod 65536) (rb_count rb1)),
        take (min (unat m mod 65536) (rb_count rb1)) (rb_data rb1) @ drop (min (unat m mod 65536) (rb_count rb1)) buffer),
        pipe_moved t d rb2 ?w1)"
    using p1 opn 2 by (simp add: rt_device_read_def pipe_ready_def pipe_code_def)
  ultimately show ?thesis unfolding k 1(3) Let_def by blast
qed

text \<open>
  C39: \<^verbatim>\<open>rt_pipe_close\<close> is meant to destroy the ring with the last close, but \<^verbatim>\<open>rt_device_close\<close> has counted
  the reference down before it calls it, so the count is never 1 there. After the last close the ring
  and what was not read are still there, and whoever opens the pipe next reads it.
\<close>

theorem rt_pipe_close_keeps_data:
  assumes p: "pipe_ready t d rb w" and one: "ref_count (dev d w) = 1"
    and stand: "dev_flag (dev d w) AND RT_DEVICE_FLAG_STANDALONE = 0"
    and c: "count \<noteq> 0" "unat count < 65536" "unat count \<le> length buffer"
  defines "n \<equiv> min (unat count) (rb_count rb)"
  shows "\<exists>w1 w2 w3. rt_device_close (pipe_code mem) d w = Some (Returned RT_EOK, w1) \<and>
    ref_count (dev d w1) = 0 \<and> fifo (the_pipe d w1) = Some rb \<and>
    rt_device_open (pipe_code mem) d oflag w1 = Some (Returned RT_EOK, w2) \<and>
    rt_device_read (pipe_code mem) d pos buffer count w2 =
      Some (Returned (of_nat n, take n (rb_data rb) @ drop n buffer), w3)"
proof -
  let ?l = "pipe_lock (the_pipe d w)"
  let ?f = "\<lambda>v. v\<lparr>ref_count := ref_count v - 1\<rparr>"
  let ?wa = "dev_update d ?f w"
  note r = p [unfolded pipe_ready_def]
  have rel: "pipe_release d (u\<lparr>kernel := lock_held t ?l k\<rparr>) = Some (u\<lparr>kernel := no_error t k\<rparr>)"
    if "lock_ready t ?l k" "pipe_lock (the_pipe d u) = ?l" for u :: pipe_world and k
    using pipe_release_held [of t "u\<lparr>kernel := lock_held t ?l k\<rparr>" d k] that by simp
  have cl: "rt_pipe_close (Some d) ?wa = Some (Returned RT_EOK, ?wa\<lparr>kernel := no_error t (kernel w)\<rparr>)"
    using r one pipe_take_ready [of t ?wa d] rel [of "kernel w" ?wa]
    by (simp add: rt_pipe_close_def rt_pipe_close_locked_def)
  obtain r1 w1 where cd: "close_done d RT_EOK (?wa\<lparr>kernel := no_error t (kernel w)\<rparr>) = (r1, w1)" by fastforce
  have w1: "r1 = RT_EOK" "w1 = (dev_update d (\<lambda>v. v\<lparr>ref_count := 0, open_flag := RT_DEVICE_OFLAG_CLOSE,
      dev_flag := dev_flag v AND NOT RT_DEVICE_FLAG_ACTIVATED\<rparr>) w)\<lparr>kernel := no_error t (kernel w)\<rparr>"
    using cd one by (auto simp: close_done_def Let_def dev_update_def)
  have 1: "rt_device_close (pipe_code mem) d w = Some (Returned RT_EOK, w1)"
    using r one cl cd w1(1) by (simp add: rt_device_close_def Let_def pipe_code_def)
  let ?wb = "dev_update d activate w1"
  have lr: "lock_ready t ?l (kernel ?wb)" "the_pipe d ?wb = the_pipe d w" using r by (simp_all add: w1)
  have fo: "fifo (the_pipe d w) = Some rb" using r by simp
  have op: "rt_pipe_open mem (Some d) oflag ?wb = Some (Returned RT_EOK, ?wb\<lparr>kernel := no_error t (kernel ?wb)\<rparr>)"
    using lr fo pipe_take_ready [of t ?wb d] rel [of "kernel ?wb" ?wb]
    by (simp add: rt_pipe_open_def rt_pipe_open_locked_def)
  have isd: "is_device d w1 = Some ()" using r by (simp add: w1 is_device_def)
  have off: "dev_flag (dev d w1) AND RT_DEVICE_FLAG_ACTIVATED = 0"
    "open_flag (dev d ?wb) AND RT_DEVICE_OFLAG_OPEN = 0" "open_fn (dev d ?wb) = Some pipe_driver"
    "init_fn (dev d w1) = None" "ref_count (dev d ?wb) = 0"
    using r by (simp_all add: w1 and.assoc activate_def RT_DEVICE_OFLAG_CLOSE_def)
  let ?w2 = "dev_update d (\<lambda>v. v\<lparr>open_flag := open_flag v OR RT_DEVICE_OFLAG_OPEN, ref_count := ref_count v + 1\<rparr>)
    (?wb\<lparr>kernel := no_error t (kernel ?wb)\<rparr>)"
  have oa: "open_activated (pipe_code mem) d oflag ?wb = Some (Returned RT_EOK, ?w2)"
    using off(2,3,5) op unfolding open_activated_def
    by (simp add: pipe_code_def open_done_def Let_def)
  then have 2: "rt_device_open (pipe_code mem) d oflag w1 = Some (Returned RT_EOK, ?w2)"
    using isd off(1,4) by (simp add: rt_device_open_def open_inited_def)
  have p2: "pipe_ready t d rb ?w2"
    using r by (simp add: pipe_ready_def w1 activate_def is_device_def)
  have rc: "ref_count (dev d ?w2) = 1" using off(5) by simp
  have "unat count mod 65536 = unat count" using c(2) by simp
  then obtain rb' where rb': "rt_pipe_read (Some d) pos buffer count ?w2 =
      Some (Returned (of_nat n, take n (rb_data rb) @ drop n buffer), pipe_moved t d rb' ?w2)"
    using rt_pipe_read_ready [OF p2 _ c(1), of buffer pos] c(3) by (auto simp: n_def)
  have "rt_device_read (pipe_code mem) d pos buffer count ?w2 =
      Some (Returned (of_nat n, take n (rb_data rb) @ drop n buffer), pipe_moved t d rb' ?w2)"
    using p2 rc rb' unfolding rt_device_read_def by (simp add: pipe_ready_def pipe_code_def)
  then show ?thesis using 1 2 fo w1(2) by (intro exI [of _ w1] exI [of _ ?w2] exI) simp
qed

section \<open>Creation\<close>

lemma sys_ok_object_update [simp]: "sys_ok (object_update x f s) = sys_ok s"
  by (simp add: sys_ok_def stacks_ok_def thread_stat_def object_update_def rt_scheduler_stack_check_def)

lemma sys_ok_wqueue_init [simp]: "sys_ok (rt_wqueue_init q s) = sys_ok s"
  by (simp add: rt_wqueue_init_def same_sched_ok(1) [OF same_sched_steps(1)])

lemma rt_wqueue_init_fields [simp]:
  "containers (rt_wqueue_init q s) = containers s" "objects (rt_wqueue_init q s) = objects s"
  by (simp_all add: rt_wqueue_init_def wqueue_update_def)

lemma pipe_memset_containers [simp]: "containers (kernel (pipe_memset d w)) = containers (kernel w)"
  by (simp add: pipe_memset_def Let_def) (simp add: mutex_update_def object_update_def)



text \<open>
  The assertion of \<^verbatim>\<open>rt_pipe_create\<close> lets sizes through that \<^verbatim>\<open>rt_ringbuffer_init\<close> refuses, because the
  size is a signed 16-bit number there and is rounded down to a multiple of 4: the first open of such a
  pipe stops at an assertion.
\<close>

theorem rt_pipe_open_bad_size:
  assumes "fifo (the_pipe d w) = None" "bufsz (the_pipe d w) = word_of_int sz" "sz < 4 \<or> 0x8000 \<le> sz" "0 \<le> sz" "sz < 0xFFFF"
    and "fst mem" "snd mem (unat (ucast (RT_ALIGN_DOWN (ucast (bufsz (the_pipe d w))) RT_ALIGN_SIZE) :: u16)) \<noteq> None"
  shows "rt_pipe_open_locked mem d w = None"
proof -
  let ?b = "bufsz (the_pipe d w)" and ?n = "nat sz"
  let ?a = "ucast (RT_ALIGN_DOWN (ucast ?b) RT_ALIGN_SIZE) :: u16"
  have n: "?n < 65535" "?n < 4 \<or> 32768 \<le> ?n" using assms(3-5) by auto
  have "unat ?b = ?n" using assms(2,4,5) by (simp add: unsigned_of_int take_bit_int_eq_self)
  then have "unat (ucast ?b :: u32) = ?n" using n(1) by simp
  then have a: "unat (RT_ALIGN_DOWN (ucast ?b) RT_ALIGN_SIZE) = ?n - ?n mod 4" by (simp add: unat_align_down)
  then have u: "unat ?a = ?n - ?n mod 4" using n(1) by (simp add: unat_ucast_small)
  have "\<not> 0 < sint ?a"
  proof (cases "?n < 4")
    case True
    then have "?a = 0" using u by (simp add: unat_eq_0)
    then show ?thesis by simp
  next
    case False
    have "32768 \<le> m - m mod 4" if "32768 \<le> m" for m :: nat using that by presburger
    then have "32768 \<le> unat ?a" using False n(2) unfolding u by blast
    moreover have "uint ?a < 32768" if "0 < sint ?a"
      using that sint16_less [of ?a] by (simp add: uint_sint take_bit_int_eq_self)
    moreover have "int (unat ?a) = uint ?a" unfolding uint_nat by simp
    ultimately show ?thesis by linarith
  qed
  then have "rt_ringbuffer_create ?b (fst mem) (snd mem) = None"
    using assms(6,7) by (auto simp: rt_ringbuffer_create_def rt_ringbuffer_init_def Let_def rt_assert_def)
  then show ?thesis using assms(1) by (simp add: rt_pipe_open_locked_def pipe_fifo_create_def)
qed

end
