(* ===== verification/RTT_PipeFile.thy ===== *)
theory RTT_PipeFile
  imports RTT_Pipe
begin

text \<open>
  The file operations of pipes (\<^verbatim>\<open>pipe_fops\<close> of \<^verbatim>\<open>pipe.c\<close>). They call the scheduler in many places, so
  each is a machine whose states are the points in front of its kernel calls. A step runs the code from
  one such point to the next; other threads run in between. The stretches that move bytes run under
  the lock of the pipe, so that a step of the model is atomic there. \<open>user\<close> are the wake functions of
  \<^verbatim>\<open>waitqueue.c\<close>, \<open>node\<close> the node on the caller's stack and \<open>t\<close> the caller.
\<close>

record dfs_fd =
  fd_flags :: u32
  fd_data :: "nat option"

type_synonym wake_funcs = "nat \<Rightarrow> rt_wqueue_node \<Rightarrow> nat \<Rightarrow> int"

definition poll_key :: "int list \<Rightarrow> nat" where
  "poll_key flags = nat (sum_list flags)"

definition pipe_wakeup :: "wake_funcs \<Rightarrow> nat \<Rightarrow> int list \<Rightarrow> pipe_world \<Rightarrow> pipe_world option" where
  "pipe_wakeup user q flags w = do {
     k \<leftarrow> rt_wqueue_wakeup user q (poll_key flags) (kernel w);
     Some (w\<lparr>kernel := k\<rparr>) }"

section \<open>Opening and closing\<close>

datatype open_pc = OpStart | OpTake | OpLocked | OpDone int

definition open_side :: "u32 \<Rightarrow> rt_pipe \<Rightarrow> rt_pipe" where
  "open_side flags p =
     (let a = flags AND O_ACCMODE in
      if a = O_RDONLY then p\<lparr>readers := readers p + 1\<rparr>
      else if a = O_WRONLY then p\<lparr>writers := writers p + 1\<rparr>
      else if a = O_RDWR then p\<lparr>readers := readers p + 1, writers := writers p + 1\<rparr>
      else p)"

definition pipe_fops_open ::
  "rb_memory \<Rightarrow> dfs_fd \<Rightarrow> tid \<Rightarrow> open_pc \<Rightarrow> pipe_world \<Rightarrow> (open_pc \<times> pipe_world) option" where
  "pipe_fops_open mem fd t pc w =
     (case fd_data fd of
        None \<Rightarrow> Some (OpDone (- 1), w)
      | Some d \<Rightarrow>
          (case pc of
             OpStart \<Rightarrow> do {
               (r, w) \<leftarrow> pipe_take d w;
               Some (case r of Returned _ \<Rightarrow> OpLocked | Blocked _ \<Rightarrow> OpTake, w) }
           | OpTake \<Rightarrow> do {
               (r, w) \<leftarrow> pipe_take_wake d t w;
               Some (case r of Returned _ \<Rightarrow> OpLocked | Blocked _ \<Rightarrow> OpTake, w) }
           | OpLocked \<Rightarrow> do {
               w \<leftarrow> (if ref_count (dev d w) = 0 then pipe_fifo_create mem d w else Some w);
               if ref_count (dev d w) = 0 \<and> fifo (the_pipe d w) = None
               then do { w \<leftarrow> pipe_release d w; Some (OpDone (- RT_ENOMEM), w) }
               else do {
                 let w = pipe_update d (open_side (fd_flags fd)) w;
                 w \<leftarrow> pipe_release d (dev_update d (\<lambda>v. v\<lparr>ref_count := ref_count v + 1\<rparr>) w);
                 Some (OpDone 0, w) } }
           | OpDone r \<Rightarrow> Some (OpDone r, w)))"




section \<open>Control and poll\<close>

definition FIONREAD :: u32 where "FIONREAD = 0x8004667f"
definition FIONWRITE :: u32 where "FIONWRITE = 0x80046679"

text \<open>The second component is what is stored in \<^verbatim>\<open>*args\<close>.\<close>

definition pipe_fops_ioctl :: "dfs_fd \<Rightarrow> u32 \<Rightarrow> pipe_world \<Rightarrow> (int \<times> u32 option) option" where
  "pipe_fops_ioctl fd cmd w = do {
     d \<leftarrow> fd_data fd;
     if cmd = FIONREAD then do { rb \<leftarrow> fifo (the_pipe d w); Some (0, Some (rt_ringbuffer_data_len rb)) }
     else if cmd = FIONWRITE then do { rb \<leftarrow> fifo (the_pipe d w); Some (0, Some (rt_ringbuffer_space_len rb)) }
     else Some (- EINVAL, None) }"

text \<open>\<open>poll_add\<close> is \<^verbatim>\<open>rt_poll_add\<close> with the request of the caller.\<close>

definition pipe_fops_poll :: "(nat \<Rightarrow> kstate \<Rightarrow> kstate) \<Rightarrow> dfs_fd \<Rightarrow> pipe_world \<Rightarrow> (int \<times> pipe_world) option" where
  "pipe_fops_poll poll_add fd w = do {
     d \<leftarrow> fd_data fd;
     let w = w\<lparr>kernel := poll_add (writer_queue (the_pipe d w)) (poll_add (reader_queue (the_pipe d w)) (kernel w))\<rparr>;
     let a = fd_flags fd AND O_ACCMODE;
     m1 \<leftarrow> (if a = O_RDONLY \<or> a = O_RDWR then do {
              rb \<leftarrow> fifo (the_pipe d w);
              Some ((if rt_ringbuffer_data_len rb \<noteq> 0 then POLLIN else 0) +
                    (if writers (the_pipe d w) = 0 then POLLHUP else 0)) }
            else Some 0);
     m2 \<leftarrow> (if a = O_WRONLY \<or> a = O_RDWR then do {
              rb \<leftarrow> fifo (the_pipe d w);
              Some ((if rt_ringbuffer_space_len rb \<noteq> 0 then POLLOUT else 0) +
                    (if readers (the_pipe d w) = 0 then POLLERR else 0)) }
            else Some 0);
     Some (m1 + m2, w) }"

section \<open>Reading\<close>

datatype rd_pc = RdStart | RdLock | RdTake | RdLocked | RdOff | RdKick | RdWait | RdSleep
  | RdWake int | RdOut int | RdDone int

text \<open>From the lock on, \<^verbatim>\<open>while (1)\<close> in \<^verbatim>\<open>pipe_fops_read\<close>.\<close>

definition read_locked ::
  "dfs_fd \<Rightarrow> nat \<Rightarrow> u32 \<Rightarrow> u8 list \<Rightarrow> pipe_world \<Rightarrow> ((rd_pc \<times> u8 list) \<times> pipe_world) option" where
  "read_locked fd d count buf w =
     (if writers (the_pipe d w) = 0 then Some ((RdOut 0, buf), w)
      else do {
        rb \<leftarrow> fifo (the_pipe d w);
        (len, buf, rb) \<leftarrow> rt_ringbuffer_get rb buf (ucast count);
        let w = pipe_update d (\<lambda>p. p\<lparr>fifo := Some rb\<rparr>) w;
        Some ((if sint len > 0 then RdWake (sint len)
               else if fd_flags fd AND O_NONBLOCK \<noteq> 0 then RdOut (- EAGAIN)
               else RdOff, buf), w) })"

definition pipe_fops_read ::
  "wake_funcs \<Rightarrow> dfs_fd \<Rightarrow> u32 \<Rightarrow> nat \<Rightarrow> tid \<Rightarrow> rd_pc \<Rightarrow> u8 list \<Rightarrow> pipe_world \<Rightarrow> ((rd_pc \<times> u8 list) \<times> pipe_world) option" where
  "pipe_fops_read user fd count node t pc buf w = do {
     d \<leftarrow> fd_data fd;
     (case pc of
        RdStart \<Rightarrow> Some ((if writers (the_pipe d w) = 0 then RdDone 0 else RdLock, buf), w)
      | RdLock \<Rightarrow> do {
          (r, w) \<leftarrow> pipe_take d w;
          Some ((case r of Returned _ \<Rightarrow> RdLocked | Blocked _ \<Rightarrow> RdTake, buf), w) }
      | RdTake \<Rightarrow> do {
          (r, w) \<leftarrow> pipe_take_wake d t w;
          Some ((case r of Returned _ \<Rightarrow> RdLocked | Blocked _ \<Rightarrow> RdTake, buf), w) }
      | RdLocked \<Rightarrow> read_locked fd d count buf w
      | RdOff \<Rightarrow> do { w \<leftarrow> pipe_release d w; Some ((RdKick, buf), w) }
      | RdKick \<Rightarrow> do { w \<leftarrow> pipe_wakeup user (writer_queue (the_pipe d w)) [POLLOUT] w; Some ((RdWait, buf), w) }
      | RdWait \<Rightarrow> do {
          (r, k) \<leftarrow> rt_wqueue_wait (reader_queue (the_pipe d w)) False (- 1) node (kernel w);
          Some ((case r of Returned _ \<Rightarrow> RdLock | Blocked _ \<Rightarrow> RdSleep, buf), w\<lparr>kernel := k\<rparr>) }
      | RdSleep \<Rightarrow>
          Some ((RdLock, buf), w\<lparr>kernel := snd (rt_wqueue_wait_wake (reader_queue (the_pipe d w)) node (kernel w))\<rparr>)
      | RdWake len \<Rightarrow> do {
          w \<leftarrow> pipe_wakeup user (writer_queue (the_pipe d w)) [POLLOUT] w; Some ((RdOut len, buf), w) }
      | RdOut len \<Rightarrow> do { w \<leftarrow> pipe_release d w; Some ((RdDone len, buf), w) }
      | RdDone len \<Rightarrow> Some ((RdDone len, buf), w)) }"

section \<open>Writing\<close>

datatype wr_pc = WrStart | WrLock | WrTake | WrLocked | WrOff | WrKick | WrWait | WrSleep | WrOut | WrKickOut | WrDone

text \<open>The variables \<^verbatim>\<open>ret\<close> and \<^verbatim>\<open>wakeup\<close>; \<^verbatim>\<open>pbuf\<close> is always \<^verbatim>\<open>buf + ret\<close>.\<close>

record wr_vars =
  wr_ret :: int
  wr_wakeup :: bool

definition write_locked ::
  "dfs_fd \<Rightarrow> nat \<Rightarrow> u32 \<Rightarrow> u8 list \<Rightarrow> wr_vars \<Rightarrow> pipe_world \<Rightarrow> ((wr_pc \<times> wr_vars) \<times> pipe_world) option" where
  "write_locked fd d count data v w =
     (if readers (the_pipe d w) = 0
      then Some ((WrOut, if wr_ret v = 0 then v\<lparr>wr_ret := - EPIPE\<rparr> else v), w)
      else do {
        rb \<leftarrow> fifo (the_pipe d w);
        (len, rb) \<leftarrow> rt_ringbuffer_put rb (drop (nat (wr_ret v)) data) (ucast (count - word_of_int (wr_ret v)));
        let w = pipe_update d (\<lambda>p. p\<lparr>fifo := Some rb\<rparr>) w;
        let v = v\<lparr>wr_ret := wr_ret v + sint len, wr_wakeup := True\<rparr>;
        Some (if word_of_int (wr_ret v) = count then (WrOut, v)
              else if fd_flags fd AND O_NONBLOCK \<noteq> 0
              then (WrOut, if wr_ret v = 0 then v\<lparr>wr_ret := - EAGAIN\<rparr> else v)
              else (WrOff, v), w) })"

definition pipe_fops_write ::
  "wake_funcs \<Rightarrow> dfs_fd \<Rightarrow> u32 \<Rightarrow> u8 list \<Rightarrow> nat \<Rightarrow> tid \<Rightarrow> wr_pc \<Rightarrow> wr_vars \<Rightarrow> pipe_world \<Rightarrow>
     ((wr_pc \<times> wr_vars) \<times> pipe_world) option" where
  "pipe_fops_write user fd count data node t pc v w = do {
     d \<leftarrow> fd_data fd;
     (case pc of
        WrStart \<Rightarrow>
          Some (if readers (the_pipe d w) = 0 then (WrDone, v\<lparr>wr_ret := - EPIPE\<rparr>)
                else if count = 0 then (WrDone, v\<lparr>wr_ret := 0\<rparr>)
                else (WrLock, v), w)
      | WrLock \<Rightarrow> do {
          (r, w) \<leftarrow> pipe_take d w;
          Some ((case r of Returned _ \<Rightarrow> WrLocked | Blocked _ \<Rightarrow> WrTake, v), w) }
      | WrTake \<Rightarrow> do {
          (r, w) \<leftarrow> pipe_take_wake d t w;
          Some ((case r of Returned _ \<Rightarrow> WrLocked | Blocked _ \<Rightarrow> WrTake, v), w) }
      | WrLocked \<Rightarrow> write_locked fd d count data v w
      | WrOff \<Rightarrow> do { w \<leftarrow> pipe_release d w; Some ((WrKick, v), w) }
      | WrKick \<Rightarrow> do { w \<leftarrow> pipe_wakeup user (reader_queue (the_pipe d w)) [POLLIN] w; Some ((WrWait, v), w) }
      | WrWait \<Rightarrow> do {
          (r, k) \<leftarrow> rt_wqueue_wait (writer_queue (the_pipe d w)) False (- 1) node (kernel w);
          Some ((case r of Returned _ \<Rightarrow> WrLock | Blocked _ \<Rightarrow> WrSleep, v), w\<lparr>kernel := k\<rparr>) }
      | WrSleep \<Rightarrow>
          Some ((WrLock, v), w\<lparr>kernel := snd (rt_wqueue_wait_wake (writer_queue (the_pipe d w)) node (kernel w))\<rparr>)
      | WrOut \<Rightarrow> do { w \<leftarrow> pipe_release d w; Some ((if wr_wakeup v then WrKickOut else WrDone, v), w) }
      | WrKickOut \<Rightarrow> do { w \<leftarrow> pipe_wakeup user (reader_queue (the_pipe d w)) [POLLIN] w; Some ((WrDone, v), w) }
      | WrDone \<Rightarrow> Some ((WrDone, v), w)) }"

section \<open>The unnamed pipe\<close>

text \<open>
  \<^verbatim>\<open>pipe()\<close>. The calls \<^verbatim>\<open>open\<close> and \<^verbatim>\<open>close\<close> of the file system are parameters, and \<open>num\<close> writes a number
  in decimal; \<open>pipeno\<close> is the static counter.
\<close>

definition posix_pipe ::
  "(nat \<Rightarrow> string) \<Rightarrow> (string \<Rightarrow> u32 \<Rightarrow> pipe_world \<Rightarrow> (int \<times> pipe_world) option) \<Rightarrow>
   (int \<Rightarrow> pipe_world \<Rightarrow> pipe_world option) \<Rightarrow> nat option \<Rightarrow> int \<times> int \<Rightarrow> nat \<Rightarrow> pipe_world \<Rightarrow>
     (int \<times> (int \<times> int) \<times> nat \<times> pipe_world) option" where
  "posix_pipe num open_file close_file mem fildes pipeno w = do {
     let dname = take 31 (''pipe'' @ num pipeno);
     (p, w) \<leftarrow> rt_pipe_create dname 512 mem w;
     (case p of
        None \<Rightarrow> Some (- 1, fildes, pipeno + 1, w)
      | Some d \<Rightarrow> do {
          let w = pipe_update d (\<lambda>p. p\<lparr>is_named := False\<rparr>) w;
          let dev_name = take 31 (''/dev/'' @ dname);
          (f0, w) \<leftarrow> open_file dev_name O_RDONLY w;
          if f0 < 0 then Some (- 1, (f0, snd fildes), pipeno + 1, w)
          else do {
            (f1, w) \<leftarrow> open_file dev_name O_WRONLY w;
            if f1 < 0 then do { w \<leftarrow> close_file f0 w; Some (- 1, (f0, f1), pipeno + 1, w) }
            else Some (0, (f0, f1), pipeno + 1, w) } }) }"

section \<open>The stream of bytes\<close>

text \<open>Only the stretch under the lock moves bytes; the other steps leave every pipe alone.\<close>

lemma pipe_take_keeps:
  "pipe_take d w = Some (r, w') \<Longrightarrow> privates w' = privates w"
  "pipe_take_wake d t w = Some (r, w') \<Longrightarrow> privates w' = privates w"
  "pipe_release d w = Some w' \<Longrightarrow> privates w' = privates w"
  "pipe_wakeup user q fl w = Some w' \<Longrightarrow> privates w' = privates w"
  by (auto simp: pipe_take_def pipe_take_wake_def pipe_release_def pipe_wakeup_def bind_Some_iff)

lemma pipe_fops_read_keeps:
  assumes "pipe_fops_read user fd count node t pc buf w = Some ((pc', buf'), w')" "pc \<noteq> RdLocked"
  shows "privates w' = privates w \<and> buf' = buf"
  using assms
  by (cases pc) (auto simp: pipe_fops_read_def bind_Some_iff pipe_take_keeps)

lemma pipe_fops_write_keeps:
  assumes "pipe_fops_write user fd count data node t pc v w = Some ((pc', v'), w')" "pc \<noteq> WrLocked"
  shows "privates w' = privates w \<and> (pc \<noteq> WrStart \<longrightarrow> v' = v)"
  using assms
  by (cases pc) (auto simp: pipe_fops_write_def bind_Some_iff pipe_take_keeps)

definition read_moved :: "rd_pc \<Rightarrow> rd_pc \<Rightarrow> u8 list \<Rightarrow> u8 list" where
  "read_moved pc pc' buf = (case (pc, pc') of (RdLocked, RdWake n) \<Rightarrow> take (nat n) buf | _ \<Rightarrow> [])"

definition write_moved :: "wr_pc \<Rightarrow> wr_vars \<Rightarrow> wr_vars \<Rightarrow> u8 list \<Rightarrow> u8 list" where
  "write_moved pc v v' data =
     (if pc = WrLocked then take (nat (wr_ret v' - wr_ret v)) (drop (nat (wr_ret v)) data) else [])"

lemma read_locked_effect:
  assumes "read_locked fd d count buf w = Some ((pc', buf'), w')"
    and rb: "fifo (the_pipe d w) = Some rb" "rb_inv rb" and buf: "unat count mod 65536 \<le> length buf"
  shows "\<exists>rb'. fifo (the_pipe d w') = Some rb' \<and> rb_inv rb' \<and> rb_cap rb' = rb_cap rb \<and>
      rb_data rb = read_moved RdLocked pc' buf' @ rb_data rb' \<and> length buf' = length buf"
    and "(\<exists>n. pc' = RdWake n \<and> 0 < n \<and> nat n \<le> length buf) \<or> (\<exists>n. pc' = RdOut n \<and> n \<le> 0) \<or> pc' = RdOff"
proof -
  let ?n = "min (unat count mod 65536) (rb_count rb)"
  have n: "?n < 32768" "?n \<le> length buf" "?n \<le> rb_count rb" using rb_inv_dest(3,7) [OF rb(2)] buf by auto
  obtain rb' where g: "rt_ringbuffer_get rb buf (ucast count) = Some (of_nat ?n, take ?n (rb_data rb) @ drop ?n buf, rb')"
    "rb_inv rb'" "rb_cap rb' = rb_cap rb" "rb_data rb' = drop ?n (rb_data rb)"
    using rb_get_takes [OF rb(2), of "ucast count" buf] buf by (auto simp: unat_low16)
  obtain k where k: "?n = k" by blast
  have l: "length (take k (rb_data rb)) = k" using n(3) by (simp add: k)
  show "\<exists>rb'. fifo (the_pipe d w') = Some rb' \<and> rb_inv rb' \<and> rb_cap rb' = rb_cap rb \<and>
      rb_data rb = read_moved RdLocked pc' buf' @ rb_data rb' \<and> length buf' = length buf"
    using assms(1) rb g [unfolded k] n [unfolded k] sint_small [of k] l
    by (auto simp: read_locked_def read_moved_def Let_def split: if_splits)
  show "(\<exists>n. pc' = RdWake n \<and> 0 < n \<and> nat n \<le> length buf) \<or> (\<exists>n. pc' = RdOut n \<and> n \<le> 0) \<or> pc' = RdOff"
    using assms(1) rb g [unfolded k] n [unfolded k] sint_small [of k]
    by (auto simp: read_locked_def Let_def EAGAIN_def split: if_splits)
qed

lemma unat_minus_word_of_int:
  assumes "0 \<le> r" "r \<le> int (unat (c :: u32))"
  shows "unat (c - word_of_int r) = unat c - nat r"
proof -
  obtain m where m: "r = int m" using assms(1) by (metis nonneg_int_cases)
  then have le: "m \<le> unat c" using assms(2) by (metis of_nat_le_iff)
  have "unat c < 2 ^ 32" by (rule order_less_le_trans [OF unsigned_less]) simp
  then have "unat (of_nat m :: u32) = m" using le by (simp add: unat_of_nat)
  then show ?thesis using le m by (simp add: unat_sub word_le_nat_alt)
qed

lemma write_locked_effect:
  assumes "write_locked fd d count data v w = Some ((pc', v'), w')"
    and rb: "fifo (the_pipe d w) = Some rb" "rb_inv rb" and data: "unat count \<le> length data"
    and v: "0 \<le> wr_ret v" "wr_ret v \<le> int (unat count)"
  shows "\<exists>rb'. fifo (the_pipe d w') = Some rb' \<and> rb_inv rb' \<and> rb_cap rb' = rb_cap rb \<and>
      rb_data rb' = rb_data rb @ write_moved WrLocked v v' data"
    and "take (nat (wr_ret v)) data @ write_moved WrLocked v v' data = take (nat (wr_ret v')) data"
    and "wr_ret v' \<le> int (unat count) \<and> (pc' = WrOut \<or> pc' = WrOff \<and> 0 \<le> wr_ret v')"
proof -
  let ?r = "wr_ret v"
  obtain r where r: "?r = int r" "r \<le> unat count" using v by (metis nonneg_int_cases of_nat_le_iff)
  let ?c = "ucast (count - word_of_int ?r) :: u16"
  have c: "unat ?c = (unat count - r) mod 65536"
    using unat_minus_word_of_int [OF v] r by (simp add: unat_low16)
  then have cl: "unat ?c \<le> unat count - r" by simp
  define n where "n = min (unat ?c) (rb_cap rb - rb_count rb)"
  have n: "n < 32768" "n \<le> unat count - r" using rb_inv_dest(3) [OF rb(2)] cl by (auto simp: n_def)
  have "unat ?c \<le> length (drop r data)" using cl data by simp
  from rb_put_appends [OF rb(2) this] obtain rb' where
    p: "rt_ringbuffer_put rb (drop r data) ?c = Some (of_nat n, rb')" "rb_inv rb'" "rb_cap rb' = rb_cap rb"
      "rb_data rb' = rb_data rb @ take n (drop r data)"
    by (auto simp: n_def)
  note sn = sint_small [OF n(1)]
  consider "w' = w" "pc' = WrOut" "v' = (if ?r = 0 then v\<lparr>wr_ret := - EPIPE\<rparr> else v)"
    | "fifo (the_pipe d w') = Some rb'" "pc' = WrOut \<or> pc' = WrOff" "wr_ret v' = int (r + n)"
    | "fifo (the_pipe d w') = Some rb'" "pc' = WrOut" "wr_ret v' = - EAGAIN" "r + n = 0"
  proof (cases "readers (the_pipe d w) = 0")
    case True
    then show thesis using assms(1) that(1) by (simp add: write_locked_def)
  next
    case False
    show thesis
      using assms(1) False rb(1) p(1) r(1) that(2,3) by (auto simp: write_locked_def Let_def sn split: if_splits)
  qed
  note cs = this
  show "\<exists>rb'. fifo (the_pipe d w') = Some rb' \<and> rb_inv rb' \<and> rb_cap rb' = rb_cap rb \<and>
      rb_data rb' = rb_data rb @ write_moved WrLocked v v' data"
  proof (cases rule: cs)
    case 1
    then show ?thesis using rb r by (auto simp: write_moved_def EPIPE_def)
  next
    case 2
    then show ?thesis using p r by (auto simp: write_moved_def)
  next
    case 3
    then show ?thesis using p r by (auto simp: write_moved_def EAGAIN_def)
  qed
  show "take (nat ?r) data @ write_moved WrLocked v v' data = take (nat (wr_ret v')) data"
  proof (cases rule: cs)
    case 1
    then show ?thesis using r by (auto simp: write_moved_def EPIPE_def)
  next
    case 2
    then show ?thesis using r by (auto simp: write_moved_def take_add nat_add_distrib)
  next
    case 3
    then show ?thesis using r by (auto simp: write_moved_def EAGAIN_def)
  qed
  show "wr_ret v' \<le> int (unat count) \<and> (pc' = WrOut \<or> pc' = WrOff \<and> 0 \<le> wr_ret v')"
  proof (cases rule: cs)
    case 1
    then show ?thesis using v by (auto simp: EPIPE_def)
  next
    case 2
    have "int r + int n \<le> int (unat count)" using n(2) r(2) by linarith
    then show ?thesis using 2 by auto
  next
    case 3
    then show ?thesis using v by (auto simp: EAGAIN_def)
  qed
qed

text \<open>
  A run of any number of readers and writers of one pipe: the running thread does the next step of its
  call, a thread starts a call or is done with one, and anything else happens that leaves the ring of
  the pipe alone. \<open>acc\<close> is what the call of a thread has moved so far, \<open>wr\<close> all the bytes that went into
  the pipe and \<open>rd\<close> all that came out.
\<close>

datatype file_call =
    Reading dfs_fd u32 nat rd_pc "u8 list"
  | Writing dfs_fd u32 "u8 list" nat wr_pc wr_vars

inductive pipe_run ::
  "wake_funcs \<Rightarrow> nat \<Rightarrow> pipe_world \<Rightarrow> pipe_world \<Rightarrow> (tid \<Rightarrow> file_call option) \<Rightarrow> (tid \<Rightarrow> u8 list) \<Rightarrow>
     u8 list \<Rightarrow> u8 list \<Rightarrow> bool"
  for user d wi where
  start: "pipe_run user d wi wi (\<lambda>_. None) acc [] []"
| read_call: "pipe_run user d wi w cs acc wr rd \<Longrightarrow> cs t = None \<Longrightarrow> fd_data fd = Some d \<Longrightarrow>
    unat count \<le> length buf \<Longrightarrow>
    pipe_run user d wi w (cs(t := Some (Reading fd count node RdStart buf))) (acc(t := [])) wr rd"
| write_call: "pipe_run user d wi w cs acc wr rd \<Longrightarrow> cs t = None \<Longrightarrow> fd_data fd = Some d \<Longrightarrow>
    unat count \<le> length data \<Longrightarrow>
    pipe_run user d wi w (cs(t := Some (Writing fd count data node WrStart \<lparr>wr_ret = 0, wr_wakeup = False\<rparr>)))
      (acc(t := [])) wr rd"
| read_step: "pipe_run user d wi w cs acc wr rd \<Longrightarrow> rt_current_thread (kernel w) = Some t \<Longrightarrow>
    cs t = Some (Reading fd count node pc buf) \<Longrightarrow>
    pipe_fops_read user fd count node t pc buf w = Some ((pc', buf'), w') \<Longrightarrow>
    pipe_run user d wi w' (cs(t := Some (Reading fd count node pc' buf')))
      (acc(t := acc t @ read_moved pc pc' buf')) wr (rd @ read_moved pc pc' buf')"
| write_step: "pipe_run user d wi w cs acc wr rd \<Longrightarrow> rt_current_thread (kernel w) = Some t \<Longrightarrow>
    cs t = Some (Writing fd count data node pc v) \<Longrightarrow>
    pipe_fops_write user fd count data node t pc v w = Some ((pc', v'), w') \<Longrightarrow>
    pipe_run user d wi w' (cs(t := Some (Writing fd count data node pc' v')))
      (acc(t := acc t @ write_moved pc v v' data)) (wr @ write_moved pc v v' data) rd"
| finish: "pipe_run user d wi w cs acc wr rd \<Longrightarrow>
    (case cs t of Some (Reading _ _ _ (RdDone _) _) \<Rightarrow> True | Some (Writing _ _ _ _ WrDone _) \<Rightarrow> True | _ \<Rightarrow> False) \<Longrightarrow>
    pipe_run user d wi w (cs(t := None)) acc wr rd"
| other: "pipe_run user d wi w cs acc wr rd \<Longrightarrow> fifo (the_pipe d w') = fifo (the_pipe d w) \<Longrightarrow>
    pipe_run user d wi w' cs acc wr rd"

definition read_result :: "rd_pc \<Rightarrow> int" where
  "read_result pc = (case pc of RdWake n \<Rightarrow> n | RdOut n \<Rightarrow> n | RdDone n \<Rightarrow> n | _ \<Rightarrow> 0)"

definition call_ok :: "nat \<Rightarrow> file_call option \<Rightarrow> u8 list \<Rightarrow> bool" where
  "call_ok d c acc \<longleftrightarrow>
     (case c of
        None \<Rightarrow> True
      | Some (Reading fd count node pc buf) \<Rightarrow>
          fd_data fd = Some d \<and> unat count \<le> length buf \<and> nat (read_result pc) \<le> length buf \<and>
          acc = take (nat (read_result pc)) buf
      | Some (Writing fd count data node pc v) \<Rightarrow>
          fd_data fd = Some d \<and> unat count \<le> length data \<and> wr_ret v \<le> int (unat count) \<and>
          acc = take (nat (wr_ret v)) data \<and> (pc \<in> {WrOut, WrKickOut, WrDone} \<or> 0 \<le> wr_ret v) \<and>
          (pc = WrStart \<longrightarrow> wr_ret v = 0))"

lemma read_result_simps [simp]:
  "read_result RdStart = 0" "read_result RdLock = 0" "read_result RdTake = 0" "read_result RdLocked = 0"
  "read_result RdOff = 0" "read_result RdKick = 0" "read_result RdWait = 0" "read_result RdSleep = 0"
  "read_result (RdWake n) = n" "read_result (RdOut n) = n" "read_result (RdDone n) = n"
  "read_result (case r of Returned _ \<Rightarrow> RdLocked | Blocked _ \<Rightarrow> RdTake) = 0"
  "read_result (case q of Returned _ \<Rightarrow> RdLock | Blocked _ \<Rightarrow> RdSleep) = 0"
  by (simp_all add: read_result_def split: outcome.split)

lemma write_pc_cases [simp]:
  "(case r of Returned _ \<Rightarrow> WrLocked | Blocked _ \<Rightarrow> WrTake) \<noteq> WrStart"
  "(case q of Returned _ \<Rightarrow> WrLock | Blocked _ \<Rightarrow> WrSleep) \<noteq> WrStart"
  by (simp_all split: outcome.split)

lemma call_ok_read_step:
  assumes "pipe_fops_read user fd count node t pc buf w = Some ((pc', buf'), w')"
    and c: "call_ok d (Some (Reading fd count node pc buf)) acc" and rb: "fifo (the_pipe d w) = Some rb" "rb_inv rb"
  shows "call_ok d (Some (Reading fd count node pc' buf')) (acc @ read_moved pc pc' buf') \<and>
    (\<exists>rb'. fifo (the_pipe d w') = Some rb' \<and> rb_inv rb' \<and> rb_cap rb' = rb_cap rb \<and>
      rb_data rb = read_moved pc pc' buf' @ rb_data rb')"
proof (cases "pc = RdLocked")
  case True
  have rl: "read_locked fd d count buf w = Some ((pc', buf'), w')"
    using assms(1) c True by (simp add: pipe_fops_read_def call_ok_def)
  have b: "unat count mod 65536 \<le> length buf"
    using c by (simp add: call_ok_def) (meson le_trans mod_less_eq_dividend)
  note e = read_locked_effect [OF rl rb b]
  have "acc = []" using c True by (simp add: call_ok_def read_result_def)
  then show ?thesis
    using e c True by (auto simp: call_ok_def read_result_def read_moved_def)
next
  case False
  then have k: "privates w' = privates w" "buf' = buf" using pipe_fops_read_keeps [OF assms(1)] by simp_all
  have m: "read_moved pc pc' buf' = []" using False by (cases pc) (simp_all add: read_moved_def)
  have "nat (read_result pc') = nat (read_result pc)"
    using assms(1) False by (cases pc) (auto simp: pipe_fops_read_def bind_Some_iff)
  then show ?thesis using k m c rb by (simp add: call_ok_def)
qed

lemma call_ok_write_step:
  assumes "pipe_fops_write user fd count data node t pc v w = Some ((pc', v'), w')"
    and c: "call_ok d (Some (Writing fd count data node pc v)) acc" and rb: "fifo (the_pipe d w) = Some rb" "rb_inv rb"
  shows "call_ok d (Some (Writing fd count data node pc' v')) (acc @ write_moved pc v v' data) \<and>
    (\<exists>rb'. fifo (the_pipe d w') = Some rb' \<and> rb_inv rb' \<and> rb_cap rb' = rb_cap rb \<and>
      rb_data rb' = rb_data rb @ write_moved pc v v' data)"
proof (cases "pc = WrLocked")
  case True
  have wl: "write_locked fd d count data v w = Some ((pc', v'), w')"
    using assms(1) c True by (simp add: pipe_fops_write_def call_ok_def)
  have b: "unat count \<le> length data" "0 \<le> wr_ret v" "wr_ret v \<le> int (unat count)"
    using c True by (simp_all add: call_ok_def)
  note e = write_locked_effect [OF wl rb b]
  have "acc = take (nat (wr_ret v)) data" using c by (simp add: call_ok_def)
  then show ?thesis using e c True by (auto simp: call_ok_def)
next
  case False
  then have k: "privates w' = privates w" "pc \<noteq> WrStart \<longrightarrow> v' = v"
    using pipe_fops_write_keeps [OF assms(1)] by simp_all
  have m: "write_moved pc v v' data = []" using False by (simp add: write_moved_def)
  have "(pc' = WrDone \<or> pc' = WrKickOut \<or> pc' \<noteq> WrStart \<and> pc \<noteq> WrOut \<and> pc \<noteq> WrKickOut \<and> pc \<noteq> WrDone) \<and>
    (pc = WrStart \<longrightarrow> v' = v \<or> wr_ret v' \<le> 0 \<and> pc' = WrDone)"
    using assms(1) False by (cases pc) (auto simp: pipe_fops_write_def bind_Some_iff EPIPE_def split: if_splits)
  moreover have u: "x \<le> uint count" if "x \<le> 0" for x using that by (rule order_trans) simp
  ultimately show ?thesis using k m c rb by (cases "pc = WrStart") (auto simp: call_ok_def intro: u)
qed

lemma pipe_run_ok:
  assumes "pipe_run user d wi w cs acc wr rd" and rb: "fifo (the_pipe d wi) = Some rb" "rb_inv rb"
  shows "(\<exists>rb'. fifo (the_pipe d w) = Some rb' \<and> rb_inv rb' \<and> rb_cap rb' = rb_cap rb \<and>
      rb_data rb @ wr = rd @ rb_data rb') \<and> (\<forall>t. call_ok d (cs t) (acc t))"
  using assms(1)
proof induction
  case (start acc)
  then show ?case using rb by (simp add: call_ok_def)
next
  case (read_call w cs acc wr rd t fd count buf node)
  then show ?case by (simp add: call_ok_def read_result_def)
next
  case (write_call w cs acc wr rd t fd count data node)
  then show ?case by (simp add: call_ok_def)
next
  case (read_step w cs acc wr rd t fd count node pc buf pc' buf' w')
  then obtain rb1 where 1: "fifo (the_pipe d w) = Some rb1" "rb_inv rb1" "rb_cap rb1 = rb_cap rb"
    "rb_data rb @ wr = rd @ rb_data rb1" by blast
  have c: "call_ok d (Some (Reading fd count node pc buf)) (acc t)" using read_step(5) read_step(3) by metis
  show ?case using call_ok_read_step [OF read_step(4) c 1(1,2)] 1 read_step(5) by auto
next
  case (write_step w cs acc wr rd t fd count data node pc v pc' v' w')
  then obtain rb1 where 1: "fifo (the_pipe d w) = Some rb1" "rb_inv rb1" "rb_cap rb1 = rb_cap rb"
    "rb_data rb @ wr = rd @ rb_data rb1" by blast
  have c: "call_ok d (Some (Writing fd count data node pc v)) (acc t)" using write_step(5) write_step(3) by metis
  show ?case using call_ok_write_step [OF write_step(4) c 1(1,2)] 1 write_step(5) by auto
next
  case (finish w cs acc wr rd t)
  then show ?case by (simp add: call_ok_def)
next
  case (other w cs acc wr rd w')
  then show ?case by simp
qed

text \<open>
  C8: However readers and writers of a pipe interleave, block and are preempted, the pipe is one stream:
  what it held, followed by all the bytes written, is all the bytes read followed by what it holds. Each
  call accounts for its part: a write that returned \<open>n\<close> put exactly the first \<open>n\<close> bytes of its data into
  the stream, a read that returned \<open>n\<close> took exactly the \<open>n\<close> bytes that it stored, and an error moved
  nothing.
\<close>

theorem pipe_is_stream:
  assumes "fifo (the_pipe d wi) = Some rb" "rb_inv rb" "pipe_run user d wi w cs acc wr rd"
  shows "(\<exists>rb'. fifo (the_pipe d w) = Some rb' \<and> rb_inv rb' \<and> rb_data rb @ wr = rd @ rb_data rb') \<and>
    (\<forall>t fd count data node v. cs t = Some (Writing fd count data node WrDone v) \<longrightarrow>
       acc t = take (nat (wr_ret v)) data \<and> wr_ret v \<le> int (unat count)) \<and>
    (\<forall>t fd count node n buf. cs t = Some (Reading fd count node (RdDone n) buf) \<longrightarrow> acc t = take (nat n) buf)"
proof -
  have ok: "call_ok d (cs t) (acc t)" for t using pipe_run_ok [OF assms(3,1,2)] by blast
  have "acc t = take (nat (wr_ret v)) data \<and> wr_ret v \<le> int (unat count)"
    if "cs t = Some (Writing fd count data node WrDone v)" for t fd count data node v
    using ok [of t] that by (simp add: call_ok_def)
  moreover have "acc t = take (nat n) buf" if "cs t = Some (Reading fd count node (RdDone n) buf)" for t fd count node n buf
    using ok [of t] that by (simp add: call_ok_def read_result_def)
  ultimately show ?thesis using pipe_run_ok [OF assms(3,1,2)] by blast
qed

section \<open>End of file\<close>



text \<open>
  \<^verbatim>\<open>read\<close> of 0 bytes, or of a multiple of 65536, gets nothing from a pipe that holds data and goes to
  sleep; \<^verbatim>\<open>write\<close> of a multiple of 65536 bytes puts nothing into a pipe that has room.
\<close>

theorem pipe_file_multiple_of_64k:
  assumes "fifo (the_pipe d w) = Some rb" "rb_inv rb" "unat count mod 65536 = 0" "fd_flags fd AND O_NONBLOCK = 0"
  shows "writers (the_pipe d w) \<noteq> 0 \<Longrightarrow> \<exists>w'. read_locked fd d count buf w = Some ((RdOff, buf), w')"
    and "readers (the_pipe d w) \<noteq> 0 \<Longrightarrow> count \<noteq> 0 \<Longrightarrow> wr_ret v = 0 \<Longrightarrow>
      \<exists>v' w'. write_locked fd d count data v w = Some ((WrOff, v'), w') \<and> wr_ret v' = 0"
proof -
  have c: "unat (ucast count :: u16) = 0" using assms(3) by (simp add: unat_low16)
  show "\<exists>w'. read_locked fd d count buf w = Some ((RdOff, buf), w')" if "writers (the_pipe d w) \<noteq> 0"
    using rb_get_takes [OF assms(2), of "ucast count" buf] c that assms(1,4) by (auto simp: read_locked_def Let_def)
  show "\<exists>v' w'. write_locked fd d count data v w = Some ((WrOff, v'), w') \<and> wr_ret v' = 0"
    if "readers (the_pipe d w) \<noteq> 0" "count \<noteq> 0" "wr_ret v = 0"
    using rb_put_appends [OF assms(2), of "ucast count" data] c that assms(1,4)
    by (auto simp: write_locked_def Let_def)
qed

end
