(* ===== verification/RTT_IpcExamples.thy ===== *)
theory RTT_IpcExamples
  imports RTT_Examples RTT_Mutex RTT_Event RTT_MsgQueue
begin

text \<open>
  The properties of semaphores, mutexes, events, mailboxes and message queues applied to the
  states of \<^theory_text>\<open>RTT_Examples\<close>.
\<close>

lemma ex_ipc_typed [simp]:
  "is_sem i (ex_wait h) = Some ()" "is_mutex i (ex_wait h) = Some ()" "is_event i (ex_wait h) = Some ()"
  "is_mb i (ex_wait h) = Some ()" "is_mq i (ex_wait h) = Some ()" "is_thread t (ex_wait h) = Some ()"
  by (simp_all add: is_sem_def is_mutex_def is_event_def is_mb_def is_mq_def is_thread_def
      rt_object_get_type_def obj_simps rt_assert_def)

lemma ex_ipc_flags [simp]:
  "ipc_flag (OSem i) (ex_wait h) = 0" "ipc_flag (OMutex i) (ex_wait h) = 1"
  "ipc_flag (OEvent i) (ex_wait h) = 0" "ipc_flag (OMailBox i) (ex_wait h) = 0"
  by (simp_all add: ipc_flag_def)

lemma ex_waiting [simp]:
  assumes "wait_head h" "wait_head h'"
  shows "ex_lists h h' = (if h' = h then [3] else [])"
  using assms by (cases h') (simp_all add: ex_lists_def)

lemma ex_pools [simp]:
  "sems (ex_wait h) = (\<lambda>_. \<lparr>sem_value = 0\<rparr>)" "mutexes (ex_wait h) = (\<lambda>_. free_mutex)"
  "events (ex_wait h) = (\<lambda>_. \<lparr>event_bits = 0\<rparr>)"
  "mailboxes (ex_wait h) =
     (\<lambda>_. \<lparr>msg_pool = [0, 0, 0, 0], mb_size = 4, mb_entry = 0, in_offset = 0, out_offset = 0\<rparr>)"
  by (simp_all add: ex_wait_def free_mutex_def)

lemma ex_order [simp]: "ipc_order 0" "ipc_order 1"
  by (simp_all add: ipc_order_def RT_IPC_FLAG_FIFO_def RT_IPC_FLAG_PRIO_def)

section \<open>Semaphores\<close>

lemma ex_sem_ok: "sem_ok i (ex_wait h)"
  by (simp add: sem_ok_def)

lemma rt_sem_take_result_witness:
  "\<exists>s' v. rt_sem_take 1 20 ex_state = Some (Blocked (), s') \<and> sem_waiters 1 s' = [1] \<and>
     rt_current_thread s' = Some v \<and> v \<noteq> 1 \<and> timeout_tick (timers s' (ThreadTimer 1)) = 1020"
proof -
  have v: "\<not> 0 < sem_value (sems ex_state 1)" by (simp add: ex_state_def)
  have w: "sem_waiters 1 ex_state = []" by (simp add: ex_state_def)
  show ?thesis
    using rt_sem_take_result [OF ex_state_may_block, of 1 20] v w
    by (auto simp: ex_state_def ex_sem_ok RT_TICK_MAX_def queue_insert_def)
qed

lemma rt_sem_release_hands_over_witness:
  "\<exists>s'. rt_sem_release 0 ex_state = Some (RT_EOK, s') \<and> sem_waiters 0 s' = [] \<and>
     rt_current_thread s' = Some 3 \<and> rt_sem_take_wake 3 s' = RT_EOK"
proof -
  have w: "sem_waiters 0 ex_state = 3 # []" "is_sem 0 ex_state = Some ()" "sem_ok 0 ex_state"
    by (simp_all add: ex_state_def ex_sem_ok)
  have e: "error (threads ex_state 3) = RT_EOK" by (simp add: ex_thread_defs RT_EOK_def)
  have "\<forall>u. thread_stat ex_state u = RT_THREAD_READY \<longrightarrow>
      current_priority (threads ex_state 3) < current_priority (threads ex_state u)"
    unfolding ex_state_ready by (auto simp: ex_thread_defs)
  then show ?thesis
    using rt_sem_release_hands_over [OF ex_state_inv w(3,2,1) ex_state_typed e] ex_state_unlocked by blast
qed


section \<open>Mutexes\<close>

lemma ex_in_thread [simp]: "RT_DEBUG_IN_THREAD_CONTEXT (ex_wait h) = Some ()"
  using ex_unlocked(2) [of h] by (simp add: RT_DEBUG_IN_THREAD_CONTEXT_def RT_DEBUG_NOT_IN_INTERRUPT_def rt_assert_def rt_thread_self_def)


definition ex_owned :: "list_head \<Rightarrow> tid \<Rightarrow> u8 \<Rightarrow> kstate" where
  "ex_owned h u p = mutex_update 0
     (\<lambda>_. \<lparr>mutex_value = 0, original_priority = p, hold = 1, owner = Some u\<rparr>) (ex_wait h)"

lemma ex_owned_fields [simp]:
  "mutexes (ex_owned h u p) 0 = \<lparr>mutex_value = 0, original_priority = p, hold = 1, owner = Some u\<rparr>"
  "thread_lists (ex_owned h u p) = ex_lists h" "threads (ex_owned h u p) = ex_threads h"
  "is_mutex i (ex_owned h u p) = Some ()" "is_thread t (ex_owned h u p) = Some ()"
  "rt_current_thread (ex_owned h u p) = Some 1" "ipc_flag (OMutex i) (ex_owned h u p) = 1"
  "rt_tick (ex_owned h u p) = 1000" "thread_typed (ex_owned h u p) t"
  "thread_stat (ex_owned h u p) = thread_stat (ex_wait h)"
  "preempt_level (ex_owned h u p) = 0" "rt_interrupt_get_nest (ex_owned h u p) = 0"
proof -
  show "preempt_level (ex_owned h u p) = 0" "rt_interrupt_get_nest (ex_owned h u p) = 0"
    by (simp_all add: ex_owned_def preempt_level_def rt_interrupt_get_nest_def hardirq_count_def preempt_count_def
        rt_thread_self_def ex_thread_defs)
  show "thread_typed (ex_owned h u p) t"
    by (simp add: ex_owned_def thread_typed_def is_thread_def is_timer_def rt_object_get_type_def obj_simps
        timer_flag_def rt_assert_def)
  show "is_mutex i (ex_owned h u p) = Some ()" "is_thread t (ex_owned h u p) = Some ()"
    by (simp_all add: ex_owned_def is_mutex_def is_thread_def rt_object_get_type_def obj_simps rt_assert_def)
qed (simp_all add: ex_owned_def fun_eq_iff thread_stat_def ipc_flag_def)

lemma ex_owned_ok:
  assumes "wait_head h"
  shows "sys_ok (ex_owned h u p)" "may_block (ex_owned h u p) 1"
proof -
  show ok: "sys_ok (ex_owned h u p)"
    using ex_sys_ok [OF assms] by (simp add: sys_ok_def stacks_ok_def ex_owned_def thread_stat_def)
  show "may_block (ex_owned h u p) 1"
    using ex_may_block [OF assms] ok by (simp add: may_block_def)
qed

lemma rt_mutex_take_inherits_witness:
  "\<exists>s' v. rt_mutex_take 0 20 (ex_owned (IpcSuspend (OSem 0)) 0 31) = Some (Blocked (), s') \<and>
     current_priority (threads s' 0) = 10 \<and> rt_current_thread s' = Some v \<and> v \<noteq> 1 \<and>
     mutex_waiters 0 s' = [1] \<and> timeout_tick (timers s' (ThreadTimer 1)) = 1020"
proof -
  let ?s = "ex_owned (IpcSuspend (OSem 0)) 0 31"
  have mb: "may_block ?s 1" by (rule ex_owned_ok(2)) simp
  have w: "mutex_waiters 0 ?s = []" by simp
  show ?thesis
    using rt_mutex_take_inherits [OF mb, of 0 0 20] w
    by (auto simp: RT_TICK_MAX_def queue_insert_def RT_IPC_FLAG_FIFO_def ex_thread_defs)
qed

lemma rt_mutex_release_passes_on_witness:
  "\<exists>s'. rt_mutex_release 0 (ex_owned (IpcSuspend (OMutex 0)) 1 12) = Some (RT_EOK, s') \<and>
     current_priority (threads s' 1) = 12 \<and> owner (mutexes s' 0) = Some 3 \<and> mutex_waiters 0 s' = []"
proof -
  let ?s = "ex_owned (IpcSuspend (OMutex 0)) 1 12"
  have ok: "sys_ok ?s" by (rule ex_owned_ok(1)) simp
  have w: "mutex_waiters 0 ?s = [3]" by simp
  have st: "thread_stat ?s 1 = RT_THREAD_READY" using ex_stats(2) by simp
  show ?thesis
    using rt_mutex_release_passes_on [OF ok _ _ _ st, of 0] w by (auto simp: RT_THREAD_PRIORITY_MAX_def)
qed

section \<open>Events\<close>

lemma ex_typed_waiters: "waiters_typed h' (ex_wait h)"
  by (simp add: waiters_typed_def is_thread_def is_timer_def rt_object_get_type_def obj_simps rt_assert_def)




section \<open>Mailboxes\<close>

lemma ex_mb_inv: "mb_inv (mailboxes (ex_wait h) i)"
  by (simp add: mb_inv_def)

lemma ex_is_mb [simp]: "is_mb i (mailbox_update i f s) = is_mb i s"
  by (simp add: is_mb_def mailbox_update_def rt_object_get_type_def)

lemma rt_mb_fifo_witness:
  "\<exists>s'. mb_run 1 ex_state ([] @ [7]) ([] @ [7]) s' \<and> mb_data (mailboxes s' 1) = []"
proof -
  let ?m = "\<lparr>msg_pool = [7, 0, 0, 0], mb_size = 4, mb_entry = 1, in_offset = 1, out_offset = 0\<rparr>"
  let ?s1 = "mailbox_update 1 (\<lambda>_. ?m) ex_state"
  let ?s2 = "mailbox_update 1 (\<lambda>_. ?m\<lparr>out_offset := 1, mb_entry := 0\<rparr>) ?s1"
  have "rt_mb_send_wait 1 7 0 ex_state = Some (Returned RT_EOK, ?s1)"
    by (simp add: ex_state_def rt_mb_send_wait_def mb_send_loop_def mb_store_def resume_and_schedule_def
        mailbox_update_def word_le_nat_alt)
  then have a: "mb_send_step 1 7 ex_state (Returned RT_EOK) ?s1" by (auto simp: mb_send_step_def)
  have "rt_mb_recv 1 0 ?s1 = Some (Returned (RT_EOK, Some 7), ?s2)"
    by (simp add: ex_state_def rt_mb_recv_def)
       (simp add: mb_recv_loop_def mb_fetch_def resume_and_schedule_def mailbox_update_def word_le_nat_alt)
  then have b: "mb_recv_step 1 ?s1 (Returned (RT_EOK, Some 7)) ?s2" by (auto simp: mb_recv_step_def)
  have run: "mb_run 1 ex_state ([] @ [7]) ([] @ [7]) ?s2"
    by (rule mb_run.received [OF mb_run.sent [OF mb_run.start a] b])
  have "mb_data (mailboxes ex_state 1) @ ([] @ [7]) = ([] @ [7]) @ mb_data (mailboxes ?s2 1)"
    using rt_mb_fifo [OF run] ex_mb_inv [of "IpcSuspend (OSem 0)" 1] by (simp add: ex_state_def)
  moreover have "mb_data (mailboxes ex_state 1) = []" by (simp add: ex_state_def mb_data_def ring_seg_def)
  ultimately show ?thesis using run by auto
qed

lemma rt_mb_send_wait_result_witness:
  "\<exists>s'. rt_mb_send_wait 0 7 20 (ex_wait (IpcSuspend (OMailBox 0))) = Some (Returned RT_EOK, s') \<and>
     mb_data (mailboxes s' 0) = [7] \<and> mb_receivers 0 s' = [] \<and> thread_stat s' 3 = RT_THREAD_READY"
proof -
  let ?s = "ex_wait (IpcSuspend (OMailBox 0))"
  have mb: "may_block ?s 1" by (rule ex_may_block) simp
  have w: "mb_receivers 0 ?s = [3]" "mb_data (mailboxes ?s 0) = []" by (simp_all add: mb_data_def ring_seg_def)
  show ?thesis
    using rt_mb_send_wait_result [OF mb ex_mb_inv, of 0 20 7] w ex_typed_waiters by (auto simp: RT_TICK_MAX_def)
qed

definition ex_locked :: kstate where
  "ex_locked = mailbox_update 0 (\<lambda>m. m\<lparr>mb_entry := 4\<rparr>) (rt_enter_critical ex_state)"

lemma ex_locked_fields:
  "sys_ok ex_locked" "preempt_level ex_locked \<noteq> 0" "rt_interrupt_get_nest ex_locked = 0"
  "rt_current_thread ex_locked = Some 1" "thread_stat ex_locked 1 = RT_THREAD_READY"
  "thread_typed ex_locked 1" "is_mb 0 ex_locked = Some ()" "ipc_order (ipc_flag (OMailBox 0) ex_locked)"
  "mb_entry (mailboxes ex_locked 0) = mb_size (mailboxes ex_locked 0)"
proof -
  have e: "rt_enter_critical ex_state = thread_update 1 (\<lambda>th. th\<lparr>th_preempt_count := th_preempt_count th + 1\<rparr>) ex_state"
    by (simp add: rt_enter_critical_def preempt_disable_def preempt_count_add_def current_update_def rt_thread_self_def)
  have fr: "resched_frame ex_state (rt_enter_critical ex_state)" by simp
  show "sys_ok ex_locked" using resched_frame_inv(3) [OF fr ex_state_inv] by (simp add: ex_locked_def)
  show "preempt_level ex_locked \<noteq> 0" "rt_interrupt_get_nest ex_locked = 0" "rt_current_thread ex_locked = Some 1"
    by (simp_all add: ex_locked_def e preempt_level_def rt_interrupt_get_nest_def hardirq_count_def
        preempt_count_def rt_thread_self_def ex_thread_defs PREEMPT_MASK_def HARDIRQ_MASK_def)
  show "thread_stat ex_locked 1 = RT_THREAD_READY"
    using resched_frame_thread(11) [OF fr, of 1] ex_state_stats(2) by (simp add: ex_locked_def thread_stat_def)
  have o: "objects ex_locked = objects ex_state"
    by (simp add: ex_locked_def resched_frameD(4) [OF fr])
  show "thread_typed ex_locked 1" using ex_state_typed [of 1]
    by (simp add: thread_typed_def is_thread_def is_timer_def rt_object_get_type_def timer_flag_def o)
  show "is_mb 0 ex_locked = Some ()" "ipc_order (ipc_flag (OMailBox 0) ex_locked)"
    by (simp_all add: is_mb_def rt_object_get_type_def obj_simps rt_assert_def ipc_flag_def o)
  show "mb_entry (mailboxes ex_locked 0) = mb_size (mailboxes ex_locked 0)"
    by (simp add: ex_locked_def resched_frameD(12) [OF fr]) (simp add: ex_state_def)
qed

lemma rt_mb_send_wait_locked_witness:
  "\<exists>w s'. rt_mb_send_wait 0 7 20 ex_locked = Some (Blocked w, s') \<and>
     thread_stat s' 1 = RT_THREAD_SUSPEND \<and> rt_mb_send_wait_wake 0 1 7 w s' = None"
  using rt_mb_send_wait_locked [OF ex_locked_fields, of 20 7] by (auto simp: RT_TICK_MAX_def)

section \<open>Message queues\<close>

definition ex_mq :: rt_messagequeue where
  "ex_mq = mq_setup 4 2 (\<lambda>_. [0, 0, 0, 0])"

lemma ex_mq_blocks:
  "length [0 :: u8, 0, 0, 0] = unat (ucast (RT_ALIGN 4 RT_ALIGN_SIZE) :: u16)"
  by (simp add: RT_ALIGN_def RT_ALIGN_SIZE_def)

lemma ex_mq_rep: "mq_rep ex_mq [] [1, 0] {}"
proof -
  have "rev [0..<unat (2 :: u16)] = [1, 0]" by (simp add: upt_rec)
  with mq_setup_rep [where n = 2 and msgsize = 4 and blocks = "\<lambda>_. [0, 0, 0, 0]", OF ex_mq_blocks]
  show ?thesis by (simp only: ex_mq_def)
qed


lemma rt_mq_blocks_partition_witness:
  "\<exists>m us fs. mq_piece\<^sup>*\<^sup>* (ex_mq, {}) (m, {}) \<and> m \<noteq> ex_mq \<and> chain (mq_next m) (msg_queue_head m) us \<and>
    chain (mq_next m) (msg_queue_free m) fs \<and> set us \<union> set fs = {..<unat (max_msgs m)} \<and> length us = 1"
proof -
  let ?m1 = "mq_take_free 1 ex_mq" 
  let ?m2 = "mq_clear_next 1 ?m1"
  let ?m = "mq_link_tail 1 ?m2"
  have "mq_piece (ex_mq, {}) (?m1, insert 1 {})"
    using mq_rep_heads(2) [OF ex_mq_rep] by (intro mq_piece.take_free) simp
  moreover have "mq_piece (?m1, insert 1 {}) (?m2, insert 1 {})" by (intro mq_piece.clear_next) simp
  moreover have "mq_piece (?m2, insert 1 {}) (?m, insert 1 {} - {1})"
    by (intro mq_piece.link_tail) (simp_all add: mq_clear_next_def)
  ultimately have run: "mq_piece\<^sup>*\<^sup>* (ex_mq, {}) (?m, {})"
    by (simp add: rtranclp.rtrancl_into_rtrancl [OF rtranclp.rtrancl_into_rtrancl [OF r_into_rtranclp]])
  have e: "mq_entry ?m = 1" 
    using ex_mq_rep by (simp add: mq_link_tail_def mq_clear_next_def mq_take_free_def Let_def mq_rep_def unat_eq_0
        split: option.split)
  from rt_mq_blocks_partition [where n = 2 and msgsize = 4 and blocks = "\<lambda>_. [0, 0, 0, 0]",
      OF ex_mq_blocks run [unfolded ex_mq_def]] 
  obtain us fs where "chain (mq_next ?m) (msg_queue_head ?m) us" "chain (mq_next ?m) (msg_queue_free ?m) fs"
    "set us \<union> set fs \<union> {} = {..<unat (max_msgs ?m)}" "unat (mq_entry ?m) = length us"
    unfolding ex_mq_def by blast
  moreover have "?m \<noteq> ex_mq" using e ex_mq_rep by (auto simp: mq_rep_def)
  ultimately show ?thesis using run e by auto
qed

lemma rt_mq_reset_drains_witness:
  "\<exists>m'. mq_drain (mq_link_tail 1 (mq_clear_next 1 (mq_take_free 1 ex_mq))) = Some m' \<and>
    mq_rep (m'\<lparr>mq_entry := 0\<rparr>) [] [1, 0] {}"
proof -
  have "mq_rep (mq_clear_next 1 (mq_take_free 1 ex_mq)) [] [0] {1}"
    by (rule mq_clear_next_rep [OF mq_take_free_rep [OF ex_mq_rep]]) simp
  from mq_link_tail_rep [OF this, of 1] 
  have "mq_rep (mq_link_tail 1 (mq_clear_next 1 (mq_take_free 1 ex_mq))) [1] [0] {}"
    by (simp add: mq_clear_next_def)
  from rt_mq_reset_drains [OF this] show ?thesis by simp
qed


end
