(* ===== verification/RTT_DriverExamples.thy ===== *)
theory RTT_DriverExamples
  imports RTT_IpcExamples RTT_Completion RTT_Expiry RTT_MemPool RTT_WaitQueue RTT_WorkQueue
begin

text \<open>
  The properties of completions, timeouts, memory pools, wait queues and work queues applied to
  the states of \<^theory_text>\<open>RTT_Examples\<close>.
\<close>

section \<open>Completions\<close>

lemma ex_completed [simp]: "completed i (ex_wait h) = 0"
  by (simp add: ex_wait_def ex_drivers_def)

lemma rt_completion_wait_done_witness:
  "\<exists>s1 s2. rt_completion_wait 0 20 ex_state = Some (Blocked (), s1) \<and> rt_completion_done 0 s1 = Some s2 \<and>
     thread_stat s1 1 = RT_THREAD_SUSPEND \<and> thread_stat s2 1 = RT_THREAD_READY \<and>
     fst (rt_completion_wait_wake 0 1 s2) = RT_EOK"
proof -
  have c: "completed 0 ex_state = 0" "thread_lists ex_state (CompletionSuspend 0) = []"
    by (simp_all add: ex_state_def)
  show ?thesis
    using rt_completion_wait_done [OF ex_state_may_block, of 0 20] c
    by (auto simp: RT_TICK_MAX_def RT_COMPLETED_def)
qed

lemma rt_completion_lost_on_timeout_witness:
  "\<exists>s1 s2 s3. rt_thread_timeout 3 (ex_wait (CompletionSuspend 0)) = Some s1 \<and> rt_completion_done 0 s1 = Some s2 \<and>
    rt_completion_wait_wake 0 3 s2 = (- RT_ETIMEOUT, s3) \<and>
    rt_completion_wait 0 0 s3 = Some (Returned (- RT_ETIMEOUT), s3)"
proof -
  have ok: "sys_ok (ex_wait (CompletionSuspend 0))" by (rule ex_sys_ok) simp
  show ?thesis
    using rt_completion_lost_on_timeout [OF ok, of 0 3] by (auto simp: RT_COMPLETED_def)
qed

section \<open>Timeouts\<close>





section \<open>Memory pools\<close>

definition ex_pool :: "list_head \<Rightarrow> (nat \<Rightarrow> mp_header) \<Rightarrow> nat option \<Rightarrow> u32 \<Rightarrow> kstate" where
  "ex_pool h hds b n = pool_update 0 (\<lambda>_. \<lparr>mp_size = 16, mp_block_size = 4, mp_block_list = b,
     block_total_count = 2, block_free_count = n, mp_header = hds\<rparr>) (ex_wait h)"

definition ex_free_pool :: kstate where
  "ex_free_pool = ex_pool (IpcSuspend (OSem 0)) ((\<lambda>_. FreeLink None)(0 := FreeLink (Some 1))) (Some 0) 2"

lemma below_two: "b < (2 :: nat) \<longleftrightarrow> b = 0 \<or> b = 1"
  by auto

lemma ex_free_pool_rep: "mp_rep 0 (pool 0 ex_free_pool) [0, 1]"
  by (auto simp: mp_rep_def ex_free_pool_def ex_pool_def below_two)

lemma same_sched_pool [simp]: "same_sched s (pool_update i f s)"
  by (simp add: same_sched_def) (simp add: pool_update_def)

lemma ex_free_pool_may_block: "may_block ex_free_pool 1"
  using same_sched_ok(6) [OF same_sched_pool] ex_state_may_block
  by (simp add: ex_free_pool_def ex_pool_def ex_state_def)

lemma rt_mp_alloc_result_witness:
  "\<exists>s'. rt_mp_alloc 0 0 ex_free_pool = Some (Returned (Some (0, 0)), s') \<and> mp_rep 0 (pool 0 s') [1]"
  using rt_mp_alloc_result [OF ex_free_pool_may_block ex_free_pool_rep, of 0] by auto

lemma rt_mp_blocks_partition_witness:
  "\<exists>s' fs. mp_run 0 ex_free_pool {0} s' \<and> mp_rep 0 (pool 0 s') fs \<and> set fs \<union> {0} = {0, 1} \<and> 0 \<notin> set fs"
proof -
  let ?p = "\<lparr>mp_size = 16, mp_block_size = 4, mp_block_list = Some 1, block_total_count = 2,
     block_free_count = 1, mp_header = (\<lambda>_. FreeLink None)(0 := OwnedBy 0)\<rparr>"
  let ?s = "pool_update 0 (\<lambda>_. ?p) ex_free_pool"
  have "mp_alloc_loop 0 (rt_thread_self ex_free_pool) 0 0 ex_free_pool = Some (Returned (Some (0, 0)), ?s)"
    by (simp add: mp_alloc_loop_def mp_take_block_def ex_free_pool_def ex_pool_def)
  then have "mp_alloc_step 0 ex_free_pool (Returned (Some (0, 0))) ?s"
    by (auto simp: mp_alloc_step_def rt_mp_alloc_def)
  from mp_run.allocated [OF mp_run.start this] have run: "mp_run 0 ex_free_pool {0} ?s" by simp
  have two: "{..<unat (block_total_count (pool 0 ex_free_pool))} = {0, 1}"
    by (auto simp: ex_free_pool_def ex_pool_def below_two)
  from rt_mp_blocks_partition [OF run ex_free_pool_rep] obtain fs where
    "mp_rep 0 (pool 0 ?s) fs" "set fs \<union> {0} = {0, 1}" "set fs \<inter> {0} = {}"
    unfolding two by auto
  with run show ?thesis by blast
qed

lemma rt_mp_free_wakes_last_witness:
  "\<exists>s' s''. rt_mp_free (Some (0, 1)) (ex_pool (PoolSuspend 0) (\<lambda>_. OwnedBy 0) None 0) = Some s' \<and>
     mp_waiters 0 s' = [] \<and> thread_stat s' 3 = RT_THREAD_READY \<and>
     rt_mp_alloc_wake 0 3 (20, 0) s' = Some (Returned (Some (0, 1)), s'')"
proof -
  let ?s = "ex_pool (PoolSuspend 0) (\<lambda>_. OwnedBy 0) None 0"
  have ok: "sys_ok ?s" using ex_sys_ok [of "PoolSuspend 0"] by (simp add: ex_pool_def)
  have rep: "mp_rep 0 (pool 0 ?s) []" by (simp add: mp_rep_def ex_pool_def)
  have w: "mp_waiters 0 ?s = 3 # []" by (simp add: ex_pool_def)
  have ty: "is_thread 3 ?s = Some ()" "is_timer (ThreadTimer 3) ?s = Some ()"
    using ex_typed [of "PoolSuspend 0" 3] by (simp_all add: thread_typed_def ex_pool_def)
  show ?thesis
    using rt_mp_free_wakes_last [OF ok rep w _ _ ty, of 1 "(20, 0)"] by (auto simp: ex_pool_def)
qed

lemma rt_mp_init_result_witness:
  "\<exists>s0 s'. rt_object_init (OMemPool 5) RT_Object_Class_MemPool ''mp'' ex_state = Some s0 \<and>
     rt_mp_init 5 ''mp'' 16 4 ex_state = Some (RT_EOK, s') \<and> block_total_count (pool 5 s') = 2"
proof -
  have fr: "resched_frame ex_state (rt_enter_critical ex_state)" by simp
  obtain s1 where "rt_exit_critical (rt_enter_critical ex_state) = Some s1"
    by (rule rt_exit_critical_total [OF resched_frame_inv(3) [OF fr ex_state_inv]])
  moreover obtain k where k: "rt_object_get_information RT_Object_Class_MemPool = Some k"
    by (simp add: rt_object_get_information_def rt_object_container_types_def obj_simps)
  moreover have "containers (rt_enter_critical ex_state) k = []"
    by (simp add: resched_frameD(5) [OF fr]) (simp add: ex_state_def ex_wait_def)
  ultimately obtain s0 where s0: "rt_object_init (OMemPool 5) RT_Object_Class_MemPool ''mp'' ex_state = Some s0"
    by (simp add: rt_object_init_def Let_def)
  have c: "RT_ALIGN_DOWN 16 RT_ALIGN_SIZE div (RT_ALIGN 4 RT_ALIGN_SIZE + 4) = 2"
    "RT_ALIGN 4 RT_ALIGN_SIZE + 4 \<noteq> 0"
    by (simp_all add: RT_ALIGN_def RT_ALIGN_DOWN_def RT_ALIGN_SIZE_def)
  show ?thesis using rt_mp_init_result [OF _ _ c(2) s0, of 16] s0 by (auto simp: c)
qed

section \<open>Wait queues\<close>

lemma ex_wqueue [simp]: "wqueue q (ex_wait h) = \<lparr>wq_flag = 0, waiting_list = []\<rparr>"
  by (simp add: ex_wait_def ex_drivers_def)

lemma rt_wqueue_wait_result_witness:
  "\<exists>s' v. rt_wqueue_wait 0 False 20 5 ex_state = Some (Blocked (), s') \<and>
     waiting_list (wqueue 0 s') = [5] \<and> thread_stat s' 1 = RT_THREAD_SUSPEND \<and>
     rt_current_thread s' = Some v \<and> v \<noteq> 1"
proof -
  have q: "wqueue 0 ex_state = \<lparr>wq_flag = 0, waiting_list = []\<rparr>" by (simp add: ex_state_def)
  have tick: "rt_tick_from_millisecond 20 = 2"
    by (simp add: rt_tick_from_millisecond_def RT_TICK_PER_SECOND_def)
  show ?thesis
    using rt_wqueue_wait_result [OF ex_state_may_block, of 5 0 20 False] q tick
    by (auto simp: RT_TICK_MAX_def RT_WQ_FLAG_WAKEUP_def)
qed

lemma rt_wqueue_wakeup_result_witness:
  "\<exists>s s'. rt_wqueue_add 0 3 ex_state = Some s \<and> rt_wqueue_wakeup (\<lambda>_ _ _. 1) 0 7 s = Some s' \<and>
     waiting_list (wqueue 0 s') = [] \<and> thread_stat s' 3 = RT_THREAD_READY"
proof -
  let ?s = "wnode_update 3 (\<lambda>nd. nd\<lparr>wq_node_list := Some 0\<rparr>)
             (wqueue_update 0 (\<lambda>w. w\<lparr>waiting_list := waiting_list w @ [3]\<rparr>) ex_state)"
  have n: "wnode 3 ex_state = \<lparr>polling_thread = 3, wq_node_list = None, wakeup = DefaultWake, wq_key = 0\<rparr>"
    "wqueue 0 ex_state = \<lparr>wq_flag = 0, waiting_list = []\<rparr>"
    by (simp_all add: ex_state_def ex_wait_def ex_drivers_def)
  have add: "rt_wqueue_add 0 3 ex_state = Some ?s" using n by (simp add: rt_wqueue_add_def)
  have eq: "same_sched ex_state ?s" by (rule same_sched_trans [OF same_sched_steps(1) same_sched_steps(2)])
  have ok: "sys_ok ?s" using same_sched_ok(1) [OF eq] ex_state_inv by simp
  have acc: "filter (\<lambda>m. node_wakes (\<lambda>_ _ _. 1) 7 (wnode m ?s)) (waiting_list (wqueue 0 ?s)) = [3]"
    using n by (simp add: node_wakes_def wqueue_default_wake_def)
  have w: "wnode 3 ?s = \<lparr>polling_thread = 3, wq_node_list = Some 0, wakeup = DefaultWake, wq_key = 0\<rparr>"
    using n by simp
  have ty: "is_thread 3 ?s = Some ()" "is_timer (ThreadTimer 3) ?s = Some ()" "thread_stat ?s 3 = RT_THREAD_SUSPEND"
    using same_sched_ok(5) [OF eq, of 3] same_sched_ok(2) [OF eq, of 3] ex_state_typed [of 3] ex_state_stats(4)
    by (simp_all add: thread_typed_def)
  obtain s' where "rt_wqueue_wakeup (\<lambda>_ _ _. 1) 0 7 ?s = Some s'"
    "waiting_list (wqueue 0 s') = remove1 3 (waiting_list (wqueue 0 ?s))"
    "thread_stat s' (polling_thread (wnode 3 ?s)) = RT_THREAD_READY"
    using rt_wqueue_wakeup_result [OF ok acc] w ty by (auto simp del: wnode_update_fields wqueue_update_fields)
  with add w n show ?thesis by auto
qed

section \<open>Work queues\<close>

definition ex_work :: "list_head \<Rightarrow> nat option \<Rightarrow> kstate" where
  "ex_work h c = wkq_update 0 (\<lambda>x. x\<lparr>work_current := c\<rparr>) (ex_wait h)"

lemma ex_work_fields [simp]:
  "wkq 0 (ex_work h c) = \<lparr>work_list = [], work_current = c, work_sem = 7, work_thread = 3\<rparr>"
  "wk w (ex_work h c) = \<lparr>work_node = None, work_func = w, work_data = 0, work_flags = 0, work_type = 0,
     work_timer = Timer w, work_queue = None\<rparr>"
  "thread_lists (ex_work h c) = ex_lists h" "threads (ex_work h c) = ex_threads h"
  "sems (ex_work h c) = (\<lambda>_. \<lparr>sem_value = 0\<rparr>)"
  by (simp_all add: ex_work_def) (simp_all add: ex_wait_def ex_drivers_def wkq_update_def)

lemma same_sched_work [simp]:
  "same_sched s (wkq_update q f s)" "same_sched s (wk_update w g s)"
  by (auto simp: same_sched_def wkq_update_def wk_update_def intro!: sched_inv_cong)

lemma ex_work_ok: "wait_head h \<Longrightarrow> sys_ok (ex_work h c)"
  using same_sched_ok(1) [OF same_sched_work(1)] ex_sys_ok by (simp add: ex_work_def)

lemma ex_work_inv: "wkq_inv 0 (ex_work h c)"
  by (simp add: wkq_inv_def)

definition ex_submitted :: "list_head \<Rightarrow> nat option \<Rightarrow> kstate" where
  "ex_submitted h c = set_flag 2 RT_WORK_STATE_PENDING (work_append 0 2 (work_remove 2 (ex_work h c)))"

lemma ex_submit: "workqueue_submit_work 0 2 (ex_work h (Some 5)) = Some (RT_EOK, ex_submitted h (Some 5))"
  by (simp add: workqueue_submit_work_def ex_submitted_def work_remove_wk)

lemma ex_submitted_fields:
  "same_sched (ex_work h c) (ex_submitted h c)" "thread_lists (ex_submitted h c) = ex_lists h"
  "wkq 0 (ex_submitted h c) = \<lparr>work_list = [2], work_current = c, work_sem = 7, work_thread = 3\<rparr>"
proof -
  have r: "work_remove 2 (ex_work h c) = ex_work h c" by (simp add: work_remove_def)
  show "same_sched (ex_work h c) (ex_submitted h c)"
    unfolding ex_submitted_def r set_flag_def work_append_def
    by (meson same_sched_trans same_sched_work)
  show "thread_lists (ex_submitted h c) = ex_lists h"
    unfolding ex_submitted_def r set_flag_def work_append_def
    using ex_work_fields(3) [of h c] by (simp add: wk_update_def wkq_update_def)
  show "wkq 0 (ex_submitted h c) = \<lparr>work_list = [2], work_current = c, work_sem = 7, work_thread = 3\<rparr>"
    by (simp add: ex_submitted_def r)
qed

lemma workqueue_is_fifo_witness:
  "\<exists>s'. wkq_run 0 (ex_work (IpcSuspend (OSem 0)) (Some 5)) [Submitted 2, Cancelled 2] s' \<and>
     wkq_abs 0 s' = ([], Some 5)"
proof -
  let ?s = "ex_work (IpcSuspend (OSem 0)) (Some 5)" and ?t = "ex_submitted (IpcSuspend (OSem 0)) (Some 5)"
  let ?u = "clear_flag 2 RT_WORK_STATE_PENDING (work_remove 2 ?t)"
  have "wkq_run 0 ?s [Submitted 2] ?t"
    using wkq_run.submitted [OF wkq_run.start ex_submit] by simp
  moreover have "workqueue_cancel_work 0 2 ?t = (RT_EOK, ?u)"
    by (simp add: workqueue_cancel_work_def ex_submitted_fields)
  ultimately have run: "wkq_run 0 ?s [Submitted 2, Cancelled 2] ?u"
    using wkq_run.cancelled [of 0 ?s "[Submitted 2]" ?t 2 ?u] by simp
  from workqueue_is_fifo [OF run ex_work_inv] run show ?thesis by (auto simp: wkq_abs_def)
qed

lemma workqueue_completion_wakes_all_witness:
  "\<exists>s'. workqueue_thread_end 0 (ex_work (IpcSuspend (OSem 7)) (Some 5)) = Some s' \<and>
     work_current (wkq 0 s') = None \<and> sem_waiters 7 s' = [] \<and> thread_stat s' 3 = RT_THREAD_READY"
proof -
  let ?s = "ex_work (IpcSuspend (OSem 7)) (Some 5)"
  have ok: "sys_ok ?s" by (rule ex_work_ok) simp
  have ob: "objects ?s = ex_objects" by (simp add: ex_work_def wkq_update_def)
  have sem: "is_sem (work_sem (wkq 0 ?s)) ?s = Some ()"
    by (simp add: is_sem_def rt_object_get_type_def ob obj_simps rt_assert_def)
  have ty: "\<forall>t\<in>set (sem_waiters (work_sem (wkq 0 ?s)) ?s).
      is_thread t ?s = Some () \<and> is_timer (ThreadTimer t) ?s = Some ()"
    by (simp add: is_thread_def is_timer_def rt_object_get_type_def ob obj_simps rt_assert_def)
  have z: "sem_value (sems ?s (work_sem (wkq 0 ?s))) = 0" by simp
  show ?thesis using workqueue_completion_wakes_all [OF ok sem z ty] by auto
qed

lemma rt_workqueue_cancel_all_work_stuck_witness:
  "\<exists>s'. rt_workqueue_cancel_all_work 0 (ex_submitted (IpcSuspend (OSem 0)) (Some 5)) = Some (RT_EOK, s') \<and>
     work_list (wkq 0 s') = [] \<and> workqueue_submit_work 0 2 s' = Some (- RT_EBUSY, s')"
proof -
  let ?t = "ex_submitted (IpcSuspend (OSem 0)) (Some 5)"
  have ok: "sys_ok ?t" using same_sched_ok(1) [OF ex_submitted_fields(1)] ex_work_ok by simp
  have inv: "wkq_inv 0 ?t"
    using submit_inv(1) [OF ex_work_inv, where w = 2] by (simp add: ex_submitted_def)
  have "2 \<in> set (work_list (wkq 0 ?t))" by (simp add: ex_submitted_fields)
  from rt_workqueue_cancel_all_work_stuck [OF ok inv this] show ?thesis by blast
qed


end
