(* ===== verification/RTT_HeapExamples.thy ===== *)
theory RTT_HeapExamples
  imports RTT_Examples RTT_MemHeap RTT_Printf
begin

text \<open>
  The properties of heaps and of formatted output applied: a heap of 1000 bytes that
  \<^verbatim>\<open>rt_memheap_init\<close> sets up in the state of \<^theory_text>\<open>RTT_Examples\<close>, and short formats.
\<close>

section \<open>Heaps\<close>

definition ex_heap :: kstate where
  "ex_heap = snd (the (rt_memheap_init 0 ''heap'' 1000 ex_state))"

lemma ex_state_containers:
  "OMemHeap 0 \<notin> set (containers ex_state RT_Object_Class_MemHeap)"
  "OSem (lock_of 0 ex_state) \<notin> set (containers ex_state RT_Object_Class_Semaphore)"
  by (simp_all add: ex_state_def ex_wait_def)

lemma ex_heap_at: "heap_at 0 ex_heap [(0, 952, True)]"
proof -
  have "unat (RT_ALIGN_DOWN 1000 RT_ALIGN_SIZE) - 48 = 952" by (simp add: unat_align_down)
  then show ?thesis
    using rt_memheap_init_layout [OF ex_state_inv ex_state_containers, of 1000 "''heap''"] by (auto simp: ex_heap_def)
qed

lemma ex_align: "unat (memheap_align 100) = 100"
  by (simp add: memheap_align_def RT_ALIGN_def RT_ALIGN_SIZE_def RT_MEMHEAP_MINIALLOC_def)

lemma ex_heap_used: "\<exists>s. rt_memheap_alloc 0 100 ex_heap = Some (Returned (Some (0, 24)), s) \<and>
    heap_at 0 s [(0, 100, False), (124, 828, True)]"
  using rt_memheap_alloc_layout [OF ex_heap_at refl, of 100] unfolding ex_align
  by (auto simp: free_total_def)


lemma rt_memheap_alloc_result_witness:
  "\<exists>s'. rt_memheap_alloc 0 100 ex_heap = Some (Returned (Some (0, 24)), s')"
  using rt_memheap_alloc_result [OF ex_heap_at, of 100] unfolding ex_align
  by (auto simp: free_total_def)

lemma rt_memheap_alloc_free_roundtrip_witness:
  "\<exists>s' s''. rt_memheap_alloc 0 100 ex_heap = Some (Returned (Some (0, 24)), s') \<and>
     rt_memheap_free (Some (0, 24)) s' = Some (Returned (), s'') \<and> heap_at 0 s'' [(0, 952, True)]"
  using ex_heap_used rt_memheap_alloc_free_roundtrip [OF ex_heap_at, of 100] by blast

lemma rt_memheap_alloc_wraps_witness:
  "\<exists>s'. rt_memheap_alloc 0 0xffffffff ex_heap = Some (Returned (Some (0, 24)), s')"
  using rt_memheap_alloc_wraps [OF ex_heap_at, of "0xffffffff" 0 952] by (auto simp: free_total_def)

lemma rt_memheap_realloc_overruns_witness:
  "\<exists>s. rt_memheap_alloc 0 100 ex_heap = Some (Returned (Some (0, 24)), s) \<and>
     rt_memheap_realloc 0 (Some 24) 0xfffffff8 s = None"
  using ex_heap_used rt_memheap_realloc_overruns [of 0 _ "[]" 0 100 124 828 "[]" "0xfffffff8"] by auto

lemma rt_memheap_init_result_witness:
  "\<exists>s'. rt_memheap_init 0 ''heap'' 1001 ex_state = Some (RT_EOK, s') \<and> heap_at 0 s' [(0, 952, True)] \<and>
     rt_memheap_init 0 ''heap'' 47 ex_state = None"
proof -
  have "unat (RT_ALIGN_DOWN 1001 RT_ALIGN_SIZE) - 48 = 952" by (simp add: unat_align_down)
  then show ?thesis
    using rt_memheap_init_result [OF ex_state_inv ex_state_containers, of 1001 "''heap''"]
      rt_memheap_init_result [OF ex_state_inv ex_state_containers, of 47 "''heap''"] by auto
qed

section \<open>Formatted output\<close>

text \<open>The format at 10 is \<^verbatim>\<open>x%u\<close>.\<close>

definition ex_text :: mem where
  "ex_text = (\<lambda>_. 0)(10 := 120, 11 := 37, 12 := 117)"

lemma ex_digits: "num_digits small_digits 10 42 = [50, 52]"
  by (subst num_digits.simps, simp add: divide_def, subst num_digits.simps, simp add: divide_def,
      subst num_digits.simps, simp add: divide_def small_digits_def)

lemma ex_format: "format_text ex_text 10 [IntArg 42] = Some [120, 52, 50]"
proof -
  have fl: "flags_loop ex_text 11 0 = Some (0, 12)" by (subst flags_loop.simps) (simp add: ex_text_def)
  have pd: "parse_directive ex_text 11 [IntArg 42] = Some (0, - 1, - 1, 0, 12, [IntArg 42])"
    using fl by (simp add: parse_directive_def parse_width_def parse_precision_def parse_qualifier_def isdigit_def)
      (simp add: ex_text_def)
  have "number_text 42 10 (- 1) (- 1) 0 = [52, 50]" by (simp add: number_text_plain ex_digits)
  then have d: "directive_text ex_text 11 [IntArg 42] = Some (12, [], [52, 50])"
    using pd by (simp add: directive_text_def convert_text_def) (simp add: ex_text_def int_format_def int_value_def)
  have e: "format_text ex_text 13 [] = Some []" by (subst format_text.simps) (simp add: ex_text_def)
  have "format_text ex_text 11 [IntArg 42] = Some [52, 50]"
    using d e by (subst format_text.simps) (simp add: ex_text_def)
  then show ?thesis by (subst format_text.simps) (simp add: ex_text_def)
qed

lemma rt_vsnprintf_writes_prefix_witness:
  "\<exists>m'. rt_vsnprintf 100 3 10 [IntArg 42] ex_text = Some (3, m') \<and> m' 100 = 120 \<and> m' 101 = 52 \<and> m' 102 = 0 \<and> m' 103 = 0"
proof -
  have "cstr ex_text 10 [120, 37, 117]" by (simp add: ex_text_def)
  from rt_vsnprintf_writes_prefix [OF _ this _ _ ex_format, of 100 3] show ?thesis
    by (auto simp: clear_of_def ex_text_def)
qed

lemma print_number_skip_atoi_witness:
  "\<exists>b m'. print_number 100 42 10 (- 1) (- 1) 0 (10, \<lambda>_. 0) = (b, m') \<and> skip_atoi m' 10 0 = Some (42, b)"
proof -
  obtain b m' where p: "print_number 100 42 10 (- 1) (- 1) 0 (10, \<lambda>_. 0) = (b, m')" by force
  have "b = 12" "m' b = 0"
    using p unfolding print_number_text put_all_memory number_text_plain by (auto simp: ex_digits)
  then show ?thesis using print_number_skip_atoi [OF p] p by simp
qed

end
