(* ===== verification/RTT_SlabExamples.thy ===== *)
theory RTT_SlabExamples
  imports RTT_SlabHeap
begin

text \<open>A small heap, for the properties of the slab allocator on concrete calls.\<close>

definition slab_zeroed :: slab where
  "slab_zeroed = \<lparr>heap_npages = 0, slab_pages = \<lparr>rt_page_list = None, page_head = (\<lambda>_. \<lparr>ph_next = None, ph_page = 0\<rparr>)\<rparr>,
     usage = (\<lambda>_. \<lparr>mu_type = PAGE_TYPE_FREE, mu_size = 0\<rparr>), zone_array = (\<lambda>_. None), zone_free = None, zone_free_cnt = 0,
     zone_size = 0, zone_limit = 0, zone_page_cnt = 0,
     zones = (\<lambda>_. \<lparr>z_magic = 0, z_nfree = 0, z_nused = 0, z_nmax = 0, z_next = None, z_baseptr = 0, z_uindex = 0,
       z_chunksize = 0, z_zoneindex = 0, z_freechunk = None\<rparr>),
     chunk_next = (\<lambda>_. None), used_mem = 0, max_mem = 0, slab_data = (\<lambda>_. 0)\<rparr>"

lemma zoneindex_result_witness:
  "\<exists>i < NZONES. zoneindex 1000 = (int i, of_nat (chunk_size i)) \<and> unat (1000 :: u32) \<le> chunk_size i \<and>
    8 * (chunk_size i - unat (1000 :: u32)) < max 64 (unat (1000 :: u32))"
  by (rule zoneindex_result) simp_all

lemma slab_client_safe_witness:
  "\<exists>s1 held s2 L. rt_system_heap_init 0 0x100000 slab_zeroed = Some s1 \<and>
    client_run rt_malloc slab_free slab_realloc slab_store slab_data [Malloc 100, Malloc 0x5000, Malloc 100] (Map.empty, s1) =
      Some (held, s2) \<and> apart held \<and> intact held (slab_data s2) \<and> slab_rep s2 L"
  by (rule slab_client_safe)
    (simp_all add: slab_zeroed_def page_align_def RT_ALIGN_def RT_ALIGN_DOWN_def RT_MM_PAGE_SIZE_def)

definition pages_16 :: page_state where
  "pages_16 = \<lparr>rt_page_list = Some 0, page_head = (\<lambda>_. \<lparr>ph_next = None, ph_page = 16\<rparr>)\<rparr>"

lemma page_alloc_free_roundtrip_witness:
  "\<exists>b s1 s2. page_alloc 3 pages_16 = Some (Some b, s1) \<and> page_free b 3 s1 = Some s2 \<and>
    runs_at (page_head s2) (rt_page_list s2) [(0, 16)]"
proof -
  have "\<exists>s1. page_alloc 3 pages_16 = Some (Some 0, s1)"
    unfolding page_alloc_def by (subst page_alloc_loop.simps) (simp add: pages_16_def)
  then obtain s1 where s1: "page_alloc 3 pages_16 = Some (Some 0, s1)" by blast
  have "\<exists>s2. page_free 0 3 s1 = Some s2 \<and> runs_at (page_head s2) (rt_page_list s2) [(0, 16)]"
    by (rule page_alloc_free_roundtrip [OF _ _ s1, of _ 16]) (simp_all add: pages_16_def)
  then show ?thesis using s1 by blast
qed

text \<open>A heap of 16 free pages, and the same heap with one large block.\<close>

definition slab_ready :: slab where
  "slab_ready = slab_zeroed\<lparr>heap_npages := 16, slab_pages := pages_16, zone_size := 32768, zone_limit := 8192, zone_page_cnt := 8\<rparr>"

lemma slab_ready_rep: "slab_rep slab_ready {}"
proof -
  have "page_rep 16 pages_16 {0..<16}"
    unfolding page_rep_def by (intro exI [of _ "[(0, 16)]"]) (simp add: pages_16_def)
  then have sh: "slab_shape slab_ready {0..<16} Map.empty (\<lambda>_. [])"
    by (simp add: slab_shape_def slab_ready_def slab_zeroed_def extents_ok_def slab_geometry_def usage_ok_def lists_ok_def
        listed_def idle_ok_def zones_ok_def)
  have bl: "slab_blocks slab_ready Map.empty (\<lambda>_. []) = {}"
    by (simp add: slab_blocks_def large_blocks_def small_blocks_def)
  show ?thesis
    unfolding slab_rep_def by (intro conjI exI, rule sh, rule bl [symmetric]) (simp_all add: slab_ready_def slab_zeroed_def block_sum_def)
qed

lemma slab_one_block: "\<exists>s m. slab_rep s {(0, m)} \<and> 0x5000 \<le> m"
proof -
  have "\<exists>pg. page_alloc 5 pages_16 = Some (Some 0, pg)"
    unfolding page_alloc_def by (subst page_alloc_loop.simps) (simp add: pages_16_def)
  then obtain pg where pg: "page_alloc 5 pages_16 = Some (Some 0, pg)" by blast
  have "drop_bit 12 (0x5000 :: u32) = 5" by simp
  then have "\<exists>s. internal_malloc 0x5000 slab_ready = Some (Some 0, s)"
    using pg by (simp add: internal_malloc_def malloc_large_def slab_ready_def page_align_def RT_ALIGN_def RT_MM_PAGE_SIZE_def
        RT_MM_PAGE_BITS_def with_pages_def)
  then obtain s where s: "internal_malloc 0x5000 slab_ready = Some (Some 0, s)" by blast
  obtain r s' where "internal_malloc 0x5000 slab_ready = Some (r, s')" "malloc_done (unat (0x5000 :: u32)) {} slab_ready r s'"
    using internal_malloc_done [OF slab_ready_rep] by blast
  then obtain m where "20480 \<le> m" "slab_rep s' {(0, m)}" using s by (auto simp: malloc_done_def)
  then show ?thesis by (intro exI conjI) simp_all
qed


lemma slab_blocks_aligned_witness:
  "\<exists>s m. slab_rep s {(0, m)} \<and> 8 dvd (0 :: nat) \<and> (\<forall>k. k \<le> RT_MM_PAGE_BITS \<longrightarrow> m = 2 ^ k \<longrightarrow> m dvd 0)"
proof -
  obtain s m where sm: "slab_rep s {(0, m)}" using slab_one_block by blast
  have "(0, m) \<in> {(0, m)}" by simp
  from slab_blocks_aligned [OF sm this] sm show ?thesis by blast
qed

lemma rt_calloc_zeroed_witness:
  "\<exists>r s'. rt_calloc 10 100 slab_ready = Some (r, s') \<and>
    (\<forall>x l i. (x, l) \<in> {} \<longrightarrow> i < l \<longrightarrow> slab_data s' (x + i) = slab_data slab_ready (x + i)) \<and>
    (case r of
       None \<Rightarrow> slab_rep s' {}
     | Some p \<Rightarrow> \<exists>m. unat (10 :: u32) * unat (100 :: u32) \<le> m \<and> (p, m) \<notin> {} \<and> slab_rep s' (insert (p, m) {}) \<and>
         (\<forall>i < unat (10 :: u32) * unat (100 :: u32). slab_data s' (p + i) = 0))"
  by (rule rt_calloc_zeroed [OF slab_ready_rep]) simp

end
