(* ===== verification/RTT_PipeExamples.thy ===== *)
theory RTT_PipeExamples
  imports RTT_PipeFile
begin

text \<open>The properties of devices and pipes, applied to concrete drivers, devices and pipes.\<close>

section \<open>Devices\<close>

definition null_driver :: "(unit, unit) driver_code" where
  "null_driver = \<lparr>code_init = (\<lambda>_ _ _. None), code_open = (\<lambda>_ _ _ _. None),
     code_close = (\<lambda>f _ w. Some (if f = 0 then Returned (- RT_EIO) else Blocked (), w)),
     code_read = (\<lambda>_ _ _ _ _ _. None), code_write = (\<lambda>_ _ _ _ _ _. None), code_control = (\<lambda>_ _ _ _ _. None)\<rparr>"

definition ex_world :: "rt_device \<Rightarrow> unit world" where
  "ex_world v = \<lparr>kernel = ex_state, devices = (\<lambda>_. v), privates = ()\<rparr>"

lemma null_driver_quiet: "quiet_driver null_driver d"
  by (simp add: quiet_driver_def null_driver_def dev_same_def)


lemma ex_world_fields [simp]: "dev d (ex_world v) = v" "kernel (ex_world v) = ex_state"
  by (simp_all add: ex_world_def)

lemma is_device_update [simp]: "is_device d (dev_update e f w) = is_device d w"
  by (simp add: is_device_def)

lemma ex_device [simp]: "is_device d (ex_world v) = Some ()"
  by (simp add: is_device_def ex_world_def rt_object_get_type_def obj_simps)


definition last_handle :: "u16 \<Rightarrow> nat \<Rightarrow> rt_device" where
  "last_handle flags f = (zero_device 0)\<lparr>dev_flag := flags, open_flag := 8, ref_count := 1, close_fn := Some f\<rparr>"

lemma rt_device_close_failure_wedges_witness:
  "\<exists>wi. rt_device_close null_driver 0 (ex_world (last_handle 0x18 0)) = Some (Returned (- RT_EIO), wi) \<and>
     rt_device_open null_driver 0 2 wi = Some (Returned (- RT_EBUSY), dev_update 0 activate wi) \<and> ref_count (dev 0 wi) = 0"
proof -
  let ?w = "ex_world (last_handle 0x18 0)"
  have "\<exists>wi. rt_device_close null_driver 0 ?w = Some (Returned (- RT_EIO), wi) \<and>
      dev 0 wi = (last_handle 8 0)\<lparr>ref_count := 0\<rparr> \<and> kernel wi = ex_state"
    by (simp add: rt_device_close_def last_handle_def Let_def null_driver_def close_done_def err_simps dev_simps
        zero_device_def)
  then obtain wi where c: "rt_device_close null_driver 0 ?w = Some (Returned (- RT_EIO), wi)"
    and wi: "dev 0 wi = (last_handle 8 0)\<lparr>ref_count := 0\<rparr>" "kernel wi = ex_state" by blast
  have isd: "is_device 0 wi = Some ()" using ex_device [of 0 "zero_device 0"] by (simp add: is_device_def wi(2))
  have o: "rt_device_open null_driver 0 2 wi = Some (Returned (- RT_EBUSY), dev_update 0 activate wi)"
    by (simp add: rt_device_open_def isd wi last_handle_def zero_device_def open_inited_def open_activated_def activate_def
        dev_simps)
  have run: "device_run null_driver 0 wi (dev_update 0 activate wi) Idle ([] @ [Opened (- RT_EBUSY)])"
    by (rule device_run.opened [OF device_run.start o])
  have "ref_count (dev 0 (dev_update 0 activate wi)) = 0"
    using rt_device_close_failure_wedges [OF null_driver_quiet _ _ _ c _ _ run]
    by (simp add: last_handle_def dev_simps err_simps)
  then show ?thesis using c o by simp
qed

lemma rt_device_close_open_race_witness:
  "\<exists>w1 w2 r w3. rt_device_close null_driver 0 (ex_world (last_handle 0x10 1)) = Some (Blocked (), w1) \<and>
     rt_device_open null_driver 0 2 w1 = Some (Returned RT_EOK, w2) \<and> rt_device_close_wake 0 RT_EOK w2 = (r, w3) \<and>
     ref_count (dev 0 w3) = 1 \<and> open_flag (dev 0 w3) AND RT_DEVICE_OFLAG_OPEN = 0"
proof -
  let ?w = "ex_world (last_handle 0x10 1)"
  let ?w1 = "dev_update 0 (\<lambda>v. v\<lparr>ref_count := ref_count v - 1\<rparr>) ?w"
  have c: "rt_device_close null_driver 0 ?w = Some (Blocked (), ?w1)"
    by (simp add: rt_device_close_def last_handle_def Let_def null_driver_def)
  have "\<exists>w2. rt_device_open null_driver 0 2 ?w1 = Some (Returned RT_EOK, w2)"
    by (simp add: rt_device_open_def last_handle_def zero_device_def open_activated_def open_done_def
        dev_simps Let_def)
  then obtain w2 where o: "rt_device_open null_driver 0 2 ?w1 = Some (Returned RT_EOK, w2)" by blast
  obtain r w3 where e: "rt_device_close_wake 0 RT_EOK w2 = (r, w3)" by fastforce
  have "ref_count (dev 0 w3) = 1 \<and> open_flag (dev 0 w3) AND RT_DEVICE_OFLAG_OPEN = 0"
    using rt_device_close_open_race [OF null_driver_quiet ex_device _ _ _ c o e]
    by (simp add: last_handle_def dev_simps)
  then show ?thesis using c o e by blast
qed

section \<open>Pipes\<close>

definition ex_pipe :: "rt_pipe" where
  "ex_pipe = \<lparr>is_named = True, fifo = Some rb_example, bufsz = 8, readers = 2, writers = 1,
     reader_queue = 0, writer_queue = 1, pipe_lock = 0\<rparr>"

definition ex_pipe_dev :: rt_device where
  "ex_pipe_dev = (zero_device 2)\<lparr>dev_type := RT_Device_Class_Pipe, dev_flag := 0x17, open_flag := 8, ref_count := 1,
     open_fn := Some pipe_driver, close_fn := Some pipe_driver, read_fn := Some pipe_driver,
     write_fn := Some pipe_driver, control_fn := Some pipe_driver\<rparr>"

definition ex_pipe_world :: "kstate \<Rightarrow> pipe_world" where
  "ex_pipe_world k = \<lparr>kernel = k, devices = (\<lambda>_. ex_pipe_dev), privates = (\<lambda>_. ex_pipe)\<rparr>"

lemma ex_lock_ready: "lock_ready 1 0 ex_state"
proof -
  have "thread_lists ex_state (IpcSuspend (OMutex 0)) = []" by (simp add: ex_lists_def)
  moreover have "mutexes ex_state 0 = free_mutex" by (simp add: ex_state_def ex_wait_def free_mutex_def)
  moreover have "is_mutex 0 ex_state = Some ()" by (simp add: is_mutex_def rt_object_get_type_def obj_simps)
  ultimately show ?thesis
    using ex_state_unlocked(2) by (simp add: lock_ready_def RT_DEBUG_NOT_IN_INTERRUPT_def)
qed

lemma ex_pipe_ready: "pipe_ready 1 0 rb_example (ex_pipe_world ex_state)"
  using ex_lock_ready rb_example_facts(1)
  by (simp add: pipe_ready_def ex_pipe_world_def ex_pipe_def ex_pipe_dev_def zero_device_def is_device_def
      rt_object_get_type_def obj_simps)

lemma rt_pipe_close_keeps_data_witness:
  "\<exists>w1 w2 w3. rt_device_close (pipe_code (True, \<lambda>_. None)) 0 (ex_pipe_world ex_state) = Some (Returned RT_EOK, w1) \<and>
     rt_device_open (pipe_code (True, \<lambda>_. None)) 0 2 w1 = Some (Returned RT_EOK, w2) \<and>
     rt_device_read (pipe_code (True, \<lambda>_. None)) 0 0 [0, 0, 0] 3 w2 = Some (Returned (3, [3, 4, 5]), w3)"
proof -
  have "ref_count (dev 0 (ex_pipe_world ex_state)) = 1"
    "dev_flag (dev 0 (ex_pipe_world ex_state)) AND RT_DEVICE_FLAG_STANDALONE = 0"
    by (simp_all add: ex_pipe_world_def ex_pipe_dev_def dev_simps)
  from rt_pipe_close_keeps_data [OF ex_pipe_ready this, of 3 "[0, 0, 0]" "(True, \<lambda>_. None)" 2 0]
  show ?thesis by (auto simp: rb_example_facts)
qed

lemma pipe_device_write_read_witness:
  "\<exists>w1 w2. rt_device_write (pipe_code (True, \<lambda>_. None)) 0 0 [10, 11, 12] 3 (ex_pipe_world ex_state) = Some (Returned 3, w1) \<and>
     rt_device_read (pipe_code (True, \<lambda>_. None)) 0 0 [0, 0, 0, 0, 0, 0, 0, 0] 8 w1
       = Some (Returned (7, [3, 4, 5, 6, 10, 11, 12, 0]), w2)"
proof -
  have "ref_count (dev 0 (ex_pipe_world ex_state)) \<noteq> 0" by (simp add: ex_pipe_world_def ex_pipe_dev_def)
  from pipe_device_write_read [OF ex_pipe_ready this, of 3 "[10, 11, 12]" 8 "[0, 0, 0, 0, 0, 0, 0, 0]" "(True, \<lambda>_. None)" 0]
  show ?thesis by (auto simp: rb_example_facts Let_def)
qed


section \<open>Pipe files\<close>

lemma ex_pipe_fields [simp]:
  "the_pipe d (ex_pipe_world k) = ex_pipe" "kernel (ex_pipe_world k) = k" "dev d (ex_pipe_world k) = ex_pipe_dev"
  by (simp_all add: ex_pipe_world_def)

definition read_end :: dfs_fd where "read_end = \<lparr>fd_flags = O_RDONLY, fd_data = Some 0\<rparr>"

lemma reader_step:
  assumes "pipe_run user d wi w cs acc wr rd" "cs t = Some (Reading fd count node pc buf)"
    and "rt_current_thread (kernel w) = Some t" "pipe_fops_read user fd count node t pc buf w = Some ((pc', buf'), w')"
  shows "\<exists>cs' acc'. pipe_run user d wi w' cs' acc' wr (rd @ read_moved pc pc' buf') \<and>
    cs' t = Some (Reading fd count node pc' buf')"
  using pipe_run.read_step [OF assms(1,3,2,4)] by (intro exI conjI, assumption) simp

lemma pipe_is_stream_witness:
  "\<exists>w cs acc. pipe_run (\<lambda>_ _ _. 0) 0 (ex_pipe_world ex_state) w cs acc [] [3, 4, 5] \<and>
     (\<exists>rb'. fifo (the_pipe 0 w) = Some rb' \<and> rb_data rb' = [6])"
proof -
  let ?u = "\<lambda>_ _ _. 0 :: int" and ?w = "ex_pipe_world ex_state" and ?b = "[0, 0, 0] :: u8 list"
  let ?c = "\<lambda>pc buf. Some (Reading read_end 3 9 pc buf)"
  have cur: "rt_current_thread (kernel ?w) = Some 1" by simp
  have s1: "pipe_fops_read ?u read_end 3 9 1 RdStart ?b ?w = Some ((RdLock, ?b), ?w)"
    by (simp add: pipe_fops_read_def read_end_def ex_pipe_def)
  let ?w2 = "?w\<lparr>kernel := lock_held 1 0 ex_state\<rparr>"
  have s2: "pipe_fops_read ?u read_end 3 9 1 RdLock ?b ?w = Some ((RdLocked, ?b), ?w2)"
    using pipe_take_ready [of 1 ?w 0] ex_lock_ready by (simp add: pipe_fops_read_def read_end_def ex_pipe_def)
  obtain rb' where g: "rt_ringbuffer_get rb_example ?b 3 = Some (3, [3, 4, 5], rb')"
    using rb_get_takes [OF rb_example_facts(1), of 3 ?b] by (auto simp: rb_example_facts)
  have "\<exists>w3. pipe_fops_read ?u read_end 3 9 1 RdLocked ?b ?w2 = Some ((RdWake 3, [3, 4, 5]), w3)"
    using g by (simp add: pipe_fops_read_def read_end_def read_locked_def ex_pipe_def)
  then obtain w3 where s3: "pipe_fops_read ?u read_end 3 9 1 RdLocked ?b ?w2 = Some ((RdWake 3, [3, 4, 5]), w3)" by blast
  have cur2: "rt_current_thread (kernel ?w2) = Some 1" by simp
  have m: "read_moved RdStart RdLock ?b = []" "read_moved RdLock RdLocked ?b = []"
    "read_moved RdLocked (RdWake 3) [3, 4, 5] = [3, 4, 5]" by (simp_all add: read_moved_def)
  have 1: "pipe_run ?u 0 ?w ?w ((\<lambda>_. None)(1 := ?c RdStart ?b)) ((\<lambda>_. [])(1 := [])) [] []"
    by (rule pipe_run.read_call [OF pipe_run.start]) (simp_all add: read_end_def)
  obtain cs2 acc2 where 2: "pipe_run ?u 0 ?w ?w cs2 acc2 [] []" "cs2 1 = ?c RdLock ?b"
    using reader_step [OF 1 _ cur s1] by (auto simp: m)
  obtain cs3 acc3 where 3: "pipe_run ?u 0 ?w ?w2 cs3 acc3 [] []" "cs3 1 = ?c RdLocked ?b"
    using reader_step [OF 2 cur s2] by (auto simp: m)
  obtain cs acc where r: "pipe_run ?u 0 ?w w3 cs acc [] [3, 4, 5]"
    using reader_step [OF 3 cur2 s3] by (auto simp: m)
  have fo: "fifo (the_pipe 0 ?w) = Some rb_example" by (simp add: ex_pipe_def)
  have "\<exists>rb'. fifo (the_pipe 0 w3) = Some rb' \<and> rb_data rb' = [6]"
    using pipe_is_stream [OF fo rb_example_facts(1) r] by (auto simp: rb_example_facts)
  with r show ?thesis by blast
qed





end
