(* ===== verification/Spec2Isabelle.thy ===== *)
theory Spec2Isabelle
  imports RTT_Prelude RTT_Fifo RTT_RingBuffer RTT_Ffs RTT_State RTT_Sched RTT_Object RTT_Timer
    RTT_Thread RTT_ThreadInv RTT_Tick RTT_Ipc RTT_Sem
    RTT_Mutex RTT_Event RTT_Mailbox RTT_MsgQueue RTT_Completion RTT_Expiry RTT_MemPool
    RTT_WaitQueue RTT_WorkQueue RTT_KService RTT_Printf RTT_Allocator RTT_HeapBlocks RTT_HeapRep
    RTT_MemHeap RTT_Pages RTT_Slab RTT_SlabInv RTT_SlabAlloc RTT_SlabHeap RTT_Registry RTT_Device RTT_Pipe RTT_PipeFile
    RTT_Examples RTT_IpcExamples RTT_DriverExamples RTT_HeapExamples RTT_SlabExamples RTT_PipeExamples
begin

text \<open>
  The RT-Thread kernel of Melis 4.0 (\<^verbatim>\<open>src/source/ekernel/core/rt-thread\<close>), as configured for the
  single-core 32-bit ARM board: threads, scheduler, timers, the five IPC objects, memory pools and
  heaps, completions, wait queues, work queues, devices, pipes, the byte ring buffer and the memory,
  string and formatting routines. File names below are relative to that directory.

  \<^bold>\<open>How the program is modelled.\<close> The kernel's global variables and all its objects are one record,
  \<open>kstate\<close> (\<^theory_text>\<open>RTT_State\<close>). A pointer to an object is its number, \<open>obj\<close> is the pointer to an object
  header, and an intrusive list is a map from list heads to lists of members, with the field
  \<open>tlist\<close> of a thread for the list that its node is in; singly linked blocks of message queues and
  memory pools, and the rings of heap blocks, keep their link fields. Integers have the width of the
  C type (\<^verbatim>\<open>u8\<close>, \<^verbatim>\<open>u16\<close>, \<^verbatim>\<open>u32\<close> words, which wrap); indices into the model's tables are natural numbers.
  One definition stands for one C function, with the name of that function; static functions lose
  leading underscores. A result of type \<open>option\<close> is \<open>None\<close> when the code fails an \<^verbatim>\<open>RT_ASSERT\<close>, goes
  wrong in a way that C does not define (writes outside of its buffer, follows a null pointer), or
  does not return (\<open>partial_function\<close>); every property that speaks of a result proves that there is
  one. Error codes are integers, and every early return is a branch.

  A function that may block is split where it calls \<^verbatim>\<open>rt_schedule\<close>: it returns \<open>Blocked\<close> with its local
  variables and leaves the thread suspended, and its \<open>_wake\<close> function is the rest of the body, run when
  the thread is running again. Between the two anything may happen; the run relations (\<open>sem_run\<close>,
  \<open>mutex_run\<close>, \<open>mb_run\<close>, \<open>mq_run\<close>, \<open>mp_run\<close>, \<open>wkq_run\<close>) interleave such steps with arbitrary changes of
  the rest of the kernel. Stretches that the code runs with interrupts disabled or the scheduler
  locked are atomic. \<open>rt_schedule\<close> returns the state in which the chosen thread is current; the
  context switch itself is assembly.

  \<^bold>\<open>Theories.\<close>
  \<^item> \<^theory_text>\<open>RTT_Prelude\<close>: integer types, error codes, alignment macros and \<^verbatim>\<open>RT_ASSERT\<close> (\<^verbatim>\<open>include/rtdef.h\<close>,
    \<^verbatim>\<open>include/rtdebug.h\<close>), and the lemmas on words, lists and options that all components share.
  \<^item> \<^theory_text>\<open>RTT_State\<close>, \<^theory_text>\<open>RTT_Object\<close>: the kernel data, and \<^verbatim>\<open>object.c\<close>: registration of objects in the
    containers of their class.
  \<^item> \<^theory_text>\<open>RTT_Ffs\<close>, \<^theory_text>\<open>RTT_Sched\<close>: \<^verbatim>\<open>__rt_ffs\<close> (\<^verbatim>\<open>kservice.c\<close>), the preemption counter (\<^verbatim>\<open>include/preempt.h\<close>,
    \<^verbatim>\<open>irq.c\<close>) and \<^verbatim>\<open>scheduler.c\<close>. The invariant \<open>sched_inv\<close> says that the ready lists hold exactly the ready
    threads, each in the list of its priority, and that the priority bitmap marks the nonempty lists;
    every operation of every component keeps it. A schedule runs the first thread of the highest
    priority, and never switches while locked or in an interrupt.
  \<^item> \<^theory_text>\<open>RTT_Timer\<close>, \<^theory_text>\<open>RTT_Tick\<close>, \<^theory_text>\<open>RTT_Expiry\<close>: \<^verbatim>\<open>timer.c\<close> and \<^verbatim>\<open>clock.c\<close>: ordered, stable insertion across the
    wrap of the 32-bit tick, and the expiry loop, which ends and wakes exactly the threads that are due.
  \<^item> \<^theory_text>\<open>RTT_Thread\<close>, \<^theory_text>\<open>RTT_ThreadInv\<close>: \<^verbatim>\<open>thread.c\<close> and the idle thread's cleanup (\<^verbatim>\<open>idle.c\<close>).
  \<^item> \<^theory_text>\<open>RTT_Ipc\<close>, \<^theory_text>\<open>RTT_Sem\<close>, \<^theory_text>\<open>RTT_Mutex\<close>, \<^theory_text>\<open>RTT_Event\<close>, \<^theory_text>\<open>RTT_Mailbox\<close>, \<^theory_text>\<open>RTT_MsgQueue\<close>: \<^verbatim>\<open>ipc.c\<close>: the waiting
    queues, and each object with its behaviour on every branch and its contract over whole runs:
    conservation of units, the recursive lock, no lost wake-up, first-in first-out delivery, partition
    of the message blocks.
  \<^item> \<^theory_text>\<open>RTT_MemPool\<close>, \<^theory_text>\<open>RTT_Completion\<close>, \<^theory_text>\<open>RTT_WaitQueue\<close>, \<^theory_text>\<open>RTT_WorkQueue\<close>: \<^verbatim>\<open>mempool.c\<close>, \<^verbatim>\<open>completion.c\<close>,
    \<^verbatim>\<open>waitqueue.c\<close> with \<^verbatim>\<open>include/waitqueue.h\<close>, \<^verbatim>\<open>workqueue.c\<close>.
  \<^item> \<^theory_text>\<open>RTT_Fifo\<close> is the contract of a bounded queue, as a locale; \<^theory_text>\<open>RTT_RingBuffer\<close> (\<^verbatim>\<open>ringbuffer.c\<close>) and
    \<^theory_text>\<open>RTT_Mailbox\<close> interpret it.
  \<^item> \<^theory_text>\<open>RTT_Allocator\<close> is the contract of a heap, as a locale, with the theorem on client programs;
    \<^theory_text>\<open>RTT_HeapBlocks\<close> (steps on the rings of blocks), \<^theory_text>\<open>RTT_HeapRep\<close> (they refine layouts: adjacent blocks
    that tile the area) and \<^theory_text>\<open>RTT_MemHeap\<close> (the calls, which take the lock) model \<^verbatim>\<open>memheap.c\<close> and
    interpret it.
  \<^item> \<^theory_text>\<open>RTT_Pages\<close>, \<^theory_text>\<open>RTT_Slab\<close>: \<^verbatim>\<open>slab.c\<close>, the heap of the configured system, and \<^verbatim>\<open>rt_malloc\<close>, \<^verbatim>\<open>rt_free\<close> of
    \<^verbatim>\<open>wrapper/epos.c\<close>: the list of free pages, which refines a list of runs in address order; the zones of
    chunks and the large blocks. \<^theory_text>\<open>RTT_SlabInv\<close> states the invariant (the pages are cut into free runs,
    zones in use, idle zones and large blocks; each zone counts its chunks and links the free ones),
    \<^theory_text>\<open>RTT_SlabAlloc\<close> and \<^theory_text>\<open>RTT_SlabHeap\<close> prove that allocation, freeing, reallocation and the start keep it, and
    interpret the contract of \<^theory_text>\<open>RTT_Allocator\<close>.
  \<^item> \<^theory_text>\<open>RTT_Registry\<close>: whole runs of \<^verbatim>\<open>object.c\<close> keep each object once, in the container of its class, so a
    lookup returns what it is asked for.
  \<^item> \<^theory_text>\<open>RTT_Device\<close>: \<^verbatim>\<open>device.c\<close>, over a world of kernel, devices and the memory of drivers. Every run of
    opens and closes is a history of a contract of counted handles, and two ways to lose a device.
  \<^item> \<^theory_text>\<open>RTT_Pipe\<close>, \<^theory_text>\<open>RTT_PipeFile\<close>: \<^verbatim>\<open>pipe.c\<close>, a driver over the ring buffer, a mutex and two wait queues. Its
    device functions and creation; its file operations as machines that stop in front of each kernel
    call, with the theorem that any interleaving of readers and writers is one stream of bytes.
  \<^item> \<^theory_text>\<open>RTT_KService\<close>, \<^theory_text>\<open>RTT_Printf\<close>: the memory and string functions of \<^verbatim>\<open>kservice.c\<close> on a memory of bytes,
    and \<^verbatim>\<open>rt_vsnprintf\<close>, whose output is proved equal to a text read off the format.
  \<^item> \<^theory_text>\<open>RTT_Examples\<close>, \<^theory_text>\<open>RTT_IpcExamples\<close>, \<^theory_text>\<open>RTT_DriverExamples\<close>, \<^theory_text>\<open>RTT_HeapExamples\<close>,
    \<^theory_text>\<open>RTT_SlabExamples\<close>, \<^theory_text>\<open>RTT_PipeExamples\<close>: a concrete kernel state, heap, driver and pipe, and the properties applied to them.

  \<^bold>\<open>Parameters and bounds.\<close> Where other components call \<^verbatim>\<open>rt_malloc\<close>, its result is an argument; so are the wake functions of drivers, the functions of
  a device's driver and of user timers and works, the calls \<^verbatim>\<open>open\<close> and \<^verbatim>\<open>close\<close> of the file system, and the kinds of a variable argument list. There is no fuel:
  loops are structural, have a measure, or are partial functions whose termination is a property.
  Timeouts are below half of the tick range, as \<^verbatim>\<open>rt_timer_start\<close> asserts. Addresses do not wrap inside
  one object.

  \<^bold>\<open>Not modelled.\<close> The context switch, interrupt masks and start-up of \<^verbatim>\<open>arch\<close> and \<^verbatim>\<open>components.c\<close>; hooks,
  which the configuration leaves empty; the console and \<^verbatim>\<open>rt_kprintf\<close>, which are output; \<^verbatim>\<open>rt_malloc\<close> over
  \<^verbatim>\<open>memheap.c\<close>, the debug code and leak detection of \<^verbatim>\<open>slab.c\<close> and \<^verbatim>\<open>wrapper/epos.c\<close>, and the small allocator \<^verbatim>\<open>mem.c\<close>, which the configuration does not select;
  \<^verbatim>\<open>signal.c\<close>, which is not configured; symmetric multiprocessing;
  dynamic modules (\<^verbatim>\<open>libdl\<close>), the CMSIS and Melis layers above the kernel. Outside of the kernel directory:
  drivers, file systems, network stacks, vendor and third-party code.
\<close>

end
